(* ===== verification/Go_Prelude.thy ===== *)
theory Go_Prelude
  imports Main "HOL-Library.Sublist" "HOL-Library.AList"
begin

text \<open>
  The part of the Go language and its standard library that the modelled packages use, and the
  generic lemmas the components share.

  A Go string is a byte string: here a \<^typ>\<open>string\<close>, one \<^typ>\<open>char\<close> per byte. The functions of
  package \<open>strings\<close> that look at letters or white space (\<open>ToLower\<close>, \<open>TrimSpace\<close>) are given on
  ASCII; bytes above 127 are left as they are, so the models speak about ASCII input (switch
  configurations, interface names, list syntax) and about the bytes of other text only where the
  code does not inspect them. \<open>int\<close> and \<open>int64\<close> values are \<^typ>\<open>int\<close>; \<open>strconv.Atoi\<close> keeps the
  64-bit range check. A Go map that is ranged over is an association list in iteration order, so
  that a theorem about every list speaks about every iteration order.
\<close>

named_theorems go_defs \<open>unfolding rules of the string functions\<close>
named_theorems inv_intros \<open>preservation of the components' invariants\<close>

type_synonym device_id = int
type_synonym time = int        \<comment> \<open>time.Time: nanoseconds since the zero time\<close>
type_synonym duration = int    \<comment> \<open>time.Duration: nanoseconds\<close>

subsection \<open>White space and case\<close>

definition is_space :: "char \<Rightarrow> bool" where
  "is_space c \<longleftrightarrow> c = CHR '' '' \<or> c = CHR 0x09 \<or> c = CHR 0x0A \<or> c = CHR 0x0B
     \<or> c = CHR 0x0C \<or> c = CHR 0x0D"

definition is_upper :: "char \<Rightarrow> bool" where
  "is_upper c \<longleftrightarrow> 65 \<le> (of_char c :: nat) \<and> (of_char c :: nat) \<le> 90"

definition lower_char :: "char \<Rightarrow> char" where
  "lower_char c = (if is_upper c then char_of ((of_char c :: nat) + 32) else c)"

definition ToLower :: "string \<Rightarrow> string" where
  "ToLower s = map lower_char s"

definition trim_left :: "(char \<Rightarrow> bool) \<Rightarrow> string \<Rightarrow> string" where
  "trim_left p s = dropWhile p s"

definition trim_right :: "(char \<Rightarrow> bool) \<Rightarrow> string \<Rightarrow> string" where
  "trim_right p s = rev (dropWhile p (rev s))"

definition TrimSpace :: "string \<Rightarrow> string" where
  "TrimSpace s = trim_right is_space (trim_left is_space s)"

text \<open>\<open>strings.Trim(s, cutset)\<close>\<close>
definition Trim :: "string \<Rightarrow> string \<Rightarrow> string" where
  "Trim s cs = trim_right (\<lambda>c. c \<in> set cs) (trim_left (\<lambda>c. c \<in> set cs) s)"

subsection \<open>Prefixes, searching, replacing\<close>

fun HasPrefix :: "string \<Rightarrow> string \<Rightarrow> bool" where
  "HasPrefix s [] = True"
| "HasPrefix [] (p # ps) = False"
| "HasPrefix (c # cs) (p # ps) = (c = p \<and> HasPrefix cs ps)"

definition HasSuffix :: "string \<Rightarrow> string \<Rightarrow> bool" where
  "HasSuffix s p = HasPrefix (rev s) (rev p)"

definition TrimPrefix :: "string \<Rightarrow> string \<Rightarrow> string" where
  "TrimPrefix s p = (if HasPrefix s p then drop (length p) s else s)"

text \<open>\<open>strings.Index\<close>: the first position of the pattern, \<open>None\<close> for Go's -1.\<close>
fun Index :: "string \<Rightarrow> string \<Rightarrow> nat option" where
  "Index [] p = (if p = [] then Some 0 else None)"
| "Index (c # cs) p = (if HasPrefix (c # cs) p then Some 0 else map_option Suc (Index cs p))"

definition Contains :: "string \<Rightarrow> string \<Rightarrow> bool" where
  "Contains s p \<longleftrightarrow> Index s p \<noteq> None"

definition ContainsAny :: "string \<Rightarrow> string \<Rightarrow> bool" where
  "ContainsAny s cs \<longleftrightarrow> list_ex (\<lambda>c. c \<in> set cs) s"

text \<open>\<open>strings.IndexByte\<close>\<close>
fun IndexByte :: "string \<Rightarrow> char \<Rightarrow> nat option" where
  "IndexByte [] b = None"
| "IndexByte (c # cs) b = (if c = b then Some 0 else map_option Suc (IndexByte cs b))"

text \<open>\<open>strings.ReplaceAll\<close> for a non-empty pattern, left to right without overlaps.\<close>
function ReplaceAll :: "string \<Rightarrow> string \<Rightarrow> string \<Rightarrow> string" where
  "ReplaceAll [] old new = []"
| "ReplaceAll (c # cs) old new =
     (if old \<noteq> [] \<and> HasPrefix (c # cs) old
      then new @ ReplaceAll (drop (length old) (c # cs)) old new
      else c # ReplaceAll cs old new)"
  by pat_completeness auto
termination
  by (relation "measure (\<lambda>(s, old, new). length s)") (auto simp: neq_Nil_conv)

subsection \<open>Splitting and joining\<close>

text \<open>\<open>strings.Split\<close> with a one-byte separator.\<close>
fun Split :: "string \<Rightarrow> char \<Rightarrow> string list" where
  "Split [] sep = [[]]"
| "Split (c # cs) sep =
     (if c = sep then [] # Split cs sep
      else (case Split cs sep of [] \<Rightarrow> [[c]] | w # ws \<Rightarrow> (c # w) # ws))"

fun Join :: "string list \<Rightarrow> string \<Rightarrow> string" where
  "Join [] sep = []"
| "Join [w] sep = w"
| "Join (w # v # ws) sep = w @ sep @ Join (v # ws) sep"

text \<open>\<open>strings.Cut\<close> at a one-byte separator: before, after, found.\<close>
fun Cut :: "string \<Rightarrow> char \<Rightarrow> string \<times> string \<times> bool" where
  "Cut [] sep = ([], [], False)"
| "Cut (c # cs) sep =
     (if c = sep then ([], cs, True)
      else (case Cut cs sep of (a, b, f) \<Rightarrow> (c # a, b, f)))"

subsection \<open>Decimal numbers\<close>

definition is_digit :: "char \<Rightarrow> bool" where
  "is_digit c \<longleftrightarrow> 48 \<le> (of_char c :: nat) \<and> (of_char c :: nat) \<le> 57"

definition digit_val :: "char \<Rightarrow> int" where
  "digit_val c = int (of_char c) - 48"

definition digit_char :: "nat \<Rightarrow> char" where
  "digit_char d = char_of (48 + d)"

fun digits_val :: "int \<Rightarrow> string \<Rightarrow> int" where
  "digits_val acc [] = acc"
| "digits_val acc (c # cs) = digits_val (10 * acc + digit_val c) cs"

definition max_int64 :: int where "max_int64 = 9223372036854775807"
definition min_int64 :: int where "min_int64 = - 9223372036854775808"

definition in_int64 :: "int \<Rightarrow> bool" where
  "in_int64 n \<longleftrightarrow> min_int64 \<le> n \<and> n \<le> max_int64"

text \<open>\<open>strconv.Atoi\<close>: an optional sign, at least one digit, the 64-bit range; \<open>None\<close> is an error.\<close>
definition atoi_digits :: "string \<Rightarrow> int option" where
  "atoi_digits ds = (if ds \<noteq> [] \<and> list_all is_digit ds then Some (digits_val 0 ds) else None)"

definition Atoi :: "string \<Rightarrow> int option" where
  "Atoi s = (case (case s of
        [] \<Rightarrow> None
      | c # cs \<Rightarrow> if c = CHR ''-'' then map_option uminus (atoi_digits cs)
                  else if c = CHR ''+'' then atoi_digits cs else atoi_digits s) of
      None \<Rightarrow> None
    | Some n \<Rightarrow> if in_int64 n then Some n else None)"

fun nat_digits :: "nat \<Rightarrow> string" where
  "nat_digits n = (if n < 10 then [digit_char n] else nat_digits (n div 10) @ [digit_char (n mod 10)])"

declare nat_digits.simps [simp del]

text \<open>\<open>strconv.Itoa\<close>, also what \<open>fmt\<close> prints for \<open>%d\<close>.\<close>
definition Itoa :: "int \<Rightarrow> string" where
  "Itoa n = (if n < 0 then CHR ''-'' # nat_digits (nat (- n)) else nat_digits (nat n))"


section \<open>Laws\<close>

subsection \<open>Prefixes\<close>

lemma HasPrefix_iff: "HasPrefix s p \<longleftrightarrow> (\<exists>t. s = p @ t)"
  by (induction s p rule: HasPrefix.induct) auto

lemma HasPrefix_append [simp]: "HasPrefix (p @ t) p"
  by (simp add: HasPrefix_iff)

lemma TrimPrefix_append [simp]: "TrimPrefix (p @ t) p = t"
  by (simp add: TrimPrefix_def)

lemma HasPrefix_drop: "HasPrefix s p \<Longrightarrow> s = p @ drop (length p) s"
  by (auto simp: HasPrefix_iff)

lemma HasPrefix_length: "HasPrefix s p \<Longrightarrow> length p \<le> length s"
  by (auto simp: HasPrefix_iff)

lemma Index_None_iff: "p \<noteq> [] \<Longrightarrow> Index s p = None \<longleftrightarrow> (\<forall>u v. s \<noteq> u @ p @ v)"
proof (induction s)
  case Nil
  then show ?case by auto
next
  case (Cons c cs)
  show ?case
  proof
    assume none: "Index (c # cs) p = None"
    then have np: "\<not> HasPrefix (c # cs) p" and "Index cs p = None"
      by (auto split: if_splits)
    with Cons have rest: "\<forall>u v. cs \<noteq> u @ p @ v" by blast
    show "\<forall>u v. c # cs \<noteq> u @ p @ v"
    proof (intro allI notI)
      fix u v assume eq: "c # cs = u @ p @ v"
      show False
      proof (cases u)
        case Nil
        with eq np show False by (simp add: HasPrefix_iff)
      next
        case (Cons a w)
        with eq rest show False by auto
      qed
    qed
  next
    assume no: "\<forall>u v. c # cs \<noteq> u @ p @ v"
    then have "\<not> HasPrefix (c # cs) p"
      unfolding HasPrefix_iff by (metis append_Nil)
    moreover have "\<forall>u v. cs \<noteq> u @ p @ v"
      using no by (metis append_Cons)
    ultimately show "Index (c # cs) p = None" using Cons by simp
  qed
qed

lemma Contains_iff: "p \<noteq> [] \<Longrightarrow> Contains s p \<longleftrightarrow> (\<exists>u v. s = u @ p @ v)"
  using Index_None_iff [of p s] by (auto simp: Contains_def)

lemma Contains_char: "Contains s [c] \<longleftrightarrow> c \<in> set s"
  by (auto simp: Contains_iff in_set_conv_decomp)

subsection \<open>White space\<close>

definition trimmed :: "string \<Rightarrow> bool" where
  "trimmed s \<longleftrightarrow> (s = [] \<or> (\<not> is_space (hd s) \<and> \<not> is_space (last s)))"

lemma dropWhile_id: "s = [] \<or> \<not> p (hd s) \<Longrightarrow> dropWhile p s = s"
  by (cases s) auto

lemma trim_right_id: "s = [] \<or> \<not> p (last s) \<Longrightarrow> trim_right p s = s"
  unfolding trim_right_def by (subst dropWhile_id) (auto simp: hd_rev)

lemma TrimSpace_trimmed: "trimmed s \<Longrightarrow> TrimSpace s = s"
  unfolding TrimSpace_def trim_left_def trimmed_def
  by (metis dropWhile_id trim_right_id)

lemma trim_right_append: "\<exists>t. s = trim_right p s @ t \<and> (\<forall>c\<in>set t. p c)"
proof -
  have "s = trim_right p s @ rev (takeWhile p (rev s))"
    unfolding trim_right_def by (metis rev_append rev_rev_ident takeWhile_dropWhile_id)
  moreover have "\<forall>c\<in>set (rev (takeWhile p (rev s))). p c"
    by (auto dest: set_takeWhileD)
  ultimately show ?thesis by blast
qed

lemma last_trim_right: "trim_right p s \<noteq> [] \<Longrightarrow> \<not> p (last (trim_right p s))"
  unfolding trim_right_def by (metis hd_dropWhile last_rev rev_is_Nil_conv)

lemma hd_trim_right: "trim_right p s \<noteq> [] \<Longrightarrow> hd (trim_right p s) = hd s"
  using trim_right_append [of s p] by (metis hd_append2)

lemma trimmed_TrimSpace: "trimmed (TrimSpace s)"
proof (cases "TrimSpace s = []")
  case True
  then show ?thesis by (simp add: trimmed_def)
next
  case False
  then have "hd (TrimSpace s) = hd (trim_left is_space s)" and "trim_left is_space s \<noteq> []"
    unfolding TrimSpace_def using hd_trim_right by (auto simp: trim_right_def)
  then have "\<not> is_space (hd (TrimSpace s))"
    unfolding trim_left_def using hd_dropWhile [of is_space s] by simp
  with False last_trim_right show ?thesis
    unfolding trimmed_def TrimSpace_def by blast
qed

lemma TrimSpace_idem [simp]: "TrimSpace (TrimSpace s) = TrimSpace s"
  by (rule TrimSpace_trimmed) (rule trimmed_TrimSpace)

lemma set_TrimSpace: "set (TrimSpace s) \<subseteq> set s"
  unfolding TrimSpace_def trim_left_def trim_right_def
  by (metis set_dropWhileD set_rev subsetI)

lemma TrimSpace_Nil [simp]: "TrimSpace [] = []"
  by (simp add: TrimSpace_def trim_left_def trim_right_def)

lemma TrimSpace_no_space: "\<forall>c\<in>set s. \<not> is_space c \<Longrightarrow> TrimSpace s = s"
  by (rule TrimSpace_trimmed) (auto simp: trimmed_def)

lemma TrimSpace_Cons_space: "is_space c \<Longrightarrow> TrimSpace (c # s) = TrimSpace s"
  by (simp add: TrimSpace_def trim_left_def)

lemma Trim_id: "\<forall>c\<in>set s. c \<notin> set cs \<Longrightarrow> Trim s cs = s"
  unfolding Trim_def trim_left_def
  by (metis dropWhile_id hd_in_set last_in_set trim_right_id)

subsection \<open>Lower case\<close>

lemma lower_char_idem [simp]: "lower_char (lower_char c) = lower_char c"
  unfolding lower_char_def is_upper_def by auto

lemma ToLower_idem [simp]: "ToLower (ToLower s) = ToLower s"
  by (simp add: ToLower_def)

lemma length_ToLower [simp]: "length (ToLower s) = length s"
  by (simp add: ToLower_def)

lemma ToLower_append: "ToLower (s @ t) = ToLower s @ ToLower t"
  by (simp add: ToLower_def)

lemma ToLower_id: "\<forall>c\<in>set s. \<not> is_upper c \<Longrightarrow> ToLower s = s"
  by (simp add: ToLower_def lower_char_def map_idI)

subsection \<open>Decimal numbers\<close>

lemma of_char_digit_char: "d < 10 \<Longrightarrow> (of_char (digit_char d) :: nat) = 48 + d"
  by (simp add: digit_char_def)

lemma is_digit_digit_char [simp]: "d < 10 \<Longrightarrow> is_digit (digit_char d)"
  by (simp add: is_digit_def of_char_digit_char)

lemma digit_val_digit_char [simp]: "d < 10 \<Longrightarrow> digit_val (digit_char d) = int d"
  by (simp add: digit_val_def of_char_digit_char)

lemma digits_val_append: "digits_val a (s @ [c]) = 10 * digits_val a s + digit_val c"
  by (induction s arbitrary: a) auto

lemma nat_digits_ne [simp]: "nat_digits n \<noteq> []"
  by (subst nat_digits.simps) simp

lemma nat_digits_digit: "c \<in> set (nat_digits n) \<Longrightarrow> is_digit c"
proof (induction n rule: nat_digits.induct)
  case (1 n)
  show ?case
  proof (cases "n < 10")
    case True
    with "1.prems" show ?thesis by (simp add: nat_digits.simps [of n])
  next
    case False
    with "1.prems" "1.IH" show ?thesis by (auto simp: nat_digits.simps [of n])
  qed
qed

lemma digits_val_nat_digits: "digits_val 0 (nat_digits n) = int n"
proof (induction n rule: nat_digits.induct)
  case (1 n)
  show ?case
  proof (cases "n < 10")
    case True
    then show ?thesis by (simp add: nat_digits.simps [of n])
  next
    case False
    with "1.IH" have "digits_val 0 (nat_digits n) = 10 * int (n div 10) + int (n mod 10)"
      by (simp add: nat_digits.simps [of n] digits_val_append)
    also have "\<dots> = int n" by presburger
    finally show ?thesis .
  qed
qed

lemma not_digit_sign [simp]: "\<not> is_digit CHR ''-''" "\<not> is_digit CHR ''+''"
  "\<not> is_digit CHR '',''" "\<not> is_digit CHR '' ''" "\<not> is_digit CHR '';''" "\<not> is_digit CHR ''/''"
  "\<not> is_digit CHR '':''"
  by (simp_all add: is_digit_def)

lemma is_digit_not_space: "is_digit c \<Longrightarrow> \<not> is_space c"
  by (auto simp: is_digit_def is_space_def)

lemma is_digit_not_upper: "is_digit c \<Longrightarrow> \<not> is_upper c"
  by (auto simp: is_digit_def is_upper_def)

lemma atoi_digits_nat_digits: "atoi_digits (nat_digits n) = Some (int n)"
  by (auto simp: atoi_digits_def digits_val_nat_digits list_all_iff nat_digits_digit)

theorem Atoi_Itoa: "in_int64 n \<Longrightarrow> Atoi (Itoa n) = Some n"
proof (cases "n < 0")
  case True
  assume "in_int64 n"
  with True show ?thesis
    by (simp add: Atoi_def Itoa_def atoi_digits_nat_digits)
next
  case False
  assume r: "in_int64 n"
  obtain c cs where eq: "nat_digits (nat n) = c # cs" by (cases "nat_digits (nat n)") auto
  then have "is_digit c" by (metis list.set_intros(1) nat_digits_digit)
  then have "c \<noteq> CHR ''-''" and "c \<noteq> CHR ''+''" by auto
  moreover have "atoi_digits (c # cs) = Some n"
    using False atoi_digits_nat_digits [of "nat n"] by (simp add: eq)
  ultimately show ?thesis using False r by (simp add: Atoi_def Itoa_def eq)
qed

lemma Itoa_ne [simp]: "Itoa n \<noteq> []"
  by (simp add: Itoa_def)

lemma Itoa_chars: "c \<in> set (Itoa n) \<Longrightarrow> is_digit c \<or> c = CHR ''-''"
  by (auto simp: Itoa_def dest: nat_digits_digit split: if_splits)

lemma Itoa_nonneg_digit: "0 \<le> n \<Longrightarrow> c \<in> set (Itoa n) \<Longrightarrow> is_digit c"
  by (auto simp: Itoa_def dest: nat_digits_digit split: if_splits)

lemma Itoa_no_space: "\<forall>c\<in>set (Itoa n). \<not> is_space c"
proof
  fix c assume "c \<in> set (Itoa n)"
  then have "is_digit c \<or> c = CHR ''-''" by (rule Itoa_chars)
  then show "\<not> is_space c" by (elim disjE) (simp_all add: is_digit_not_space, simp add: is_space_def)
qed

lemma Itoa_no_upper: "\<forall>c\<in>set (Itoa n). \<not> is_upper c"
proof
  fix c assume "c \<in> set (Itoa n)"
  then have "is_digit c \<or> c = CHR ''-''" by (rule Itoa_chars)
  then show "\<not> is_upper c" by (elim disjE) (simp_all add: is_digit_not_upper, simp add: is_upper_def)
qed

lemma ToLower_Itoa [simp]: "ToLower (Itoa n) = Itoa n"
  by (rule ToLower_id) (rule Itoa_no_upper)

lemma TrimSpace_Itoa [simp]: "TrimSpace (Itoa n) = Itoa n"
  by (rule TrimSpace_no_space) (rule Itoa_no_space)

lemma nat_digits_inj: "nat_digits m = nat_digits n \<Longrightarrow> m = n"
  by (metis digits_val_nat_digits of_nat_eq_iff)

lemma Itoa_inj: "Itoa m = Itoa n \<Longrightarrow> m = n"
proof -
  assume eq: "Itoa m = Itoa n"
  have sign: "hd (nat_digits k) \<noteq> CHR ''-''" for k
    by (metis hd_in_set nat_digits_digit nat_digits_ne not_digit_sign(1))
  from eq sign have "m < 0 \<longleftrightarrow> n < 0"
    unfolding Itoa_def by (metis list.sel(1))
  with eq show "m = n"
    by (auto simp: Itoa_def dest!: nat_digits_inj split: if_splits)
qed

subsection \<open>Splitting, joining, replacing\<close>

lemma Split_ne [simp]: "Split s sep \<noteq> []"
  by (induction s) (auto split: list.splits)

lemma Split_no_sep: "sep \<notin> set w \<Longrightarrow> Split w sep = [w]"
  by (induction w) auto

lemma Split_append: "sep \<notin> set w \<Longrightarrow> Split (w @ sep # s) sep = w # Split s sep"
  by (induction w) auto

lemma Split_Join:
  "ws \<noteq> [] \<Longrightarrow> \<forall>w\<in>set ws. sep \<notin> set w \<Longrightarrow> Split (Join ws [sep]) sep = ws"
  by (induction ws "[sep]" rule: Join.induct) (simp_all add: Split_no_sep Split_append)

lemma Join_Split: "Join (Split s sep) [sep] = s"
proof (induction s)
  case Nil
  then show ?case by simp
next
  case (Cons c cs)
  obtain w ws where eq: "Split cs sep = w # ws" by (cases "Split cs sep") auto
  with Cons show ?case by (cases ws) auto
qed

lemma set_Join: "set (Join ws sep) \<subseteq> (\<Union>w\<in>set ws. set w) \<union> set sep"
  by (induction ws sep rule: Join.induct) auto

lemma ReplaceAll_char: "ReplaceAll s [a] new = concat (map (\<lambda>c. if c = a then new else [c]) s)"
  by (induction s) auto

lemma ReplaceAll_absent: "\<not> Contains s p \<Longrightarrow> p \<noteq> [] \<Longrightarrow> ReplaceAll s p new = s"
  by (induction s) (auto simp: Contains_def split: if_splits)

lemma length_ReplaceAll:
  "length new < length old \<Longrightarrow> Contains s old \<Longrightarrow> length (ReplaceAll s old new) < length s"
proof -
  have le: "length new < length old \<Longrightarrow> length (ReplaceAll s old new) \<le> length s" for s
  proof (induction s old new rule: ReplaceAll.induct)
    case (2 c cs old new)
    then show ?case
    proof (cases "old \<noteq> [] \<and> HasPrefix (c # cs) old")
      case True
      then have "length old \<le> length (c # cs)" using HasPrefix_length by blast
      with True 2 show ?thesis by (simp split: if_splits)
    qed auto
  qed simp
  show "length new < length old \<Longrightarrow> Contains s old \<Longrightarrow> ?thesis"
  proof (induction s)
    case Nil
    then show ?case by (simp add: Contains_def split: if_splits)
  next
    case (Cons c cs)
    show ?case
    proof (cases "HasPrefix (c # cs) old")
      case True
      then have "length old \<le> length (c # cs)" using HasPrefix_length by blast
      with True Cons.prems le [of "drop (length old) (c # cs)"] show ?thesis by auto
    next
      case False
      with Cons show ?thesis by (auto simp: Contains_def split: if_splits)
    qed
  qed
qed


subsection \<open>Loops that keep the best candidate\<close>

text \<open>
  Several loops keep the identifier with the highest score and, among equals, the smallest
  identifier; 0 stands for "none yet". Such a loop may range over a Go map, so its result must not
  depend on the order.
\<close>
locale best_pick =
  fixes step :: "int \<times> 's::linorder \<Rightarrow> 'x \<Rightarrow> int \<times> 's" and score :: "'x \<Rightarrow> 's" and ident :: "'x \<Rightarrow> int"
    and dom :: "'x \<Rightarrow> bool"
  assumes step_law: "dom x \<Longrightarrow> b \<noteq> 0 \<or> score x > s \<Longrightarrow>
      step (b, s) x = (if score x > s \<or> (score x = s \<and> ident x < b) then (ident x, score x) else (b, s))"
    and ident_nz: "dom x \<Longrightarrow> ident x \<noteq> 0"
begin

definition best_of :: "'x set \<Rightarrow> int \<times> 's \<Rightarrow> bool" where
  "best_of X r \<longleftrightarrow> (\<exists>x\<in>X. ident x = fst r \<and> score x = snd r) \<and>
     (\<forall>y\<in>X. score y \<le> snd r \<and> (score y = snd r \<longrightarrow> fst r \<le> ident y))"

lemma best_step:
  assumes "\<forall>y\<in>insert x X. dom y" "best_of X r"
  shows "best_of (insert x X) (step r x)"
proof -
  obtain b s where r: "r = (b, s)" by (cases r)
  have "b \<noteq> 0" using assms r ident_nz by (auto simp: best_of_def)
  then have st: "step r x = (if score x > s \<or> (score x = s \<and> ident x < b) then (ident x, score x) else (b, s))"
    using assms r step_law by simp
  show ?thesis
  proof (cases "score x > s \<or> (score x = s \<and> ident x < b)")
    case True
    then have "step r x = (ident x, score x)" by (simp add: st)
    moreover have "\<forall>y\<in>X. score y \<le> score x \<and> (score y = score x \<longrightarrow> ident x \<le> ident y)"
      using True assms(2) r unfolding best_of_def by fastforce
    ultimately show ?thesis by (simp add: best_of_def)
  next
    case False
    then have sr: "step r x = r" unfolding st by (simp add: r)
    show ?thesis unfolding sr using False assms(2) by (auto simp: r best_of_def)
  qed
qed

lemma best_foldl_from:
  "best_of X r \<Longrightarrow> \<forall>y\<in>X \<union> set xs. dom y \<Longrightarrow> best_of (X \<union> set xs) (foldl step r xs)"
proof (induction xs arbitrary: X r)
  case (Cons x xs)
  then have "best_of (insert x X) (step r x)" by (intro best_step) auto
  with Cons.IH [of "insert x X" "step r x"] Cons.prems show ?case by simp
qed simp

lemma best_foldl:
  assumes "xs \<noteq> []" "\<forall>x\<in>set xs. dom x \<and> score x > s0"
  shows "best_of (set xs) (foldl step (b0, s0) xs)"
proof -
  obtain x ys where xs: "xs = x # ys" using assms(1) by (cases xs) auto
  have "step (b0, s0) x = (ident x, score x)" using assms(2) step_law by (simp add: xs)
  moreover have "best_of {x} (ident x, score x)" by (simp add: best_of_def)
  ultimately show ?thesis
    using best_foldl_from [of "{x}" "(ident x, score x)" ys] assms(2) by (simp add: xs)
qed

lemma best_unique: "best_of X r \<Longrightarrow> best_of X r' \<Longrightarrow> r = r'"
proof -
  assume a: "best_of X r" "best_of X r'"
  then obtain x y where xy: "x \<in> X" "ident x = fst r" "score x = snd r" "y \<in> X" "ident y = fst r'" "score y = snd r'"
    by (auto simp: best_of_def)
  with a have "snd r \<le> snd r'" "snd r' \<le> snd r" by (auto simp: best_of_def)
  then have "snd r = snd r'" by simp
  moreover from this xy a have "fst r \<le> fst r'" "fst r' \<le> fst r" by (auto simp: best_of_def)
  ultimately show ?thesis by (simp add: prod_eq_iff)
qed

end

section \<open>Folds and association lists\<close>

text \<open>A loop keeps what every step keeps.\<close>
lemma foldl_inv:
  assumes "P s" "\<And>s x. P s \<Longrightarrow> x \<in> set xs \<Longrightarrow> P (f s x)"
  shows "P (foldl f s xs)"
  using assms by (induction xs arbitrary: s) auto

text \<open>The keys and the values of a map after an assignment.\<close>
lemma update_keys: "set (map fst (AList.update k v m)) = insert k (set (map fst m))"
  by (metis image_set dom_map_of_conv_image_fst dom_fun_upd option.distinct(1) update_conv')

lemma update_ball:
  assumes "\<forall>(k, v)\<in>set m. P k v" "P k v"
  shows "\<forall>(k, v)\<in>set (AList.update k v m). P k v"
  using assms by (induction m) auto

end
