(* ===== verification/Line_Diff.thy ===== *)
theory Line_Diff
  imports Go_Prelude
begin

text \<open>
  The line diff of two saved switch configurations (\<open>internal/swcfg/diff.go\<close>): the texts are split
  into lines, a table of longest-common-subsequence lengths is filled row by row, and a walk back
  through the table produces the equal, inserted and deleted lines. The lemmas show that the diff
  reproduces both texts, numbers their lines correctly and keeps as many lines as any common
  subsequence could.
\<close>

datatype DiffKind = DiffEqual | DiffInsert | DiffDelete

record DiffLine =
  Kind :: DiffKind
  Text :: string
  OldLine :: "nat option"
  NewLine :: "nat option"

definition splitConfigLines :: "string \<Rightarrow> string list" where
  "splitConfigLines s0 =
     (let s1 = ReplaceAll s0 [CHR 0x0D, CHR 0x0A] [CHR 0x0A];
          s = ReplaceAll s1 [CHR 0x0D] [CHR 0x0A]
      in if s = [] then []
         else let lines = Split s CHR 0x0A
              in if lines \<noteq> [] \<and> last lines = [] then butlast lines else lines)"

text \<open>
  One row of the table: \<open>prev\<close> is \<open>dp[i-1][j-1..]\<close>, \<open>left\<close> is \<open>dp[i][j-1]\<close>. A row always has
  \<open>n+1\<close> cells, so the row above is never shorter than the second text.
\<close>
fun lcs_cells :: "string \<Rightarrow> string list \<Rightarrow> nat list \<Rightarrow> nat \<Rightarrow> nat list" where
  "lcs_cells x (y # ys) (d # u # ps) left =
     (let v = (if x = y then d + 1 else if u \<ge> left then u else left)
      in v # lcs_cells x ys (u # ps) v)"
| "lcs_cells x ys ps left = []"

fun lcs_rows :: "string list \<Rightarrow> string list \<Rightarrow> nat list \<Rightarrow> nat list list" where
  "lcs_rows [] b prev = [prev]"
| "lcs_rows (x # xs) b prev = prev # lcs_rows xs b (0 # lcs_cells x b prev 0)"

definition lcsTable :: "string list \<Rightarrow> string list \<Rightarrow> nat list list" where
  "lcsTable a b = lcs_rows a b (replicate (length b + 1) 0)"

text \<open>The loop of \<open>backtrackDiff\<close>; \<open>acc\<close> is the slice \<open>rev\<close>.\<close>
function backtrack :: "string list \<Rightarrow> string list \<Rightarrow> nat list list \<Rightarrow> nat \<Rightarrow> nat \<Rightarrow> DiffLine list
    \<Rightarrow> DiffLine list" where
  "backtrack a b dp i j acc =
     (if i > 0 \<or> j > 0 then
        (if i > 0 \<and> j > 0 \<and> a ! (i - 1) = b ! (j - 1)
         then backtrack a b dp (i - 1) (j - 1)
                (acc @ [\<lparr>Kind = DiffEqual, Text = a ! (i - 1), OldLine = Some i, NewLine = Some j\<rparr>])
         else if j > 0 \<and> (i = 0 \<or> dp ! i ! (j - 1) \<ge> dp ! (i - 1) ! j)
         then backtrack a b dp i (j - 1)
                (acc @ [\<lparr>Kind = DiffInsert, Text = b ! (j - 1), OldLine = None, NewLine = Some j\<rparr>])
         else backtrack a b dp (i - 1) j
                (acc @ [\<lparr>Kind = DiffDelete, Text = a ! (i - 1), OldLine = Some i, NewLine = None\<rparr>]))
      else acc)"
  by pat_completeness auto
termination
  by (relation "measure (\<lambda>(a, b, dp, i, j, acc). i + j)") auto

declare backtrack.simps [simp del]

definition backtrackDiff :: "string list \<Rightarrow> string list \<Rightarrow> nat list list \<Rightarrow> DiffLine list" where
  "backtrackDiff a b dp = rev (backtrack a b dp (length a) (length b) [])"

definition LineDiff :: "string \<Rightarrow> string \<Rightarrow> DiffLine list" where
  "LineDiff oldText newText =
     (let oldLines = splitConfigLines oldText; newLines = splitConfigLines newText;
          lcs = lcsTable oldLines newLines
      in backtrackDiff oldLines newLines lcs)"

record DiffStats =
  EqualCount :: nat
  InsertCount :: nat
  DeleteCount :: nat

fun stats_step :: "DiffStats \<Rightarrow> DiffLine \<Rightarrow> DiffStats" where
  "stats_step st l = (case Kind l of
      DiffEqual \<Rightarrow> st\<lparr>EqualCount := EqualCount st + 1\<rparr>
    | DiffInsert \<Rightarrow> st\<lparr>InsertCount := InsertCount st + 1\<rparr>
    | DiffDelete \<Rightarrow> st\<lparr>DeleteCount := DeleteCount st + 1\<rparr>)"

definition DiffStatsFrom :: "DiffLine list \<Rightarrow> DiffStats" where
  "DiffStatsFrom lines = foldl stats_step \<lparr>EqualCount = 0, InsertCount = 0, DeleteCount = 0\<rparr> lines"

section \<open>The table holds the lengths of longest common subsequences\<close>

fun lcs_len :: "string list \<Rightarrow> string list \<Rightarrow> nat \<Rightarrow> nat \<Rightarrow> nat" where
  "lcs_len a b 0 j = 0"
| "lcs_len a b i 0 = 0"
| "lcs_len a b (Suc i) (Suc j) =
     (if a ! i = b ! j then lcs_len a b i j + 1 else max (lcs_len a b i (Suc j)) (lcs_len a b (Suc i) j))"

definition lcs_row :: "string list \<Rightarrow> string list \<Rightarrow> nat \<Rightarrow> nat list" where
  "lcs_row a b i = map (lcs_len a b i) [0..<length b + 1]"

lemma lcs_len_0 [simp]: "lcs_len a b i 0 = 0"
  by (cases i) auto


lemma lcs_cells_correct:
  "j \<le> length b \<Longrightarrow>
   lcs_cells (a ! i) (drop j b) (map (lcs_len a b i) [j..<length b + 1]) (lcs_len a b (Suc i) j)
     = map (lcs_len a b (Suc i)) [Suc j..<length b + 1]"
proof (induction "length b - j" arbitrary: j)
  case 0
  then show ?case by simp
next
  case (Suc n)
  let ?v = "lcs_len a b (Suc i) (Suc j)"
  from Suc have j: "j < length b" by simp
  then have d: "drop j b = b ! j # drop (Suc j) b" by (simp add: Cons_nth_drop_Suc)
  have u: "[j..<length b + 1] = j # Suc j # [Suc (Suc j)..<length b + 1]"
    and u': "[Suc j..<length b + 1] = Suc j # [Suc (Suc j)..<length b + 1]"
    using j by (simp_all add: upt_conv_Cons del: upt_Suc)
  have v: "?v = (if a ! i = b ! j then lcs_len a b i j + 1
         else if lcs_len a b i (Suc j) \<ge> lcs_len a b (Suc i) j then lcs_len a b i (Suc j)
         else lcs_len a b (Suc i) j)" by auto
  have IH: "lcs_cells (a ! i) (drop (Suc j) b) (map (lcs_len a b i) [Suc j..<length b + 1]) ?v
      = map (lcs_len a b (Suc i)) [Suc (Suc j)..<length b + 1]"
    using Suc.hyps(1) [of "Suc j"] Suc.hyps(2) j by linarith
  show ?case
    using IH unfolding d u u' list.map lcs_cells.simps Let_def v [symmetric] by simp
qed

lemma lcs_rows_correct:
  "i \<le> length a \<Longrightarrow>
   lcs_rows (drop i a) b (lcs_row a b i) = map (lcs_row a b) [i..<length a + 1]"
proof (induction "length a - i" arbitrary: i)
  case 0
  then show ?case by simp
next
  case (Suc n)
  from Suc have i: "i < length a" by simp
  then have d: "drop i a = a ! i # drop (Suc i) a" by (simp add: Cons_nth_drop_Suc)
  have "0 # lcs_cells (a ! i) b (lcs_row a b i) 0 = lcs_row a b (Suc i)"
    using lcs_cells_correct [of 0 b a i] unfolding lcs_row_def
    by (simp add: upt_conv_Cons del: upt_Suc)
  moreover have "[i..<length a + 1] = i # [Suc i..<length a + 1]"
    using i by (simp add: upt_conv_Cons del: upt_Suc)
  moreover have "lcs_rows (drop (Suc i) a) b (lcs_row a b (Suc i)) = map (lcs_row a b) [Suc i..<length a + 1]"
    using Suc.hyps(1) [of "Suc i"] Suc.hyps(2) i by linarith
  ultimately show ?case unfolding d by simp
qed

lemma lcsTable_nth:
  assumes "i \<le> length a" "j \<le> length b"
  shows "lcsTable a b ! i ! j = lcs_len a b i j"
proof -
  have "replicate (length b + 1) 0 = lcs_row a b 0"
    by (rule nth_equalityI) (simp_all add: lcs_row_def nth_Cons' del: upt_Suc)
  then have "lcsTable a b = map (lcs_row a b) [0..<length a + 1]"
    using lcs_rows_correct [of 0 a b] by (simp add: lcsTable_def del: upt_Suc replicate_Suc)
  with assms show ?thesis by (simp add: lcs_row_def del: upt_Suc)
qed

lemma subseq_snoc:
  "subseq c (xs @ [x]) \<Longrightarrow> subseq c xs \<or> (\<exists>c'. c = c' @ [x] \<and> subseq c' xs)"
proof -
  assume "subseq c (xs @ [x])"
  then obtain c1 c2 where c: "c = c1 @ c2" "subseq c1 xs" "subseq c2 [x]"
    by (auto simp: subseq_append_iff)
  from c(3) have "c2 = [] \<or> c2 = [x]"
    by (cases c2) (auto split: if_splits)
  with c show ?thesis by auto
qed

lemma subseq_take_Suc:
  "subseq c (take (Suc i) xs) \<Longrightarrow> i < length xs \<Longrightarrow>
   subseq c (take i xs) \<or> (\<exists>c'. c = c' @ [xs ! i] \<and> subseq c' (take i xs))"
  by (simp add: take_Suc_conv_app_nth subseq_snoc)

lemma subseq_butlast: "subseq c xs \<Longrightarrow> subseq (butlast c) xs"
  by (metis append_butlast_last_id butlast.simps(1) subseq_append_iff subseq_order.trans subseq_rev_drop_many subseq_order.order_refl)

lemma lcs_len_upper:
  "i \<le> length a \<Longrightarrow> j \<le> length b \<Longrightarrow> subseq c (take i a) \<Longrightarrow> subseq c (take j b)
    \<Longrightarrow> length c \<le> lcs_len a b i j"
proof (induction a b i j arbitrary: c rule: lcs_len.induct)
  case (3 a b i j)
  from "3.prems" have ca: "subseq c (take i a) \<or> (\<exists>c'. c = c' @ [a ! i] \<and> subseq c' (take i a))"
    and cb: "subseq c (take j b) \<or> (\<exists>c'. c = c' @ [b ! j] \<and> subseq c' (take j b))"
    using subseq_take_Suc [of c i a] subseq_take_Suc [of c j b] by auto
  show ?case
  proof (cases "a ! i = b ! j")
    case True
    have "subseq (butlast c) (take i a)" "subseq (butlast c) (take j b)"
      using ca cb by (auto dest: subseq_butlast)
    with True "3.IH"(1) [of "butlast c"] "3.prems"(1,2) have "length (butlast c) \<le> lcs_len a b i j"
      by simp
    with True show ?thesis by simp
  next
    case False
    with ca cb consider "subseq c (take i a)" | "subseq c (take j b)" by auto
    then show ?thesis
    proof cases
      case 1
      with False "3.IH"(2) "3.prems" have "length c \<le> lcs_len a b i (Suc j)" by auto
      with False show ?thesis by auto
    next
      case 2
      with False "3.IH"(3) "3.prems" have "length c \<le> lcs_len a b (Suc i) j" by auto
      with False show ?thesis by auto
    qed
  qed
qed auto

section \<open>The walk back reproduces both texts\<close>

abbreviation equal_lines :: "DiffLine list \<Rightarrow> DiffLine list" where
  "equal_lines \<equiv> filter (\<lambda>d. Kind d = DiffEqual)"

abbreviation old_side :: "DiffLine list \<Rightarrow> DiffLine list" where
  "old_side \<equiv> filter (\<lambda>d. Kind d \<noteq> DiffInsert)"

abbreviation new_side :: "DiffLine list \<Rightarrow> DiffLine list" where
  "new_side \<equiv> filter (\<lambda>d. Kind d \<noteq> DiffDelete)"

text \<open>A side of the diff, as the pairs of a line number and its text.\<close>
abbreviation numbered :: "string list \<Rightarrow> nat \<Rightarrow> (nat option \<times> string) list" where
  "numbered a n \<equiv> map (\<lambda>k. (Some (Suc k), a ! k)) [0..<n]"

lemma backtrack_sides:
  "map (\<lambda>d. (OldLine d, Text d)) (old_side (rev (backtrack a b dp i j acc)))
     = numbered a i @ map (\<lambda>d. (OldLine d, Text d)) (old_side (rev acc)) \<and>
   map (\<lambda>d. (NewLine d, Text d)) (new_side (rev (backtrack a b dp i j acc)))
     = numbered b j @ map (\<lambda>d. (NewLine d, Text d)) (new_side (rev acc))"
proof (induction a b dp i j acc rule: backtrack.induct)
  case (1 a b dp i j acc)
  consider "i = 0" "j = 0" | "i > 0" "j > 0" "a ! (i - 1) = b ! (j - 1)"
    | "j > 0" "i = 0 \<or> dp ! i ! (j - 1) \<ge> dp ! (i - 1) ! j" "\<not> (i > 0 \<and> a ! (i - 1) = b ! (j - 1))"
    | "i > 0" "\<not> (j > 0 \<and> a ! (i - 1) = b ! (j - 1))" "\<not> (j > 0 \<and> dp ! i ! (j - 1) \<ge> dp ! (i - 1) ! j)"
    by auto
  then show ?case
  proof cases
    case 1
    then show ?thesis unfolding backtrack.simps [of a b dp i j acc] by simp
  next
    case 2
    then obtain i' j' where ij: "i = Suc i'" "j = Suc j'" by (auto simp: gr0_conv_Suc)
    with 2 "1.IH"(1) show ?thesis unfolding backtrack.simps [of a b dp i j acc] by simp
  next
    case 3
    then obtain j' where j: "j = Suc j'" by (auto simp: gr0_conv_Suc)
    with 3 "1.IH"(2) show ?thesis unfolding backtrack.simps [of a b dp i j acc] by auto
  next
    case 4
    then obtain i' where i: "i = Suc i'" by (auto simp: gr0_conv_Suc)
    with 4 "1.IH"(3) show ?thesis unfolding backtrack.simps [of a b dp i j acc] by auto
  qed
qed

lemma backtrack_equal:
  "i \<le> length a \<Longrightarrow> j \<le> length b \<Longrightarrow> dp = lcsTable a b \<Longrightarrow>
   length (equal_lines (backtrack a b dp i j acc)) = lcs_len a b i j + length (equal_lines acc)"
proof (induction a b dp i j acc rule: backtrack.induct)
  case (1 a b dp i j acc)
  note bt = backtrack.simps [of a b dp i j acc]
  consider "i = 0" "j = 0" | "i > 0" "j > 0" "a ! (i - 1) = b ! (j - 1)"
    | "j > 0" "i = 0 \<or> dp ! i ! (j - 1) \<ge> dp ! (i - 1) ! j" "\<not> (i > 0 \<and> a ! (i - 1) = b ! (j - 1))"
    | "i > 0" "\<not> (j > 0 \<and> a ! (i - 1) = b ! (j - 1))" "\<not> (j > 0 \<and> dp ! i ! (j - 1) \<ge> dp ! (i - 1) ! j)"
    by auto
  then show ?case
  proof cases
    case 1
    then show ?thesis unfolding bt by simp
  next
    case 2
    then obtain i' j' where ij: "i = Suc i'" "j = Suc j'" by (auto simp: gr0_conv_Suc)
    with 2 "1.IH"(1) "1.prems" show ?thesis unfolding bt by simp
  next
    case 3
    then obtain j' where j: "j = Suc j'" by (auto simp: gr0_conv_Suc)
    have "lcs_len a b i j' = lcs_len a b i j"
      using 3 "1.prems" by (cases i) (auto simp: j lcsTable_nth)
    with 3 j "1.IH"(2) "1.prems" show ?thesis unfolding bt by auto
  next
    case 4
    then obtain i' where i: "i = Suc i'" by (auto simp: gr0_conv_Suc)
    have "lcs_len a b i' j = lcs_len a b i j"
      using 4 "1.prems" by (cases j) (auto simp: i lcsTable_nth)
    with 4 i "1.IH"(3) "1.prems" show ?thesis unfolding bt by auto
  qed
qed


lemma numbered_snd: "n = length a \<Longrightarrow> map snd (numbered a n) = a"
  by (simp add: o_def map_nth)

lemma LineDiff_sides:
  "map (\<lambda>d. (OldLine d, Text d)) (old_side (LineDiff x y))
     = numbered (splitConfigLines x) (length (splitConfigLines x))"
  "map (\<lambda>d. (NewLine d, Text d)) (new_side (LineDiff x y))
     = numbered (splitConfigLines y) (length (splitConfigLines y))"
  using backtrack_sides unfolding LineDiff_def backtrackDiff_def Let_def by simp_all

lemma LineDiff_texts:
  "map Text (old_side (LineDiff x y)) = splitConfigLines x"
  "map Text (new_side (LineDiff x y)) = splitConfigLines y"
proof -
  have "map snd (map (\<lambda>d. (OldLine d, Text d)) (old_side (LineDiff x y))) = splitConfigLines x"
    unfolding LineDiff_sides by (rule numbered_snd) simp
  then show "map Text (old_side (LineDiff x y)) = splitConfigLines x" by (simp add: o_def)
  have "map snd (map (\<lambda>d. (NewLine d, Text d)) (new_side (LineDiff x y))) = splitConfigLines y"
    unfolding LineDiff_sides by (rule numbered_snd) simp
  then show "map Text (new_side (LineDiff x y)) = splitConfigLines y" by (simp add: o_def)
qed

lemma LineDiff_equal_count:
  "length (equal_lines (LineDiff x y))
     = lcs_len (splitConfigLines x) (splitConfigLines y)
         (length (splitConfigLines x)) (length (splitConfigLines y))"
  unfolding LineDiff_def backtrackDiff_def Let_def
  by (simp add: backtrack_equal flip: rev_filter)

lemma equal_lines_subseq:
  "subseq (map Text (equal_lines ds)) (map Text (old_side ds))"
  "subseq (map Text (equal_lines ds)) (map Text (new_side ds))"
proof -
  have "equal_lines ds = equal_lines (old_side ds)" "equal_lines ds = equal_lines (new_side ds)"
    by (auto intro!: filter_cong)
  then show "subseq (map Text (equal_lines ds)) (map Text (old_side ds))"
    "subseq (map Text (equal_lines ds)) (map Text (new_side ds))"
    by (metis subseq_filter_left subseq_map)+
qed

lemma stats_foldl:
  "foldl stats_step st ds = \<lparr>EqualCount = EqualCount st + length (equal_lines ds),
     InsertCount = InsertCount st + length (filter (\<lambda>d. Kind d = DiffInsert) ds),
     DeleteCount = DeleteCount st + length (filter (\<lambda>d. Kind d = DiffDelete) ds)\<rparr>"
  by (induction ds arbitrary: st) (auto split: DiffKind.splits)

lemma side_lengths:
  "length (old_side ds) = length (equal_lines ds) + length (filter (\<lambda>d. Kind d = DiffDelete) ds)"
  "length (new_side ds) = length (equal_lines ds) + length (filter (\<lambda>d. Kind d = DiffInsert) ds)"
  by (induction ds) (auto, (metis DiffKind.exhaust)+)

section \<open>Properties\<close>

text \<open>
  C39. The diff reproduces both configurations: the lines that are not insertions are exactly the
  lines of the old text, in order, each with its one-based number, and the lines that are not
  deletions are exactly the numbered lines of the new text.
\<close>
theorem LineDiff_reconstructs:
  "map (\<lambda>d. (OldLine d, Text d)) (filter (\<lambda>d. Kind d \<noteq> DiffInsert) (LineDiff old new))
     = map (\<lambda>k. (Some (Suc k), splitConfigLines old ! k)) [0..<length (splitConfigLines old)] \<and>
   map (\<lambda>d. (NewLine d, Text d)) (filter (\<lambda>d. Kind d \<noteq> DiffDelete) (LineDiff old new))
     = map (\<lambda>k. (Some (Suc k), splitConfigLines new ! k)) [0..<length (splitConfigLines new)]"
  using LineDiff_sides by blast

text \<open>
  C40. The diff is minimal: its equal lines are a common subsequence of the two texts, and no common
  subsequence is longer, so no diff can show fewer insertions and deletions.
\<close>
theorem LineDiff_minimal:
  assumes "subseq c (splitConfigLines old)" "subseq c (splitConfigLines new)"
  shows "subseq (map Text (filter (\<lambda>d. Kind d = DiffEqual) (LineDiff old new))) (splitConfigLines old) \<and>
         subseq (map Text (filter (\<lambda>d. Kind d = DiffEqual) (LineDiff old new))) (splitConfigLines new) \<and>
         length c \<le> length (filter (\<lambda>d. Kind d = DiffEqual) (LineDiff old new))"
proof -
  have "length c \<le> length (equal_lines (LineDiff old new))"
    unfolding LineDiff_equal_count using assms by (intro lcs_len_upper) simp_all
  then show ?thesis
    using equal_lines_subseq [of "LineDiff old new"] unfolding LineDiff_texts by blast
qed

text \<open>Witness: the second line survives a change of the lines around it.\<close>
theorem LineDiff_minimal_witness:
  "length (filter (\<lambda>d. Kind d = DiffEqual) (LineDiff [CHR ''a'', CHR 0x0A, CHR ''b''] [CHR ''b'', CHR 0x0A, CHR ''c''])) \<ge> 1"
proof -
  have old: "subseq [''b''] (splitConfigLines [CHR ''a'', CHR 0x0A, CHR ''b''])"
    by (simp add: splitConfigLines_def Let_def)
  have new: "subseq [''b''] (splitConfigLines [CHR ''b'', CHR 0x0A, CHR ''c''])"
    by (simp add: splitConfigLines_def Let_def)
  show ?thesis using LineDiff_minimal [OF old new] by simp
qed

text \<open>
  The counters of the diff agree with the texts: equal plus deleted lines make up the old text,
  equal plus inserted lines the new one.
\<close>
theorem DiffStats_balance:
  "EqualCount (DiffStatsFrom (LineDiff old new)) + DeleteCount (DiffStatsFrom (LineDiff old new))
     = length (splitConfigLines old) \<and>
   EqualCount (DiffStatsFrom (LineDiff old new)) + InsertCount (DiffStatsFrom (LineDiff old new))
     = length (splitConfigLines new)"
proof -
  have "length (old_side (LineDiff old new)) = length (splitConfigLines old)"
    "length (new_side (LineDiff old new)) = length (splitConfigLines new)"
    using LineDiff_texts [of old new] by (metis length_map)+
  then show ?thesis
    using side_lengths [of "LineDiff old new"] by (simp add: DiffStatsFrom_def stats_foldl)
qed

end
