(* ===== verification/Graph_Search.thy ===== *)
theory Graph_Search
  imports Go_Prelude
begin

text \<open>
  Breadth-first search in general: levels, distances, walks, and the invariant of a queue-based
  search. The five breadth-first loops of the topology code (shortest path, distances from the
  root, the walk below a switch, the reachability slice, the layer-2 path) are instances; each
  instantiates the locale \<open>search_graph\<close> with its own successor function.
\<close>

section \<open>Levels, distance, walks\<close>

primrec level :: "('n \<Rightarrow> 'n list) \<Rightarrow> 'n \<Rightarrow> nat \<Rightarrow> 'n set" where
  "level succ s 0 = {s}"
| "level succ s (Suc n) = (\<Union>u\<in>level succ s n. set (succ u))"

definition reach :: "('n \<Rightarrow> 'n list) \<Rightarrow> 'n \<Rightarrow> 'n set" where
  "reach succ s = (\<Union>n. level succ s n)"

definition dist :: "('n \<Rightarrow> 'n list) \<Rightarrow> 'n \<Rightarrow> 'n \<Rightarrow> nat" where
  "dist succ s v = (LEAST n. v \<in> level succ s n)"

fun walk :: "('n \<Rightarrow> 'n list) \<Rightarrow> 'n list \<Rightarrow> bool" where
  "walk succ [] \<longleftrightarrow> False"
| "walk succ [x] \<longleftrightarrow> True"
| "walk succ (x # y # xs) \<longleftrightarrow> y \<in> set (succ x) \<and> walk succ (y # xs)"

text \<open>The neighbours a scan pushes: those not seen yet, each at its first occurrence.\<close>
fun fresh :: "'n list \<Rightarrow> 'n list \<Rightarrow> 'n list" where
  "fresh seen [] = []"
| "fresh seen (v # vs) = (if v \<in> set seen then fresh seen vs else v # fresh (v # seen) vs)"

text \<open>
  The invariant of a search from \<open>s\<close> with queue \<open>q\<close> and seen set \<open>S\<close>; nodes at depth \<open>n\<close> are
  expanded only if \<open>W n\<close> (the depth limit).
\<close>
definition bfs_inv :: "('n \<Rightarrow> 'n list) \<Rightarrow> 'n \<Rightarrow> (nat \<Rightarrow> bool) \<Rightarrow> 'n list \<Rightarrow> 'n set \<Rightarrow> bool" where
  "bfs_inv succ s W q S \<longleftrightarrow>
     s \<in> S \<and> S \<subseteq> reach succ s \<and> (\<forall>x\<in>S. x = s \<or> W (dist succ s x - 1)) \<and> set q \<subseteq> S \<and> distinct q \<and>
     sorted (map (dist succ s) q) \<and> (\<forall>x\<in>set q. dist succ s x \<le> Suc (dist succ s (hd q))) \<and>
     (\<forall>x\<in>S - set q. W (dist succ s x) \<longrightarrow> set (succ x) \<subseteq> S)"

definition antitone :: "(nat \<Rightarrow> bool) \<Rightarrow> bool" where
  "antitone W \<longleftrightarrow> (\<forall>m n. m \<le> n \<longrightarrow> W n \<longrightarrow> W m)"

lemma antitone_True [simp]: "antitone (\<lambda>_. True)"
  by (simp add: antitone_def)

lemma antitone_less [simp]: "antitone (\<lambda>n. int n < m)"
  by (auto simp: antitone_def)

lemma walk_ne: "walk succ p \<Longrightarrow> p \<noteq> []"
  by auto

lemma walk_snoc:
  "p \<noteq> [] \<Longrightarrow> walk succ (p @ [v]) \<longleftrightarrow> walk succ p \<and> v \<in> set (succ (last p))"
  by (induction succ p rule: walk.induct) auto

lemma walk_append:
  "p \<noteq> [] \<Longrightarrow> q \<noteq> [] \<Longrightarrow> walk succ (p @ q) \<longleftrightarrow> walk succ p \<and> walk succ q \<and> hd q \<in> set (succ (last p))"
  by (induction succ p rule: walk.induct) (auto simp: neq_Nil_conv)

lemma level_walk:
  "v \<in> level succ s n \<longleftrightarrow> (\<exists>p. walk succ p \<and> hd p = s \<and> last p = v \<and> length p = Suc n)"
proof (induction n arbitrary: v)
  case 0
  have "walk succ p \<and> hd p = s \<and> last p = v \<and> length p = Suc 0 \<Longrightarrow> v = s" for p
    by (cases p) auto
  moreover have "walk succ [s]" by simp
  ultimately show ?case by (metis last.simps length_Cons level.simps(1) list.sel(1) list.size(3) singleton_iff)
next
  case (Suc n)
  show ?case
  proof
    assume "v \<in> level succ s (Suc n)"
    then obtain u where "u \<in> level succ s n" "v \<in> set (succ u)" by auto
    then obtain p where p: "walk succ p" "hd p = s" "last p = u" "length p = Suc n"
      using Suc by blast
    then have "walk succ (p @ [v])" using \<open>v \<in> set (succ u)\<close> by (simp add: walk_snoc walk_ne)
    with p show "\<exists>p. walk succ p \<and> hd p = s \<and> last p = v \<and> length p = Suc (Suc n)"
      by (intro exI [of _ "p @ [v]"]) (auto simp: hd_append)
  next
    assume "\<exists>p. walk succ p \<and> hd p = s \<and> last p = v \<and> length p = Suc (Suc n)"
    then obtain p where p: "walk succ p" "hd p = s" "last p = v" "length p = Suc (Suc n)" by blast
    then have ne: "butlast p \<noteq> []" and "p \<noteq> []" by (auto simp flip: length_greater_0_conv)
    then have eq: "p = butlast p @ [v]" using p(3) by (metis append_butlast_last_id)
    with p(1) ne have "walk succ (butlast p)" "v \<in> set (succ (last (butlast p)))"
      by (metis walk_snoc)+
    moreover have "hd (butlast p) = s" using eq ne p(2) by (metis hd_append2)
    ultimately have "last (butlast p) \<in> level succ s n" using p(4) Suc by fastforce
    with \<open>v \<in> set (succ (last (butlast p)))\<close> show "v \<in> level succ s (Suc n)" by auto
  qed
qed

lemma level_dist: "v \<in> level succ s n \<Longrightarrow> v \<in> level succ s (dist succ s v) \<and> dist succ s v \<le> n"
  unfolding dist_def by (metis LeastI Least_le)

lemma reach_dist: "v \<in> reach succ s \<longleftrightarrow> v \<in> level succ s (dist succ s v)"
  unfolding reach_def using level_dist by fastforce

lemma reach_start [simp]: "s \<in> reach succ s"
  unfolding reach_def by (metis UN_I UNIV_I level.simps(1) singletonI)

lemma dist_start [simp]: "dist succ s s = 0"
  using level_dist [of s succ s 0] by simp

lemma dist_0: "v \<in> reach succ s \<Longrightarrow> dist succ s v = 0 \<Longrightarrow> v = s"
  by (simp add: reach_dist)

lemma reach_walk: "v \<in> reach succ s \<longleftrightarrow> (\<exists>p. walk succ p \<and> hd p = s \<and> last p = v)"
proof
  show "v \<in> reach succ s \<Longrightarrow> \<exists>p. walk succ p \<and> hd p = s \<and> last p = v"
    using reach_dist level_walk by metis
  assume "\<exists>p. walk succ p \<and> hd p = s \<and> last p = v"
  then obtain p where p: "walk succ p" "hd p = s" "last p = v" by blast
  then obtain n where "length p = Suc n" by (cases p) auto
  with p have "v \<in> level succ s n" by (auto simp: level_walk)
  then show "v \<in> reach succ s" by (auto simp: reach_def)
qed

lemma dist_walk_le: "walk succ p \<Longrightarrow> Suc (dist succ (hd p) (last p)) \<le> length p"
proof -
  assume w: "walk succ p"
  then obtain n where n: "length p = Suc n" by (cases p) auto
  with w have "last p \<in> level succ (hd p) n" by (auto simp: level_walk)
  with n show ?thesis using level_dist by fastforce
qed

lemma reach_step:
  assumes "u \<in> reach succ s" "v \<in> set (succ u)"
  shows "v \<in> reach succ s \<and> dist succ s v \<le> Suc (dist succ s u)"
proof -
  have "v \<in> level succ s (Suc (dist succ s u))" using assms by (auto simp: reach_dist)
  then show ?thesis using level_dist by (fastforce simp: reach_def)
qed

lemma reach_pred:
  assumes "v \<in> reach succ s" "v \<noteq> s"
  obtains u where "u \<in> reach succ s" "v \<in> set (succ u)" "dist succ s v = Suc (dist succ s u)"
proof -
  have lv: "v \<in> level succ s (dist succ s v)" using assms(1) by (simp add: reach_dist)
  with assms(2) obtain n where n: "dist succ s v = Suc n" by (cases "dist succ s v") auto
  with lv obtain u where u: "u \<in> level succ s n" "v \<in> set (succ u)" by auto
  then have ur: "u \<in> reach succ s" "dist succ s u \<le> n"
    using level_dist [OF u(1)] by (auto simp: reach_def)
  with u(2) n have "dist succ s v = Suc (dist succ s u)" using reach_step [OF ur(1) u(2)] by simp
  with ur u(2) show ?thesis using that by blast
qed

section \<open>One step of the search\<close>

lemma set_fresh: "set (fresh seen vs) = set vs - set seen"
  by (induction seen vs rule: fresh.induct) auto

lemma distinct_fresh: "distinct (fresh seen vs)"
  by (induction seen vs rule: fresh.induct) (auto simp: set_fresh)

lemma fresh_cong: "set a = set b \<Longrightarrow> fresh a vs = fresh b vs"
proof (induction a vs arbitrary: b rule: fresh.induct)
  case (2 seen v vs)
  show ?case
  proof (cases "v \<in> set seen")
    case True
    with 2 show ?thesis by simp
  next
    case False
    with "2.prems" have "fresh (v # seen) vs = fresh (v # b) vs" by (intro "2.IH"(2)) auto
    with False "2.prems" show ?thesis by auto
  qed
qed simp

lemma unseen_far:
  assumes inv: "bfs_inv succ s W q S" and W: "antitone W"
  shows "v \<in> reach succ s \<Longrightarrow> v \<notin> S \<Longrightarrow> W (dist succ s v - 1) \<Longrightarrow>
         q \<noteq> [] \<and> dist succ s (hd q) < dist succ s v"
proof (induction "dist succ s v" arbitrary: v)
  case 0
  then show ?case using inv dist_0 by (metis bfs_inv_def)
next
  case (Suc n)
  then have "v \<noteq> s" using inv by (auto simp: bfs_inv_def)
  with Suc.prems(1) obtain u where u: "u \<in> reach succ s" "v \<in> set (succ u)"
      "dist succ s v = Suc (dist succ s u)" by (rule reach_pred)
  show ?case
  proof (cases "u \<in> S")
    case True
    with u Suc.prems inv have uq: "u \<in> set q" by (auto simp: bfs_inv_def)
    then have "dist succ s (hd q) \<le> dist succ s u"
      using inv by (cases q) (auto simp: bfs_inv_def)
    with uq u(3) show ?thesis by auto
  next
    case False
    have "W (dist succ s u - 1)"
      using Suc.prems(3) u(3) W unfolding antitone_def by (metis diff_Suc_1 diff_le_self)
    with False u Suc.hyps have "q \<noteq> [] \<and> dist succ s (hd q) < dist succ s u" by auto
    with u(3) show ?thesis by auto
  qed
qed

lemma bfs_inv_start: "bfs_inv succ s W [s] {s}"
  by (simp add: bfs_inv_def)

lemma fresh_dist:
  assumes inv: "bfs_inv succ s W (u # q) S" and W: "antitone W" "W (dist succ s u)"
    and v: "v \<in> set (succ u)" "v \<notin> S"
  shows "v \<in> reach succ s \<and> dist succ s v = Suc (dist succ s u)"
proof -
  have "u \<in> reach succ s" using inv by (auto simp: bfs_inv_def)
  then have le: "v \<in> reach succ s" "dist succ s v \<le> Suc (dist succ s u)"
    using reach_step [of u succ s v] v(1) by simp_all
  have "dist succ s v - 1 \<le> dist succ s u" using le(2) by linarith
  with W have "W (dist succ s v - 1)" unfolding antitone_def by blast
  with unseen_far [OF inv W(1) le(1) v(2)] le show ?thesis by auto
qed

lemma bfs_inv_expand:
  assumes inv: "bfs_inv succ s W (u # q) S" and W: "antitone W" "W (dist succ s u)"
    and new: "set new = set (succ u) - S" "distinct new"
  shows "bfs_inv succ s W (q @ new) (S \<union> set new)"
proof -
  let ?d = "dist succ s"
  have nd: "\<And>v. v \<in> set new \<Longrightarrow> v \<in> reach succ s \<and> ?d v = Suc (?d u)"
    using fresh_dist [OF inv W] new by blast
  have q: "sorted (map ?d q)" "\<forall>x\<in>set q. ?d u \<le> ?d x \<and> ?d x \<le> Suc (?d u)"
    using inv by (auto simp: bfs_inv_def)
  have "map ?d new = replicate (length new) (Suc (?d u))"
    by (rule nth_equalityI) (simp_all add: nd)
  then have "sorted (map ?d (q @ new))"
    using q nd by (auto simp: sorted_append)
  moreover have "\<forall>x\<in>set (q @ new). ?d x \<le> Suc (?d (hd (q @ new)))"
  proof
    have b: "\<forall>x\<in>set (q @ new). ?d u \<le> ?d x \<and> ?d x \<le> Suc (?d u)" using q nd by auto
    fix x assume x: "x \<in> set (q @ new)"
    then have "hd (q @ new) \<in> set (q @ new)" by (intro hd_in_set) auto
    with b x have "?d u \<le> ?d (hd (q @ new))" "?d x \<le> Suc (?d u)" by blast+
    then show "?d x \<le> Suc (?d (hd (q @ new)))" by linarith
  qed
  moreover have "distinct (q @ new)"
    using inv new by (auto simp: bfs_inv_def)
  moreover have "\<forall>x\<in>(S \<union> set new) - set (q @ new). W (?d x) \<longrightarrow> set (succ x) \<subseteq> S \<union> set new"
    using inv new by (auto simp: bfs_inv_def)
  moreover have "\<forall>x\<in>S \<union> set new. x = s \<or> W (?d x - 1)"
    using inv nd W(2) by (auto simp: bfs_inv_def)
  moreover have "S \<union> set new \<subseteq> reach succ s" "s \<in> S \<union> set new" "set (q @ new) \<subseteq> S \<union> set new"
    using inv nd by (auto simp: bfs_inv_def)
  ultimately show ?thesis unfolding bfs_inv_def by blast
qed

lemma bfs_inv_skip:
  assumes "bfs_inv succ s W (u # q) S" "\<not> W (dist succ s u)"
  shows "bfs_inv succ s W q S"
proof -
  have "\<forall>x\<in>set q. dist succ s x \<le> Suc (dist succ s (hd q))"
    using assms by (cases q) (auto simp: bfs_inv_def)
  with assms show ?thesis by (auto simp: bfs_inv_def)
qed

text \<open>When the queue is empty, everything within the limit has been seen.\<close>
lemma bfs_inv_done:
  assumes "bfs_inv succ s W [] S" "antitone W"
  shows "v \<in> S \<longleftrightarrow> v \<in> reach succ s \<and> (v = s \<or> W (dist succ s v - 1))"
  using unseen_far [OF assms, of v] assms(1) by (auto simp: bfs_inv_def)


lemma shortest_walk:
  "v \<in> reach succ s \<Longrightarrow>
   \<exists>p. walk succ p \<and> hd p = s \<and> last p = v \<and> map (dist succ s) p = [0..<Suc (dist succ s v)]"
proof (induction "dist succ s v" arbitrary: v)
  case 0
  then have "v = s" by (simp add: dist_0)
  then show ?case by (intro exI [of _ "[s]"]) simp
next
  case (Suc n)
  then have "v \<noteq> s" by auto
  with Suc.prems obtain u where u: "u \<in> reach succ s" "v \<in> set (succ u)"
      "dist succ s v = Suc (dist succ s u)" by (rule reach_pred)
  with Suc.hyps obtain p where p: "walk succ p" "hd p = s" "last p = u"
      "map (dist succ s) p = [0..<Suc (dist succ s u)]" by fastforce
  have "walk succ (p @ [v])" using p u by (simp add: walk_snoc walk_ne)
  with p u show ?case by (intro exI [of _ "p @ [v]"]) (auto simp: hd_append)
qed

section \<open>Parent pointers\<close>

definition parent_inv :: "('n \<Rightarrow> 'n list) \<Rightarrow> 'n \<Rightarrow> ('n \<rightharpoonup> 'n) \<Rightarrow> 'n set \<Rightarrow> bool" where
  "parent_inv succ s parent S \<longleftrightarrow>
     (\<forall>v\<in>S. v \<noteq> s \<longrightarrow> (\<exists>u\<in>S. parent v = Some u \<and> v \<in> set (succ u) \<and> dist succ s v = Suc (dist succ s u)))"

text \<open>The nodes met when following the parents from \<open>v\<close> to the start, in walking order.\<close>
inductive chain :: "('n \<rightharpoonup> 'n) \<Rightarrow> 'n \<Rightarrow> 'n \<Rightarrow> 'n list \<Rightarrow> bool" for parent s where
  chain_start: "chain parent s s [s]"
| chain_step: "v \<noteq> s \<Longrightarrow> parent v = Some u \<Longrightarrow> chain parent s u p \<Longrightarrow> chain parent s v (p @ [v])"

lemma parent_chain:
  assumes "parent_inv succ s parent S" "S \<subseteq> reach succ s"
  shows "v \<in> S \<Longrightarrow> \<exists>p. chain parent s v p \<and> walk succ p \<and> hd p = s \<and> last p = v \<and> set p \<subseteq> S \<and>
           map (dist succ s) p = [0..<Suc (dist succ s v)]"
proof (induction "dist succ s v" arbitrary: v)
  case 0
  with assms(2) have "v = s" by (auto intro: dist_0)
  with 0 show ?case by (intro exI [of _ "[s]"]) (auto intro: chain_start)
next
  case (Suc n)
  then have "v \<noteq> s" by auto
  with Suc.prems assms(1) obtain u where u: "u \<in> S" "parent v = Some u" "v \<in> set (succ u)"
      "dist succ s v = Suc (dist succ s u)" by (auto simp: parent_inv_def)
  with Suc.hyps obtain p where p: "chain parent s u p" "walk succ p" "hd p = s" "last p = u" "set p \<subseteq> S"
      "map (dist succ s) p = [0..<Suc (dist succ s u)]" by fastforce
  have "walk succ (p @ [v])" using p u by (simp add: walk_snoc walk_ne)
  with p u Suc.prems \<open>v \<noteq> s\<close> show ?case
    by (intro exI [of _ "p @ [v]"]) (auto simp: hd_append intro: chain_step)
qed

lemma dist_path_distinct: "map (dist succ s) p = [0..<n] \<Longrightarrow> distinct p"
  by (metis distinct_map distinct_upt)

lemma chain_length: "chain parent s v p \<Longrightarrow> p \<noteq> []"
  by (induction rule: chain.induct) auto

lemma parent_inv_insert:
  assumes "parent_inv succ s parent S" "v \<notin> S" "u \<in> S" "v \<in> set (succ u)"
    "dist succ s v = Suc (dist succ s u)"
  shows "parent_inv succ s (parent(v \<mapsto> u)) (insert v S)"
  using assms unfolding parent_inv_def by (auto split: if_splits)

section \<open>Finite graphs\<close>

text \<open>What the searches need of a graph: finitely many nodes that can appear as a successor.\<close>
locale search_graph =
  fixes succ :: "'n \<Rightarrow> 'n list" and nodes :: "'n set"
  assumes finite_nodes: "finite nodes"
    and succ_nodes: "set (succ u) \<subseteq> nodes"
begin

lemma reach_nodes: "reach succ s \<subseteq> insert s nodes"
proof
  fix v assume "v \<in> reach succ s"
  then show "v \<in> insert s nodes"
    using succ_nodes reach_pred by (metis insertCI subsetD)
qed

lemma finite_reach: "finite (reach succ s)"
  using reach_nodes finite_nodes by (metis finite.insertI finite_subset)

text \<open>The measure that every breadth-first loop decreases: unseen nodes plus queue length.\<close>
lemma search_measure:
  "card (nodes - (set seen \<union> set (fresh seen (succ u)))) + length (fresh seen (succ u))
     = card (nodes - set seen)"
proof -
  have "nodes - (set seen \<union> set (fresh seen (succ u))) = (nodes - set seen) - set (fresh seen (succ u))"
    by auto
  moreover have "set (fresh seen (succ u)) \<subseteq> nodes - set seen"
    using succ_nodes [of u] by (auto simp: set_fresh)
  moreover have "card (set (fresh seen (succ u))) = length (fresh seen (succ u))"
    by (simp add: distinct_card distinct_fresh)
  moreover from calculation finite_nodes have "length (fresh seen (succ u)) \<le> card (nodes - set seen)"
    by (metis card_mono finite_Diff)
  ultimately show ?thesis
    using finite_nodes by (simp add: card_Diff_subset)
qed

lemma dist_bound:
  assumes "v \<in> reach succ s"
  shows "dist succ s v \<le> card nodes"
proof -
  obtain p where p: "walk succ p" "hd p = s" "last p = v" "map (dist succ s) p = [0..<Suc (dist succ s v)]"
    using shortest_walk [OF assms] by blast
  have sub: "\<And>p. walk succ p \<Longrightarrow> set (tl p) \<subseteq> nodes"
  proof -
    fix q show "walk succ q \<Longrightarrow> set (tl q) \<subseteq> nodes"
    proof (induction q rule: induct_list012)
      case (3 x y zs)
      then have "y \<in> nodes" using succ_nodes [of x] by auto
      with 3 show ?case by auto
    qed auto
  qed
  have "distinct (tl p)" by (rule distinct_tl, rule dist_path_distinct, rule p(4))
  then have "length (tl p) \<le> card nodes"
    using sub [OF p(1)] finite_nodes by (metis card_mono distinct_card)
  moreover have "length p = Suc (dist succ s v)"
    using arg_cong [OF p(4), of length] by simp
  ultimately show ?thesis by simp
qed

end

end
