(* ===== verification/Topology_Graph.thy ===== *)
theory Topology_Graph
  imports Graph_Search "HOL-Library.AList"
begin

text \<open>
  The device graph of \<open>internal/investigate/vlan_blast.go\<close>: building the undirected adjacency from
  the topology, choosing the root, distances from the root, the shortest path that avoids a switch,
  and the walk to the switches below one. An adjacency map \<open>map[int64][]int64\<close> is an association
  list from a device to its neighbours in insertion order; a missing key reads as the empty slice.
\<close>

type_synonym adjacency = "(device_id \<times> device_id list) list"

record TopologyNode =
  tn_ID :: device_id
  tn_Name :: string
  tn_Host :: string
  tn_Virtual :: bool
  tn_Kind :: string
  tn_LinkCount :: int

record TopologyEdge =
  te_LocalDeviceID :: device_id
  te_LocalIfIndex :: int
  te_LocalIfName :: "string option"
  te_RemoteDeviceID :: "device_id option"
  te_RemoteIfName :: "string option"
  te_Protocol :: string
  te_Stale :: bool

record TopologyGraph =
  tg_Nodes :: "TopologyNode list"
  tg_Edges :: "TopologyEdge list"

definition adj_get :: "adjacency \<Rightarrow> device_id \<Rightarrow> device_id list" where
  "adj_get g u = (case map_of g u of None \<Rightarrow> [] | Some vs \<Rightarrow> vs)"

text \<open>\<open>adj[a] = append(adj[a], b)\<close>\<close>
definition adj_push :: "adjacency \<Rightarrow> device_id \<Rightarrow> device_id \<Rightarrow> adjacency" where
  "adj_push g a b = AList.update a (adj_get g a @ [b]) g"

definition adj_nodes :: "adjacency \<Rightarrow> device_id set" where
  "adj_nodes g = (\<Union>(u, vs)\<in>set g. set vs)"

section \<open>Building the adjacency\<close>

text \<open>
  The closure \<open>add\<close> of \<open>BuildLLDPDeviceAdj\<close>; the key \<open>lo:hi\<close> of \<open>seenEdge\<close> is the pair.
\<close>
definition lldp_add :: "device_id \<Rightarrow> device_id \<Rightarrow> adjacency \<times> (device_id \<times> device_id) list
    \<Rightarrow> adjacency \<times> (device_id \<times> device_id) list" where
  "lldp_add a b st = (case st of (adj, seenEdge) \<Rightarrow>
     if a \<le> 0 \<or> b \<le> 0 \<or> a = b then (adj, seenEdge)
     else let key = (if a > b then (b, a) else (a, b)) in
       if key \<in> set seenEdge then (adj, seenEdge)
       else (adj_push (adj_push adj a b) b a, key # seenEdge))"

definition lldp_edge :: "TopologyEdge \<Rightarrow> adjacency \<times> (device_id \<times> device_id) list
    \<Rightarrow> adjacency \<times> (device_id \<times> device_id) list" where
  "lldp_edge e st = (case te_RemoteDeviceID e of
       None \<Rightarrow> st
     | Some r \<Rightarrow> if r \<le> 0 \<or> te_Stale e then st else lldp_add (te_LocalDeviceID e) r st)"

definition node_names :: "TopologyNode list \<Rightarrow> (device_id \<rightharpoonup> string)" where
  "node_names ns = foldl (\<lambda>m n. m(tn_ID n \<mapsto> (if tn_Name n = [] then tn_Host n else tn_Name n))) Map.empty ns"

definition node_link_counts :: "TopologyNode list \<Rightarrow> (device_id \<rightharpoonup> int)" where
  "node_link_counts ns = foldl (\<lambda>m n. m(tn_ID n \<mapsto> tn_LinkCount n)) Map.empty ns"

definition BuildLLDPDeviceAdj :: "TopologyGraph option
    \<Rightarrow> adjacency \<times> (device_id \<rightharpoonup> string) \<times> (device_id \<rightharpoonup> int)" where
  "BuildLLDPDeviceAdj g0 = (case g0 of
       None \<Rightarrow> ([], Map.empty, Map.empty)
     | Some g \<Rightarrow> (fst (fold lldp_edge (tg_Edges g) ([], [])),
                  node_names (tg_Nodes g), node_link_counts (tg_Nodes g)))"

section \<open>The root\<close>

definition root_score :: "(device_id \<rightharpoonup> int) \<Rightarrow> TopologyNode \<Rightarrow> int" where
  "root_score linkCount n =
     (let base = (case linkCount (tn_ID n) of None \<Rightarrow> 0 | Some c \<Rightarrow> c);
          score = (if tn_LinkCount n > base then tn_LinkCount n else base)
      in if tn_Kind n = ''router'' \<or> tn_Kind n = ''core'' then score + 100 else score)"

definition root_step :: "(device_id \<rightharpoonup> int) \<Rightarrow> device_id \<times> int \<Rightarrow> TopologyNode \<Rightarrow> device_id \<times> int" where
  "root_step linkCount st n = (case st of (best, bestScore) \<Rightarrow>
     let score = root_score linkCount n in
     if score > bestScore \<or> (score = bestScore \<and> tn_ID n < best) then (tn_ID n, score)
     else (best, bestScore))"

definition pickTopologyRoot :: "TopologyNode list \<Rightarrow> (device_id \<rightharpoonup> int) \<Rightarrow> device_id" where
  "pickTopologyRoot ns linkCount = (case ns of
       [] \<Rightarrow> 0
     | n # _ \<Rightarrow> fst (foldl (root_step linkCount) (tn_ID n, -1) ns))"

datatype RootSource = Stp | Heuristic

definition PickTopologyRootIDPrefer :: "TopologyNode list \<Rightarrow> (device_id \<rightharpoonup> int) \<Rightarrow> device_id
    \<Rightarrow> device_id \<times> RootSource" where
  "PickTopologyRootIDPrefer ns linkCount preferID =
     (if preferID > 0 \<and> list_ex (\<lambda>n. tn_ID n = preferID \<and> \<not> tn_Virtual n) ns
      then (preferID, Stp) else (pickTopologyRoot ns linkCount, Heuristic))"

definition BridgeIDMACHex :: "string \<Rightarrow> string" where
  "BridgeIDMACHex bridgeID =
     (let h = ReplaceAll (ReplaceAll (ReplaceAll (ToLower (TrimSpace bridgeID)) '':'' []) ''-'' []) '' '' []
      in if length h \<ge> 12 then drop (length h - 12) h else h)"

text \<open>One vote per state whose designated root is a known chassis; \<open>votes\<close> in first-vote order.\<close>
definition stp_votes :: "string option list \<Rightarrow> (string \<rightharpoonup> device_id) \<Rightarrow> (device_id \<times> nat) list" where
  "stp_votes states chassisHex = foldl (\<lambda>votes st. case st of
       None \<Rightarrow> votes
     | Some r \<Rightarrow> let mac = BridgeIDMACHex r in
         if mac = [] then votes
         else (case chassisHex mac of
             None \<Rightarrow> votes
           | Some d \<Rightarrow> if d > 0
               then AList.update d (Suc (case map_of votes d of None \<Rightarrow> 0 | Some n \<Rightarrow> n)) votes
               else votes)) [] states"

definition stp_best :: "device_id \<times> nat \<Rightarrow> device_id \<times> nat \<Rightarrow> device_id \<times> nat" where
  "stp_best cur v = (case (cur, v) of ((best, bestN), (d, n)) \<Rightarrow>
     if n > bestN \<or> (n = bestN \<and> (best = 0 \<or> d < best)) then (d, n) else (best, bestN))"

text \<open>\<open>states\<close> are the designated roots; \<open>known\<close> says that the chassis map is not empty.\<close>
definition PreferSTPRootDeviceID :: "string option list \<Rightarrow> (string \<rightharpoonup> device_id) \<Rightarrow> bool \<Rightarrow> device_id" where
  "PreferSTPRootDeviceID states chassisHex known =
     (if states = [] \<or> \<not> known then 0
      else fst (foldl stp_best (0, 0) (stp_votes states chassisHex)))"

section \<open>Searching\<close>

interpretation adj_graph: search_graph "adj_get g" "adj_nodes g" for g
proof
  show "finite (adj_nodes g)" by (auto simp: adj_nodes_def)
  show "set (adj_get g u) \<subseteq> adj_nodes g" for u
  proof (cases "map_of g u")
    case (Some vs)
    then have "(u, vs) \<in> set g" by (rule map_of_SomeD)
    with Some show ?thesis by (force simp: adj_get_def adj_nodes_def)
  qed (simp add: adj_get_def)
qed

subsection \<open>Distances from the root\<close>

type_synonym distances = "(device_id \<times> int) list"

definition dist_get :: "distances \<Rightarrow> device_id \<Rightarrow> int" where
  "dist_get out u = (case map_of out u of None \<Rightarrow> 0 | Some d \<Rightarrow> d)"

fun bfsd_scan :: "device_id \<Rightarrow> device_id list \<Rightarrow> device_id list \<times> distances \<Rightarrow> device_id list \<times> distances" where
  "bfsd_scan u [] st = st"
| "bfsd_scan u (v # vs) (q, out) =
     (if map_of out v \<noteq> None then bfsd_scan u vs (q, out)
      else bfsd_scan u vs (q @ [v], out @ [(v, dist_get out u + 1)]))"

lemma bfsd_scan_fst: "map fst (snd (bfsd_scan u vs (q, out))) = map fst out @ fresh (map fst out) vs
    \<and> fst (bfsd_scan u vs (q, out)) = q @ fresh (map fst out) vs"
proof (induction vs arbitrary: q out)
  case (Cons v vs)
  have "fresh (map fst out @ [v]) vs = fresh (v # map fst out) vs" by (rule fresh_cong) auto
  with Cons show ?case by (auto simp: map_of_eq_None_iff)
qed simp

lemma bfsd_scan_less:
  "(q', out') = bfsd_scan u (adj_get g u) (q, out) \<Longrightarrow>
   card (adj_nodes g - fst ` set out') + length q' < Suc (card (adj_nodes g - fst ` set out) + length q)"
proof -
  let ?f = "fresh (map fst out) (adj_get g u)"
  assume a: "(q', out') = bfsd_scan u (adj_get g u) (q, out)"
  then have "map fst out' = map fst out @ ?f" and q: "q' = q @ ?f"
    using bfsd_scan_fst [of u "adj_get g u" q out] by (metis fst_conv snd_conv)+
  then have "fst ` set out' = fst ` set out \<union> set ?f" by (metis list.set_map set_append)
  with q adj_graph.search_measure [of g "map fst out" u] show ?thesis by simp
qed

function bfsd_loop :: "adjacency \<Rightarrow> device_id list \<Rightarrow> distances \<Rightarrow> distances" where
  "bfsd_loop g [] out = out"
| "bfsd_loop g (u # q) out = (case bfsd_scan u (adj_get g u) (q, out) of (q', out') \<Rightarrow> bfsd_loop g q' out')"
  by pat_completeness auto
termination
  by (relation "measure (\<lambda>(g, q, out). card (adj_nodes g - fst ` set out) + length q)")
    (auto split: prod.splits dest: bfsd_scan_less [OF sym])

definition BFSDistances :: "adjacency \<Rightarrow> device_id \<Rightarrow> distances" where
  "BFSDistances g root = (if root \<le> 0 then [] else bfsd_loop g [root] [(root, 0)])"

subsection \<open>The shortest path that avoids a switch\<close>

type_synonym sp_state = "device_id list \<times> (device_id \<rightharpoonup> device_id) \<times> device_id list"

text \<open>
  The inner loop over \<open>adj[u]\<close>: the state is \<open>seen\<close>, \<open>parent\<close> and the queue, the flag is \<open>found\<close>
  (the loop breaks when the target is met).
\<close>
fun sp_scan :: "device_id \<Rightarrow> device_id \<Rightarrow> device_id list \<Rightarrow> sp_state \<Rightarrow> sp_state \<times> bool" where
  "sp_scan target u [] st = (st, False)"
| "sp_scan target u (v # vs) (seen, parent, q) =
     (if v \<in> set seen then sp_scan target u vs (seen, parent, q)
      else if v = target then ((v # seen, parent(v \<mapsto> u), q), True)
      else sp_scan target u vs (v # seen, parent(v \<mapsto> u), q @ [v]))"

lemma sp_scan_measure:
  "sp_scan target u vs (seen, parent, q) = ((seen', parent', q'), False) \<Longrightarrow>
   q' = q @ fresh seen vs \<and> set seen' = set seen \<union> set vs"
proof (induction vs arbitrary: seen parent q)
  case (Cons v vs)
  then show ?case by (fastforce split: if_splits)
qed simp

lemma sp_scan_less:
  "((seen', parent', q'), False) = sp_scan target u (adj_get g u) (seen, parent, q) \<Longrightarrow>
   card (adj_nodes g - set seen') + length q' < Suc (card (adj_nodes g - set seen) + length q)"
proof -
  assume "((seen', parent', q'), False) = sp_scan target u (adj_get g u) (seen, parent, q)"
  then have "q' = q @ fresh seen (adj_get g u) \<and> set seen' = set seen \<union> set (adj_get g u)"
    using sp_scan_measure by metis
  moreover have "set seen \<union> set (fresh seen (adj_get g u)) = set seen \<union> set (adj_get g u)"
    by (auto simp: set_fresh)
  ultimately show ?thesis using adj_graph.search_measure [of g seen u] by simp
qed

function sp_loop :: "adjacency \<Rightarrow> device_id \<Rightarrow> sp_state \<Rightarrow> sp_state \<times> bool" where
  "sp_loop g target (seen, parent, []) = ((seen, parent, []), False)"
| "sp_loop g target (seen, parent, u # q) =
     (case sp_scan target u (adj_get g u) (seen, parent, q) of
        (st, True) \<Rightarrow> (st, True)
      | (st, False) \<Rightarrow> sp_loop g target st)"
  by pat_completeness auto
termination
  by (relation "measure (\<lambda>(g, target, seen, parent, q). card (adj_nodes g - set seen) + length q)")
    (auto dest: sp_scan_less)

text \<open>
  The loop that follows \<open>parent\<close> back, with fuel; \<open>None\<close> is running out of it. A missing parent
  reads as 0, which ends the loop.
\<close>
fun sp_trace :: "nat \<Rightarrow> (device_id \<rightharpoonup> device_id) \<Rightarrow> device_id \<Rightarrow> device_id \<Rightarrow> device_id list
    \<Rightarrow> device_id list option" where
  "sp_trace 0 parent src cur revp = None"
| "sp_trace (Suc k) parent src cur revp =
     (if cur = 0 then Some revp
      else if cur = src then Some (revp @ [cur])
      else sp_trace k parent src (case parent cur of None \<Rightarrow> 0 | Some u \<Rightarrow> u) (revp @ [cur]))"

text \<open>The search, with \<open>None\<close> for a trace that runs out of fuel; one unit per seen node is enough.\<close>
definition sp_search :: "adjacency \<Rightarrow> device_id \<Rightarrow> device_id \<Rightarrow> device_id \<Rightarrow> device_id list option" where
  "sp_search g src target av =
     (let seen = (if av > 0 then [av, src] else [src]) in
      case sp_loop g target (seen, [src \<mapsto> 0], [src]) of
        ((seen', parent, q), True) \<Rightarrow> map_option rev (sp_trace (Suc (length seen')) parent src target [])
      | ((seen', parent, q), False) \<Rightarrow> Some [])"

definition ShortestPath :: "adjacency \<Rightarrow> device_id \<Rightarrow> device_id \<Rightarrow> device_id \<Rightarrow> device_id list" where
  "ShortestPath g src target av =
     (if src \<le> 0 \<or> target \<le> 0 then []
      else if src = av \<or> target = av then []
      else if src = target then [src]
      else (case sp_search g src target av of None \<Rightarrow> [] | Some p \<Rightarrow> p))"

definition HasPathAvoiding :: "adjacency \<Rightarrow> device_id \<Rightarrow> device_id \<Rightarrow> device_id \<Rightarrow> bool" where
  "HasPathAvoiding g src target av \<longleftrightarrow> length (ShortestPath g src target av) > 0"

subsection \<open>The walk below a switch\<close>

text \<open>
  \<open>WalkDownWithVLAN\<close>. A \<open>nil\<close> distance map reads like an empty one. The scan pushes the unseen
  neighbours that are not nearer to the root than, or as near as, the current switch.
\<close>
definition walk_blocked :: "(device_id \<rightharpoonup> int) \<Rightarrow> device_id \<Rightarrow> device_id \<Rightarrow> bool" where
  "walk_blocked dm cur nxt = (case dm cur of
       None \<Rightarrow> False
     | Some dCur \<Rightarrow> (case dm nxt of None \<Rightarrow> False | Some dNxt \<Rightarrow> dNxt \<le> dCur))"

fun walk_scan :: "(device_id \<rightharpoonup> int) \<Rightarrow> device_id \<Rightarrow> int \<Rightarrow> device_id list
    \<Rightarrow> device_id list \<times> (device_id \<times> int) list \<Rightarrow> device_id list \<times> (device_id \<times> int) list" where
  "walk_scan dm cur depth [] st = st"
| "walk_scan dm cur depth (nxt # ns) (seen, q) =
     (if nxt \<in> set seen then walk_scan dm cur depth ns (seen, q)
      else if walk_blocked dm cur nxt then walk_scan dm cur depth ns (seen, q)
      else walk_scan dm cur depth ns (nxt # seen, q @ [(nxt, depth + 1)]))"

definition down_succ :: "adjacency \<Rightarrow> (device_id \<rightharpoonup> int) \<Rightarrow> device_id list \<Rightarrow> device_id \<Rightarrow> device_id list" where
  "down_succ g dm excl u = filter (\<lambda>v. v \<notin> set excl \<and> \<not> walk_blocked dm u v) (adj_get g u)"

lemma walk_scan_fresh:
  "walk_scan dm cur depth ns (seen, q) =
     (rev (fresh seen (filter (\<lambda>v. \<not> walk_blocked dm cur v) ns)) @ seen,
      q @ map (\<lambda>v. (v, depth + 1)) (fresh seen (filter (\<lambda>v. \<not> walk_blocked dm cur v) ns)))"
  by (induction ns arbitrary: seen q) auto

interpretation down_graph: search_graph "down_succ g dm excl" "adj_nodes g" for g dm excl
proof
  show "finite (adj_nodes g)" by (rule adj_graph.finite_nodes)
  show "set (down_succ g dm excl u) \<subseteq> adj_nodes g" for u
    using adj_graph.succ_nodes [of g u] by (auto simp: down_succ_def)
qed

lemma walk_scan_less:
  "(seen', q') = walk_scan dm cur depth (adj_get g cur) (seen, q) \<Longrightarrow>
   card (adj_nodes g - set seen') + length q' < Suc (card (adj_nodes g - set seen) + length q)"
proof -
  assume "(seen', q') = walk_scan dm cur depth (adj_get g cur) (seen, q)"
  then have "set seen' = set seen \<union> set (fresh seen (down_succ g dm [] cur))"
    "length q' = length q + length (fresh seen (down_succ g dm [] cur))"
    by (auto simp: walk_scan_fresh down_succ_def)
  then show ?thesis using down_graph.search_measure [of g seen dm "[]" cur] by simp
qed

function walk_loop :: "adjacency \<Rightarrow> device_id \<Rightarrow> int \<Rightarrow> (device_id \<rightharpoonup> int) \<Rightarrow> (device_id \<Rightarrow> bool)
    \<Rightarrow> device_id list \<Rightarrow> (device_id \<times> int) list \<Rightarrow> (device_id \<times> int) list \<Rightarrow> (device_id \<times> int) list" where
  "walk_loop g start maxDepth dm hasVLAN seen [] out = out"
| "walk_loop g start maxDepth dm hasVLAN seen ((cur, depth) # q) out =
     (let out' = (if cur \<noteq> start \<and> hasVLAN cur then out @ [(cur, depth)] else out) in
      if depth \<ge> maxDepth then walk_loop g start maxDepth dm hasVLAN seen q out'
      else case walk_scan dm cur depth (adj_get g cur) (seen, q) of
        (seen', q') \<Rightarrow> walk_loop g start maxDepth dm hasVLAN seen' q' out')"
  by pat_completeness auto
termination
  by (relation "measure (\<lambda>(g, start, maxDepth, dm, hasVLAN, seen, q, out).
        card (adj_nodes g - set seen) + length q)")
    (auto split: prod.splits dest: walk_scan_less)

definition WalkDownWithVLAN :: "adjacency \<Rightarrow> device_id \<Rightarrow> device_id \<Rightarrow> int \<Rightarrow> (device_id \<rightharpoonup> int)
    \<Rightarrow> (device_id \<Rightarrow> bool) \<Rightarrow> (device_id \<times> int) list" where
  "WalkDownWithVLAN g start exclude maxDepth dm hasVLAN =
     (if start \<le> 0 \<or> maxDepth < 1 then []
      else walk_loop g start maxDepth dm hasVLAN [start, exclude] [(start, 0)] [])"


section \<open>Distances are breadth-first distances\<close>

lemma bfsd_scan_eq:
  "u \<in> fst ` set out \<Longrightarrow>
   bfsd_scan u vs (q, out) =
     (q @ fresh (map fst out) vs, out @ map (\<lambda>v. (v, dist_get out u + 1)) (fresh (map fst out) vs))"
proof (induction vs arbitrary: q out)
  case (Cons v vs)
  have f: "fresh (map fst out @ [v]) vs = fresh (v # map fst out) vs" by (rule fresh_cong) auto
  have "dist_get (out @ [(v, x)]) u = dist_get out u" for x
    using Cons.prems by (auto simp: dist_get_def map_of_eq_None_iff map_add_def split: option.splits)
  with Cons f show ?case by (auto simp: map_of_eq_None_iff)
qed simp

definition bfsd_inv :: "adjacency \<Rightarrow> device_id \<Rightarrow> device_id list \<Rightarrow> distances \<Rightarrow> bool" where
  "bfsd_inv g root q out \<longleftrightarrow>
     bfs_inv (adj_get g) root (\<lambda>_. True) q (fst ` set out) \<and> distinct (map fst out) \<and>
     (\<forall>(v, d)\<in>set out. d = int (dist (adj_get g) root v))"

lemma bfsd_inv_step:
  assumes inv: "bfsd_inv g root (u # q) out" and st: "bfsd_scan u (adj_get g u) (q, out) = (q', out')"
  shows "bfsd_inv g root q' out'"
proof -
  let ?f = "fresh (map fst out) (adj_get g u)" and ?S = "fst ` set out"
  have b: "bfs_inv (adj_get g) root (\<lambda>_. True) (u # q) ?S" and d: "distinct (map fst out)"
    and v: "\<forall>(v, d)\<in>set out. d = int (dist (adj_get g) root v)"
    using inv by (auto simp: bfsd_inv_def)
  have uo: "u \<in> ?S" using b by (auto simp: bfs_inv_def)
  have q': "q' = q @ ?f" and out': "out' = out @ map (\<lambda>v. (v, dist_get out u + 1)) ?f"
    using st bfsd_scan_eq [OF uo] by auto
  have sf: "set ?f = set (adj_get g u) - ?S" "distinct ?f"
    by (simp_all add: set_fresh distinct_fresh)
  have "dist_get out u = int (dist (adj_get g) root u)"
    using uo v d by (auto simp: dist_get_def dest: map_of_is_SomeI)
  moreover have "\<And>x. x \<in> set ?f \<Longrightarrow> dist (adj_get g) root x = Suc (dist (adj_get g) root u)"
    using fresh_dist [OF b] sf by auto
  ultimately have "\<forall>(v, d)\<in>set out'. d = int (dist (adj_get g) root v)"
    using v by (auto simp: out')
  moreover have "bfs_inv (adj_get g) root (\<lambda>_. True) q' (fst ` set out')"
    using bfs_inv_expand [OF b _ _ sf] by (simp add: q' out' image_Un image_image)
  moreover have "distinct (map fst out')" using d sf by (auto simp: out' o_def)
  ultimately show ?thesis by (simp add: bfsd_inv_def)
qed

lemma bfsd_loop_inv: "bfsd_inv g root q out \<Longrightarrow> bfsd_inv g root [] (bfsd_loop g q out)"
proof (induction g q out rule: bfsd_loop.induct)
  case (2 g u q out)
  then show ?case using bfsd_inv_step by (auto split: prod.splits)
qed simp

lemma BFSDistances_lookup:
  assumes "root > 0"
  shows "map_of (BFSDistances g root) v =
    (if v \<in> reach (adj_get g) root then Some (int (dist (adj_get g) root v)) else None)"
proof -
  let ?out = "BFSDistances g root"
  have "bfsd_inv g root [root] [(root, 0)]"
    by (simp add: bfsd_inv_def bfs_inv_start)
  then have "bfsd_inv g root [] (bfsd_loop g [root] [(root, 0)])" by (rule bfsd_loop_inv)
  moreover have "?out = bfsd_loop g [root] [(root, 0)]" using assms by (simp add: BFSDistances_def)
  ultimately have inv: "bfsd_inv g root [] ?out" by metis
  then have S: "fst ` set ?out = reach (adj_get g) root"
    using bfs_inv_done [of "adj_get g" root "\<lambda>_. True" "fst ` set ?out"] by (auto simp: bfsd_inv_def)
  show ?thesis
  proof (cases "map_of ?out v")
    case None
    then show ?thesis using S by (auto simp: map_of_eq_None_iff)
  next
    case (Some d)
    then have "(v, d) \<in> set ?out" by (rule map_of_SomeD)
    with inv S Some show ?thesis by (force simp: bfsd_inv_def)
  qed
qed

section \<open>Shortest paths\<close>

definition avoid_succ :: "adjacency \<Rightarrow> device_id \<Rightarrow> device_id \<Rightarrow> device_id list" where
  "avoid_succ g av u = filter (\<lambda>v. \<not> (av > 0 \<and> v = av)) (adj_get g u)"

interpretation avoid_graph: search_graph "avoid_succ g av" "adj_nodes g" for g av
proof
  show "finite (adj_nodes g)" by (rule adj_graph.finite_nodes)
  show "set (avoid_succ g av u) \<subseteq> adj_nodes g" for u
    using adj_graph.succ_nodes [of g u] by (auto simp: avoid_succ_def)
qed

text \<open>A route from \<open>src\<close> to \<open>target\<close> that does not visit \<open>av\<close> (a positive \<open>av\<close>).\<close>
definition route :: "adjacency \<Rightarrow> device_id \<Rightarrow> device_id \<Rightarrow> device_id \<Rightarrow> device_id list \<Rightarrow> bool" where
  "route g av src target p \<longleftrightarrow>
     walk (adj_get g) p \<and> hd p = src \<and> last p = target \<and> (av > 0 \<longrightarrow> av \<notin> set p)"

lemma walk_avoid: "walk (avoid_succ g av) p \<longleftrightarrow> walk (adj_get g) p \<and> (av > 0 \<longrightarrow> av \<notin> set (tl p))"
  by (induction p rule: induct_list012) (auto simp: avoid_succ_def)

lemma route_avoid:
  "src \<noteq> av \<Longrightarrow> route g av src target p \<longleftrightarrow> walk (avoid_succ g av) p \<and> hd p = src \<and> last p = target"
  by (cases p) (auto simp: route_def walk_avoid)

definition sp_set :: "device_id \<Rightarrow> device_id list \<Rightarrow> device_id set" where
  "sp_set av seen = set seen - (if av > 0 then {av} else {})"

lemma sp_scan_result:
  "sp_scan target u vs (seen, parent, q) = ((seen', parent', q'), b) \<Longrightarrow>
   \<exists>N. set seen' = set seen \<union> N \<and> N \<subseteq> set vs - set seen \<and>
       parent' = (\<lambda>x. if x \<in> N then Some u else parent x) \<and>
       (b \<longrightarrow> target \<in> N) \<and>
       (\<not> b \<longrightarrow> N = set vs - set seen \<and> q' = q @ fresh seen vs \<and> target \<notin> N)"
proof (induction vs arbitrary: seen parent q)
  case Nil
  then show ?case by (intro exI [of _ "{}"]) auto
next
  case (Cons v vs)
  consider "v \<in> set seen" | "v \<notin> set seen" "v = target" | "v \<notin> set seen" "v \<noteq> target" by blast
  then show ?case
  proof cases
    case 1
    with Cons.prems have "sp_scan target u vs (seen, parent, q) = ((seen', parent', q'), b)" by simp
    with Cons.IH [of seen parent q] 1 show ?thesis by (auto simp: insert_Diff_if)
  next
    case 2
    with Cons.prems show ?thesis by (intro exI [of _ "{v}"]) (auto simp: fun_eq_iff)
  next
    case 3
    with Cons.prems
    have "sp_scan target u vs (v # seen, parent(v \<mapsto> u), q @ [v]) = ((seen', parent', q'), b)" by simp
    then obtain N where "set seen' = set (v # seen) \<union> N" "N \<subseteq> set vs - set (v # seen)"
      "parent' = (\<lambda>x. if x \<in> N then Some u else (parent(v \<mapsto> u)) x)" "b \<longrightarrow> target \<in> N"
      "\<not> b \<longrightarrow> N = set vs - set (v # seen) \<and> q' = (q @ [v]) @ fresh (v # seen) vs \<and> target \<notin> N"
      using Cons.IH [of "v # seen" "parent(v \<mapsto> u)" "q @ [v]"] by blast
    with 3 show ?thesis by (intro exI [of _ "insert v N"]) (auto simp: fun_eq_iff)
  qed
qed

lemma parent_inv_extend:
  assumes "parent_inv succ s parent S" "u \<in> S" "N \<inter> S = {}" "N \<subseteq> set (succ u)"
    "\<And>v. v \<in> N \<Longrightarrow> dist succ s v = Suc (dist succ s u)"
  shows "parent_inv succ s (\<lambda>x. if x \<in> N then Some u else parent x) (S \<union> N)"
  using assms unfolding parent_inv_def by (auto 4 4)

definition sp_inv :: "adjacency \<Rightarrow> device_id \<Rightarrow> device_id \<Rightarrow> device_id \<Rightarrow> sp_state \<Rightarrow> bool" where
  "sp_inv g av src target st \<longleftrightarrow> (case st of (seen, parent, q) \<Rightarrow>
     bfs_inv (avoid_succ g av) src (\<lambda>_. True) q (sp_set av seen) \<and>
     parent_inv (avoid_succ g av) src parent (sp_set av seen) \<and>
     target \<notin> sp_set av seen \<and> (av > 0 \<longrightarrow> av \<in> set seen))"

definition sp_found :: "adjacency \<Rightarrow> device_id \<Rightarrow> device_id \<Rightarrow> device_id \<Rightarrow> sp_state \<Rightarrow> bool" where
  "sp_found g av src target st \<longleftrightarrow> (case st of (seen, parent, q) \<Rightarrow>
     parent_inv (avoid_succ g av) src parent (sp_set av seen) \<and>
     sp_set av seen \<subseteq> reach (avoid_succ g av) src \<and> target \<in> sp_set av seen)"

lemma sp_scan_inv:
  assumes inv: "sp_inv g av src target (seen, parent, u # q)"
    and sc: "sp_scan target u (adj_get g u) (seen, parent, q) = (st, b)" and ta: "target \<noteq> av"
  shows "if b then sp_found g av src target st else sp_inv g av src target st"
proof -
  let ?succ = "avoid_succ g av" and ?S = "sp_set av seen"
  obtain seen' parent' q' where st: "st = (seen', parent', q')" by (cases st)
  obtain N where N: "set seen' = set seen \<union> N" "N \<subseteq> set (adj_get g u) - set seen"
    "parent' = (\<lambda>x. if x \<in> N then Some u else parent x)" "b \<longrightarrow> target \<in> N"
    "\<not> b \<longrightarrow> N = set (adj_get g u) - set seen \<and> q' = q @ fresh seen (adj_get g u) \<and> target \<notin> N"
    using sp_scan_result [OF sc [unfolded st]] by blast
  have bi: "bfs_inv ?succ src (\<lambda>_. True) (u # q) ?S" and pi: "parent_inv ?succ src parent ?S"
    and av: "av > 0 \<longrightarrow> av \<in> set seen" and tS: "target \<notin> ?S"
    using inv by (auto simp: sp_inv_def)
  have NS: "N \<subseteq> set (?succ u) - ?S" using N(2) av by (auto simp: sp_set_def avoid_succ_def)
  have S': "sp_set av seen' = ?S \<union> N" using N(1,2) av by (auto simp: sp_set_def)
  have nd: "\<And>v. v \<in> N \<Longrightarrow> v \<in> reach ?succ src \<and> dist ?succ src v = Suc (dist ?succ src u)"
    using fresh_dist [OF bi] NS by auto
  have uS: "u \<in> ?S" "?S \<subseteq> reach ?succ src" using bi by (auto simp: bfs_inv_def)
  have pi': "parent_inv ?succ src parent' (?S \<union> N)"
    unfolding N(3) by (rule parent_inv_extend [OF pi uS(1)]) (use NS nd in auto)
  show ?thesis
  proof (cases b)
    case True
    with N(4) pi' S' uS nd show ?thesis by (auto simp: sp_found_def st)
  next
    case False
    then have N': "N = set (fresh seen (adj_get g u))" "q' = q @ fresh seen (adj_get g u)" "target \<notin> N"
      using N(5) by (auto simp: set_fresh)
    have "set (fresh seen (adj_get g u)) = set (?succ u) - ?S"
      using av by (auto simp: set_fresh sp_set_def avoid_succ_def)
    then have "bfs_inv ?succ src (\<lambda>_. True) q' (?S \<union> N)"
      using bfs_inv_expand [OF bi _ _ _ distinct_fresh] unfolding N' by simp
    with False pi' S' N(1) N'(3) tS av show ?thesis by (simp add: sp_inv_def st)
  qed
qed

lemma sp_loop_result:
  "target \<noteq> av \<Longrightarrow> sp_inv g av src target st \<Longrightarrow> sp_loop g target st = (st', b) \<Longrightarrow>
    if b then sp_found g av src target st' else target \<notin> reach (avoid_succ g av) src"
proof (induction g target st arbitrary: st' b rule: sp_loop.induct)
  case (1 g target seen parent)
  then show ?case
    using bfs_inv_done [of "avoid_succ g av" src "\<lambda>_. True" "sp_set av seen"] by (auto simp: sp_inv_def)
next
  case (2 g target seen parent u q)
  obtain st1 b1 where sc: "sp_scan target u (adj_get g u) (seen, parent, q) = (st1, b1)" by (metis surj_pair)
  show ?case
  proof (cases b1)
    case True
    with "2.prems" sc sp_scan_inv [OF "2.prems"(2) sc "2.prems"(1)] show ?thesis by simp
  next
    case False
    with sp_scan_inv [OF "2.prems"(2) sc "2.prems"(1)] have "sp_inv g av src target st1" by simp
    with "2.IH" "2.prems" sc False show ?thesis by simp
  qed
qed


lemma sp_trace_chain:
  "chain parent src cur p \<Longrightarrow> 0 \<notin> set p \<Longrightarrow> length p \<le> k \<Longrightarrow>
   sp_trace k parent src cur acc = Some (acc @ rev p)"
proof (induction arbitrary: k acc rule: chain.induct)
  case chain_start
  then show ?case by (cases k) auto
next
  case (chain_step v u p)
  then obtain k' where "k = Suc k'" by (cases k) auto
  with chain_step show ?case by simp
qed

lemma sp_inv_start:
  "src \<noteq> target \<Longrightarrow> src \<noteq> av \<Longrightarrow> sp_inv g av src target (if av > 0 then [av, src] else [src], [src \<mapsto> 0], [src])"
proof -
  assume a: "src \<noteq> target" "src \<noteq> av"
  have "sp_set av (if av > 0 then [av, src] else [src]) = {src}" using a by (auto simp: sp_set_def)
  with a show ?thesis by (auto simp: sp_inv_def bfs_inv_start parent_inv_def)
qed

lemma sp_search_result:
  assumes z: "0 \<notin> adj_nodes g" and a: "src > 0" "src \<noteq> av" "target \<noteq> av" "src \<noteq> target"
  shows "if target \<in> reach (avoid_succ g av) src
    then \<exists>p. sp_search g src target av = Some p \<and> walk (avoid_succ g av) p \<and> hd p = src \<and> last p = target \<and>
           map (dist (avoid_succ g av) src) p = [0..<Suc (dist (avoid_succ g av) src target)]
    else sp_search g src target av = Some []"
proof -
  let ?seen = "if av > 0 then [av, src] else [src]"
  obtain seen parent q b where lp: "sp_loop g target (?seen, [src \<mapsto> 0], [src]) = ((seen, parent, q), b)"
    by (metis surj_pair)
  have res: "if b then sp_found g av src target (seen, parent, q) else target \<notin> reach (avoid_succ g av) src"
    using sp_loop_result [OF a(3) sp_inv_start [OF a(4) a(2)] lp] .
  show ?thesis
  proof (cases b)
    case False
    with res lp show ?thesis by (simp add: sp_search_def Let_def)
  next
    case True
    let ?S = "sp_set av seen"
    have f: "parent_inv (avoid_succ g av) src parent ?S" "?S \<subseteq> reach (avoid_succ g av) src" "target \<in> ?S"
      using res True by (auto simp: sp_found_def)
    obtain p where p: "chain parent src target p" "walk (avoid_succ g av) p" "hd p = src" "last p = target"
      "set p \<subseteq> ?S" "map (dist (avoid_succ g av) src) p = [0..<Suc (dist (avoid_succ g av) src target)]"
      using parent_chain [OF f(1,2,3)] by blast
    have "set p \<subseteq> insert src (adj_nodes g)"
      using p(5) f(2) avoid_graph.reach_nodes [of g av src] by blast
    then have "0 \<notin> set p" using z a(1) by auto
    moreover have "length p \<le> length seen"
      using dist_path_distinct [OF p(6)] p(5) by (metis List.finite_set card_length card_mono distinct_card
          Diff_subset dual_order.trans sp_set_def)
    ultimately have "sp_trace (Suc (length seen)) parent src target [] = Some (rev p)"
      using sp_trace_chain [OF p(1), of "Suc (length seen)" "[]"] by simp
    then have "sp_search g src target av = Some p"
      using lp True by (simp add: sp_search_def Let_def del: sp_trace.simps)
    with p f show ?thesis by auto
  qed
qed

definition shortest_route :: "adjacency \<Rightarrow> device_id \<Rightarrow> device_id \<Rightarrow> device_id \<Rightarrow> device_id list \<Rightarrow> bool" where
  "shortest_route g av src target p \<longleftrightarrow>
     route g av src target p \<and> distinct p \<and> (\<forall>p'. route g av src target p' \<longrightarrow> length p \<le> length p')"

lemma ShortestPath_spec:
  assumes z: "0 \<notin> adj_nodes g" and a: "src > 0" "target > 0" "src \<noteq> av" "target \<noteq> av"
  shows "if \<exists>p. route g av src target p then shortest_route g av src target (ShortestPath g src target av)
         else ShortestPath g src target av = []"
proof (cases "src = target")
  case True
  have "route g av src src [src]" using a by (auto simp: route_def)
  moreover have "\<And>p. route g av src target p \<Longrightarrow> 1 \<le> length p"
    by (auto simp: route_def Suc_le_eq)
  ultimately show ?thesis using True a by (auto simp: ShortestPath_def shortest_route_def)
next
  case False
  note r = route_avoid [OF a(3), of g target]
  have ex: "(\<exists>p. route g av src target p) \<longleftrightarrow> target \<in> reach (avoid_succ g av) src"
    by (auto simp: r reach_walk)
  have sp: "ShortestPath g src target av = (case sp_search g src target av of None \<Rightarrow> [] | Some p \<Rightarrow> p)"
    using a False by (simp add: ShortestPath_def)
  show ?thesis
  proof (cases "target \<in> reach (avoid_succ g av) src")
    case True
    with sp_search_result [OF z a(1,3,4) False] obtain p where p: "sp_search g src target av = Some p"
      "walk (avoid_succ g av) p" "hd p = src" "last p = target"
      "map (dist (avoid_succ g av) src) p = [0..<Suc (dist (avoid_succ g av) src target)]" by auto
    have "length p = Suc (dist (avoid_succ g av) src target)"
      using arg_cong [OF p(5), of length] by simp
    then have "\<And>p'. route g av src target p' \<Longrightarrow> length p \<le> length p'"
      using dist_walk_le by (auto simp: r)
    moreover have "distinct p" using p(5) by (rule dist_path_distinct)
    ultimately show ?thesis using True ex p by (auto simp: sp shortest_route_def r)
  next
    case False
    with sp_search_result [OF z a(1,3,4) \<open>src \<noteq> target\<close>] ex show ?thesis by (simp add: sp)
  qed
qed

section \<open>The walk below a switch\<close>

definition walk_inv :: "adjacency \<Rightarrow> device_id \<Rightarrow> device_id \<Rightarrow> int \<Rightarrow> (device_id \<rightharpoonup> int) \<Rightarrow> (device_id \<Rightarrow> bool)
    \<Rightarrow> device_id list \<Rightarrow> (device_id \<times> int) list \<Rightarrow> (device_id \<times> int) list \<Rightarrow> bool" where
  "walk_inv g start exclude maxDepth dm hasVLAN seen q out \<longleftrightarrow>
     (let succ = down_succ g dm [exclude]; S = insert start (set seen - {exclude}); d = dist succ start in
      start \<in> set seen \<and> exclude \<in> set seen \<and>
      bfs_inv succ start (\<lambda>n. int n < maxDepth) (map fst q) S \<and>
      (\<forall>(v, k)\<in>set q. k = int (d v)) \<and>
      distinct (map fst out) \<and>
      set out = (\<lambda>v. (v, int (d v))) ` {v \<in> S - fst ` set q. v \<noteq> start \<and> hasVLAN v} \<and>
      sorted (map snd out) \<and> (\<forall>x\<in>set out. \<forall>y\<in>set q. snd x \<le> snd y))"


lemma walk_inv_out:
  assumes "walk_inv g start exclude maxDepth dm hasVLAN seen ((cur, depth) # q) out"
  defines "out' \<equiv> (if cur \<noteq> start \<and> hasVLAN cur then out @ [(cur, depth)] else out)"
    and "succ \<equiv> down_succ g dm [exclude]" and "S \<equiv> insert start (set seen - {exclude})"
  shows "distinct (map fst out')" "sorted (map snd out')" "\<forall>x\<in>set out'. \<forall>y\<in>set q. snd x \<le> snd y"
    "\<forall>x\<in>set out'. snd x \<le> depth"
    "set out' = (\<lambda>v. (v, int (dist succ start v))) ` {v \<in> S - fst ` set q. v \<noteq> start \<and> hasVLAN v}"
proof -
  let ?d = "dist succ start"
  have b: "bfs_inv succ start (\<lambda>n. int n < maxDepth) (cur # map fst q) S"
    and qd: "depth = int (?d cur)" "\<forall>(v, k)\<in>set q. k = int (?d v)"
    and o: "distinct (map fst out)" "sorted (map snd out)"
      "set out = (\<lambda>v. (v, int (?d v))) ` {v \<in> S - insert cur (fst ` set q). v \<noteq> start \<and> hasVLAN v}"
    and le: "\<forall>x\<in>set out. snd x \<le> depth \<and> (\<forall>y\<in>set q. snd x \<le> snd y)"
    using assms(1) unfolding walk_inv_def Let_def succ_def S_def by auto
  have cq: "cur \<notin> fst ` set q" "cur \<in> S" "\<forall>y\<in>set q. ?d cur \<le> ?d (fst y)"
    using b by (auto simp: bfs_inv_def)
  then have dq: "\<forall>y\<in>set q. depth \<le> snd y" using qd by fastforce
  have cn: "cur \<notin> fst ` set out" using o(3) by auto
  show "distinct (map fst out')" using o(1) cn by (auto simp: out'_def)
  show "sorted (map snd out')" using o(2) le by (auto simp: out'_def sorted_append)
  show "\<forall>x\<in>set out'. \<forall>y\<in>set q. snd x \<le> snd y" using le dq by (auto simp: out'_def)
  show "\<forall>x\<in>set out'. snd x \<le> depth" using le by (auto simp: out'_def)
  have "{v \<in> S - fst ` set q. v \<noteq> start \<and> hasVLAN v} =
      {v \<in> S - insert cur (fst ` set q). v \<noteq> start \<and> hasVLAN v} \<union> (if cur \<noteq> start \<and> hasVLAN cur then {cur} else {})"
    using cq by auto
  then show "set out' = (\<lambda>v. (v, int (?d v))) ` {v \<in> S - fst ` set q. v \<noteq> start \<and> hasVLAN v}"
    using o(3) qd(1) by (auto simp: out'_def)
qed

lemma walk_inv_expand:
  assumes inv: "walk_inv g start exclude maxDepth dm hasVLAN seen ((cur, depth) # q) out"
    and d: "depth < maxDepth" and sc: "walk_scan dm cur depth (adj_get g cur) (seen, q) = (seen', q')"
  shows "walk_inv g start exclude maxDepth dm hasVLAN seen' q'
           (if cur \<noteq> start \<and> hasVLAN cur then out @ [(cur, depth)] else out)"
proof -
  let ?succ = "down_succ g dm [exclude]" and ?S = "insert start (set seen - {exclude})"
  let ?d = "dist ?succ start" and ?W = "\<lambda>n. int n < maxDepth"
  let ?N = "fresh seen (filter (\<lambda>v. \<not> walk_blocked dm cur v) (adj_get g cur))"
  have b: "bfs_inv ?succ start ?W (cur # map fst q) ?S" and se: "start \<in> set seen" "exclude \<in> set seen"
    and qd: "depth = int (?d cur)" "\<forall>(v, k)\<in>set q. k = int (?d v)"
    using inv by (auto simp: walk_inv_def Let_def)
  have s': "set seen' = set seen \<union> set ?N" and q': "q' = q @ map (\<lambda>v. (v, depth + 1)) ?N"
    using sc by (auto simp: walk_scan_fresh)
  have N: "set ?N = set (?succ cur) - ?S" using se by (auto simp: set_fresh down_succ_def)
  have W: "?W (?d cur)" using d qd(1) by simp
  have b': "bfs_inv ?succ start ?W (map fst q @ ?N) (?S \<union> set ?N)"
    by (rule bfs_inv_expand [OF b antitone_less W N distinct_fresh])
  have nd: "\<And>v. v \<in> set ?N \<Longrightarrow> ?d v = Suc (?d cur)"
    using fresh_dist [OF b antitone_less W] N by auto
  have S': "insert start (set seen' - {exclude}) = ?S \<union> set ?N"
    using se N by (auto simp: s' down_succ_def)
  have "(?S \<union> set ?N) - fst ` set q' = ?S - fst ` set q" using N by (auto simp: q' image_Un image_image)
  moreover have "map fst q' = map fst q @ ?N" by (simp add: q' o_def)
  moreover have "\<forall>(v, k)\<in>set q'. k = int (?d v)" using qd nd by (auto simp: q')
  moreover have "\<forall>x\<in>set (if cur \<noteq> start \<and> hasVLAN cur then out @ [(cur, depth)] else out). \<forall>y\<in>set q'. snd x \<le> snd y"
    using walk_inv_out(3,4) [OF inv] by (fastforce simp: q')
  moreover have "start \<in> set seen'" "exclude \<in> set seen'" using se s' by auto
  ultimately show ?thesis
    using walk_inv_out(1,2,5) [OF inv] b' unfolding walk_inv_def Let_def S' by simp
qed

lemma walk_inv_skip:
  assumes inv: "walk_inv g start exclude maxDepth dm hasVLAN seen ((cur, depth) # q) out"
    and d: "depth \<ge> maxDepth"
  shows "walk_inv g start exclude maxDepth dm hasVLAN seen q
           (if cur \<noteq> start \<and> hasVLAN cur then out @ [(cur, depth)] else out)"
proof -
  let ?succ = "down_succ g dm [exclude]" and ?S = "insert start (set seen - {exclude})"
  have b: "bfs_inv ?succ start (\<lambda>n. int n < maxDepth) (cur # map fst q) ?S"
    and qd: "depth = int (dist ?succ start cur)"
    using inv by (auto simp: walk_inv_def Let_def)
  have "bfs_inv ?succ start (\<lambda>n. int n < maxDepth) (map fst q) ?S"
    using bfs_inv_skip [OF b] d qd by auto
  with walk_inv_out [OF inv] inv show ?thesis unfolding walk_inv_def Let_def by auto
qed

lemma walk_loop_inv:
  "walk_inv g start exclude maxDepth dm hasVLAN seen q out \<Longrightarrow>
   \<exists>seen'. walk_inv g start exclude maxDepth dm hasVLAN seen' [] (walk_loop g start maxDepth dm hasVLAN seen q out)"
proof (induction g start maxDepth dm hasVLAN seen q out rule: walk_loop.induct)
  case (2 g start maxDepth dm hasVLAN seen cur depth q out)
  obtain seen' q' where sc: "walk_scan dm cur depth (adj_get g cur) (seen, q) = (seen', q')" by (metis surj_pair)
  show ?case
  proof (cases "depth \<ge> maxDepth")
    case True
    with "2.IH"(1) [OF refl True walk_inv_skip [OF "2.prems" True]] show ?thesis by (simp add: Let_def)
  next
    case False
    then have "depth < maxDepth" by simp
    from walk_inv_expand [OF "2.prems" this sc] "2.IH"(2) [OF refl False sc [symmetric]] sc False
    show ?thesis by (simp add: Let_def)
  qed
qed auto

lemma WalkDown_spec:
  fixes g dm exclude hasVLAN
  assumes "start > 0" "maxDepth \<ge> 1"
  defines "succ \<equiv> down_succ g dm [exclude]" and "res \<equiv> WalkDownWithVLAN g start exclude maxDepth dm hasVLAN"
  shows "distinct (map fst res)" "sorted (map snd res)"
    "(v, k) \<in> set res \<longleftrightarrow> v \<in> reach succ start \<and> v \<noteq> start \<and> hasVLAN v \<and>
       k = int (dist succ start v) \<and> k \<le> maxDepth"
proof -
  have "walk_inv g start exclude maxDepth dm hasVLAN [start, exclude] [(start, 0)] []"
    by (auto simp: walk_inv_def Let_def insert_Diff_if bfs_inv_start)
  from walk_loop_inv [OF this] obtain seen where
    inv: "walk_inv g start exclude maxDepth dm hasVLAN seen [] res"
    using assms by (auto simp: WalkDownWithVLAN_def)
  let ?S = "insert start (set seen - {exclude})"
  have S: "v \<in> ?S \<longleftrightarrow> v \<in> reach succ start \<and> (v = start \<or> int (dist succ start v - 1) < maxDepth)" for v
    using inv bfs_inv_done [of succ start "\<lambda>n. int n < maxDepth" ?S v]
    by (simp add: walk_inv_def Let_def succ_def)
  have pos: "v \<in> reach succ start \<Longrightarrow> v \<noteq> start \<Longrightarrow> dist succ start v > 0" for v
    using dist_0 [of v succ start] by auto
  show "distinct (map fst res)" "sorted (map snd res)" using inv by (auto simp: walk_inv_def Let_def)
  have "set res = (\<lambda>v. (v, int (dist succ start v))) ` {v \<in> ?S. v \<noteq> start \<and> hasVLAN v}"
    using inv by (simp add: walk_inv_def Let_def succ_def)
  then show "(v, k) \<in> set res \<longleftrightarrow> v \<in> reach succ start \<and> v \<noteq> start \<and> hasVLAN v \<and>
      k = int (dist succ start v) \<and> k \<le> maxDepth"
    using S [of v] pos [of v] by auto
qed


section \<open>The adjacency built from the topology\<close>

lemma adj_get_push: "adj_get (adj_push g a b) u = (if u = a then adj_get g a @ [b] else adj_get g u)"
  by (simp add: adj_push_def adj_get_def update_conv')

definition pair_key :: "device_id \<Rightarrow> device_id \<Rightarrow> device_id \<times> device_id" where
  "pair_key a b = (if a > b then (b, a) else (a, b))"

lemma pair_key_sym: "pair_key a b = pair_key b a"
  by (auto simp: pair_key_def)

lemma pair_key_eq: "pair_key a b = pair_key c d \<longleftrightarrow> (a = c \<and> b = d) \<or> (a = d \<and> b = c)"
  by (auto simp: pair_key_def)

definition lldp_inv :: "adjacency \<times> (device_id \<times> device_id) list \<Rightarrow> bool" where
  "lldp_inv st \<longleftrightarrow> (\<forall>(a, b)\<in>set (snd st). 0 < a \<and> a < b) \<and>
     (\<forall>u. distinct (adj_get (fst st) u)) \<and>
     (\<forall>u v. v \<in> set (adj_get (fst st) u) \<longleftrightarrow> u \<noteq> v \<and> pair_key u v \<in> set (snd st))"

lemma lldp_add_eq:
  "lldp_add a b (adj, seen) =
     (if a \<le> 0 \<or> b \<le> 0 \<or> a = b \<or> pair_key a b \<in> set seen then (adj, seen)
      else (adj_push (adj_push adj a b) b a, pair_key a b # seen))"
  by (simp add: lldp_add_def pair_key_def Let_def)

lemma lldp_add_inv [inv_intros]: "lldp_inv st \<Longrightarrow> lldp_inv (lldp_add a b st)"
proof (cases st)
  case (Pair adj seen)
  assume inv: "lldp_inv st"
  show ?thesis
  proof (cases "a \<le> 0 \<or> b \<le> 0 \<or> a = b \<or> pair_key a b \<in> set seen")
    case True
    with inv show ?thesis by (auto simp: Pair lldp_add_eq)
  next
    case False
    have nin: "b \<notin> set (adj_get adj a)" "a \<notin> set (adj_get adj b)"
      using inv False pair_key_sym [of a b] by (auto simp: Pair lldp_inv_def)
    have "v \<in> set (adj_get (adj_push (adj_push adj a b) b a) u) \<longleftrightarrow>
        u \<noteq> v \<and> pair_key u v \<in> set (pair_key a b # seen)" for u v
      using inv False by (auto simp: Pair lldp_inv_def adj_get_push pair_key_eq)
    moreover have "\<forall>u. distinct (adj_get (adj_push (adj_push adj a b) b a) u)"
      using inv nin False by (auto simp: Pair lldp_inv_def adj_get_push)
    moreover have "\<forall>(c, d)\<in>set (pair_key a b # seen). 0 < c \<and> c < d"
      using inv False by (auto simp: Pair lldp_inv_def pair_key_def)
    ultimately show ?thesis using False by (auto simp: Pair lldp_add_eq lldp_inv_def)
  qed
qed

definition lldp_linked :: "TopologyEdge list \<Rightarrow> device_id \<Rightarrow> device_id \<Rightarrow> bool" where
  "lldp_linked es u v \<longleftrightarrow> u > 0 \<and> v > 0 \<and> u \<noteq> v \<and>
     (\<exists>e\<in>set es. \<not> te_Stale e \<and> (te_LocalDeviceID e = u \<and> te_RemoteDeviceID e = Some v \<or>
        te_LocalDeviceID e = v \<and> te_RemoteDeviceID e = Some u))"

lemma lldp_edge_inv: "lldp_inv st \<Longrightarrow> lldp_inv (lldp_edge e st)"
  by (auto simp: lldp_edge_def split: option.splits intro: inv_intros)

lemma lldp_edge_keys:
  "lldp_inv st \<Longrightarrow> u \<noteq> v \<Longrightarrow>
   pair_key u v \<in> set (snd (lldp_edge e st)) \<longleftrightarrow> pair_key u v \<in> set (snd st) \<or> lldp_linked [e] u v"
  by (cases st) (auto simp: lldp_edge_def lldp_add_eq lldp_linked_def pair_key_eq split: option.splits,
      metis pair_key_sym)

lemma lldp_fold:
  "lldp_inv st \<Longrightarrow> lldp_inv (fold lldp_edge es st) \<and>
   (\<forall>u v. u \<noteq> v \<longrightarrow> (pair_key u v \<in> set (snd (fold lldp_edge es st)) \<longleftrightarrow>
      pair_key u v \<in> set (snd st) \<or> lldp_linked es u v))"
proof (induction es arbitrary: st)
  case (Cons e es)
  have split: "lldp_linked (e # es) u v \<longleftrightarrow> lldp_linked [e] u v \<or> lldp_linked es u v" for u v
    by (auto simp: lldp_linked_def)
  show ?case
    using Cons.IH [OF lldp_edge_inv [OF Cons.prems, of e]] lldp_edge_keys [OF Cons.prems] split by auto
qed (auto simp: lldp_linked_def)

lemma BuildLLDPDeviceAdj_links:
  fixes t
  defines "g \<equiv> fst (BuildLLDPDeviceAdj (Some t))"
  shows "v \<in> set (adj_get g u) \<longleftrightarrow> lldp_linked (tg_Edges t) u v" and "distinct (adj_get g u)"
proof -
  have "lldp_inv ([], [])" by (auto simp: lldp_inv_def adj_get_def)
  from lldp_fold [OF this, of "tg_Edges t"]
  have inv: "lldp_inv (fold lldp_edge (tg_Edges t) ([], []))"
    and k: "u \<noteq> v \<Longrightarrow> pair_key u v \<in> set (snd (fold lldp_edge (tg_Edges t) ([], []))) \<longleftrightarrow> lldp_linked (tg_Edges t) u v" for u v
    by auto
  have g: "g = fst (fold lldp_edge (tg_Edges t) ([], []))" by (simp add: g_def BuildLLDPDeviceAdj_def)
  show "v \<in> set (adj_get g u) \<longleftrightarrow> lldp_linked (tg_Edges t) u v"
    using inv k [of u v] by (auto simp: lldp_inv_def g lldp_linked_def)
  show "distinct (adj_get g u)" using inv by (simp add: lldp_inv_def g)
qed

section \<open>The chosen root\<close>

interpretation topo_root: best_pick "root_step lc" "root_score lc" tn_ID "\<lambda>n. tn_ID n \<noteq> 0" for lc
  by unfold_locales (auto simp: root_step_def Let_def)

interpretation stp_root: best_pick stp_best snd fst "\<lambda>v. fst v \<noteq> 0"
  by unfold_locales (auto simp: stp_best_def)


text \<open>The device a switch votes for, and the number of votes of a device.\<close>
definition stp_vote :: "(string \<rightharpoonup> device_id) \<Rightarrow> string option \<Rightarrow> device_id option" where
  "stp_vote chassisHex st = (case st of
       None \<Rightarrow> None
     | Some r \<Rightarrow> if BridgeIDMACHex r = [] then None
         else (case chassisHex (BridgeIDMACHex r) of None \<Rightarrow> None | Some d \<Rightarrow> if d > 0 then Some d else None))"

definition stp_count :: "(string \<rightharpoonup> device_id) \<Rightarrow> string option list \<Rightarrow> device_id \<Rightarrow> nat" where
  "stp_count chassisHex states d = length (filter (\<lambda>st. stp_vote chassisHex st = Some d) states)"

lemma stp_votes_snoc:
  "stp_votes (states @ [st]) ch = (case stp_vote ch st of
      None \<Rightarrow> stp_votes states ch
    | Some d \<Rightarrow> AList.update d (Suc (case map_of (stp_votes states ch) d of None \<Rightarrow> 0 | Some n \<Rightarrow> n)) (stp_votes states ch))"
  by (auto simp: stp_votes_def stp_vote_def Let_def split: option.splits)

lemma stp_votes_inv:
  "distinct (map fst (stp_votes states ch)) \<and>
   (\<forall>d. map_of (stp_votes states ch) d = (if stp_count ch states d = 0 then None else Some (stp_count ch states d)))"
proof (induction states rule: rev_induct)
  case Nil
  then show ?case by (simp add: stp_votes_def stp_count_def)
next
  case (snoc st states)
  have c: "stp_count ch (states @ [st]) d = stp_count ch states d + (if stp_vote ch st = Some d then 1 else 0)" for d
    by (simp add: stp_count_def)
  show ?case
  proof (cases "stp_vote ch st")
    case None
    with snoc show ?thesis by (simp add: stp_votes_snoc c)
  next
    case (Some e)
    with snoc show ?thesis by (auto simp: stp_votes_snoc c update_conv' distinct_update)
  qed
qed

lemma stp_votes_mem: "(d, n) \<in> set (stp_votes states ch) \<longleftrightarrow> stp_count ch states d = n \<and> n > 0"
  using stp_votes_inv [of states ch] by (auto simp flip: map_of_eq_Some_iff)

lemma stp_count_pos: "stp_count ch states d > 0 \<Longrightarrow> d > 0"
proof -
  assume "stp_count ch states d > 0"
  then obtain st where "stp_vote ch st = Some d" by (auto simp: stp_count_def filter_empty_conv)
  then show "d > 0" by (auto simp: stp_vote_def split: option.splits if_splits)
qed

section \<open>Properties\<close>

text \<open>A small ring of four switches, for the witnesses.\<close>
definition ring4 :: adjacency where
  "ring4 = [(1, [2, 3]), (2, [1, 4]), (3, [1, 4]), (4, [2, 3])]"

lemma ring4_nodes: "adj_nodes ring4 = {1, 2, 3, 4}"
  by (auto simp: adj_nodes_def ring4_def)

lemma ring4_path: "ShortestPath ring4 1 4 2 = [1, 3, 4]"
  by code_simp

text \<open>
  C4. The path search is exact: if some path leads from one device to another without visiting the
  avoided device, the result is such a path, visits no device twice and is as short as any of them;
  otherwise the result is empty. In particular the loop that follows the parent pointers always ends.
\<close>
theorem ShortestPath_correct:
  assumes "0 \<notin> adj_nodes g" "src > 0" "target > 0" "src \<noteq> av" "target \<noteq> av"
  shows "(if \<exists>p. route g av src target p
          then route g av src target (ShortestPath g src target av) \<and> distinct (ShortestPath g src target av) \<and>
               (\<forall>p. route g av src target p \<longrightarrow> length (ShortestPath g src target av) \<le> length p)
          else ShortestPath g src target av = []) \<and>
         (src \<noteq> target \<longrightarrow> sp_search g src target av = Some (ShortestPath g src target av))"
proof -
  have "src \<noteq> target \<Longrightarrow> sp_search g src target av \<noteq> None"
    using sp_search_result [OF assms(1,2,4,5)] by (metis option.distinct(1))
  then have "src \<noteq> target \<longrightarrow> sp_search g src target av = Some (ShortestPath g src target av)"
    using assms by (auto simp: ShortestPath_def)
  with ShortestPath_spec [OF assms] show ?thesis by (auto simp: shortest_route_def split: if_splits)
qed

text \<open>Witness: in the ring, the path from 1 to 4 that avoids 2 goes through 3.\<close>
theorem ShortestPath_correct_witness:
  "route ring4 2 1 4 [1, 3, 4] \<and> \<not> (\<exists>p. route ring4 2 1 4 p \<and> length p < 3)"
proof -
  have r: "route ring4 2 1 4 [1, 3, 4]"
    by (simp add: route_def adj_get_def ring4_def)
  then have ex: "\<exists>p. route ring4 2 1 4 p" by blast
  from ShortestPath_correct [of ring4 1 4 2] ex show ?thesis
    by (auto simp: ring4_nodes ring4_path not_less)
qed

text \<open>
  The distance map computed from the root holds exactly the devices reachable from the root, each
  with its breadth-first distance.
\<close>
theorem BFSDistances_correct:
  assumes "root > 0"
  shows "map_of (BFSDistances g root) v =
    (if v \<in> reach (adj_get g) root then Some (int (dist (adj_get g) root v)) else None)"
  using assms by (rule BFSDistances_lookup)

theorem BFSDistances_correct_witness:
  "4 \<in> reach (adj_get ring4) 1 \<and> dist (adj_get ring4) 1 4 = 2"
proof -
  have "map_of (BFSDistances ring4 1) 4 = Some 2" by code_simp
  with BFSDistances_correct [of 1 ring4 4] show ?thesis by (auto split: if_splits)
qed

text \<open>
  The walk below a switch returns each device once, in order of depth, and returns exactly the
  devices that carry the VLAN and can be reached from the start by links that never lead to the
  excluded device nor to a device that is as near to the root as the current one or nearer, within
  the depth limit; the depth reported is the number of links from the start.
\<close>
theorem WalkDownWithVLAN_correct:
  assumes "start > 0" "maxDepth \<ge> 1"
  shows "distinct (map fst (WalkDownWithVLAN g start exclude maxDepth dm hasVLAN)) \<and>
    sorted (map snd (WalkDownWithVLAN g start exclude maxDepth dm hasVLAN)) \<and>
    ((v, k) \<in> set (WalkDownWithVLAN g start exclude maxDepth dm hasVLAN) \<longleftrightarrow>
       v \<in> reach (down_succ g dm [exclude]) start \<and> v \<noteq> start \<and> hasVLAN v \<and>
       k = int (dist (down_succ g dm [exclude]) start v) \<and> k \<le> maxDepth)"
  using WalkDown_spec [OF assms] by blast

theorem WalkDownWithVLAN_correct_witness:
  "4 \<in> reach (down_succ ring4 (map_of [(1, 0), (2, 1), (3, 1), (4, 2)]) [1]) 2"
proof -
  have "(4, 1) \<in> set (WalkDownWithVLAN ring4 2 1 5 (map_of [(1, 0), (2, 1), (3, 1), (4, 2)]) (\<lambda>_. True))"
    by code_simp
  with WalkDownWithVLAN_correct [of 2 5 ring4 1 "map_of [(1, 0), (2, 1), (3, 1), (4, 2)]" "\<lambda>_. True" 4 1]
  show ?thesis by simp
qed

text \<open>
  The adjacency built from the topology is the symmetric closure of the fresh resolved links: two
  devices are neighbours exactly when some link that is not stale joins them, both identifiers are
  positive and they differ; no neighbour is listed twice, and no device is numbered 0.
\<close>
theorem BuildLLDPDeviceAdj_correct:
  "(v \<in> set (adj_get (fst (BuildLLDPDeviceAdj (Some t))) u) \<longleftrightarrow> lldp_linked (tg_Edges t) u v) \<and>
   (v \<in> set (adj_get (fst (BuildLLDPDeviceAdj (Some t))) u) \<longleftrightarrow>
      u \<in> set (adj_get (fst (BuildLLDPDeviceAdj (Some t))) v)) \<and>
   distinct (adj_get (fst (BuildLLDPDeviceAdj (Some t))) u) \<and>
   0 \<notin> set (adj_get (fst (BuildLLDPDeviceAdj (Some t))) u)"
  using BuildLLDPDeviceAdj_links [where t = t] by (auto simp: lldp_linked_def)

text \<open>
  The root chosen by the heuristic is a node of the highest score and, among those, the one with
  the smallest identifier, so it does not depend on the order of the nodes.
\<close>
theorem pickTopologyRoot_best:
  assumes "ns \<noteq> []" "\<forall>n\<in>set ns. tn_ID n \<noteq> 0 \<and> root_score lc n \<ge> 0"
  shows "(\<exists>n\<in>set ns. tn_ID n = pickTopologyRoot ns lc \<and>
            (\<forall>m\<in>set ns. root_score lc m \<le> root_score lc n \<and>
               (root_score lc m = root_score lc n \<longrightarrow> tn_ID n \<le> tn_ID m))) \<and>
         (\<forall>ms. set ms = set ns \<longrightarrow> pickTopologyRoot ms lc = pickTopologyRoot ns lc)"
proof -
  have best: "topo_root.best_of lc (set ms) (foldl (root_step lc) (b, -1) ms)" if "set ms = set ns" for ms b
  proof (rule topo_root.best_foldl)
    show "ms \<noteq> []" using that assms(1) by auto
    show "\<forall>x\<in>set ms. tn_ID x \<noteq> 0 \<and> - 1 < root_score lc x" using that assms(2) by force
  qed
  have pick: "\<exists>b. pickTopologyRoot ms lc = fst (foldl (root_step lc) (b, -1) ms)" if "set ms = set ns" for ms
    using that assms(1) by (cases ms) (auto simp: pickTopologyRoot_def)
  obtain b where b: "pickTopologyRoot ns lc = fst (foldl (root_step lc) (b, -1) ns)" using pick by blast
  have "pickTopologyRoot ms lc = pickTopologyRoot ns lc" if "set ms = set ns" for ms
    using pick [OF that] b best [OF that] best [OF refl] topo_root.best_unique that by metis
  with best [OF refl, of b] b show ?thesis unfolding topo_root.best_of_def by metis
qed

definition example_nodes :: "TopologyNode list" where
  "example_nodes =
     [\<lparr>tn_ID = 7, tn_Name = ''a'', tn_Host = [], tn_Virtual = False, tn_Kind = ''switch'', tn_LinkCount = 9\<rparr>,
      \<lparr>tn_ID = 5, tn_Name = ''b'', tn_Host = [], tn_Virtual = False, tn_Kind = ''core'', tn_LinkCount = 2\<rparr>]"

theorem pickTopologyRoot_best_witness:
  "pickTopologyRoot example_nodes Map.empty = 5 \<and> pickTopologyRoot (rev example_nodes) Map.empty = 5"
proof -
  have p: "pickTopologyRoot example_nodes Map.empty = 5"
    by (simp add: pickTopologyRoot_def example_nodes_def root_step_def root_score_def)
  have "\<forall>n\<in>set example_nodes. tn_ID n \<noteq> 0 \<and> root_score Map.empty n \<ge> 0"
    by (simp add: example_nodes_def root_score_def)
  moreover have "example_nodes \<noteq> []" by (simp add: example_nodes_def)
  ultimately have "\<forall>ms. set ms = set example_nodes \<longrightarrow> pickTopologyRoot ms Map.empty = pickTopologyRoot example_nodes Map.empty"
    using pickTopologyRoot_best [of example_nodes Map.empty] by blast
  then show ?thesis using p set_rev by metis
qed


text \<open>
  The switch elected as spanning-tree root is the known device named as designated root by the
  most switches and, among equals, the one with the smallest identifier; 0 if no switch names a known
  device. The result is the same whatever the order in which the vote map is ranged over.
\<close>
theorem PreferSTPRootDeviceID_majority:
  assumes "set votes = set (stp_votes states chassisHex)"
  shows "fst (foldl stp_best (0, 0) votes) = PreferSTPRootDeviceID states chassisHex True \<and>
    (if \<forall>d. stp_count chassisHex states d = 0 then PreferSTPRootDeviceID states chassisHex True = 0
     else stp_count chassisHex states (PreferSTPRootDeviceID states chassisHex True) > 0 \<and>
       (\<forall>d. stp_count chassisHex states d \<le> stp_count chassisHex states (PreferSTPRootDeviceID states chassisHex True) \<and>
          (stp_count chassisHex states d = stp_count chassisHex states (PreferSTPRootDeviceID states chassisHex True)
             \<longrightarrow> PreferSTPRootDeviceID states chassisHex True \<le> d)))"
proof -
  let ?V = "stp_votes states chassisHex" and ?c = "stp_count chassisHex states"
  have root: "PreferSTPRootDeviceID states chassisHex True = fst (foldl stp_best (0, 0) ?V)"
    by (auto simp: PreferSTPRootDeviceID_def stp_votes_def)
  show ?thesis
  proof (cases "?V = []")
    case True
    with assms have "votes = []" by simp
    moreover have "\<forall>d. ?c d = 0" using stp_votes_mem [of _ _ states chassisHex] True by fastforce
    ultimately show ?thesis by (simp add: root True)
  next
    case False
    then obtain d0 n0 where "(d0, n0) \<in> set ?V" by (cases ?V) auto
    then have some: "\<not> (\<forall>d. ?c d = 0)" by (auto simp: stp_votes_mem)
    have b: "stp_root.best_of (set vs) (foldl stp_best (0, 0) vs)" if "set vs = set ?V" for vs
    proof (rule stp_root.best_foldl)
      show "vs \<noteq> []" using that False by auto
      show "\<forall>v\<in>set vs. fst v \<noteq> 0 \<and> 0 < snd v" using that stp_votes_mem stp_count_pos by force
    qed
    have eq: "foldl stp_best (0, 0) votes = foldl stp_best (0, 0) ?V"
      using b [OF assms] b [OF refl] assms stp_root.best_unique by metis
    have "foldl stp_best (0, 0) ?V \<in> set ?V"
      using b [OF refl] unfolding stp_root.best_of_def by (metis prod.collapse)
    then obtain r m where rm: "foldl stp_best (0, 0) ?V = (r, m)" "?c r = m" "m > 0"
      by (metis prod.collapse stp_votes_mem)
    have "?c d \<le> m \<and> (?c d = m \<longrightarrow> r \<le> d)" for d
    proof (cases "?c d = 0")
      case False
      then have "(d, ?c d) \<in> set ?V" by (simp add: stp_votes_mem)
      with b [OF refl] show ?thesis by (force simp: stp_root.best_of_def rm)
    qed (use rm in auto)
    with rm some eq show ?thesis by (metis fst_conv root)
  qed
qed

theorem PreferSTPRootDeviceID_majority_witness:
  "fst (foldl stp_best (0, 0) (rev (stp_votes [Some ''aabbccddeeff''] [''aabbccddeeff'' \<mapsto> 9])))
     = PreferSTPRootDeviceID [Some ''aabbccddeeff''] [''aabbccddeeff'' \<mapsto> 9] True"
  using PreferSTPRootDeviceID_majority
    [of "rev (stp_votes [Some ''aabbccddeeff''] [''aabbccddeeff'' \<mapsto> 9])" "[Some ''aabbccddeeff'']"]
  by simp

end
