(* ===== verification/Detour.thy ===== *)
theory Detour
  imports Topology_Graph
begin

text \<open>
  Detours around a switch, as the impact analyses use them: routes in a symmetric topology can be
  reversed and joined, and the interface \<open>path_oracle\<close> states what the analyses rely on of a path search.
  It is interpreted by \<open>ShortestPath\<close>.
\<close>

definition symmetric :: "adjacency \<Rightarrow> bool" where
  "symmetric g \<longleftrightarrow> (\<forall>u v. v \<in> set (adj_get g u) \<longrightarrow> u \<in> set (adj_get g v))"

lemma walk_rev: "(\<And>u v. v \<in> set (succ u) \<Longrightarrow> u \<in> set (succ v)) \<Longrightarrow> walk succ p \<Longrightarrow> walk succ (rev p)"
proof (induction succ p rule: walk.induct)
  case (3 succ x y xs)
  then have "walk succ (rev (y # xs))" "x \<in> set (succ y)" by auto
  then show ?case using walk_snoc [of "rev (y # xs)" succ x] by simp
qed auto

lemma route_rev: "symmetric g \<Longrightarrow> route g av a b p \<Longrightarrow> route g av b a (rev p)"
  using walk_rev [of "adj_get g" p] walk_ne [of "adj_get g" p]
  by (auto simp: route_def symmetric_def hd_rev last_rev)

lemma route_join:
  assumes "route g av a b p" "route g av b c q"
  shows "route g av a c (p @ tl q)"
proof (cases "tl q")
  case Nil
  with assms show ?thesis using walk_ne [of "adj_get g" q] by (cases q) (auto simp: route_def)
next
  case (Cons y ys)
  with assms have q: "q = b # y # ys" by (cases q) (auto simp: route_def)
  with assms have "walk (adj_get g) (y # ys)" "y \<in> set (adj_get g (last p))" "p \<noteq> []" by (auto simp: route_def)
  with assms q show ?thesis by (auto simp: route_def walk_append)
qed

lemma route_ends: "route g av a b p \<Longrightarrow> 0 < av \<Longrightarrow> a \<noteq> av \<and> b \<noteq> av"
  using walk_ne by (fastforce simp: route_def)

text \<open>A device found below a switch is joined to it by a route that avoids the excluded device.\<close>
lemma below_route:
  assumes "d \<in> reach (down_succ g dm [av]) n" "n \<noteq> av"
  shows "\<exists>p. route g av n d p"
proof -
  from assms(1) obtain p where p: "walk (down_succ g dm [av]) p" "hd p = n" "last p = d" by (auto simp: reach_walk)
  have "walk (down_succ g dm [av]) p \<Longrightarrow> walk (adj_get g) p \<and> av \<notin> set (tl p)" for p
    by (induction p rule: induct_list012) (auto simp: down_succ_def)
  with p(1) have "walk (adj_get g) p" "av \<notin> set (tl p)" by auto
  with p assms(2) have "route g av n d p" by (cases p) (auto simp: route_def)
  then show ?thesis by blast
qed

section \<open>What an analysis needs of a path search\<close>

locale path_oracle =
  fixes path :: "adjacency \<Rightarrow> device_id \<Rightarrow> device_id \<Rightarrow> device_id \<Rightarrow> device_id list"
  assumes path_route: "0 \<notin> adj_nodes g \<Longrightarrow> 0 < src \<Longrightarrow> 0 < target \<Longrightarrow> path g src target av \<noteq> [] \<Longrightarrow>
      shortest_route g av src target (path g src target av)"
    and path_complete: "0 \<notin> adj_nodes g \<Longrightarrow> 0 < src \<Longrightarrow> 0 < target \<Longrightarrow> 0 \<le> av \<Longrightarrow>
      route g av src target p \<Longrightarrow> path g src target av \<noteq> []"
begin

lemma path_iff:
  "0 \<notin> adj_nodes g \<Longrightarrow> 0 < src \<Longrightarrow> 0 < target \<Longrightarrow> 0 \<le> av \<Longrightarrow>
   path g src target av \<noteq> [] \<longleftrightarrow> (\<exists>p. route g av src target p)"
  using path_route path_complete by (metis shortest_route_def)

text \<open>A detour of a switch is a detour of every device below it.\<close>
lemma detour_below:
  assumes g: "0 \<notin> adj_nodes g" "symmetric g" and pos: "0 < n" "0 < d" "0 < root" "0 \<le> av" "n \<noteq> av"
    and p: "path g n root av \<noteq> []" and d: "d \<in> reach (down_succ g dm [av]) n"
  shows "path g d root av \<noteq> []"
proof -
  from p path_iff [OF g(1) pos(1,3,4)] obtain q where "route g av n root q" by blast
  moreover from below_route [OF d pos(5)] g(2) obtain r where "route g av d n r" using route_rev by blast
  ultimately have "route g av d root (r @ tl q)" by (metis route_join)
  then show ?thesis using path_complete [OF g(1) pos(2-4)] by blast
qed

text \<open>Without an excluded device the search works in both directions.\<close>
lemma path_back:
  assumes "0 \<notin> adj_nodes g" "symmetric g" "0 < a" "0 < b" "0 \<le> av"
  shows "path g a b av \<noteq> [] \<longleftrightarrow> path g b a av \<noteq> []"
  using path_iff [OF assms(1,3,4,5)] path_iff [OF assms(1,4,3,5)] route_rev [OF assms(2)] by metis

end

interpretation shortest: path_oracle ShortestPath
proof
  fix g :: adjacency and src target av :: device_id and p
  assume a: "0 \<notin> adj_nodes g" "0 < src" "0 < target"
  show "shortest_route g av src target (ShortestPath g src target av)" if "ShortestPath g src target av \<noteq> []"
  proof -
    from that have "src \<noteq> av" "target \<noteq> av" by (auto simp: ShortestPath_def split: if_splits)
    from ShortestPath_spec [OF a this] that show ?thesis by (auto split: if_splits)
  qed
  show "ShortestPath g src target av \<noteq> []" if av: "0 \<le> av" and p: "route g av src target p"
  proof -
    have "0 < av \<Longrightarrow> src \<noteq> av \<and> target \<noteq> av" using route_ends [OF p] by simp
    with a av have "src \<noteq> av" "target \<noteq> av" by force+
    from ShortestPath_spec [OF a this] p show ?thesis by (auto simp: shortest_route_def route_def split: if_splits)
  qed
qed

lemma HasPathAvoiding_path: "HasPathAvoiding g src target av \<longleftrightarrow> ShortestPath g src target av \<noteq> []"
  by (simp add: HasPathAvoiding_def)

end
