(* ===== verification/Vlan_List.thy ===== *)
theory Vlan_List
  imports Go_Prelude
begin

text \<open>
  VLAN identifier lists and the requests that carry them (\<open>internal/swcfg/vlan.go\<close>, first part):
  the syntax \<open>10,20-22,30\<close> accepted from users and read from switches, its canonical printed form,
  the validation of a port change and of a change to the VLAN database.
\<close>

section \<open>Requests\<close>

abbreviation VLANOpSetAccess :: string where "VLANOpSetAccess \<equiv> ''set_access''"
abbreviation VLANOpAddTagged :: string where "VLANOpAddTagged \<equiv> ''add_tagged''"
abbreviation VLANOpRemove :: string where "VLANOpRemove \<equiv> ''remove''"
abbreviation VLANOpTrunkAllow :: string where "VLANOpTrunkAllow \<equiv> ''trunk_allow''"
abbreviation VLANOpSetNative :: string where "VLANOpSetNative \<equiv> ''set_native''"
abbreviation VLANOpNoVLAN :: string where "VLANOpNoVLAN \<equiv> ''no_vlan''"
abbreviation TrunkAllowAdd :: string where "TrunkAllowAdd \<equiv> ''add''"
abbreviation TrunkAllowRemove :: string where "TrunkAllowRemove \<equiv> ''remove''"
abbreviation TrunkAllowAll :: string where "TrunkAllowAll \<equiv> ''all''"
abbreviation TrunkAllowExcept :: string where "TrunkAllowExcept \<equiv> ''except''"
abbreviation TrunkAllowSet :: string where "TrunkAllowSet \<equiv> ''set''"
abbreviation VLANDBOpSetName :: string where "VLANDBOpSetName \<equiv> ''set_name''"
abbreviation VLANDBOpDelete :: string where "VLANDBOpDelete \<equiv> ''delete''"
abbreviation VLANDBOpCreate :: string where "VLANDBOpCreate \<equiv> ''create''"

record PortVLANChange =
  pc_Op :: string
  pc_VLANID :: int
  pc_AllowedMode :: string
  pc_AllowedList :: string
  pc_PrevAccessVLAN :: "int option"
  pc_PortMode :: string

record VLANDatabaseChange =
  dc_Op :: string
  dc_VLANID :: int
  dc_VLANIDs :: "int list"
  dc_Name :: string

text \<open>The errors of the two \<open>Validate\<close> methods.\<close>
datatype vlan_error =
    BadVLANID | BadNativeVLANID | EmptyAllowedList | TooManyVLANs | BadAllowedMode
  | UnknownVLANOp string | NoDeleteIDs | TooManyDeletes | CannotDeleteVLAN1 | UnknownDBOp string

section \<open>Lists of identifiers\<close>

definition validVLANID :: "int \<Rightarrow> bool" where
  "validVLANID n \<longleftrightarrow> n \<ge> 1 \<and> n \<le> 4094"

text \<open>The set \<open>dst\<close> of \<open>addVLANID\<close>, as a list without repetition.\<close>
definition addVLANID :: "int list \<Rightarrow> int \<Rightarrow> int list" where
  "addVLANID dst n = (if validVLANID n \<and> n \<notin> set dst then dst @ [n] else dst)"

text \<open>\<open>for strings.Contains(s, pat) \<dots> s = strings.ReplaceAll(s, pat, rep)\<close>, where \<open>rep\<close> is shorter.\<close>
function collapse :: "string \<Rightarrow> string \<Rightarrow> string \<Rightarrow> string" where
  "collapse pat rep s =
     (if length rep < length pat \<and> Contains s pat then collapse pat rep (ReplaceAll s pat rep) else s)"
  by pat_completeness auto
termination
  by (relation "measure (\<lambda>(pat, rep, s). length s)") (auto intro: length_ReplaceAll)

declare collapse.simps [simp del]

definition NormalizeVLANList :: "string \<Rightarrow> string" where
  "NormalizeVLANList s0 =
     (let s1 = TrimSpace s0;
          s2 = ReplaceAll s1 '';'' '','';
          s3 = ReplaceAll s2 '' '' '','';
          s4 = collapse '',,'' '','' s3
      in Trim s4 '','')"

definition FormatVLANIDList :: "int list \<Rightarrow> string" where
  "FormatVLANIDList ids = (if ids = [] then [] else Join (map Itoa ids) '','')"

text \<open>One comma-separated part: a range, or a single identifier; anything else is skipped.\<close>
definition parse_part :: "int list \<Rightarrow> string \<Rightarrow> int list" where
  "parse_part seen part0 =
     (let part = TrimSpace part0 in
      if part = [] then seen
      else case IndexByte part CHR ''-'' of
        Some (Suc i) \<Rightarrow>
          (case (Atoi (TrimSpace (take (Suc i) part)), Atoi (TrimSpace (drop (Suc (Suc i)) part))) of
             (Some a0, Some b0) \<Rightarrow>
               if a0 < 1 \<or> b0 < 1 then seen
               else let a = min a0 b0; b = max a0 b0 in
                 if b - a > 4094 then seen else foldl addVLANID seen [a..b]
           | _ \<Rightarrow> seen)
      | _ \<Rightarrow> (case Atoi part of Some n \<Rightarrow> addVLANID seen n | None \<Rightarrow> seen))"

definition ParseVLANIDList :: "string \<Rightarrow> int list" where
  "ParseVLANIDList s0 =
     (let s1 = NormalizeVLANList s0;
          s2 = TrimSpace (ToLower s1);
          s3 = TrimPrefix s2 ''add '';
          s4 = TrimPrefix s3 ''remove '';
          s5 = TrimPrefix s4 ''except '';
          s = TrimSpace s5
      in if s = [] \<or> s = ''all'' \<or> s = ''none'' then []
         else sort (foldl parse_part [] (Split s CHR '','')))"

definition append_unique :: "int list \<Rightarrow> int \<Rightarrow> int list" where
  "append_unique dst n = (if \<not> validVLANID n \<or> n \<in> set dst then dst else dst @ [n])"

definition appendUniqueInts :: "int list \<Rightarrow> int list \<Rightarrow> int list" where
  "appendUniqueInts dst add = sort (foldl append_unique dst add)"

section \<open>Validation\<close>

definition PortVLANChange_Validate :: "PortVLANChange \<Rightarrow> vlan_error option" where
  "PortVLANChange_Validate v =
     (if pc_Op v = VLANOpNoVLAN then None
      else if pc_Op v = VLANOpSetAccess \<or> pc_Op v = VLANOpAddTagged \<or> pc_Op v = VLANOpRemove
              \<or> pc_Op v = VLANOpSetNative
      then (if pc_VLANID v < 1 \<or> pc_VLANID v > 4094 then Some BadVLANID else None)
      else if pc_Op v = VLANOpTrunkAllow then
        (if pc_VLANID v \<noteq> 0 \<and> (pc_VLANID v < 1 \<or> pc_VLANID v > 4094) then Some BadNativeVLANID
         else let mode = ToLower (TrimSpace (pc_AllowedMode v)) in
           if mode = TrunkAllowAll then None
           else if mode = TrunkAllowAdd \<or> mode = TrunkAllowRemove \<or> mode = TrunkAllowExcept \<or> mode = TrunkAllowSet
           then let ids = ParseVLANIDList (NormalizeVLANList (pc_AllowedList v)) in
             (if ids = [] then Some EmptyAllowedList
              else if length ids > 256 then Some TooManyVLANs else None)
           else Some BadAllowedMode)
      else Some (UnknownVLANOp (pc_Op v)))"

definition delete_add :: "int list \<Rightarrow> int \<Rightarrow> int list" where
  "delete_add out n = (if n < 1 \<or> n \<in> set out then out else out @ [n])"

definition DeleteIDs :: "VLANDatabaseChange \<Rightarrow> int list" where
  "DeleteIDs v =
     (if dc_Op v \<noteq> VLANDBOpDelete then []
      else let out = foldl delete_add [] (dc_VLANIDs v) in
        sort (if out = [] then delete_add out (dc_VLANID v) else out))"

text \<open>The loop over the identifiers to delete, with its early returns.\<close>
fun check_deletes :: "int list \<Rightarrow> vlan_error option" where
  "check_deletes [] = None"
| "check_deletes (n # ns) =
     (if n < 1 \<or> n > 4094 then Some BadVLANID
      else if n = 1 then Some CannotDeleteVLAN1 else check_deletes ns)"

definition VLANDatabaseChange_Validate :: "VLANDatabaseChange \<Rightarrow> vlan_error option" where
  "VLANDatabaseChange_Validate v =
     (if dc_Op v = VLANDBOpSetName \<or> dc_Op v = VLANDBOpCreate
      then (if dc_VLANID v < 1 \<or> dc_VLANID v > 4094 then Some BadVLANID else None)
      else if dc_Op v = VLANDBOpDelete then
        (let ids = DeleteIDs v in
         if ids = [] then Some NoDeleteIDs
         else if length ids > 256 then Some TooManyDeletes
         else check_deletes ids)
      else Some (UnknownDBOp (dc_Op v)))"

definition deleteIDCSV :: "VLANDatabaseChange \<Rightarrow> string" where
  "deleteIDCSV v = FormatVLANIDList (DeleteIDs v)"

section \<open>The parser yields sorted lists of valid identifiers\<close>

definition id_list :: "int list \<Rightarrow> bool" where
  "id_list ids \<longleftrightarrow> distinct ids \<and> (\<forall>n\<in>set ids. validVLANID n)"

lemma id_list_add [inv_intros]: "id_list dst \<Longrightarrow> id_list (addVLANID dst n)"
  by (auto simp: id_list_def addVLANID_def)

lemma id_list_adds: "id_list dst \<Longrightarrow> id_list (foldl addVLANID dst ns)"
  by (induction ns arbitrary: dst) (auto intro: inv_intros)

lemma id_list_part: "id_list seen \<Longrightarrow> id_list (parse_part seen p)"
  unfolding parse_part_def Let_def
  by (auto split: option.splits nat.splits intro: inv_intros id_list_adds)

lemma id_list_parts: "id_list seen \<Longrightarrow> id_list (foldl parse_part seen ps)"
  by (induction ps arbitrary: seen) (auto intro: id_list_part)

lemma ParseVLANIDList_ok: "sorted (ParseVLANIDList s) \<and> id_list (ParseVLANIDList s)"
proof -
  have "id_list []" by (simp add: id_list_def)
  then have "id_list (foldl parse_part [] ps)" for ps by (rule id_list_parts)
  then show ?thesis by (auto simp: ParseVLANIDList_def Let_def id_list_def)
qed

lemma set_addVLANIDs: "set (foldl addVLANID dst ns) = set dst \<union> {n \<in> set ns. validVLANID n}"
  by (induction ns arbitrary: dst) (auto simp: addVLANID_def)

lemma append_unique_list:
  "set (foldl append_unique dst ns) = set dst \<union> {n \<in> set ns. validVLANID n}
   \<and> (distinct dst \<longrightarrow> distinct (foldl append_unique dst ns))"
  by (induction ns arbitrary: dst) (auto simp: append_unique_def)

lemma appendUniqueInts_set:
  "set (appendUniqueInts dst ns) = set dst \<union> {n \<in> set ns. validVLANID n}"
  "distinct dst \<Longrightarrow> distinct (appendUniqueInts dst ns)" "sorted (appendUniqueInts dst ns)"
  using append_unique_list by (auto simp: appendUniqueInts_def)

section \<open>Printing and parsing\<close>

text \<open>An item of a list: one identifier, or a range.\<close>
datatype vlan_item = One int | Range int int

fun show_item :: "vlan_item \<Rightarrow> string" where
  "show_item (One n) = Itoa n"
| "show_item (Range a b) = Itoa a @ ''-'' @ Itoa b"

fun item_ids :: "vlan_item \<Rightarrow> int set" where
  "item_ids (One n) = {n}"
| "item_ids (Range a b) = {min a b..max a b}"

fun item_ok :: "vlan_item \<Rightarrow> bool" where
  "item_ok (One n) \<longleftrightarrow> validVLANID n"
| "item_ok (Range a b) \<longleftrightarrow> validVLANID a \<and> validVLANID b"

lemma validVLANID_int64: "validVLANID n \<Longrightarrow> in_int64 n"
  by (simp add: validVLANID_def in_int64_def min_int64_def max_int64_def)

lemma IndexByte_absent: "b \<notin> set s \<Longrightarrow> IndexByte s b = None"
  by (induction s) auto

lemma IndexByte_append: "b \<notin> set s \<Longrightarrow> IndexByte (s @ b # t) b = Some (length s)"
  by (induction s) auto

lemma Itoa_valid_digits: "validVLANID n \<Longrightarrow> c \<in> set (Itoa n) \<Longrightarrow> is_digit c"
  by (rule Itoa_nonneg_digit) (auto simp: validVLANID_def)

lemma show_item_chars: "item_ok it \<Longrightarrow> c \<in> set (show_item it) \<Longrightarrow> is_digit c \<or> c = CHR ''-''"
  by (cases it) (auto dest: Itoa_valid_digits)

lemma show_item_ne: "show_item it \<noteq> []"
  by (cases it) auto

lemma show_item_plain:
  assumes "item_ok it"
  shows "\<forall>c\<in>set (show_item it). \<not> is_space c \<and> \<not> is_upper c \<and> c \<noteq> CHR '','' \<and> c \<noteq> CHR '';''"
proof
  fix c assume "c \<in> set (show_item it)"
  then have "is_digit c \<or> c = CHR ''-''" by (rule show_item_chars [OF assms])
  then show "\<not> is_space c \<and> \<not> is_upper c \<and> c \<noteq> CHR '','' \<and> c \<noteq> CHR '';''"
    using is_digit_not_space is_digit_not_upper by (elim disjE) (auto simp: is_space_def is_upper_def)
qed

lemma parse_part_item:
  assumes "item_ok it"
  shows "parse_part seen (show_item it) = foldl addVLANID seen (case it of One n \<Rightarrow> [n] | Range a b \<Rightarrow> [min a b..max a b])"
proof -
  have trim: "TrimSpace (show_item it) = show_item it"
    by (rule TrimSpace_no_space) (use show_item_plain [OF assms] in blast)
  show ?thesis
  proof (cases it)
    case (One n)
    have "CHR ''-'' \<notin> set (Itoa n)"
      using assms One Itoa_valid_digits not_digit_sign(1) by (metis item_ok.simps(1))
    then show ?thesis using assms One trim
      by (simp add: parse_part_def Let_def IndexByte_absent Atoi_Itoa validVLANID_int64)
  next
    case (Range a b)
    then have v: "validVLANID a" "validVLANID b" using assms by auto
    have "CHR ''-'' \<notin> set (Itoa a)" using v(1) Itoa_valid_digits not_digit_sign(1) by metis
    then have ix: "IndexByte (Itoa a @ CHR ''-'' # Itoa b) CHR ''-'' = Some (length (Itoa a))"
      by (rule IndexByte_append)
    obtain i where i: "length (Itoa a) = Suc i" by (cases "Itoa a") auto
    have pieces: "take (Suc i) (Itoa a @ CHR ''-'' # Itoa b) = Itoa a"
      "drop (Suc (Suc i)) (Itoa a @ CHR ''-'' # Itoa b) = Itoa b" by (simp_all flip: i)
    have "\<not> max a b - min a b > 4094" using v by (auto simp: validVLANID_def)
    then show ?thesis using v trim ix i pieces Range
      by (auto simp: parse_part_def Let_def Atoi_Itoa validVLANID_int64 validVLANID_def)
  qed
qed

lemma foldl_parse_items:
  "\<forall>it\<in>set its. item_ok it \<Longrightarrow>
   set (foldl parse_part seen (map show_item its)) = set seen \<union> (\<Union>it\<in>set its. item_ids it)"
proof (induction its arbitrary: seen)
  case (Cons it its)
  have "set (parse_part seen (show_item it)) = set seen \<union> item_ids it"
    using Cons.prems parse_part_item [of it seen]
    by (cases it) (auto simp: set_addVLANIDs addVLANID_def validVLANID_def)
  with Cons show ?case by auto
qed simp


lemma Contains_Cons_pair: "Contains (x # s) [c, c] \<longleftrightarrow> (x = c \<and> s \<noteq> [] \<and> hd s = c) \<or> Contains s [c, c]"
  by (cases s) (auto simp: Contains_def)

lemma Contains_append_pair: "c \<notin> set w \<Longrightarrow> Contains (w @ s) [c, c] \<longleftrightarrow> Contains s [c, c]"
  by (induction w) (auto simp: Contains_Cons_pair)

lemma Contains_Nil_pair: "\<not> Contains [] [c, c]"
  by (simp add: Contains_def)

text \<open>Words without separators, joined by one: the text the normaliser leaves alone.\<close>
definition plain_words :: "string list \<Rightarrow> bool" where
  "plain_words ws \<longleftrightarrow> ws \<noteq> [] \<and>
     (\<forall>w\<in>set ws. w \<noteq> [] \<and> (\<forall>c\<in>set w. \<not> is_space c \<and> \<not> is_upper c \<and> c \<noteq> CHR '','' \<and> c \<noteq> CHR '';''))"

lemma Join_hd: "ws \<noteq> [] \<Longrightarrow> hd ws \<noteq> [] \<Longrightarrow> Join ws sep \<noteq> [] \<and> hd (Join ws sep) = hd (hd ws)"
  by (induction ws sep rule: Join.induct) (auto simp: hd_append)

lemma Join_last: "ws \<noteq> [] \<Longrightarrow> last ws \<noteq> [] \<Longrightarrow> Join ws sep \<noteq> [] \<and> last (Join ws sep) = last (last ws)"
  by (induction ws sep rule: Join.induct) auto

lemma Join_no_double:
  "\<forall>w\<in>set ws. w \<noteq> [] \<and> c \<notin> set w \<Longrightarrow> \<not> Contains (Join ws [c]) [c, c]"
proof (induction ws "[c]" rule: Join.induct)
  case (2 w)
  then show ?case using Contains_append_pair [of c w "[]"] by (simp add: Contains_Nil_pair)
next
  case (3 w v ws)
  have "Join (v # ws) [c] \<noteq> [] \<and> hd (Join (v # ws) [c]) = hd v"
    using Join_hd [of "v # ws" "[c]"] 3 by simp
  moreover have "hd v \<noteq> c" using 3 by (metis hd_in_set list.set_intros(1) list.set_intros(2))
  ultimately show ?case using 3 by (simp add: Contains_append_pair Contains_Cons_pair)
qed (simp add: Contains_Nil_pair)

lemma Normalize_plain:
  assumes "plain_words ws"
  shows "NormalizeVLANList (Join ws '','') = Join ws '',''"
proof -
  let ?s = "Join ws '',''"
  have ws: "ws \<noteq> []" "\<forall>w\<in>set ws. w \<noteq> [] \<and> CHR '','' \<notin> set w" using assms by (auto simp: plain_words_def)
  have ch: "c \<in> set ?s \<Longrightarrow> (\<not> is_space c \<and> c \<noteq> CHR '';'') \<or> c = CHR '',''" for c
    using set_Join [of ws "'',''"] assms by (fastforce simp: plain_words_def)
  have sp: "\<not> is_space CHR '',''" by (simp add: is_space_def)
  have t: "TrimSpace ?s = ?s" by (rule TrimSpace_no_space) (use ch sp in blast)
  have "CHR '';'' \<notin> set ?s" "CHR '' '' \<notin> set ?s" using ch by (auto simp: is_space_def)
  then have r: "ReplaceAll ?s '';'' '','' = ?s" "ReplaceAll ?s '' '' '','' = ?s"
    by (auto intro!: ReplaceAll_absent simp: Contains_char)
  have "\<not> Contains ?s '',,''" using Join_no_double ws by blast
  then have c: "collapse '',,'' '','' ?s = ?s" by (subst collapse.simps) simp
  have e: "hd ws \<noteq> []" "last ws \<noteq> []" "hd ws \<in> set ws" "last ws \<in> set ws" using ws by auto
  have "hd ?s = hd (hd ws)" "last ?s = last (last ws)" "?s \<noteq> []"
    using Join_hd [OF ws(1) e(1)] Join_last [OF ws(1) e(2)] by auto
  moreover have "hd (hd ws) \<noteq> CHR '',''" "last (last ws) \<noteq> CHR '',''"
    using ws(2) e by (metis hd_in_set, metis last_in_set)
  ultimately have "Trim ?s '','' = ?s"
    unfolding Trim_def trim_left_def by (simp add: dropWhile_id trim_right_id)
  then show ?thesis by (simp add: NormalizeVLANList_def Let_def t r c)
qed

lemma TrimPrefix_no_space: "CHR '' '' \<notin> set s \<Longrightarrow> CHR '' '' \<in> set p \<Longrightarrow> TrimPrefix s p = s"
  by (auto simp: TrimPrefix_def HasPrefix_iff)

lemma sort_eq_sorted_list: "distinct xs \<Longrightarrow> sort xs = sorted_list_of_set (set xs)"
  by (simp add: sorted_list_of_set_sort_remdups distinct_remdups_id)

lemma Parse_plain:
  assumes "plain_words ws" "Join ws '','' \<noteq> ''all''" "Join ws '','' \<noteq> ''none''"
  shows "ParseVLANIDList (Join ws '','') = sort (foldl parse_part [] ws)"
proof -
  let ?s = "Join ws '',''"
  have ch: "c \<in> set ?s \<Longrightarrow> \<not> is_space c \<and> \<not> is_upper c" for c
    using set_Join [of ws "'',''"] assms(1) by (fastforce simp: plain_words_def is_space_def is_upper_def)
  have t: "TrimSpace ?s = ?s" by (rule TrimSpace_no_space) (use ch in blast)
  have l: "ToLower ?s = ?s" by (rule ToLower_id) (use ch in blast)
  have "CHR '' '' \<notin> set ?s" using ch by (force simp: is_space_def)
  then have p: "TrimPrefix ?s ''add '' = ?s" "TrimPrefix ?s ''remove '' = ?s" "TrimPrefix ?s ''except '' = ?s"
    by (auto intro: TrimPrefix_no_space)
  have "hd ws \<noteq> []" using assms(1) by (auto simp: plain_words_def)
  then have "?s \<noteq> []" using Join_hd assms(1) by (auto simp: plain_words_def)
  moreover have "Split ?s CHR '','' = ws"
    using assms(1) by (intro Split_Join) (auto simp: plain_words_def)
  ultimately show ?thesis
    using assms by (simp add: ParseVLANIDList_def Let_def Normalize_plain t l p)
qed

lemma items_plain: "its \<noteq> [] \<Longrightarrow> \<forall>it\<in>set its. item_ok it \<Longrightarrow> plain_words (map show_item its)"
  unfolding plain_words_def using show_item_ne show_item_plain by auto

lemma Parse_items:
  assumes "its \<noteq> []" "\<forall>it\<in>set its. item_ok it"
  shows "ParseVLANIDList (Join (map show_item its) '','') = sorted_list_of_set (\<Union>it\<in>set its. item_ids it)"
proof -
  let ?s = "Join (map show_item its) '',''"
  have "hd (show_item (hd its)) \<in> set (show_item (hd its))" using show_item_ne by (rule hd_in_set)
  then have "is_digit (hd (show_item (hd its))) \<or> hd (show_item (hd its)) = CHR ''-''"
    by (rule show_item_chars [rotated]) (use assms in auto)
  moreover have "hd ?s = hd (show_item (hd its))"
    using Join_hd [of "map show_item its" "'',''"] assms(1) show_item_ne by (auto simp: hd_map)
  moreover have "\<not> is_digit CHR ''a''" "\<not> is_digit CHR ''n''" by (simp_all add: is_digit_def)
  ultimately have "?s \<noteq> ''all''" "?s \<noteq> ''none''" by auto
  then have "ParseVLANIDList ?s = sort (foldl parse_part [] (map show_item its))"
    using Parse_plain items_plain assms by blast
  moreover have "distinct (foldl parse_part [] (map show_item its))"
    using id_list_parts [of "[]"] by (auto simp: id_list_def)
  ultimately show ?thesis using foldl_parse_items [OF assms(2), of "[]"] by (simp add: sort_eq_sorted_list)
qed

lemma Format_items: "FormatVLANIDList ids = Join (map show_item (map One ids)) '',''"
  by (simp add: FormatVLANIDList_def o_def)

lemma ParseVLANIDList_Nil: "ParseVLANIDList [] = []"
  by code_simp

lemma Parse_Format:
  assumes "sorted ids" "distinct ids" "\<forall>n\<in>set ids. 1 \<le> n \<and> n \<le> 4094"
  shows "ParseVLANIDList (FormatVLANIDList ids) = ids"
proof (cases "ids = []")
  case True
  then show ?thesis by (simp add: FormatVLANIDList_def ParseVLANIDList_Nil)
next
  case False
  have "(\<Union>it\<in>set (map One ids). item_ids it) = set ids" by auto
  moreover have "\<forall>it\<in>set (map One ids). item_ok it" using assms(3) by (auto simp: validVLANID_def)
  ultimately have "ParseVLANIDList (FormatVLANIDList ids) = sorted_list_of_set (set ids)"
    unfolding Format_items using Parse_items [of "map One ids"] False by simp
  with assms(1,2) show ?thesis by (simp add: sorted_list_of_set.idem_if_sorted_distinct)
qed

lemma Parse_Format_Parse: "ParseVLANIDList (FormatVLANIDList (ParseVLANIDList s)) = ParseVLANIDList s"
  using ParseVLANIDList_ok [of s] by (intro Parse_Format) (auto simp: id_list_def validVLANID_def)

lemma Format_chars:
  "\<forall>n\<in>set ids. validVLANID n \<Longrightarrow> c \<in> set (FormatVLANIDList ids) \<Longrightarrow> is_digit c \<or> c = CHR '',''"
  using set_Join [of "map Itoa ids" "'',''"] Itoa_valid_digits
  by (fastforce simp: FormatVLANIDList_def split: if_splits)

section \<open>Properties\<close>

text \<open>
  Whatever text is parsed, the result is a strictly increasing list of VLAN identifiers between
  1 and 4094.
\<close>
theorem ParseVLANIDList_valid:
  "sorted (ParseVLANIDList s) \<and> distinct (ParseVLANIDList s) \<and>
   (\<forall>n. n \<in> set (ParseVLANIDList s) \<longrightarrow> 1 \<le> n \<and> n \<le> 4094)"
  using ParseVLANIDList_ok [of s] by (auto simp: id_list_def validVLANID_def)

theorem ParseVLANIDList_valid_witness: "1 \<le> hd (ParseVLANIDList ''7;5 9'') \<and> hd (ParseVLANIDList ''7;5 9'') \<le> 4094"
proof -
  have "ParseVLANIDList ''7;5 9'' = [5, 7, 9]" by code_simp
  then show ?thesis using ParseVLANIDList_valid [of "''7;5 9''"] by simp
qed

text \<open>
  A list of valid identifiers and ranges, written with commas, is read back as exactly the
  identifiers it denotes, in increasing order and without repetition.
\<close>
theorem ParseVLANIDList_items:
  assumes "its \<noteq> []" "\<forall>it\<in>set its. item_ok it"
  shows "ParseVLANIDList (Join (map show_item its) '','') = sorted_list_of_set (\<Union>it\<in>set its. item_ids it)"
  using assms by (rule Parse_items)

theorem ParseVLANIDList_items_witness:
  "ParseVLANIDList ''10,22-20'' = sorted_list_of_set ({10} \<union> {20..22})"
proof -
  have "Join (map show_item [One 10, Range 22 20]) '','' = ''10,22-20''" by code_simp
  then show ?thesis
    using ParseVLANIDList_items [of "[One 10, Range 22 20]"] by (simp add: validVLANID_def)
qed

text \<open>
  Printing a strictly increasing list of valid identifiers and parsing the text gives the list
  back; this is what makes the commands sent to a switch agree with the configuration read from it.
\<close>
theorem Parse_Format_roundtrip:
  assumes "sorted ids" "distinct ids" "\<forall>n\<in>set ids. 1 \<le> n \<and> n \<le> 4094"
  shows "ParseVLANIDList (FormatVLANIDList ids) = ids"
  using assms by (rule Parse_Format)

theorem Parse_Format_roundtrip_witness: "ParseVLANIDList (FormatVLANIDList [10, 20, 4094]) = [10, 20, 4094]"
  by (rule Parse_Format_roundtrip) auto


lemma delete_add_list:
  "set (foldl delete_add out ns) = set out \<union> {n \<in> set ns. n \<ge> 1}
   \<and> (distinct out \<longrightarrow> distinct (foldl delete_add out ns))"
  by (induction ns arbitrary: out) (auto simp: delete_add_def)

lemma check_deletes_None: "check_deletes ids = None \<longleftrightarrow> (\<forall>n\<in>set ids. 2 \<le> n \<and> n \<le> 4094)"
  by (induction ids) auto

text \<open>
  A deletion request passes validation exactly when it names at least one VLAN and at most 256,
  all between 2 and 4094: VLAN 1 can never be deleted. What is then deleted is the set of requested
  positive identifiers, each once, in increasing order.
\<close>
theorem Validate_delete_exact:
  assumes "dc_Op v = VLANDBOpDelete"
  shows "(VLANDatabaseChange_Validate v = None \<longleftrightarrow>
            DeleteIDs v \<noteq> [] \<and> length (DeleteIDs v) \<le> 256 \<and> (\<forall>n\<in>set (DeleteIDs v). 2 \<le> n \<and> n \<le> 4094)) \<and>
         sorted (DeleteIDs v) \<and> distinct (DeleteIDs v) \<and>
         set (DeleteIDs v) = (if \<exists>n\<in>set (dc_VLANIDs v). n \<ge> 1 then {n \<in> set (dc_VLANIDs v). n \<ge> 1}
                              else if dc_VLANID v \<ge> 1 then {dc_VLANID v} else {})"
proof -
  let ?out = "foldl delete_add [] (dc_VLANIDs v)"
  have o: "set ?out = {n \<in> set (dc_VLANIDs v). n \<ge> 1}" "distinct ?out"
    using delete_add_list [of "[]" "dc_VLANIDs v"] by auto
  then have "?out = [] \<longleftrightarrow> \<not> (\<exists>n\<in>set (dc_VLANIDs v). n \<ge> 1)" by (metis (mono_tags, lifting) empty_Collect_eq set_empty)
  with o assms show ?thesis
    by (auto simp: VLANDatabaseChange_Validate_def DeleteIDs_def Let_def check_deletes_None delete_add_def)
qed

theorem Validate_delete_exact_witness:
  "VLANDatabaseChange_Validate \<lparr>dc_Op = ''delete'', dc_VLANID = 0, dc_VLANIDs = [30, 20, 30], dc_Name = []\<rparr> = None"
proof -
  have "DeleteIDs \<lparr>dc_Op = ''delete'', dc_VLANID = 0, dc_VLANIDs = [30, 20, 30], dc_Name = []\<rparr> = [20, 30]"
    by code_simp
  then show ?thesis
    using Validate_delete_exact [of "\<lparr>dc_Op = ''delete'', dc_VLANID = 0, dc_VLANIDs = [30, 20, 30], dc_Name = []\<rparr>"]
    by simp
qed

end
