(* ===== verification/Port_Config.thy ===== *)
theory Port_Config
  imports Vlan_List "HOL-Library.AList"
begin

text \<open>
  Reading a running configuration (\<open>internal/swcfg/port_mode.go\<close> and the parsing half of
  \<open>vlan.go\<close>): the interface blocks with their description, mode and VLAN membership, the matching
  of interface names between the configuration and SNMP, and the VLAN database.
\<close>

section \<open>Interface blocks\<close>

record ParsedInterfaceCLI =
  pi_IfaceName :: string
  pi_Description :: string
  pi_HasDescr :: bool
  pi_Mode :: string
  pi_AccessVLAN :: "int option"
  pi_PVID :: "int option"
  pi_Include :: "int list"
  pi_Tagged :: "int list"
  pi_TrunkAllowed :: "int list"
  pi_TrunkAllowedAll :: bool
  pi_TrunkNative :: "int option"

definition empty_iface :: ParsedInterfaceCLI where
  "empty_iface = \<lparr>pi_IfaceName = [], pi_Description = [], pi_HasDescr = False, pi_Mode = [],
     pi_AccessVLAN = None, pi_PVID = None, pi_Include = [], pi_Tagged = [], pi_TrunkAllowed = [],
     pi_TrunkAllowedAll = False, pi_TrunkNative = None\<rparr>"

text \<open>\<open>strings.TrimSpace(ll[len(kw):])\<close>\<close>
definition after :: "string \<Rightarrow> string \<Rightarrow> string" where
  "after kw ll = TrimSpace (drop (length kw) ll)"

text \<open>\<open>n, err := strconv.Atoi(rest); err == nil && validVLANID(n)\<close>\<close>
definition vlan_of :: "string \<Rightarrow> int option" where
  "vlan_of rest = (case Atoi rest of Some n \<Rightarrow> if validVLANID n then Some n else None | None \<Rightarrow> None)"

definition applyVLANIfaceLine :: "ParsedInterfaceCLI \<Rightarrow> string \<Rightarrow> ParsedInterfaceCLI" where
  "applyVLANIfaceLine cur ll =
     (if HasPrefix ll ''vlan pvid '' then
        (case vlan_of (after ''vlan pvid'' ll) of
           None \<Rightarrow> cur
         | Some n \<Rightarrow> cur\<lparr>pi_PVID := Some n,
                        pi_AccessVLAN := (if pi_AccessVLAN cur = None then Some n else pi_AccessVLAN cur)\<rparr>)
      else if HasPrefix ll ''vlan participation include '' then
        cur\<lparr>pi_Include := appendUniqueInts (pi_Include cur) (ParseVLANIDList (after ''vlan participation include'' ll))\<rparr>
      else if HasPrefix ll ''vlan tagging '' then
        cur\<lparr>pi_Tagged := appendUniqueInts (pi_Tagged cur) (ParseVLANIDList (after ''vlan tagging'' ll))\<rparr>
      else if HasPrefix ll ''switchport trunk native vlan '' then
        (case vlan_of (after ''switchport trunk native vlan'' ll) of
           None \<Rightarrow> cur
         | Some n \<Rightarrow> cur\<lparr>pi_TrunkNative := Some n,
                        pi_PVID := (if pi_PVID cur = None then Some n else pi_PVID cur)\<rparr>)
      else if HasPrefix ll ''switchport trunk allowed vlan '' then
        (let rest = after ''switchport trunk allowed vlan'' ll in
         if rest = ''all'' then cur\<lparr>pi_TrunkAllowedAll := True\<rparr>
         else cur\<lparr>pi_TrunkAllowed := appendUniqueInts (pi_TrunkAllowed cur) (ParseVLANIDList rest)\<rparr>)
      else cur)"

definition applySwitchportLine :: "ParsedInterfaceCLI \<Rightarrow> string \<Rightarrow> ParsedInterfaceCLI" where
  "applySwitchportLine cur ll =
     (if HasPrefix ll ''switchport mode '' then
        (let mode = after ''switchport mode'' ll in if mode \<noteq> [] then cur\<lparr>pi_Mode := mode\<rparr> else cur)
      else if HasPrefix ll ''switchport access vlan '' then
        (case Atoi (after ''switchport access vlan'' ll) of
           Some n \<Rightarrow> if n > 0 \<and> n \<le> 4094 then cur\<lparr>pi_AccessVLAN := Some n\<rparr> else cur
         | None \<Rightarrow> cur)
      else cur)"

text \<open>Quotes around a description or a VLAN name; the bytes are \<open>'\<close> and \<open>"\<close>.\<close>
definition unquote :: "string \<Rightarrow> string" where
  "unquote s0 =
     (let s = TrimSpace s0 in
      if length s \<ge> 2 \<and> (hd s = CHR 0x27 \<and> last s = CHR 0x27 \<or> hd s = CHR 0x22 \<and> last s = CHR 0x22)
      then TrimSpace (butlast (tl s)) else s)"

abbreviation unquoteCLIDescription :: "string \<Rightarrow> string" where "unquoteCLIDescription \<equiv> unquote"
abbreviation unquoteVLANName :: "string \<Rightarrow> string" where "unquoteVLANName \<equiv> unquote"

text \<open>\<open>None\<close> is the result \<open>false\<close>: the line is not a description.\<close>
definition applyDescriptionLine :: "ParsedInterfaceCLI \<Rightarrow> string \<Rightarrow> string \<Rightarrow> ParsedInterfaceCLI option" where
  "applyDescriptionLine cur line ll =
     (if ll = ''no description'' \<or> ll = ''undo description'' then
        Some (cur\<lparr>pi_HasDescr := True, pi_Description := []\<rparr>)
      else if \<not> HasPrefix ll ''description '' \<and> ll \<noteq> ''description'' then None
      else let rest = TrimSpace line;
               text = (if length rest \<ge> length ''description'' then after ''description'' rest else [])
           in Some (cur\<lparr>pi_HasDescr := True, pi_Description := unquoteCLIDescription text\<rparr>))"

section \<open>Interface names\<close>

fun strip_first :: "string list \<Rightarrow> string \<Rightarrow> string" where
  "strip_first [] s = s"
| "strip_first (p # ps) s = (if HasPrefix s p then TrimPrefix s p else strip_first ps s)"

fun strip_short :: "string list \<Rightarrow> string \<Rightarrow> string" where
  "strip_short [] s = s"
| "strip_short (p # ps) s = (if HasPrefix s p \<and> length s > length p then drop (length p) s else strip_short ps s)"

definition NormalizeIfaceKey :: "string \<Rightarrow> string" where
  "NormalizeIfaceKey name =
     (let s = TrimSpace (TrimPrefix (ToLower (TrimSpace name)) ''interface '') in
      if s = [] then []
      else TrimSpace (strip_short [''gi'', ''te'', ''fa'', ''fo'', ''xe'', ''hu'', ''eth'']
             (strip_first [''gigabitethernet'', ''tengigabitethernet'', ''fortygigabitethernet'',
                ''fastethernet'', ''ethernet'', ''port-channel'', ''po''] s)))"

definition ifaceTailMatch :: "string \<Rightarrow> string \<Rightarrow> bool" where
  "ifaceTailMatch a b \<longleftrightarrow> a = b \<or>
     (let pa = Split a CHR ''/''; pb = Split b CHR ''/'' in
      length pa \<ge> 2 \<and> length pb \<ge> 2 \<and>
      pa ! (length pa - 2) @ ''/'' @ pa ! (length pa - 1) = pb ! (length pb - 2) @ ''/'' @ pb ! (length pb - 1))"

text \<open>\<open>ifNames\<close> in iteration order; \<open>None\<close> is \<open>(0, false)\<close>.\<close>
definition MatchConfigIfaceToIfIndex :: "string \<Rightarrow> (int \<times> string) list \<Rightarrow> int option" where
  "MatchConfigIfaceToIfIndex configName ifNames =
     (let key = NormalizeIfaceKey configName in
      if key = [] then None
      else case find (\<lambda>(i, name). NormalizeIfaceKey name = key) ifNames of
        Some (i, _) \<Rightarrow> Some i
      | None \<Rightarrow> map_option fst (find (\<lambda>(i, name). ifaceTailMatch key (NormalizeIfaceKey name)) ifNames))"

definition PortRoleFromCLIMode :: "string \<Rightarrow> string" where
  "PortRoleFromCLIMode mode =
     (let m = ToLower (TrimSpace mode) in
      if m = ''trunk'' \<or> m = ''dot1q-tunnel'' \<or> m = ''private-vlan'' then ''trunk''
      else if m = ''access'' \<or> m = ''hybrid'' \<or> m = ''general'' then ''access''
      else if mode \<noteq> [] then ''access'' else [])"

definition LooksLikeHardwareIfDescr :: "string \<Rightarrow> bool" where
  "LooksLikeHardwareIfDescr s0 =
     (let s = TrimSpace s0; low = ToLower s in
      s = [] \<or> (HasPrefix low ''slot:'' \<and> Contains low ''port:'') \<or>
      Contains low ''gigabit - level'' \<or> Contains low ''cpu interface'')"

section \<open>The whole configuration\<close>

type_synonym port_modes = "(string \<times> ParsedInterfaceCLI) list"

definition flush :: "port_modes \<Rightarrow> ParsedInterfaceCLI option \<Rightarrow> port_modes" where
  "flush out cur = (case cur of
       None \<Rightarrow> out
     | Some c \<Rightarrow> if TrimSpace (pi_IfaceName c) = [] then out
         else let key = NormalizeIfaceKey (pi_IfaceName c) in
           if key = [] then out else AList.update key c out)"

text \<open>A line inside an interface block that neither ends it nor opens another one.\<close>
definition body_line :: "ParsedInterfaceCLI \<Rightarrow> string \<Rightarrow> string \<Rightarrow> ParsedInterfaceCLI" where
  "body_line c line ll = (case applyDescriptionLine c line ll of
       Some c' \<Rightarrow> c'
     | None \<Rightarrow> applyVLANIfaceLine (applySwitchportLine c ll) ll)"

definition mode_line :: "port_modes \<times> ParsedInterfaceCLI option \<Rightarrow> string \<Rightarrow> port_modes \<times> ParsedInterfaceCLI option" where
  "mode_line st rawLine = (case st of (out, cur) \<Rightarrow>
     let line = TrimSpace rawLine; ll = ToLower line in
     if line = [] then (out, cur)
     else if HasPrefix ll ''interface '' then
       (flush out cur, Some (empty_iface\<lparr>pi_IfaceName := after ''interface'' line\<rparr>))
     else case cur of
       None \<Rightarrow> (out, None)
     | Some c \<Rightarrow>
         if ll = ''exit'' \<or> ll = ''!'' then (flush out cur, None)
         else (out, Some (body_line c line ll)))"

definition ParseRunningConfigPortModes :: "string \<Rightarrow> port_modes" where
  "ParseRunningConfigPortModes raw =
     (case foldl mode_line ([], None) (Split raw CHR 0x0A) of (out, cur) \<Rightarrow> flush out cur)"

fun snippet_lines :: "ParsedInterfaceCLI \<Rightarrow> string list \<Rightarrow> ParsedInterfaceCLI" where
  "snippet_lines cur [] = cur"
| "snippet_lines cur (raw # raws) =
     (let line = TrimSpace raw; ll = ToLower line in
      if line = [] then snippet_lines cur raws
      else if HasPrefix ll ''interface '' then snippet_lines (cur\<lparr>pi_IfaceName := after ''interface'' line\<rparr>) raws
      else if ll = ''exit'' then cur
      else snippet_lines (applyVLANIfaceLine (applySwitchportLine cur ll) ll) raws)"

text \<open>The mode and the access VLAN of one interface snippet.\<close>
definition ParseInterfacePortCLIMode :: "string \<Rightarrow> string \<times> int option" where
  "ParseInterfacePortCLIMode out =
     (let body = (case Index (ToLower out) ''interface '' of Some i \<Rightarrow> drop i out | None \<Rightarrow> out);
          cur = snippet_lines empty_iface (Split body CHR 0x0A)
      in (pi_Mode cur, pi_AccessVLAN cur))"

definition PortCLIMode_String :: "string \<times> int option \<Rightarrow> string" where
  "PortCLIMode_String m = (case m of
       (mode, Some v) \<Rightarrow> mode @ '' vlan='' @ Itoa v
     | (mode, None) \<Rightarrow> mode)"

section \<open>The VLAN database\<close>

type_synonym vlan_names = "(int \<times> string) list"

record db_state =
  db_names :: vlan_names
  db_inDB :: bool
  db_inIface :: bool
  db_iosVLAN :: int

definition parseVLANIDNameRest :: "string \<Rightarrow> (int \<times> string) option" where
  "parseVLANIDNameRest rest0 =
     (let rest = TrimSpace rest0; low = ToLower rest in
      case Index low '' name '' of
        None \<Rightarrow> None
      | Some i \<Rightarrow>
          let idStr = TrimSpace (take i rest) in
          if ContainsAny idStr '',-'' then None
          else case vlan_of idStr of
            None \<Rightarrow> None
          | Some n \<Rightarrow> Some (n, unquoteVLANName (TrimSpace (drop (i + length '' name '') rest))))"

text \<open>\<open>if _, ok := names[n]; !ok \<dots> names[n] = ""\<close>\<close>
definition add_unnamed :: "vlan_names \<Rightarrow> int \<Rightarrow> vlan_names" where
  "add_unnamed names n = (if map_of names n = None then AList.update n [] names else names)"

definition is_vlan_line :: "string \<Rightarrow> bool" where
  "is_vlan_line ll \<longleftrightarrow> HasPrefix ll ''vlan '' \<and> \<not> HasPrefix ll ''vlan name''"

text \<open>A line inside the \<open>vlan database\<close> section.\<close>
definition db_section_line :: "db_state \<Rightarrow> string \<Rightarrow> string \<Rightarrow> db_state" where
  "db_section_line st line ll =
     (if HasPrefix ll ''vlan name '' then
        (case Cut (after ''vlan name'' line) CHR '' '' of (idStr, name, _) \<Rightarrow>
           (case vlan_of (TrimSpace idStr) of
              Some n \<Rightarrow> st\<lparr>db_names := AList.update n (unquoteVLANName name) (db_names st)\<rparr>
            | None \<Rightarrow> st))
      else if is_vlan_line ll then
        (let rest = after ''vlan'' line in
         case parseVLANIDNameRest rest of
           Some (n, name) \<Rightarrow> st\<lparr>db_names := AList.update n name (db_names st)\<rparr>
         | None \<Rightarrow> st\<lparr>db_names := foldl add_unnamed (db_names st) (ParseVLANIDList rest)\<rparr>)
      else st)"

text \<open>A line outside interface blocks and outside the \<open>vlan database\<close> section.\<close>
definition ios_line :: "db_state \<Rightarrow> string \<Rightarrow> string \<Rightarrow> db_state" where
  "ios_line st line ll =
     (if ll = ''!'' then st\<lparr>db_iosVLAN := 0\<rparr>
      else if is_vlan_line ll then
        (let rest = after ''vlan'' line in
         case parseVLANIDNameRest rest of
           Some (n, name) \<Rightarrow> st\<lparr>db_names := AList.update n name (db_names st), db_iosVLAN := n\<rparr>
         | None \<Rightarrow>
             if \<not> Contains ll '','' \<and> \<not> Contains ll ''-'' then
               (case vlan_of (TrimSpace rest) of
                  Some n \<Rightarrow> st\<lparr>db_iosVLAN := n, db_names := add_unnamed (db_names st) n\<rparr>
                | None \<Rightarrow> st)
             else st)
      else if db_iosVLAN st > 0 \<and> HasPrefix ll ''name '' then
        st\<lparr>db_names := AList.update (db_iosVLAN st) (unquoteVLANName (after ''name'' line)) (db_names st)\<rparr>
      else st)"

definition db_line :: "db_state \<Rightarrow> string \<Rightarrow> db_state" where
  "db_line st rawLine =
     (let line = TrimSpace rawLine; ll = ToLower line in
      if line = [] then st
      else if HasPrefix ll ''interface '' then st\<lparr>db_inIface := True, db_inDB := False, db_iosVLAN := 0\<rparr>
      else if db_inIface st \<and> (ll = ''exit'' \<or> ll = ''!'' \<or> ll = ''end'') then st\<lparr>db_inIface := False\<rparr>
      else if db_inIface st then st
      else if ll = ''vlan database'' then st\<lparr>db_inDB := True, db_iosVLAN := 0\<rparr>
      else if db_inDB st \<and> (ll = ''exit'' \<or> ll = ''end'') then st\<lparr>db_inDB := False\<rparr>
      else if db_inDB st then db_section_line st line ll
      else ios_line st line ll)"

definition vlanConfigImpliesDefaultVLAN1 :: "string \<Rightarrow> vlan_names \<Rightarrow> bool" where
  "vlanConfigImpliesDefaultVLAN1 raw names \<longleftrightarrow>
     names \<noteq> [] \<or>
     (let ll = ToLower raw in
      Contains ll ''vlan database'' \<or> Contains ll ''switchport'' \<or> Contains ll ''vlan pvid'' \<or> Contains ll ''spanning-tree'')"

definition ParseVLANDatabase :: "string \<Rightarrow> vlan_names" where
  "ParseVLANDatabase raw =
     (let st = foldl db_line \<lparr>db_names = [], db_inDB = False, db_inIface = False, db_iosVLAN = 0\<rparr> (Split raw CHR 0x0A);
          names = db_names st
      in if vlanConfigImpliesDefaultVLAN1 raw names \<and> map_of names 1 = None
         then AList.update 1 ''default'' names else names)"

section \<open>The parsed blocks are well formed\<close>

definition opt_vlan_ok :: "int option \<Rightarrow> bool" where
  "opt_vlan_ok v = (case v of None \<Rightarrow> True | Some n \<Rightarrow> validVLANID n)"

definition ids_ok :: "int list \<Rightarrow> bool" where
  "ids_ok ns \<longleftrightarrow> sorted_wrt (<) ns \<and> list_all validVLANID ns"

definition iface_ok :: "ParsedInterfaceCLI \<Rightarrow> bool" where
  "iface_ok c \<longleftrightarrow> opt_vlan_ok (pi_AccessVLAN c) \<and> opt_vlan_ok (pi_PVID c) \<and> opt_vlan_ok (pi_TrunkNative c) \<and>
     ids_ok (pi_Include c) \<and> ids_ok (pi_Tagged c) \<and> ids_ok (pi_TrunkAllowed c)"

lemma vlan_of_ok: "opt_vlan_ok (vlan_of s)"
  by (auto simp: opt_vlan_ok_def vlan_of_def split: option.splits)

lemma vlan_of_valid: "vlan_of s = Some n \<Longrightarrow> validVLANID n"
  using vlan_of_ok [of s] by (simp add: opt_vlan_ok_def)

lemma ids_ok_iff: "ids_ok ns \<longleftrightarrow> sorted ns \<and> id_list ns"
  by (auto simp: ids_ok_def id_list_def list_all_iff strict_sorted_iff)

lemma ids_ok_append [inv_intros]: "ids_ok dst \<Longrightarrow> ids_ok (appendUniqueInts dst ns)"
  by (auto simp: ids_ok_iff id_list_def appendUniqueInts_set)

lemma iface_ok_empty [inv_intros]: "iface_ok (empty_iface\<lparr>pi_IfaceName := n\<rparr>)"
  by (simp add: iface_ok_def empty_iface_def opt_vlan_ok_def ids_ok_def)

lemma iface_ok_if: "iface_ok x \<Longrightarrow> iface_ok y \<Longrightarrow> iface_ok (if b then x else y)"
  by simp

lemma iface_ok_id:
  "iface_ok c \<Longrightarrow> (\<And>n. validVLANID n \<Longrightarrow> iface_ok (f n)) \<Longrightarrow> iface_ok (case vlan_of s of None \<Rightarrow> c | Some n \<Rightarrow> f n)"
  by (auto split: option.split dest: vlan_of_valid)

lemma iface_ok_upd:
  assumes "iface_ok c"
  shows "validVLANID n \<Longrightarrow>
      iface_ok (c\<lparr>pi_PVID := Some n, pi_AccessVLAN := if pi_AccessVLAN c = None then Some n else pi_AccessVLAN c\<rparr>)"
    "validVLANID n \<Longrightarrow>
      iface_ok (c\<lparr>pi_TrunkNative := Some n, pi_PVID := if pi_PVID c = None then Some n else pi_PVID c\<rparr>)"
    "iface_ok (c\<lparr>pi_Include := appendUniqueInts (pi_Include c) ns\<rparr>)"
    "iface_ok (c\<lparr>pi_Tagged := appendUniqueInts (pi_Tagged c) ns\<rparr>)"
    "iface_ok (c\<lparr>pi_TrunkAllowed := appendUniqueInts (pi_TrunkAllowed c) ns\<rparr>)"
    "iface_ok (c\<lparr>pi_TrunkAllowedAll := b\<rparr>)"
    "iface_ok (c\<lparr>pi_Mode := m\<rparr>)"
    "iface_ok (c\<lparr>pi_HasDescr := True, pi_Description := t\<rparr>)"
    "validVLANID n \<Longrightarrow> iface_ok (c\<lparr>pi_AccessVLAN := Some n\<rparr>)"
  using assms by (simp_all add: iface_ok_def opt_vlan_ok_def ids_ok_append)

lemma iface_ok_vlan [inv_intros]: "iface_ok c \<Longrightarrow> iface_ok (applyVLANIfaceLine c ll)"
  unfolding applyVLANIfaceLine_def Let_def
  by (intro iface_ok_if iface_ok_id iface_ok_upd)

lemma iface_ok_switchport [inv_intros]: "iface_ok c \<Longrightarrow> iface_ok (applySwitchportLine c ll)"
  unfolding applySwitchportLine_def Let_def
  by (intro iface_ok_if iface_ok_upd) (auto split: option.split intro: iface_ok_upd simp: validVLANID_def)

lemma descr_line_cases:
  "applyDescriptionLine c line ll = None \<or>
   (\<exists>t. applyDescriptionLine c line ll = Some (c\<lparr>pi_HasDescr := True, pi_Description := t\<rparr>))"
  unfolding applyDescriptionLine_def Let_def by metis

lemma iface_ok_descr: "iface_ok c \<Longrightarrow> applyDescriptionLine c line ll = Some c' \<Longrightarrow> iface_ok c'"
  using descr_line_cases [of c line ll] iface_ok_upd(8) [of c] by auto

lemma iface_ok_body [inv_intros]: "iface_ok c \<Longrightarrow> iface_ok (body_line c line ll)"
  by (auto simp: body_line_def split: option.splits intro: inv_intros iface_ok_descr)

definition entry_ok :: "string \<Rightarrow> ParsedInterfaceCLI \<Rightarrow> bool" where
  "entry_ok k c \<longleftrightarrow> k = NormalizeIfaceKey (pi_IfaceName c) \<and> k \<noteq> [] \<and> iface_ok c"

definition modes_inv :: "port_modes \<times> ParsedInterfaceCLI option \<Rightarrow> bool" where
  "modes_inv st = (case st of (out, cur) \<Rightarrow>
     distinct (map fst out) \<and> (\<forall>(k, c)\<in>set out. entry_ok k c) \<and> (\<forall>c. cur = Some c \<longrightarrow> iface_ok c))"

lemma flush_inv:
  assumes "modes_inv (out, cur)"
  shows "modes_inv (flush out cur, None)"
proof (cases "\<exists>c. cur = Some c \<and> TrimSpace (pi_IfaceName c) \<noteq> [] \<and> NormalizeIfaceKey (pi_IfaceName c) \<noteq> []")
  case True
  then obtain c where c: "cur = Some c" "TrimSpace (pi_IfaceName c) \<noteq> []" "NormalizeIfaceKey (pi_IfaceName c) \<noteq> []"
    by blast
  with assms have "entry_ok (NormalizeIfaceKey (pi_IfaceName c)) c" by (simp add: modes_inv_def entry_ok_def)
  with assms c show ?thesis
    using update_ball [of out entry_ok] by (simp add: modes_inv_def flush_def Let_def distinct_update)
next
  case False
  then have "flush out cur = out" by (auto simp: flush_def Let_def split: option.splits)
  with assms show ?thesis by (simp add: modes_inv_def)
qed

lemma modes_inv_line: "modes_inv st \<Longrightarrow> modes_inv (mode_line st raw)"
proof (cases st)
  case (Pair out cur)
  assume "modes_inv st"
  with Pair have "modes_inv (flush out cur, None)" "modes_inv (out, cur)" using flush_inv by auto
  then show ?thesis using Pair
    by (auto simp: mode_line_def Let_def modes_inv_def split: option.splits intro: inv_intros)
qed

lemma port_modes_ok: "modes_inv (ParseRunningConfigPortModes raw, None)"
proof -
  have "modes_inv ([], None)" by (simp add: modes_inv_def)
  then have "modes_inv (foldl mode_line ([], None) (Split raw CHR 0x0A))"
    by (rule foldl_inv) (rule modes_inv_line)
  then show ?thesis by (auto simp: ParseRunningConfigPortModes_def intro: flush_inv split: prod.splits)
qed

section \<open>Interface blocks are read independently of each other\<close>

text \<open>The text of a block, a header line and a body, and the record its body lines build up.\<close>
fun block_lines :: "string \<times> string list \<Rightarrow> string list" where
  "block_lines (n, body) = (''interface '' @ n) # body"

definition raw_line :: "ParsedInterfaceCLI \<Rightarrow> string \<Rightarrow> ParsedInterfaceCLI" where
  "raw_line c raw = (if TrimSpace raw = [] then c else body_line c (TrimSpace raw) (ToLower (TrimSpace raw)))"

fun block_value :: "string \<times> string list \<Rightarrow> ParsedInterfaceCLI" where
  "block_value (n, body) = foldl raw_line (empty_iface\<lparr>pi_IfaceName := n\<rparr>) body"

definition inner_line :: "string \<Rightarrow> bool" where
  "inner_line raw \<longleftrightarrow> CHR 0x0A \<notin> set raw \<and>
     (let ll = ToLower (TrimSpace raw) in \<not> HasPrefix ll ''interface '' \<and> ll \<noteq> ''exit'' \<and> ll \<noteq> ''!'')"

fun block_ok :: "string \<times> string list \<Rightarrow> bool" where
  "block_ok (n, body) \<longleftrightarrow> trimmed n \<and> n \<noteq> [] \<and> CHR 0x0A \<notin> set n \<and> NormalizeIfaceKey n \<noteq> [] \<and> list_all inner_line body"

lemma header_line:
  assumes "trimmed n" "n \<noteq> []"
  shows "mode_line (out, cur) (''interface '' @ n) = (flush out cur, Some (empty_iface\<lparr>pi_IfaceName := n\<rparr>))"
proof -
  let ?l = "''interface '' @ n"
  have l: "TrimSpace ?l = ?l"
    using assms by (intro TrimSpace_trimmed) (auto simp: trimmed_def is_space_def)
  have "ToLower ?l = ''interface '' @ ToLower n" by (simp add: ToLower_def lower_char_def is_upper_def)
  then have p: "HasPrefix (ToLower ?l) ''interface ''" by (metis HasPrefix_append)
  have "after ''interface'' ?l = n"
    using assms by (simp add: after_def TrimSpace_Cons_space is_space_def TrimSpace_trimmed)
  with l p show ?thesis unfolding mode_line_def Let_def by simp
qed

lemma inner_line_step: "inner_line raw \<Longrightarrow> mode_line (out, Some c) raw = (out, Some (raw_line c raw))"
  by (simp add: inner_line_def mode_line_def raw_line_def Let_def)

lemma inner_lines_step: "list_all inner_line body \<Longrightarrow> foldl mode_line (out, Some c) body = (out, Some (foldl raw_line c body))"
  by (induction body arbitrary: c) (auto simp: inner_line_step)

lemma flush_None [simp]: "flush out None = out"
  by (simp add: flush_def)

lemma blocks_step:
  "list_all block_ok blocks \<Longrightarrow>
   (case foldl mode_line (out, cur) (concat (map block_lines blocks)) of (out', cur') \<Rightarrow> flush out' cur') =
   foldl (\<lambda>out b. flush out (Some (block_value b))) (flush out cur) blocks"
  by (induction blocks arbitrary: out cur) (auto simp: header_line [simplified] inner_lines_step)

lemma vlan_line_name [simp]: "pi_IfaceName (applyVLANIfaceLine c ll) = pi_IfaceName c"
  by (auto simp: applyVLANIfaceLine_def Let_def split: option.split)

lemma switchport_line_name [simp]: "pi_IfaceName (applySwitchportLine c ll) = pi_IfaceName c"
  by (auto simp: applySwitchportLine_def Let_def split: option.split)

lemma descr_line_name: "applyDescriptionLine c line ll = Some c' \<Longrightarrow> pi_IfaceName c' = pi_IfaceName c"
  using descr_line_cases [of c line ll] by auto

lemma raw_line_name: "pi_IfaceName (raw_line c raw) = pi_IfaceName c"
  by (auto simp: raw_line_def body_line_def descr_line_name split: option.split)

lemma raw_lines_name: "pi_IfaceName (foldl raw_line c body) = pi_IfaceName c"
  by (induction body arbitrary: c) (auto simp: raw_line_name)

lemma block_value_name: "pi_IfaceName (block_value b) = fst b"
  by (cases b) (simp add: raw_lines_name)

lemma flush_block: "block_ok b \<Longrightarrow> flush out (Some (block_value b)) = AList.update (NormalizeIfaceKey (fst b)) (block_value b) out"
  by (cases b) (auto simp: flush_def Let_def block_value_name raw_lines_name TrimSpace_trimmed)

lemma flush_blocks_other:
  "list_all block_ok blocks \<Longrightarrow> k \<notin> (NormalizeIfaceKey \<circ> fst) ` set blocks \<Longrightarrow>
   map_of (foldl (\<lambda>out b. flush out (Some (block_value b))) out blocks) k = map_of out k"
  by (induction blocks arbitrary: out) (auto simp: flush_block update_conv' simp del: block_value.simps)

lemma flush_blocks_lookup:
  "list_all block_ok blocks \<Longrightarrow> distinct (map (NormalizeIfaceKey \<circ> fst) blocks) \<Longrightarrow> b \<in> set blocks \<Longrightarrow>
   map_of (foldl (\<lambda>out b. flush out (Some (block_value b))) out blocks) (NormalizeIfaceKey (fst b)) = Some (block_value b)"
  by (induction blocks arbitrary: out)
    (auto simp: flush_block update_conv' flush_blocks_other image_comp simp del: block_value.simps)

lemma blocks_split:
  assumes "list_all block_ok blocks" "blocks \<noteq> []"
  shows "Split (Join (concat (map block_lines blocks)) [CHR 0x0A]) CHR 0x0A = concat (map block_lines blocks)"
  using assms by (intro Split_Join) (fastforce simp: list_all_iff inner_line_def neq_Nil_conv)+

section \<open>The VLAN database is well formed\<close>

definition names_ok :: "vlan_names \<Rightarrow> bool" where
  "names_ok names \<longleftrightarrow> distinct (map fst names) \<and> (\<forall>n\<in>set (map fst names). validVLANID n)"

definition db_ok :: "db_state \<Rightarrow> bool" where
  "db_ok st \<longleftrightarrow> names_ok (db_names st) \<and> (db_iosVLAN st = 0 \<or> validVLANID (db_iosVLAN st))"

lemma names_ok_update: "names_ok names \<Longrightarrow> validVLANID n \<Longrightarrow> names_ok (AList.update n v names)"
  unfolding names_ok_def update_keys by (auto simp: distinct_update)

lemma names_ok_unnamed: "names_ok names \<Longrightarrow> validVLANID n \<Longrightarrow> names_ok (add_unnamed names n)"
  by (simp add: add_unnamed_def names_ok_update)

lemma names_ok_unnamed_list: "names_ok names \<Longrightarrow> names_ok (foldl add_unnamed names (ParseVLANIDList s))"
  by (rule foldl_inv) (use ParseVLANIDList_ok [of s] in \<open>auto simp: id_list_def intro: names_ok_unnamed\<close>)

lemma parseVLANIDNameRest_valid: "parseVLANIDNameRest rest = Some (n, name) \<Longrightarrow> validVLANID n"
  by (auto simp: parseVLANIDNameRest_def Let_def dest: vlan_of_valid split: option.splits if_splits)

lemmas db_steps = names_ok_update names_ok_unnamed names_ok_unnamed_list

lemma db_ok_section:
  assumes "db_ok st"
  shows "db_ok (db_section_line st line ll)"
proof -
  have "db_ok (case Cut s c of (idStr, name, b) \<Rightarrow> (case vlan_of (TrimSpace idStr) of
          Some n \<Rightarrow> st\<lparr>db_names := AList.update n (unquoteVLANName name) (db_names st)\<rparr> | None \<Rightarrow> st))" for s c
    using assms by (auto simp: db_ok_def intro: db_steps dest: vlan_of_valid split: option.split prod.split)
  moreover have "db_ok (case parseVLANIDNameRest s of
          Some (n, name) \<Rightarrow> st\<lparr>db_names := AList.update n name (db_names st)\<rparr>
        | None \<Rightarrow> st\<lparr>db_names := foldl add_unnamed (db_names st) (ParseVLANIDList s)\<rparr>)" for s
    using assms by (auto simp: db_ok_def intro: db_steps dest: parseVLANIDNameRest_valid split: option.split)
  ultimately show ?thesis using assms by (simp add: db_section_line_def Let_def)
qed

lemma db_ok_ios:
  assumes "db_ok st"
  shows "db_ok (ios_line st line ll)"
proof -
  have "db_ok (case vlan_of s of Some n \<Rightarrow> st\<lparr>db_iosVLAN := n, db_names := add_unnamed (db_names st) n\<rparr> | None \<Rightarrow> st)" for s
    using assms by (auto simp: db_ok_def intro: db_steps dest: vlan_of_valid split: option.split)
  moreover have "parseVLANIDNameRest s = Some (n, name) \<Longrightarrow>
      db_ok (st\<lparr>db_names := AList.update n name (db_names st), db_iosVLAN := n\<rparr>)" for s n name
    using assms by (auto simp: db_ok_def intro: db_steps dest: parseVLANIDNameRest_valid)
  moreover have "db_iosVLAN st > 0 \<Longrightarrow> db_ok (st\<lparr>db_names := AList.update (db_iosVLAN st) v (db_names st)\<rparr>)" for v
    using assms by (auto simp: db_ok_def intro: db_steps)
  moreover have "db_ok (st\<lparr>db_iosVLAN := 0\<rparr>)" using assms by (simp add: db_ok_def)
  ultimately show ?thesis using assms by (auto simp: ios_line_def Let_def split: option.split)
qed

lemma db_ok_line: "db_ok st \<Longrightarrow> db_ok (db_line st raw)"
  using db_ok_section [of st] db_ok_ios [of st] by (auto simp: db_line_def Let_def db_ok_def)

lemma VLANDatabase_ok: "names_ok (ParseVLANDatabase raw) \<and> (ParseVLANDatabase raw \<noteq> [] \<longrightarrow> 1 \<in> set (map fst (ParseVLANDatabase raw)))"
proof -
  let ?st = "foldl db_line \<lparr>db_names = [], db_inDB = False, db_inIface = False, db_iosVLAN = 0\<rparr> (Split raw CHR 0x0A)"
  have "db_ok \<lparr>db_names = [], db_inDB = False, db_inIface = False, db_iosVLAN = 0\<rparr>"
    by (simp add: db_ok_def names_ok_def)
  then have "db_ok ?st" by (rule foldl_inv) (rule db_ok_line)
  then have ok: "names_ok (db_names ?st)" by (simp add: db_ok_def)
  show ?thesis
  proof (cases "vlanConfigImpliesDefaultVLAN1 raw (db_names ?st) \<and> map_of (db_names ?st) 1 = None")
    case True
    with ok show ?thesis
      using update_keys [of 1 "''default''" "db_names ?st"]
      by (auto simp: ParseVLANDatabase_def Let_def validVLANID_def intro!: names_ok_update)
  next
    case False
    then have "db_names ?st \<noteq> [] \<Longrightarrow> map_of (db_names ?st) 1 \<noteq> None"
      by (auto simp: vlanConfigImpliesDefaultVLAN1_def)
    with False ok show ?thesis
      by (auto simp: ParseVLANDatabase_def Let_def map_of_eq_None_iff)
  qed
qed

section \<open>Matching interfaces\<close>

lemma ifaceTailMatch_refl [simp]: "ifaceTailMatch a a"
  by (simp add: ifaceTailMatch_def)

lemma find_hit: "find P xs = Some x \<Longrightarrow> x \<in> set xs \<and> P x"
  by (metis find_Some_iff nth_mem)

lemma Match_some:
  "MatchConfigIfaceToIfIndex n ifs = Some i \<Longrightarrow>
     \<exists>m. (i, m) \<in> set ifs \<and> ifaceTailMatch (NormalizeIfaceKey n) (NormalizeIfaceKey m)"
  unfolding MatchConfigIfaceToIfIndex_def Let_def
  by (auto split: option.splits if_splits dest!: find_hit)

lemma Match_none:
  "MatchConfigIfaceToIfIndex n ifs = None \<longleftrightarrow>
     NormalizeIfaceKey n = [] \<or> (\<forall>(i, m)\<in>set ifs. \<not> ifaceTailMatch (NormalizeIfaceKey n) (NormalizeIfaceKey m))"
proof
  assume "MatchConfigIfaceToIfIndex n ifs = None"
  then show "NormalizeIfaceKey n = [] \<or> (\<forall>(i, m)\<in>set ifs. \<not> ifaceTailMatch (NormalizeIfaceKey n) (NormalizeIfaceKey m))"
    unfolding MatchConfigIfaceToIfIndex_def Let_def
    by (auto split: option.splits if_splits simp: find_None_iff)
next
  assume "NormalizeIfaceKey n = [] \<or> (\<forall>(i, m)\<in>set ifs. \<not> ifaceTailMatch (NormalizeIfaceKey n) (NormalizeIfaceKey m))"
  then show "MatchConfigIfaceToIfIndex n ifs = None"
    using Match_some [of n ifs] by (cases "MatchConfigIfaceToIfIndex n ifs") (fastforce simp: MatchConfigIfaceToIfIndex_def)+
qed

lemma Match_unique:
  assumes "distinct (map (NormalizeIfaceKey \<circ> snd) ifs)" "(j, m) \<in> set ifs"
    "NormalizeIfaceKey m = NormalizeIfaceKey n" "NormalizeIfaceKey n \<noteq> []"
  shows "MatchConfigIfaceToIfIndex n ifs = Some j"
proof -
  have "find (\<lambda>(i, name). NormalizeIfaceKey name = NormalizeIfaceKey n) ifs = Some (j, m)"
    using assms(1-3) by (induction ifs) (force split: prod.splits)+
  with assms(4) show ?thesis by (simp add: MatchConfigIfaceToIfIndex_def Let_def)
qed

section \<open>Properties\<close>

text \<open>
  Whatever the running configuration contains, no interface key occurs twice in the parsed blocks,
  every block is filed under the normalised key of its own name, and every VLAN it mentions is a valid
  identifier, its lists strictly increasing.
\<close>
theorem ParseRunningConfigPortModes_wf:
  "distinct (map fst (ParseRunningConfigPortModes raw)) \<and>
   (\<forall>(k, c)\<in>set (ParseRunningConfigPortModes raw).
      k = NormalizeIfaceKey (pi_IfaceName c) \<and> k \<noteq> [] \<and>
      opt_vlan_ok (pi_AccessVLAN c) \<and> opt_vlan_ok (pi_PVID c) \<and> opt_vlan_ok (pi_TrunkNative c) \<and>
      ids_ok (pi_Include c) \<and> ids_ok (pi_Tagged c) \<and> ids_ok (pi_TrunkAllowed c))"
  using port_modes_ok [of raw] unfolding modes_inv_def entry_ok_def iface_ok_def by simp

definition example_config :: string where
  "example_config = Join [''interface 0/1'', ''switchport mode access'', ''vlan pvid 9999'', ''vlan pvid 20'', ''exit''] [CHR 0x0A]"

lemma example_modes:
  "ParseRunningConfigPortModes example_config =
     [(''0/1'', empty_iface\<lparr>pi_IfaceName := ''0/1'', pi_Mode := ''access'', pi_PVID := Some 20, pi_AccessVLAN := Some 20\<rparr>)]"
  by code_simp

theorem ParseRunningConfigPortModes_wf_witness:
  "opt_vlan_ok (pi_PVID (empty_iface\<lparr>pi_IfaceName := ''0/1'', pi_Mode := ''access'', pi_PVID := Some 20, pi_AccessVLAN := Some 20\<rparr>))"
  using ParseRunningConfigPortModes_wf [of example_config] by (simp add: example_modes)



text \<open>
  Whatever the running configuration contains, the VLAN database read from it names each VLAN once,
  every identifier is valid, and VLAN 1 is present as soon as any VLAN is.
\<close>
theorem ParseVLANDatabase_wf:
  "distinct (map fst (ParseVLANDatabase raw)) \<and> (\<forall>n\<in>fst ` set (ParseVLANDatabase raw). validVLANID n) \<and>
   (ParseVLANDatabase raw \<noteq> [] \<longrightarrow> map_of (ParseVLANDatabase raw) 1 \<noteq> None)"
  using VLANDatabase_ok [of raw] unfolding names_ok_def by (auto simp: map_of_eq_None_iff)

theorem ParseVLANDatabase_wf_witness: "map_of (ParseVLANDatabase ''vlan 30 name lab'') 1 \<noteq> None"
proof -
  have "ParseVLANDatabase ''vlan 30 name lab'' \<noteq> []" by code_simp
  with ParseVLANDatabase_wf show ?thesis by blast
qed

text \<open>
  The match of a configured interface with the SNMP interfaces is exact: it fails exactly when no
  interface agrees with the name in its whole key or in its last two components; a result is the index
  of an interface that agrees; and when the keys of the SNMP names are different, an interface with
  the same key is found whatever the order in which the map is enumerated.
\<close>
theorem MatchConfigIface_exact:
  "(MatchConfigIfaceToIfIndex n ifs = None \<longleftrightarrow>
      NormalizeIfaceKey n = [] \<or> (\<forall>(i, m)\<in>set ifs. \<not> ifaceTailMatch (NormalizeIfaceKey n) (NormalizeIfaceKey m))) \<and>
   (MatchConfigIfaceToIfIndex n ifs = Some i \<longrightarrow>
      (\<exists>m. (i, m) \<in> set ifs \<and> ifaceTailMatch (NormalizeIfaceKey n) (NormalizeIfaceKey m))) \<and>
   (distinct (map (NormalizeIfaceKey \<circ> snd) ifs) \<and> (j, m) \<in> set ifs \<and> NormalizeIfaceKey m = NormalizeIfaceKey n \<and>
      NormalizeIfaceKey n \<noteq> [] \<longrightarrow> MatchConfigIfaceToIfIndex n ifs = Some j)"
  using Match_none [of n ifs] Match_some [of n ifs i] Match_unique [of ifs j m n] by blast

theorem MatchConfigIface_exact_witness:
  "MatchConfigIfaceToIfIndex ''GigabitEthernet0/2'' [(1, ''gi0/1''), (2, ''0/2'')] = Some 2 \<and>
   MatchConfigIfaceToIfIndex ''vlan 7'' [(1, ''gi0/1'')] = None"
proof -
  have "distinct (map (NormalizeIfaceKey \<circ> snd) [(1 :: int, ''gi0/1''), (2, ''0/2'')])" by code_simp
  moreover have "NormalizeIfaceKey ''GigabitEthernet0/2'' = ''0/2''" "NormalizeIfaceKey ''0/2'' = ''0/2''" by code_simp+
  moreover have "\<not> ifaceTailMatch (NormalizeIfaceKey ''vlan 7'') (NormalizeIfaceKey ''gi0/1'')" by code_simp
  ultimately show ?thesis
    using MatchConfigIface_exact [of "''GigabitEthernet0/2''" "[(1, ''gi0/1''), (2, ''0/2'')]" 2 2 "''0/2''"]
      MatchConfigIface_exact [of "''vlan 7''" "[(1, ''gi0/1'')]"] by simp
qed

text \<open>
  Without an exact match the result does depend on the enumeration: two members of a stack whose names
  agree in the last two components are both candidates, and either can be returned.
\<close>
lemma Match_tail_order:
  "MatchConfigIfaceToIfIndex ''gi3/0/1'' [(1, ''gi1/0/1''), (2, ''gi2/0/1'')] = Some 1"
  "MatchConfigIfaceToIfIndex ''gi3/0/1'' [(2, ''gi2/0/1''), (1, ''gi1/0/1'')] = Some 2"
  by code_simp+

text \<open>
  A port-channel and a physical port with the same number have the same key, so the block read later
  replaces the other one.
\<close>
lemma key_collision: "NormalizeIfaceKey ''GigabitEthernet1'' = NormalizeIfaceKey ''Port-channel1''"
  by code_simp

end
