(* ===== verification/Vlan_Inventory.thy ===== *)
theory Vlan_Inventory
  imports Port_Config "HOL-Library.Multiset"
begin

text \<open>
  The VLAN inventory of a switch (\<open>internal/swcfg/vlan.go\<close>, lines 173 to 1015): which ports are access or
  tagged members of which VLAN, built from the running configuration, the ports known from SNMP and the
  forwarding table, and overlaid with changes that were just applied. Go maps are association lists; a
  map that the code ranges over is given in the order of the enumeration.
\<close>

section \<open>Rows and ports\<close>

record VLANPortRef =
  pr_IfIndex :: int
  pr_IfName :: string
  pr_Role :: string

record VLANInventoryRow =
  vr_VLANID :: int
  vr_Name :: string
  vr_InDatabase :: bool
  vr_AccessPorts :: "VLANPortRef list"
  vr_TaggedPorts :: "VLANPortRef list"
  vr_FDBPorts :: "VLANPortRef list"

record PortVLANHint =
  ph_IfIndex :: int
  ph_IfName :: string
  ph_Role :: string
  ph_AccessVLAN :: "int option"
  ph_FDBVLAN :: "int option"

record FDBVLANPort =
  fp_IfIndex :: int
  fp_VLANID :: int
  fp_IfName :: string
  fp_Role :: string

type_synonym vlan_rows = "(int \<times> VLANInventoryRow) list"

definition if_index_name :: "int \<Rightarrow> string" where
  "if_index_name i = ''ifIndex '' @ Itoa i"

definition portName :: "PortVLANHint \<Rightarrow> string" where
  "portName h = (if TrimSpace (ph_IfName h) \<noteq> [] then ph_IfName h else if_index_name (ph_IfIndex h))"

definition refFromHint :: "PortVLANHint \<Rightarrow> VLANPortRef" where
  "refFromHint h = \<lparr>pr_IfIndex = ph_IfIndex h, pr_IfName = portName h, pr_Role = ToLower (TrimSpace (ph_Role h))\<rparr>"

definition empty_row :: "int \<Rightarrow> VLANInventoryRow" where
  "empty_row vid = \<lparr>vr_VLANID = vid, vr_Name = [], vr_InDatabase = False,
     vr_AccessPorts = [], vr_TaggedPorts = [], vr_FDBPorts = []\<rparr>"

text \<open>
  The row of an identifier, a new one when it is missing. The code returns a pointer into the map; here
  the caller writes the changed row back with \<open>put_row\<close>.
\<close>
definition ensureRow :: "vlan_rows \<Rightarrow> int \<Rightarrow> VLANInventoryRow" where
  "ensureRow rows vid = (case map_of rows vid of Some r \<Rightarrow> r | None \<Rightarrow> empty_row vid)"

definition put_row :: "vlan_rows \<Rightarrow> int \<Rightarrow> VLANInventoryRow \<Rightarrow> vlan_rows" where
  "put_row rows vid r = AList.update vid r rows"

definition hasPort :: "VLANPortRef list \<Rightarrow> int \<Rightarrow> bool" where
  "hasPort ps ifIndex \<longleftrightarrow> list_ex (\<lambda>p. pr_IfIndex p = ifIndex) ps"

definition hasPortRef :: "VLANPortRef list \<Rightarrow> VLANPortRef \<Rightarrow> bool" where
  "hasPortRef ps ref = (let nameKey = NormalizeIfaceKey (pr_IfName ref) in
     list_ex (\<lambda>p. (pr_IfIndex ref > 0 \<and> pr_IfIndex p = pr_IfIndex ref) \<or>
                  (nameKey \<noteq> [] \<and> NormalizeIfaceKey (pr_IfName p) = nameKey)) ps)"

section \<open>Building the inventory\<close>

definition db_row :: "vlan_rows \<Rightarrow> int \<times> string \<Rightarrow> vlan_rows" where
  "db_row rows idname = (case idname of (vid, name) \<Rightarrow>
     put_row rows vid ((ensureRow rows vid)\<lparr>vr_InDatabase := True, vr_Name := name\<rparr>))"

definition port_by_index :: "PortVLANHint list \<Rightarrow> (int \<times> PortVLANHint) list" where
  "port_by_index ports = foldl (\<lambda>m p. AList.update (ph_IfIndex p) p m) [] ports"

definition if_names :: "PortVLANHint list \<Rightarrow> (int \<times> string) list" where
  "if_names ports = foldl (\<lambda>m p. if ph_IfName p \<noteq> [] then AList.update (ph_IfIndex p) (ph_IfName p) m else m) [] ports"

definition zero_hint :: PortVLANHint where
  "zero_hint = \<lparr>ph_IfIndex = 0, ph_IfName = [], ph_Role = [], ph_AccessVLAN = None, ph_FDBVLAN = None\<rparr>"

text \<open>The port a block belongs to; \<open>None\<close> is the \<open>continue\<close> of a block without a name.\<close>
definition block_hint :: "PortVLANHint list \<Rightarrow> ParsedInterfaceCLI \<Rightarrow> PortVLANHint option" where
  "block_hint ports block =
     (case MatchConfigIfaceToIfIndex (pi_IfaceName block) (if_names ports) of
        Some idx \<Rightarrow>
          (let h0 = (case map_of (port_by_index ports) idx of Some h \<Rightarrow> h | None \<Rightarrow> zero_hint);
               h1 = h0\<lparr>ph_IfIndex := idx\<rparr>
           in Some (if ph_IfName h1 = [] then h1\<lparr>ph_IfName := pi_IfaceName block\<rparr> else h1))
      | None \<Rightarrow>
          (let name = TrimSpace (pi_IfaceName block) in
           if name = [] then None else Some (zero_hint\<lparr>ph_IfIndex := 0, ph_IfName := name\<rparr>)))"

definition block_access :: "ParsedInterfaceCLI \<Rightarrow> int option" where
  "block_access block =
     (let access = pi_AccessVLAN block;
          access = (if access = None then pi_PVID block else access)
      in if access = None then pi_TrunkNative block else access)"

definition block_tagged :: "string \<Rightarrow> int option \<Rightarrow> ParsedInterfaceCLI \<Rightarrow> int list" where
  "block_tagged role access block =
     (if role = ''trunk'' then
        (let tagged = appendUniqueInts (appendUniqueInts (pi_Tagged block) (pi_TrunkAllowed block)) (pi_Include block)
         in case access of None \<Rightarrow> tagged | Some a \<Rightarrow> filter (\<lambda>n. n \<noteq> a) tagged)
      else appendUniqueInts (pi_Tagged block) (pi_Tagged block))"

definition place_access :: "vlan_rows \<Rightarrow> PortVLANHint \<Rightarrow> int option \<Rightarrow> string \<Rightarrow> vlan_rows" where
  "place_access rows h access role = (case access of
       None \<Rightarrow> rows
     | Some a \<Rightarrow>
         if role = ''access'' \<or> role = [] then
           (let r = ensureRow rows a; rf = (refFromHint h)\<lparr>pr_Role := ''access''\<rparr>
            in put_row rows a (if \<not> hasPortRef (vr_AccessPorts r) rf
                 then r\<lparr>vr_AccessPorts := vr_AccessPorts r @ [rf]\<rparr> else r))
         else rows)"

definition place_tagged :: "PortVLANHint \<Rightarrow> int option \<Rightarrow> string \<Rightarrow> vlan_rows \<Rightarrow> int \<Rightarrow> vlan_rows" where
  "place_tagged h access role rows vid =
     (if access = Some vid \<and> role \<noteq> ''trunk'' then rows
      else let r = ensureRow rows vid; rf = (refFromHint h)\<lparr>pr_Role := ''trunk''\<rparr>
           in put_row rows vid (if hasPortRef (vr_AccessPorts r) rf \<or> hasPortRef (vr_TaggedPorts r) rf then r
                else r\<lparr>vr_TaggedPorts := vr_TaggedPorts r @ [rf]\<rparr>))"

definition block_rows :: "PortVLANHint list \<Rightarrow> vlan_rows \<Rightarrow> string \<times> ParsedInterfaceCLI \<Rightarrow> vlan_rows" where
  "block_rows ports rows kb = (case kb of (_, block) \<Rightarrow>
     (case block_hint ports block of
        None \<Rightarrow> rows
      | Some h0 \<Rightarrow>
          (let role = PortRoleFromCLIMode (pi_Mode block);
               h = (if role \<noteq> [] then h0\<lparr>ph_Role := role\<rparr> else h0);
               access = block_access block
           in foldl (place_tagged h access role) (place_access rows h access role)
                (block_tagged role access block))))"

definition seen_in_config :: "PortVLANHint list \<Rightarrow> port_modes \<Rightarrow> int list" where
  "seen_in_config ports parsed =
     List.map_filter (\<lambda>(_, block). MatchConfigIfaceToIfIndex (pi_IfaceName block) (if_names ports)) parsed"

definition hint_access :: "PortVLANHint \<Rightarrow> VLANInventoryRow \<Rightarrow> VLANInventoryRow" where
  "hint_access p r =
     (if \<not> hasPort (vr_AccessPorts r) (ph_IfIndex p) then
        (let rf = refFromHint p; rf = (if pr_Role rf = [] then rf\<lparr>pr_Role := ''access''\<rparr> else rf)
         in r\<lparr>vr_AccessPorts := vr_AccessPorts r @ [rf]\<rparr>)
      else r)"

definition hint_row :: "int list \<Rightarrow> vlan_rows \<Rightarrow> PortVLANHint \<Rightarrow> vlan_rows" where
  "hint_row seen rows p =
     (if ph_IfIndex p \<in> set seen then rows
      else case ph_AccessVLAN p of
        None \<Rightarrow> rows
      | Some a \<Rightarrow> if validVLANID a then put_row rows a (hint_access p (ensureRow rows a)) else rows)"

definition fdb_name :: "PortVLANHint list \<Rightarrow> FDBVLANPort \<Rightarrow> string" where
  "fdb_name ports e =
     (if fp_IfName e = [] then
        (case map_of (port_by_index ports) (fp_IfIndex e) of
           Some h \<Rightarrow> portName h | None \<Rightarrow> if_index_name (fp_IfIndex e))
      else fp_IfName e)"

definition fdb_row :: "PortVLANHint list \<Rightarrow> vlan_rows \<Rightarrow> FDBVLANPort \<Rightarrow> vlan_rows" where
  "fdb_row ports rows e =
     (if \<not> validVLANID (fp_VLANID e) \<or> fp_IfIndex e \<le> 0 then rows
      else case map_of rows (fp_VLANID e) of
        None \<Rightarrow> rows
      | Some r \<Rightarrow>
          if hasPort (vr_AccessPorts r) (fp_IfIndex e) \<or> hasPort (vr_TaggedPorts r) (fp_IfIndex e)
             \<or> hasPort (vr_FDBPorts r) (fp_IfIndex e) then rows
          else (let rf = \<lparr>pr_IfIndex = fp_IfIndex e, pr_IfName = fdb_name ports e, pr_Role = fp_Role e\<rparr> in
            if hasPortRef (vr_AccessPorts r) rf \<or> hasPortRef (vr_TaggedPorts r) rf
               \<or> hasPort (vr_FDBPorts r) (fp_IfIndex e) then rows
            else put_row rows (fp_VLANID e) (r\<lparr>vr_FDBPorts := vr_FDBPorts r @ [rf]\<rparr>)))"

text \<open>The rows before the forwarding table is read, from any enumeration of the two parsed maps.\<close>
definition config_rows :: "vlan_names \<Rightarrow> port_modes \<Rightarrow> PortVLANHint list \<Rightarrow> vlan_rows" where
  "config_rows db parsed ports =
     foldl (hint_row (seen_in_config ports parsed))
       (foldl (block_rows ports) (foldl db_row [] db) parsed) ports"

definition build_inventory :: "vlan_names \<Rightarrow> port_modes \<Rightarrow> PortVLANHint list \<Rightarrow> FDBVLANPort list \<Rightarrow> VLANInventoryRow list" where
  "build_inventory db parsed ports fdb =
     sort_key vr_VLANID (map snd (foldl (fdb_row ports) (config_rows db parsed ports) fdb))"

definition BuildVLANInventory :: "string \<Rightarrow> PortVLANHint list \<Rightarrow> FDBVLANPort list \<Rightarrow> VLANInventoryRow list" where
  "BuildVLANInventory config ports fdb =
     build_inventory (ParseVLANDatabase config) (ParseRunningConfigPortModes config) ports fdb"

section \<open>Queries\<close>

definition VLANConfiguredOnPorts :: "VLANInventoryRow \<Rightarrow> bool" where
  "VLANConfiguredOnPorts r \<longleftrightarrow> length (vr_AccessPorts r) > 0 \<or> length (vr_TaggedPorts r) > 0"

fun inventory_on_port :: "VLANInventoryRow list \<Rightarrow> int \<Rightarrow> int \<Rightarrow> bool" where
  "inventory_on_port [] vlanID ifIndex = False"
| "inventory_on_port (r # rs) vlanID ifIndex =
     (if vr_VLANID r \<noteq> vlanID then inventory_on_port rs vlanID ifIndex
      else hasPort (vr_AccessPorts r) ifIndex \<or> hasPort (vr_TaggedPorts r) ifIndex)"

definition InventoryVLANOnPort :: "VLANInventoryRow list \<Rightarrow> int \<Rightarrow> int \<Rightarrow> bool" where
  "InventoryVLANOnPort inven vlanID ifIndex =
     (if ifIndex \<le> 0 then False else inventory_on_port inven vlanID ifIndex)"

definition findParsedIface :: "port_modes \<Rightarrow> int \<Rightarrow> string \<Rightarrow> ParsedInterfaceCLI option" where
  "findParsedIface modes ifIndex ifName =
     (if modes = [] then None
      else let key = NormalizeIfaceKey ifName in
        case (if key \<noteq> [] then map_of modes key else None) of
          Some b \<Rightarrow> Some b
        | None \<Rightarrow>
            (let ifNames = (if ifIndex > 0 \<and> TrimSpace ifName \<noteq> [] then [(ifIndex, ifName)] else []) in
             map_option snd (find (\<lambda>(_, b).
               (ifIndex > 0 \<and> ifNames \<noteq> [] \<and> MatchConfigIfaceToIfIndex (pi_IfaceName b) ifNames = Some ifIndex) \<or>
               (key \<noteq> [] \<and> NormalizeIfaceKey (pi_IfaceName b) = key)) modes)))"

definition VLANCarriedOnPort :: "VLANInventoryRow list \<Rightarrow> int \<Rightarrow> int \<Rightarrow> string \<Rightarrow> port_modes \<Rightarrow> bool" where
  "VLANCarriedOnPort inven vlanID ifIndex ifName modes =
     (if InventoryVLANOnPort inven vlanID ifIndex then True
      else case findParsedIface modes ifIndex ifName of
        None \<Rightarrow> False
      | Some block \<Rightarrow>
          if pi_TrunkAllowedAll block then True
          else if ToLower (TrimSpace (pi_Mode block)) = ''trunk'' \<and> length (pi_TrunkAllowed block) = 0 then True
          else vlanID \<in> set (pi_TrunkAllowed block) \<or> vlanID \<in> set (pi_Include block) \<or> vlanID \<in> set (pi_Tagged block) \<or>
               pi_AccessVLAN block = Some vlanID \<or> pi_PVID block = Some vlanID \<or> pi_TrunkNative block = Some vlanID)"

definition binding_text :: "string \<Rightarrow> VLANPortRef \<Rightarrow> string" where
  "binding_text sfx p = (if pr_IfName p = [] then if_index_name (pr_IfIndex p) else pr_IfName p) @ sfx"

definition FormatVLANPortBindings :: "VLANInventoryRow \<Rightarrow> string" where
  "FormatVLANPortBindings r =
     Join (map (binding_text '' (access)'') (vr_AccessPorts r) @ map (binding_text '' (tagged)'') (vr_TaggedPorts r)) '', ''"

section \<open>Overlaying an applied change\<close>

text \<open>The copy made by \<open>cloneVLANInventory\<close> protects the caller's rows; values need no copying.\<close>
definition cloneVLANInventory :: "VLANInventoryRow list \<Rightarrow> VLANInventoryRow list" where
  "cloneVLANInventory inven = map (\<lambda>r. r\<lparr>vr_AccessPorts := [] @ vr_AccessPorts r,
     vr_TaggedPorts := [] @ vr_TaggedPorts r, vr_FDBPorts := [] @ vr_FDBPorts r\<rparr>) inven"

definition dropVLANPort :: "VLANPortRef list \<Rightarrow> int \<Rightarrow> VLANPortRef list" where
  "dropVLANPort ps ifIndex =
     (if ifIndex \<le> 0 \<or> length ps = 0 then ps else filter (\<lambda>p. pr_IfIndex p \<noteq> ifIndex) ps)"

definition strip_row :: "int \<Rightarrow> bool \<Rightarrow> bool \<Rightarrow> VLANInventoryRow \<Rightarrow> VLANInventoryRow" where
  "strip_row ifIndex access tagged r =
     (let r1 = (if access then r\<lparr>vr_AccessPorts := dropVLANPort (vr_AccessPorts r) ifIndex\<rparr> else r)
      in if tagged then r1\<lparr>vr_TaggedPorts := dropVLANPort (vr_TaggedPorts r1) ifIndex\<rparr> else r1)"

definition stripPortVLAN :: "VLANInventoryRow list \<Rightarrow> int \<Rightarrow> bool \<Rightarrow> bool \<Rightarrow> VLANInventoryRow list" where
  "stripPortVLAN rows ifIndex access tagged = map (strip_row ifIndex access tagged) rows"

definition stripPortFromVLAN :: "VLANInventoryRow list \<Rightarrow> int \<Rightarrow> int \<Rightarrow> bool \<Rightarrow> bool \<Rightarrow> VLANInventoryRow list" where
  "stripPortFromVLAN rows vlanID ifIndex access tagged =
     map (\<lambda>r. if vr_VLANID r \<noteq> vlanID then r else strip_row ifIndex access tagged r) rows"

definition ensureVLANRow :: "VLANInventoryRow list \<Rightarrow> int \<Rightarrow> VLANInventoryRow list" where
  "ensureVLANRow rows vid = (if list_ex (\<lambda>r. vr_VLANID r = vid) rows then rows else rows @ [empty_row vid])"

definition addAccessPort :: "VLANInventoryRow list \<Rightarrow> int \<Rightarrow> VLANPortRef \<Rightarrow> VLANInventoryRow list" where
  "addAccessPort rows vlanID ref =
     (if vlanID < 1 then rows
      else map (\<lambda>r. if vr_VLANID r \<noteq> vlanID then r
                    else if \<not> hasPort (vr_AccessPorts r) (pr_IfIndex ref)
                    then r\<lparr>vr_AccessPorts := vr_AccessPorts r @ [ref]\<rparr> else r) (ensureVLANRow rows vlanID))"

definition addTaggedPort :: "VLANPortRef \<Rightarrow> VLANInventoryRow list \<Rightarrow> int \<Rightarrow> VLANInventoryRow list" where
  "addTaggedPort ref rows vlanID =
     (if vlanID < 1 then rows
      else map (\<lambda>r. if vr_VLANID r \<noteq> vlanID then r
                    else if hasPort (vr_AccessPorts r) (pr_IfIndex ref) \<or> hasPort (vr_TaggedPorts r) (pr_IfIndex ref) then r
                    else r\<lparr>vr_TaggedPorts := vr_TaggedPorts r @ [ref]\<rparr>) (ensureVLANRow rows vlanID))"

definition inventoryDatabaseIDs :: "VLANInventoryRow list \<Rightarrow> int list" where
  "inventoryDatabaseIDs rows =
     (let ids = map vr_VLANID (filter (\<lambda>r. vr_InDatabase r \<or> vr_VLANID r = 1) rows)
      in if length ids = 0 then map vr_VLANID rows else ids)"

definition trunk_overlay :: "VLANInventoryRow list \<Rightarrow> int \<Rightarrow> VLANPortRef \<Rightarrow> PortVLANChange \<Rightarrow> VLANInventoryRow list" where
  "trunk_overlay rows0 ifIndex refTrunk ch =
     (let rows = stripPortVLAN rows0 ifIndex True False;
          ids0 = ParseVLANIDList (NormalizeVLANList (pc_AllowedList ch));
          mode = (if pc_Op ch = VLANOpAddTagged then TrunkAllowAdd else ToLower (TrimSpace (pc_AllowedMode ch)));
          ids = (if pc_Op ch = VLANOpAddTagged \<and> pc_VLANID ch > 0 then [pc_VLANID ch] else ids0);
          native = (if pc_Op ch = VLANOpTrunkAllow then pc_VLANID ch else 0)
      in if mode = TrunkAllowRemove then
           foldl (\<lambda>rows vid. stripPortFromVLAN rows vid ifIndex False True) rows ids
         else if mode = TrunkAllowAll then
           (let rows = stripPortVLAN rows ifIndex False True
            in foldl (addTaggedPort refTrunk) rows (filter (\<lambda>vid. vid \<noteq> native) (inventoryDatabaseIDs rows)))
         else if mode = TrunkAllowExcept then
           (let skip = (if native > 0 then [native] else []) @ ids;
                rows = stripPortVLAN rows ifIndex False True
            in foldl (addTaggedPort refTrunk) rows (filter (\<lambda>vid. vid \<notin> set skip) (inventoryDatabaseIDs rows)))
         else
           (let rows = (if mode = TrunkAllowSet then stripPortVLAN rows ifIndex False True else rows)
            in foldl (addTaggedPort refTrunk) rows (filter (\<lambda>vid. \<not> (native > 0 \<and> vid = native)) ids)))"

definition OverlayPortVLAN :: "VLANInventoryRow list \<Rightarrow> int \<Rightarrow> string \<Rightarrow> PortVLANChange \<Rightarrow> VLANInventoryRow list" where
  "OverlayPortVLAN inven ifIndex ifName ch =
     (if ifIndex \<le> 0 then inven
      else let rows = cloneVLANInventory inven;
               refAccess = \<lparr>pr_IfIndex = ifIndex, pr_IfName = TrimSpace ifName, pr_Role = ''access''\<rparr>;
               refTrunk = \<lparr>pr_IfIndex = ifIndex, pr_IfName = TrimSpace ifName, pr_Role = ''trunk''\<rparr>
        in sort_key vr_VLANID
          (if pc_Op ch = VLANOpSetAccess \<or> pc_Op ch = VLANOpNoVLAN then
             addAccessPort (stripPortVLAN rows ifIndex True True)
               (if pc_Op ch = VLANOpNoVLAN then 1 else pc_VLANID ch) refAccess
           else if pc_Op ch = VLANOpRemove then stripPortFromVLAN rows (pc_VLANID ch) ifIndex True True
           else if pc_Op ch = VLANOpSetNative then
             (let rows = stripPortVLAN rows ifIndex True False
              in if pc_VLANID ch > 0 then stripPortFromVLAN rows (pc_VLANID ch) ifIndex False True else rows)
           else if pc_Op ch = VLANOpTrunkAllow \<or> pc_Op ch = VLANOpAddTagged then
             trunk_overlay rows ifIndex refTrunk ch
           else rows))"

definition OverlayVLANDatabase :: "VLANInventoryRow list \<Rightarrow> VLANDatabaseChange \<Rightarrow> VLANInventoryRow list" where
  "OverlayVLANDatabase inven ch =
     (let rows = cloneVLANInventory inven in
      sort_key vr_VLANID
        (if dc_Op ch = VLANDBOpCreate \<or> dc_Op ch = VLANDBOpSetName then
           map (\<lambda>r. if vr_VLANID r \<noteq> dc_VLANID ch then r
                 else (let r = r\<lparr>vr_InDatabase := True\<rparr>; name = TrimSpace (dc_Name ch)
                       in if name \<noteq> [] \<or> dc_Op ch = VLANDBOpSetName then r\<lparr>vr_Name := name\<rparr> else r))
             (ensureVLANRow rows (dc_VLANID ch))
         else if dc_Op ch = VLANDBOpDelete then
           (let drop_ids = DeleteIDs ch in filter (\<lambda>r. vr_VLANID r \<notin> set drop_ids) rows)
         else rows))"

section \<open>Membership after an overlay\<close>

text \<open>What an inventory says, abstractly: the pairs of a VLAN and a port index, untagged and tagged.\<close>
definition access_rel :: "VLANInventoryRow list \<Rightarrow> (int \<times> int) set" where
  "access_rel rows = {(v, i). \<exists>r\<in>set rows. vr_VLANID r = v \<and> hasPort (vr_AccessPorts r) i}"

definition tagged_rel :: "VLANInventoryRow list \<Rightarrow> (int \<times> int) set" where
  "tagged_rel rows = {(v, i). \<exists>r\<in>set rows. vr_VLANID r = v \<and> hasPort (vr_TaggedPorts r) i}"

lemma hasPort_simps [simp]: "hasPort [] i = False" "hasPort (p # ps) i = (pr_IfIndex p = i \<or> hasPort ps i)"
  "hasPort (ps @ qs) i = (hasPort ps i \<or> hasPort qs i)"
  by (auto simp: hasPort_def)

lemma hasPort_drop [simp]: "0 < i \<Longrightarrow> hasPort (dropVLANPort ps i) j \<longleftrightarrow> j \<noteq> i \<and> hasPort ps j"
  by (auto simp: dropVLANPort_def hasPort_def list_ex_iff)

lemma strip_row_simps [simp]:
  "vr_VLANID (strip_row i a t r) = vr_VLANID r" "vr_InDatabase (strip_row i a t r) = vr_InDatabase r"
  "vr_AccessPorts (strip_row i a t r) = (if a then dropVLANPort (vr_AccessPorts r) i else vr_AccessPorts r)"
  "vr_TaggedPorts (strip_row i a t r) = (if t then dropVLANPort (vr_TaggedPorts r) i else vr_TaggedPorts r)"
  by (auto simp: strip_row_def Let_def)

lemma clone_id [simp]: "cloneVLANInventory rows = rows"
  by (simp add: cloneVLANInventory_def)

lemma rel_sort [simp]: "access_rel (sort_key f rows) = access_rel rows" "tagged_rel (sort_key f rows) = tagged_rel rows"
  by (auto simp: access_rel_def tagged_rel_def)

lemma rel_Cons:
  "access_rel [] = {}" "tagged_rel [] = {}"
  "access_rel (r # rs) = {(v, i). v = vr_VLANID r \<and> hasPort (vr_AccessPorts r) i} \<union> access_rel rs"
  "tagged_rel (r # rs) = {(v, i). v = vr_VLANID r \<and> hasPort (vr_TaggedPorts r) i} \<union> tagged_rel rs"
  by (auto simp: access_rel_def tagged_rel_def)

lemma access_rel_strip:
  "0 < i \<Longrightarrow> access_rel (stripPortVLAN rows i a t) = (if a then {p \<in> access_rel rows. snd p \<noteq> i} else access_rel rows)"
  by (auto simp: access_rel_def stripPortVLAN_def)

lemma tagged_rel_strip:
  "0 < i \<Longrightarrow> tagged_rel (stripPortVLAN rows i a t) = (if t then {p \<in> tagged_rel rows. snd p \<noteq> i} else tagged_rel rows)"
  by (auto simp: tagged_rel_def stripPortVLAN_def)

lemma access_rel_strip_from:
  "0 < i \<Longrightarrow> access_rel (stripPortFromVLAN rows v i a t) = (if a then access_rel rows - {(v, i)} else access_rel rows)"
  by (induction rows) (auto simp: rel_Cons stripPortFromVLAN_def)

lemma tagged_rel_strip_from:
  "0 < i \<Longrightarrow> tagged_rel (stripPortFromVLAN rows v i a t) = (if t then tagged_rel rows - {(v, i)} else tagged_rel rows)"
  by (induction rows) (auto simp: rel_Cons stripPortFromVLAN_def)

lemma ensureVLANRow_rel [simp]:
  "access_rel (ensureVLANRow rows v) = access_rel rows" "tagged_rel (ensureVLANRow rows v) = tagged_rel rows"
  by (auto simp: access_rel_def tagged_rel_def ensureVLANRow_def empty_row_def)

lemma ensureVLANRow_has: "\<exists>r\<in>set (ensureVLANRow rows v). vr_VLANID r = v"
  by (auto simp: ensureVLANRow_def list_ex_iff empty_row_def)

lemma access_rel_add:
  assumes "1 \<le> v"
  shows "access_rel (addAccessPort rows v ref) = insert (v, pr_IfIndex ref) (access_rel rows)"
    "tagged_rel (addAccessPort rows v ref) = tagged_rel rows"
proof -
  let ?f = "\<lambda>r. if vr_VLANID r \<noteq> v then r else if \<not> hasPort (vr_AccessPorts r) (pr_IfIndex ref)
                    then r\<lparr>vr_AccessPorts := vr_AccessPorts r @ [ref]\<rparr> else r"
  have "access_rel (map ?f rs) = access_rel rs \<union> {(u, j). u = v \<and> j = pr_IfIndex ref \<and> (\<exists>r\<in>set rs. vr_VLANID r = v)}" for rs
    by (induction rs) (auto simp: rel_Cons)
  moreover have "tagged_rel (map ?f rs) = tagged_rel rs" for rs
    by (induction rs) (auto simp: rel_Cons)
  ultimately show "access_rel (addAccessPort rows v ref) = insert (v, pr_IfIndex ref) (access_rel rows)"
    "tagged_rel (addAccessPort rows v ref) = tagged_rel rows"
    using assms ensureVLANRow_has [of rows v] by (auto simp: addAccessPort_def)
qed

lemma tagged_rel_add:
  assumes "1 \<le> v"
  shows "access_rel (addTaggedPort ref rows v) = access_rel rows"
    "(v, pr_IfIndex ref) \<notin> access_rel rows \<Longrightarrow>
      tagged_rel (addTaggedPort ref rows v) = insert (v, pr_IfIndex ref) (tagged_rel rows)"
proof -
  let ?f = "\<lambda>r. if vr_VLANID r \<noteq> v then r
      else if hasPort (vr_AccessPorts r) (pr_IfIndex ref) \<or> hasPort (vr_TaggedPorts r) (pr_IfIndex ref) then r
      else r\<lparr>vr_TaggedPorts := vr_TaggedPorts r @ [ref]\<rparr>"
  have "(v, pr_IfIndex ref) \<notin> access_rel rs \<Longrightarrow>
      tagged_rel (map ?f rs) = tagged_rel rs \<union> {(u, j). u = v \<and> j = pr_IfIndex ref \<and> (\<exists>r\<in>set rs. vr_VLANID r = v)}" for rs
    by (induction rs) (auto simp: rel_Cons)
  then show "(v, pr_IfIndex ref) \<notin> access_rel rows \<Longrightarrow>
      tagged_rel (addTaggedPort ref rows v) = insert (v, pr_IfIndex ref) (tagged_rel rows)"
    using assms ensureVLANRow_has [of rows v] by (auto simp: addTaggedPort_def)
  have "access_rel (map ?f rs) = access_rel rs" for rs
    by (induction rs) (auto simp: rel_Cons)
  then show "access_rel (addTaggedPort ref rows v) = access_rel rows"
    using assms by (auto simp: addTaggedPort_def)
qed

lemma tagged_rel_adds:
  assumes "\<forall>v\<in>set vs. 1 \<le> v" "\<forall>v. (v, pr_IfIndex ref) \<notin> access_rel rows"
  shows "access_rel (foldl (addTaggedPort ref) rows vs) = access_rel rows"
    "tagged_rel (foldl (addTaggedPort ref) rows vs) = tagged_rel rows \<union> set vs \<times> {pr_IfIndex ref}"
  using assms by (induction vs arbitrary: rows) (auto simp: tagged_rel_add)

lemma strip_froms:
  assumes "0 < i"
  shows "access_rel (foldl (\<lambda>rows v. stripPortFromVLAN rows v i False True) rows vs) = access_rel rows"
    "tagged_rel (foldl (\<lambda>rows v. stripPortFromVLAN rows v i False True) rows vs) = tagged_rel rows - set vs \<times> {i}"
  using assms by (induction vs arbitrary: rows) (auto simp: access_rel_strip_from tagged_rel_strip_from)

lemma database_ids_strip [simp]: "inventoryDatabaseIDs (stripPortVLAN rows i a t) = inventoryDatabaseIDs rows"
  by (simp add: inventoryDatabaseIDs_def stripPortVLAN_def filter_map comp_def)

lemma database_ids_rows: "set (inventoryDatabaseIDs rows) \<subseteq> vr_VLANID ` set rows"
  by (auto simp: inventoryDatabaseIDs_def Let_def)

text \<open>
  The contract of an overlay on the membership relations: \<open>i\<close> is the port, \<open>db\<close> the VLANs a trunk carries
  when all are allowed, \<open>A\<close> and \<open>T\<close> the untagged and the tagged members.
\<close>
definition others :: "int \<Rightarrow> (int \<times> int) set \<Rightarrow> (int \<times> int) set" where
  "others i R = {p \<in> R. snd p \<noteq> i}"

fun trunk_spec :: "string \<Rightarrow> int \<Rightarrow> int set \<Rightarrow> int \<Rightarrow> int set \<Rightarrow> (int \<times> int) set \<Rightarrow> (int \<times> int) set" where
  "trunk_spec mode i db native ids T =
     (if mode = TrunkAllowRemove then T - ids \<times> {i}
      else if mode = TrunkAllowAll then others i T \<union> (db - {native}) \<times> {i}
      else if mode = TrunkAllowExcept then others i T \<union> (db - ids - {native}) \<times> {i}
      else if mode = TrunkAllowSet then others i T \<union> (ids - {native}) \<times> {i}
      else T \<union> (ids - {native}) \<times> {i})"

definition overlay_spec :: "PortVLANChange \<Rightarrow> int \<Rightarrow> int set \<Rightarrow> (int \<times> int) set \<times> (int \<times> int) set \<Rightarrow> (int \<times> int) set \<times> (int \<times> int) set" where
  "overlay_spec ch i db AT = (case AT of (A, T) \<Rightarrow>
     if pc_Op ch = VLANOpSetAccess then (insert (pc_VLANID ch, i) (others i A), others i T)
     else if pc_Op ch = VLANOpNoVLAN then (insert (1, i) (others i A), others i T)
     else if pc_Op ch = VLANOpRemove then (A - {(pc_VLANID ch, i)}, T - {(pc_VLANID ch, i)})
     else if pc_Op ch = VLANOpSetNative then (others i A, T - {(pc_VLANID ch, i)})
     else if pc_Op ch = VLANOpAddTagged then (others i A, insert (pc_VLANID ch, i) T)
     else (others i A, trunk_spec (ToLower (TrimSpace (pc_AllowedMode ch))) i db (pc_VLANID ch)
             (set (ParseVLANIDList (NormalizeVLANList (pc_AllowedList ch)))) T))"

definition members :: "VLANInventoryRow list \<Rightarrow> (int \<times> int) set \<times> (int \<times> int) set" where
  "members rows = (access_rel rows, tagged_rel rows)"

lemmas rel_simps = access_rel_strip tagged_rel_strip access_rel_strip_from tagged_rel_strip_from
  access_rel_add tagged_rel_adds strip_froms others_def

lemma parsed_positive: "\<forall>v\<in>set (ParseVLANIDList s). 1 \<le> v"
  using ParseVLANIDList_ok [of s] by (auto simp: id_list_def validVLANID_def)

lemma trunk_allow_refines:
  assumes i: "0 < i" "pr_IfIndex ref = i" and rows: "\<forall>r\<in>set rows. 1 \<le> vr_VLANID r"
    and op: "pc_Op ch = VLANOpTrunkAllow" "0 \<le> pc_VLANID ch"
  shows "members (trunk_overlay rows i ref ch) =
    (others i (access_rel rows), trunk_spec (ToLower (TrimSpace (pc_AllowedMode ch))) i (set (inventoryDatabaseIDs rows))
       (pc_VLANID ch) (set (ParseVLANIDList (NormalizeVLANList (pc_AllowedList ch)))) (tagged_rel rows))"
proof -
  let ?db = "inventoryDatabaseIDs rows" and ?ids = "ParseVLANIDList (NormalizeVLANList (pc_AllowedList ch))"
  have pos: "\<forall>v\<in>set ?db. 1 \<le> v" "\<forall>v\<in>set ?ids. 1 \<le> v"
    using rows database_ids_rows [of rows] parsed_positive by auto
  have nat0: "pc_VLANID ch \<noteq> 0 \<Longrightarrow> 0 < pc_VLANID ch" using op by simp
  have add: "\<forall>v\<in>set vs. 1 \<le> v \<Longrightarrow> access_rel (foldl (addTaggedPort ref) (stripPortVLAN (stripPortVLAN rows i True False) i False True) vs) = others i (access_rel rows)"
    "\<forall>v\<in>set vs. 1 \<le> v \<Longrightarrow> tagged_rel (foldl (addTaggedPort ref) (stripPortVLAN (stripPortVLAN rows i True False) i False True) vs) = others i (tagged_rel rows) \<union> set vs \<times> {i}"
    "\<forall>v\<in>set vs. 1 \<le> v \<Longrightarrow> access_rel (foldl (addTaggedPort ref) (stripPortVLAN rows i True False) vs) = others i (access_rel rows)"
    "\<forall>v\<in>set vs. 1 \<le> v \<Longrightarrow> tagged_rel (foldl (addTaggedPort ref) (stripPortVLAN rows i True False) vs) = tagged_rel rows \<union> set vs \<times> {i}" for vs
    using i by (simp_all add: rel_simps)
  consider "ToLower (TrimSpace (pc_AllowedMode ch)) = TrunkAllowRemove" | "ToLower (TrimSpace (pc_AllowedMode ch)) = TrunkAllowAll"
    | "ToLower (TrimSpace (pc_AllowedMode ch)) = TrunkAllowExcept" | "ToLower (TrimSpace (pc_AllowedMode ch)) = TrunkAllowSet"
    | "ToLower (TrimSpace (pc_AllowedMode ch)) \<notin> {TrunkAllowRemove, TrunkAllowAll, TrunkAllowExcept, TrunkAllowSet}" by blast
  then show ?thesis
  proof cases
    case 1
    then show ?thesis using i op by (simp add: trunk_overlay_def members_def rel_simps)
  next
    case 2
    then show ?thesis using pos op by (auto simp: trunk_overlay_def members_def add Let_def)
  next
    case 3
    then show ?thesis using pos op nat0 by (auto simp: trunk_overlay_def members_def add Let_def)
  next
    case 4
    then show ?thesis using pos op nat0 by (auto simp: trunk_overlay_def members_def add Let_def)
  next
    case 5
    then show ?thesis using pos op nat0 by (auto simp: trunk_overlay_def members_def add Let_def)
  qed
qed

lemma add_tagged_refines:
  assumes "0 < i" "pr_IfIndex ref = i" "pc_Op ch = VLANOpAddTagged" "1 \<le> pc_VLANID ch"
  shows "members (trunk_overlay rows i ref ch) = (others i (access_rel rows), insert (pc_VLANID ch, i) (tagged_rel rows))"
  using assms tagged_rel_adds [of "[pc_VLANID ch]" ref "stripPortVLAN rows i True False"]
  by (simp add: trunk_overlay_def members_def Let_def) (auto simp: rel_simps)

lemma validate_positive:
  assumes "PortVLANChange_Validate ch = None"
  shows "pc_Op ch \<in> {VLANOpSetAccess, VLANOpAddTagged, VLANOpRemove, VLANOpSetNative, VLANOpTrunkAllow, VLANOpNoVLAN}"
    "pc_Op ch \<in> {VLANOpSetAccess, VLANOpAddTagged, VLANOpRemove, VLANOpSetNative} \<Longrightarrow> 1 \<le> pc_VLANID ch"
    "pc_Op ch = VLANOpTrunkAllow \<Longrightarrow> 0 \<le> pc_VLANID ch"
proof -
  show "pc_Op ch \<in> {VLANOpSetAccess, VLANOpAddTagged, VLANOpRemove, VLANOpSetNative, VLANOpTrunkAllow, VLANOpNoVLAN}"
    using assms unfolding PortVLANChange_Validate_def by (metis insertCI option.distinct(1))
  show "pc_Op ch \<in> {VLANOpSetAccess, VLANOpAddTagged, VLANOpRemove, VLANOpSetNative} \<Longrightarrow> 1 \<le> pc_VLANID ch"
    using assms by (auto simp: PortVLANChange_Validate_def not_less split: if_splits)
  show "pc_Op ch = VLANOpTrunkAllow \<Longrightarrow> 0 \<le> pc_VLANID ch"
    using assms by (auto simp: PortVLANChange_Validate_def not_less split: if_splits)
qed

lemma overlay_refines:
  assumes i: "0 < i" and rows: "\<forall>r\<in>set rows. 1 \<le> vr_VLANID r" and ok: "PortVLANChange_Validate ch = None"
  shows "members (OverlayPortVLAN rows i name ch) = overlay_spec ch i (set (inventoryDatabaseIDs rows)) (members rows)"
proof -
  have trunk: "pc_Op ch = VLANOpTrunkAllow \<Longrightarrow> pr_IfIndex ref = i \<Longrightarrow> members (sort_key vr_VLANID (trunk_overlay rows i ref ch)) =
      overlay_spec ch i (set (inventoryDatabaseIDs rows)) (members rows)" for ref
    using trunk_allow_refines [OF i _ rows, of ref ch] validate_positive(3) [OF ok]
    by (simp add: members_def overlay_spec_def del: trunk_spec.simps)
  have tag: "pc_Op ch = VLANOpAddTagged \<Longrightarrow> pr_IfIndex ref = i \<Longrightarrow> members (sort_key vr_VLANID (trunk_overlay rows i ref ch)) =
      overlay_spec ch i (set (inventoryDatabaseIDs rows)) (members rows)" for ref
    using add_tagged_refines [OF i, of ref ch rows] validate_positive(2) [OF ok]
    by (simp add: members_def overlay_spec_def)
  have pos: "pc_Op ch \<in> {VLANOpSetAccess, VLANOpRemove, VLANOpSetNative} \<Longrightarrow> 1 \<le> pc_VLANID ch"
    using validate_positive(2) [OF ok] by blast
  have "pc_Op ch = VLANOpSetAccess \<Longrightarrow> ?thesis"
    using i pos by (simp add: OverlayPortVLAN_def overlay_spec_def members_def rel_simps Let_def)
  moreover have "pc_Op ch = VLANOpNoVLAN \<Longrightarrow> ?thesis"
    using i by (simp add: OverlayPortVLAN_def overlay_spec_def members_def rel_simps Let_def)
  moreover have "pc_Op ch = VLANOpRemove \<Longrightarrow> ?thesis"
    using i by (simp add: OverlayPortVLAN_def overlay_spec_def members_def rel_simps Let_def)
  moreover have "pc_Op ch = VLANOpSetNative \<Longrightarrow> ?thesis"
    using i pos by (simp add: OverlayPortVLAN_def overlay_spec_def members_def rel_simps Let_def)
  moreover have "pc_Op ch = VLANOpTrunkAllow \<Longrightarrow> ?thesis"
    using i trunk by (simp add: OverlayPortVLAN_def Let_def)
  moreover have "pc_Op ch = VLANOpAddTagged \<Longrightarrow> ?thesis"
    using i tag by (simp add: OverlayPortVLAN_def Let_def)
  ultimately show ?thesis using validate_positive(1) [OF ok] by (elim insertE emptyE) blast+
qed

section \<open>The inventory is well formed\<close>

definition known_ports :: "VLANPortRef list \<Rightarrow> int list" where
  "known_ports ps = filter (\<lambda>i. 0 < i) (map pr_IfIndex ps)"

definition row_ok :: "int \<Rightarrow> VLANInventoryRow \<Rightarrow> bool" where
  "row_ok v r \<longleftrightarrow> vr_VLANID r = v \<and> validVLANID v \<and>
     distinct (known_ports (vr_AccessPorts r)) \<and> distinct (known_ports (vr_TaggedPorts r)) \<and>
     distinct (map pr_IfIndex (vr_FDBPorts r)) \<and>
     (\<forall>p\<in>set (vr_FDBPorts r). 0 < pr_IfIndex p \<and> \<not> hasPort (vr_AccessPorts r) (pr_IfIndex p) \<and>
        \<not> hasPort (vr_TaggedPorts r) (pr_IfIndex p))"

definition rows_ok :: "(int \<Rightarrow> VLANInventoryRow \<Rightarrow> bool) \<Rightarrow> vlan_rows \<Rightarrow> bool" where
  "rows_ok P rows \<longleftrightarrow> distinct (map fst rows) \<and> (\<forall>(v, r)\<in>set rows. P v r)"

text \<open>Before the forwarding table is read no row has learned ports.\<close>
definition cfg_ok :: "int \<Rightarrow> VLANInventoryRow \<Rightarrow> bool" where
  "cfg_ok v r \<longleftrightarrow> row_ok v r \<and> vr_FDBPorts r = []"

lemma rows_ok_put: "rows_ok P rows \<Longrightarrow> P v r \<Longrightarrow> rows_ok P (put_row rows v r)"
  using update_ball [of rows P v r] by (simp add: rows_ok_def put_row_def distinct_update)

lemma rows_ok_lookup: "rows_ok P rows \<Longrightarrow> map_of rows v = Some r \<Longrightarrow> P v r"
  by (auto simp: rows_ok_def dest: map_of_SomeD)

lemma cfg_ok_ensure: "rows_ok cfg_ok rows \<Longrightarrow> validVLANID v \<Longrightarrow> cfg_ok v (ensureRow rows v)"
  by (auto simp: ensureRow_def empty_row_def cfg_ok_def row_ok_def known_ports_def split: option.split dest: rows_ok_lookup)

lemma hasPortRef_index: "hasPort ps (pr_IfIndex rf) \<Longrightarrow> 0 < pr_IfIndex rf \<Longrightarrow> hasPortRef ps rf"
  by (auto simp: hasPort_def hasPortRef_def list_ex_iff Let_def)

lemma known_ports_add:
  assumes "distinct (known_ports ps)" "0 < pr_IfIndex rf \<Longrightarrow> \<not> hasPort ps (pr_IfIndex rf)"
  shows "distinct (known_ports (ps @ [rf]))"
  using assms by (auto simp: known_ports_def hasPort_def list_ex_iff)

lemma cfg_ok_access:
  assumes "cfg_ok v r" "0 < pr_IfIndex rf \<Longrightarrow> \<not> hasPort (vr_AccessPorts r) (pr_IfIndex rf)"
  shows "cfg_ok v (r\<lparr>vr_AccessPorts := vr_AccessPorts r @ [rf]\<rparr>)"
  using assms known_ports_add by (simp add: cfg_ok_def row_ok_def)

lemma cfg_ok_tagged:
  assumes "cfg_ok v r" "0 < pr_IfIndex rf \<Longrightarrow> \<not> hasPort (vr_TaggedPorts r) (pr_IfIndex rf)"
  shows "cfg_ok v (r\<lparr>vr_TaggedPorts := vr_TaggedPorts r @ [rf]\<rparr>)"
  using assms known_ports_add by (simp add: cfg_ok_def row_ok_def)

lemma cfg_ok_db: "rows_ok cfg_ok rows \<Longrightarrow> validVLANID (fst e) \<Longrightarrow> rows_ok cfg_ok (db_row rows e)"
  using cfg_ok_ensure [of rows "fst e"]
  by (auto simp: db_row_def cfg_ok_def row_ok_def intro!: rows_ok_put split: prod.split)

lemma cfg_ok_place_access:
  assumes "rows_ok cfg_ok rows" "opt_vlan_ok access"
  shows "rows_ok cfg_ok (place_access rows h access role)"
  using assms cfg_ok_ensure [of rows "the access"] hasPortRef_index
  by (auto simp: place_access_def opt_vlan_ok_def Let_def intro!: rows_ok_put cfg_ok_access split: option.splits)

lemma cfg_ok_place_tagged:
  assumes "rows_ok cfg_ok rows" "validVLANID v"
  shows "rows_ok cfg_ok (place_tagged h access role rows v)"
  using assms cfg_ok_ensure [of rows v] hasPortRef_index
  by (auto simp: place_tagged_def Let_def intro!: rows_ok_put cfg_ok_tagged)

lemma block_access_ok: "iface_ok b \<Longrightarrow> opt_vlan_ok (block_access b)"
  by (auto simp: block_access_def iface_ok_def Let_def)

lemma block_tagged_set:
  "iface_ok b \<Longrightarrow> set (block_tagged role access b) =
     (if role = ''trunk'' then (set (pi_Tagged b) \<union> set (pi_TrunkAllowed b) \<union> set (pi_Include b)) - set_option access
      else set (pi_Tagged b))"
  by (auto simp: block_tagged_def appendUniqueInts_set iface_ok_def ids_ok_def list_all_iff Let_def split: option.splits)

lemma block_tagged_valid: "iface_ok b \<Longrightarrow> v \<in> set (block_tagged role access b) \<Longrightarrow> validVLANID v"
  by (auto simp: block_tagged_set iface_ok_def ids_ok_def list_all_iff split: if_splits)

lemma cfg_ok_block:
  assumes "rows_ok cfg_ok rows" "iface_ok (snd kb)"
  shows "rows_ok cfg_ok (block_rows ports rows kb)"
proof -
  have "rows_ok cfg_ok (foldl (place_tagged h (block_access (snd kb)) role) (place_access rows h (block_access (snd kb)) role)
      (block_tagged role (block_access (snd kb)) (snd kb)))" for h role
    by (rule foldl_inv) (use assms block_tagged_valid in \<open>auto intro: cfg_ok_place_access cfg_ok_place_tagged block_access_ok\<close>)
  with assms(1) show ?thesis by (auto simp: block_rows_def Let_def split: option.split prod.split)
qed

lemma cfg_ok_hint_access: "cfg_ok v r \<Longrightarrow> cfg_ok v (hint_access p r)"
  by (auto simp: hint_access_def Let_def refFromHint_def intro!: cfg_ok_access)

lemma cfg_ok_hint: "rows_ok cfg_ok rows \<Longrightarrow> rows_ok cfg_ok (hint_row seen rows p)"
  by (simp add: hint_row_def rows_ok_put cfg_ok_hint_access cfg_ok_ensure split: option.split)

lemma config_rows_ok:
  assumes "\<forall>e\<in>set db. validVLANID (fst e)" "\<forall>kb\<in>set parsed. iface_ok (snd kb)"
  shows "rows_ok cfg_ok (config_rows db parsed ports)"
proof -
  have "rows_ok cfg_ok []" by (simp add: rows_ok_def)
  then have "rows_ok cfg_ok (foldl db_row [] db)"
    by (rule foldl_inv) (use assms in \<open>auto intro: cfg_ok_db\<close>)
  then have "rows_ok cfg_ok (foldl (block_rows ports) (foldl db_row [] db) parsed)"
    by (rule foldl_inv) (use assms in \<open>auto intro: cfg_ok_block\<close>)
  then show ?thesis unfolding config_rows_def by (rule foldl_inv) (rule cfg_ok_hint)
qed

lemma row_ok_fdb: "rows_ok row_ok rows \<Longrightarrow> rows_ok row_ok (fdb_row ports rows e)"
proof -
  assume ok: "rows_ok row_ok rows"
  have "row_ok v (r\<lparr>vr_FDBPorts := vr_FDBPorts r @ [rf]\<rparr>)"
    if "map_of rows v = Some r" "0 < pr_IfIndex rf" "\<not> hasPort (vr_AccessPorts r) (pr_IfIndex rf)"
      "\<not> hasPort (vr_TaggedPorts r) (pr_IfIndex rf)" "\<not> hasPort (vr_FDBPorts r) (pr_IfIndex rf)" for v r rf
    using rows_ok_lookup [OF ok that(1)] that(2-) by (auto simp: row_ok_def hasPort_def list_ex_iff)
  with ok show ?thesis by (auto simp: fdb_row_def Let_def intro!: rows_ok_put split: option.split)
qed

lemma sorted_rows:
  assumes "rows_ok row_ok rows"
  shows "sorted_wrt (<) (map vr_VLANID (sort_key vr_VLANID (map snd rows)))"
proof -
  have "map vr_VLANID (map snd rows) = map fst rows"
    using assms by (auto simp: rows_ok_def row_ok_def)
  with assms have "distinct (map vr_VLANID (map snd rows))" by (metis rows_ok_def)
  moreover have "mset (map vr_VLANID (sort_key vr_VLANID (map snd rows))) = mset (map vr_VLANID (map snd rows))"
    by (simp only: mset_map mset_sort)
  ultimately have "distinct (map vr_VLANID (sort_key vr_VLANID (map snd rows)))"
    by (metis mset_eq_imp_distinct_iff)
  then show ?thesis by (simp add: strict_sorted_iff)
qed

lemma inventory_rows_ok:
  assumes "\<forall>e\<in>set db. validVLANID (fst e)" "\<forall>kb\<in>set parsed. iface_ok (snd kb)"
  shows "rows_ok row_ok (foldl (fdb_row ports) (config_rows db parsed ports) fdb)"
proof -
  have "rows_ok row_ok (config_rows db parsed ports)"
    using config_rows_ok [OF assms, of ports] by (auto simp: rows_ok_def cfg_ok_def)
  then show ?thesis by (rule foldl_inv) (rule row_ok_fdb)
qed

section \<open>Learned addresses change no membership\<close>

definition no_fdb :: "VLANInventoryRow \<Rightarrow> VLANInventoryRow" where
  "no_fdb r = r\<lparr>vr_FDBPorts := []\<rparr>"

lemma update_same: "map_of m k = Some v \<Longrightarrow> f v' = f v \<Longrightarrow> map (f \<circ> snd) (AList.update k v' m) = map (f \<circ> snd) m"
  by (induction m) auto

lemma fdb_row_same: "map (no_fdb \<circ> snd) (fdb_row ports rows e) = map (no_fdb \<circ> snd) rows"
  by (auto simp: fdb_row_def Let_def put_row_def no_fdb_def intro!: update_same split: option.split)

lemma fdb_rows_same: "map (no_fdb \<circ> snd) (foldl (fdb_row ports) rows fdb) = map (no_fdb \<circ> snd) rows"
  by (induction fdb arbitrary: rows) (auto simp: fdb_row_same)

lemma insort_map: "(\<And>x. g (f x) = g x) \<Longrightarrow> map f (insort_key g x xs) = insort_key g (f x) (map f xs)"
  by (induction xs) auto

lemma sort_map: "(\<And>x. g (f x) = g x) \<Longrightarrow> map f (sort_key g xs) = sort_key g (map f xs)"
  by (induction xs) (auto simp: insort_map sort_key_simps)

lemma inventory_no_fdb: "map no_fdb (build_inventory db parsed ports fdb) = map no_fdb (build_inventory db parsed ports [])"
  unfolding build_inventory_def
  by (subst (1 2) sort_map) (simp_all add: no_fdb_def [THEN arg_cong, of vr_VLANID] fdb_rows_same)

section \<open>The inventory says what the configuration says\<close>

definition matched :: "PortVLANHint list \<Rightarrow> ParsedInterfaceCLI \<Rightarrow> int \<Rightarrow> bool" where
  "matched ports b i \<longleftrightarrow> MatchConfigIfaceToIfIndex (pi_IfaceName b) (if_names ports) = Some i"

definition access_role :: "ParsedInterfaceCLI \<Rightarrow> bool" where
  "access_role b \<longleftrightarrow> PortRoleFromCLIMode (pi_Mode b) = ''access'' \<or> PortRoleFromCLIMode (pi_Mode b) = []"

definition block_tags :: "ParsedInterfaceCLI \<Rightarrow> int \<Rightarrow> bool" where
  "block_tags b v \<longleftrightarrow> v \<in> set (block_tagged (PortRoleFromCLIMode (pi_Mode b)) (block_access b) b) \<and>
     (block_access b = Some v \<longrightarrow> PortRoleFromCLIMode (pi_Mode b) = ''trunk'')"

definition cfg_access :: "port_modes \<Rightarrow> PortVLANHint list \<Rightarrow> int \<Rightarrow> int \<Rightarrow> bool" where
  "cfg_access parsed ports v i \<longleftrightarrow>
     (\<exists>b\<in>snd ` set parsed. matched ports b i \<and> access_role b \<and> block_access b = Some v) \<or>
     (\<exists>p\<in>set ports. ph_IfIndex p = i \<and> ph_AccessVLAN p = Some v \<and> (\<forall>b\<in>snd ` set parsed. \<not> matched ports b i))"

definition cfg_tagged :: "port_modes \<Rightarrow> PortVLANHint list \<Rightarrow> int \<Rightarrow> int \<Rightarrow> bool" where
  "cfg_tagged parsed ports v i \<longleftrightarrow> (\<exists>b\<in>snd ` set parsed. matched ports b i \<and> block_tags b v)"

definition sound_row :: "(int \<Rightarrow> int \<Rightarrow> bool) \<Rightarrow> (int \<Rightarrow> int \<Rightarrow> bool) \<Rightarrow> int \<Rightarrow> VLANInventoryRow \<Rightarrow> bool" where
  "sound_row A T v r \<longleftrightarrow> vr_VLANID r = v \<and>
     (\<forall>p\<in>set (vr_AccessPorts r). 0 < pr_IfIndex p \<longrightarrow> A v (pr_IfIndex p)) \<and>
     (\<forall>p\<in>set (vr_TaggedPorts r). 0 < pr_IfIndex p \<longrightarrow> T v (pr_IfIndex p))"

lemma block_hint_matched: "block_hint ports b = Some h \<Longrightarrow> 0 < ph_IfIndex h \<Longrightarrow> matched ports b (ph_IfIndex h)"
  by (auto simp: block_hint_def matched_def Let_def zero_hint_def split: option.splits if_splits)

lemma sound_ensure: "rows_ok (sound_row A T) rows \<Longrightarrow> sound_row A T v (ensureRow rows v)"
  by (auto simp: ensureRow_def empty_row_def sound_row_def split: option.split dest: rows_ok_lookup)

lemma sound_add:
  "sound_row A T v r \<Longrightarrow> (0 < pr_IfIndex rf \<Longrightarrow> A v (pr_IfIndex rf)) \<Longrightarrow>
     sound_row A T v (r\<lparr>vr_AccessPorts := vr_AccessPorts r @ [rf]\<rparr>)"
  "sound_row A T v r \<Longrightarrow> (0 < pr_IfIndex rf \<Longrightarrow> T v (pr_IfIndex rf)) \<Longrightarrow>
     sound_row A T v (r\<lparr>vr_TaggedPorts := vr_TaggedPorts r @ [rf]\<rparr>)"
  by (auto simp: sound_row_def)

lemma ref_index [simp]: "pr_IfIndex (refFromHint h) = ph_IfIndex h"
  by (simp add: refFromHint_def)

lemma sound_db: "rows_ok (sound_row A T) rows \<Longrightarrow> rows_ok (sound_row A T) (db_row rows e)"
  using sound_ensure [of A T rows "fst e"]
  by (auto simp: db_row_def sound_row_def intro!: rows_ok_put split: prod.split)

lemma sound_place_access:
  assumes "rows_ok (sound_row A T) rows"
    "\<And>a. access = Some a \<Longrightarrow> role = ''access'' \<or> role = [] \<Longrightarrow> 0 < ph_IfIndex h \<Longrightarrow> A a (ph_IfIndex h)"
  shows "rows_ok (sound_row A T) (place_access rows h access role)"
  using assms sound_ensure [OF assms(1)]
  by (auto simp: place_access_def Let_def intro!: rows_ok_put sound_add split: option.splits)

lemma sound_place_tagged:
  assumes "rows_ok (sound_row A T) rows"
    "access \<noteq> Some v \<or> role = ''trunk'' \<Longrightarrow> 0 < ph_IfIndex h \<Longrightarrow> T v (ph_IfIndex h)"
  shows "rows_ok (sound_row A T) (place_tagged h access role rows v)"
  using assms sound_ensure [OF assms(1)] by (auto simp: place_tagged_def Let_def intro!: rows_ok_put sound_add)

lemma sound_block:
  assumes "rows_ok (sound_row (cfg_access parsed ports) (cfg_tagged parsed ports)) rows" "kb \<in> set parsed"
  shows "rows_ok (sound_row (cfg_access parsed ports) (cfg_tagged parsed ports)) (block_rows ports rows kb)"
proof (cases "block_hint ports (snd kb)")
  case None
  with assms(1) show ?thesis by (simp add: block_rows_def case_prod_beta)
next
  case (Some h0)
  define role where "role = PortRoleFromCLIMode (pi_Mode (snd kb))"
  define h where "h = (if role \<noteq> [] then h0\<lparr>ph_Role := role\<rparr> else h0)"
  have m: "0 < ph_IfIndex h \<Longrightarrow> matched ports (snd kb) (ph_IfIndex h)"
    using block_hint_matched [OF Some] by (auto simp: h_def)
  have "rows_ok (sound_row (cfg_access parsed ports) (cfg_tagged parsed ports))
    (foldl (place_tagged h (block_access (snd kb)) role) (place_access rows h (block_access (snd kb)) role)
      (block_tagged role (block_access (snd kb)) (snd kb)))"
  proof (rule foldl_inv)
    show "rows_ok (sound_row (cfg_access parsed ports) (cfg_tagged parsed ports)) (place_access rows h (block_access (snd kb)) role)"
      using assms m by (intro sound_place_access) (auto simp: cfg_access_def access_role_def role_def)
  next
    fix rows' v
    assume "rows_ok (sound_row (cfg_access parsed ports) (cfg_tagged parsed ports)) rows'"
      "v \<in> set (block_tagged role (block_access (snd kb)) (snd kb))"
    then show "rows_ok (sound_row (cfg_access parsed ports) (cfg_tagged parsed ports))
        (place_tagged h (block_access (snd kb)) role rows' v)"
      using assms(2) m by (intro sound_place_tagged) (auto simp: cfg_tagged_def block_tags_def role_def)
  qed
  with Some show ?thesis by (simp add: block_rows_def case_prod_beta Let_def flip: h_def role_def)
qed

lemma seen_iff: "i \<in> set (seen_in_config ports parsed) \<longleftrightarrow> (\<exists>b\<in>snd ` set parsed. matched ports b i)"
  by (force simp: seen_in_config_def matched_def map_filter_def split: prod.splits)

lemma sound_hint:
  assumes "rows_ok (sound_row (cfg_access parsed ports) T) rows" "p \<in> set ports"
  shows "rows_ok (sound_row (cfg_access parsed ports) T) (hint_row (seen_in_config ports parsed) rows p)"
proof -
  have "sound_row (cfg_access parsed ports) T a (hint_access p r)"
    if "sound_row (cfg_access parsed ports) T a r" "ph_AccessVLAN p = Some a" "ph_IfIndex p \<notin> set (seen_in_config ports parsed)" for a r
    using that assms(2) by (auto simp: hint_access_def Let_def seen_iff cfg_access_def intro!: sound_add)
  with assms sound_ensure [OF assms(1)] show ?thesis
    by (simp add: hint_row_def rows_ok_put split: option.split)
qed

lemma config_rows_sound:
  "rows_ok (sound_row (cfg_access parsed ports) (cfg_tagged parsed ports)) (config_rows db parsed ports)"
proof -
  have "rows_ok (sound_row (cfg_access parsed ports) (cfg_tagged parsed ports)) []" by (simp add: rows_ok_def)
  then have "rows_ok (sound_row (cfg_access parsed ports) (cfg_tagged parsed ports)) (foldl db_row [] db)"
    by (rule foldl_inv) (rule sound_db)
  then have "rows_ok (sound_row (cfg_access parsed ports) (cfg_tagged parsed ports)) (foldl (block_rows ports) (foldl db_row [] db) parsed)"
    by (rule foldl_inv) (rule sound_block)
  then show ?thesis unfolding config_rows_def by (rule foldl_inv) (rule sound_hint)
qed

lemma sound_fdb: "rows_ok (sound_row A T) rows \<Longrightarrow> rows_ok (sound_row A T) (fdb_row ports rows e)"
  using rows_ok_lookup [of "sound_row A T" rows "fp_VLANID e"]
  by (auto simp: fdb_row_def Let_def sound_row_def intro!: rows_ok_put split: option.split)

lemma inventory_sound:
  "rows_ok (sound_row (cfg_access parsed ports) (cfg_tagged parsed ports)) (foldl (fdb_row ports) (config_rows db parsed ports) fdb)"
  using config_rows_sound by (rule foldl_inv) (rule sound_fdb)

text \<open>Rows only grow while the configuration is read.\<close>
definition row_le :: "VLANInventoryRow \<Rightarrow> VLANInventoryRow \<Rightarrow> bool" where
  "row_le r r' \<longleftrightarrow> set (vr_AccessPorts r) \<subseteq> set (vr_AccessPorts r') \<and> set (vr_TaggedPorts r) \<subseteq> set (vr_TaggedPorts r')"

definition rows_le :: "vlan_rows \<Rightarrow> vlan_rows \<Rightarrow> bool" where
  "rows_le rows rows' \<longleftrightarrow> (\<forall>v r. map_of rows v = Some r \<longrightarrow> (\<exists>r'. map_of rows' v = Some r' \<and> row_le r r'))"

lemma row_le_trans: "row_le a b \<Longrightarrow> row_le b c \<Longrightarrow> row_le a c"
  by (auto simp: row_le_def)

lemma rows_le_refl [simp]: "rows_le rows rows"
  by (auto simp: rows_le_def row_le_def)

lemma rows_le_trans: "rows_le a b \<Longrightarrow> rows_le b c \<Longrightarrow> rows_le a c"
  unfolding rows_le_def by (meson row_le_trans)

lemma rows_le_foldl: "(\<And>s x. x \<in> set xs \<Longrightarrow> rows_le s (f s x)) \<Longrightarrow> rows_le s (foldl f s xs)"
  by (rule foldl_inv) (auto intro: rows_le_trans)

lemma rows_le_put: "row_le (ensureRow rows v) r' \<Longrightarrow> rows_le rows (put_row rows v r')"
  by (auto simp: rows_le_def put_row_def update_conv' ensureRow_def row_le_def)

lemma row_le_adds [simp]:
  "row_le r r" "row_le r (r\<lparr>vr_AccessPorts := vr_AccessPorts r @ ps\<rparr>)"
  "row_le r (r\<lparr>vr_TaggedPorts := vr_TaggedPorts r @ ps\<rparr>)" "row_le r (r\<lparr>vr_FDBPorts := ps\<rparr>)" "row_le r (hint_access p r)"
  by (auto simp: row_le_def hint_access_def Let_def)

lemma rows_le_put_known: "map_of rows v = Some r \<Longrightarrow> row_le r r' \<Longrightarrow> rows_le rows (put_row rows v r')"
  by (rule rows_le_put) (simp add: ensureRow_def)

lemma rows_le_steps:
  "rows_le rows (place_access rows h access role)" "rows_le rows (place_tagged h access role rows v)"
  "rows_le rows (hint_row seen rows p)" "rows_le rows (fdb_row ports rows e)"
  subgoal by (simp add: place_access_def Let_def rows_le_put split: option.split)
  subgoal by (simp add: place_tagged_def Let_def rows_le_put)
  subgoal by (simp add: hint_row_def rows_le_put split: option.split)
  subgoal by (simp add: fdb_row_def Let_def rows_le_put_known split: option.split)
  done

lemma rows_le_block: "rows_le rows (block_rows ports rows kb)"
proof -
  have "rows_le rows (foldl (place_tagged h access role) (place_access rows h access role) vs)" for h access role vs
    by (rule rows_le_trans [OF rows_le_steps(1)]) (rule rows_le_foldl, rule rows_le_steps)
  then show ?thesis by (simp add: block_rows_def case_prod_beta Let_def split: option.split)
qed

definition placed :: "vlan_rows \<Rightarrow> (VLANInventoryRow \<Rightarrow> VLANPortRef list) \<Rightarrow> int \<Rightarrow> PortVLANHint \<Rightarrow> bool" where
  "placed rows sel v h \<longleftrightarrow> (\<exists>r. map_of rows v = Some r \<and> hasPortRef (sel r) (refFromHint h))"

lemma hasPortRef_mono: "hasPortRef ps rf \<Longrightarrow> set ps \<subseteq> set qs \<Longrightarrow> hasPortRef qs rf"
  by (auto simp: hasPortRef_def list_ex_iff Let_def)

lemma placed_mono:
  assumes "rows_le rows rows'"
  shows "placed rows vr_AccessPorts v h \<Longrightarrow> placed rows' vr_AccessPorts v h"
    "placed rows vr_TaggedPorts v h \<Longrightarrow> placed rows' vr_TaggedPorts v h"
  using assms hasPortRef_mono unfolding placed_def rows_le_def row_le_def by (metis (no_types, lifting))+

lemma hasPortRef_role [simp]: "hasPortRef ps (rf\<lparr>pr_Role := x\<rparr>) = hasPortRef ps rf"
  by (simp add: hasPortRef_def)

lemma hasPortRef_self: "0 < pr_IfIndex rf \<Longrightarrow> hasPortRef (ps @ [rf\<lparr>pr_Role := x\<rparr>]) rf"
  by (simp add: hasPortRef_def Let_def)

lemma placed_role [simp]: "placed rows sel v (h\<lparr>ph_Role := x\<rparr>) = placed rows sel v h"
  by (simp add: placed_def refFromHint_def portName_def hasPortRef_def)

lemma placed_access:
  "0 < ph_IfIndex h \<Longrightarrow> role = ''access'' \<or> role = [] \<Longrightarrow> placed (place_access rows h (Some a) role) vr_AccessPorts a h"
  by (auto simp: placed_def place_access_def Let_def put_row_def update_conv' hasPortRef_self)

lemma placed_tagged:
  "0 < ph_IfIndex h \<Longrightarrow> access \<noteq> Some v \<or> role = ''trunk'' \<Longrightarrow>
   placed (place_tagged h access role rows v) vr_AccessPorts v h \<or> placed (place_tagged h access role rows v) vr_TaggedPorts v h"
  by (auto simp: placed_def place_tagged_def Let_def put_row_def update_conv' hasPortRef_self)

lemma rows_le_foldl_from:
  assumes "x \<in> set xs" "\<And>s x. rows_le s (f s x)"
  shows "\<exists>s. rows_le (f s x) (foldl f s0 xs)"
proof -
  from assms(1) obtain ys zs where "xs = ys @ x # zs" by (auto dest: split_list)
  with assms(2) show ?thesis by (auto intro!: exI [of _ "foldl f s0 ys"] rows_le_foldl)
qed

lemma block_placed:
  assumes h0: "block_hint ports (snd kb) = Some h0" "0 < ph_IfIndex h0"
  shows "access_role (snd kb) \<Longrightarrow> block_access (snd kb) = Some v \<Longrightarrow> placed (block_rows ports rows kb) vr_AccessPorts v h0"
    "block_tags (snd kb) v \<Longrightarrow>
       placed (block_rows ports rows kb) vr_AccessPorts v h0 \<or> placed (block_rows ports rows kb) vr_TaggedPorts v h0"
proof -
  define role where "role = PortRoleFromCLIMode (pi_Mode (snd kb))"
  define h where "h = (if role \<noteq> [] then h0\<lparr>ph_Role := role\<rparr> else h0)"
  define access where "access = block_access (snd kb)"
  define vs where "vs = block_tagged role access (snd kb)"
  have eq: "block_rows ports rows kb = foldl (place_tagged h access role) (place_access rows h access role) vs"
    using h0(1) by (simp add: block_rows_def case_prod_beta Let_def flip: h_def role_def access_def vs_def)
  have h: "0 < ph_IfIndex h" "placed rs sel u h = placed rs sel u h0" for rs sel u using h0(2) by (auto simp: h_def)
  show "access_role (snd kb) \<Longrightarrow> block_access (snd kb) = Some v \<Longrightarrow> placed (block_rows ports rows kb) vr_AccessPorts v h0"
    using placed_mono(1) [OF rows_le_foldl [OF rows_le_steps(2)] placed_access [OF h(1)]] h(2)
    by (simp add: eq access_role_def role_def access_def)
  show "block_tags (snd kb) v \<Longrightarrow>
       placed (block_rows ports rows kb) vr_AccessPorts v h0 \<or> placed (block_rows ports rows kb) vr_TaggedPorts v h0"
  proof -
    assume "block_tags (snd kb) v"
    then have v: "v \<in> set vs" "access \<noteq> Some v \<or> role = ''trunk''"
      by (auto simp: block_tags_def vs_def access_def role_def)
    from rows_le_foldl_from [OF v(1), of "place_tagged h access role"] rows_le_steps(2)
    obtain s where "rows_le (place_tagged h access role s v) (block_rows ports rows kb)" unfolding eq by blast
    with placed_tagged [OF h(1) v(2)] h(2) show ?thesis by (metis placed_mono)
  qed
qed

lemma block_le_inventory:
  assumes "kb \<in> set parsed"
  shows "\<exists>rows. rows_le (block_rows ports rows kb) (foldl (fdb_row ports) (config_rows db parsed ports) fdb)"
proof -
  obtain rows where "rows_le (block_rows ports rows kb) (foldl (block_rows ports) (foldl db_row [] db) parsed)"
    using rows_le_foldl_from [OF assms, of "block_rows ports" "foldl db_row [] db"] rows_le_block by blast
  moreover have "rows_le (foldl (block_rows ports) (foldl db_row [] db) parsed) (config_rows db parsed ports)"
    unfolding config_rows_def by (rule rows_le_foldl) (rule rows_le_steps)
  moreover have "rows_le (config_rows db parsed ports) (foldl (fdb_row ports) (config_rows db parsed ports) fdb)"
    by (rule rows_le_foldl) (rule rows_le_steps)
  ultimately show ?thesis by (metis rows_le_trans)
qed

section \<open>Overlays keep the rows in order\<close>

definition ids_distinct :: "VLANInventoryRow list \<Rightarrow> bool" where
  "ids_distinct rows \<longleftrightarrow> distinct (map vr_VLANID rows)"

lemma ids_distinct_map: "(\<And>r. vr_VLANID (f r) = vr_VLANID r) \<Longrightarrow> ids_distinct (map f rows) = ids_distinct rows"
  by (simp add: ids_distinct_def comp_def)

lemma ids_distinct_steps:
  assumes "ids_distinct rows"
  shows "ids_distinct (stripPortVLAN rows i a t)" "ids_distinct (stripPortFromVLAN rows v i a t)"
    "ids_distinct (ensureVLANRow rows v)" "ids_distinct (addAccessPort rows v rf)" "ids_distinct (addTaggedPort rf rows v)"
proof -
  show e: "ids_distinct (ensureVLANRow rows v)" for v
    using assms by (auto simp: ids_distinct_def ensureVLANRow_def list_ex_iff empty_row_def)
  show "ids_distinct (stripPortVLAN rows i a t)" "ids_distinct (stripPortFromVLAN rows v i a t)"
    using assms by (auto simp: stripPortVLAN_def stripPortFromVLAN_def ids_distinct_map)
  show "ids_distinct (addAccessPort rows v rf)" "ids_distinct (addTaggedPort rf rows v)"
    using assms e by (auto simp: addAccessPort_def addTaggedPort_def ids_distinct_map)
qed

lemma ids_distinct_folds:
  assumes "ids_distinct rows"
  shows "ids_distinct (foldl (addTaggedPort rf) rows vs)"
    "ids_distinct (foldl (\<lambda>rows v. stripPortFromVLAN rows v i a t) rows vs)"
  using assms by (auto intro: foldl_inv ids_distinct_steps)

lemma ids_distinct_trunk: "ids_distinct rows \<Longrightarrow> ids_distinct (trunk_overlay rows i rf ch)"
  unfolding trunk_overlay_def Let_def by (simp add: ids_distinct_folds ids_distinct_steps)

lemma ids_distinct_sort: "ids_distinct rows \<Longrightarrow> sorted_wrt (<) (map vr_VLANID (sort_key vr_VLANID rows))"
proof -
  assume "ids_distinct rows"
  moreover have "mset (map vr_VLANID (sort_key vr_VLANID rows)) = mset (map vr_VLANID rows)" by (simp only: mset_map mset_sort)
  ultimately have "distinct (map vr_VLANID (sort_key vr_VLANID rows))" unfolding ids_distinct_def by (metis mset_eq_imp_distinct_iff)
  then show ?thesis by (simp add: strict_sorted_iff)
qed

lemma overlay_sorted:
  assumes "0 < i" "ids_distinct rows"
  shows "sorted_wrt (<) (map vr_VLANID (OverlayPortVLAN rows i name ch))"
  using assms unfolding OverlayPortVLAN_def Let_def
  by (simp add: ids_distinct_sort ids_distinct_steps ids_distinct_trunk)

lemma on_port_iff:
  "ids_distinct rows \<Longrightarrow> InventoryVLANOnPort rows v i \<longleftrightarrow> 0 < i \<and> (v, i) \<in> access_rel rows \<union> tagged_rel rows"
proof -
  have "(v, i) \<in> access_rel rows \<union> tagged_rel rows \<Longrightarrow> v \<in> vr_VLANID ` set rows" for rows
    by (auto simp: access_rel_def tagged_rel_def)
  then have "ids_distinct rows \<Longrightarrow> inventory_on_port rows v i \<longleftrightarrow> (v, i) \<in> access_rel rows \<union> tagged_rel rows"
    by (induction rows) (auto simp: rel_Cons ids_distinct_def)
  then show "ids_distinct rows \<Longrightarrow> InventoryVLANOnPort rows v i \<longleftrightarrow> 0 < i \<and> (v, i) \<in> access_rel rows \<union> tagged_rel rows"
    by (simp add: InventoryVLANOnPort_def not_le)
qed

lemma sorted_ids_distinct: "sorted_wrt (<) (map vr_VLANID rows) \<Longrightarrow> ids_distinct rows"
  by (simp add: ids_distinct_def strict_sorted_iff)

definition name_row :: "VLANDatabaseChange \<Rightarrow> VLANInventoryRow \<Rightarrow> VLANInventoryRow" where
  "name_row ch r = (if vr_VLANID r \<noteq> dc_VLANID ch then r
     else (let r = r\<lparr>vr_InDatabase := True\<rparr>; name = TrimSpace (dc_Name ch)
           in if name \<noteq> [] \<or> dc_Op ch = VLANDBOpSetName then r\<lparr>vr_Name := name\<rparr> else r))"

lemma overlay_db_named:
  "dc_Op ch = VLANDBOpCreate \<or> dc_Op ch = VLANDBOpSetName \<Longrightarrow>
   OverlayVLANDatabase rows ch = sort_key vr_VLANID (map (name_row ch) (ensureVLANRow rows (dc_VLANID ch)))"
  by (auto simp: OverlayVLANDatabase_def Let_def name_row_def cong: map_cong)

lemma name_row_simps [simp]:
  "vr_VLANID (name_row ch r) = vr_VLANID r" "vr_AccessPorts (name_row ch r) = vr_AccessPorts r"
  "vr_TaggedPorts (name_row ch r) = vr_TaggedPorts r"
  by (auto simp: name_row_def Let_def)

lemma rel_map_same:
  assumes "\<And>r. vr_VLANID (f r) = vr_VLANID r" "\<And>r. vr_AccessPorts (f r) = vr_AccessPorts r" "\<And>r. vr_TaggedPorts (f r) = vr_TaggedPorts r"
  shows "access_rel (map f rows) = access_rel rows" "tagged_rel (map f rows) = tagged_rel rows"
  using assms by (auto simp: access_rel_def tagged_rel_def)

lemma overlay_db_create:
  assumes "dc_Op ch = VLANDBOpCreate \<or> dc_Op ch = VLANDBOpSetName"
  shows "members (OverlayVLANDatabase rows ch) = members rows \<and>
      (\<exists>r\<in>set (OverlayVLANDatabase rows ch). vr_VLANID r = dc_VLANID ch) \<and>
      (\<forall>r\<in>set (OverlayVLANDatabase rows ch). vr_VLANID r = dc_VLANID ch \<longrightarrow>
         vr_InDatabase r \<and> (TrimSpace (dc_Name ch) \<noteq> [] \<longrightarrow> vr_Name r = TrimSpace (dc_Name ch))) \<and>
      {r \<in> set (OverlayVLANDatabase rows ch). vr_VLANID r \<noteq> dc_VLANID ch} = {r \<in> set rows. vr_VLANID r \<noteq> dc_VLANID ch}"
proof (intro conjI)
  show "members (OverlayVLANDatabase rows ch) = members rows"
    by (simp add: overlay_db_named [OF assms] members_def rel_map_same)
  show "\<exists>r\<in>set (OverlayVLANDatabase rows ch). vr_VLANID r = dc_VLANID ch"
    using ensureVLANRow_has [of rows "dc_VLANID ch"] by (simp add: overlay_db_named [OF assms])
  show "\<forall>r\<in>set (OverlayVLANDatabase rows ch). vr_VLANID r = dc_VLANID ch \<longrightarrow>
         vr_InDatabase r \<and> (TrimSpace (dc_Name ch) \<noteq> [] \<longrightarrow> vr_Name r = TrimSpace (dc_Name ch))"
    by (auto simp: overlay_db_named [OF assms] name_row_def Let_def split: if_splits)
  have "vr_VLANID r \<noteq> dc_VLANID ch \<Longrightarrow> r \<in> set (ensureVLANRow rows (dc_VLANID ch)) \<longleftrightarrow> r \<in> set rows" for r
    by (auto simp: ensureVLANRow_def empty_row_def)
  then show "{r \<in> set (OverlayVLANDatabase rows ch). vr_VLANID r \<noteq> dc_VLANID ch} = {r \<in> set rows. vr_VLANID r \<noteq> dc_VLANID ch}"
    by (auto simp: overlay_db_named [OF assms] image_iff name_row_def Let_def split: if_splits)
qed

lemma overlay_db_delete:
  "dc_Op ch = VLANDBOpDelete \<Longrightarrow> set (OverlayVLANDatabase rows ch) = {r \<in> set rows. vr_VLANID r \<notin> set (DeleteIDs ch)}"
  by (simp add: OverlayVLANDatabase_def Let_def)

lemma overlay_db_sorted: "ids_distinct rows \<Longrightarrow> sorted_wrt (<) (map vr_VLANID (OverlayVLANDatabase rows ch))"
proof -
  assume d: "ids_distinct rows"
  then have "ids_distinct (filter P rows)" for P by (simp add: ids_distinct_def distinct_map_filter)
  moreover have "ids_distinct (map (name_row ch) (ensureVLANRow rows (dc_VLANID ch)))"
    using d by (simp add: ids_distinct_map ids_distinct_steps)
  ultimately show ?thesis
    using d overlay_db_named [of ch rows]
    by (cases "dc_Op ch = VLANDBOpCreate \<or> dc_Op ch = VLANDBOpSetName")
      (auto simp: ids_distinct_sort OverlayVLANDatabase_def Let_def)
qed

section \<open>Properties\<close>

text \<open>
  For every configuration, port list and forwarding table, and in whatever order the parsed maps are
  enumerated, the inventory lists each VLAN once in increasing order, every identifier is valid, no
  known port occurs twice among the access ports or among the tagged ports of a VLAN, and a learned
  port is a known port that is neither an access nor a tagged port of that VLAN.
\<close>
theorem BuildVLANInventory_wf:
  assumes "mset db = mset (ParseVLANDatabase config)" "mset parsed = mset (ParseRunningConfigPortModes config)"
  shows "sorted_wrt (<) (map vr_VLANID (build_inventory db parsed ports fdb)) \<and>
    (\<forall>r\<in>set (build_inventory db parsed ports fdb). row_ok (vr_VLANID r) r)"
proof -
  have "\<forall>e\<in>set db. validVLANID (fst e)"
    using VLANDatabase_ok [of config] mset_eq_setD [OF assms(1)] by (auto simp: names_ok_def)
  moreover have "\<forall>kb\<in>set parsed. iface_ok (snd kb)"
    using port_modes_ok [of config] mset_eq_setD [OF assms(2)] by (auto simp: modes_inv_def entry_ok_def)
  ultimately have ok: "rows_ok row_ok (foldl (fdb_row ports) (config_rows db parsed ports) fdb)" by (rule inventory_rows_ok)
  then show ?thesis
    using sorted_rows by (auto simp: build_inventory_def rows_ok_def row_ok_def)
qed

theorem BuildVLANInventory_wf_witness:
  "sorted_wrt (<) (map vr_VLANID (BuildVLANInventory example_config
     [\<lparr>ph_IfIndex = 1, ph_IfName = ''0/1'', ph_Role = [], ph_AccessVLAN = Some 7, ph_FDBVLAN = None\<rparr>] []))"
  using BuildVLANInventory_wf [of "ParseVLANDatabase example_config" example_config
      "ParseRunningConfigPortModes example_config"] by (simp add: BuildVLANInventory_def)

text \<open>
  C24. The inventory invents no membership: a known port is an access port of a VLAN only if its block in
  the configuration makes it one, or if it has no block and the stored access VLAN says so; it is a
  tagged port only if its block tags the VLAN. What the forwarding table learned plays no part.
\<close>
theorem BuildVLANInventory_sound:
  assumes "r \<in> set (build_inventory db parsed ports fdb)"
  shows "(\<forall>p\<in>set (vr_AccessPorts r). 0 < pr_IfIndex p \<longrightarrow> cfg_access parsed ports (vr_VLANID r) (pr_IfIndex p)) \<and>
    (\<forall>p\<in>set (vr_TaggedPorts r). 0 < pr_IfIndex p \<longrightarrow> cfg_tagged parsed ports (vr_VLANID r) (pr_IfIndex p)) \<and>
    map no_fdb (build_inventory db parsed ports fdb) = map no_fdb (build_inventory db parsed ports [])"
proof -
  have "(\<forall>p\<in>set (vr_AccessPorts r). 0 < pr_IfIndex p \<longrightarrow> cfg_access parsed ports (vr_VLANID r) (pr_IfIndex p)) \<and>
    (\<forall>p\<in>set (vr_TaggedPorts r). 0 < pr_IfIndex p \<longrightarrow> cfg_tagged parsed ports (vr_VLANID r) (pr_IfIndex p))"
    using assms inventory_sound [of parsed ports db fdb] by (fastforce simp: build_inventory_def rows_ok_def sound_row_def)
  with inventory_no_fdb show ?thesis by blast
qed

definition example_port :: PortVLANHint where
  "example_port = \<lparr>ph_IfIndex = 1, ph_IfName = ''0/1'', ph_Role = [], ph_AccessVLAN = Some 7, ph_FDBVLAN = None\<rparr>"

definition example_row :: VLANInventoryRow where
  "example_row = (empty_row 20)\<lparr>vr_AccessPorts := [\<lparr>pr_IfIndex = 1, pr_IfName = ''0/1'', pr_Role = ''access''\<rparr>]\<rparr>"

lemma example_inventory: "build_inventory [] (ParseRunningConfigPortModes example_config) [example_port] [] = [example_row]"
  unfolding example_modes by code_simp

theorem BuildVLANInventory_sound_witness:
  "cfg_access (ParseRunningConfigPortModes example_config) [example_port] 20 1"
  using BuildVLANInventory_sound [of example_row "[]" "ParseRunningConfigPortModes example_config" "[example_port]" "[]"]
  by (simp add: example_inventory) (simp add: example_row_def empty_row_def)

text \<open>
  C25. The inventory loses no membership: for every block of a known port, the row of its access VLAN
  holds the port among the access ports, and the row of each VLAN it tags holds it among the access or
  tagged ports. A port counts as held when an entry has its index, or a name with the same key.
\<close>
theorem BuildVLANInventory_complete:
  assumes "(k, b) \<in> set parsed" "block_hint ports b = Some h" "0 < ph_IfIndex h"
  shows "(access_role b \<and> block_access b = Some v \<longrightarrow>
         (\<exists>r\<in>set (build_inventory db parsed ports fdb). vr_VLANID r = v \<and> hasPortRef (vr_AccessPorts r) (refFromHint h))) \<and>
      (block_tags b v \<longrightarrow>
         (\<exists>r\<in>set (build_inventory db parsed ports fdb). vr_VLANID r = v \<and>
            (hasPortRef (vr_AccessPorts r) (refFromHint h) \<or> hasPortRef (vr_TaggedPorts r) (refFromHint h))))"
proof -
  let ?rows = "foldl (fdb_row ports) (config_rows db parsed ports) fdb"
  have found: "\<exists>r\<in>set (build_inventory db parsed ports fdb). vr_VLANID r = v \<and> hasPortRef (sel r) (refFromHint h)"
    if "placed ?rows sel v h" for sel
    using that inventory_sound [of parsed ports db fdb]
    by (force simp: placed_def build_inventory_def rows_ok_def sound_row_def dest!: map_of_SomeD)
  from block_le_inventory [OF assms(1), of ports db fdb] obtain rows
    where le: "rows_le (block_rows ports rows (k, b)) ?rows" by blast
  have "access_role b \<Longrightarrow> block_access b = Some v \<Longrightarrow> placed ?rows vr_AccessPorts v h"
    using placed_mono(1) [OF le] block_placed(1) [of ports "(k, b)" h v rows] assms(2,3) by simp
  moreover have "block_tags b v \<Longrightarrow> placed ?rows vr_AccessPorts v h \<or> placed ?rows vr_TaggedPorts v h"
    using placed_mono [OF le] block_placed(2) [of ports "(k, b)" h v rows] assms(2,3) by auto
  ultimately show ?thesis using found [of vr_AccessPorts] found [of vr_TaggedPorts] by blast
qed

definition example_block :: ParsedInterfaceCLI where
  "example_block = empty_iface\<lparr>pi_IfaceName := ''0/2'', pi_Mode := ''trunk'', pi_TrunkAllowed := [20, 30]\<rparr>"

theorem BuildVLANInventory_complete_witness:
  "\<exists>r\<in>set (build_inventory [] [(''0/2'', example_block)] [example_port\<lparr>ph_IfIndex := 2, ph_IfName := ''gi0/2''\<rparr>] []).
     vr_VLANID r = 30 \<and>
     (hasPortRef (vr_AccessPorts r) (refFromHint (example_port\<lparr>ph_IfIndex := 2, ph_IfName := ''gi0/2''\<rparr>)) \<or>
      hasPortRef (vr_TaggedPorts r) (refFromHint (example_port\<lparr>ph_IfIndex := 2, ph_IfName := ''gi0/2''\<rparr>)))"
proof -
  let ?p = "example_port\<lparr>ph_IfIndex := 2, ph_IfName := ''gi0/2''\<rparr>"
  have "block_hint [?p] example_block = Some ?p" by code_simp
  moreover have "block_tags example_block 30" by code_simp
  moreover have "0 < ph_IfIndex ?p" by simp
  ultimately show ?thesis
    using BuildVLANInventory_complete [of "''0/2''" example_block "[(''0/2'', example_block)]" "[?p]" ?p 30 "[]" "[]"] by simp
qed

text \<open>
  Two interfaces whose names have the same key are one port to the inventory: the second one, here a
  port-channel with the number of a physical port, is dropped from the VLAN.
\<close>
lemma inventory_key_collision:
  "map pr_IfIndex (vr_AccessPorts (hd (build_inventory []
      [(''a'', empty_iface\<lparr>pi_IfaceName := ''gi0/1'', pi_PVID := Some 20\<rparr>), (''b'', empty_iface\<lparr>pi_IfaceName := ''po0/1'', pi_PVID := Some 20\<rparr>)]
      [] []))) = [0]"
  by code_simp

text \<open>
  C6. Overlaying a validated port change refines its contract on the membership relations: setting an
  access VLAN leaves the port untagged in exactly that VLAN and tagged in none, a removal takes it out
  of one VLAN, trunk changes add, remove or replace the tagged VLANs and never the native one, and no
  other port is touched. The rows stay strictly increasing.
\<close>
theorem OverlayPortVLAN_refines:
  assumes "0 < i" "\<forall>r\<in>set rows. 1 \<le> vr_VLANID r" "PortVLANChange_Validate ch = None" "ids_distinct rows"
  shows "members (OverlayPortVLAN rows i name ch) = overlay_spec ch i (set (inventoryDatabaseIDs rows)) (members rows) \<and>
    sorted_wrt (<) (map vr_VLANID (OverlayPortVLAN rows i name ch))"
  using overlay_refines [OF assms(1-3)] overlay_sorted [OF assms(1,4)] by blast

theorem OverlayPortVLAN_refines_witness:
  "members (OverlayPortVLAN [example_row] 1 ''0/1''
      \<lparr>pc_Op = VLANOpTrunkAllow, pc_VLANID = 5, pc_AllowedMode = ''set'', pc_AllowedList = ''5,7'', pc_PrevAccessVLAN = None, pc_PortMode = []\<rparr>)
   = ({}, {(7, 1)})"
proof -
  let ?ch = "\<lparr>pc_Op = VLANOpTrunkAllow, pc_VLANID = 5, pc_AllowedMode = ''set'', pc_AllowedList = ''5,7'', pc_PrevAccessVLAN = None, pc_PortMode = []\<rparr>"
  have "PortVLANChange_Validate ?ch = None" by code_simp
  moreover have "ids_distinct [example_row]" "1 \<le> vr_VLANID example_row" by (simp_all add: ids_distinct_def example_row_def empty_row_def)
  moreover have "members [example_row] = ({(20, 1)}, {})"
    by (auto simp: members_def access_rel_def tagged_rel_def example_row_def empty_row_def)
  moreover have "ParseVLANIDList (NormalizeVLANList ''5,7'') = [5, 7]" "ToLower (TrimSpace ''set'') = ''set''" by code_simp+
  ultimately show ?thesis
    using OverlayPortVLAN_refines [of 1 "[example_row]" ?ch "''0/1''"]
    by (simp add: overlay_spec_def others_def)
qed

text \<open>
  After an access VLAN was set, the query whether a VLAN is configured on the port is true for
  exactly that VLAN, and for every other port it answers as before.
\<close>
theorem Overlay_set_access_query:
  assumes "0 < i" "\<forall>r\<in>set rows. 1 \<le> vr_VLANID r" "ids_distinct rows"
    "pc_Op ch = VLANOpSetAccess" "PortVLANChange_Validate ch = None"
  shows "InventoryVLANOnPort (OverlayPortVLAN rows i name ch) v j \<longleftrightarrow>
    (if j = i then v = pc_VLANID ch else InventoryVLANOnPort rows v j)"
proof -
  have "members (OverlayPortVLAN rows i name ch) = overlay_spec ch i (set (inventoryDatabaseIDs rows)) (members rows)"
    using assms by (intro overlay_refines)
  moreover have "ids_distinct (OverlayPortVLAN rows i name ch)"
    using overlay_sorted [OF assms(1,3)] by (rule sorted_ids_distinct)
  ultimately show ?thesis
    using assms on_port_iff [OF assms(3)] on_port_iff [of "OverlayPortVLAN rows i name ch"]
    by (auto simp: members_def overlay_spec_def others_def)
qed

theorem Overlay_set_access_query_witness:
  "\<not> InventoryVLANOnPort (OverlayPortVLAN [example_row] 1 ''0/1''
      \<lparr>pc_Op = VLANOpSetAccess, pc_VLANID = 30, pc_AllowedMode = [], pc_AllowedList = [], pc_PrevAccessVLAN = None, pc_PortMode = []\<rparr>) 20 1"
proof -
  let ?ch = "\<lparr>pc_Op = VLANOpSetAccess, pc_VLANID = 30, pc_AllowedMode = [], pc_AllowedList = [], pc_PrevAccessVLAN = None, pc_PortMode = []\<rparr>"
  have "PortVLANChange_Validate ?ch = None" by code_simp
  moreover have "ids_distinct [example_row]" "1 \<le> vr_VLANID example_row" by (simp_all add: ids_distinct_def example_row_def empty_row_def)
  ultimately show ?thesis
    using Overlay_set_access_query [of 1 "[example_row]" ?ch "''0/1''" 20 1] by simp
qed

text \<open>
  Overlaying a database change does what the change says: a deletion keeps exactly the rows of the
  VLANs that are not deleted; a creation or renaming leaves the VLAN in the database, with the given
  name where one is set, and every other row as it was; memberships survive a creation.
\<close>
theorem OverlayVLANDatabase_correct:
  "(dc_Op ch = VLANDBOpDelete \<longrightarrow>
      set (OverlayVLANDatabase rows ch) = {r \<in> set rows. vr_VLANID r \<notin> set (DeleteIDs ch)}) \<and>
   (dc_Op ch = VLANDBOpCreate \<or> dc_Op ch = VLANDBOpSetName \<longrightarrow>
      members (OverlayVLANDatabase rows ch) = members rows \<and>
      (\<exists>r\<in>set (OverlayVLANDatabase rows ch). vr_VLANID r = dc_VLANID ch) \<and>
      (\<forall>r\<in>set (OverlayVLANDatabase rows ch). vr_VLANID r = dc_VLANID ch \<longrightarrow>
         vr_InDatabase r \<and> (TrimSpace (dc_Name ch) \<noteq> [] \<longrightarrow> vr_Name r = TrimSpace (dc_Name ch))) \<and>
      {r \<in> set (OverlayVLANDatabase rows ch). vr_VLANID r \<noteq> dc_VLANID ch} = {r \<in> set rows. vr_VLANID r \<noteq> dc_VLANID ch}) \<and>
   (ids_distinct rows \<longrightarrow> sorted_wrt (<) (map vr_VLANID (OverlayVLANDatabase rows ch)))"
  using overlay_db_create [of ch rows] overlay_db_sorted [of rows ch] overlay_db_delete [of ch rows] by blast

theorem OverlayVLANDatabase_correct_witness:
  "OverlayVLANDatabase [example_row] \<lparr>dc_Op = VLANDBOpDelete, dc_VLANID = 20, dc_VLANIDs = [], dc_Name = []\<rparr> = []"
proof -
  have "DeleteIDs \<lparr>dc_Op = VLANDBOpDelete, dc_VLANID = 20, dc_VLANIDs = [], dc_Name = []\<rparr> = [20]" by code_simp
  then have "set (OverlayVLANDatabase [example_row] \<lparr>dc_Op = VLANDBOpDelete, dc_VLANID = 20, dc_VLANIDs = [], dc_Name = []\<rparr>) = {}"
    using OverlayVLANDatabase_correct [of "\<lparr>dc_Op = VLANDBOpDelete, dc_VLANID = 20, dc_VLANIDs = [], dc_Name = []\<rparr>" "[example_row]"]
    by (simp add: example_row_def empty_row_def)
  then show ?thesis by simp
qed

text \<open>
  A trunk whose allowed list was emptied with \<open>allowed vlan none\<close> is read as a trunk without a list, and
  such a trunk counts as carrying every VLAN.
\<close>
lemma allowed_none_carries_all:
  "VLANCarriedOnPort [] 777 1 ''0/1'' (ParseRunningConfigPortModes
     (Join [''interface 0/1'', ''switchport mode trunk'', ''switchport trunk allowed vlan none''] [CHR 0x0A]))"
  by code_simp

end
