(* ===== verification/Net_Addr.thy ===== *)
theory Net_Addr
  imports Go_Prelude "HOL-Library.Word"
begin

text \<open>
  IP addresses as the standard library parses and classifies them (\<open>net.ParseIP\<close>, \<open>net.IP\<close>,
  \<open>net.SplitHostPort\<close>), and the outbound policies built on them (\<open>internal/netutil/outbound.go\<close>), which
  keep the server from connecting to loopback, link-local and, for webhooks, private addresses.
\<close>

unbundle bit_operations_syntax

type_synonym byte = "8 word"
type_synonym ip = "byte list"

section \<open>Parsing\<close>

text \<open>The fields of a dotted address: the loop state is the value and digit count of the current field.\<close>
fun ipv4_fields :: "string \<Rightarrow> nat \<Rightarrow> nat \<Rightarrow> byte list \<Rightarrow> byte list option" where
  "ipv4_fields [] val digLen fs =
     (if length fs = 3 \<and> digLen > 0 then Some (fs @ [of_nat val]) else None)"
| "ipv4_fields (c # s) val digLen fs =
     (if is_digit c then
        (if digLen = 1 \<and> val = 0 then None
         else let val' = val * 10 + nat (digit_val c) in
           if val' > 255 then None else ipv4_fields s val' (digLen + 1) fs)
      else if c = CHR ''.'' then
        (if digLen = 0 \<or> s = [] \<or> length fs = 3 then None
         else ipv4_fields s 0 0 (fs @ [of_nat val]))
      else None)"

definition parseIPv4 :: "string \<Rightarrow> byte list option" where
  "parseIPv4 s = ipv4_fields s 0 0 []"

definition hex_val :: "char \<Rightarrow> nat option" where
  "hex_val c = (let n = (of_char c :: nat) in
     if 48 \<le> n \<and> n \<le> 57 then Some (n - 48)
     else if 97 \<le> n \<and> n \<le> 102 then Some (n - 87)
     else if 65 \<le> n \<and> n \<le> 70 then Some (n - 55) else None)"

text \<open>
  The leading hexadecimal digits of a group, at most four: the value, the number of digits and the
  rest, or \<open>None\<close> for a group that is too long.
\<close>
fun hex_group :: "string \<Rightarrow> nat \<Rightarrow> nat \<Rightarrow> (nat \<times> nat \<times> string) option" where
  "hex_group [] acc off = Some (acc, off, [])"
| "hex_group (c # s) acc off =
     (case hex_val c of
        None \<Rightarrow> Some (acc, off, c # s)
      | Some d \<Rightarrow> if off > 3 then None else hex_group s (acc * 16 + d) (off + 1))"

text \<open>
  The group loop of the IPv6 parser: \<open>s\<close> is the rest of the text, \<open>bs\<close> the bytes so far and \<open>ell\<close> the
  position of the ellipsis; the result is the rest, the bytes and the ellipsis when the loop stops.
\<close>
fun ipv6_loop :: "nat \<Rightarrow> string \<Rightarrow> byte list \<Rightarrow> nat option \<Rightarrow> (string \<times> byte list \<times> nat option) option" where
  "ipv6_loop 0 s bs ell = Some (s, bs, ell)"
| "ipv6_loop (Suc k) s bs ell =
     (if length bs \<ge> 16 then Some (s, bs, ell)
      else case hex_group s 0 0 of
        None \<Rightarrow> None
      | Some (acc, off, rest) \<Rightarrow>
          if off = 0 then None
          else if rest \<noteq> [] \<and> hd rest = CHR ''.'' then
            (if ell = None \<and> length bs \<noteq> 12 then None
             else if length bs + 4 > 16 then None
             else case parseIPv4 s of None \<Rightarrow> None | Some v4 \<Rightarrow> Some ([], bs @ v4, ell))
          else
            (let bs' = bs @ [of_nat (acc div 256), of_nat acc] in
             case rest of
               [] \<Rightarrow> Some ([], bs', ell)
             | c # rest1 \<Rightarrow>
                 if c \<noteq> CHR '':'' then None
                 else case rest1 of
                   [] \<Rightarrow> None
                 | c1 # rest2 \<Rightarrow>
                     if c1 = CHR '':'' then
                       (if ell \<noteq> None then None
                        else if rest2 = [] then Some ([], bs', Some (length bs'))
                        else ipv6_loop k rest2 bs' (Some (length bs')))
                     else ipv6_loop k rest1 bs' ell))"

definition parseIPv6 :: "string \<Rightarrow> byte list option" where
  "parseIPv6 s =
     (let lead = HasPrefix s ''::''; s1 = (if lead then drop 2 s else s) in
      if lead \<and> s1 = [] then Some (replicate 16 0)
      else case ipv6_loop 9 s1 [] (if lead then Some 0 else None) of
        None \<Rightarrow> None
      | Some (rest, bs, ell) \<Rightarrow>
          if rest \<noteq> [] then None
          else if length bs < 16 then
            (case ell of
               None \<Rightarrow> None
             | Some e \<Rightarrow> Some (take e bs @ replicate (16 - length bs) 0 @ drop e bs))
          else if ell \<noteq> None then None else Some bs)"

definition v4_prefix :: "byte list" where
  "v4_prefix = replicate 10 0 @ [255, 255]"

text \<open>The first of the characters \<open>.\<close>, \<open>:\<close> and \<open>%\<close> decides; an address with a zone is not an IP.\<close>
fun addr_kind :: "string \<Rightarrow> char option" where
  "addr_kind [] = None"
| "addr_kind (c # s) = (if c = CHR ''.'' \<or> c = CHR '':'' \<or> c = CHR ''%'' then Some c else addr_kind s)"

definition ParseIP :: "string \<Rightarrow> ip option" where
  "ParseIP s = (case addr_kind s of
       None \<Rightarrow> None
     | Some c \<Rightarrow>
         if c = CHR ''.'' then map_option (\<lambda>b. v4_prefix @ b) (parseIPv4 s)
         else if c = CHR '':'' \<and> CHR ''%'' \<notin> set s then parseIPv6 s
         else None)"

section \<open>Classification\<close>

definition To4 :: "ip \<Rightarrow> byte list option" where
  "To4 a = (if length a = 4 then Some a
     else if length a = 16 \<and> take 12 a = v4_prefix then Some (drop 12 a) else None)"

definition loopback6 :: ip where
  "loopback6 = replicate 15 0 @ [1]"

definition IsUnspecified :: "ip \<Rightarrow> bool" where
  "IsUnspecified a \<longleftrightarrow> To4 a = Some [0, 0, 0, 0] \<or> a = replicate 16 0"

definition IsLoopback :: "ip \<Rightarrow> bool" where
  "IsLoopback a = (case To4 a of Some v \<Rightarrow> v ! 0 = 127 | None \<Rightarrow> a = loopback6)"

definition IsPrivate :: "ip \<Rightarrow> bool" where
  "IsPrivate a = (case To4 a of
       Some v \<Rightarrow> v ! 0 = 10 \<or> (v ! 0 = 172 \<and> v ! 1 AND 0xF0 = 16) \<or> (v ! 0 = 192 \<and> v ! 1 = 168)
     | None \<Rightarrow> length a = 16 \<and> a ! 0 AND 0xFE = 0xFC)"

definition IsMulticast :: "ip \<Rightarrow> bool" where
  "IsMulticast a = (case To4 a of
       Some v \<Rightarrow> v ! 0 AND 0xF0 = 0xE0
     | None \<Rightarrow> length a = 16 \<and> a ! 0 = 0xFF)"

definition IsLinkLocalMulticast :: "ip \<Rightarrow> bool" where
  "IsLinkLocalMulticast a = (case To4 a of
       Some v \<Rightarrow> v ! 0 = 224 \<and> v ! 1 = 0 \<and> v ! 2 = 0
     | None \<Rightarrow> length a = 16 \<and> a ! 0 = 0xFF \<and> a ! 1 AND 0x0F = 0x02)"

definition IsLinkLocalUnicast :: "ip \<Rightarrow> bool" where
  "IsLinkLocalUnicast a = (case To4 a of
       Some v \<Rightarrow> v ! 0 = 169 \<and> v ! 1 = 254
     | None \<Rightarrow> length a = 16 \<and> a ! 0 = 0xFE \<and> a ! 1 AND 0xC0 = 0x80)"

section \<open>Policies\<close>

record OutboundPolicy =
  RequireHTTPS :: bool
  AllowPrivate :: bool
  AllowLoopback :: bool

definition WebhookPolicy :: OutboundPolicy where
  "WebhookPolicy = \<lparr>RequireHTTPS = True, AllowPrivate = False, AllowLoopback = False\<rparr>"

definition UISPPolicy :: OutboundPolicy where
  "UISPPolicy = \<lparr>RequireHTTPS = False, AllowPrivate = True, AllowLoopback = False\<rparr>"

definition ProbeHostPolicy :: OutboundPolicy where
  "ProbeHostPolicy = \<lparr>RequireHTTPS = False, AllowPrivate = True, AllowLoopback = False\<rparr>"

datatype outbound_error = EmptyURL | BadURL | OnlyHTTPS | OnlyHTTP | EmptyHost | LoopbackHost | DNSError | NoAddresses
  | EmptyIP | UnspecifiedIP | LoopbackIP | LinkLocalIP | MulticastIP | PrivateIP
  | BadHostPort | DialFailed | NoAllowedAddresses | TooManyRedirects

text \<open>\<open>None\<close> is the error \<open>nil\<close>; the empty list is the address \<open>nil\<close>.\<close>
definition validateIP :: "ip \<Rightarrow> OutboundPolicy \<Rightarrow> outbound_error option" where
  "validateIP a p =
     (if a = [] then Some EmptyIP
      else if IsUnspecified a then Some UnspecifiedIP
      else if IsLoopback a \<and> \<not> AllowLoopback p then Some LoopbackIP
      else if IsLinkLocalUnicast a \<or> IsLinkLocalMulticast a then Some LinkLocalIP
      else if IsMulticast a then Some MulticastIP
      else if \<not> AllowPrivate p \<and> IsPrivate a then Some PrivateIP
      else None)"

fun validate_all :: "ip list \<Rightarrow> OutboundPolicy \<Rightarrow> outbound_error option" where
  "validate_all [] p = None"
| "validate_all (a # as) p = (case validateIP a p of Some e \<Rightarrow> Some e | None \<Rightarrow> validate_all as p)"

text \<open>\<open>LookupIP\<close> is the resolver, \<open>None\<close> its error.\<close>
definition validateHost :: "(string \<Rightarrow> ip list option) \<Rightarrow> string \<Rightarrow> OutboundPolicy \<Rightarrow> outbound_error option" where
  "validateHost LookupIP host p = (case ParseIP host of
       Some a \<Rightarrow> validateIP a p
     | None \<Rightarrow> (case LookupIP host of
           None \<Rightarrow> Some DNSError
         | Some addrs \<Rightarrow> if length addrs = 0 then Some NoAddresses else validate_all addrs p))"

text \<open>What the code reads of a parsed URL; the parser is an argument, \<open>None\<close> its error.\<close>
record URL =
  u_Scheme :: string
  u_Host :: string
  u_Hostname :: string

definition ValidateOutboundURL :: "(string \<Rightarrow> URL option) \<Rightarrow> (string \<Rightarrow> ip list option) \<Rightarrow> string \<Rightarrow> OutboundPolicy
    \<Rightarrow> outbound_error option" where
  "ValidateOutboundURL url_Parse LookupIP raw0 p =
     (let raw = TrimSpace raw0 in
      if raw = [] then Some EmptyURL
      else case url_Parse raw of
        None \<Rightarrow> Some BadURL
      | Some u \<Rightarrow>
          if u_Scheme u = [] \<or> u_Host u = [] then Some BadURL
          else let scheme = ToLower (u_Scheme u) in
            if RequireHTTPS p \<and> scheme \<noteq> ''https'' then Some OnlyHTTPS
            else if \<not> RequireHTTPS p \<and> scheme \<noteq> ''https'' \<and> scheme \<noteq> ''http'' then Some OnlyHTTP
            else let host = u_Hostname u in
              if host = [] then Some EmptyHost else validateHost LookupIP host p)"

text \<open>\<open>net.SplitHostPort\<close>: the last colon separates, brackets quote an address with colons.\<close>
definition LastIndexByte :: "string \<Rightarrow> char \<Rightarrow> nat option" where
  "LastIndexByte s c = map_option (\<lambda>i. length s - 1 - i) (IndexByte (rev s) c)"

definition SplitHostPort :: "string \<Rightarrow> (string \<times> string) option" where
  "SplitHostPort hp = (case LastIndexByte hp CHR '':'' of
       None \<Rightarrow> None
     | Some i \<Rightarrow>
         if hd hp = CHR ''['' then
           (case IndexByte hp CHR '']'' of
              None \<Rightarrow> None
            | Some e \<Rightarrow>
                if e + 1 \<noteq> i then None
                else if CHR ''['' \<in> set (drop 1 hp) \<or> CHR '']'' \<in> set (drop (e + 1) hp) then None
                else Some (drop 1 (take e hp), drop (i + 1) hp))
         else if CHR '':'' \<in> set (take i hp) then None
         else if CHR ''['' \<in> set hp \<or> CHR '']'' \<in> set hp then None
         else Some (take i hp, drop (i + 1) hp))"

definition ValidateDeviceHost :: "string \<Rightarrow> outbound_error option" where
  "ValidateDeviceHost host0 =
     (let host = TrimSpace host0 in
      if host = [] then None
      else let host = (case SplitHostPort host of Some (h, _) \<Rightarrow> h | None \<Rightarrow> host);
               host = Trim host ''[]'';
               low = ToLower host
           in if low = ''localhost'' \<or> HasSuffix low ''.localhost'' then Some LoopbackHost
              else case ParseIP host of None \<Rightarrow> None | Some a \<Rightarrow> validateIP a ProbeHostPolicy)"

section \<open>Dialling\<close>

text \<open>
  The target of a dial: the address as given, or a resolved address with the port. The dialler is an
  argument, whether a connection is made; the result pairs the targets dialled, in order, with the outcome.
\<close>
datatype dial_target = DialAddr string | DialIP ip string

fun dial_each :: "(dial_target \<Rightarrow> bool) \<Rightarrow> OutboundPolicy \<Rightarrow> string \<Rightarrow> ip list \<Rightarrow> outbound_error option
    \<Rightarrow> dial_target list \<times> (outbound_error + dial_target)" where
  "dial_each dial p port [] lastErr =
     ([], Inl (case lastErr of Some e \<Rightarrow> e | None \<Rightarrow> NoAllowedAddresses))"
| "dial_each dial p port (a # as) lastErr =
     (case validateIP a p of
        Some e \<Rightarrow> dial_each dial p port as (Some e)
      | None \<Rightarrow>
          if dial (DialIP a port) then ([DialIP a port], Inr (DialIP a port))
          else case dial_each dial p port as (Some DialFailed) of (ts, r) \<Rightarrow> (DialIP a port # ts, r))"

definition dialPinned :: "(dial_target \<Rightarrow> bool) \<Rightarrow> (string \<Rightarrow> ip list option) \<Rightarrow> string \<Rightarrow> OutboundPolicy
    \<Rightarrow> dial_target list \<times> (outbound_error + dial_target)" where
  "dialPinned dial LookupIPAddr addr p = (case SplitHostPort addr of
       None \<Rightarrow> ([], Inl BadHostPort)
     | Some (host, port) \<Rightarrow>
         (case ParseIP host of
            Some a \<Rightarrow>
              (case validateIP a p of
                 Some e \<Rightarrow> ([], Inl e)
               | None \<Rightarrow> ([DialAddr addr], if dial (DialAddr addr) then Inr (DialAddr addr) else Inl DialFailed))
          | None \<Rightarrow>
              (case LookupIPAddr host of
                 None \<Rightarrow> ([], Inl DNSError)
               | Some ipas \<Rightarrow> dial_each dial p port ipas None)))"

text \<open>The redirect check of the client: \<open>via\<close> is the number of requests made so far.\<close>
definition CheckRedirect :: "(string \<Rightarrow> URL option) \<Rightarrow> (string \<Rightarrow> ip list option) \<Rightarrow> OutboundPolicy \<Rightarrow> string \<Rightarrow> nat
    \<Rightarrow> outbound_error option" where
  "CheckRedirect url_Parse LookupIP p url via =
     (if via \<ge> 5 then Some TooManyRedirects else ValidateOutboundURL url_Parse LookupIP url p)"

section \<open>What the parser accepts\<close>

lemma digit_bounds: "is_digit c \<Longrightarrow> 0 \<le> digit_val c \<and> digit_val c \<le> 9"
  by (auto simp: is_digit_def digit_val_def)

lemma digits_val_ge: "\<forall>c\<in>set ds. is_digit c \<Longrightarrow> 0 \<le> v \<Longrightarrow> v \<le> digits_val v ds"
proof (induction ds arbitrary: v)
  case (Cons c ds)
  then have d: "0 \<le> digit_val c" using digit_bounds by simp
  with Cons have "10 * v + digit_val c \<le> digits_val (10 * v + digit_val c) ds" by simp
  with d Cons.prems show ?case by simp
qed simp

lemma ipv4_digits:
  "\<forall>c\<in>set ds. is_digit c \<Longrightarrow> 0 < v \<Longrightarrow> digits_val v ds \<le> 255 \<Longrightarrow>
   ipv4_fields (ds @ rest) (nat v) k fs = ipv4_fields rest (nat (digits_val v ds)) (k + length ds) fs"
proof (induction ds arbitrary: v k)
  case (Cons c ds)
  have c: "is_digit c" and d: "0 \<le> digit_val c" "digit_val c \<le> 9" using Cons.prems digit_bounds by auto
  have "10 * v + digit_val c \<le> 255" using Cons.prems digits_val_ge [of ds "10 * v + digit_val c"] d by auto
  moreover have "nat v * 10 + nat (digit_val c) = nat (10 * v + digit_val c)" using Cons.prems d by (simp add: nat_add_distrib nat_mult_distrib)
  ultimately show ?case using Cons.IH [of "10 * v + digit_val c" "Suc k"] Cons.prems c d by (auto simp: Let_def nat_le_iff not_less)
qed simp

lemma nat_digits_hd: "0 < n \<Longrightarrow> \<exists>c ds. nat_digits n = c # ds \<and> 0 < digit_val c"
proof (induction n rule: nat_digits.induct)
  case (1 n)
  then show ?case
    by (cases "n < 10") (auto simp: nat_digits.simps [of n] div_greater_zero_iff)
qed

lemma ipv4_number:
  assumes "n \<le> 255"
  shows "ipv4_fields (nat_digits n @ rest) 0 0 fs = ipv4_fields rest n (length (nat_digits n)) fs"
proof (cases "n = 0")
  case True
  then show ?thesis by (simp add: nat_digits.simps)
next
  case False
  then obtain c ds where c: "nat_digits n = c # ds" "0 < digit_val c" using nat_digits_hd by blast
  have dig: "is_digit c" "\<forall>c\<in>set ds. is_digit c" using nat_digits_digit [of _ n] c(1) by auto
  have val: "digits_val (digit_val c) ds = int n" using digits_val_nat_digits [of n] c(1) by simp
  have "digit_val c \<le> 255" using digit_bounds [OF dig(1)] by simp
  then show ?thesis
    using ipv4_digits [OF dig(2) c(2), of rest 1 fs] val assms dig(1) c by (auto simp: Let_def nat_le_iff not_less)
qed

definition dotted :: "byte list \<Rightarrow> string" where
  "dotted bs = Join (map (\<lambda>b. nat_digits (unat b)) bs) ''.''"

lemma byte_le: "unat (b :: byte) \<le> 255"
  using unsigned_less [of b, where ?'a = nat] by simp

lemma ipv4_dot:
  "n \<le> 255 \<Longrightarrow> s \<noteq> [] \<Longrightarrow> length fs < 3 \<Longrightarrow>
   ipv4_fields (nat_digits n @ CHR ''.'' # s) 0 0 fs = ipv4_fields s 0 0 (fs @ [of_nat n])"
  by (simp add: ipv4_number is_digit_def)

lemma parseIPv4_dotted: "parseIPv4 (dotted [a, b, c, d]) = Some [a, b, c, d]"
proof -
  have e: "dotted [a, b, c, d] = nat_digits (unat a) @ CHR ''.'' # nat_digits (unat b) @ CHR ''.'' # nat_digits (unat c)
      @ CHR ''.'' # nat_digits (unat d) @ []" by (simp add: dotted_def)
  have "ipv4_fields (nat_digits (unat d) @ []) 0 0 [a, b, c] = Some [a, b, c, d]"
    unfolding ipv4_number [OF byte_le] by simp
  then show ?thesis unfolding parseIPv4_def e by (simp add: ipv4_dot byte_le)
qed

lemma addr_kind_digits: "\<forall>c\<in>set ds. is_digit c \<Longrightarrow> addr_kind (ds @ CHR ''.'' # s) = Some CHR ''.''"
  by (induction ds) (auto simp: is_digit_def)

lemma ParseIP_dotted: "ParseIP (dotted [a, b, c, d]) = Some (v4_prefix @ [a, b, c, d])"
proof -
  have "addr_kind (dotted [a, b, c, d]) = Some CHR ''.''"
    using addr_kind_digits [of "nat_digits (unat a)"] nat_digits_digit by (simp add: dotted_def)
  then show ?thesis by (simp add: ParseIP_def parseIPv4_dotted)
qed

lemma ipv4_length: "ipv4_fields s v k fs = Some bs \<Longrightarrow> length bs = 4"
  by (induction s v k fs rule: ipv4_fields.induct) (auto simp: Let_def split: if_splits)

lemma ipv6_length:
  "ipv6_loop k s bs ell = Some (rest, bs', ell') \<Longrightarrow> even (length bs) \<Longrightarrow> length bs \<le> 16 \<Longrightarrow>
   (\<forall>e. ell = Some e \<longrightarrow> e \<le> length bs) \<Longrightarrow> length bs' \<le> 16 \<and> (\<forall>e. ell' = Some e \<longrightarrow> e \<le> length bs')"
proof (induction k arbitrary: s bs ell)
  case (Suc k)
  have even: "length bs < 16 \<Longrightarrow> length bs + 2 \<le> 16" using Suc.prems(2) by presburger
  show ?case
  proof (cases "length bs \<ge> 16")
    case True
    with Suc.prems show ?thesis by simp
  next
    case False
    with even have le: "length bs + 2 \<le> 16" by simp
    obtain acc off r where h: "hex_group s 0 0 = Some (acc, off, r)"
      using Suc.prems(1) False by (auto split: option.splits)
    have ell: "\<forall>e. ell = Some e \<longrightarrow> e \<le> Suc (Suc (length bs))" using Suc.prems(4) by auto
    show ?thesis
      using Suc.prems False h le ell Suc.IH [of _ "bs @ [of_nat (acc div 256), of_nat acc]"]
      by (auto simp: Let_def parseIPv4_def split: if_splits option.splits list.splits dest: ipv4_length)
  qed
qed auto

lemma ParseIP_length: "ParseIP s = Some a \<Longrightarrow> length a = 16"
proof -
  assume p: "ParseIP s = Some a"
  have "parseIPv6 t = Some b \<Longrightarrow> length b = 16" for t b
    using ipv6_length [of 9 _ "[]" "Some 0"] ipv6_length [of 9 _ "[]" None]
    by (fastforce simp: parseIPv6_def Let_def split: if_splits option.splits)
  moreover have "parseIPv4 t = Some b \<Longrightarrow> length b = 4" for t b by (simp add: parseIPv4_def ipv4_length)
  ultimately show ?thesis using p by (auto simp: ParseIP_def v4_prefix_def split: option.splits if_splits)
qed

section \<open>What the policies allow\<close>

text \<open>A property of all bytes is checked on the 256 of them.\<close>
lemma all_bytes: "list_all P [0..255] \<Longrightarrow> P (uint (b :: byte))"
proof -
  have "0 \<le> uint b \<and> uint b \<le> 255" using unsigned_greater_eq [of b] uint_bounded [of b] by simp
  then show "list_all P [0..255] \<Longrightarrow> P (uint b)" by (simp add: list_all_iff)
qed

lemma byte_masks:
  fixes b :: byte
  shows "b AND 0xF0 = 16 \<longleftrightarrow> uint b div 16 = 1" "b AND 0xF0 = 0xE0 \<longleftrightarrow> uint b div 16 = 14"
proof -
  have "list_all (\<lambda>n. ((n AND 0xF0) = 16) = (n div 16 = (1 :: int))) [0..255]" by code_simp
  from all_bytes [OF this, of b] show "b AND 0xF0 = 16 \<longleftrightarrow> uint b div 16 = 1"
    by (simp add: word_uint_eq_iff unsigned_and_eq)
  have "list_all (\<lambda>n. ((n AND 0xF0) = 0xE0) = (n div 16 = (14 :: int))) [0..255]" by code_simp
  from all_bytes [OF this, of b] show "b AND 0xF0 = 0xE0 \<longleftrightarrow> uint b div 16 = 14"
    by (simp add: word_uint_eq_iff unsigned_and_eq)
qed

text \<open>An IPv4 address as a number, and whether it lies in the block with the given first address and prefix length.\<close>
fun v4_num :: "byte list \<Rightarrow> int" where
  "v4_num [a, b, c, d] = ((uint a * 256 + uint b) * 256 + uint c) * 256 + uint d"
| "v4_num _ = 0"

definition in_block :: "byte list \<Rightarrow> byte list \<times> nat \<Rightarrow> bool" where
  "in_block a blk = (case blk of (base, len) \<Rightarrow> v4_num a div 2 ^ (32 - len) = v4_num base div 2 ^ (32 - len))"

text \<open>\<open>0.0.0.0/32\<close>, \<open>169.254.0.0/16\<close>, \<open>224.0.0.0/4\<close>; \<open>127.0.0.0/8\<close>; \<open>10.0.0.0/8\<close>, \<open>172.16.0.0/12\<close>, \<open>192.168.0.0/16\<close>.\<close>
definition always_blocked :: "(byte list \<times> nat) list" where
  "always_blocked = [([0, 0, 0, 0], 32), ([169, 254, 0, 0], 16), ([224, 0, 0, 0], 4)]"

definition loopback_block :: "byte list \<times> nat" where
  "loopback_block = ([127, 0, 0, 0], 8)"

definition private_blocks :: "(byte list \<times> nat) list" where
  "private_blocks = [([10, 0, 0, 0], 8), ([172, 16, 0, 0], 12), ([192, 168, 0, 0], 16)]"

lemma byte_range: "0 \<le> uint (b :: byte)" "uint b < 256"
  using unsigned_greater_eq [of b] uint_bounded [of b] by auto

lemma div_byte: "(y * 256 + uint (x :: byte)) div (256 * k) = y div k" if "0 \<le> k"
proof -
  have "(y * 256 + uint x) div 256 = y" using byte_range [of x] by simp
  then show ?thesis using that by (simp add: zdiv_zmult2_eq)
qed

lemma div_bytes:
  "(y * 256 + uint (x :: byte)) div 16777216 = y div 65536" "(y * 256 + uint x) div 65536 = y div 256"
  "(y * 256 + uint x) div 256 = y" "(y * 256 + uint x) div 1048576 = y div 4096"
  "(y * 256 + uint x) div 4096 = y div 16" "(y * 256 + uint x) div 268435456 = y div 1048576"
  subgoal using div_byte [of 65536 y x] by simp
  subgoal using div_byte [of 256 y x] by simp
  subgoal using div_byte [of 1 y x] by simp
  subgoal using div_byte [of 4096 y x] by simp
  subgoal using div_byte [of 16 y x] by simp
  subgoal using div_byte [of 1048576 y x] by simp
  done

lemma v4_div:
  "v4_num [a, b, c, d] div 16777216 = uint a" "v4_num [a, b, c, d] div 65536 = uint a * 256 + uint b"
  "v4_num [a, b, c, d] div 1048576 = (uint a * 256 + uint b) div 16" "v4_num [a, b, c, d] div 268435456 = uint a div 16"
  unfolding v4_num.simps by (simp_all only: div_bytes)

lemma pair_eq:
  fixes x y x' y' k :: int
  assumes "0 \<le> y" "y < k" "0 \<le> y'" "y' < k"
  shows "x * k + y = x' * k + y' \<longleftrightarrow> x = x' \<and> y = y'"
proof
  assume e: "x * k + y = x' * k + y'"
  have "(x * k + y) div k = x" "(x' * k + y') div k = x'" using assms by auto
  with e show "x = x' \<and> y = y'" by auto
qed auto

lemma two_bytes: "uint (a :: byte) * 256 + uint (b :: byte) = uint (a' :: byte) * 256 + uint (b' :: byte) \<longleftrightarrow> a = a' \<and> b = b'"
  using pair_eq [of "uint b" 256 "uint b'" "uint a" "uint a'"] byte_range [of b] byte_range [of b'] by (simp add: word_uint_eq_iff)

lemma nibble: "(uint (a :: byte) * 256 + uint (b :: byte)) div 16 = uint a * 16 + uint b div 16"
proof -
  have "uint a * 256 + uint b = uint b + uint a * 16 * 16" by simp
  then show ?thesis by simp
qed

lemma nibble_range: "0 \<le> uint (b :: byte) div 16" "uint b div 16 < 16"
proof -
  have "list_all (\<lambda>n :: int. 0 \<le> n div 16 \<and> n div 16 < 16) [0..255]" by code_simp
  from all_bytes [OF this, of b] show "0 \<le> uint b div 16" "uint b div 16 < 16" by auto
qed

lemma two_zero: "0 \<le> x \<Longrightarrow> 0 \<le> y \<Longrightarrow> x * 256 + y = 0 \<Longrightarrow> x = 0 \<and> y = (0 :: int)"
  by auto

lemma four_zero:
  fixes a b c d :: int
  assumes "0 \<le> a" "0 \<le> b" "0 \<le> c" "0 \<le> d" "((a * 256 + b) * 256 + c) * 256 + d = 0"
  shows "a = 0 \<and> b = 0 \<and> c = 0 \<and> d = 0"
proof -
  have n: "0 \<le> a * 256 + b" using assms(1,2) by (intro add_nonneg_nonneg mult_nonneg_nonneg) simp_all
  then have "0 \<le> (a * 256 + b) * 256 + c" using assms(1-3) by (intro add_nonneg_nonneg mult_nonneg_nonneg) simp_all
  from two_zero [OF this assms(4,5)] have cd: "(a * 256 + b) * 256 + c = 0" "d = 0" by blast+
  from two_zero [OF n assms(3) cd(1)] have "a * 256 + b = 0" "c = 0" by blast+
  with two_zero [OF assms(1,2)] cd(2) show ?thesis by blast
qed

lemma in_block_cases:
  "in_block [a, b, c, d] ([x, 0, 0, 0], 8) \<longleftrightarrow> a = x"
  "in_block [a, b, c, d] ([x, y, 0, 0], 16) \<longleftrightarrow> a = x \<and> b = y"
  "in_block [a, b, c, d] ([172, 16, 0, 0], 12) \<longleftrightarrow> a = 172 \<and> uint b div 16 = 1"
  "in_block [a, b, c, d] ([224, 0, 0, 0], 4) \<longleftrightarrow> uint a div 16 = 14"
  "in_block [a, b, c, d] ([0, 0, 0, 0], 32) \<longleftrightarrow> [a, b, c, d] = [0, 0, 0, 0]"
  subgoal by (simp add: in_block_def v4_div word_uint_eq_iff del: v4_num.simps)
  subgoal using two_bytes [of a b x y] by (simp add: in_block_def v4_div del: v4_num.simps)
  subgoal using pair_eq [of "uint b div 16" 16 1 "uint a" 172] nibble_range [of b]
    by (simp add: in_block_def v4_div nibble word_uint_eq_iff del: v4_num.simps)
  subgoal by (simp add: in_block_def v4_div del: v4_num.simps)
  subgoal
  proof -
    have "v4_num [a, b, c, d] = 0 \<Longrightarrow> uint a = 0 \<and> uint b = 0 \<and> uint c = 0 \<and> uint d = 0"
      using four_zero [OF byte_range(1) [of a] byte_range(1) [of b] byte_range(1) [of c] byte_range(1) [of d]] by simp
    then show ?thesis by (auto simp: in_block_def word_uint_eq_iff)
  qed
  done

lemma To4_forms: "To4 [a, b, c, d] = Some [a, b, c, d]" "To4 (v4_prefix @ [a, b, c, d]) = Some [a, b, c, d]"
  by (simp_all add: To4_def v4_prefix_def)

lemma v4_mapped_nonzero: "v4_prefix @ [a, b, c, d] \<noteq> replicate 16 0" "[a, b, c, d] \<noteq> replicate 16 (0 :: byte)"
proof
  assume "v4_prefix @ [a, b, c, d] = replicate 16 0"
  then have "(v4_prefix @ [a, b, c, d]) ! 10 = replicate 16 0 ! 10" by simp
  then show False by (simp add: v4_prefix_def nth_append)
next
  show "[a, b, c, d] \<noteq> replicate 16 (0 :: byte)" by (rule size_neq_size_imp_neq) simp
qed

lemma v4_class:
  assumes "To4 x = Some [a, b, c, d]" "x \<noteq> replicate 16 0"
  shows "IsUnspecified x \<longleftrightarrow> [a, b, c, d] = [0, 0, 0, 0]" "IsLoopback x \<longleftrightarrow> a = 127"
    "IsPrivate x \<longleftrightarrow> a = 10 \<or> (a = 172 \<and> uint b div 16 = 1) \<or> (a = 192 \<and> b = 168)"
    "IsLinkLocalUnicast x \<longleftrightarrow> a = 169 \<and> b = 254" "IsMulticast x \<longleftrightarrow> uint a div 16 = 14"
    "IsLinkLocalMulticast x \<Longrightarrow> IsMulticast x"
  using assms by (auto simp: IsUnspecified_def IsLoopback_def IsPrivate_def IsLinkLocalUnicast_def IsMulticast_def
      IsLinkLocalMulticast_def byte_masks)

lemma validateIP_v4:
  assumes "To4 x = Some [a, b, c, d]" "x \<noteq> replicate 16 0" "x \<noteq> []"
  shows "validateIP x p = None \<longleftrightarrow>
    \<not> list_ex (in_block [a, b, c, d]) (always_blocked @ (if AllowLoopback p then [] else [loopback_block])
       @ (if AllowPrivate p then [] else private_blocks))"
  using v4_class [OF assms(1,2)] assms(3)
  by (auto simp: validateIP_def always_blocked_def loopback_block_def private_blocks_def in_block_cases)

lemma dial_each_ok:
  "dial_each dial p port as e = (ts, r) \<Longrightarrow>
   (\<forall>t\<in>set ts. \<exists>a\<in>set as. t = DialIP a port \<and> validateIP a p = None) \<and> (\<forall>t. r = Inr t \<longrightarrow> t \<in> set ts \<and> dial t)"
proof (induction as arbitrary: e ts r)
  case (Cons a as)
  then show ?case
    by (cases "validateIP a p") (fastforce split: if_splits prod.splits)+
qed auto

lemma validate_all_None: "validate_all as p = None \<longleftrightarrow> (\<forall>a\<in>set as. validateIP a p = None)"
  by (induction as) (auto split: option.splits)

section \<open>Properties\<close>

text \<open>
  An address is allowed exactly by its number: an IPv4 address passes a policy if and only if it lies
  in none of the blocks the policy excludes, which are the unspecified address, link-local and
  multicast in every case, \<open>127.0.0.0/8\<close> unless loopback is allowed and the three RFC 1918 blocks
  unless private addresses are. The verdict is the same for the four-byte form and for the address
  mapped into IPv6, so that writing an address as \<open>::ffff:a.b.c.d\<close> does not bypass the policy.
\<close>
theorem validateIP_ipv4_blocks:
  "(validateIP [a, b, c, d] p = None \<longleftrightarrow>
     \<not> list_ex (in_block [a, b, c, d]) (always_blocked @ (if AllowLoopback p then [] else [loopback_block])
        @ (if AllowPrivate p then [] else private_blocks))) \<and>
   (validateIP (v4_prefix @ [a, b, c, d]) p = None \<longleftrightarrow> validateIP [a, b, c, d] p = None)"
proof -
  have "v4_prefix @ [a, b, c, d] \<noteq> []" by simp
  with validateIP_v4 [OF To4_forms(1) v4_mapped_nonzero(2), of a b c d p] validateIP_v4 [OF To4_forms(2) v4_mapped_nonzero(1), of a b c d p]
  show ?thesis by simp
qed

text \<open>
  A dotted address is parsed to its four bytes, mapped into IPv6, and whatever text is parsed, the
  result has 16 bytes.
\<close>
theorem ParseIP_roundtrip:
  "ParseIP (dotted [a, b, c, d]) = Some (v4_prefix @ [a, b, c, d]) \<and> (ParseIP s = Some x \<longrightarrow> length x = 16)"
  using ParseIP_dotted ParseIP_length by blast

theorem ParseIP_roundtrip_witness: "length (replicate 16 (0 :: byte)) = 16"
proof -
  have "ParseIP ''::'' = Some (replicate 16 0)" by (simp add: ParseIP_def parseIPv6_def)
  with ParseIP_roundtrip [of 0 0 0 0 "''::''" "replicate 16 0"] show ?thesis by blast
qed

text \<open>
  C7. The pinned dialler connects only to checked addresses: every target it dials is either the literal
  address it was given, which passes the policy, or one of the resolved addresses, which passes the
  policy; a connection is one of these targets. Nothing is resolved a second time, so a name that
  changes its address between check and connection gains nothing.
\<close>
theorem dialPinned_safe:
  assumes "dialPinned dial LookupIPAddr addr p = (ts, r)"
  shows "(\<forall>t\<in>set ts. \<exists>host port a. SplitHostPort addr = Some (host, port) \<and> validateIP a p = None \<and>
      (t = DialAddr addr \<and> ParseIP host = Some a \<or>
       t = DialIP a port \<and> ParseIP host = None \<and> a \<in> set (the (LookupIPAddr host)))) \<and>
    (\<forall>t. r = Inr t \<longrightarrow> t \<in> set ts \<and> dial t)"
  using assms unfolding dialPinned_def
  by (auto split: option.splits prod.splits if_splits dest!: dial_each_ok; fastforce)

theorem dialPinned_safe_witness:
  "fst (dialPinned (\<lambda>t. True) (\<lambda>h. Some [[127, 0, 0, 1], [8, 8, 8, 8]]) ''hook:443'' WebhookPolicy) = [DialIP [8, 8, 8, 8] ''443''] \<and>
   (\<exists>host port a. SplitHostPort ''hook:443'' = Some (host, port) \<and> validateIP a WebhookPolicy = None \<and>
      DialIP [8, 8, 8, 8] ''443'' = DialIP a port)"
proof -
  have "dialPinned (\<lambda>t. True) (\<lambda>h. Some [[127, 0, 0, 1], [8, 8, 8, 8]]) ''hook:443'' WebhookPolicy =
      ([DialIP [8, 8, 8, 8] ''443''], Inr (DialIP [8, 8, 8, 8] ''443''))" by code_simp
  from dialPinned_safe [OF this] this show ?thesis by auto
qed

text \<open>
  A URL that passes the check names an allowed scheme and a host all of whose addresses the policy
  allows: the literal address, or every address the resolver returned, of which there is at least one.
\<close>
theorem ValidateOutboundURL_safe:
  assumes "ValidateOutboundURL url_Parse LookupIP raw p = None"
  shows "\<exists>u. url_Parse (TrimSpace raw) = Some u \<and>
    ToLower (u_Scheme u) \<in> (if RequireHTTPS p then {''https''} else {''https'', ''http''}) \<and>
    (case ParseIP (u_Hostname u) of
       Some a \<Rightarrow> validateIP a p = None
     | None \<Rightarrow> \<exists>as. LookupIP (u_Hostname u) = Some as \<and> as \<noteq> [] \<and> (\<forall>a\<in>set as. validateIP a p = None))"
  using assms unfolding ValidateOutboundURL_def validateHost_def Let_def
  by (auto split: option.splits if_splits simp: validate_all_None)

theorem ValidateOutboundURL_safe_witness:
  "validateIP [8, 8, 4, 4] WebhookPolicy = None"
proof -
  have "ValidateOutboundURL (\<lambda>_. Some \<lparr>u_Scheme = ''https'', u_Host = ''hook'', u_Hostname = ''hook''\<rparr>) (\<lambda>_. Some [[8, 8, 4, 4]])
      ''https://hook'' WebhookPolicy = None" by code_simp
  from ValidateOutboundURL_safe [OF this] show ?thesis by (simp add: ParseIP_def)
qed

text \<open>
  An address with a zone is not an address to \<open>ParseIP\<close>, so that the check of a device host takes it for a
  name and lets it pass, although it denotes the loopback or a link-local address; the same holds for
  the fully qualified name of the local host.
\<close>
lemma device_host_bypass:
  "ValidateDeviceHost ''::1%lo'' = None" "ValidateDeviceHost ''fe80::1%eth0'' = None" "ValidateDeviceHost ''localhost.'' = None"
  "ValidateDeviceHost ''::1'' = Some LoopbackIP" "ValidateDeviceHost ''localhost'' = Some LoopbackHost"
  by code_simp+

end
