(* ===== verification/Svi_Address.thy ===== *)
theory Svi_Address
  imports Net_Addr Port_Config
begin

text \<open>
  Addresses of VLAN interfaces (\<open>internal/swcfg/svi.go\<close>): reading them from the running configuration and
  finding the management VLAN, whose address is the one NetLynx uses to reach the switch. The three
  regular expressions are written out as the functions that match them.
\<close>

record SVIAddress =
  sv_VLANID :: int
  sv_IP :: string
  sv_IfaceName :: string

text \<open>The class \<open>\s\<close> of the regular expressions.\<close>
definition re_space :: "char \<Rightarrow> bool" where
  "re_space c \<longleftrightarrow> c \<in> {CHR '' '', CHR 0x09, CHR 0x0A, CHR 0x0C, CHR 0x0D}"

text \<open>\<open>(?i)^(?:vlan(?:if)?|vlan-interface)\s*(\d+)$\<close>: the digits.\<close>
fun re_iface_vlan :: "string list \<Rightarrow> string \<Rightarrow> string option" where
  "re_iface_vlan [] s = None"
| "re_iface_vlan (p # ps) s =
     (let ds = dropWhile re_space (drop (length p) s) in
      if HasPrefix (ToLower s) p \<and> ds \<noteq> [] \<and> list_all is_digit ds then Some ds else re_iface_vlan ps s)"

fun compact_vlan :: "string list \<Rightarrow> string \<Rightarrow> int option" where
  "compact_vlan [] s = None"
| "compact_vlan (p # ps) s =
     (if HasPrefix s p then
        (case vlan_of (drop (length p) s) of Some n \<Rightarrow> Some n | None \<Rightarrow> compact_vlan ps s)
      else compact_vlan ps s)"

definition VLANIDFromSVIIfaceName :: "string \<Rightarrow> int option" where
  "VLANIDFromSVIIfaceName name =
     (let n = TrimSpace (TrimPrefix (TrimSpace name) ''interface '');
          compact = ReplaceAll (ReplaceAll (ToLower n) '' '' []) ''-'' []
      in case compact_vlan [''vlanif'', ''vlaninterface'', ''vlan''] compact of
           Some i \<Rightarrow> Some i
         | None \<Rightarrow>
             (case re_iface_vlan [''vlanif'', ''vlan'', ''vlan-interface''] (TrimSpace n) of
                None \<Rightarrow> None
              | Some ds \<Rightarrow> vlan_of ds))"

text \<open>\<open>\d{1,3}(?:\.\d{1,3}){k}\<close> at the start of a text, matched greedily.\<close>
fun re_quad :: "nat \<Rightarrow> string \<Rightarrow> string option" where
  "re_quad 0 s = (let ds = take 3 (takeWhile is_digit s) in if ds = [] then None else Some ds)"
| "re_quad (Suc k) s =
     (let ds = takeWhile is_digit s; rest = dropWhile is_digit s in
      if ds = [] \<or> length ds > 3 \<or> rest = [] \<or> hd rest \<noteq> CHR ''.'' then None
      else map_option (\<lambda>q. ds @ ''.'' @ q) (re_quad k (tl rest)))"

text \<open>A keyword followed by at least one space: the rest after the spaces.\<close>
definition re_word :: "string \<Rightarrow> string \<Rightarrow> string option" where
  "re_word w s =
     (let rest = drop (length w) s in
      if HasPrefix s w \<and> rest \<noteq> [] \<and> re_space (hd rest) then Some (dropWhile re_space rest) else None)"

text \<open>
  \<open>reIPAddr\<close> on a lower-case line. \<open>reIPAddrHuawei\<close>, tried when it fails, extends it and so fails too.
\<close>
definition re_ip_addr :: "string \<Rightarrow> string option" where
  "re_ip_addr ll = (case re_word ''ip'' ll of
       None \<Rightarrow> None
     | Some r \<Rightarrow> (case re_word ''address'' r of None \<Rightarrow> None | Some r' \<Rightarrow> re_quad 3 r'))"

definition parseIPv4FromAddressLine :: "string \<Rightarrow> string option" where
  "parseIPv4FromAddressLine ll0 =
     (let ll = TrimSpace ll0 in
      if HasPrefix ll ''no ip address'' \<or> HasPrefix ll ''undo ip address'' then None
      else case re_ip_addr ll of
        None \<Rightarrow> None
      | Some s \<Rightarrow> if ParseIP s = None then None else Some s)"

record svi_state =
  st_out :: "SVIAddress list"
  st_cur :: "(int \<times> string) option"

text \<open>One line; \<open>st_cur\<close> is \<open>inSVI\<close> with \<open>curVLAN\<close> and \<open>curName\<close>. The map \<open>seen\<close> holds the pairs already listed.\<close>
definition svi_line :: "svi_state \<Rightarrow> string \<Rightarrow> svi_state" where
  "svi_line st rawLine =
     (let line = TrimSpace rawLine; ll = ToLower line in
      if line = [] then st
      else if HasPrefix ll ''interface '' then
        (let name = after ''interface'' line in
         st\<lparr>st_cur := map_option (\<lambda>vid. (vid, name)) (VLANIDFromSVIIfaceName name)\<rparr>)
      else case st_cur st of
        None \<Rightarrow> st
      | Some (curVLAN, curName) \<Rightarrow>
          if ll = ''exit'' \<or> ll = ''!'' then st\<lparr>st_cur := None\<rparr>
          else case parseIPv4FromAddressLine ll of
            None \<Rightarrow> st
          | Some s \<Rightarrow>
              if (curVLAN, s) \<in> set (map (\<lambda>a. (sv_VLANID a, sv_IP a)) (st_out st)) then st
              else st\<lparr>st_out := st_out st @ [\<lparr>sv_VLANID = curVLAN, sv_IP = s, sv_IfaceName = curName\<rparr>]\<rparr>)"

definition ParseSVIAddresses :: "string \<Rightarrow> SVIAddress list" where
  "ParseSVIAddresses raw = st_out (foldl svi_line \<lparr>st_out = [], st_cur = None\<rparr> (Split raw CHR 0x0A))"

text \<open>The dotted form of a parsed IPv4 address, \<open>None\<close> for other addresses and for no address.\<close>
definition v4_string :: "string \<Rightarrow> string option" where
  "v4_string h = (case ParseIP h of None \<Rightarrow> None | Some a \<Rightarrow> map_option dotted (To4 a))"

definition NormalizeHostIP :: "string \<Rightarrow> string" where
  "NormalizeHostIP host =
     (let h0 = TrimSpace host in
      if h0 = [] then []
      else let h = (case Index h0 ''%'' of Some i \<Rightarrow> take i h0 | None \<Rightarrow> h0) in
        case ParseIP h of
          Some a \<Rightarrow> (case To4 a of Some v4 \<Rightarrow> dotted v4 | None \<Rightarrow> [])
        | None \<Rightarrow>
            (case SplitHostPort h of
               None \<Rightarrow> []
             | Some (hostOnly, _) \<Rightarrow> (case v4_string hostOnly of Some s \<Rightarrow> s | None \<Rightarrow> [])))"

definition MgmtVLANFromSVI :: "string \<Rightarrow> SVIAddress list \<Rightarrow> (int \<times> string) option" where
  "MgmtVLANFromSVI host svis =
     (let want = NormalizeHostIP host in
      if want = [] then None
      else map_option (\<lambda>s. (sv_VLANID s, sv_IP s)) (find (\<lambda>s. sv_IP s = want) svis))"

definition SVIForVLAN :: "SVIAddress list \<Rightarrow> int \<Rightarrow> SVIAddress option" where
  "SVIForVLAN svis vlanID = find (\<lambda>s. sv_VLANID s = vlanID \<and> sv_IP s \<noteq> []) svis"

section \<open>The addresses that are read are well formed\<close>

lemma compact_vlan_valid: "compact_vlan ps s = Some n \<Longrightarrow> validVLANID n"
  by (induction ps) (auto split: if_splits option.splits dest: vlan_of_valid)

lemma SVI_iface_valid: "VLANIDFromSVIIfaceName name = Some n \<Longrightarrow> validVLANID n"
  by (auto simp: VLANIDFromSVIIfaceName_def Let_def simp del: compact_vlan.simps re_iface_vlan.simps
      split: option.splits dest: compact_vlan_valid vlan_of_valid)

definition svi_ok :: "SVIAddress \<Rightarrow> bool" where
  "svi_ok a \<longleftrightarrow> validVLANID (sv_VLANID a) \<and> VLANIDFromSVIIfaceName (sv_IfaceName a) = Some (sv_VLANID a) \<and> ParseIP (sv_IP a) \<noteq> None"

definition svi_inv :: "svi_state \<Rightarrow> bool" where
  "svi_inv st \<longleftrightarrow> list_all svi_ok (st_out st) \<and> distinct (map (\<lambda>a. (sv_VLANID a, sv_IP a)) (st_out st)) \<and>
     (\<forall>v n. st_cur st = Some (v, n) \<longrightarrow> VLANIDFromSVIIfaceName n = Some v)"

lemma address_line_parses: "parseIPv4FromAddressLine ll = Some s \<Longrightarrow> ParseIP s \<noteq> None"
  by (auto simp: parseIPv4FromAddressLine_def Let_def split: if_splits option.splits)

lemma svi_inv_line: "svi_inv st \<Longrightarrow> svi_inv (svi_line st raw)"
proof -
  assume inv: "svi_inv st"
  have add: "svi_inv (st\<lparr>st_out := st_out st @ [\<lparr>sv_VLANID = v, sv_IP = s, sv_IfaceName = n\<rparr>]\<rparr>)"
    if "st_cur st = Some (v, n)" "ParseIP s \<noteq> None" "(v, s) \<notin> set (map (\<lambda>a. (sv_VLANID a, sv_IP a)) (st_out st))" for v n s
    using inv that SVI_iface_valid by (auto simp: svi_inv_def svi_ok_def)
  have cur: "svi_inv (st\<lparr>st_cur := map_option (\<lambda>vid. (vid, name)) (VLANIDFromSVIIfaceName name)\<rparr>)" "svi_inv (st\<lparr>st_cur := None\<rparr>)" for name
    using inv by (auto simp: svi_inv_def)
  show ?thesis
    unfolding svi_line_def Let_def using inv
    by (auto intro: cur add dest: address_line_parses simp del: set_map split: option.split)
qed

lemma SVIAddresses_inv: "svi_inv (foldl svi_line \<lparr>st_out = [], st_cur = None\<rparr> ls)"
proof (rule foldl_inv)
  show "svi_inv \<lparr>st_out = [], st_cur = None\<rparr>" by (simp add: svi_inv_def)
qed (rule svi_inv_line)

lemma dotted_chars: "ch \<in> set (dotted [a, b, c, d]) \<Longrightarrow> is_digit ch \<or> ch = CHR ''.''"
  by (auto simp: dotted_def dest: nat_digits_digit)

lemma NormalizeHostIP_dotted: "NormalizeHostIP (dotted [a, b, c, d]) = dotted [a, b, c, d] \<and> dotted [a, b, c, d] \<noteq> []"
proof -
  let ?h = "dotted [a, b, c, d]"
  have ne: "?h \<noteq> []" by (simp add: dotted_def)
  have "\<not> is_space CHR ''.''" by (simp add: is_space_def)
  then have "\<forall>ch\<in>set ?h. \<not> is_space ch" using dotted_chars is_digit_not_space by blast
  then have t: "TrimSpace ?h = ?h" by (rule TrimSpace_no_space)
  have "CHR ''%'' \<notin> set ?h" using dotted_chars [of "CHR ''%''" a b c d] by (auto simp: is_digit_def)
  then have "\<not> Contains ?h ''%''" by (simp add: Contains_char)
  then have "Index ?h ''%'' = None" by (simp add: Contains_def)
  with ne t show ?thesis by (simp add: NormalizeHostIP_def Let_def ParseIP_dotted To4_forms)
qed

section \<open>Properties\<close>

text \<open>
  Whatever the running configuration contains, the VLAN interface addresses read from it are pairwise
  different, each has a valid VLAN identifier, the one its interface name stands for, and a text that
  is an IP address.
\<close>
theorem ParseSVIAddresses_wf:
  "distinct (map (\<lambda>a. (sv_VLANID a, sv_IP a)) (ParseSVIAddresses raw)) \<and>
   list_all (\<lambda>a. validVLANID (sv_VLANID a) \<and> VLANIDFromSVIIfaceName (sv_IfaceName a) = Some (sv_VLANID a) \<and>
     ParseIP (sv_IP a) \<noteq> None) (ParseSVIAddresses raw)"
  using SVIAddresses_inv [of "Split raw CHR 0x0A"] by (simp add: ParseSVIAddresses_def svi_inv_def svi_ok_def [abs_def])

text \<open>
  The management VLAN is found exactly when the host is an IPv4 address that one of the interfaces
  has, written with or without a port, and it is the VLAN of an interface with that address.
\<close>
theorem MgmtVLANFromSVI_exact:
  "(MgmtVLANFromSVI (dotted [a, b, c, d]) svis = None \<longleftrightarrow> dotted [a, b, c, d] \<notin> sv_IP ` set svis) \<and>
    (MgmtVLANFromSVI host svis = Some (v, s) \<longrightarrow>
       s = NormalizeHostIP host \<and> (\<exists>x\<in>set svis. sv_VLANID x = v \<and> sv_IP x = s))"
proof -
  have norm: "NormalizeHostIP (dotted [a, b, c, d]) = dotted [a, b, c, d] \<and> dotted [a, b, c, d] \<noteq> []"
    by (rule NormalizeHostIP_dotted)
  have "MgmtVLANFromSVI (dotted [a, b, c, d]) svis = None \<longleftrightarrow> dotted [a, b, c, d] \<notin> sv_IP ` set svis"
    using norm by (auto simp: MgmtVLANFromSVI_def find_None_iff image_iff)
  moreover have "MgmtVLANFromSVI host svis = Some (v, s) \<longrightarrow>
       s = NormalizeHostIP host \<and> (\<exists>x\<in>set svis. sv_VLANID x = v \<and> sv_IP x = s)"
    by (auto simp: MgmtVLANFromSVI_def Let_def split: if_splits dest!: find_hit)
  ultimately show ?thesis by blast
qed

definition example_svi :: SVIAddress where
  "example_svi = \<lparr>sv_VLANID = 30, sv_IP = ''10.0.0.2'', sv_IfaceName = ''Vlan30''\<rparr>"

theorem MgmtVLANFromSVI_exact_witness: "\<exists>x\<in>set [example_svi]. sv_VLANID x = 30 \<and> sv_IP x = ''10.0.0.2''"
proof -
  have "MgmtVLANFromSVI ''10.0.0.2'' [example_svi] = Some (30, ''10.0.0.2'')" by code_simp
  then show ?thesis
    using MgmtVLANFromSVI_exact [of 0 0 0 0 "[example_svi]" "''10.0.0.2''" 30 "''10.0.0.2''"] by blast
qed

end
