(* ===== verification/Vlan_Blast.thy ===== *)
theory Vlan_Blast
  imports Detour Vlan_Inventory Svi_Address "HOL-Library.Char_ord" "HOL-Library.List_Lexorder" "HOL-Library.Product_Lexorder"
begin

text \<open>
  What deleting a VLAN from a switch would cut off (\<open>internal/investigate/vlan_blast.go\<close>, lines 15 to 255
  and 485 to 1048): the neighbours below the switch that carry the VLAN, the devices below them, which
  of them keep a path to the root, the learned clients, the management address and the gateways.
  The texts for the user are values of a datatype with one constructor for each format.
\<close>

section \<open>Links and inventories\<close>

definition EffectiveVLANBlastMaxDepth :: "int \<Rightarrow> int" where
  "EffectiveVLANBlastMaxDepth configured =
     (if configured < 0 then 32 else if configured = 0 then 1000000 else configured)"

datatype LinkDir = DirUp | DirDown | DirPeer | DirUnknown | DirOverrideUp | DirOverrideDown

definition PortDescrLinkOverride :: "string \<Rightarrow> string option \<Rightarrow> string option \<Rightarrow> string option \<Rightarrow> string" where
  "PortDescrLinkOverride ifName ifDescr cliDescr descrOverride =
     (let parts = filter (\<lambda>t. t \<noteq> []) (map TrimSpace (ifName # concat (map (\<lambda>p. case p of None \<Rightarrow> [] | Some s \<Rightarrow> [s])
                    [descrOverride, cliDescr, ifDescr])));
          joined = ToLower (Join parts '' '')
      in if Contains joined ''downlink'' then ''downlink''
         else if Contains joined ''uplink'' then ''uplink'' else [])"

text \<open>The distances with their \<open>ok\<close> flags are options.\<close>
definition OrientLink :: "int option \<Rightarrow> int option \<Rightarrow> string \<Rightarrow> LinkDir" where
  "OrientLink distY distN override =
     (let ov = ToLower (TrimSpace override) in
      if ov = ''uplink'' \<or> ov = ''up'' then DirOverrideUp
      else if ov = ''downlink'' \<or> ov = ''down'' then DirOverrideDown
      else case (distY, distN) of
        (Some y, Some n) \<Rightarrow> if n < y then DirUp else if n > y then DirDown else DirPeer
      | _ \<Rightarrow> DirUnknown)"

definition IsTowardCore :: "LinkDir \<Rightarrow> bool" where
  "IsTowardCore dir \<longleftrightarrow> dir = DirUp \<or> dir = DirOverrideUp"

definition IsDownwardRisk :: "LinkDir \<Rightarrow> bool" where
  "IsDownwardRisk dir = (case dir of DirDown \<Rightarrow> True | DirPeer \<Rightarrow> True | DirUnknown \<Rightarrow> True | DirOverrideDown \<Rightarrow> True | _ \<Rightarrow> False)"

definition VLANOnLocalPort :: "VLANInventoryRow list \<Rightarrow> int \<Rightarrow> int \<Rightarrow> bool" where
  "VLANOnLocalPort inven vlanID ifIndex = InventoryVLANOnPort inven vlanID ifIndex"

text \<open>\<open>None\<close> is \<open>ok = false\<close>; otherwise whether the VLAN is in the database, whether on ports, and its name.\<close>
definition MatchVLANInInventory :: "VLANInventoryRow list \<Rightarrow> int \<Rightarrow> (bool \<times> bool \<times> string) option" where
  "MatchVLANInInventory inven vlanID = (case find (\<lambda>r. vr_VLANID r = vlanID) inven of
       None \<Rightarrow> None
     | Some r \<Rightarrow>
         let inDB = vr_InDatabase r; onPorts = VLANConfiguredOnPorts r in
         if inDB \<or> onPorts then Some (inDB, onPorts, TrimSpace (vr_Name r)) else None)"

section \<open>Input and result\<close>

record VLANBlastHit =
  bh_VLANID :: int
  bh_VLANName :: string
  bh_LocalIfIndex :: int
  bh_LocalIfName :: string
  bh_LinkDirection :: LinkDir
  bh_Reason :: string
  bh_Hop :: int
  bh_Redundant :: bool
  bh_Protocol :: string
  bh_RemotePortID :: "string option"
  bh_RemoteSysName :: "string option"
  bh_NeighborDeviceID :: device_id
  bh_NeighborName :: string
  bh_NeighborHost :: string
  bh_InDatabase :: bool
  bh_OnPorts :: bool
  bh_PathViaY :: "device_id list"
  bh_AlternatePath :: "device_id list"

record VLANBlastSkip =
  bs_VLANID :: int
  bs_IfIndex :: int
  bs_IfName :: string
  bs_Reason :: string
  bs_Protocol :: string
  bs_RemoteSysName :: "string option"
  bs_NeighborDeviceID :: device_id

record VLANBlastFDBClient =
  fc_MAC :: string
  fc_VLANID :: int
  fc_IfIndex :: int
  fc_IfName :: string
  fc_PortRole :: string

record VLANBlastMgmtRisk =
  mr_VLANID :: int
  mr_Host :: string
  mr_SVIIP :: string

record VLANBlastGateway =
  gw_VLANID :: int
  gw_DeviceID :: device_id
  gw_DeviceName :: string
  gw_Host :: string
  gw_SVIIP :: string

record LocalFDBHint =
  lf_MAC :: string
  lf_IfIndex :: int
  lf_VLANID :: int

record TrunkPortMeta =
  tp_Name :: string
  tp_Override :: string

record BlastNeighborEdge =
  ne_IfIndex :: int
  ne_Protocol :: string
  ne_RemoteID :: device_id
  ne_RemotePortID :: "string option"
  ne_RemoteSysName :: "string option"

record DeviceVLANInv =
  dv_Name :: string
  dv_Host :: string
  dv_Inv :: "VLANInventoryRow list"

text \<open>
  Functions and maps that may be \<open>nil\<close> are options where the code tests for it. The lookup reads the
  database; the code calls it once for each device and remembers the answer.
\<close>
record VLANBlastInput =
  bi_DeviceID :: device_id
  bi_VLANIDs :: "int list"
  bi_RootID :: device_id
  bi_RootSource :: string
  bi_Dist :: "(device_id \<rightharpoonup> int) option"
  bi_Adj :: "adjacency option"
  bi_LocalInv :: "VLANInventoryRow list"
  bi_TrunkPorts :: "int \<rightharpoonup> TrunkPortMeta"
  bi_Neighbors :: "BlastNeighborEdge list"
  bi_LookupDevice :: "(device_id \<Rightarrow> DeviceVLANInv option) option"
  bi_MaxDepth :: int
  bi_LocalPortRoles :: "(int \<rightharpoonup> string) option"
  bi_LocalIfNames :: "(int \<rightharpoonup> string) option"
  bi_LocalFDB :: "LocalFDBHint list"
  bi_LocalPortModes :: port_modes
  bi_DeviceHost :: string
  bi_LocalSVIs :: "SVIAddress list"
  bi_Gateways :: "VLANBlastGateway list"
  bi_EdgeCarriesVLAN :: "(device_id \<Rightarrow> device_id \<Rightarrow> int \<Rightarrow> bool) option"
  bi_HasEdgeVLANs :: bool

datatype Severity = SevInfo | SevWarning | SevCritical

datatype WarnVia = ViaNeighbor | ViaDescendant int
datatype WarnWhat = InDatabase | InDatabaseAndPorts | OnPorts

text \<open>One line of a warning: the port with its direction, the neighbour, how it is reached, where the VLAN is, whether there is a detour.\<close>
type_synonym warn_line = "string \<times> LinkDir \<times> string \<times> WarnVia \<times> WarnWhat \<times> bool"

datatype Warning = WarnVLAN int string "warn_line list" | WarnMgmt VLANBlastMgmtRisk
  | WarnGateway VLANBlastGateway | WarnFDB nat

datatype SummaryPart = NoRiskTowardCore | NoRisk | FDBOnSwitch int | MgmtDeleted | AlsoSwitches string | AffectedBelow int
  | GatewayCount int | OnlyGateways int | AffectsWithDetour string string | Disconnects string string | PartDetour int
  | MayAffect string int | MayAffectBelow | FDBCount int

record VLANBlastResult =
  br_RootDeviceID :: device_id
  br_RootSource :: string
  br_Hits :: "VLANBlastHit list"
  br_Skips :: "VLANBlastSkip list"
  br_TowardCoreSkipped :: nat
  br_AffectedDeviceIDs :: "device_id list"
  br_RedundantHitCount :: nat
  br_FDBClients :: "VLANBlastFDBClient list"
  br_MgmtRisks :: "VLANBlastMgmtRisk list"
  br_Gateways :: "VLANBlastGateway list"
  br_BlocksDelete :: bool
  br_Severity :: Severity
  br_Warnings :: "Warning list"
  br_Summary :: "SummaryPart list"

section \<open>Texts\<close>

definition vlanBlastEmptySummary :: "nat \<Rightarrow> SummaryPart list" where
  "vlanBlastEmptySummary towardCore = (if towardCore > 0 then [NoRiskTowardCore] else [NoRisk])"

text \<open>The bytes \<open>E2 80 A6\<close> are the ellipsis.\<close>
definition formatNamedList :: "string list \<Rightarrow> int \<Rightarrow> string" where
  "formatNamedList names maxShow0 =
     (let maxShow = (if maxShow0 < 1 then 12 else maxShow0) in
      if length names = 0 then []
      else if int (length names) \<le> maxShow then Join names '', ''
      else Join (take (nat maxShow) names) '', '' @ [CHR 0xE2, CHR 0x80, CHR 0xA6] @ '' (+'' @
           Itoa (int (length names) - maxShow) @ '')'')"

fun unique_names :: "device_id list \<Rightarrow> VLANBlastHit list \<Rightarrow> string list" where
  "unique_names seen [] = []"
| "unique_names seen (h # hs) =
     (let i = bh_NeighborDeviceID h in
      if i \<le> 0 \<or> i \<in> set seen then unique_names seen hs
      else (let nm = TrimSpace (bh_NeighborName h)
            in (if nm = [] then ''#'' @ Itoa i else nm) # unique_names (i # seen) hs))"

definition uniqueHitDeviceNames :: "VLANBlastHit list \<Rightarrow> string list" where
  "uniqueHitDeviceNames hits = sort (unique_names [] hits)"

definition formatVLANIDList :: "int list \<Rightarrow> string" where
  "formatVLANIDList ids = Join (map Itoa ids) '', ''"

definition VLANBlastSummary :: "VLANBlastHit list \<Rightarrow> nat \<Rightarrow> nat \<Rightarrow> nat \<Rightarrow> nat \<Rightarrow> nat \<Rightarrow> nat \<Rightarrow> SummaryPart list" where
  "VLANBlastSummary hits towardCoreSkipped affectedCount redundantCount fdbCount mgmtCount gwCount =
     (if length hits = 0 \<and> mgmtCount = 0 \<and> gwCount = 0 then
        vlanBlastEmptySummary towardCoreSkipped @ (if fdbCount > 0 then [FDBOnSwitch (int fdbCount)] else [])
      else
        let critical = length (filter (\<lambda>h. \<not> bh_Redundant h) hits);
            vlanCSV = formatVLANIDList (sort (remdups (map bh_VLANID hits)));
            nameList = formatNamedList (uniqueHitDeviceNames hits) 16
        in if mgmtCount > 0 then
             [MgmtDeleted] @ (if nameList \<noteq> [] then [AlsoSwitches nameList]
                              else if affectedCount > 0 then [AffectedBelow (int affectedCount)] else []) @
             (if gwCount > 0 then [GatewayCount (int gwCount)] else [])
           else if vlanCSV = [] \<and> gwCount > 0 then [OnlyGateways (int gwCount)]
           else
             (if nameList \<noteq> [] then
                (if redundantCount > 0 \<and> critical = 0 then [AffectsWithDetour vlanCSV nameList]
                 else [Disconnects vlanCSV nameList] @ (if redundantCount > 0 then [PartDetour (int redundantCount)] else []))
              else if vlanCSV \<noteq> [] then [MayAffect vlanCSV (int affectedCount)]
              else [MayAffectBelow]) @
             (if gwCount > 0 then [GatewayCount (int gwCount)] else []) @
             (if fdbCount > 0 then [FDBCount (int fdbCount)] else []))"

definition warn_line_of :: "VLANBlastHit \<Rightarrow> warn_line" where
  "warn_line_of h =
     (if bh_LocalIfName h = [] then if_index_name (bh_LocalIfIndex h) else bh_LocalIfName h,
      bh_LinkDirection h, bh_NeighborName h,
      if bh_Reason h = ''descendant'' then ViaDescendant (bh_Hop h) else ViaNeighbor,
      if bh_InDatabase h \<and> bh_OnPorts h then InDatabaseAndPorts else if bh_OnPorts h then OnPorts else InDatabase,
      bh_Redundant h)"

text \<open>Grouped by VLAN, device and name, the groups in the order of their first hit.\<close>
definition warn_group :: "((int \<times> device_id \<times> string) \<times> warn_line list) list \<Rightarrow> VLANBlastHit
    \<Rightarrow> ((int \<times> device_id \<times> string) \<times> warn_line list) list" where
  "warn_group groups h =
     (let k = (bh_VLANID h, bh_NeighborDeviceID h, bh_NeighborName h)
      in AList.update k ((case map_of groups k of None \<Rightarrow> [] | Some ls \<Rightarrow> ls) @ [warn_line_of h]) groups)"

definition VLANBlastWarnings :: "VLANBlastHit list \<Rightarrow> Warning list" where
  "VLANBlastWarnings hits =
     (if length hits = 0 then []
      else map (\<lambda>((vid, _, name), ls). WarnVLAN vid name ls) (foldl warn_group [] hits))"

section \<open>Clients in the forwarding table\<close>

definition fdb_client :: "VLANBlastInput \<Rightarrow> int list \<Rightarrow> VLANBlastFDBClient list \<Rightarrow> LocalFDBHint \<Rightarrow> VLANBlastFDBClient list" where
  "fdb_client inp downIf out e =
     (if lf_VLANID e \<notin> set (bi_VLANIDs inp) then out
      else let role = (case bi_LocalPortRoles inp of None \<Rightarrow> []
                       | Some m \<Rightarrow> ToLower (TrimSpace (case m (lf_IfIndex e) of None \<Rightarrow> [] | Some r \<Rightarrow> r)))
        in if role \<noteq> ''access'' \<and> lf_IfIndex e \<notin> set downIf then out
           else if list_ex (\<lambda>c. fc_MAC c = lf_MAC e \<and> fc_IfIndex c = lf_IfIndex e \<and> fc_VLANID c = lf_VLANID e) out then out
           else out @ [\<lparr>fc_MAC = lf_MAC e, fc_VLANID = lf_VLANID e, fc_IfIndex = lf_IfIndex e,
                  fc_IfName = (case bi_LocalIfNames inp of None \<Rightarrow> [] | Some m \<Rightarrow> (case m (lf_IfIndex e) of None \<Rightarrow> [] | Some n \<Rightarrow> n)),
                  fc_PortRole = role\<rparr>])"

definition collectVLANBlastFDBClients :: "VLANBlastInput \<Rightarrow> int list \<Rightarrow> VLANBlastFDBClient list" where
  "collectVLANBlastFDBClients inp downIf =
     (if length (bi_LocalFDB inp) = 0 \<or> length (bi_VLANIDs inp) = 0 then []
      else take 50 (sort_key (\<lambda>c. (fc_VLANID c, fc_IfIndex c, fc_MAC c)) (foldl (fdb_client inp downIf) [] (bi_LocalFDB inp))))"

section \<open>The analysis\<close>

text \<open>The keys of \<open>seenHit\<close>: \<open>vid:ifIndex:remote:protocol\<close> and \<open>vid:desc:ifIndex:device\<close>.\<close>
datatype seen_key = HitKey int int device_id string | DescKey int int device_id

record blast_state =
  bl_hits :: "VLANBlastHit list"
  bl_skips :: "VLANBlastSkip list"
  bl_toward :: nat
  bl_seen :: "seen_key list"
  bl_affected :: "device_id list"
  bl_downIf :: "int list"

definition blast_lookup :: "VLANBlastInput \<Rightarrow> device_id \<Rightarrow> DeviceVLANInv option" where
  "blast_lookup inp i = (case bi_LookupDevice inp of None \<Rightarrow> None | Some f \<Rightarrow> f i)"

definition blast_info :: "VLANBlastInput \<Rightarrow> device_id \<Rightarrow> DeviceVLANInv" where
  "blast_info inp i = (case blast_lookup inp i of Some info \<Rightarrow> info | None \<Rightarrow> \<lparr>dv_Name = [], dv_Host = [], dv_Inv = []\<rparr>)"

definition blast_has :: "VLANBlastInput \<Rightarrow> device_id \<Rightarrow> int \<Rightarrow> (bool \<times> bool \<times> string) option" where
  "blast_has inp i vid = (case blast_lookup inp i of None \<Rightarrow> None | Some info \<Rightarrow> MatchVLANInInventory (dv_Inv info) vid)"

definition blast_dist :: "VLANBlastInput \<Rightarrow> device_id \<Rightarrow> int option" where
  "blast_dist inp i = (case bi_Dist inp of None \<Rightarrow> None | Some m \<Rightarrow> m i)"

definition blast_adj :: "VLANBlastInput \<Rightarrow> adjacency" where
  "blast_adj inp = (case bi_Adj inp of None \<Rightarrow> [] | Some g \<Rightarrow> g)"

definition blast_depth :: "VLANBlastInput \<Rightarrow> int" where
  "blast_depth inp = (if bi_MaxDepth inp < 0 then 32 else EffectiveVLANBlastMaxDepth (bi_MaxDepth inp))"

definition rooted :: "VLANBlastInput \<Rightarrow> bool" where
  "rooted inp \<longleftrightarrow> bi_RootID inp > 0 \<and> bi_Adj inp \<noteq> None"

definition blast_meta :: "VLANBlastInput \<Rightarrow> BlastNeighborEdge \<Rightarrow> TrunkPortMeta" where
  "blast_meta inp n = (case bi_TrunkPorts inp (ne_IfIndex n) of
       Some m \<Rightarrow> m | None \<Rightarrow> \<lparr>tp_Name = if_index_name (ne_IfIndex n), tp_Override = []\<rparr>)"

definition blast_dir :: "VLANBlastInput \<Rightarrow> BlastNeighborEdge \<Rightarrow> LinkDir" where
  "blast_dir inp n = OrientLink (blast_dist inp (bi_DeviceID inp)) (blast_dist inp (ne_RemoteID n)) (tp_Override (blast_meta inp n))"

definition blast_on_link :: "VLANBlastInput \<Rightarrow> BlastNeighborEdge \<Rightarrow> int \<Rightarrow> bool" where
  "blast_on_link inp n vid = (case bi_EdgeCarriesVLAN inp of
       Some f \<Rightarrow> if bi_HasEdgeVLANs inp then f (bi_DeviceID inp) (ne_RemoteID n) vid
         else VLANCarriedOnPort (bi_LocalInv inp) vid (ne_IfIndex n) (tp_Name (blast_meta inp n)) (bi_LocalPortModes inp)
     | None \<Rightarrow> VLANCarriedOnPort (bi_LocalInv inp) vid (ne_IfIndex n) (tp_Name (blast_meta inp n)) (bi_LocalPortModes inp))"

definition blast_skip :: "BlastNeighborEdge \<Rightarrow> int \<Rightarrow> string \<Rightarrow> string \<Rightarrow> device_id \<Rightarrow> VLANBlastSkip" where
  "blast_skip n vid name reason dev = \<lparr>bs_VLANID = vid, bs_IfIndex = ne_IfIndex n, bs_IfName = name, bs_Reason = reason,
     bs_Protocol = ne_Protocol n, bs_RemoteSysName = ne_RemoteSysName n, bs_NeighborDeviceID = dev\<rparr>"

definition add_skip :: "blast_state \<Rightarrow> VLANBlastSkip \<Rightarrow> blast_state" where
  "add_skip st sk = st\<lparr>bl_skips := bl_skips st @ [sk]\<rparr>"

text \<open>The hit of a direct neighbour, and whether it has a path to the root around the switch.\<close>
definition neighbor_redundant :: "VLANBlastInput \<Rightarrow> device_id \<Rightarrow> bool" where
  "neighbor_redundant inp i \<longleftrightarrow> rooted inp \<and> HasPathAvoiding (blast_adj inp) i (bi_RootID inp) (bi_DeviceID inp)"

definition neighbor_hit :: "VLANBlastInput \<Rightarrow> BlastNeighborEdge \<Rightarrow> int \<Rightarrow> bool \<times> bool \<times> string \<Rightarrow> VLANBlastHit" where
  "neighbor_hit inp n vid match = (case match of (inDB, onPorts, vname) \<Rightarrow>
     let redundant = neighbor_redundant inp (ne_RemoteID n); info = blast_info inp (ne_RemoteID n) in
     \<lparr>bh_VLANID = vid, bh_VLANName = vname, bh_LocalIfIndex = ne_IfIndex n, bh_LocalIfName = tp_Name (blast_meta inp n),
      bh_LinkDirection = blast_dir inp n, bh_Reason = ''neighbor_has_vlan'', bh_Hop = 1, bh_Redundant = redundant,
      bh_Protocol = ne_Protocol n, bh_RemotePortID = ne_RemotePortID n, bh_RemoteSysName = ne_RemoteSysName n,
      bh_NeighborDeviceID = ne_RemoteID n, bh_NeighborName = dv_Name info, bh_NeighborHost = dv_Host info,
      bh_InDatabase = inDB, bh_OnPorts = onPorts,
      bh_PathViaY = (if rooted inp then ShortestPath (blast_adj inp) (ne_RemoteID n) (bi_RootID inp) 0 else []),
      bh_AlternatePath = (if redundant then ShortestPath (blast_adj inp) (ne_RemoteID n) (bi_RootID inp) (bi_DeviceID inp) else [])\<rparr>)"

text \<open>The hit of a device below the neighbour: it inherits a detour of the neighbour, else its own is searched.\<close>
definition descendant_hit :: "VLANBlastInput \<Rightarrow> BlastNeighborEdge \<Rightarrow> int \<Rightarrow> device_id \<Rightarrow> int \<Rightarrow> bool \<times> bool \<times> string \<Rightarrow> VLANBlastHit" where
  "descendant_hit inp n vid d depth match = (case match of (inDB, onPorts, vname) \<Rightarrow>
     let redundant = neighbor_redundant inp (ne_RemoteID n) \<or> neighbor_redundant inp d; info = blast_info inp d;
         hop = (if 1 + depth < 2 then 2 else 1 + depth) in
     \<lparr>bh_VLANID = vid, bh_VLANName = vname, bh_LocalIfIndex = ne_IfIndex n, bh_LocalIfName = tp_Name (blast_meta inp n),
      bh_LinkDirection = blast_dir inp n, bh_Reason = ''descendant'', bh_Hop = hop, bh_Redundant = redundant,
      bh_Protocol = ne_Protocol n, bh_RemotePortID = None, bh_RemoteSysName = None,
      bh_NeighborDeviceID = d, bh_NeighborName = dv_Name info, bh_NeighborHost = dv_Host info,
      bh_InDatabase = inDB, bh_OnPorts = onPorts,
      bh_PathViaY = (if rooted inp then ShortestPath (blast_adj inp) d (bi_RootID inp) 0 else []),
      bh_AlternatePath = (if rooted inp \<and> redundant then ShortestPath (blast_adj inp) d (bi_RootID inp) (bi_DeviceID inp) else [])\<rparr>)"

definition blast_desc :: "VLANBlastInput \<Rightarrow> BlastNeighborEdge \<Rightarrow> int \<Rightarrow> blast_state \<Rightarrow> device_id \<times> int \<Rightarrow> blast_state" where
  "blast_desc inp n vid st dd = (case dd of (d, depth) \<Rightarrow>
     let key = DescKey vid (ne_IfIndex n) d in
     if key \<in> set (bl_seen st) then st
     else let st = st\<lparr>bl_seen := key # bl_seen st\<rparr> in
       case blast_has inp d vid of
         None \<Rightarrow> st
       | Some match \<Rightarrow> st\<lparr>bl_hits := bl_hits st @ [descendant_hit inp n vid d depth match],
                         bl_affected := List.insert d (bl_affected st)\<rparr>)"

definition blast_walk :: "VLANBlastInput \<Rightarrow> BlastNeighborEdge \<Rightarrow> int \<Rightarrow> (device_id \<times> int) list" where
  "blast_walk inp n vid = WalkDownWithVLAN (blast_adj inp) (ne_RemoteID n) (bi_DeviceID inp) (blast_depth inp)
     (blast_dist inp) (\<lambda>i. blast_has inp i vid \<noteq> None)"

definition blast_vlan :: "VLANBlastInput \<Rightarrow> BlastNeighborEdge \<Rightarrow> blast_state \<Rightarrow> int \<Rightarrow> blast_state" where
  "blast_vlan inp n st vid =
     (let name = tp_Name (blast_meta inp n); dev = ne_RemoteID n; dir = blast_dir inp n in
      if \<not> blast_on_link inp n vid then add_skip st (blast_skip n vid name ''vlan_not_on_link'' dev)
      else case blast_has inp dev vid of
        None \<Rightarrow> add_skip st (blast_skip n vid name ''neighbor_no_vlan'' dev)
      | Some match \<Rightarrow>
          let key = HitKey vid (ne_IfIndex n) dev (ne_Protocol n) in
          if key \<in> set (bl_seen st) then st
          else let st = st\<lparr>bl_seen := key # bl_seen st\<rparr> in
            if IsTowardCore dir then
              add_skip (st\<lparr>bl_toward := bl_toward st + 1\<rparr>) (blast_skip n vid name ''toward_core'' dev)
            else if \<not> IsDownwardRisk dir then add_skip st (blast_skip n vid name ''not_downward'' dev)
            else foldl (blast_desc inp n vid)
                   (st\<lparr>bl_hits := bl_hits st @ [neighbor_hit inp n vid match],
                      bl_affected := List.insert dev (bl_affected st),
                      bl_downIf := List.insert (ne_IfIndex n) (bl_downIf st)\<rparr>)
                   (blast_walk inp n vid))"

definition blast_neighbor :: "VLANBlastInput \<Rightarrow> blast_state \<Rightarrow> BlastNeighborEdge \<Rightarrow> blast_state" where
  "blast_neighbor inp st n =
     (if ne_RemoteID n \<le> 0 \<or> ne_RemoteID n = bi_DeviceID inp then
        (let name = (case bi_TrunkPorts inp (ne_IfIndex n) of Some m \<Rightarrow> tp_Name m | None \<Rightarrow> [])
         in foldl (\<lambda>st vid. add_skip st (blast_skip n vid name ''unresolved_neighbor'' 0)) st (bi_VLANIDs inp))
      else foldl (blast_vlan inp n) st (bi_VLANIDs inp))"

definition blast_scan :: "VLANBlastInput \<Rightarrow> blast_state" where
  "blast_scan inp = foldl (blast_neighbor inp)
     \<lparr>bl_hits = [], bl_skips = [], bl_toward = 0, bl_seen = [], bl_affected = [], bl_downIf = []\<rparr> (bi_Neighbors inp)"

definition hit_order :: "VLANBlastHit \<Rightarrow> int \<times> bool \<times> int \<times> string \<times> int" where
  "hit_order h = (bh_VLANID h, bh_Redundant h, bh_Hop h, bh_NeighborName h, bh_LocalIfIndex h)"

definition blast_mgmt :: "VLANBlastInput \<Rightarrow> VLANBlastMgmtRisk list" where
  "blast_mgmt inp = (case MgmtVLANFromSVI (bi_DeviceHost inp) (bi_LocalSVIs inp) of
       Some (vid, sip) \<Rightarrow>
         if vid \<in> set (bi_VLANIDs inp) then [\<lparr>mr_VLANID = vid, mr_Host = TrimSpace (bi_DeviceHost inp), mr_SVIIP = sip\<rparr>] else []
     | None \<Rightarrow> [])"

definition blast_gateways :: "VLANBlastInput \<Rightarrow> VLANBlastGateway list" where
  "blast_gateways inp = sort_key (\<lambda>g. (gw_VLANID g, gw_DeviceID g))
     (filter (\<lambda>g. gw_VLANID g \<in> set (bi_VLANIDs inp) \<and> gw_DeviceID g \<noteq> bi_DeviceID inp) (bi_Gateways inp))"

definition blast_severity :: "VLANBlastMgmtRisk list \<Rightarrow> VLANBlastGateway list \<Rightarrow> VLANBlastHit list \<Rightarrow> Severity" where
  "blast_severity mgmt gws hits =
     (let criticalHits = length (filter (\<lambda>h. \<not> bh_Redundant h) hits) in
      if length mgmt > 0 then SevCritical
      else if length gws > 0 \<and> criticalHits > 0 then SevWarning
      else if length gws > 0 then SevWarning
      else if criticalHits > 0 then SevWarning
      else SevInfo)"

definition AnalyzeVLANDeleteBlast :: "VLANBlastInput \<Rightarrow> VLANBlastResult" where
  "AnalyzeVLANDeleteBlast inp =
     (if bi_LookupDevice inp = None \<or> length (bi_VLANIDs inp) = 0 then
        \<lparr>br_RootDeviceID = bi_RootID inp, br_RootSource = bi_RootSource inp, br_Hits = [], br_Skips = [],
         br_TowardCoreSkipped = 0, br_AffectedDeviceIDs = [], br_RedundantHitCount = 0, br_FDBClients = [],
         br_MgmtRisks = [], br_Gateways = [], br_BlocksDelete = False, br_Severity = SevInfo, br_Warnings = [],
         br_Summary = vlanBlastEmptySummary 0\<rparr>
      else
        let st = blast_scan inp;
            hits = sort_key hit_order (bl_hits st);
            affected = sort (bl_affected st);
            redundantCount = length (filter bh_Redundant hits);
            clients = collectVLANBlastFDBClients inp (bl_downIf st);
            mgmt = blast_mgmt inp;
            gws = blast_gateways inp
        in \<lparr>br_RootDeviceID = bi_RootID inp, br_RootSource = bi_RootSource inp, br_Hits = hits,
            br_Skips = (if length (bl_skips st) > 40 then take 40 (bl_skips st) else bl_skips st),
            br_TowardCoreSkipped = bl_toward st, br_AffectedDeviceIDs = affected, br_RedundantHitCount = redundantCount,
            br_FDBClients = clients, br_MgmtRisks = mgmt, br_Gateways = gws, br_BlocksDelete = length mgmt > 0,
            br_Severity = blast_severity mgmt gws hits,
            br_Warnings = map WarnMgmt (rev mgmt) @ VLANBlastWarnings hits @ map WarnGateway gws @
              (if length clients > 0 then [WarnFDB (length clients)] else []),
            br_Summary = VLANBlastSummary hits (bl_toward st) (length affected) redundantCount (length clients) (length mgmt) (length gws)\<rparr>)"

section \<open>Which hits are found\<close>

text \<open>A link and a VLAN that lead to a warning.\<close>
definition relevant :: "VLANBlastInput \<Rightarrow> BlastNeighborEdge \<Rightarrow> int \<Rightarrow> bool" where
  "relevant inp n vid \<longleftrightarrow> 0 < ne_RemoteID n \<and> ne_RemoteID n \<noteq> bi_DeviceID inp \<and> blast_on_link inp n vid \<and>
     blast_has inp (ne_RemoteID n) vid \<noteq> None \<and> IsDownwardRisk (blast_dir inp n)"

definition hit_of :: "VLANBlastInput \<Rightarrow> VLANBlastHit \<Rightarrow> bool" where
  "hit_of inp h \<longleftrightarrow> (\<exists>n\<in>set (bi_Neighbors inp). \<exists>vid\<in>set (bi_VLANIDs inp). relevant inp n vid \<and>
     ((\<exists>m. blast_has inp (ne_RemoteID n) vid = Some m \<and> h = neighbor_hit inp n vid m) \<or>
      (\<exists>d k m. (d, k) \<in> set (blast_walk inp n vid) \<and> blast_has inp d vid = Some m \<and> h = descendant_hit inp n vid d k m)))"

definition covered :: "VLANBlastHit list \<Rightarrow> int \<Rightarrow> int \<Rightarrow> device_id \<Rightarrow> bool" where
  "covered hits vid i dev \<longleftrightarrow> (\<exists>h\<in>set hits. bh_VLANID h = vid \<and> bh_LocalIfIndex h = i \<and> bh_NeighborDeviceID h = dev)"

definition all_covered :: "VLANBlastInput \<Rightarrow> VLANBlastHit list \<Rightarrow> BlastNeighborEdge \<Rightarrow> int \<Rightarrow> bool" where
  "all_covered inp hits n vid \<longleftrightarrow> covered hits vid (ne_IfIndex n) (ne_RemoteID n) \<and>
     (\<forall>(d, k)\<in>set (blast_walk inp n vid). covered hits vid (ne_IfIndex n) d)"

definition key_of :: "BlastNeighborEdge \<Rightarrow> int \<Rightarrow> seen_key" where
  "key_of n vid = HitKey vid (ne_IfIndex n) (ne_RemoteID n) (ne_Protocol n)"

definition base_inv :: "VLANBlastInput \<Rightarrow> blast_state \<Rightarrow> bool" where
  "base_inv inp st \<longleftrightarrow> (\<forall>h\<in>set (bl_hits st). hit_of inp h) \<and> distinct (bl_affected st) \<and>
     set (bl_affected st) = bh_NeighborDeviceID ` set (bl_hits st) \<and>
     (\<forall>vid i d. DescKey vid i d \<in> set (bl_seen st) \<longrightarrow> covered (bl_hits st) vid i d)"

definition blast_inv :: "VLANBlastInput \<Rightarrow> blast_state \<Rightarrow> bool" where
  "blast_inv inp st \<longleftrightarrow> base_inv inp st \<and>
     (\<forall>n vid. key_of n vid \<in> set (bl_seen st) \<and> IsDownwardRisk (blast_dir inp n) \<longrightarrow> all_covered inp (bl_hits st) n vid)"

lemma covered_mono: "covered hits vid i d \<Longrightarrow> set hits \<subseteq> set hits' \<Longrightarrow> covered hits' vid i d"
  by (auto simp: covered_def)

lemma covered_snoc: "covered hits vid i d \<Longrightarrow> covered (hits @ [h]) vid i d"
  by (erule covered_mono) auto

lemma all_covered_mono: "all_covered inp hits n vid \<Longrightarrow> set hits \<subseteq> set hits' \<Longrightarrow> all_covered inp hits' n vid"
  by (auto simp: all_covered_def intro: covered_mono)

lemma hit_simps [simp]:
  "bh_VLANID (neighbor_hit inp n vid m) = vid" "bh_LocalIfIndex (neighbor_hit inp n vid m) = ne_IfIndex n"
  "bh_NeighborDeviceID (neighbor_hit inp n vid m) = ne_RemoteID n"
  "bh_Redundant (neighbor_hit inp n vid m) = neighbor_redundant inp (ne_RemoteID n)"
  "bh_VLANID (descendant_hit inp n vid d k m) = vid" "bh_LocalIfIndex (descendant_hit inp n vid d k m) = ne_IfIndex n"
  "bh_NeighborDeviceID (descendant_hit inp n vid d k m) = d"
  "bh_Redundant (descendant_hit inp n vid d k m) \<longleftrightarrow> neighbor_redundant inp (ne_RemoteID n) \<or> neighbor_redundant inp d"
  by (auto simp: neighbor_hit_def descendant_hit_def Let_def split: prod.splits)

lemma same_key:
  "key_of n vid = key_of n' vid' \<Longrightarrow> vid = vid' \<and> blast_dir inp n = blast_dir inp n' \<and> all_covered inp hits n vid = all_covered inp hits n' vid'"
  by (simp add: key_of_def blast_dir_def blast_meta_def all_covered_def blast_walk_def split: option.split)

lemma blast_desc_step:
  assumes inv: "base_inv inp st" and n: "n \<in> set (bi_Neighbors inp)" "vid \<in> set (bi_VLANIDs inp)" "relevant inp n vid"
    and d: "(d, k) \<in> set (blast_walk inp n vid)" "blast_has inp d vid \<noteq> None"
  shows "base_inv inp (blast_desc inp n vid st (d, k))"
    "set (bl_hits st) \<subseteq> set (bl_hits (blast_desc inp n vid st (d, k)))"
    "covered (bl_hits (blast_desc inp n vid st (d, k))) vid (ne_IfIndex n) d"
    "key_of n' vid' \<in> set (bl_seen (blast_desc inp n vid st (d, k))) \<longleftrightarrow> key_of n' vid' \<in> set (bl_seen st)"
proof -
  obtain m where m: "blast_has inp d vid = Some m" using d(2) by blast
  let ?h = "descendant_hit inp n vid d k m"
  have "hit_of inp ?h" unfolding hit_of_def using n d(1) m by blast
  moreover have "covered (hits @ [?h]) vid (ne_IfIndex n) d" for hits by (auto simp: covered_def)
  moreover have "covered hits u i e \<Longrightarrow> covered (hits @ [?h]) u i e" for hits u i e by (erule covered_mono) auto
  ultimately show "base_inv inp (blast_desc inp n vid st (d, k))" "set (bl_hits st) \<subseteq> set (bl_hits (blast_desc inp n vid st (d, k)))"
    "covered (bl_hits (blast_desc inp n vid st (d, k))) vid (ne_IfIndex n) d"
    "key_of n' vid' \<in> set (bl_seen (blast_desc inp n vid st (d, k))) \<longleftrightarrow> key_of n' vid' \<in> set (bl_seen st)"
    using inv m by (auto simp: blast_desc_def base_inv_def Let_def key_of_def)
qed

lemma blast_desc_fold:
  assumes "n \<in> set (bi_Neighbors inp)" "vid \<in> set (bi_VLANIDs inp)" "relevant inp n vid"
  shows "base_inv inp st \<Longrightarrow> set ds \<subseteq> set (blast_walk inp n vid) \<Longrightarrow> (\<forall>(d, k)\<in>set ds. blast_has inp d vid \<noteq> None) \<Longrightarrow>
    base_inv inp (foldl (blast_desc inp n vid) st ds) \<and> set (bl_hits st) \<subseteq> set (bl_hits (foldl (blast_desc inp n vid) st ds)) \<and>
    (\<forall>(d, k)\<in>set ds. covered (bl_hits (foldl (blast_desc inp n vid) st ds)) vid (ne_IfIndex n) d) \<and>
    (\<forall>n' vid'. key_of n' vid' \<in> set (bl_seen (foldl (blast_desc inp n vid) st ds)) \<longleftrightarrow> key_of n' vid' \<in> set (bl_seen st))"
proof (induction ds arbitrary: st)
  case (Cons dk ds)
  obtain d k where dk: "dk = (d, k)" by (metis surj_pair)
  note step = blast_desc_step [OF Cons.prems(1) assms, of d k]
  have m: "(d, k) \<in> set (blast_walk inp n vid)" "blast_has inp d vid \<noteq> None" using Cons.prems dk by auto
  have IH: "base_inv inp (foldl (blast_desc inp n vid) (blast_desc inp n vid st (d, k)) ds) \<and>
    set (bl_hits (blast_desc inp n vid st (d, k))) \<subseteq> set (bl_hits (foldl (blast_desc inp n vid) (blast_desc inp n vid st (d, k)) ds)) \<and>
    (\<forall>(d', k')\<in>set ds. covered (bl_hits (foldl (blast_desc inp n vid) (blast_desc inp n vid st (d, k)) ds)) vid (ne_IfIndex n) d') \<and>
    (\<forall>n' vid'. key_of n' vid' \<in> set (bl_seen (foldl (blast_desc inp n vid) (blast_desc inp n vid st (d, k)) ds)) \<longleftrightarrow>
       key_of n' vid' \<in> set (bl_seen (blast_desc inp n vid st (d, k))))"
    using Cons.prems dk by (intro Cons.IH step(1) m) auto
  then have "covered (bl_hits (foldl (blast_desc inp n vid) (blast_desc inp n vid st (d, k)) ds)) vid (ne_IfIndex n) d"
    using step(3) [OF m] covered_mono by blast
  with IH step(2,4) [OF m] dk show ?case by auto
qed auto

lemma blast_depth_pos: "1 \<le> blast_depth inp"
  by (auto simp: blast_depth_def EffectiveVLANBlastMaxDepth_def)

text \<open>What the walk below a neighbour yields.\<close>
lemma blast_walk_iff:
  "0 < ne_RemoteID n \<Longrightarrow> (d, k) \<in> set (blast_walk inp n vid) \<longleftrightarrow>
     d \<in> reach (down_succ (blast_adj inp) (blast_dist inp) [bi_DeviceID inp]) (ne_RemoteID n) \<and> d \<noteq> ne_RemoteID n \<and>
     blast_has inp d vid \<noteq> None \<and>
     k = int (dist (down_succ (blast_adj inp) (blast_dist inp) [bi_DeviceID inp]) (ne_RemoteID n) d) \<and> k \<le> blast_depth inp"
  unfolding blast_walk_def by (rule WalkDown_spec(3)) (auto simp: blast_depth_pos)

lemma skip_inv: "blast_inv inp (add_skip st sk) = blast_inv inp st" "bl_seen (add_skip st sk) = bl_seen st"
  "bl_hits (add_skip st sk) = bl_hits st"
  by (simp_all add: add_skip_def blast_inv_def base_inv_def)

lemma seen_inv:
  assumes inv: "blast_inv inp st" and dir: "\<not> IsDownwardRisk (blast_dir inp n)"
  shows "blast_inv inp (st\<lparr>bl_seen := key_of n vid # bl_seen st, bl_toward := t\<rparr>)"
proof -
  have "key_of n' vid' = key_of n vid \<Longrightarrow> \<not> IsDownwardRisk (blast_dir inp n')" for n' vid'
    using dir same_key [of n' vid' n vid inp] by simp
  moreover have "DescKey u i d \<noteq> key_of n vid" for u i d by (simp add: key_of_def)
  ultimately show ?thesis using inv by (auto simp: blast_inv_def base_inv_def)
qed

lemma hit_inv:
  assumes inv: "blast_inv inp st" and n: "n \<in> set (bi_Neighbors inp)" "vid \<in> set (bi_VLANIDs inp)" "relevant inp n vid"
    and m: "blast_has inp (ne_RemoteID n) vid = Some m"
  defines "st0 \<equiv> st\<lparr>bl_seen := key_of n vid # bl_seen st, bl_hits := bl_hits st @ [neighbor_hit inp n vid m],
      bl_affected := List.insert (ne_RemoteID n) (bl_affected st), bl_downIf := List.insert (ne_IfIndex n) (bl_downIf st)\<rparr>"
  defines "st' \<equiv> foldl (blast_desc inp n vid) st0 (blast_walk inp n vid)"
  shows "blast_inv inp st' \<and> set (bl_hits st) \<subseteq> set (bl_hits st') \<and> key_of n vid \<in> set (bl_seen st') \<and>
    (\<forall>n' vid'. key_of n' vid' \<in> set (bl_seen st) \<longrightarrow> key_of n' vid' \<in> set (bl_seen st'))"
proof -
  have "hit_of inp (neighbor_hit inp n vid m)" unfolding hit_of_def using n m by blast
  then have base: "base_inv inp st0"
    using inv covered_snoc by (auto simp: blast_inv_def base_inv_def st0_def key_of_def)
  have walk: "\<forall>(d, k)\<in>set (blast_walk inp n vid). blast_has inp d vid \<noteq> None"
    using n(3) by (auto simp: blast_walk_iff relevant_def)
  note fold = blast_desc_fold [OF n base subset_refl walk, folded st'_def]
  have hits: "set (bl_hits st) \<subseteq> set (bl_hits st')" using fold by (auto simp: st0_def)
  have "neighbor_hit inp n vid m \<in> set (bl_hits st')" using fold by (auto simp: st0_def)
  then have "covered (bl_hits st') vid (ne_IfIndex n) (ne_RemoteID n)" unfolding covered_def by (rule bexI [rotated]) simp
  with fold have cov: "all_covered inp (bl_hits st') n vid" by (simp add: all_covered_def)
  have keys: "key_of n' vid' \<in> set (bl_seen st') \<longleftrightarrow> key_of n' vid' = key_of n vid \<or> key_of n' vid' \<in> set (bl_seen st)" for n' vid'
    using fold by (simp add: st0_def)
  have "all_covered inp (bl_hits st') n' vid'" if "key_of n' vid' \<in> set (bl_seen st')" "IsDownwardRisk (blast_dir inp n')" for n' vid'
  proof (cases "key_of n' vid' = key_of n vid")
    case True
    with cov show ?thesis using same_key by metis
  next
    case False
    with that keys inv have "all_covered inp (bl_hits st) n' vid'" by (simp add: blast_inv_def)
    then show ?thesis using hits by (rule all_covered_mono)
  qed
  with fold keys hits show ?thesis by (auto simp: blast_inv_def)
qed

definition keys_le :: "blast_state \<Rightarrow> blast_state \<Rightarrow> bool" where
  "keys_le st st' \<longleftrightarrow> (\<forall>n vid. key_of n vid \<in> set (bl_seen st) \<longrightarrow> key_of n vid \<in> set (bl_seen st'))"

lemma toward_not_risk: "IsTowardCore dir \<Longrightarrow> \<not> IsDownwardRisk dir"
  by (auto simp: IsTowardCore_def IsDownwardRisk_def)

lemma blast_vlan_step:
  assumes inv: "blast_inv inp st" and n: "n \<in> set (bi_Neighbors inp)" "vid \<in> set (bi_VLANIDs inp)"
    and r: "0 < ne_RemoteID n" "ne_RemoteID n \<noteq> bi_DeviceID inp"
  shows "blast_inv inp (blast_vlan inp n st vid) \<and> keys_le st (blast_vlan inp n st vid) \<and>
    (relevant inp n vid \<longrightarrow> key_of n vid \<in> set (bl_seen (blast_vlan inp n st vid)))"
proof (cases "blast_on_link inp n vid \<and> blast_has inp (ne_RemoteID n) vid \<noteq> None")
  case False
  then have "\<exists>sk. blast_vlan inp n st vid = add_skip st sk"
    by (cases "blast_has inp (ne_RemoteID n) vid") (auto simp: blast_vlan_def Let_def)
  with False inv show ?thesis by (auto simp: skip_inv keys_le_def relevant_def)
next
  case link: True
  then obtain m where m: "blast_has inp (ne_RemoteID n) vid = Some m" by blast
  show ?thesis
  proof (cases "key_of n vid \<in> set (bl_seen st)")
    case True
    then have "blast_vlan inp n st vid = st" using link m by (simp add: blast_vlan_def key_of_def Let_def)
    with True inv show ?thesis by (simp add: keys_le_def)
  next
    case new: False
    show ?thesis
    proof (cases "IsDownwardRisk (blast_dir inp n)")
      case True
      then have "relevant inp n vid" using link r by (simp add: relevant_def)
      moreover have "blast_vlan inp n st vid = foldl (blast_desc inp n vid)
          (st\<lparr>bl_seen := key_of n vid # bl_seen st, bl_hits := bl_hits st @ [neighbor_hit inp n vid m],
            bl_affected := List.insert (ne_RemoteID n) (bl_affected st), bl_downIf := List.insert (ne_IfIndex n) (bl_downIf st)\<rparr>)
          (blast_walk inp n vid)"
        using True new link m toward_not_risk [of "blast_dir inp n"] by (auto simp: blast_vlan_def key_of_def Let_def)
      ultimately show ?thesis using hit_inv [OF inv n _ m] by (simp add: keys_le_def)
    next
      case False
      have "blast_vlan inp n st vid = (if IsTowardCore (blast_dir inp n)
          then add_skip (st\<lparr>bl_seen := key_of n vid # bl_seen st, bl_toward := bl_toward st + 1\<rparr>)
                 (blast_skip n vid (tp_Name (blast_meta inp n)) ''toward_core'' (ne_RemoteID n))
          else add_skip (st\<lparr>bl_seen := key_of n vid # bl_seen st, bl_toward := bl_toward st\<rparr>)
                 (blast_skip n vid (tp_Name (blast_meta inp n)) ''not_downward'' (ne_RemoteID n)))"
        using new link m False by (simp add: blast_vlan_def key_of_def Let_def)
      then obtain sk t where "blast_vlan inp n st vid = add_skip (st\<lparr>bl_seen := key_of n vid # bl_seen st, bl_toward := t\<rparr>) sk"
        by metis
      with False seen_inv [OF inv False] show ?thesis by (auto simp: skip_inv keys_le_def relevant_def)
    qed
  qed
qed

lemma keys_le_trans: "keys_le a b \<Longrightarrow> keys_le b c \<Longrightarrow> keys_le a c"
  by (simp add: keys_le_def)

lemma skips_inv: "blast_inv inp st \<Longrightarrow> blast_inv inp (foldl (\<lambda>st vid. add_skip st (f vid)) st vids)"
  "bl_seen (foldl (\<lambda>st vid. add_skip st (f vid)) st vids) = bl_seen st"
  by (induction vids arbitrary: st) (auto simp: skip_inv)

lemma blast_vlans_fold:
  assumes n: "n \<in> set (bi_Neighbors inp)" and r: "0 < ne_RemoteID n" "ne_RemoteID n \<noteq> bi_DeviceID inp"
  shows "blast_inv inp st \<Longrightarrow> set vids \<subseteq> set (bi_VLANIDs inp) \<Longrightarrow>
    blast_inv inp (foldl (blast_vlan inp n) st vids) \<and> keys_le st (foldl (blast_vlan inp n) st vids) \<and>
    (\<forall>vid\<in>set vids. relevant inp n vid \<longrightarrow> key_of n vid \<in> set (bl_seen (foldl (blast_vlan inp n) st vids)))"
proof (induction vids arbitrary: st)
  case (Cons vid vids)
  have step: "blast_inv inp (blast_vlan inp n st vid) \<and> keys_le st (blast_vlan inp n st vid) \<and>
    (relevant inp n vid \<longrightarrow> key_of n vid \<in> set (bl_seen (blast_vlan inp n st vid)))"
    using Cons.prems by (intro blast_vlan_step n r) auto
  with Cons.prems(2) Cons.IH [of "blast_vlan inp n st vid"] show ?case
    by (auto intro: keys_le_trans simp: keys_le_def)
qed (auto simp: keys_le_def)

lemma blast_neighbor_step:
  assumes "blast_inv inp st" "n \<in> set (bi_Neighbors inp)"
  shows "blast_inv inp (blast_neighbor inp st n) \<and> keys_le st (blast_neighbor inp st n) \<and>
    (\<forall>vid\<in>set (bi_VLANIDs inp). relevant inp n vid \<longrightarrow> key_of n vid \<in> set (bl_seen (blast_neighbor inp st n)))"
proof (cases "ne_RemoteID n \<le> 0 \<or> ne_RemoteID n = bi_DeviceID inp")
  case True
  then have "\<not> relevant inp n vid" for vid by (auto simp: relevant_def)
  with True assms(1) show ?thesis by (simp add: blast_neighbor_def Let_def skips_inv keys_le_def)
next
  case False
  then show ?thesis using blast_vlans_fold [OF assms(2) _ _ assms(1) subset_refl] by (auto simp: blast_neighbor_def)
qed

lemma blast_scan_fold:
  "blast_inv inp st \<Longrightarrow> set ns \<subseteq> set (bi_Neighbors inp) \<Longrightarrow>
   blast_inv inp (foldl (blast_neighbor inp) st ns) \<and> keys_le st (foldl (blast_neighbor inp) st ns) \<and>
   (\<forall>n\<in>set ns. \<forall>vid\<in>set (bi_VLANIDs inp). relevant inp n vid \<longrightarrow> key_of n vid \<in> set (bl_seen (foldl (blast_neighbor inp) st ns)))"
proof (induction ns arbitrary: st)
  case (Cons n ns)
  then have "blast_inv inp (blast_neighbor inp st n) \<and> keys_le st (blast_neighbor inp st n) \<and>
    (\<forall>vid\<in>set (bi_VLANIDs inp). relevant inp n vid \<longrightarrow> key_of n vid \<in> set (bl_seen (blast_neighbor inp st n)))"
    by (intro blast_neighbor_step) auto
  with Cons.prems(2) Cons.IH [of "blast_neighbor inp st n"] show ?case
    by (auto intro: keys_le_trans simp: keys_le_def)
qed (auto simp: keys_le_def)

lemma blast_scan_inv: "blast_inv inp (blast_scan inp)"
  and blast_scan_covers: "n \<in> set (bi_Neighbors inp) \<Longrightarrow> vid \<in> set (bi_VLANIDs inp) \<Longrightarrow> relevant inp n vid \<Longrightarrow>
    all_covered inp (bl_hits (blast_scan inp)) n vid"
proof -
  let ?st0 = "\<lparr>bl_hits = [], bl_skips = [], bl_toward = 0, bl_seen = [], bl_affected = [], bl_downIf = []\<rparr>"
  have "blast_inv inp ?st0" by (simp add: blast_inv_def base_inv_def)
  from blast_scan_fold [OF this subset_refl] show inv: "blast_inv inp (blast_scan inp)"
    by (simp add: blast_scan_def)
  assume "n \<in> set (bi_Neighbors inp)" "vid \<in> set (bi_VLANIDs inp)" "relevant inp n vid"
  with blast_scan_fold [OF \<open>blast_inv inp ?st0\<close> subset_refl] have "key_of n vid \<in> set (bl_seen (blast_scan inp))"
    by (simp add: blast_scan_def)
  with inv \<open>relevant inp n vid\<close> show "all_covered inp (bl_hits (blast_scan inp)) n vid"
    by (simp add: blast_inv_def relevant_def)
qed

section \<open>Detours of the hits\<close>

abbreviation below :: "VLANBlastInput \<Rightarrow> BlastNeighborEdge \<Rightarrow> device_id set" where
  "below inp n \<equiv> reach (down_succ (blast_adj inp) (blast_dist inp) [bi_DeviceID inp]) (ne_RemoteID n)"

lemma below_positive:
  assumes "\<forall>v\<in>adj_nodes (blast_adj inp). 0 < v" "0 < ne_RemoteID n" "d \<in> below inp n"
  shows "0 < d"
  using down_graph.reach_nodes [of "blast_adj inp" "blast_dist inp" "[bi_DeviceID inp]" "ne_RemoteID n"] assms by auto

lemma redundant_iff:
  assumes "rooted inp" "0 \<notin> adj_nodes (blast_adj inp)" "0 \<le> bi_DeviceID inp" "0 < i"
  shows "neighbor_redundant inp i \<longleftrightarrow> (\<exists>p. route (blast_adj inp) (bi_DeviceID inp) i (bi_RootID inp) p)"
  using assms shortest.path_iff [OF assms(2,4), of "bi_RootID inp" "bi_DeviceID inp"]
  by (simp add: neighbor_redundant_def HasPathAvoiding_path rooted_def)

lemma redundant_below:
  assumes "rooted inp" "symmetric (blast_adj inp)" "\<forall>v\<in>adj_nodes (blast_adj inp). 0 < v" "0 \<le> bi_DeviceID inp"
    "relevant inp n vid" "d \<in> below inp n" "neighbor_redundant inp (ne_RemoteID n)"
  shows "neighbor_redundant inp d"
proof -
  have n: "0 < ne_RemoteID n" "ne_RemoteID n \<noteq> bi_DeviceID inp" using assms(5) by (simp_all add: relevant_def)
  have nz: "0 \<notin> adj_nodes (blast_adj inp)" using assms(3) by force
  have root: "0 < bi_RootID inp" using assms(1) by (simp add: rooted_def)
  have red: "ShortestPath (blast_adj inp) (ne_RemoteID n) (bi_RootID inp) (bi_DeviceID inp) \<noteq> []"
    using assms(7) by (simp add: neighbor_redundant_def HasPathAvoiding_path)
  have "0 < d" by (rule below_positive [OF assms(3) n(1) assms(6)])
  from shortest.detour_below [OF nz assms(2) n(1) this root assms(4) n(2) red assms(6)]
  have "ShortestPath (blast_adj inp) d (bi_RootID inp) (bi_DeviceID inp) \<noteq> []" .
  with assms(1) show ?thesis by (simp add: neighbor_redundant_def HasPathAvoiding_path)
qed

text \<open>The flag and the two paths of a hit, for the device it names.\<close>
definition hit_paths_ok :: "VLANBlastInput \<Rightarrow> VLANBlastHit \<Rightarrow> bool" where
  "hit_paths_ok inp h \<longleftrightarrow> 0 < bh_NeighborDeviceID h \<and> bh_Redundant h = neighbor_redundant inp (bh_NeighborDeviceID h) \<and>
     bh_PathViaY h = ShortestPath (blast_adj inp) (bh_NeighborDeviceID h) (bi_RootID inp) 0 \<and>
     bh_AlternatePath h = ShortestPath (blast_adj inp) (bh_NeighborDeviceID h) (bi_RootID inp) (bi_DeviceID inp)"

lemma hit_of_paths:
  assumes g: "rooted inp" "symmetric (blast_adj inp)" "\<forall>v\<in>adj_nodes (blast_adj inp). 0 < v" "0 \<le> bi_DeviceID inp"
    and h: "hit_of inp h"
  shows "hit_paths_ok inp h"
proof -
  have path: "\<not> neighbor_redundant inp i \<Longrightarrow> ShortestPath (blast_adj inp) i (bi_RootID inp) (bi_DeviceID inp) = []" for i
    using g(1) by (simp add: neighbor_redundant_def HasPathAvoiding_path)
  from h obtain n vid where n: "relevant inp n vid" and c: "(\<exists>m. h = neighbor_hit inp n vid m) \<or>
      (\<exists>d k m. (d, k) \<in> set (blast_walk inp n vid) \<and> h = descendant_hit inp n vid d k m)"
    unfolding hit_of_def by blast
  have pos: "0 < ne_RemoteID n" using n by (simp add: relevant_def)
  from c show ?thesis
  proof
    assume "\<exists>m. h = neighbor_hit inp n vid m"
    with g(1) pos path show ?thesis by (auto simp: hit_paths_ok_def neighbor_hit_def Let_def)
  next
    assume "\<exists>d k m. (d, k) \<in> set (blast_walk inp n vid) \<and> h = descendant_hit inp n vid d k m"
    then obtain d k m where d: "(d, k) \<in> set (blast_walk inp n vid)" "h = descendant_hit inp n vid d k m" by blast
    then have "d \<in> below inp n" using blast_walk_iff [OF pos] by simp
    with redundant_below [OF g n] below_positive [OF g(3) pos] have "0 < d"
      "neighbor_redundant inp (ne_RemoteID n) \<or> neighbor_redundant inp d \<longleftrightarrow> neighbor_redundant inp d" by auto
    with d(2) g(1) path show ?thesis by (auto simp: hit_paths_ok_def descendant_hit_def Let_def split: prod.splits)
  qed
qed

lemma analyze_hits:
  assumes "bi_LookupDevice inp \<noteq> None"
  shows "set (br_Hits (AnalyzeVLANDeleteBlast inp)) = set (bl_hits (blast_scan inp)) \<and>
    br_AffectedDeviceIDs (AnalyzeVLANDeleteBlast inp) = sort (bl_affected (blast_scan inp))"
proof (cases "bi_VLANIDs inp = []")
  case True
  have "blast_inv inp (blast_scan inp)" by (rule blast_scan_inv)
  with True have "bl_hits (blast_scan inp) = [] \<and> bl_affected (blast_scan inp) = []"
    by (auto simp: blast_inv_def base_inv_def hit_of_def)
  with True show ?thesis by (simp add: AnalyzeVLANDeleteBlast_def)
next
  case False
  with assms show ?thesis by (auto simp: AnalyzeVLANDeleteBlast_def Let_def)
qed

lemma affected_has_hit:
  "bi_LookupDevice inp \<noteq> None \<Longrightarrow>
   set (br_AffectedDeviceIDs (AnalyzeVLANDeleteBlast inp)) = bh_NeighborDeviceID ` set (br_Hits (AnalyzeVLANDeleteBlast inp))"
  using analyze_hits [of inp] blast_scan_inv [of inp] by (simp add: blast_inv_def base_inv_def)

lemma affected_devices:
  "bh_NeighborDeviceID ` set (bl_hits (blast_scan inp)) =
    {v. \<exists>n\<in>set (bi_Neighbors inp). \<exists>vid\<in>set (bi_VLANIDs inp). relevant inp n vid \<and>
      (v = ne_RemoteID n \<or> (\<exists>k. (v, k) \<in> set (blast_walk inp n vid)))}" (is "_ = ?S")
proof
  show "bh_NeighborDeviceID ` set (bl_hits (blast_scan inp)) \<subseteq> ?S"
  proof
    fix v
    assume "v \<in> bh_NeighborDeviceID ` set (bl_hits (blast_scan inp))"
    then obtain h where "hit_of inp h" "v = bh_NeighborDeviceID h"
      using blast_scan_inv [of inp] unfolding blast_inv_def base_inv_def by blast
    then show "v \<in> ?S" unfolding hit_of_def by (elim bexE conjE disjE exE; simp; blast)
  qed
  show "?S \<subseteq> bh_NeighborDeviceID ` set (bl_hits (blast_scan inp))"
  proof
    fix v
    assume "v \<in> ?S"
    then obtain n vid where n: "n \<in> set (bi_Neighbors inp)" "vid \<in> set (bi_VLANIDs inp)" "relevant inp n vid"
      and v: "v = ne_RemoteID n \<or> (\<exists>k. (v, k) \<in> set (blast_walk inp n vid))" by blast
    from blast_scan_covers [OF n] v have "covered (bl_hits (blast_scan inp)) vid (ne_IfIndex n) v"
      unfolding all_covered_def by blast
    then show "v \<in> bh_NeighborDeviceID ` set (bl_hits (blast_scan inp))" by (auto simp: covered_def)
  qed
qed

section \<open>The verdict\<close>

lemma analyze_run:
  assumes "bi_LookupDevice inp \<noteq> None" "bi_VLANIDs inp \<noteq> []"
  shows "AnalyzeVLANDeleteBlast inp =
    (let st = blast_scan inp; hits = sort_key hit_order (bl_hits st); affected = sort (bl_affected st);
         redundantCount = length (filter bh_Redundant hits); clients = collectVLANBlastFDBClients inp (bl_downIf st);
         mgmt = blast_mgmt inp; gws = blast_gateways inp
     in \<lparr>br_RootDeviceID = bi_RootID inp, br_RootSource = bi_RootSource inp, br_Hits = hits,
         br_Skips = (if length (bl_skips st) > 40 then take 40 (bl_skips st) else bl_skips st),
         br_TowardCoreSkipped = bl_toward st, br_AffectedDeviceIDs = affected, br_RedundantHitCount = redundantCount,
         br_FDBClients = clients, br_MgmtRisks = mgmt, br_Gateways = gws, br_BlocksDelete = length mgmt > 0,
         br_Severity = blast_severity mgmt gws hits,
         br_Warnings = map WarnMgmt (rev mgmt) @ VLANBlastWarnings hits @ map WarnGateway gws @
           (if length clients > 0 then [WarnFDB (length clients)] else []),
         br_Summary = VLANBlastSummary hits (bl_toward st) (length affected) redundantCount (length clients) (length mgmt) (length gws)\<rparr>)"
  using assms unfolding AnalyzeVLANDeleteBlast_def by auto

lemma blast_gateways_ne:
  "blast_gateways inp \<noteq> [] \<longleftrightarrow> (\<exists>g\<in>set (bi_Gateways inp). gw_VLANID g \<in> set (bi_VLANIDs inp) \<and> gw_DeviceID g \<noteq> bi_DeviceID inp)"
proof -
  have "set (blast_gateways inp) = {g \<in> set (bi_Gateways inp). gw_VLANID g \<in> set (bi_VLANIDs inp) \<and> gw_DeviceID g \<noteq> bi_DeviceID inp}"
    by (auto simp: blast_gateways_def)
  then show ?thesis by (auto simp flip: set_empty2)
qed

lemma severity_iff:
  "blast_severity mgmt gws hits = SevCritical \<longleftrightarrow> mgmt \<noteq> []"
  "blast_severity mgmt gws hits = SevWarning \<longleftrightarrow> mgmt = [] \<and> (gws \<noteq> [] \<or> (\<exists>h\<in>set hits. \<not> bh_Redundant h))"
  by (auto simp: blast_severity_def Let_def filter_empty_conv)

lemma clients_ok:
  "fc_VLANID ` set (collectVLANBlastFDBClients inp downIf) \<subseteq> set (bi_VLANIDs inp)" "length (collectVLANBlastFDBClients inp downIf) \<le> 50"
proof -
  have "fc_VLANID ` set (foldl (fdb_client inp downIf) [] es) \<subseteq> set (bi_VLANIDs inp)" for es
    by (rule foldl_inv) (auto simp: fdb_client_def Let_def split: if_splits)
  then show "fc_VLANID ` set (collectVLANBlastFDBClients inp downIf) \<subseteq> set (bi_VLANIDs inp)"
    unfolding collectVLANBlastFDBClients_def by (auto dest!: in_set_takeD) (meson image_subset_iff)
  show "length (collectVLANBlastFDBClients inp downIf) \<le> 50" by (simp add: collectVLANBlastFDBClients_def)
qed

section \<open>Properties\<close>

text \<open>
  C21. The devices reported as affected are exactly those that would lose the VLAN below the switch: the
  resolved neighbours over a link that carries a VLAN to be deleted, that have it themselves and do not
  lie towards the core, and every device that has the VLAN and can be reached from such a neighbour
  downwards, without passing the switch, within the depth limit. Each is listed once, in increasing
  order, and has a hit.
\<close>
theorem Analyze_affected_exact:
  assumes "bi_LookupDevice inp \<noteq> None"
  shows "set (br_AffectedDeviceIDs (AnalyzeVLANDeleteBlast inp)) =
      {v. \<exists>n\<in>set (bi_Neighbors inp). \<exists>vid\<in>set (bi_VLANIDs inp). relevant inp n vid \<and>
        (v = ne_RemoteID n \<or> v \<in> below inp n \<and> blast_has inp v vid \<noteq> None \<and>
          int (dist (down_succ (blast_adj inp) (blast_dist inp) [bi_DeviceID inp]) (ne_RemoteID n) v) \<le> blast_depth inp)} \<and>
    sorted_wrt (<) (br_AffectedDeviceIDs (AnalyzeVLANDeleteBlast inp)) \<and>
    set (br_AffectedDeviceIDs (AnalyzeVLANDeleteBlast inp)) = bh_NeighborDeviceID ` set (br_Hits (AnalyzeVLANDeleteBlast inp))"
proof -
  have inv: "distinct (bl_affected (blast_scan inp))" "set (bl_affected (blast_scan inp)) = bh_NeighborDeviceID ` set (bl_hits (blast_scan inp))"
    using blast_scan_inv [of inp] by (auto simp: blast_inv_def base_inv_def)
  have walk: "relevant inp n vid \<Longrightarrow> (v = ne_RemoteID n \<or> (\<exists>k. (v, k) \<in> set (blast_walk inp n vid))) \<longleftrightarrow>
      (v = ne_RemoteID n \<or> v \<in> below inp n \<and> blast_has inp v vid \<noteq> None \<and>
        int (dist (down_succ (blast_adj inp) (blast_dist inp) [bi_DeviceID inp]) (ne_RemoteID n) v) \<le> blast_depth inp)" for n vid v
    by (auto simp: blast_walk_iff relevant_def)
  have "sorted_wrt (<) (sort (bl_affected (blast_scan inp)))" using inv(1) by (simp add: strict_sorted_iff)
  moreover have "set (sort (bl_affected (blast_scan inp))) = {v. \<exists>n\<in>set (bi_Neighbors inp). \<exists>vid\<in>set (bi_VLANIDs inp). relevant inp n vid \<and>
        (v = ne_RemoteID n \<or> v \<in> below inp n \<and> blast_has inp v vid \<noteq> None \<and>
          int (dist (down_succ (blast_adj inp) (blast_dist inp) [bi_DeviceID inp]) (ne_RemoteID n) v) \<le> blast_depth inp)}"
    unfolding set_sort inv(2) affected_devices using walk by blast
  ultimately show ?thesis using analyze_hits [OF assms] inv(2) by simp
qed

text \<open>
  C22. The detour flag of a hit is exact, also for devices that inherit it from the neighbour above them:
  it is set if and only if the device reaches the root by some route that avoids the switch, and then
  the alternate path is a shortest such route; otherwise the alternate path is empty. This needs a
  symmetric topology with positive device numbers, which \<open>BuildLLDPDeviceAdj\<close> builds.
\<close>
theorem Analyze_redundancy_exact:
  assumes "bi_LookupDevice inp \<noteq> None" "rooted inp" "symmetric (blast_adj inp)" "\<forall>v\<in>adj_nodes (blast_adj inp). 0 < v"
    "0 \<le> bi_DeviceID inp" "h \<in> set (br_Hits (AnalyzeVLANDeleteBlast inp))"
  shows "(bh_Redundant h \<longleftrightarrow> (\<exists>p. route (blast_adj inp) (bi_DeviceID inp) (bh_NeighborDeviceID h) (bi_RootID inp) p)) \<and>
    (if bh_Redundant h then shortest_route (blast_adj inp) (bi_DeviceID inp) (bh_NeighborDeviceID h) (bi_RootID inp) (bh_AlternatePath h)
     else bh_AlternatePath h = []) \<and>
    (if \<exists>p. route (blast_adj inp) 0 (bh_NeighborDeviceID h) (bi_RootID inp) p
     then shortest_route (blast_adj inp) 0 (bh_NeighborDeviceID h) (bi_RootID inp) (bh_PathViaY h) else bh_PathViaY h = [])"
proof -
  have "hit_of inp h"
    using assms(6) analyze_hits [OF assms(1)] blast_scan_inv [of inp] by (auto simp: blast_inv_def base_inv_def)
  then have ok: "hit_paths_ok inp h" using assms by (intro hit_of_paths)
  have nz: "0 \<notin> adj_nodes (blast_adj inp)" using assms(4) by force
  have root: "0 < bi_RootID inp" using assms(2) by (simp add: rooted_def)
  have pos: "0 < bh_NeighborDeviceID h" using ok by (simp add: hit_paths_ok_def)
  note red = redundant_iff [OF assms(2) nz assms(5) pos]
  note alt = shortest.path_iff [OF nz pos root assms(5)] shortest.path_route [OF nz pos root]
  note via = shortest.path_iff [OF nz pos root order_refl] shortest.path_route [OF nz pos root, of 0]
  show ?thesis using ok red alt via unfolding hit_paths_ok_def by metis
qed

text \<open>
  A ring of four switches with root 1: switch 2 deletes VLAN 20, switch 4 hangs below it on port 7 and
  has the VLAN; it also hangs below switch 3.
\<close>
definition ring_input :: VLANBlastInput where
  "ring_input = \<lparr>bi_DeviceID = 2, bi_VLANIDs = [20], bi_RootID = 1, bi_RootSource = ''stp'',
     bi_Dist = Some (map_of [(1, 0), (2, 1), (3, 1), (4, 2)]), bi_Adj = Some ring4, bi_LocalInv = [],
     bi_TrunkPorts = (\<lambda>i. if i = 7 then Some \<lparr>tp_Name = ''0/7'', tp_Override = []\<rparr> else None),
     bi_Neighbors = [\<lparr>ne_IfIndex = 7, ne_Protocol = ''lldp'', ne_RemoteID = 4, ne_RemotePortID = None, ne_RemoteSysName = None\<rparr>],
     bi_LookupDevice = Some (\<lambda>i. if i = 4 then Some \<lparr>dv_Name = ''sw4'', dv_Host = [], dv_Inv = [(empty_row 20)\<lparr>vr_InDatabase := True\<rparr>]\<rparr> else None),
     bi_MaxDepth = 3, bi_LocalPortRoles = None, bi_LocalIfNames = None, bi_LocalFDB = [], bi_LocalPortModes = [],
     bi_DeviceHost = [], bi_LocalSVIs = [], bi_Gateways = [], bi_EdgeCarriesVLAN = Some (\<lambda>a b v. True), bi_HasEdgeVLANs = True\<rparr>"

lemma ring_affected: "br_AffectedDeviceIDs (AnalyzeVLANDeleteBlast ring_input) = [4]"
  by code_simp

lemma ring_input_simps:
  "bi_LookupDevice ring_input \<noteq> None" "rooted ring_input" "blast_adj ring_input = ring4" "bi_DeviceID ring_input = 2" "bi_RootID ring_input = 1"
  by (simp_all add: ring_input_def rooted_def blast_adj_def)

lemma ring4_symmetric: "symmetric ring4"
  by (auto simp: symmetric_def adj_get_def ring4_def split: if_splits)

theorem Analyze_affected_exact_witness:
  "\<exists>n\<in>set (bi_Neighbors ring_input). \<exists>vid\<in>set (bi_VLANIDs ring_input). relevant ring_input n vid \<and> (4 = ne_RemoteID n \<or> 4 \<in> below ring_input n)"
proof -
  have "4 \<in> set (br_AffectedDeviceIDs (AnalyzeVLANDeleteBlast ring_input))" by (simp add: ring_affected)
  then show ?thesis unfolding Analyze_affected_exact [OF ring_input_simps(1), THEN conjunct1] by blast
qed

theorem Analyze_redundancy_exact_witness:
  "\<exists>h\<in>set (br_Hits (AnalyzeVLANDeleteBlast ring_input)). bh_NeighborDeviceID h = 4 \<and> bh_Redundant h \<and>
     shortest_route ring4 2 4 1 (bh_AlternatePath h)"
proof -
  obtain h where h: "h \<in> set (br_Hits (AnalyzeVLANDeleteBlast ring_input))" "bh_NeighborDeviceID h = 4"
    using affected_has_hit [OF ring_input_simps(1)] unfolding ring_affected by (metis imageE list.set_intros(1))
  have "route ring4 2 4 1 [4, 3, 1]" by (simp add: route_def adj_get_def ring4_def)
  moreover have "\<forall>v\<in>adj_nodes (blast_adj ring_input). 0 < v" by (simp add: ring_input_simps ring4_nodes)
  moreover have "symmetric (blast_adj ring_input)" by (simp add: ring_input_simps ring4_symmetric)
  ultimately show ?thesis
    using Analyze_redundancy_exact [OF ring_input_simps(1,2) _ _ _ h(1)] h
    by (auto simp: ring_input_simps intro!: bexI [OF _ h(1)])
qed

text \<open>
  C1. The verdict follows from what was found: the deletion is blocked and the severity critical exactly
  when the management VLAN is among the VLANs to be deleted; otherwise it is a warning exactly when
  another device is a gateway of one of them or some hit has no detour. At most 40 skipped links and 50
  clients are reported, every client is in a deleted VLAN, and the detour count is that of the hits.
\<close>
theorem Analyze_verdict:
  assumes "bi_LookupDevice inp \<noteq> None" "bi_VLANIDs inp \<noteq> []"
  shows "(br_BlocksDelete (AnalyzeVLANDeleteBlast inp) \<longleftrightarrow>
      (\<exists>v s. MgmtVLANFromSVI (bi_DeviceHost inp) (bi_LocalSVIs inp) = Some (v, s) \<and> v \<in> set (bi_VLANIDs inp))) \<and>
    (br_Severity (AnalyzeVLANDeleteBlast inp) = SevCritical \<longleftrightarrow> br_BlocksDelete (AnalyzeVLANDeleteBlast inp)) \<and>
    (br_Severity (AnalyzeVLANDeleteBlast inp) = SevWarning \<longleftrightarrow> \<not> br_BlocksDelete (AnalyzeVLANDeleteBlast inp) \<and>
      ((\<exists>g\<in>set (bi_Gateways inp). gw_VLANID g \<in> set (bi_VLANIDs inp) \<and> gw_DeviceID g \<noteq> bi_DeviceID inp) \<or>
       (\<exists>h\<in>set (br_Hits (AnalyzeVLANDeleteBlast inp)). \<not> bh_Redundant h))) \<and>
    length (br_Skips (AnalyzeVLANDeleteBlast inp)) \<le> 40 \<and> length (br_FDBClients (AnalyzeVLANDeleteBlast inp)) \<le> 50 \<and>
    fc_VLANID ` set (br_FDBClients (AnalyzeVLANDeleteBlast inp)) \<subseteq> set (bi_VLANIDs inp) \<and>
    br_RedundantHitCount (AnalyzeVLANDeleteBlast inp) = length (filter bh_Redundant (br_Hits (AnalyzeVLANDeleteBlast inp)))"
proof -
  note run = analyze_run [OF assms]
  have "br_BlocksDelete (AnalyzeVLANDeleteBlast inp) \<longleftrightarrow> blast_mgmt inp \<noteq> []" by (simp add: run Let_def)
  moreover have "blast_mgmt inp \<noteq> [] \<longleftrightarrow> (\<exists>v s. MgmtVLANFromSVI (bi_DeviceHost inp) (bi_LocalSVIs inp) = Some (v, s) \<and> v \<in> set (bi_VLANIDs inp))"
    by (auto simp: blast_mgmt_def split: option.splits)
  moreover have "br_Severity (AnalyzeVLANDeleteBlast inp) = blast_severity (blast_mgmt inp) (blast_gateways inp) (br_Hits (AnalyzeVLANDeleteBlast inp))"
    by (simp add: run Let_def)
  moreover have "blast_gateways inp \<noteq> [] \<longleftrightarrow> (\<exists>g\<in>set (bi_Gateways inp). gw_VLANID g \<in> set (bi_VLANIDs inp) \<and> gw_DeviceID g \<noteq> bi_DeviceID inp)"
    by (rule blast_gateways_ne)
  moreover have "length (br_Skips (AnalyzeVLANDeleteBlast inp)) \<le> 40" "length (br_FDBClients (AnalyzeVLANDeleteBlast inp)) \<le> 50"
    "fc_VLANID ` set (br_FDBClients (AnalyzeVLANDeleteBlast inp)) \<subseteq> set (bi_VLANIDs inp)"
    "br_RedundantHitCount (AnalyzeVLANDeleteBlast inp) = length (filter bh_Redundant (br_Hits (AnalyzeVLANDeleteBlast inp)))"
    using clients_ok [of inp "bl_downIf (blast_scan inp)"] by (simp_all add: run Let_def)
  ultimately show ?thesis by (simp add: severity_iff) blast
qed

theorem Analyze_verdict_witness: "br_Severity (AnalyzeVLANDeleteBlast ring_input) \<noteq> SevCritical"
proof -
  have "MgmtVLANFromSVI (bi_DeviceHost ring_input) (bi_LocalSVIs ring_input) = None" by code_simp
  moreover have "bi_VLANIDs ring_input \<noteq> []" by (simp add: ring_input_def)
  ultimately show ?thesis using Analyze_verdict [OF ring_input_simps(1)] by simp
qed

end
