(* ===== verification/Switch_CLI.thy ===== *)
theory Switch_CLI
  imports Vlan_List
begin

text \<open>
  The commands NetLynx sends to a switch (\<open>internal/swcfg\<close>: \<open>vendor.go\<close>, \<open>vendor_port.go\<close>,
  \<open>poe.go\<close>, \<open>isolate.go\<close>, \<open>flowcontrol.go\<close>, \<open>mikrotik.go\<close>, \<open>mikrotik_device.go\<close>, the command
  builders of \<open>vlan.go\<close> and \<open>portcfg.go\<close>): the vendor of a device, the command of every operation
  in that vendor's dialect, and the whole sequence for one port change. A command is one line; the
  theorems show that no text a user supplies can add another one.

  The Russian words of an error message are not modelled: an error is a value of \<open>cli_error\<close> with
  one constructor for each format string, carrying the arguments of the format.
\<close>

section \<open>Vendors\<close>

datatype Vendor = VendorAuto | VendorUbiquiti | VendorEltex | VendorSNR | VendorMikrotik | VendorCisco
  | VendorAruba | VendorZyxel | VendorHuawei | VendorHP | VendorTPLink | VendorDLink | VendorDahua
  | VendorHikvision | VendorHiWatch | VendorTrassir

fun vendor_text :: "Vendor \<Rightarrow> string" where
  "vendor_text VendorAuto = ''auto''"
| "vendor_text VendorUbiquiti = ''ubiquiti''"
| "vendor_text VendorEltex = ''eltex''"
| "vendor_text VendorSNR = ''snr''"
| "vendor_text VendorMikrotik = ''mikrotik''"
| "vendor_text VendorCisco = ''cisco''"
| "vendor_text VendorAruba = ''aruba''"
| "vendor_text VendorZyxel = ''zyxel''"
| "vendor_text VendorHuawei = ''huawei''"
| "vendor_text VendorHP = ''hp''"
| "vendor_text VendorTPLink = ''tplink''"
| "vendor_text VendorDLink = ''dlink''"
| "vendor_text VendorDahua = ''dahua''"
| "vendor_text VendorHikvision = ''hikvision''"
| "vendor_text VendorHiWatch = ''hiwatch''"
| "vendor_text VendorTrassir = ''trassir''"

definition knownVendors :: "(string \<times> Vendor) list" where
  "knownVendors =
     [(''ubiquiti'', VendorUbiquiti), (''eltex'', VendorEltex), (''snr'', VendorSNR),
      (''mikrotik'', VendorMikrotik), (''cisco'', VendorCisco), (''aruba'', VendorAruba),
      (''zyxel'', VendorZyxel), (''huawei'', VendorHuawei), (''hp'', VendorHP),
      (''procurve'', VendorHP), (''tplink'', VendorTPLink), (''tp-link'', VendorTPLink),
      (''dlink'', VendorDLink), (''d-link'', VendorDLink), (''dahua'', VendorDahua),
      (''hikvision'', VendorHikvision), (''hiwatch'', VendorHiWatch), (''trassir'', VendorTrassir)]"

abbreviation has_any :: "string \<Rightarrow> string list \<Rightarrow> bool" where
  "has_any s ps \<equiv> list_ex (Contains s) ps"

definition looksLikeVideoLANSwitch :: "string \<Rightarrow> string \<Rightarrow> bool" where
  "looksLikeVideoLANSwitch blob brand =
     (if brand \<noteq> [] \<and> \<not> Contains blob brand then False
      else if has_any blob [''ipc'', ''ipcam'', ''ip camera'', ''ds-2cd'', ''ds-2de'', ''dh-ipc''] then False
      else if has_any blob [''dh-pfs'', ''pfs30'', ''pfs42'', ''pfs52'', ''ds-3e'', ''ds-3eb'', ''ds-3es'',
             ''tr-ns'', ''trassir switch'', ''managed switch'', ''poe switch'', ''ethernet switch'',
             ''l2 switch'', ''l3 switch''] then True
      else let hasBrand = has_any blob [''dahua'', ''hikvision'', ''hiwatch'', ''hi-watch'', ''trassir''] in
        if \<not> hasBrand \<and> brand = [] then False
        else Contains blob ''switch'' \<or> Contains blob ''pfs'')"

definition LooksLikeVideoLANSwitch :: "string \<Rightarrow> string \<Rightarrow> bool" where
  "LooksLikeVideoLANSwitch sysDescr name = looksLikeVideoLANSwitch (ToLower (sysDescr @ '' '' @ name)) []"

definition LooksLikeIPCamera :: "string \<Rightarrow> string \<Rightarrow> bool" where
  "LooksLikeIPCamera sysDescr name =
     (let blob = ToLower (sysDescr @ '' '' @ name) in
      if LooksLikeVideoLANSwitch sysDescr name then False
      else if has_any blob [''ip camera'', ''ipcam'', ''ipc-'', ''ipc '', ''webcam'', ''network camera'',
             ''ds-2cd'', ''ds-2de'', ''ds-2df'', ''dh-ipc'', ''hikvision ipc'', ''hiwatch ipc'', ''camera''] then True
      else has_any blob [''hikvision'', ''dahua'', ''hiwatch'', ''trassir''] \<and>
           \<not> Contains blob ''switch'' \<and> \<not> Contains blob ''pfs'' \<and> \<not> Contains blob ''ds-3e'')"

text \<open>The \<open>switch\<close> of \<open>DetectVendor\<close> on the lower-case description and name.\<close>
definition blob_vendor :: "string \<Rightarrow> Vendor" where
  "blob_vendor blob =
     (if has_any blob [''mikrotik'', ''routeros'', ''ccr'', ''crs'', ''css326'', ''routerboard''] then VendorMikrotik
      else if has_any blob [''huawei'', ''vrp'', ''quidway''] then VendorHuawei
      else if has_any blob [''aruba'', ''aos-cx'', ''hpe networking'', ''hp networking''] then VendorAruba
      else if has_any blob [''procurve'', ''hewlett-packard'', ''hewlett packard''] \<or>
              (Contains blob ''hp '' \<and> has_any blob [''switch'', ''j9'', ''j8'']) then VendorHP
      else if Contains blob ''zyxel'' then VendorZyxel
      else if has_any blob [''cisco'', ''nx-os'', ''ios-xe'', ''catalyst'', ''nexus'', ''cisco ios''] then VendorCisco
      else if has_any blob [''tp-link'', ''tplink'', ''jetstream'', ''tl-sg'', ''t1500'', ''t1600'', ''t2500'',
             ''t2600'', ''sg3''] then VendorTPLink
      else if has_any blob [''d-link'', ''dlink'', ''dgs-'', ''des-'', ''dxs-''] then VendorDLink
      else if looksLikeVideoLANSwitch blob ''dahua'' \<or> has_any blob [''dh-pfs'', ''pfs42''] then VendorDahua
      else if looksLikeVideoLANSwitch blob ''hiwatch'' \<or> looksLikeVideoLANSwitch blob ''hi-watch'' \<or>
              (Contains blob ''hiwatch'' \<and> Contains blob ''ds-3e'') then VendorHiWatch
      else if looksLikeVideoLANSwitch blob ''hikvision'' \<or>
              (Contains blob ''ds-3e'' \<and> \<not> Contains blob ''hiwatch'' \<and> \<not> Contains blob ''hi-watch'') then VendorHikvision
      else if looksLikeVideoLANSwitch blob ''trassir'' then VendorTrassir
      else if has_any blob [''eltex'', '' mes''] then VendorEltex
      else if has_any blob [''snr'', ''nag llc''] then VendorSNR
      else if has_any blob [''edgeswitch'', ''ubiquiti'', ''ubnt'', ''unifi''] then VendorUbiquiti
      else VendorAuto)"

definition DetectVendor :: "string \<Rightarrow> string \<Rightarrow> string \<Rightarrow> Vendor" where
  "DetectVendor explicit sysDescr name =
     (case map_of knownVendors (ToLower (TrimSpace explicit)) of
        Some v \<Rightarrow> v
      | None \<Rightarrow> blob_vendor (ToLower (sysDescr @ '' '' @ name)))"

definition IsCiscoLike :: "Vendor \<Rightarrow> bool" where
  "IsCiscoLike v \<longleftrightarrow> v \<in> {VendorCisco, VendorAruba, VendorZyxel, VendorUbiquiti, VendorEltex, VendorSNR,
     VendorHP, VendorTPLink, VendorDLink, VendorDahua, VendorHikvision, VendorHiWatch, VendorTrassir}"

definition isEdgeSwitchXP :: "string \<Rightarrow> string \<Rightarrow> bool" where
  "isEdgeSwitchXP sysDescr name =
     (let blob = ToLower (sysDescr @ '' '' @ name) in
      if has_any blob [''edgeswitch xp'', ''es-xp'', ''toughswitch''] then True
      else has_any blob [''5xp'', ''8xp'', ''16xp'', ''es-5xp'', ''es-8xp'', ''es-16xp''])"

text \<open>
  For \<open>VendorAuto\<close> the Go function calls itself with the detected vendor, which may be \<open>VendorAuto\<close>
  again: then it calls itself with the same arguments for ever. \<open>None\<close> is a call that does not
  return.
\<close>
partial_function (option) SupportsPortCLI :: "Vendor \<Rightarrow> string \<Rightarrow> string \<Rightarrow> bool option" where
  "SupportsPortCLI v sysDescr name =
     (if isEdgeSwitchXP sysDescr name then Some False
      else if v \<noteq> VendorAuto then Some True
      else SupportsPortCLI (DetectVendor [] sysDescr name) sysDescr name)"

definition SupportsPoE24V :: "Vendor \<Rightarrow> string \<Rightarrow> string \<Rightarrow> bool" where
  "SupportsPoE24V v sysDescr name =
     (if isEdgeSwitchXP sysDescr name then False
      else (if v = VendorAuto then DetectVendor [] sysDescr name else v) = VendorUbiquiti)"


section \<open>Errors\<close>

datatype cli_error =
    EmptyInterface | NothingToChange | NoHostOrUser | PortCLIUnsupported Vendor | RouterOSNoVLAN
  | VLANInvalid vlan_error | UnknownPoEMode string | No24V Vendor | BadPoEMode string | PoEResetRange int
  | NoNativeReset Vendor | UnknownEdgePort string | PriorityRange int | CostRange int
  | NoIsolate Vendor | StyleUnsupported string | MikrotikNoFlowControl | MikrotikNoSTP
  | Transport string bool                     \<comment> \<open>an error of the SSH library: its text, and whether it wraps \<open>io.EOF\<close>\<close>
  | CliBad string string                      \<comment> \<open>\<open>cli: %s - %s\<close>\<close>
  | NoConfigureMarks string | NoSnoopingMarks string | CliWriteBad string string | NoWriteMarks string
  | SessionClosed | EmptyOutput
  | Wrapped cli_error cli_error               \<comment> \<open>\<open>%w; %s\<close>\<close>
  | BothStyles cli_error cli_error            \<comment> \<open>\<open>cisco-style: %v; 802.1Q: %v\<close>\<close>
  | VLANDBUnsupported Vendor | RouterOSNoVLANDB | Labelled string cli_error
  | AllAttempts "(string \<times> cli_error) list" | NoAttempts Vendor
  | LiveUnsupported Vendor | NoInterfaceBlock "cli_error option" string | SnoopUnsupported Vendor

section \<open>Commands of each vendor\<close>

text \<open>The vendors that share the IOS-like default of most tables.\<close>
abbreviation ios_like :: "Vendor set" where
  "ios_like \<equiv> {VendorCisco, VendorAruba, VendorZyxel, VendorHP, VendorTPLink, VendorDLink, VendorDahua,
     VendorHikvision, VendorHiWatch, VendorTrassir}"

definition confEnterCmds :: "Vendor \<Rightarrow> string \<times> string \<times> string" where
  "confEnterCmds v =
     (if v = VendorEltex \<or> v = VendorSNR then (''enable'', ''configure terminal'', ''write'')
      else if v \<in> ios_like then (''enable'', ''configure terminal'', ''write memory'')
      else if v = VendorHuawei then ([], ''system-view'', ''save'')
      else (''en'', ''configure'', ''write memory''))"

definition ifaceExitCmd :: "Vendor \<Rightarrow> string" where
  "ifaceExitCmd v = (if v = VendorHuawei then ''quit'' else ''exit'')"

definition confExitCmd :: "Vendor \<Rightarrow> string" where
  "confExitCmd v = (if v = VendorHuawei then ''return'' else ''exit'')"

definition NormalizePoEMode :: "string \<Rightarrow> cli_error + string" where
  "NormalizePoEMode raw =
     (let s = ReplaceAll (ToLower (TrimSpace raw)) '' '' [] in
      if s \<in> {''off'', ''shutdown'', ''disabled'', ''0''} then Inr ''off''
      else if s \<in> {''24v'', ''24'', ''passive24v'', ''passive''} then Inr ''24v''
      else if s \<in> {''poe+'', ''poe'', ''auto'', ''af'', ''at'', ''802.3af'', ''802.3at''} then Inr ''poe+''
      else Inl (UnknownPoEMode raw))"

definition NormalizePoEResetSeconds :: "int \<Rightarrow> cli_error + int" where
  "NormalizePoEResetSeconds sec = (if sec < 1 \<or> sec > 60 then Inl (PoEResetRange sec) else Inr sec)"

definition UbiquitiPoEOpmodeCLI :: "string \<Rightarrow> cli_error + string" where
  "UbiquitiPoEOpmodeCLI mode =
     (case NormalizePoEMode mode of
        Inl e \<Rightarrow> Inl e
      | Inr m \<Rightarrow>
          if m = ''off'' then Inr ''poe opmode shutdown''
          else if m = ''24v'' then Inr ''poe opmode passive24v''
          else if m = ''poe+'' then Inr ''poe opmode auto''
          else Inl (BadPoEMode m))"

definition UbiquitiPoEResetCLI :: "int \<Rightarrow> cli_error + string" where
  "UbiquitiPoEResetCLI seconds =
     (case NormalizePoEResetSeconds seconds of Inl e \<Rightarrow> Inl e | Inr sec \<Rightarrow> Inr (''poe reset '' @ Itoa sec))"

datatype PoEResetStrategy = PoEResetNative | PoEResetPowerCycle | PoEResetMikrotik

definition PoEResetPlan :: "Vendor \<Rightarrow> PoEResetStrategy" where
  "PoEResetPlan v =
     (if v = VendorMikrotik then PoEResetMikrotik
      else if v = VendorUbiquiti \<or> v = VendorAuto then PoEResetNative else PoEResetPowerCycle)"

text \<open>The commands for \<open>off\<close> and \<open>poe+\<close>; \<open>None\<close> is the default case of the switch.\<close>
fun poe_commands :: "Vendor \<Rightarrow> (string \<times> string) option" where
  "poe_commands VendorEltex = Some (''power inline never'', ''power inline auto'')"
| "poe_commands VendorSNR = Some (''no power inline enable'', ''power inline enable'')"
| "poe_commands VendorMikrotik = Some (''/interface ethernet poe set %s poe-out=off'', ''/interface ethernet poe set %s poe-out=auto-on'')"
| "poe_commands VendorCisco = Some (''power inline never'', ''power inline auto'')"
| "poe_commands VendorAruba = Some (''no power-over-ethernet'', ''power-over-ethernet'')"
| "poe_commands VendorZyxel = Some (''poe mode off'', ''poe mode auto'')"
| "poe_commands VendorHuawei = Some (''undo poe enable'', ''poe enable'')"
| "poe_commands VendorHP = Some (''no power-over-ethernet'', ''power-over-ethernet'')"
| "poe_commands VendorTPLink = Some (''no power inline supply'', ''power inline supply'')"
| "poe_commands VendorDLink = Some (''no power inline enable'', ''power inline enable'')"
| "poe_commands VendorDahua = Some (''poe disable'', ''poe enable'')"
| "poe_commands VendorHikvision = Some (''poe disable'', ''poe enable'')"
| "poe_commands VendorHiWatch = Some (''poe disable'', ''poe enable'')"
| "poe_commands VendorTrassir = Some (''poe disable'', ''poe enable'')"
| "poe_commands VendorAuto = None"
| "poe_commands VendorUbiquiti = None"

definition PoEModeCLI :: "Vendor \<Rightarrow> string \<Rightarrow> cli_error + string" where
  "PoEModeCLI v mode =
     (case NormalizePoEMode mode of
        Inl e \<Rightarrow> Inl e
      | Inr m \<Rightarrow>
          (case poe_commands v of
             None \<Rightarrow> UbiquitiPoEOpmodeCLI m
           | Some (off_cmd, on_cmd) \<Rightarrow>
               if m = ''off'' then Inr off_cmd
               else if m = ''poe+'' then Inr on_cmd
               else if m = ''24v'' then Inl (No24V v)
               else Inl (BadPoEMode m)))"

definition UbiquitiIsolateCLI :: "bool \<Rightarrow> string" where
  "UbiquitiIsolateCLI isolated = (if isolated then ''switchport protected 1'' else ''no switchport protected'')"

definition IsolateCLI :: "Vendor \<Rightarrow> bool \<Rightarrow> string list" where
  "IsolateCLI v on =
     (if v = VendorEltex then (if on then [''switchport protected-port''] else [''no switchport protected-port''])
      else if v = VendorSNR then []
      else if v = VendorCisco then (if on then [''switchport protected''] else [''no switchport protected''])
      else if v = VendorHuawei then (if on then [''port-isolate enable''] else [''undo port-isolate''])
      else if v \<in> {VendorAruba, VendorZyxel, VendorMikrotik, VendorHP, VendorTPLink, VendorDLink, VendorDahua,
                   VendorHikvision, VendorHiWatch, VendorTrassir} then []
      else [UbiquitiIsolateCLI on])"

definition SNRIsolateSteps :: "string \<Rightarrow> bool \<Rightarrow> string list" where
  "SNRIsolateSteps iface0 on =
     (let iface = TrimSpace iface0;
          name = (if HasPrefix (ToLower iface) ''interface '' then TrimSpace (drop (length ''interface '') iface) else iface)
      in if on then [''isolate-port group netlynx'', ''isolate-port group netlynx switchport interface '' @ name,
                     ''isolate-port apply l2'']
         else [''no isolate-port group netlynx switchport interface '' @ name])"

definition UbiquitiFlowControlCLI :: "bool \<Rightarrow> string" where
  "UbiquitiFlowControlCLI on = (if on then ''flowcontrol'' else ''no flowcontrol'')"

definition FlowControlCLI :: "Vendor \<Rightarrow> bool \<Rightarrow> string" where
  "FlowControlCLI v on =
     (if v = VendorEltex then (if on then ''flowcontrol mode on'' else ''flowcontrol mode off'')
      else if v = VendorSNR then (if on then ''flow control'' else ''no flow control'')
      else if v \<in> ios_like then (if on then ''flowcontrol receive on'' else ''flowcontrol receive off'')
      else if v = VendorHuawei then (if on then ''flow-control'' else ''undo flow-control'')
      else UbiquitiFlowControlCLI on)"

definition UbiquitiDHCPTrustCLI :: "bool \<Rightarrow> string" where
  "UbiquitiDHCPTrustCLI trusted = (if trusted then ''ip dhcp snooping trust'' else ''no ip dhcp snooping trust'')"

datatype EdgePortMode = EdgeAuto | EdgeEnable | EdgeDisable

definition NormalizeEdgePort :: "string \<Rightarrow> cli_error + EdgePortMode" where
  "NormalizeEdgePort raw =
     (let s = ToLower (TrimSpace raw) in
      if s \<in> {''auto'', []} then Inr EdgeAuto
      else if s \<in> {''enable'', ''on'', ''edge'', ''edgeport'', ''portfast''} then Inr EdgeEnable
      else if s \<in> {''disable'', ''off'', ''no''} then Inr EdgeDisable
      else Inl (UnknownEdgePort raw))"

record STPChange =
  st_Enabled :: "bool option"
  st_EdgePort :: "string option"
  st_PortPriority :: "int option"
  st_PathCost :: "int option"

definition stp_enabled_line :: "Vendor \<Rightarrow> bool \<Rightarrow> string" where
  "stp_enabled_line v on =
     (if v = VendorEltex then (if on then ''no spanning-tree disable'' else ''spanning-tree disable'')
      else if v = VendorSNR then (if on then ''spanning-tree'' else ''no spanning-tree'')
      else if v \<in> ios_like then (if on then ''spanning-tree portfast'' else ''no spanning-tree portfast'')
      else if v = VendorHuawei then (if on then ''stp enable'' else ''stp disable'')
      else (if on then ''spanning-tree port mode'' else ''no spanning-tree port mode''))"

definition stp_edge_line :: "Vendor \<Rightarrow> EdgePortMode \<Rightarrow> string" where
  "stp_edge_line v ep =
     (if v \<in> insert VendorEltex (insert VendorSNR ios_like) then
        (case ep of EdgeAuto \<Rightarrow> ''spanning-tree portfast auto'' | EdgeEnable \<Rightarrow> ''spanning-tree portfast''
                  | EdgeDisable \<Rightarrow> ''no spanning-tree portfast'')
      else if v = VendorHuawei then
        (case ep of EdgeAuto \<Rightarrow> ''stp edged-port enable'' | EdgeEnable \<Rightarrow> ''stp edged-port enable''
                  | EdgeDisable \<Rightarrow> ''stp edged-port disable'')
      else (case ep of EdgeAuto \<Rightarrow> ''spanning-tree edgeport auto'' | EdgeEnable \<Rightarrow> ''spanning-tree edgeport''
                  | EdgeDisable \<Rightarrow> ''no spanning-tree edgeport''))"

definition stp_cost_line :: "Vendor \<Rightarrow> int \<Rightarrow> string" where
  "stp_cost_line v c =
     (if v = VendorHuawei then (if c = 0 then ''undo stp cost'' else ''stp cost '' @ Itoa c)
      else if c = 0 then ''no spanning-tree cost'' else ''spanning-tree cost '' @ Itoa c)"

definition STPCLILines :: "Vendor \<Rightarrow> STPChange \<Rightarrow> cli_error + string list" where
  "STPCLILines v st =
     (let out1 = (case st_Enabled st of None \<Rightarrow> [] | Some on \<Rightarrow> [stp_enabled_line v on]) in
      case (case st_EdgePort st of
              None \<Rightarrow> Inr out1
            | Some raw \<Rightarrow> (case NormalizeEdgePort raw of
                Inl e \<Rightarrow> Inl e
              | Inr ep \<Rightarrow> Inr (out1 @ [stp_edge_line v ep]))) of
        Inl e \<Rightarrow> Inl e
      | Inr out2 \<Rightarrow>
          (case (case st_PortPriority st of
                   None \<Rightarrow> Inr out2
                 | Some p \<Rightarrow> if p < 0 \<or> p > 240 then Inl (PriorityRange p)
                     else Inr (out2 @ [(if v = VendorHuawei then ''stp priority '' else ''spanning-tree port-priority '') @ Itoa p])) of
             Inl e \<Rightarrow> Inl e
           | Inr out3 \<Rightarrow>
               (case st_PathCost st of
                  None \<Rightarrow> Inr out3
                | Some c \<Rightarrow> if c < 0 then Inl (CostRange c) else Inr (out3 @ [stp_cost_line v c]))))"

definition ShowInterfaceConfigCmd :: "Vendor \<Rightarrow> string \<Rightarrow> string" where
  "ShowInterfaceConfigCmd v iface0 =
     (let iface = TrimSpace iface0 in
      if v = VendorEltex then ''show running-config interfaces '' @ iface
      else if v = VendorHuawei then ''display current-configuration interface '' @ iface
      else ''show running-config interface '' @ iface)"

definition AdminUpCLI :: "Vendor \<Rightarrow> bool \<Rightarrow> string" where
  "AdminUpCLI v up =
     (if v = VendorHuawei then (if up then ''undo shutdown'' else ''shutdown'')
      else if up then ''no shutdown'' else ''shutdown'')"

definition ClearDescriptionCLI :: "Vendor \<Rightarrow> string" where
  "ClearDescriptionCLI v = (if v = VendorHuawei then ''undo description'' else ''no description'')"

section \<open>Names and descriptions\<close>

text \<open>
  The length of the UTF-8 encoding at the start of a byte string; \<open>None\<close> is an invalid encoding,
  which Go reads as one byte and replaces by U+FFFD.
\<close>
definition rune_width :: "string \<Rightarrow> nat option" where
  "rune_width s =
     (let b = (\<lambda>i. if i < length s then (of_char (s ! i) :: nat) else 0);
          cont = (\<lambda>i. 128 \<le> b i \<and> b i \<le> 191)
      in if b 0 < 128 then Some 1
         else if 194 \<le> b 0 \<and> b 0 \<le> 223 \<and> cont 1 then Some 2
         else if (if b 0 = 224 then 160 \<le> b 1 \<and> b 1 \<le> 191
                  else if b 0 = 237 then 128 \<le> b 1 \<and> b 1 \<le> 159
                  else 225 \<le> b 0 \<and> b 0 \<le> 239 \<and> cont 1) \<and> cont 2 then Some 3
         else if (if b 0 = 240 then 144 \<le> b 1 \<and> b 1 \<le> 191
                  else if b 0 = 244 then 128 \<le> b 1 \<and> b 1 \<le> 143
                  else 241 \<le> b 0 \<and> b 0 \<le> 243 \<and> cont 1) \<and> cont 2 \<and> cont 3 then Some 4
         else None)"

text \<open>\<open>[]rune(s)\<close>, each rune given by the bytes \<open>string(r)\<close> prints for it.\<close>
function runes :: "string \<Rightarrow> string list" where
  "runes [] = []"
| "runes (c # cs) = (case rune_width (c # cs) of
      None \<Rightarrow> [CHR 0xEF, CHR 0xBF, CHR 0xBD] # runes cs
    | Some w \<Rightarrow> take w (c # cs) # runes (drop (max w 1) (c # cs)))"
  by pat_completeness auto
termination
  by (relation "measure length") auto

abbreviation CR :: string where "CR \<equiv> [CHR 0x0D]"
abbreviation LF :: string where "LF \<equiv> [CHR 0x0A]"
abbreviation quot :: string where "quot \<equiv> [CHR 0x22]"
abbreviation apos :: string where "apos \<equiv> [CHR 0x27]"

definition sanitizeVLANNameMax :: "string \<Rightarrow> nat \<Rightarrow> string" where
  "sanitizeVLANNameMax s0 maxRunes =
     (let s1 = ReplaceAll (ReplaceAll (TrimSpace s0) CR '' '') LF '' '';
          s2 = ReplaceAll (ReplaceAll s1 quot []) apos [];
          s3 = collapse ''  '' '' '' s2
      in TrimSpace (if maxRunes > 0 \<and> length (runes s3) > maxRunes
                    then concat (take maxRunes (runes s3)) else s3))"

definition sanitizeVLANName :: "string \<Rightarrow> string" where
  "sanitizeVLANName s = sanitizeVLANNameMax s 32"

definition quoteVLANDBName :: "string \<Rightarrow> string" where
  "quoteVLANDBName name0 =
     (let name = TrimSpace name0 in
      if name = [] then quot @ quot else quot @ ReplaceAll name quot [] @ quot)"

definition quoteCLIDescription :: "string \<Rightarrow> string" where
  "quoteCLIDescription d0 =
     (let d = TrimSpace d0 in
      if d = [] then []
      else if \<not> ContainsAny d [CHR '' '', CHR 0x09, CHR ''-''] then d
      else if Contains d apos then quot @ ReplaceAll d quot [] @ quot
      else apos @ d @ apos)"

text \<open>The text of a description before it is quoted (\<open>portConfigBody\<close>).\<close>
definition clean_descr :: "string \<Rightarrow> string" where
  "clean_descr raw =
     collapse ''  '' '' '' (ReplaceAll (ReplaceAll (ReplaceAll (TrimSpace raw) CR '' '') LF '' '') quot [])"

section \<open>VLAN commands\<close>

datatype vlanCLIStyle = vlanStyleAuto | vlanStyleCisco | vlanStyleIEEE | vlanStyleEltex | vlanStyleHuawei

definition vlanNoVLANLines :: "bool \<Rightarrow> string list" where
  "vlanNoVLANLines includeSwitchport =
     [''vlan participation auto 2-4093'', ''vlan participation include 1''] @
     (if includeSwitchport then [''switchport mode general'', ''switchport access vlan 1'']
      else [''vlan pvid 1''])"

text \<open>\<open>FormatVLANIDList(ParseVLANIDList(ch.AllowedList))\<close>\<close>
definition allowed_csv :: "PortVLANChange \<Rightarrow> string" where
  "allowed_csv ch = FormatVLANIDList (ParseVLANIDList (pc_AllowedList ch))"

definition trunk_allow_lines :: "PortVLANChange \<Rightarrow> string list" where
  "trunk_allow_lines ch =
     (let mode = ToLower (TrimSpace (pc_AllowedMode ch)) in
      [''switchport mode trunk''] @
      (if pc_VLANID ch \<ge> 1 \<and> pc_VLANID ch \<le> 4094 then [''switchport trunk native vlan '' @ Itoa (pc_VLANID ch)] else []) @
      (if mode = TrunkAllowAll then [''switchport trunk allowed vlan all'']
       else if mode = TrunkAllowSet then [''switchport trunk allowed vlan '' @ allowed_csv ch]
       else if mode = TrunkAllowAdd then [''switchport trunk allowed vlan add '' @ allowed_csv ch]
       else if mode = TrunkAllowRemove then [''switchport trunk allowed vlan remove '' @ allowed_csv ch]
       else if mode = TrunkAllowExcept then [''switchport trunk allowed vlan except '' @ allowed_csv ch]
       else []))"

definition vlanCiscoLines :: "PortVLANChange \<Rightarrow> string list" where
  "vlanCiscoLines ch =
     (let n = Itoa (pc_VLANID ch) in
      if pc_Op ch = VLANOpNoVLAN then vlanNoVLANLines True
      else if pc_Op ch = VLANOpSetAccess then [''switchport mode access'', ''switchport access vlan '' @ n]
      else if pc_Op ch = VLANOpSetNative then [''switchport mode trunk'', ''switchport trunk native vlan '' @ n]
      else if pc_Op ch = VLANOpAddTagged then [''switchport mode trunk'', ''switchport trunk allowed vlan add '' @ n]
      else if pc_Op ch = VLANOpTrunkAllow then trunk_allow_lines ch
      else if pc_Op ch = VLANOpRemove then
        (if ToLower (TrimSpace (pc_PortMode ch)) = ''access'' \<or> pc_PrevAccessVLAN ch = Some (pc_VLANID ch)
         then [''switchport access vlan 1'']
         else [''switchport trunk allowed vlan remove '' @ n])
      else [])"

text \<open>The lines that make a VLAN the untagged one of a Fastpath port.\<close>
definition pvid_lines :: "string \<Rightarrow> string list" where
  "pvid_lines n = [''vlan pvid '' @ n, ''vlan participation include '' @ n, ''no vlan tagging '' @ n]"

definition ieee_trunk_lines :: "PortVLANChange \<Rightarrow> string list" where
  "ieee_trunk_lines ch =
     (let mode = ToLower (TrimSpace (pc_AllowedMode ch)) in
      if mode = TrunkAllowAll \<or> mode = TrunkAllowExcept then []
      else (if pc_VLANID ch \<ge> 1 \<and> pc_VLANID ch \<le> 4094 then pvid_lines (Itoa (pc_VLANID ch)) else []) @
        concat (map (\<lambda>n.
          if mode = TrunkAllowRemove then [''vlan participation exclude '' @ Itoa n, ''no vlan tagging '' @ Itoa n]
          else if pc_VLANID ch = n then []
          else [''vlan participation include '' @ Itoa n, ''vlan tagging '' @ Itoa n])
          (ParseVLANIDList (pc_AllowedList ch))))"

definition vlanIEEELines :: "PortVLANChange \<Rightarrow> string list" where
  "vlanIEEELines ch =
     (let n = Itoa (pc_VLANID ch) in
      if pc_Op ch = VLANOpNoVLAN then vlanNoVLANLines False
      else if pc_Op ch = VLANOpSetAccess then
        pvid_lines n @ (case pc_PrevAccessVLAN ch of
            Some p \<Rightarrow> if p \<noteq> pc_VLANID ch \<and> validVLANID p then [''vlan participation exclude '' @ Itoa p] else []
          | None \<Rightarrow> [])
      else if pc_Op ch = VLANOpSetNative then pvid_lines n
      else if pc_Op ch = VLANOpAddTagged then [''vlan participation include '' @ n, ''vlan tagging '' @ n]
      else if pc_Op ch = VLANOpTrunkAllow then ieee_trunk_lines ch
      else if pc_Op ch = VLANOpRemove then
        [''vlan participation exclude '' @ n, ''no vlan tagging '' @ n] @
        (if pc_PrevAccessVLAN ch = Some (pc_VLANID ch) then [''vlan pvid 1''] else [])
      else [])"

definition VLANCLILines :: "vlanCLIStyle \<Rightarrow> PortVLANChange \<Rightarrow> string list" where
  "VLANCLILines style ch = (if style = vlanStyleIEEE then vlanIEEELines ch else vlanCiscoLines ch)"

definition vlanDBCiscoLines :: "VLANDatabaseChange \<Rightarrow> string list" where
  "vlanDBCiscoLines ch =
     (let n = Itoa (dc_VLANID ch); name = sanitizeVLANName (dc_Name ch) in
      if dc_Op ch = VLANDBOpCreate then
        (if name = [] then [''vlan '' @ n, ''exit''] else [''vlan '' @ n, ''name '' @ quoteCLIDescription name, ''exit''])
      else if dc_Op ch = VLANDBOpSetName then
        (if name = [] then [''vlan '' @ n, ''no name'', ''exit'']
         else [''vlan '' @ n, ''name '' @ quoteCLIDescription name, ''exit''])
      else if dc_Op ch = VLANDBOpDelete then [''no vlan '' @ deleteIDCSV ch]
      else [])"

definition vlanDBIEEELines :: "VLANDatabaseChange \<Rightarrow> string list" where
  "vlanDBIEEELines ch =
     (let n = Itoa (dc_VLANID ch); name = sanitizeVLANName (dc_Name ch);
          named = [''vlan database'', ''vlan '' @ n, ''vlan name '' @ n @ '' '' @ quoteVLANDBName name, ''exit''] in
      if dc_Op ch = VLANDBOpCreate then (if name = [] then [''vlan database'', ''vlan '' @ n, ''exit''] else named)
      else if dc_Op ch = VLANDBOpSetName then
        (if name = [] then [''vlan database'', ''no vlan name '' @ n, ''exit''] else named)
      else if dc_Op ch = VLANDBOpDelete then [''vlan database'', ''no vlan '' @ deleteIDCSV ch, ''exit'']
      else [])"

definition vlanDBEltexLines :: "VLANDatabaseChange \<Rightarrow> string list" where
  "vlanDBEltexLines ch =
     (let n = Itoa (dc_VLANID ch); name = sanitizeVLANName (dc_Name ch);
          named = [''vlan database'', ''vlan '' @ n @ '' name '' @ quoteCLIDescription name, ''exit''] in
      if dc_Op ch = VLANDBOpCreate then (if name = [] then [''vlan database'', ''vlan '' @ n, ''exit''] else named)
      else if dc_Op ch = VLANDBOpSetName then
        (if name = [] then [''vlan database'', ''vlan '' @ n, ''no name'', ''exit''] else named)
      else if dc_Op ch = VLANDBOpDelete then [''vlan database'', ''no vlan '' @ deleteIDCSV ch, ''exit'']
      else [])"

definition vlanDBHuaweiLines :: "VLANDatabaseChange \<Rightarrow> string list" where
  "vlanDBHuaweiLines ch =
     (let n = Itoa (dc_VLANID ch); name = sanitizeVLANNameMax (dc_Name ch) 31 in
      if dc_Op ch = VLANDBOpCreate then
        (if name = [] then [''vlan '' @ n, ''quit''] else [''vlan '' @ n, ''name '' @ quoteVLANDBName name, ''quit''])
      else if dc_Op ch = VLANDBOpSetName then
        (if name = [] then [''vlan '' @ n, ''undo name'', ''quit'']
         else [''vlan '' @ n, ''name '' @ quoteVLANDBName name, ''quit''])
      else if dc_Op ch = VLANDBOpDelete then map (\<lambda>k. ''undo vlan '' @ Itoa k) (DeleteIDs ch)
      else [])"

fun VLANDatabaseCLILines :: "vlanCLIStyle \<Rightarrow> VLANDatabaseChange \<Rightarrow> string list" where
  "VLANDatabaseCLILines vlanStyleIEEE ch = vlanDBIEEELines ch"
| "VLANDatabaseCLILines vlanStyleEltex ch = vlanDBEltexLines ch"
| "VLANDatabaseCLILines vlanStyleHuawei ch = vlanDBHuaweiLines ch"
| "VLANDatabaseCLILines vlanStyleAuto ch = vlanDBCiscoLines ch"
| "VLANDatabaseCLILines vlanStyleCisco ch = vlanDBCiscoLines ch"

section \<open>One port change\<close>

record PortChange =
  ch_Interface :: string
  ch_Description :: "string option"
  ch_AdminUp :: "bool option"
  ch_PoEMode :: "string option"
  ch_PoEResetSeconds :: "int option"
  ch_Isolate :: "bool option"
  ch_FlowControl :: "bool option"
  ch_STP :: "STPChange option"
  ch_VLAN :: "PortVLANChange option"
  ch_vlanStyle :: vlanCLIStyle
  ch_Write :: bool

definition PortChange_empty :: "PortChange \<Rightarrow> bool" where
  "PortChange_empty ch \<longleftrightarrow> ch_Description ch = None \<and> ch_AdminUp ch = None \<and> ch_PoEMode ch = None \<and>
     ch_PoEResetSeconds ch = None \<and> ch_Isolate ch = None \<and> ch_FlowControl ch = None \<and>
     ch_STP ch = None \<and> ch_VLAN ch = None"

text \<open>The parts of the interface block, in the order \<open>portConfigBody\<close> appends them; an error ends the list.\<close>
definition body_descr :: "Vendor \<Rightarrow> PortChange \<Rightarrow> cli_error + string list" where
  "body_descr v ch = Inr (case ch_Description ch of
       None \<Rightarrow> []
     | Some raw \<Rightarrow> let d = clean_descr raw in
         if d = [] then [ClearDescriptionCLI v] else [''description '' @ quoteCLIDescription d])"

definition body_admin :: "Vendor \<Rightarrow> PortChange \<Rightarrow> cli_error + string list" where
  "body_admin v ch = Inr (case ch_AdminUp ch of None \<Rightarrow> [] | Some up \<Rightarrow> [AdminUpCLI v up])"

definition body_poe :: "Vendor \<Rightarrow> PortChange \<Rightarrow> cli_error + string list" where
  "body_poe v ch = (case ch_PoEMode ch of
       None \<Rightarrow> Inr []
     | Some m \<Rightarrow> (case PoEModeCLI v m of Inl e \<Rightarrow> Inl e | Inr cmd \<Rightarrow> Inr [cmd]))"

definition body_reset :: "Vendor \<Rightarrow> PortChange \<Rightarrow> cli_error + string list" where
  "body_reset v ch = (case ch_PoEResetSeconds ch of
       None \<Rightarrow> Inr []
     | Some sec \<Rightarrow> (case UbiquitiPoEResetCLI sec of Inl e \<Rightarrow> Inl e | Inr cmd \<Rightarrow> Inr [cmd]))"

definition body_isolate :: "Vendor \<Rightarrow> PortChange \<Rightarrow> cli_error + string list" where
  "body_isolate v ch = (case ch_Isolate ch of
       Some on \<Rightarrow> if v = VendorSNR then Inr []
         else if IsolateCLI v on = [] then Inl (NoIsolate v) else Inr (IsolateCLI v on)
     | None \<Rightarrow> Inr [])"

definition body_flow :: "Vendor \<Rightarrow> PortChange \<Rightarrow> cli_error + string list" where
  "body_flow v ch = Inr (case ch_FlowControl ch of None \<Rightarrow> [] | Some on \<Rightarrow> [FlowControlCLI v on])"

definition body_stp :: "Vendor \<Rightarrow> PortChange \<Rightarrow> cli_error + string list" where
  "body_stp v ch = (case ch_STP ch of None \<Rightarrow> Inr [] | Some st \<Rightarrow> STPCLILines v st)"

definition body_vlan :: "Vendor \<Rightarrow> PortChange \<Rightarrow> cli_error + string list" where
  "body_vlan v ch = (case ch_VLAN ch of
       None \<Rightarrow> Inr []
     | Some vc \<Rightarrow>
         let st = (if ch_vlanStyle ch = vlanStyleAuto then vlanStyleCisco else ch_vlanStyle ch);
             vl = VLANCLILines st vc
         in if vl = [] then Inl (StyleUnsupported (pc_Op vc)) else Inr vl)"

fun body_parts :: "string list \<Rightarrow> (cli_error + string list) list \<Rightarrow> cli_error + string list" where
  "body_parts steps [] = Inr steps"
| "body_parts steps (Inl e # ps) = Inl e"
| "body_parts steps (Inr ls # ps) = body_parts (steps @ ls) ps"

definition no_isolation :: "Vendor set" where
  "no_isolation = {VendorAruba, VendorZyxel, VendorHP, VendorTPLink, VendorDLink, VendorDahua, VendorHikvision,
     VendorHiWatch, VendorTrassir}"

definition needIF :: "Vendor \<Rightarrow> PortChange \<Rightarrow> bool" where
  "needIF v ch \<longleftrightarrow> ch_Description ch \<noteq> None \<or> ch_AdminUp ch \<noteq> None \<or> ch_PoEMode ch \<noteq> None \<or>
     ch_PoEResetSeconds ch \<noteq> None \<or> ch_FlowControl ch \<noteq> None \<or> ch_STP ch \<noteq> None \<or> ch_VLAN ch \<noteq> None \<or>
     (ch_Isolate ch \<noteq> None \<and> v \<noteq> VendorSNR)"

definition portConfigBody :: "Vendor \<Rightarrow> string \<Rightarrow> PortChange \<Rightarrow> cli_error + string list" where
  "portConfigBody v iface ch =
     (if ch_Isolate ch \<noteq> None \<and> v \<in> no_isolation then Inl (NoIsolate v)
      else let steps = (case ch_Isolate ch of Some on \<Rightarrow> if v = VendorSNR then SNRIsolateSteps iface on else [] | None \<Rightarrow> []);
               closing = [confExitCmd v] @ (if ch_Write ch then [''write memory''] else [])
           in if needIF v ch
              then body_parts (steps @ [''interface '' @ iface])
                     [body_descr v ch, body_admin v ch, body_poe v ch, body_reset v ch, body_isolate v ch,
                      body_flow v ch, body_stp v ch, body_vlan v ch, Inr ([ifaceExitCmd v] @ closing)]
              else Inr (steps @ closing))"

section \<open>RouterOS\<close>

definition mikrotikEscape :: "string \<Rightarrow> string" where
  "mikrotikEscape s =
     ReplaceAll (ReplaceAll (ReplaceAll s [CHR 0x5C] [CHR 0x5C, CHR 0x5C]) quot [CHR 0x5C, CHR 0x22]) ''$'' [CHR 0x5C, CHR ''$'']"

definition mikrotikIfaceQuote :: "string \<Rightarrow> string" where
  "mikrotikIfaceQuote iface = quot @ mikrotikEscape (TrimSpace iface) @ quot"

definition mikrotikCommentValue :: "string \<Rightarrow> string" where
  "mikrotikCommentValue raw =
     quot @ mikrotikEscape (collapse ''  '' '' '' (ReplaceAll (ReplaceAll (TrimSpace raw) CR '' '') LF '' '')) @ quot"

text \<open>\<open>fmt.Sprintf(format, arg)\<close> for a format with one \<open>%s\<close> and no other verb.\<close>
fun Sprintf_s :: "string \<Rightarrow> string \<Rightarrow> string" where
  "Sprintf_s [] arg = []"
| "Sprintf_s (c # cs) arg = (if HasPrefix (c # cs) ''%s'' then arg @ tl cs else c # Sprintf_s cs arg)"

definition mikrotik_find :: "string \<Rightarrow> string" where
  "mikrotik_find iface = ''[find name='' @ mikrotikIfaceQuote iface @ '']''"

definition MikrotikPortCmds :: "string \<Rightarrow> PortChange \<Rightarrow> cli_error + string list" where
  "MikrotikPortCmds iface0 ch =
     (let iface = TrimSpace iface0; find = mikrotik_find iface in
      if iface = [] then Inl EmptyInterface
      else if ch_Isolate ch \<noteq> None then Inl (NoIsolate VendorMikrotik)
      else if ch_FlowControl ch \<noteq> None then Inl MikrotikNoFlowControl
      else if ch_STP ch \<noteq> None then Inl MikrotikNoSTP
      else case body_parts []
             [Inr (case ch_AdminUp ch of
                None \<Rightarrow> [] | Some up \<Rightarrow> [''/interface set '' @ find @ (if up then '' disabled=no'' else '' disabled=yes'')]),
              Inr (case ch_Description ch of
                None \<Rightarrow> []
              | Some raw \<Rightarrow> let d = TrimSpace raw in
                  if d = [] then [''/interface set '' @ find @ '' comment='' @ quot @ quot]
                  else [''/interface set '' @ find @ '' comment='' @ mikrotikCommentValue d]),
              (case ch_PoEMode ch of
                None \<Rightarrow> Inr []
              | Some m \<Rightarrow> (case PoEModeCLI VendorMikrotik m of Inl e \<Rightarrow> Inl e | Inr poe \<Rightarrow> Inr [Sprintf_s poe find])),
              (case ch_PoEResetSeconds ch of
                None \<Rightarrow> Inr []
              | Some sec \<Rightarrow> (case NormalizePoEResetSeconds sec of
                  Inl e \<Rightarrow> Inl e
                | Inr n \<Rightarrow> Inr [''/interface ethernet poe power-cycle '' @ find @ '' duration='' @ Itoa n @ ''s'']))] of
          Inl e \<Rightarrow> Inl e
        | Inr cmds \<Rightarrow> if cmds = [] then Inl NothingToChange else Inr cmds)"

definition isMikrotikVendor :: "string \<Rightarrow> string \<Rightarrow> string \<Rightarrow> bool" where
  "isMikrotikVendor sshVendor sysDescr name \<longleftrightarrow> DetectVendor sshVendor sysDescr name = VendorMikrotik"

definition IsMikrotikRouterDevice :: "string \<Rightarrow> string \<Rightarrow> string \<Rightarrow> string \<Rightarrow> bool" where
  "IsMikrotikRouterDevice category sshVendor sysDescr name \<longleftrightarrow>
     ToLower (TrimSpace category) = ''router'' \<and> isMikrotikVendor sshVendor sysDescr name"

definition IsMikrotikRouterForConfigBackup :: "string \<Rightarrow> string \<Rightarrow> string \<Rightarrow> string \<Rightarrow> bool" where
  "IsMikrotikRouterForConfigBackup category sshVendor sysDescr name \<longleftrightarrow>
     ToLower (TrimSpace category) \<in> {''router'', ''ap''} \<and> isMikrotikVendor sshVendor sysDescr name"

section \<open>One command is one line\<close>

definition one_line :: "string \<Rightarrow> bool" where
  "one_line s \<longleftrightarrow> CHR 0x0D \<notin> set s \<and> CHR 0x0A \<notin> set s"

lemma one_line_Nil [simp]: "one_line []"
  by (simp add: one_line_def)

lemma one_line_Cons [simp]: "one_line (c # s) \<longleftrightarrow> c \<noteq> CHR 0x0D \<and> c \<noteq> CHR 0x0A \<and> one_line s"
  by (auto simp: one_line_def)

lemma one_line_append [simp]: "one_line (s @ t) \<longleftrightarrow> one_line s \<and> one_line t"
  by (auto simp: one_line_def)

lemma one_line_subset: "set t \<subseteq> set s \<Longrightarrow> one_line s \<Longrightarrow> one_line t"
  by (auto simp: one_line_def)

lemma one_line_concat: "\<forall>w\<in>set ws. one_line w \<Longrightarrow> one_line (concat ws)"
  by (induction ws) auto

lemma one_line_TrimSpace [intro]: "one_line s \<Longrightarrow> one_line (TrimSpace s)"
  by (rule one_line_subset [OF set_TrimSpace])

lemma one_line_drop [intro]: "one_line s \<Longrightarrow> one_line (drop n s)"
  by (rule one_line_subset [OF set_drop_subset])

lemma one_line_Itoa [simp]: "one_line (Itoa n)"
  using Itoa_no_space [of n] by (auto simp: one_line_def is_space_def)

lemma one_line_Join: "one_line sep \<Longrightarrow> \<forall>w\<in>set ws. one_line w \<Longrightarrow> one_line (Join ws sep)"
  by (induction ws sep rule: Join.induct) auto

lemma one_line_Format [simp]: "one_line (FormatVLANIDList ids)"
  by (simp add: FormatVLANIDList_def one_line_Join)

lemma set_ReplaceAll: "set (ReplaceAll s old new) \<subseteq> set s \<union> set new"
proof (induction s old new rule: ReplaceAll.induct)
  case (2 c cs old new)
  show ?case
  proof (cases "old \<noteq> [] \<and> HasPrefix (c # cs) old")
    case True
    with 2 show ?thesis using set_drop_subset [of "length old" "c # cs"] by auto
  next
    case False
    then have "ReplaceAll (c # cs) old new = c # ReplaceAll cs old new" by (simp only: ReplaceAll.simps if_False)
    with 2(2) [OF False] show ?thesis by auto
  qed
qed simp

lemma set_collapse: "set (collapse pat rep s) \<subseteq> set s \<union> set rep"
proof (induction pat rep s rule: collapse.induct)
  case (1 pat rep s)
  show ?case
  proof (cases "length rep < length pat \<and> Contains s pat")
    case True
    with 1 set_ReplaceAll [of s pat rep] show ?thesis by (subst collapse.simps) auto
  next
    case False
    then have "collapse pat rep s = s" by (subst collapse.simps) auto
    then show ?thesis by simp
  qed
qed

lemma one_line_ReplaceAll: "one_line s \<Longrightarrow> one_line new \<Longrightarrow> one_line (ReplaceAll s old new)"
  using set_ReplaceAll [of s old new] by (auto simp: one_line_def)

lemma one_line_collapse: "one_line s \<Longrightarrow> one_line rep \<Longrightarrow> one_line (collapse pat rep s)"
  using set_collapse [of pat rep s] by (auto simp: one_line_def)

text \<open>The two replacements in front of every text the user supplies.\<close>
lemma one_line_strip [simp]: "one_line (ReplaceAll (ReplaceAll s CR '' '') LF '' '')"
  by (auto simp: one_line_def ReplaceAll_char split: if_splits)

lemma one_line_clean_descr [simp]: "one_line (clean_descr raw)"
  unfolding clean_descr_def by (intro one_line_collapse one_line_ReplaceAll one_line_strip) simp_all

lemma one_line_quoteCLI: "one_line d \<Longrightarrow> one_line (quoteCLIDescription d)"
  unfolding quoteCLIDescription_def Let_def by (auto intro: one_line_ReplaceAll)

lemma one_line_quoteDB: "one_line d \<Longrightarrow> one_line (quoteVLANDBName d)"
  unfolding quoteVLANDBName_def Let_def by (auto intro: one_line_ReplaceAll)

lemma set_runes: "w \<in> set (runes s) \<Longrightarrow> set w \<subseteq> set s \<union> {CHR 0xEF, CHR 0xBF, CHR 0xBD}"
proof (induction s rule: runes.induct)
  case (2 c cs)
  show ?case
  proof (cases "rune_width (c # cs)")
    case None
    with 2 show ?thesis by auto
  next
    case (Some k)
    with 2(3) consider "w = take k (c # cs)" | "w \<in> set (runes (drop (max k 1) (c # cs)))" by auto
    then show ?thesis
    proof cases
      case 1
      then show ?thesis using set_take_subset [of k "c # cs"] by auto
    next
      case 2
      with "2.IH"(2) [OF Some] set_drop_subset [of "max k 1" "c # cs"] show ?thesis by blast
    qed
  qed
qed simp

lemma set_concat_take_runes:
  "set (concat (take n (runes s))) \<subseteq> set s \<union> {CHR 0xEF, CHR 0xBF, CHR 0xBD}"
  using set_runes [of _ s] set_take_subset [of n "runes s"] by fastforce

text \<open>The characters a VLAN name cannot have after it was cleaned.\<close>
lemma sanitize_chars:
  assumes "c \<in> set (sanitizeVLANNameMax s n)"
  shows "c \<noteq> CHR 0x0D \<and> c \<noteq> CHR 0x0A \<and> c \<noteq> CHR 0x22 \<and> c \<noteq> CHR 0x27"
proof -
  define s2 where "s2 = ReplaceAll (ReplaceAll (ReplaceAll (ReplaceAll (TrimSpace s) CR '' '') LF '' '') quot []) apos []"
  have one: "one_line s2"
    unfolding s2_def by (intro one_line_ReplaceAll one_line_strip) simp_all
  have drop: "a \<notin> set (ReplaceAll t [a] [])" for a t by (simp add: ReplaceAll_char)
  have keep: "b \<notin> set t \<Longrightarrow> b \<notin> set (ReplaceAll t p [])" for b t p
    using set_ReplaceAll [of t p "[]"] by auto
  have s2: "CHR 0x0D \<notin> set s2" "CHR 0x0A \<notin> set s2" "CHR 0x22 \<notin> set s2" "CHR 0x27 \<notin> set s2"
    using one unfolding one_line_def by (simp_all add: s2_def drop keep)
  define s3 where "s3 = collapse ''  '' '' '' s2"
  have s3: "CHR 0x0D \<notin> set s3" "CHR 0x0A \<notin> set s3" "CHR 0x22 \<notin> set s3" "CHR 0x27 \<notin> set s3"
    using set_collapse [of "''  ''" "'' ''" s2] s2 by (auto simp: s3_def)
  have "sanitizeVLANNameMax s n = TrimSpace (if n > 0 \<and> length (runes s3) > n then concat (take n (runes s3)) else s3)"
    by (simp add: sanitizeVLANNameMax_def Let_def s3_def s2_def)
  with assms have "c \<in> set (if n > 0 \<and> length (runes s3) > n then concat (take n (runes s3)) else s3)"
    by (metis (no_types) set_TrimSpace subsetD)
  then have "c \<in> set s3 \<or> c \<in> set (concat (take n (runes s3)))"
    by (cases "n > 0 \<and> length (runes s3) > n") (simp_all only: if_True if_False simp_thms)
  with set_concat_take_runes [of n s3] have "c \<in> set s3 \<union> {CHR 0xEF, CHR 0xBF, CHR 0xBD}" by blast
  with s3 show ?thesis by auto
qed

lemma one_line_sanitize [simp]: "one_line (sanitizeVLANNameMax s n)"
  unfolding one_line_def using sanitize_chars by blast

lemma one_line_poe_commands: "poe_commands v = Some (a, b) \<Longrightarrow> one_line a \<and> one_line b"
  by (cases v) auto

lemma one_line_PoEMode: "PoEModeCLI v m = Inr cmd \<Longrightarrow> one_line cmd"
proof -
  assume r: "PoEModeCLI v m = Inr cmd"
  then obtain k where k: "NormalizePoEMode m = Inr k" by (auto simp: PoEModeCLI_def split: sum.splits)
  show ?thesis
  proof (cases "poe_commands v")
    case None
    with r k have "UbiquitiPoEOpmodeCLI k = Inr cmd" by (simp add: PoEModeCLI_def)
    then show ?thesis by (auto simp: UbiquitiPoEOpmodeCLI_def split: sum.splits if_splits)
  next
    case (Some ab)
    obtain a b where ab: "ab = (a, b)" by (cases ab)
    with Some r k have "cmd = a \<or> cmd = b" by (simp add: PoEModeCLI_def split: if_splits)
    with Some ab one_line_poe_commands show ?thesis by blast
  qed
qed

lemma one_line_stp_parts: "one_line (stp_enabled_line v on)" "one_line (stp_edge_line v ep)" "one_line (stp_cost_line v c)"
  by (simp_all add: stp_enabled_line_def stp_edge_line_def stp_cost_line_def split: EdgePortMode.split)

lemma one_line_STP: "STPCLILines v st = Inr ls \<Longrightarrow> l \<in> set ls \<Longrightarrow> one_line l"
  unfolding STPCLILines_def Let_def
  by (auto split: option.splits sum.splits if_splits simp: one_line_stp_parts)

lemma one_line_trunk_allow: "l \<in> set (trunk_allow_lines ch) \<Longrightarrow> one_line l"
  unfolding trunk_allow_lines_def Let_def allowed_csv_def
  by (auto split: if_splits)

lemma one_line_NoVLAN: "l \<in> set (vlanNoVLANLines b) \<Longrightarrow> one_line l"
  by (auto simp: vlanNoVLANLines_def split: if_splits)

lemma one_line_Cisco: "l \<in> set (vlanCiscoLines ch) \<Longrightarrow> one_line l"
  unfolding vlanCiscoLines_def Let_def
  by (auto split: if_splits intro: one_line_trunk_allow one_line_NoVLAN)

lemma one_line_pvid: "one_line n \<Longrightarrow> l \<in> set (pvid_lines n) \<Longrightarrow> one_line l"
  by (auto simp: pvid_lines_def)

lemma one_line_ieee_trunk: "l \<in> set (ieee_trunk_lines ch) \<Longrightarrow> one_line l"
  unfolding ieee_trunk_lines_def Let_def
  by (auto split: if_splits intro: one_line_pvid [of "Itoa (pc_VLANID ch)"])

lemma one_line_IEEE: "l \<in> set (vlanIEEELines ch) \<Longrightarrow> one_line l"
  unfolding vlanIEEELines_def Let_def
  by (auto split: if_splits option.splits intro: one_line_ieee_trunk one_line_NoVLAN one_line_pvid [of "Itoa (pc_VLANID ch)"])

lemma one_line_VLANCLI: "l \<in> set (VLANCLILines style ch) \<Longrightarrow> one_line l"
  by (auto simp: VLANCLILines_def intro: one_line_Cisco one_line_IEEE split: if_splits)

lemma body_parts_lines:
  "body_parts steps ps = Inr ls \<longleftrightarrow>
     (\<forall>p\<in>set ps. \<exists>l. p = Inr l) \<and> ls = steps @ concat (map projr ps)"
  by (induction steps ps rule: body_parts.induct) auto

lemma body_parts_error: "body_parts steps ps = Inl e \<Longrightarrow> Inl e \<in> set ps"
  by (induction steps ps rule: body_parts.induct) auto

text \<open>Every part of the interface block consists of single lines.\<close>
lemma one_line_parts:
  "body_descr v ch = Inr ls \<Longrightarrow> \<forall>l\<in>set ls. one_line l"
  "body_admin v ch = Inr ls \<Longrightarrow> \<forall>l\<in>set ls. one_line l"
  "body_poe v ch = Inr ls \<Longrightarrow> \<forall>l\<in>set ls. one_line l"
  "body_reset v ch = Inr ls \<Longrightarrow> \<forall>l\<in>set ls. one_line l"
  "body_isolate v ch = Inr ls \<Longrightarrow> \<forall>l\<in>set ls. one_line l"
  "body_flow v ch = Inr ls \<Longrightarrow> \<forall>l\<in>set ls. one_line l"
  "body_stp v ch = Inr ls \<Longrightarrow> \<forall>l\<in>set ls. one_line l"
  "body_vlan v ch = Inr ls \<Longrightarrow> \<forall>l\<in>set ls. one_line l"
proof -
  show "body_descr v ch = Inr ls \<Longrightarrow> \<forall>l\<in>set ls. one_line l"
    by (auto simp: body_descr_def Let_def ClearDescriptionCLI_def one_line_quoteCLI split: option.splits if_splits)
  show "body_admin v ch = Inr ls \<Longrightarrow> \<forall>l\<in>set ls. one_line l"
    by (auto simp: body_admin_def AdminUpCLI_def split: option.splits if_splits)
  show "body_poe v ch = Inr ls \<Longrightarrow> \<forall>l\<in>set ls. one_line l"
    by (auto simp: body_poe_def dest: one_line_PoEMode split: option.splits sum.splits)
  show "body_reset v ch = Inr ls \<Longrightarrow> \<forall>l\<in>set ls. one_line l"
    by (auto simp: body_reset_def UbiquitiPoEResetCLI_def split: option.splits sum.splits)
  show "body_isolate v ch = Inr ls \<Longrightarrow> \<forall>l\<in>set ls. one_line l"
    by (auto simp: body_isolate_def IsolateCLI_def UbiquitiIsolateCLI_def split: option.splits if_splits)
  show "body_flow v ch = Inr ls \<Longrightarrow> \<forall>l\<in>set ls. one_line l"
    by (auto simp: body_flow_def FlowControlCLI_def UbiquitiFlowControlCLI_def split: option.splits if_splits)
  show "body_stp v ch = Inr ls \<Longrightarrow> \<forall>l\<in>set ls. one_line l"
    by (auto simp: body_stp_def dest: one_line_STP split: option.splits)
  show "body_vlan v ch = Inr ls \<Longrightarrow> \<forall>l\<in>set ls. one_line l"
    by (auto simp: body_vlan_def Let_def dest: one_line_VLANCLI split: option.splits if_splits)
qed

lemma one_line_SNR: "one_line iface \<Longrightarrow> l \<in> set (SNRIsolateSteps iface on) \<Longrightarrow> one_line l"
  unfolding SNRIsolateSteps_def Let_def by (auto simp: one_line_TrimSpace one_line_drop split: if_splits)

section \<open>Properties\<close>

lemma portConfigBody_steps:
  assumes "portConfigBody v iface ch = Inr steps" "one_line iface"
  shows "\<forall>s\<in>set steps. one_line s"
proof -
  define iso where "iso = (case ch_Isolate ch of Some on \<Rightarrow> if v = VendorSNR then SNRIsolateSteps iface on else [] | None \<Rightarrow> [])"
  define closing where "closing = [confExitCmd v] @ (if ch_Write ch then [''write memory''] else [])"
  have iso: "\<forall>s\<in>set iso. one_line s"
    using assms(2) by (auto simp: iso_def intro: one_line_SNR split: option.splits if_splits)
  have closing: "\<forall>s\<in>set closing. one_line s" "one_line (ifaceExitCmd v)"
    by (auto simp: closing_def confExitCmd_def ifaceExitCmd_def)
  show ?thesis
  proof (cases "needIF v ch")
    case False
    with assms(1) have "steps = iso @ closing"
      by (simp add: portConfigBody_def iso_def closing_def split: if_splits)
    with iso closing show ?thesis by auto
  next
    case True
    define ps where "ps = [body_descr v ch, body_admin v ch, body_poe v ch, body_reset v ch, body_isolate v ch,
                      body_flow v ch, body_stp v ch, body_vlan v ch, Inr ([ifaceExitCmd v] @ closing)]"
    from True assms(1) have "body_parts (iso @ [''interface '' @ iface]) ps = Inr steps"
      by (simp add: portConfigBody_def iso_def closing_def ps_def split: if_splits)
    then have ok: "\<forall>p\<in>set ps. \<exists>l. p = Inr l" and st: "steps = iso @ [''interface '' @ iface] @ concat (map projr ps)"
      unfolding body_parts_lines append_assoc by blast+
    have "\<forall>p\<in>set ps. \<forall>l\<in>set (projr p). one_line l"
    proof
      fix p assume p: "p \<in> set ps"
      with ok obtain l where l: "p = Inr l" by blast
      from p consider "p \<in> {body_descr v ch, body_admin v ch, body_poe v ch, body_reset v ch, body_isolate v ch,
                      body_flow v ch, body_stp v ch, body_vlan v ch}" | "p = Inr ([ifaceExitCmd v] @ closing)"
        by (auto simp: ps_def)
      then show "\<forall>l\<in>set (projr p). one_line l"
        using l closing one_line_parts [of v ch l] by cases auto
    qed
    with iso assms(2) show ?thesis unfolding st by auto
  qed
qed

text \<open>
  No command of a port change can smuggle in another one. For any vendor, any description, PoE mode,
  edge mode, VLAN list and operation, every step of a sequence that \<open>portConfigBody\<close> builds is
  free of carriage returns and line feeds, provided the interface name is.
\<close>
theorem portConfigBody_one_line:
  assumes "portConfigBody v iface ch = Inr steps" "one_line iface"
  shows "\<forall>s\<in>set steps. one_line s"
  using assms by (rule portConfigBody_steps)

definition hostile_change :: PortChange where
  "hostile_change = \<lparr>ch_Interface = ''0/1'', ch_Description = Some (''uplink'' @ LF @ ''no shutdown''), ch_AdminUp = None,
     ch_PoEMode = None, ch_PoEResetSeconds = None, ch_Isolate = None, ch_FlowControl = None, ch_STP = None,
     ch_VLAN = None, ch_vlanStyle = vlanStyleAuto, ch_Write = False\<rparr>"

lemma hostile_body:
  "portConfigBody VendorCisco ''0/1'' hostile_change =
     Inr [''interface 0/1'', ''description '' @ apos @ ''uplink no shutdown'' @ apos, ''exit'', ''exit'']"
  by code_simp

theorem portConfigBody_one_line_witness:
  "\<exists>steps. portConfigBody VendorCisco ''0/1'' hostile_change = Inr steps \<and> list_all one_line steps"
  using portConfigBody_one_line [OF hostile_body] hostile_body by (auto simp: list_all_iff)

lemma IsolateCLI_empty: "IsolateCLI v on = [] \<longleftrightarrow> v \<in> no_isolation \<union> {VendorMikrotik, VendorSNR}"
  by (cases v) (simp_all add: IsolateCLI_def no_isolation_def UbiquitiIsolateCLI_def)

lemma reset_ok: "(\<exists>c. UbiquitiPoEResetCLI n = Inr c) \<longleftrightarrow> 1 \<le> n \<and> n \<le> 60"
  by (auto simp: UbiquitiPoEResetCLI_def NormalizePoEResetSeconds_def)

text \<open>When a part of the interface block is an error.\<close>
lemma part_ok:
  "\<exists>l. body_descr v ch = Inr l" "\<exists>l. body_admin v ch = Inr l" "\<exists>l. body_flow v ch = Inr l"
  "(\<exists>l. body_poe v ch = Inr l) \<longleftrightarrow> (\<forall>m. ch_PoEMode ch = Some m \<longrightarrow> (\<exists>cmd. PoEModeCLI v m = Inr cmd))"
  "(\<exists>l. body_reset v ch = Inr l) \<longleftrightarrow> (\<forall>n. ch_PoEResetSeconds ch = Some n \<longrightarrow> 1 \<le> n \<and> n \<le> 60)"
  "(\<exists>l. body_isolate v ch = Inr l) \<longleftrightarrow> ch_Isolate ch = None \<or> v \<notin> no_isolation \<union> {VendorMikrotik}"
  "(\<exists>l. body_stp v ch = Inr l) \<longleftrightarrow> (\<forall>st. ch_STP ch = Some st \<longrightarrow> (\<exists>ls. STPCLILines v st = Inr ls))"
  "(\<exists>l. body_vlan v ch = Inr l) \<longleftrightarrow> (\<forall>vc. ch_VLAN ch = Some vc \<longrightarrow>
      VLANCLILines (if ch_vlanStyle ch = vlanStyleAuto then vlanStyleCisco else ch_vlanStyle ch) vc \<noteq> [])"
proof -
  show "\<exists>l. body_descr v ch = Inr l" "\<exists>l. body_admin v ch = Inr l" "\<exists>l. body_flow v ch = Inr l"
    by (simp_all add: body_descr_def body_admin_def body_flow_def)
  show "(\<exists>l. body_poe v ch = Inr l) \<longleftrightarrow> (\<forall>m. ch_PoEMode ch = Some m \<longrightarrow> (\<exists>cmd. PoEModeCLI v m = Inr cmd))"
    by (auto simp: body_poe_def split: option.splits sum.splits)
  show "(\<exists>l. body_reset v ch = Inr l) \<longleftrightarrow> (\<forall>n. ch_PoEResetSeconds ch = Some n \<longrightarrow> 1 \<le> n \<and> n \<le> 60)"
    unfolding reset_ok [symmetric] by (auto simp: body_reset_def split: option.splits sum.splits)
  show "(\<exists>l. body_isolate v ch = Inr l) \<longleftrightarrow> ch_Isolate ch = None \<or> v \<notin> no_isolation \<union> {VendorMikrotik}"
    by (cases "ch_Isolate ch") (auto simp: body_isolate_def IsolateCLI_empty no_isolation_def)
  show "(\<exists>l. body_stp v ch = Inr l) \<longleftrightarrow> (\<forall>st. ch_STP ch = Some st \<longrightarrow> (\<exists>ls. STPCLILines v st = Inr ls))"
    by (auto simp: body_stp_def split: option.splits)
  show "(\<exists>l. body_vlan v ch = Inr l) \<longleftrightarrow> (\<forall>vc. ch_VLAN ch = Some vc \<longrightarrow>
      VLANCLILines (if ch_vlanStyle ch = vlanStyleAuto then vlanStyleCisco else ch_vlanStyle ch) vc \<noteq> [])"
    by (cases "ch_VLAN ch") (simp_all add: body_vlan_def Let_def)
qed

lemma set_option_all: "(\<forall>x\<in>set_option a. P x) \<longleftrightarrow> (\<forall>x. a = Some x \<longrightarrow> P x)"
  by (cases a) auto

lemma portConfigBody_ok:
  "(\<exists>steps. portConfigBody v iface ch = Inr steps) \<longleftrightarrow>
     (ch_Isolate ch = None \<or> v \<notin> no_isolation \<union> {VendorMikrotik}) \<and>
     (\<forall>m. ch_PoEMode ch = Some m \<longrightarrow> (\<exists>cmd. PoEModeCLI v m = Inr cmd)) \<and>
     (\<forall>n. ch_PoEResetSeconds ch = Some n \<longrightarrow> 1 \<le> n \<and> n \<le> 60) \<and>
     (\<forall>st. ch_STP ch = Some st \<longrightarrow> (\<exists>ls. STPCLILines v st = Inr ls)) \<and>
     (\<forall>vc. ch_VLAN ch = Some vc \<longrightarrow> VLANCLILines (if ch_vlanStyle ch = vlanStyleAuto then vlanStyleCisco else ch_vlanStyle ch) vc \<noteq> [])"
proof (cases "ch_Isolate ch \<noteq> None \<and> v \<in> no_isolation")
  case True
  then show ?thesis by (auto simp: portConfigBody_def)
next
  case iso: False
  show ?thesis
  proof (cases "needIF v ch")
    case False
    then have "ch_PoEMode ch = None" "ch_PoEResetSeconds ch = None" "ch_STP ch = None" "ch_VLAN ch = None"
      "ch_Isolate ch \<noteq> None \<Longrightarrow> v = VendorSNR" by (auto simp: needIF_def)
    with iso False show ?thesis by (auto simp: portConfigBody_def)
  next
    case True
    from iso True have eq: "(\<exists>steps. portConfigBody v iface ch = Inr steps) \<longleftrightarrow>
        (\<forall>p\<in>{body_descr v ch, body_admin v ch, body_poe v ch, body_reset v ch, body_isolate v ch,
              body_flow v ch, body_stp v ch, body_vlan v ch}. \<exists>l. p = Inr l)"
      by (auto simp add: portConfigBody_def Let_def body_parts_lines)
    show ?thesis unfolding eq using iso by (simp add: part_ok) blast
  qed
qed

text \<open>
  What a port change may contain. \<open>portConfigBody\<close> builds a sequence exactly when: isolation is
  asked only of a vendor that has a command for it; the PoE mode is one the vendor knows; the reset
  time is between 1 and 60 seconds; the STP values are in range and the edge mode is known; and
  the VLAN operation has commands in the chosen style.
\<close>
theorem portConfigBody_total:
  "(\<exists>steps. portConfigBody v iface ch = Inr steps) \<longleftrightarrow>
     (ch_Isolate ch = None \<or> v \<notin> no_isolation \<union> {VendorMikrotik}) \<and>
     pred_option (\<lambda>m. \<exists>cmd. PoEModeCLI v m = Inr cmd) (ch_PoEMode ch) \<and>
     pred_option (\<lambda>n. 1 \<le> n \<and> n \<le> 60) (ch_PoEResetSeconds ch) \<and>
     pred_option (\<lambda>st. \<exists>ls. STPCLILines v st = Inr ls) (ch_STP ch) \<and>
     pred_option (\<lambda>vc. VLANCLILines (if ch_vlanStyle ch = vlanStyleAuto then vlanStyleCisco else ch_vlanStyle ch) vc \<noteq> []) (ch_VLAN ch)"
  unfolding pred_option_def set_option_all using portConfigBody_ok [of v iface ch] by blast

text \<open>Reading a quoted RouterOS string up to its closing quote: the value and what follows. An
  unescaped dollar sign would be a variable, an unknown escape something else: \<open>None\<close>.\<close>
fun ros_read :: "string \<Rightarrow> (string \<times> string) option" where
  "ros_read [] = None"
| "ros_read (c # cs) =
     (if c = CHR 0x22 then Some ([], cs)
      else if c = CHR ''$'' then None
      else if c = CHR 0x5C then
        (case cs of
           d # ds \<Rightarrow> if d \<in> {CHR 0x5C, CHR 0x22, CHR ''$''}
                     then map_option (\<lambda>(v, r). (d # v, r)) (ros_read ds) else None
         | [] \<Rightarrow> None)
      else map_option (\<lambda>(v, r). (c # v, r)) (ros_read cs))"

lemma mikrotikEscape_map:
  "mikrotikEscape s = concat (map (\<lambda>c. if c \<in> {CHR 0x5C, CHR 0x22, CHR ''$''} then [CHR 0x5C, c] else [c]) s)"
  by (induction s) (auto simp: mikrotikEscape_def ReplaceAll_char)

text \<open>
  RouterOS reads back what was quoted: a quoted interface name or comment ends at the quote that
  was added and its value is the text itself, so no quote, backslash or dollar sign in it can
  break out of the string.
\<close>
theorem mikrotikEscape_roundtrip:
  "ros_read (mikrotikEscape s @ quot @ rest) = Some (s, rest)"
  by (induction s) (auto simp: mikrotikEscape_map)

lemma SupportsPortCLI_eq [code]:
  "SupportsPortCLI v sysDescr name =
     (if isEdgeSwitchXP sysDescr name then Some False
      else if v = VendorAuto \<and> DetectVendor [] sysDescr name = VendorAuto then None
      else Some True)"
proof -
  have "\<not> (v = VendorAuto \<and> \<not> isEdgeSwitchXP sysDescr name \<and> DetectVendor [] sysDescr name = VendorAuto)"
    if "SupportsPortCLI v sysDescr name = Some y" for y
    by (rule SupportsPortCLI.raw_induct [where P = "\<lambda>v d n y. \<not> (v = VendorAuto \<and> \<not> isEdgeSwitchXP d n \<and> DetectVendor [] d n = VendorAuto)", OF _ that])
      (auto split: if_splits)
  then have "v = VendorAuto \<Longrightarrow> \<not> isEdgeSwitchXP sysDescr name \<Longrightarrow> DetectVendor [] sysDescr name = VendorAuto \<Longrightarrow>
      SupportsPortCLI v sysDescr name = None" by (cases "SupportsPortCLI v sysDescr name") auto
  moreover have direct: "u \<noteq> VendorAuto \<or> isEdgeSwitchXP sysDescr name \<Longrightarrow>
      SupportsPortCLI u sysDescr name = Some (\<not> isEdgeSwitchXP sysDescr name)" for u
    by (subst SupportsPortCLI.simps) auto
  moreover have "v = VendorAuto \<Longrightarrow> \<not> isEdgeSwitchXP sysDescr name \<Longrightarrow> DetectVendor [] sysDescr name \<noteq> VendorAuto \<Longrightarrow>
      SupportsPortCLI v sysDescr name = Some True"
    by (subst SupportsPortCLI.simps) (simp add: direct)
  ultimately show ?thesis by (cases "v = VendorAuto") auto
qed

lemma knownVendors_not_auto: "map_of knownVendors s \<noteq> Some VendorAuto"
  by (simp add: knownVendors_def)

lemma DetectVendor_auto: "DetectVendor e d n = VendorAuto \<Longrightarrow> DetectVendor [] d n = VendorAuto"
  using knownVendors_not_auto by (auto simp: DetectVendor_def knownVendors_def ToLower_def split: option.splits)

text \<open>
  \<open>SupportsPortCLI\<close> returns for every device except one: when the vendor is not set, the
  device is no EdgeSwitch XP, and neither its description nor its name shows a vendor, the function
  calls itself with the same arguments and never returns.
\<close>
theorem SupportsPortCLI_returns:
  "SupportsPortCLI v sysDescr name =
     (if isEdgeSwitchXP sysDescr name then Some False
      else if v = VendorAuto \<and> DetectVendor [] sysDescr name = VendorAuto then None
      else Some True)"
  by (rule SupportsPortCLI_eq)

lemma one_line_VLANDB: "l \<in> set (VLANDatabaseCLILines style ch) \<Longrightarrow> one_line l"
proof -
  assume l: "l \<in> set (VLANDatabaseCLILines style ch)"
  have q: "one_line (quoteCLIDescription (sanitizeVLANName n))" "one_line (quoteVLANDBName (sanitizeVLANName n))"
    "one_line (quoteVLANDBName (sanitizeVLANNameMax n 31))" for n
    by (simp_all add: one_line_quoteCLI one_line_quoteDB sanitizeVLANName_def)
  have del: "one_line (deleteIDCSV ch)" by (simp add: deleteIDCSV_def)
  have "l \<in> set (vlanDBCiscoLines ch) \<Longrightarrow> one_line l"
    by (auto simp: vlanDBCiscoLines_def Let_def q del split: if_splits)
  moreover have "l \<in> set (vlanDBIEEELines ch) \<Longrightarrow> one_line l"
    by (auto simp: vlanDBIEEELines_def Let_def q del split: if_splits)
  moreover have "l \<in> set (vlanDBEltexLines ch) \<Longrightarrow> one_line l"
    by (auto simp: vlanDBEltexLines_def Let_def q del split: if_splits)
  moreover have "l \<in> set (vlanDBHuaweiLines ch) \<Longrightarrow> one_line l"
    by (auto simp: vlanDBHuaweiLines_def Let_def q split: if_splits)
  ultimately show ?thesis using l by (cases style) auto
qed

end
