(* ===== verification/Cli_Session.thy ===== *)
theory Cli_Session
  imports Switch_CLI
begin

text \<open>
  A change on a switch over SSH (\<open>internal/swcfg\<close>: \<open>portcfg.go\<close>, \<open>vlan_db.go\<close>, \<open>write_memory.go\<close>,
  the error texts of \<open>fetch.go\<close>, \<open>interpretVLANDBCLI\<close> and \<open>cliLooksUnsupported\<close> of \<open>vlan.go\<close>): the
  dialogue with the switch, the reading of its answer, the fallback from one dialect to the next,
  and the result reported to the user.

  The SSH library and the switch behind it are an argument, a \<open>ssh_peer\<close>: what the two output
  buffers hold, and whether the last write failed, after a sequence of writes. Waiting for the
  switch to fall silent is part of that function. A call yields the error it returns, \<open>None\<close> for
  success, together with the bytes written in each session, which the Go code does not keep.
\<close>

section \<open>The peer\<close>

record ssh_peer =
  pe_setup :: "cli_error option"                    \<comment> \<open>opening the session, the pipe, the terminal, the shell\<close>
  pe_out :: "string list \<Rightarrow> string"                 \<comment> \<open>\<open>outBuf\<close> after these writes\<close>
  pe_errout :: "string list \<Rightarrow> string"              \<comment> \<open>\<open>errBuf\<close> after these writes\<close>
  pe_write :: "string list \<Rightarrow> cli_error option"      \<comment> \<open>the error of the last of these writes\<close>
  pe_exec :: "string \<Rightarrow> string \<times> cli_error option"   \<comment> \<open>\<open>CombinedOutput\<close> of one remote command\<close>

record Creds =
  cr_Host :: string
  cr_User :: string
  cr_Password :: string
  cr_EnablePass :: string
  cr_Vendor :: string
  cr_SysDescr :: string
  cr_Name :: string

section \<open>Error texts\<close>

text \<open>
  The text of an error. A run of Russian words, which no pattern of the code looks for, is written
  as one byte above 127.
\<close>
abbreviation ru :: string where "ru \<equiv> [CHR 0xD0]"

text \<open>\<open>%q\<close>\<close>
definition Quote :: "string \<Rightarrow> string" where
  "Quote s = quot @ concat (map (\<lambda>c. if c = CHR 0x22 \<or> c = CHR 0x5C then [CHR 0x5C, c]
     else if c = CHR 0x0A then [CHR 0x5C, CHR ''n''] else if c = CHR 0x0D then [CHR 0x5C, CHR ''r'']
     else if c = CHR 0x09 then [CHR 0x5C, CHR ''t''] else [c]) s) @ quot"

text \<open>\<open>strings.Fields\<close>\<close>
function Fields :: "string \<Rightarrow> string list" where
  "Fields [] = []"
| "Fields (c # cs) = (if is_space c then Fields cs
     else takeWhile (\<lambda>x. \<not> is_space x) (c # cs) # Fields (dropWhile (\<lambda>x. \<not> is_space x) (c # cs)))"
  by pat_completeness auto
termination
  by (relation "measure length") (auto simp: le_imp_less_Suc length_dropWhile_le)

text \<open>At least 72 per cent of the runes are drawing characters.\<close>
definition looksLikeArtLine :: "string \<Rightarrow> bool" where
  "looksLikeArtLine line =
     (let t = TrimSpace line in
      if length t < 8 then False
      else let art = length (filter (\<lambda>r. r \<in> (\<lambda>c. [c]) ` set [CHR ''|'', CHR ''/'', CHR 0x5C, CHR ''_'', CHR 0x60,
                 CHR 0x27, CHR ''-'', CHR ''<'', CHR ''>'', CHR ''.'', CHR '' '', CHR ''('', CHR '')'']) (runes t))
           in 100 * art \<ge> 72 * length (runes t))"

definition stripASCIIArtLines :: "string \<Rightarrow> string" where
  "stripASCIIArtLines s = Join (filter (\<lambda>line. \<not> looksLikeArtLine line) (Split s CHR 0x0A)) LF"

definition compactCLIErr :: "string \<Rightarrow> string" where
  "compactCLIErr s0 =
     (let s = Join (Fields (stripASCIIArtLines s0)) '' '' in
      if length s > 240 then take 240 s @ [CHR 0xE2, CHR 0x80, CHR 0xA6]
      else if s = [] then ''('' @ ru @ '')'' else s)"

fun poe_label :: "Vendor \<Rightarrow> string" where
  "poe_label VendorEltex = ''Eltex''" | "poe_label VendorSNR = ''SNR''" | "poe_label VendorMikrotik = ''MikroTik''"
| "poe_label VendorCisco = ''Cisco''" | "poe_label VendorAruba = ''Aruba''" | "poe_label VendorZyxel = ''Zyxel''"
| "poe_label VendorHuawei = ''Huawei''" | "poe_label VendorHP = ''HP ProCurve''"
| "poe_label VendorTPLink = ''TP-Link''" | "poe_label VendorDLink = ''D-Link''" | "poe_label v = vendor_text v"

fun vlan_error_text :: "vlan_error \<Rightarrow> string" where
  "vlan_error_text BadVLANID = ''vlan_id '' @ ru @ '' 1'' @ ru @ ''4094''"
| "vlan_error_text BadNativeVLANID = ''native vlan_id '' @ ru @ '' 1'' @ ru @ ''4094''"
| "vlan_error_text EmptyAllowedList = ru @ '' VLAN '' @ ru @ '' Allow vlan ('' @ ru @ '' 10,20-22)''"
| "vlan_error_text TooManyVLANs = ru @ '' VLAN '' @ ru @ '' 256)''"
| "vlan_error_text BadAllowedMode = ''allowed_mode: add | remove | all | except | set''"
| "vlan_error_text (UnknownVLANOp p) = ru @ '' VLAN '' @ Quote p"
| "vlan_error_text NoDeleteIDs = ru @ '' vlan_id '' @ ru @ '' vlan_ids''"
| "vlan_error_text TooManyDeletes = ru @ '' VLAN '' @ ru @ '' 256)''"
| "vlan_error_text CannotDeleteVLAN1 = ''VLAN 1 '' @ ru"
| "vlan_error_text (UnknownDBOp p) = ru @ '' vlan database '' @ Quote p"

fun Error :: "cli_error \<Rightarrow> string" where
  "Error EmptyInterface = ru"
| "Error NothingToChange = ru"
| "Error NoHostOrUser = ru @ '' host '' @ ru @ '' ssh user''"
| "Error (PortCLIUnsupported v) = ru @ '' (vendor='' @ vendor_text v @ '')''"
| "Error RouterOSNoVLAN = ''RouterOS: VLAN '' @ ru"
| "Error (VLANInvalid e) = vlan_error_text e"
| "Error (UnknownPoEMode raw) = ru @ '' poe_mode '' @ Quote raw @ '' ('' @ ru @ '' off, 24v, poe+)''"
| "Error (No24V v) = poe_label v @ '': '' @ ru @ '' 24V '' @ ru"
| "Error (BadPoEMode m) = ''poe_mode '' @ Quote m"
| "Error (PoEResetRange n) = ''poe reset: '' @ ru @ '' '' @ Itoa n @ '' '' @ ru @ '' 1..60 '' @ ru"
| "Error (NoNativeReset v) = vendor_text v @ '': native poe reset '' @ ru @ '' power-cycle)''"
| "Error (UnknownEdgePort raw) = ru @ '' edge_port '' @ Quote raw @ '' (auto|enable|disable)''"
| "Error (PriorityRange p) = ''port_priority '' @ Itoa p @ '' '' @ ru @ '' 0..240''"
| "Error (CostRange c) = ''path_cost '' @ Itoa c"
| "Error (NoIsolate v) = (if v = VendorMikrotik then ''MikroTik'' else vendor_text v) @ '': '' @ ru"
| "Error (StyleUnsupported p) = ''vlan: '' @ ru @ '' '' @ Quote p @ '' '' @ ru @ '' CLI-'' @ ru"
| "Error MikrotikNoFlowControl = ''MikroTik: flow control '' @ ru @ '' CLI '' @ ru"
| "Error MikrotikNoSTP = ''MikroTik: STP '' @ ru @ '' CLI '' @ ru"
| "Error (Transport t eof) = t"
| "Error (CliBad bad out) = ''cli: '' @ bad @ '' '' @ ru @ '' '' @ compactCLIErr out"
| "Error (NoConfigureMarks out) = ''cli: '' @ ru @ '' configure/interface '' @ ru @ '' '' @ compactCLIErr out"
| "Error (NoSnoopingMarks out) = ''cli: '' @ ru @ '' dhcp snooping '' @ ru @ '' '' @ compactCLIErr out"
| "Error (CliWriteBad bad out) = ''cli write: '' @ bad @ '' '' @ ru @ '' '' @ compactCLIErr out"
| "Error (NoWriteMarks out) = ''cli write: '' @ ru @ '' '' @ compactCLIErr out"
| "Error SessionClosed = ''ssh: '' @ ru @ '' CLI (EOF)''"
| "Error EmptyOutput = ru @ '' CLI''"
| "Error (Wrapped e1 e2) = Error e1 @ ''; '' @ Error e2"
| "Error (BothStyles e1 e2) = ''cisco-style: '' @ Error e1 @ ''; 802.1Q: '' @ Error e2"
| "Error (VLANDBUnsupported v) = ru @ '' vlan database '' @ ru @ '' (vendor='' @ vendor_text v @ '')''"
| "Error RouterOSNoVLANDB = ''RouterOS: vlan database '' @ ru"
| "Error (Labelled l e) = l @ '': '' @ Error e"
| "Error (AllAttempts es) = Join (map (\<lambda>(l, e). l @ '': '' @ Error e) es) ''; ''"
| "Error (NoAttempts v) = ru @ '' CLI '' @ ru @ '' vlan database (vendor='' @ vendor_text v @ '')''"
| "Error (LiveUnsupported v) = ru @ '' live-'' @ ru @ '' (vendor='' @ vendor_text v @ '')''"
| "Error (NoInterfaceBlock None out) = ru @ '' interface: '' @ compactCLIErr out"
| "Error (NoInterfaceBlock (Some e) out) = ru @ '' interface: '' @ Error e @ ''; '' @ compactCLIErr out"
| "Error (SnoopUnsupported v) = ''DHCP Snooping trust '' @ ru @ '' (vendor='' @ vendor_text v @ '')''"

definition cliLooksUnsupported :: "cli_error \<Rightarrow> bool" where
  "cliLooksUnsupported e \<longleftrightarrow> has_any (ToLower (Error e))
     [''invalid input'', ''unknown command'', ''incomplete command'', ''command not found'', ''% invalid'',
      ''invalid command'', ''unrecognized command'', ''wrong parameter'']"

definition isSSHSessionEOF :: "cli_error \<Rightarrow> bool" where
  "isSSHSessionEOF e =
     (if (case e of Transport t eof \<Rightarrow> eof | _ \<Rightarrow> False) then True
      else let s = ToLower (Error e) in s = ''eof'' \<or> Contains s ''eof'')"

section \<open>Reading the answer\<close>

fun first_index :: "string \<Rightarrow> string list \<Rightarrow> nat option" where
  "first_index s [] = None"
| "first_index s (p # ps) = (case Index s p of Some i \<Rightarrow> Some i | None \<Rightarrow> first_index s ps)"

text \<open>The lower-case output from the first of the marks on.\<close>
definition from_mark :: "string \<Rightarrow> string list \<Rightarrow> string" where
  "from_mark low marks = (case first_index low marks of Some i \<Rightarrow> drop i low | None \<Rightarrow> low)"

definition port_bad :: "string list" where
  "port_bad = [''invalid input detected'', ''incomplete command'', ''command not found'', ''unknown command'',
     ''% invalid'', ''permission denied'', ''authorization failed'']"

definition port_marks :: "string list" where
  "port_marks = [''(config'', ''config)#'', ''system-view'', ''[*'', ''interface '', LF @ ''description '',
     '' no description'', ''undo description'', ''no shutdown'', ''undo shutdown'', LF @ ''shutdown'',
     ''poe opmode'', ''poe reset'', ''power inline'', ''power-over-ethernet'', ''poe mode'', ''poe enable'',
     ''switchport protected'', ''port-isolate'', ''isolate-port'', ''flowcontrol'', ''flow control'',
     ''flow-control'', ''spanning-tree'', ''switchport mode'', ''switchport trunk native vlan'',
     ''switchport access vlan'']"

definition interpretPortCLI :: "string \<Rightarrow> cli_error option" where
  "interpretPortCLI out =
     (let low = ToLower out; check = from_mark low [''(config'', ''config)#''] in
      case find (Contains check) port_bad of
        Some bad \<Rightarrow> Some (CliBad bad out)
      | None \<Rightarrow> if has_any low port_marks then None else Some (NoConfigureMarks out))"

definition interpretVLANDBCLI :: "string \<Rightarrow> cli_error option" where
  "interpretVLANDBCLI out =
     (let low = ToLower out; check = from_mark low [''(config'', ''config)#'', ''(vlan'', ''vlan)#''] in
      case find (Contains check) (port_bad @ [''cannot be deleted'', ''cannot delete'', ''being used'']) of
        Some bad \<Rightarrow> Some (CliBad bad out)
      | None \<Rightarrow>
          if interpretPortCLI out = None then None
          else if has_any low [''vlan database'', ''vlan name'', ''no vlan'', ''undo vlan'', ''undo name'', ''(vlan'',
                 ''vlan)#'', ''-vlan'', ''[*''] then None
          else interpretPortCLI out)"

definition interpretWriteMemoryCLI :: "string \<Rightarrow> cli_error option" where
  "interpretWriteMemoryCLI out =
     (let low = ToLower out in
      case find (Contains low) (port_bad @ [''error:'']) of
        Some bad \<Rightarrow> Some (CliWriteBad bad out)
      | None \<Rightarrow>
          if has_any low [''write memory'', LF @ ''write'', ''ok'', ''success'', ''building configuration'', ''copied'',
               ''[ok]'', ''save''] then None
          else if Contains low ''#'' \<or> Contains low ''>'' then None
          else Some (NoWriteMarks out))"

definition interpretMikrotikCLI :: "string \<Rightarrow> cli_error option" where
  "interpretMikrotikCLI out =
     map_option (\<lambda>bad. CliBad bad out)
       (find (Contains (ToLower out)) [''expected end of command'', ''syntax error'', ''bad command name'',
          ''no such item'', ''failure:'', ''not enough permissions'', ''permission denied'', ''invalid value''])"

section \<open>The dialogue\<close>

definition send :: "ssh_peer \<Rightarrow> string list \<Rightarrow> string \<Rightarrow> string list \<times> cli_error option" where
  "send p ws s = (let ws' = ws @ [s @ CR @ LF] in (ws', pe_write p ws'))"

text \<open>The output since the writes \<open>ws0\<close>, lower case, asks for a password.\<close>
definition needPass :: "ssh_peer \<Rightarrow> string list \<Rightarrow> string list \<Rightarrow> bool" where
  "needPass p ws0 ws1 =
     (let chunk = ToLower (drop (length (pe_out p ws0)) (pe_out p ws1)) in
      Contains chunk ''password'' \<or> Contains chunk ''assword:'')"

definition alreadyPriv :: "ssh_peer \<Rightarrow> string list \<Rightarrow> string list \<Rightarrow> bool" where
  "alreadyPriv p ws0 ws1 \<longleftrightarrow>
     Contains (ToLower (drop (length (pe_out p ws0)) (pe_out p ws1))) ''#'' \<and> \<not> needPass p ws0 ws1"

text \<open>Entering privileged mode; the enable password is sent when the switch asks for one.\<close>
definition enter_priv :: "ssh_peer \<Rightarrow> string \<Rightarrow> string \<Rightarrow> string list \<times> cli_error option" where
  "enter_priv p privCmd enablePass =
     (if TrimSpace privCmd = [] then ([], None)
      else case send p [] privCmd of
        (ws1, Some e) \<Rightarrow> (ws1, Some e)
      | (ws1, None) \<Rightarrow>
          if needPass p [] ws1 \<and> \<not> alreadyPriv p [] ws1 then send p ws1 enablePass else (ws1, None))"

definition is_write :: "string \<Rightarrow> bool" where
  "is_write low \<longleftrightarrow> HasPrefix low ''write'' \<or> low = ''save'' \<or> HasPrefix low ''save''"

definition tail_of :: "nat \<Rightarrow> string \<Rightarrow> string" where
  "tail_of n s = (if length s > n then drop (length s - n) s else s)"

text \<open>The commands one by one; a question after saving is answered.\<close>
fun send_body :: "ssh_peer \<Rightarrow> string list \<Rightarrow> string \<Rightarrow> string list \<Rightarrow> string list \<Rightarrow> string list \<times> cli_error option" where
  "send_body p marks yes ws [] = (ws, None)"
| "send_body p marks yes ws (s # ss) =
     (case send p ws s of
        (ws1, Some e) \<Rightarrow> (ws1, Some e)
      | (ws1, None) \<Rightarrow>
          let tail = tail_of 240 (ToLower (pe_out p ws1));
              ws2 = (if is_write (ToLower s) \<and> has_any tail marks then fst (send p ws1 yes) else ws1)
          in send_body p marks yes ws2 ss)"

definition port_confirm :: "string list" where
  "port_confirm = [''confirm'', ''(y/n)'', ''[y/n]'', ''y/n:'', ''overwrite'']"

definition db_confirm :: "string list" where
  "db_confirm = [''confirm'', ''(y/n)'', ''[y/n]'']"

definition write_cmd :: "string \<Rightarrow> string \<Rightarrow> string" where
  "write_cmd writeCmd s = (if s = ''write memory'' then writeCmd else s)"

text \<open>The writes, the output and the error of a run.\<close>
type_synonym run = "string list \<times> string \<times> cli_error option"

definition both_bufs :: "ssh_peer \<Rightarrow> string list \<Rightarrow> string" where
  "both_bufs p ws = pe_out p ws @ pe_errout p ws"

definition runPortConfigure :: "ssh_peer \<Rightarrow> Vendor \<Rightarrow> string \<Rightarrow> string \<Rightarrow> PortChange \<Rightarrow> run" where
  "runPortConfigure p v enablePass iface ch =
     (case pe_setup p of
        Some e \<Rightarrow> ([], [], Some e)
      | None \<Rightarrow>
          (case confEnterCmds v of (privCmd, confCmd, writeCmd) \<Rightarrow>
           (case enter_priv p privCmd enablePass of
              (ws1, Some e) \<Rightarrow> (ws1, pe_out p ws1, Some e)
            | (ws1, None) \<Rightarrow>
                (case send p ws1 confCmd of
                   (ws2, Some e) \<Rightarrow> (ws2, pe_out p ws2, Some e)
                 | (ws2, None) \<Rightarrow>
                     (case portConfigBody v iface ch of
                        Inl e \<Rightarrow> (ws2, pe_out p ws2, Some e)
                      | Inr body \<Rightarrow>
                          (case send_body p port_confirm ''Y'' ws2 (map (write_cmd writeCmd) body) of
                             (ws3, e) \<Rightarrow> (ws3, both_bufs p ws3, e)))))))"

definition runVLANDBSession :: "ssh_peer \<Rightarrow> Vendor \<Rightarrow> string \<Rightarrow> string list \<Rightarrow> bool \<Rightarrow> run" where
  "runVLANDBSession p v enablePass body enterConfig =
     (case pe_setup p of
        Some e \<Rightarrow> ([], [], Some e)
      | None \<Rightarrow>
          (case confEnterCmds v of (privCmd, confCmd, writeCmd) \<Rightarrow>
           (case enter_priv p privCmd enablePass of
              (ws1, Some e) \<Rightarrow> (ws1, pe_out p ws1, Some e)
            | (ws1, None) \<Rightarrow>
                (case (if enterConfig then send p ws1 confCmd else (ws1, None)) of
                   (ws2, Some e) \<Rightarrow> (ws2, pe_out p ws2, Some e)
                 | (ws2, None) \<Rightarrow>
                     (case send_body p db_confirm ''y'' ws2 (map (write_cmd writeCmd) body) of
                        (ws3, e) \<Rightarrow> (ws3, both_bufs p ws3, e))))))"

definition maybeConfirmWrite :: "ssh_peer \<Rightarrow> string list \<Rightarrow> string list" where
  "maybeConfirmWrite p ws =
     (if has_any (tail_of 320 (ToLower (pe_out p ws))) port_confirm then fst (send p ws ''Y'') else ws)"

definition runWriteMemory :: "ssh_peer \<Rightarrow> Vendor \<Rightarrow> string \<Rightarrow> run" where
  "runWriteMemory p v enablePass =
     (case pe_setup p of
        Some e \<Rightarrow> ([], [], Some e)
      | None \<Rightarrow>
          (case confEnterCmds v of (privCmd, confCmd, writeCmd) \<Rightarrow>
           (case enter_priv p privCmd enablePass of
              (ws1, Some e) \<Rightarrow> (ws1, pe_out p ws1, Some e)
            | (ws1, None) \<Rightarrow>
                (case send p ws1 writeCmd of
                   (ws2, Some e) \<Rightarrow> (ws2, both_bufs p ws2, Some e)
                 | (ws2, None) \<Rightarrow> let ws3 = maybeConfirmWrite p ws2 in (ws3, both_bufs p ws3, None)))))"

section \<open>The operations\<close>

type_synonym dialer = "Creds \<Rightarrow> cli_error + ssh_peer"

text \<open>What a run means for the caller: the output decides, the run's own error comes second.\<close>
definition run_result :: "(string \<Rightarrow> cli_error option) \<Rightarrow> run \<Rightarrow> cli_error option" where
  "run_result interpret r =
     (case r of (ws, out, runErr) \<Rightarrow>
        (case interpret out of
           None \<Rightarrow> None
         | Some ierr \<Rightarrow>
             if TrimSpace out \<noteq> [] then
               (case runErr of
                  Some e \<Rightarrow> if \<not> isSSHSessionEOF e then Some (Wrapped ierr e) else Some ierr
                | None \<Rightarrow> Some ierr)
             else (case runErr of
                     Some e \<Rightarrow> if isSSHSessionEOF e then Some SessionClosed else Some e
                   | None \<Rightarrow> Some EmptyOutput)))"

definition enable_secret :: "Creds \<Rightarrow> string" where
  "enable_secret c = (let enable = TrimSpace (cr_EnablePass c) in if enable = [] then cr_Password c else enable)"

definition applyMikrotikPortChange :: "dialer \<Rightarrow> Creds \<Rightarrow> PortChange \<Rightarrow> cli_error option \<times> string list list" where
  "applyMikrotikPortChange dial c ch =
     (case MikrotikPortCmds (ch_Interface ch) ch of
        Inl e \<Rightarrow> (Some e, [])
      | Inr cmds \<Rightarrow>
          if TrimSpace (cr_Host c) = [] \<or> TrimSpace (cr_User c) = [] then (Some NoHostOrUser, [])
          else (case dial c of
            Inl e \<Rightarrow> (Some e, [])
          | Inr p \<Rightarrow>
              (case pe_setup p of
                 Some e \<Rightarrow> (Some e, [])
               | None \<Rightarrow>
                   let script = Join cmds ''; '' in
                   (case pe_exec p script of (s, runErr) \<Rightarrow>
                      ((case interpretMikrotikCLI s of
                          Some ierr \<Rightarrow> (case runErr of Some e \<Rightarrow> Some (Wrapped ierr e) | None \<Rightarrow> Some ierr)
                        | None \<Rightarrow> if TrimSpace s = [] then runErr else None), [[script]])))))"

text \<open>The checks on PoE and STP before the switch is contacted.\<close>
definition precheck :: "Vendor \<Rightarrow> PortChange \<Rightarrow> cli_error option" where
  "precheck v ch =
     (case (case ch_PoEMode ch of None \<Rightarrow> Inr [] | Some m \<Rightarrow> PoEModeCLI v m) of
        Inl e \<Rightarrow> Some e
      | Inr _ \<Rightarrow>
          (case (case ch_PoEResetSeconds ch of
                   None \<Rightarrow> None
                 | Some n \<Rightarrow> (case NormalizePoEResetSeconds n of
                     Inl e \<Rightarrow> Some e
                   | Inr _ \<Rightarrow> if PoEResetPlan v \<noteq> PoEResetNative then Some (NoNativeReset v) else None)) of
             Some e \<Rightarrow> Some e
           | None \<Rightarrow> (case ch_STP ch of
               None \<Rightarrow> None
             | Some st \<Rightarrow> (case STPCLILines v st of Inl e \<Rightarrow> Some e | Inr _ \<Rightarrow> None))))"

text \<open>
  The vendor of the device, asked again without the explicit one when that is \<open>auto\<close>; the outer
  \<open>None\<close> is a call that does not return, the inner one a device that is not supported.
\<close>
definition supported_vendor :: "Creds \<Rightarrow> Vendor option option" where
  "supported_vendor c =
     (let v0 = DetectVendor (cr_Vendor c) (cr_SysDescr c) (cr_Name c) in
      case SupportsPortCLI v0 (cr_SysDescr c) (cr_Name c) of
        None \<Rightarrow> None
      | Some False \<Rightarrow> Some None
      | Some True \<Rightarrow> Some (Some (if v0 = VendorAuto then DetectVendor [] (cr_SysDescr c) (cr_Name c) else v0)))"

text \<open>The checks of \<open>ApplyPortChange\<close> up to the validation of the VLAN change; \<open>None\<close> does not return.\<close>
definition port_guard :: "Creds \<Rightarrow> PortChange \<Rightarrow> (cli_error + Vendor) option" where
  "port_guard c ch =
     (if TrimSpace (ch_Interface ch) = [] then Some (Inl EmptyInterface)
      else if PortChange_empty ch then Some (Inl NothingToChange)
      else if TrimSpace (cr_Host c) = [] \<or> TrimSpace (cr_User c) = [] then Some (Inl NoHostOrUser)
      else case supported_vendor c of
        None \<Rightarrow> None
      | Some None \<Rightarrow> Some (Inl (PortCLIUnsupported (DetectVendor (cr_Vendor c) (cr_SysDescr c) (cr_Name c))))
      | Some (Some v) \<Rightarrow>
          (case ch_VLAN ch of
             None \<Rightarrow> Some (Inr v)
           | Some vc \<Rightarrow>
               if v = VendorMikrotik then Some (Inl RouterOSNoVLAN)
               else (case PortVLANChange_Validate vc of
                       Some e \<Rightarrow> Some (Inl (VLANInvalid e)) | None \<Rightarrow> Some (Inr v))))"

text \<open>One attempt: the checks on PoE and STP, the connection, the dialogue.\<close>
definition apply_once :: "dialer \<Rightarrow> Creds \<Rightarrow> Vendor \<Rightarrow> PortChange \<Rightarrow> cli_error option \<times> string list list" where
  "apply_once dial c v ch =
     (case precheck v ch of
        Some e \<Rightarrow> (Some e, [])
      | None \<Rightarrow>
          (case dial c of
             Inl e \<Rightarrow> (Some e, [])
           | Inr p \<Rightarrow>
               let r = runPortConfigure p v (enable_secret c) (TrimSpace (ch_Interface ch)) ch in
               (run_result interpretPortCLI r, [fst r])))"

text \<open>
  \<open>ApplyPortChange\<close>. In style \<open>vlanStyleAuto\<close> a VLAN change is tried in the Cisco dialect and, if
  the switch does not know it, in the IEEE one.
\<close>
function ApplyPortChange :: "dialer \<Rightarrow> Creds \<Rightarrow> PortChange \<Rightarrow> (cli_error option \<times> string list list) option" where
  "ApplyPortChange dial c ch =
     (case port_guard c ch of
        None \<Rightarrow> None
      | Some (Inl e) \<Rightarrow> Some (Some e, [])
      | Some (Inr v) \<Rightarrow>
          if v = VendorMikrotik then Some (applyMikrotikPortChange dial c ch)
          else if ch_VLAN ch \<noteq> None \<and> ch_vlanStyle ch = vlanStyleAuto then
            (case ApplyPortChange dial c (ch\<lparr>ch_vlanStyle := vlanStyleCisco\<rparr>) of
               None \<Rightarrow> None
             | Some (None, t1) \<Rightarrow> Some (None, t1)
             | Some (Some err, t1) \<Rightarrow>
                 if \<not> cliLooksUnsupported err then Some (Some err, t1)
                 else (case ApplyPortChange dial c (ch\<lparr>ch_vlanStyle := vlanStyleIEEE\<rparr>) of
                     None \<Rightarrow> None
                   | Some (None, t2) \<Rightarrow> Some (None, t1 @ t2)
                   | Some (Some err2, t2) \<Rightarrow> Some (Some (BothStyles err err2), t1 @ t2)))
          else Some (apply_once dial c v ch))"
  by pat_completeness auto
termination
  by (relation "measure (\<lambda>(dial, c, ch). if ch_vlanStyle ch = vlanStyleAuto then 1 else 0)") auto

declare ApplyPortChange.simps [simp del]

record vlanDBAttempt =
  at_style :: vlanCLIStyle
  at_enterConfig :: bool
  at_label :: string

abbreviation attempt :: "vlanCLIStyle \<Rightarrow> bool \<Rightarrow> string \<Rightarrow> vlanDBAttempt" where
  "attempt st b l \<equiv> \<lparr>at_style = st, at_enterConfig = b, at_label = l\<rparr>"

definition vlanDBAttempts :: "Vendor \<Rightarrow> vlanDBAttempt list" where
  "vlanDBAttempts v =
     (if v = VendorUbiquiti then [attempt vlanStyleIEEE False ''fastpath(#)'', attempt vlanStyleIEEE True ''fastpath(config)'']
      else if v = VendorHuawei then [attempt vlanStyleHuawei True ''vrp'']
      else if v = VendorEltex then
        [attempt vlanStyleEltex True ''eltex-db'', attempt vlanStyleCisco True ''cisco'', attempt vlanStyleIEEE False ''fastpath(#)'']
      else if v = VendorSNR then
        [attempt vlanStyleCisco True ''cisco'', attempt vlanStyleIEEE False ''fastpath(#)'',
         attempt vlanStyleIEEE True ''fastpath(config)'', attempt vlanStyleEltex True ''eltex-db'']
      else
        [attempt vlanStyleCisco True ''cisco'', attempt vlanStyleEltex True ''eltex-db'',
         attempt vlanStyleIEEE False ''fastpath(#)'', attempt vlanStyleIEEE True ''fastpath(config)''])"

definition applyVLANDatabaseOnce ::
    "dialer \<Rightarrow> Creds \<Rightarrow> Vendor \<Rightarrow> VLANDatabaseChange \<Rightarrow> vlanCLIStyle \<Rightarrow> bool \<Rightarrow> cli_error option \<times> string list list" where
  "applyVLANDatabaseOnce dial c v ch style enterConfig =
     (case dial c of
        Inl e \<Rightarrow> (Some e, [])
      | Inr p \<Rightarrow>
          let body = VLANDatabaseCLILines style ch @
                (if enterConfig then [confExitCmd v, ''write memory''] else [''write memory'']);
              r = runVLANDBSession p v (enable_secret c) body enterConfig
          in (run_result interpretVLANDBCLI r, [fst r]))"

text \<open>The loop over the attempts, with the messages of the failed ones.\<close>
fun try_attempts ::
    "dialer \<Rightarrow> Creds \<Rightarrow> Vendor \<Rightarrow> VLANDatabaseChange \<Rightarrow> (string \<times> cli_error) list \<Rightarrow> vlanDBAttempt list
      \<Rightarrow> cli_error option \<times> string list list" where
  "try_attempts dial c v ch parts [] =
     (if parts = [] then (Some (NoAttempts v), []) else (Some (AllAttempts parts), []))"
| "try_attempts dial c v ch parts (a # as) =
     (case applyVLANDatabaseOnce dial c v ch (at_style a) (at_enterConfig a) of
        (None, t) \<Rightarrow> (None, t)
      | (Some err, t) \<Rightarrow>
          if \<not> cliLooksUnsupported err then (Some (Labelled (at_label a) err), t)
          else (case try_attempts dial c v ch (parts @ [(at_label a, err)]) as of (r, ts) \<Rightarrow> (r, t @ ts)))"

definition ApplyVLANDatabaseChange :: "dialer \<Rightarrow> Creds \<Rightarrow> VLANDatabaseChange \<Rightarrow> (cli_error option \<times> string list list) option" where
  "ApplyVLANDatabaseChange dial c ch =
     (case VLANDatabaseChange_Validate ch of
        Some e \<Rightarrow> Some (Some (VLANInvalid e), [])
      | None \<Rightarrow>
          if TrimSpace (cr_Host c) = [] \<or> TrimSpace (cr_User c) = [] then Some (Some NoHostOrUser, [])
          else (case supported_vendor c of
            None \<Rightarrow> None
          | Some None \<Rightarrow> Some (Some (VLANDBUnsupported (DetectVendor (cr_Vendor c) (cr_SysDescr c) (cr_Name c))), [])
          | Some (Some v) \<Rightarrow>
              if v = VendorMikrotik then Some (Some RouterOSNoVLANDB, [])
              else Some (try_attempts dial c v ch [] (vlanDBAttempts v))))"

definition WriteMemory :: "dialer \<Rightarrow> Creds \<Rightarrow> cli_error option \<times> string list list" where
  "WriteMemory dial c =
     (if TrimSpace (cr_Host c) = [] \<or> TrimSpace (cr_User c) = [] then (Some NoHostOrUser, [])
      else let v0 = DetectVendor (cr_Vendor c) (cr_SysDescr c) (cr_Name c);
               v = (if v0 = VendorAuto then DetectVendor [] (cr_SysDescr c) (cr_Name c) else v0)
           in case dial c of
                Inl e \<Rightarrow> (Some e, [])
              | Inr p \<Rightarrow>
                  if v = VendorMikrotik then
                    (case pe_setup p of
                       Some e \<Rightarrow> (Some e, [])
                     | None \<Rightarrow> (None, [[''/system backup save name=netlynx-autosave'']]))
                  else (case runWriteMemory p v (enable_secret c) of (ws, out, runErr) \<Rightarrow>
                    ((case interpretWriteMemoryCLI out of
                        None \<Rightarrow> None
                      | Some ierr \<Rightarrow> (case runErr of
                          Some e \<Rightarrow> if \<not> isSSHSessionEOF e then Some (Wrapped ierr e) else Some ierr
                        | None \<Rightarrow> Some ierr)), [ws])))"

section \<open>Every write is one command\<close>

definition command_writes :: "string list \<Rightarrow> bool" where
  "command_writes ws \<longleftrightarrow> (\<forall>w\<in>set ws. \<exists>l. one_line l \<and> (w = l \<or> w = l @ CR @ LF))"

lemma command_writes_Nil [simp]: "command_writes []"
  by (simp add: command_writes_def)

lemma command_writes_send: "command_writes ws \<Longrightarrow> one_line s \<Longrightarrow> command_writes (fst (send p ws s))"
  by (auto simp: command_writes_def send_def Let_def)

lemma one_line_enter: "confEnterCmds v = (a, b, c) \<Longrightarrow> one_line a \<and> one_line b \<and> one_line c"
  by (cases v) (auto simp: confEnterCmds_def)

lemma command_writes_priv:
  assumes "one_line privCmd" "one_line pass"
  shows "command_writes (fst (enter_priv p privCmd pass))"
proof -
  obtain ws1 e where s: "send p [] privCmd = (ws1, e)" by (cases "send p [] privCmd")
  have "command_writes ws1" using command_writes_send [of "[]" privCmd p] assms s by simp
  then show ?thesis
    using assms s by (auto simp: enter_priv_def command_writes_send split: option.splits)
qed

lemma command_writes_body:
  "command_writes ws \<Longrightarrow> one_line yes \<Longrightarrow> \<forall>s\<in>set ss. one_line s \<Longrightarrow> command_writes (fst (send_body p marks yes ws ss))"
proof (induction ss arbitrary: ws)
  case (Cons s ss)
  obtain ws1 e where s: "send p ws s = (ws1, e)" by (cases "send p ws s")
  have w1: "command_writes ws1" using command_writes_send [of ws s p] Cons.prems s by simp
  then have "command_writes (fst (send p ws1 yes))"
    using command_writes_send Cons.prems(2) by simp
  with w1 Cons s show ?case by (simp add: Let_def split: option.split)
qed simp

lemma one_line_write_cmd: "one_line w \<Longrightarrow> \<forall>s\<in>set ss. one_line s \<Longrightarrow> \<forall>s\<in>set (map (write_cmd w) ss). one_line s"
  by (auto simp: write_cmd_def)

lemma command_writes_port:
  assumes "one_line pass" "one_line iface"
  shows "command_writes (fst (runPortConfigure p v pass iface ch))"
proof -
  obtain a b c where abc: "confEnterCmds v = (a, b, c)" by (cases "confEnterCmds v") auto
  note ol = one_line_enter [OF abc]
  obtain ws1 e1 where p1: "enter_priv p a pass = (ws1, e1)" by (cases "enter_priv p a pass")
  have w1: "command_writes ws1" using command_writes_priv [of a pass p] ol assms p1 by simp
  obtain ws2 e2 where p2: "send p ws1 b = (ws2, e2)" by (cases "send p ws1 b")
  have w2: "command_writes ws2" using command_writes_send [of ws1 b p] w1 ol p2 by simp
  have w3: "portConfigBody v iface ch = Inr body \<Longrightarrow>
      command_writes (fst (send_body p port_confirm ''Y'' ws2 (map (write_cmd c) body)))" for body
    by (intro command_writes_body w2 one_line_write_cmd portConfigBody_steps [where v = v and iface = iface and ch = ch])
       (simp_all add: ol assms)
  show ?thesis
    using w1 w2 w3 by (auto simp: runPortConfigure_def abc p1 p2 split: option.splits sum.splits prod.splits)
qed

lemma one_line_mikrotik:
  assumes "MikrotikPortCmds iface ch = Inr cmds" "one_line iface" "x \<in> set cmds"
  shows "one_line x"
proof -
  have esc: "one_line s \<Longrightarrow> one_line (mikrotikEscape s)" for s
    by (simp add: mikrotikEscape_def one_line_ReplaceAll)
  have find: "one_line (mikrotik_find (TrimSpace iface))"
    using assms(2) by (simp add: mikrotik_find_def mikrotikIfaceQuote_def esc one_line_TrimSpace)
  have com: "one_line (mikrotikCommentValue d)" for d
    by (simp add: mikrotikCommentValue_def esc one_line_collapse)
  have spr: "one_line f \<Longrightarrow> one_line a \<Longrightarrow> one_line (Sprintf_s f a)" for f a
  proof (induction f a rule: Sprintf_s.induct)
    case (2 c cs arg)
    then show ?case by (cases cs) auto
  qed simp
  show ?thesis
    using assms(1,3) find
    by (auto simp: MikrotikPortCmds_def Let_def body_parts_lines com spr one_line_PoEMode
        split: if_splits option.splits sum.splits)
qed

lemma one_line_secret: "one_line (cr_Password c) \<Longrightarrow> one_line (cr_EnablePass c) \<Longrightarrow> one_line (enable_secret c)"
  by (simp add: enable_secret_def Let_def one_line_TrimSpace)

lemma command_writes_mikrotik:
  assumes "one_line (ch_Interface ch)"
  shows "\<forall>t\<in>set (snd (applyMikrotikPortChange dial c ch)). command_writes t"
proof -
  have "MikrotikPortCmds (ch_Interface ch) ch = Inr cmds \<Longrightarrow> one_line (Join cmds ''; '')" for cmds
    using one_line_mikrotik [OF _ assms] by (intro one_line_Join) auto
  then show ?thesis
    by (auto simp: applyMikrotikPortChange_def Let_def command_writes_def split: sum.splits option.splits prod.splits)
qed

lemma port_guard_style: "port_guard c (ch\<lparr>ch_vlanStyle := st\<rparr>) = port_guard c ch"
  by (simp add: port_guard_def PortChange_empty_def split: option.split)

text \<open>In a fixed style there is one attempt; in the automatic one there are two at most.\<close>
lemma ApplyPortChange_direct:
  assumes "port_guard c ch = Some (Inr v)" "v \<noteq> VendorMikrotik" "ch_VLAN ch = None \<or> ch_vlanStyle ch \<noteq> vlanStyleAuto"
  shows "ApplyPortChange dial c ch = Some (apply_once dial c v ch)"
  using assms by (subst ApplyPortChange.simps) auto

lemma ApplyPortChange_auto:
  assumes "port_guard c ch = Some (Inr v)" "v \<noteq> VendorMikrotik" "ch_VLAN ch \<noteq> None" "ch_vlanStyle ch = vlanStyleAuto"
    "apply_once dial c v (ch\<lparr>ch_vlanStyle := vlanStyleCisco\<rparr>) = (r1, t1)"
    "apply_once dial c v (ch\<lparr>ch_vlanStyle := vlanStyleIEEE\<rparr>) = (r2, t2)"
  shows "ApplyPortChange dial c ch =
    (case r1 of
       None \<Rightarrow> Some (None, t1)
     | Some e1 \<Rightarrow> if \<not> cliLooksUnsupported e1 then Some (Some e1, t1)
         else Some (map_option (BothStyles e1) r2, t1 @ t2))"
proof -
  have "ApplyPortChange dial c (ch\<lparr>ch_vlanStyle := vlanStyleCisco\<rparr>) = Some (r1, t1)"
    "ApplyPortChange dial c (ch\<lparr>ch_vlanStyle := vlanStyleIEEE\<rparr>) = Some (r2, t2)"
    using assms ApplyPortChange_direct [of c "ch\<lparr>ch_vlanStyle := _\<rparr>" v] by (simp_all add: port_guard_style)
  with assms show ?thesis
    by (subst ApplyPortChange.simps) (auto split: option.splits)
qed

lemma command_writes_once:
  assumes "one_line (ch_Interface ch)" "one_line (enable_secret c)"
  shows "\<forall>t\<in>set (snd (apply_once dial c v ch)). command_writes t"
  using assms by (auto simp: apply_once_def Let_def one_line_TrimSpace intro!: command_writes_port split: option.splits sum.splits)

text \<open>
  C2. Whatever a user asks for on a port and whatever the switch answers, each write to the switch is one
  command: a text without carriage return or line feed, followed by the line end the session adds
  (a RouterOS script is sent without one). The interface name and the passwords, which the code
  passes on as they are, must not contain line ends.
\<close>
theorem ApplyPortChange_commands:
  assumes "ApplyPortChange dial c ch = Some (r, ts)"
    "one_line (ch_Interface ch)" "one_line (cr_Password c)" "one_line (cr_EnablePass c)"
  shows "\<forall>t\<in>set ts. command_writes t"
proof (cases "port_guard c ch")
  case None
  with assms(1) show ?thesis by (subst (asm) ApplyPortChange.simps) simp
next
  case (Some g)
  note sec = one_line_secret [OF assms(3,4)]
  show ?thesis
  proof (cases g)
    case (Inl e)
    with Some assms(1) show ?thesis by (subst (asm) ApplyPortChange.simps) simp
  next
    case (Inr v)
    note once = command_writes_once [OF _ sec, where dial = dial and v = v]
    consider "v = VendorMikrotik" | "v \<noteq> VendorMikrotik" "ch_VLAN ch = None \<or> ch_vlanStyle ch \<noteq> vlanStyleAuto"
      | "v \<noteq> VendorMikrotik" "ch_VLAN ch \<noteq> None" "ch_vlanStyle ch = vlanStyleAuto" by blast
    then show ?thesis
    proof cases
      case 1
      with Some Inr assms(1) have "ts = snd (applyMikrotikPortChange dial c ch)"
        by (subst (asm) ApplyPortChange.simps) simp
      with command_writes_mikrotik [OF assms(2)] show ?thesis by simp
    next
      case 2
      with Some Inr assms(1) have "ts = snd (apply_once dial c v ch)"
        using ApplyPortChange_direct [of c ch v dial] by simp
      with once assms(2) show ?thesis by simp
    next
      case 3
      obtain r1 t1 where 1: "apply_once dial c v (ch\<lparr>ch_vlanStyle := vlanStyleCisco\<rparr>) = (r1, t1)" by fastforce
      obtain r2 t2 where 2: "apply_once dial c v (ch\<lparr>ch_vlanStyle := vlanStyleIEEE\<rparr>) = (r2, t2)" by fastforce
      have "\<forall>t\<in>set (t1 @ t2). command_writes t"
        using once [of "ch\<lparr>ch_vlanStyle := vlanStyleCisco\<rparr>"] once [of "ch\<lparr>ch_vlanStyle := vlanStyleIEEE\<rparr>"] assms(2) 1 2
        by auto
      moreover have "set ts \<subseteq> set (t1 @ t2)"
        using ApplyPortChange_auto [OF _ 3 1 2] Some Inr assms(1) by (auto split: option.splits if_splits)
      ultimately show ?thesis by blast
    qed
  qed
qed

text \<open>A Cisco switch that accepts every command: the prompt is the only output.\<close>
definition prompt_peer :: ssh_peer where
  "prompt_peer = \<lparr>pe_setup = None, pe_out = (\<lambda>ws. ''sw#'' @ concat (map (\<lambda>w. LF @ ''sw(config)#'') ws)),
     pe_errout = (\<lambda>ws. []), pe_write = (\<lambda>ws. None), pe_exec = (\<lambda>s. ([], None))\<rparr>"

definition cisco_creds :: Creds where
  "cisco_creds = \<lparr>cr_Host = ''10.0.0.2'', cr_User = ''admin'', cr_Password = ''secret'', cr_EnablePass = [],
     cr_Vendor = ''cisco'', cr_SysDescr = [], cr_Name = ''sw-1''\<rparr>"

lemma hostile_run:
  "ApplyPortChange (\<lambda>c. Inr prompt_peer) cisco_creds hostile_change =
     Some (None, [map (\<lambda>s. s @ CR @ LF) [''enable'', ''configure terminal'', ''interface 0/1'',
       ''description '' @ apos @ ''uplink no shutdown'' @ apos, ''exit'', ''exit'']])"
  by code_simp

theorem ApplyPortChange_commands_witness:
  "\<exists>ts. ApplyPortChange (\<lambda>c. Inr prompt_peer) cisco_creds hostile_change = Some (None, ts) \<and>
     length ts = 1 \<and> list_all command_writes ts"
proof -
  have "one_line (ch_Interface hostile_change)" "one_line (cr_Password cisco_creds)" "one_line (cr_EnablePass cisco_creds)"
    by (simp_all add: hostile_change_def cisco_creds_def)
  from ApplyPortChange_commands [OF hostile_run this] hostile_run show ?thesis
    by (simp only: list_all_iff) simp
qed

lemma supported_vendor_None:
  "supported_vendor c = None \<longleftrightarrow> \<not> isEdgeSwitchXP (cr_SysDescr c) (cr_Name c) \<and>
     DetectVendor (cr_Vendor c) (cr_SysDescr c) (cr_Name c) = VendorAuto"
  using DetectVendor_auto by (auto simp: supported_vendor_def SupportsPortCLI_eq Let_def split: if_splits)

lemma ApplyPortChange_total: "port_guard c ch = Some (Inr v) \<Longrightarrow> ApplyPortChange dial c ch \<noteq> None"
proof -
  assume g: "port_guard c ch = Some (Inr v)"
  consider "v = VendorMikrotik" | "v \<noteq> VendorMikrotik" "ch_VLAN ch = None \<or> ch_vlanStyle ch \<noteq> vlanStyleAuto"
    | "v \<noteq> VendorMikrotik" "ch_VLAN ch \<noteq> None" "ch_vlanStyle ch = vlanStyleAuto" by blast
  then show ?thesis
  proof cases
    case 1
    with g show ?thesis by (simp add: ApplyPortChange.simps [of dial c ch])
  next
    case 2
    with g show ?thesis by (simp add: ApplyPortChange_direct)
  next
    case 3
    then show ?thesis
      using ApplyPortChange_auto [OF g 3, of dial] by (cases "apply_once dial c v (ch\<lparr>ch_vlanStyle := vlanStyleCisco\<rparr>)",
        cases "apply_once dial c v (ch\<lparr>ch_vlanStyle := vlanStyleIEEE\<rparr>)") (auto split: option.splits if_splits)
  qed
qed

text \<open>
  C32. \<open>ApplyPortChange\<close> returns for every device except those \<open>SupportsPortCLI\<close> loops on: a change
  with an interface, something to change, a host and a user, for a device that is no EdgeSwitch XP
  and whose vendor is neither set nor recognised.
\<close>
theorem ApplyPortChange_returns:
  "ApplyPortChange dial c ch = None \<longleftrightarrow>
     TrimSpace (ch_Interface ch) \<noteq> [] \<and> \<not> PortChange_empty ch \<and>
     TrimSpace (cr_Host c) \<noteq> [] \<and> TrimSpace (cr_User c) \<noteq> [] \<and>
     \<not> isEdgeSwitchXP (cr_SysDescr c) (cr_Name c) \<and>
     DetectVendor (cr_Vendor c) (cr_SysDescr c) (cr_Name c) = VendorAuto"
proof -
  have "ApplyPortChange dial c ch = None \<longleftrightarrow> port_guard c ch = None"
  proof (cases "port_guard c ch")
    case (Some g)
    then show ?thesis using ApplyPortChange_total [of c ch _ dial]
      by (cases g) (simp_all add: ApplyPortChange.simps [of dial c ch])
  qed (simp add: ApplyPortChange.simps [of dial c ch])
  also have "\<dots> \<longleftrightarrow> TrimSpace (ch_Interface ch) \<noteq> [] \<and> \<not> PortChange_empty ch \<and>
     TrimSpace (cr_Host c) \<noteq> [] \<and> TrimSpace (cr_User c) \<noteq> [] \<and> supported_vendor c = None"
    by (auto simp: port_guard_def split: option.splits)
  finally show ?thesis by (simp add: supported_vendor_None)
qed

text \<open>
  A VLAN change without a fixed style: it succeeds exactly when the Cisco dialect succeeds, or
  fails with a message that the command is unknown and the IEEE dialect then succeeds. At most two
  sessions are opened, and the second dialect is never tried after another kind of failure.
\<close>
theorem ApplyPortChange_fallback:
  assumes "port_guard c ch = Some (Inr v)" "v \<noteq> VendorMikrotik" "ch_VLAN ch \<noteq> None" "ch_vlanStyle ch = vlanStyleAuto"
    "apply_once dial c v (ch\<lparr>ch_vlanStyle := vlanStyleCisco\<rparr>) = (r1, t1)"
    "apply_once dial c v (ch\<lparr>ch_vlanStyle := vlanStyleIEEE\<rparr>) = (r2, t2)"
  shows "\<exists>r ts. ApplyPortChange dial c ch = Some (r, ts) \<and> length ts \<le> 2 \<and>
    (r = None \<longleftrightarrow> r1 = None \<or> (\<exists>e. r1 = Some e \<and> cliLooksUnsupported e) \<and> r2 = None) \<and>
    ts = t1 @ (if \<exists>e. r1 = Some e \<and> cliLooksUnsupported e then t2 else [])"
proof -
  have "length t1 \<le> 1" "length t2 \<le> 1"
    using assms(5,6) by (auto simp: apply_once_def Let_def split: option.splits sum.splits)
  then show ?thesis
    using ApplyPortChange_auto [OF assms] by (cases r1) (auto split: if_splits)
qed

text \<open>An EdgeSwitch whose CLI has no \<open>switchport\<close> commands.\<close>
definition fastpath_peer :: ssh_peer where
  "fastpath_peer = prompt_peer\<lparr>pe_out := (\<lambda>ws. ''sw#'' @ concat (map (\<lambda>w. LF @ ''(sw)(config)#'' @
     (if HasPrefix w ''switchport'' then ''% Invalid input detected'' else [])) ws))\<rparr>"

definition edge_creds :: Creds where
  "edge_creds = cisco_creds\<lparr>cr_Vendor := ''ubiquiti''\<rparr>"

definition vlan_change :: "PortVLANChange \<Rightarrow> PortChange" where
  "vlan_change vc = hostile_change\<lparr>ch_Description := None, ch_VLAN := Some vc\<rparr>"

definition access_10 :: PortVLANChange where
  "access_10 = \<lparr>pc_Op = VLANOpSetAccess, pc_VLANID = 10, pc_AllowedMode = [], pc_AllowedList = [],
     pc_PrevAccessVLAN = None, pc_PortMode = []\<rparr>"

lemma access_once:
  "apply_once (\<lambda>c. Inr fastpath_peer) edge_creds VendorUbiquiti ((vlan_change access_10)\<lparr>ch_vlanStyle := vlanStyleIEEE\<rparr>) =
     (None, [map (\<lambda>s. s @ CR @ LF) [''en'', ''configure'', ''interface 0/1'', ''vlan pvid 10'',
        ''vlan participation include 10'', ''no vlan tagging 10'', ''exit'', ''exit'']])"
  "\<exists>e. fst (apply_once (\<lambda>c. Inr fastpath_peer) edge_creds VendorUbiquiti ((vlan_change access_10)\<lparr>ch_vlanStyle := vlanStyleCisco\<rparr>)) =
     Some e \<and> cliLooksUnsupported e"
  "port_guard edge_creds (vlan_change access_10) = Some (Inr VendorUbiquiti)"
    apply code_simp
   apply (rule exI [of _ "CliBad ''invalid input detected'' (pe_out fastpath_peer (map (\<lambda>s. s @ CR @ LF) [''en'', ''configure'', ''interface 0/1'',
     ''switchport mode access'', ''switchport access vlan 10'', ''exit'', ''exit'']))"])
   apply code_simp
  apply code_simp
  done

theorem ApplyPortChange_fallback_witness:
  "\<exists>ts. ApplyPortChange (\<lambda>c. Inr fastpath_peer) edge_creds (vlan_change access_10) = Some (None, ts)"
proof -
  obtain r1 t1 where 1: "apply_once (\<lambda>c. Inr fastpath_peer) edge_creds VendorUbiquiti
      ((vlan_change access_10)\<lparr>ch_vlanStyle := vlanStyleCisco\<rparr>) = (r1, t1)" by fastforce
  with access_once(2) obtain e where e: "r1 = Some e" "cliLooksUnsupported e" by auto
  have "ch_VLAN (vlan_change access_10) \<noteq> None" "ch_vlanStyle (vlan_change access_10) = vlanStyleAuto"
    by (simp_all add: vlan_change_def hostile_change_def)
  from ApplyPortChange_fallback [OF access_once(3) _ this 1 access_once(1)] e show ?thesis by auto
qed

text \<open>
  A refused change can be reported as done. When the sequence for a port change cannot be built (the
  vendor has no isolation command, or the VLAN operation has no command in this style), the session
  has already entered configuration mode; if the prompts up to there read as success, the call
  reports success although no command for the port was sent.
\<close>
theorem apply_once_false_success:
  assumes "precheck v ch = None" "dial c = Inr p" "pe_setup p = None"
    "portConfigBody v (TrimSpace (ch_Interface ch)) ch = Inl e"
    "confEnterCmds v = (privCmd, confCmd, writeCmd)"
    "enter_priv p privCmd (enable_secret c) = (ws1, None)" "send p ws1 confCmd = (ws2, None)"
    "interpretPortCLI (pe_out p ws2) = None"
  shows "apply_once dial c v ch = (None, [ws2])"
  using assms by (simp add: apply_once_def runPortConfigure_def run_result_def)

definition isolate_change :: PortChange where
  "isolate_change = hostile_change\<lparr>ch_Description := None, ch_Isolate := Some True\<rparr>"

definition aruba_creds :: Creds where
  "aruba_creds = cisco_creds\<lparr>cr_Vendor := ''aruba''\<rparr>"

theorem apply_once_false_success_witness:
  "apply_once (\<lambda>c. Inr prompt_peer) aruba_creds VendorAruba isolate_change =
     (None, [[''enable'' @ CR @ LF, ''configure terminal'' @ CR @ LF]])"
proof -
  have "precheck VendorAruba isolate_change = None" by code_simp
  moreover have "pe_setup prompt_peer = None" by code_simp
  moreover have "portConfigBody VendorAruba (TrimSpace (ch_Interface isolate_change)) isolate_change = Inl (NoIsolate VendorAruba)"
    by code_simp
  moreover have "confEnterCmds VendorAruba = (''enable'', ''configure terminal'', ''write memory'')" by code_simp
  moreover have "enter_priv prompt_peer ''enable'' (enable_secret aruba_creds) = ([''enable'' @ CR @ LF], None)" by code_simp
  moreover have "send prompt_peer [''enable'' @ CR @ LF] ''configure terminal'' =
      ([''enable'' @ CR @ LF, ''configure terminal'' @ CR @ LF], None)" by code_simp
  moreover have "interpretPortCLI (pe_out prompt_peer [''enable'' @ CR @ LF, ''configure terminal'' @ CR @ LF]) = None" by code_simp
  ultimately show ?thesis by (rule apply_once_false_success [where dial = "\<lambda>c. Inr prompt_peer", OF _ refl])
qed

text \<open>
  The same through \<open>ApplyPortChange\<close>: allowing every VLAN on a trunk of a switch without \<open>switchport\<close>
  commands falls back to the IEEE style, which has no command for it, and is reported as done.
\<close>
lemma trunk_all_false_success:
  "\<exists>t1 t2. ApplyPortChange (\<lambda>c. Inr fastpath_peer) edge_creds
     (vlan_change (access_10\<lparr>pc_Op := VLANOpTrunkAllow, pc_VLANID := 0, pc_AllowedMode := ''all''\<rparr>)) = Some (None, [t1, t2]) \<and>
     t2 = [''en'' @ CR @ LF, ''configure'' @ CR @ LF]"
  apply (rule exI [of _ "map (\<lambda>s. s @ CR @ LF) [''en'', ''configure'', ''interface 0/1'',
     ''switchport mode trunk'', ''switchport trunk allowed vlan all'', ''exit'', ''exit'']"])
  apply (rule exI [of _ "[''en'' @ CR @ LF, ''configure'' @ CR @ LF]"])
  by code_simp

section \<open>The VLAN database\<close>

text \<open>The result of the i-th attempt.\<close>
definition attempt_result :: "dialer \<Rightarrow> Creds \<Rightarrow> Vendor \<Rightarrow> VLANDatabaseChange \<Rightarrow> vlanDBAttempt \<Rightarrow> cli_error option" where
  "attempt_result dial c v ch a = fst (applyVLANDatabaseOnce dial c v ch (at_style a) (at_enterConfig a))"

definition attempt_unsupported :: "dialer \<Rightarrow> Creds \<Rightarrow> Vendor \<Rightarrow> VLANDatabaseChange \<Rightarrow> vlanDBAttempt \<Rightarrow> bool" where
  "attempt_unsupported dial c v ch a =
     (case attempt_result dial c v ch a of None \<Rightarrow> False | Some e \<Rightarrow> cliLooksUnsupported e)"

lemma try_attempts_cases:
  "try_attempts dial c v ch parts (a # as) =
     (if attempt_unsupported dial c v ch a
      then (case try_attempts dial c v ch (parts @ [(at_label a, the (attempt_result dial c v ch a))]) as of
              (r, ts) \<Rightarrow> (r, snd (applyVLANDatabaseOnce dial c v ch (at_style a) (at_enterConfig a)) @ ts))
      else (map_option (Labelled (at_label a)) (attempt_result dial c v ch a),
            snd (applyVLANDatabaseOnce dial c v ch (at_style a) (at_enterConfig a))))"
  by (auto simp: attempt_unsupported_def attempt_result_def split: option.splits prod.splits)

lemma try_attempts_tail:
  "try_attempts dial c v ch parts as =
     (case dropWhile (attempt_unsupported dial c v ch) as of
        [] \<Rightarrow> (let ps = parts @ map (\<lambda>a. (at_label a, the (attempt_result dial c v ch a))) as in
               Some (if ps = [] then NoAttempts v else AllAttempts ps))
      | a # _ \<Rightarrow> map_option (Labelled (at_label a)) (attempt_result dial c v ch a),
      concat (map (\<lambda>a. snd (applyVLANDatabaseOnce dial c v ch (at_style a) (at_enterConfig a)))
        (take (Suc (length (takeWhile (attempt_unsupported dial c v ch) as))) as)))"
proof (induction as arbitrary: parts)
  case (Cons a as)
  show ?case
    using Cons [of "parts @ [(at_label a, the (attempt_result dial c v ch a))]"]
    by (cases "dropWhile (attempt_unsupported dial c v ch) as")
       (simp_all add: try_attempts_cases Let_def del: try_attempts.simps dropWhile_eq_Nil_conv)
qed simp

text \<open>
  C38. Changing the VLAN database: the dialects are tried in the vendor's order, each in its own session, until
  one is accepted or fails for a reason other than an unknown command; the change succeeds exactly
  when the first dialect that the switch knows succeeds. No session follows that one.
\<close>
theorem ApplyVLANDatabaseChange_exact:
  assumes "VLANDatabaseChange_Validate ch = None" "TrimSpace (cr_Host c) \<noteq> []" "TrimSpace (cr_User c) \<noteq> []"
    "supported_vendor c = Some (Some v)" "v \<noteq> VendorMikrotik"
  shows "\<exists>r ts. ApplyVLANDatabaseChange dial c ch = Some (r, ts) \<and>
    (r = None \<longleftrightarrow> (\<exists>a as. dropWhile (attempt_unsupported dial c v ch) (vlanDBAttempts v) = a # as \<and>
        attempt_result dial c v ch a = None)) \<and>
    ts = concat (map (\<lambda>a. snd (applyVLANDatabaseOnce dial c v ch (at_style a) (at_enterConfig a)))
       (take (Suc (length (takeWhile (attempt_unsupported dial c v ch) (vlanDBAttempts v)))) (vlanDBAttempts v)))"
proof -
  have "ApplyVLANDatabaseChange dial c ch = Some (try_attempts dial c v ch [] (vlanDBAttempts v))"
    using assms by (simp add: ApplyVLANDatabaseChange_def)
  then show ?thesis
    by (cases "dropWhile (attempt_unsupported dial c v ch) (vlanDBAttempts v)")
       (simp_all add: try_attempts_tail Let_def del: try_attempts.simps dropWhile_eq_Nil_conv)
qed

definition create_10 :: VLANDatabaseChange where
  "create_10 = \<lparr>dc_Op = VLANDBOpCreate, dc_VLANID = 10, dc_VLANIDs = [], dc_Name = ''users''\<rparr>"

lemma create_10_facts:
  "VLANDatabaseChange_Validate create_10 = None"
  "TrimSpace (cr_Host cisco_creds) \<noteq> []" "TrimSpace (cr_User cisco_creds) \<noteq> []"
  "supported_vendor cisco_creds = Some (Some VendorCisco)"
  "attempt_result (\<lambda>c. Inr prompt_peer) cisco_creds VendorCisco create_10 (hd (vlanDBAttempts VendorCisco)) = None"
  by code_simp+

theorem ApplyVLANDatabaseChange_exact_witness:
  "\<exists>ts. ApplyVLANDatabaseChange (\<lambda>c. Inr prompt_peer) cisco_creds create_10 = Some (None, ts)"
proof -
  obtain a as where at: "vlanDBAttempts VendorCisco = a # as" by (simp add: vlanDBAttempts_def)
  with create_10_facts(5) have ok: "attempt_result (\<lambda>c. Inr prompt_peer) cisco_creds VendorCisco create_10 a = None" by simp
  then have "dropWhile (attempt_unsupported (\<lambda>c. Inr prompt_peer) cisco_creds VendorCisco create_10) (a # as) = a # as"
    by (simp add: attempt_unsupported_def)
  with ok at ApplyVLANDatabaseChange_exact [OF create_10_facts(1-4), where dial = "\<lambda>c. Inr prompt_peer"]
  show ?thesis by simp
qed

end
