(* ===== verification/Port_Live.thy ===== *)
theory Port_Live
  imports Port_Config Cli_Session
begin

text \<open>
  Reading the settings of one port back from a switch (\<open>internal/swcfg/port_live.go\<close>) and the DHCP
  snooping trust of a port (\<open>dhcp_snoop.go\<close>). The theorems relate the reader to the command builders:
  the VLAN settings NetLynx writes are the settings it reads.
\<close>

section \<open>Settings of a port\<close>

record PortLiveSettings =
  lv_AdminUp :: bool
  lv_Isolate :: bool
  lv_PoEMode :: string
  lv_DHCPTrusted :: bool
  lv_FlowControl :: bool
  lv_STPEnabled :: bool
  lv_EdgePort :: string
  lv_PortPriority :: int
  lv_PathCost :: int
  lv_AccessVLAN :: "int option"
  lv_NativeVLAN :: "int option"
  lv_PortMode :: string
  lv_TrunkAllowedAll :: bool
  lv_TrunkAllowed :: "int list"
  lv_TrunkAllowedMode :: string

definition zero_live :: PortLiveSettings where
  "zero_live = \<lparr>lv_AdminUp = False, lv_Isolate = False, lv_PoEMode = [], lv_DHCPTrusted = False, lv_FlowControl = False,
     lv_STPEnabled = False, lv_EdgePort = [], lv_PortPriority = 0, lv_PathCost = 0, lv_AccessVLAN = None,
     lv_NativeVLAN = None, lv_PortMode = [], lv_TrunkAllowedAll = False, lv_TrunkAllowed = [], lv_TrunkAllowedMode = []\<rparr>"

definition default_live :: PortLiveSettings where
  "default_live = zero_live\<lparr>lv_AdminUp := True, lv_PoEMode := ''poe+'', lv_STPEnabled := True, lv_EdgePort := ''auto'',
     lv_PortPriority := 128\<rparr>"

text \<open>
  \<open>fmt.Sscanf(ll, kw + " %d", &n)\<close> for a line that starts with \<open>kw\<close>: at least one blank, an
  optional sign and digits, anything after them; \<open>n\<close> stays 0 when that fails.
\<close>
definition Sscanf_d :: "string \<Rightarrow> string \<Rightarrow> int" where
  "Sscanf_d kw ll =
     (let r = drop (length kw) ll in
      if r = [] \<or> \<not> is_space (hd r) then 0
      else let t = dropWhile is_space r;
               neg = (t \<noteq> [] \<and> hd t = CHR ''-'');
               ds = takeWhile is_digit (if t \<noteq> [] \<and> hd t \<in> {CHR ''-'', CHR ''+''} then tl t else t);
               n = (if neg then - digits_val 0 ds else digits_val 0 ds)
           in if ds = [] \<or> \<not> in_int64 n then 0 else n)"

definition applyTrunkAllowedLive :: "PortLiveSettings \<Rightarrow> string \<Rightarrow> PortLiveSettings" where
  "applyTrunkAllowedLive s rest0 =
     (let rest = TrimSpace rest0; low = ToLower rest in
      if low = ''all'' then s\<lparr>lv_TrunkAllowedAll := True, lv_TrunkAllowedMode := TrunkAllowAll, lv_TrunkAllowed := []\<rparr>
      else if HasPrefix low ''add '' then
        s\<lparr>lv_TrunkAllowedAll := False, lv_TrunkAllowedMode := TrunkAllowAdd, lv_TrunkAllowed := ParseVLANIDList (drop (length ''add '') rest)\<rparr>
      else if HasPrefix low ''remove '' then
        s\<lparr>lv_TrunkAllowedAll := False, lv_TrunkAllowedMode := TrunkAllowRemove, lv_TrunkAllowed := ParseVLANIDList (drop (length ''remove '') rest)\<rparr>
      else if HasPrefix low ''except '' then
        s\<lparr>lv_TrunkAllowedAll := False, lv_TrunkAllowedMode := TrunkAllowExcept, lv_TrunkAllowed := ParseVLANIDList (drop (length ''except '') rest)\<rparr>
      else s\<lparr>lv_TrunkAllowedAll := False, lv_TrunkAllowedMode := TrunkAllowSet, lv_TrunkAllowed := ParseVLANIDList rest\<rparr>)"

section \<open>One line of the block\<close>

definition admin_words :: "string \<Rightarrow> bool" where
  "admin_words ll \<longleftrightarrow> has_any ll [''admin state'', ''adminstate'', ''admin-state'']"

definition live_admin :: "string \<Rightarrow> PortLiveSettings \<Rightarrow> PortLiveSettings" where
  "live_admin ll s =
     (let a = (if ll = ''shutdown'' \<or> HasPrefix ll ''shutdown '' then False else lv_AdminUp s);
          b = (if ll = ''no shutdown'' \<or> HasPrefix ll ''no shutdown '' then True else a);
          c = (if admin_words ll \<and> Contains ll ''disable'' then False else b);
          d = (if admin_words ll \<and> Contains ll ''enable'' \<and> \<not> Contains ll ''disable'' then True else c)
      in s\<lparr>lv_AdminUp := d\<rparr>)"

definition live_switches :: "string \<Rightarrow> PortLiveSettings \<Rightarrow> PortLiveSettings" where
  "live_switches ll s =
     (let i = (if HasPrefix ll ''switchport protected'' \<or> ll = ''switchport protected-port'' then True else lv_Isolate s);
          t = (if ll = ''ip dhcp snooping trust'' then True else lv_DHCPTrusted s);
          f = (if ll = ''flowcontrol'' \<or> ll = ''flow control'' \<or> ll = ''flowcontrol mode on'' then True else lv_FlowControl s);
          g = (if ll = ''no flowcontrol'' \<or> ll = ''no flow control'' \<or> ll = ''flowcontrol mode off'' then False else f)
      in s\<lparr>lv_Isolate := i, lv_DHCPTrusted := t, lv_FlowControl := g\<rparr>)"

definition live_poe :: "string \<Rightarrow> PortLiveSettings \<Rightarrow> PortLiveSettings" where
  "live_poe ll s =
     (let a = (if HasPrefix ll ''poe opmode'' then
                 (let rest = after ''poe opmode'' ll in
                  if Contains rest ''shutdown'' then ''off''
                  else if Contains rest ''passive24v'' \<or> Contains rest ''24v'' then ''24v''
                  else if Contains rest ''auto'' then ''poe+'' else lv_PoEMode s)
               else lv_PoEMode s);
          b = (if ll = ''power inline never'' \<or> ll = ''no power inline enable'' \<or> ll = ''no power inline'' then ''off'' else a);
          c = (if ll = ''power inline auto'' \<or> ll = ''power inline enable'' \<or> HasPrefix ll ''power inline auto'' then ''poe+'' else b)
      in s\<lparr>lv_PoEMode := c\<rparr>)"

definition live_edge :: "string \<Rightarrow> PortLiveSettings \<Rightarrow> PortLiveSettings" where
  "live_edge ll s =
     (let pick = (if Contains ll ''auto'' then ''auto'' else ''enable'');
          a = (if HasPrefix ll ''spanning-tree edgeport'' then pick else lv_EdgePort s);
          b = (if ll = ''no spanning-tree edgeport'' then ''disable'' else a);
          c = (if HasPrefix ll ''spanning-tree portfast'' then pick else b);
          d = (if ll = ''no spanning-tree portfast'' then ''disable'' else c)
      in s\<lparr>lv_EdgePort := d\<rparr>)"

definition live_stp_values :: "string \<Rightarrow> PortLiveSettings \<Rightarrow> PortLiveSettings" where
  "live_stp_values ll s =
     (let p = Sscanf_d ''spanning-tree port-priority'' ll;
          pr = (if HasPrefix ll ''spanning-tree port-priority'' \<and> 0 \<le> p \<and> p \<le> 240 then p else lv_PortPriority s);
          c = Sscanf_d ''spanning-tree cost'' ll;
          co = (if HasPrefix ll ''spanning-tree cost'' \<and> c > 0 then c else lv_PathCost s);
          co' = (if ll = ''no spanning-tree cost'' then 0 else co)
      in s\<lparr>lv_PortPriority := pr, lv_PathCost := co'\<rparr>)"

text \<open>\<open>n, err := strconv.Atoi(rest); err == nil && n > 0 && n <= 4094\<close> is \<open>vlan_of\<close>.\<close>
definition live_vlan :: "string \<Rightarrow> PortLiveSettings \<Rightarrow> PortLiveSettings" where
  "live_vlan ll s =
     (let s1 = (if HasPrefix ll ''switchport mode '' then s\<lparr>lv_PortMode := after ''switchport mode'' ll\<rparr> else s);
          s2 = (if HasPrefix ll ''switchport access vlan '' then
                  (case vlan_of (after ''switchport access vlan'' ll) of Some n \<Rightarrow> s1\<lparr>lv_AccessVLAN := Some n\<rparr> | None \<Rightarrow> s1) else s1);
          s3 = (if HasPrefix ll ''switchport trunk native vlan '' then
                  (case vlan_of (after ''switchport trunk native vlan'' ll) of Some n \<Rightarrow> s2\<lparr>lv_NativeVLAN := Some n\<rparr> | None \<Rightarrow> s2) else s2);
          s4 = (if HasPrefix ll ''switchport trunk allowed vlan '' then
                  applyTrunkAllowedLive s3 (after ''switchport trunk allowed vlan'' ll) else s3)
      in if HasPrefix ll ''vlan pvid '' then
           (case vlan_of (after ''vlan pvid'' ll) of
              Some n \<Rightarrow> if lv_AccessVLAN s4 = None then s4\<lparr>lv_AccessVLAN := Some n\<rparr> else s4
            | None \<Rightarrow> s4)
         else s4)"

definition live_line :: "string \<Rightarrow> PortLiveSettings \<Rightarrow> PortLiveSettings" where
  "live_line ll s =
     live_vlan ll (live_stp_values ll (live_edge ll (live_poe ll (live_switches ll (live_admin ll s)))))"

section \<open>The block\<close>

record live_scan =
  ls_set :: PortLiveSettings
  ls_sawSTPDisable :: bool
  ls_sawSTPEnable :: bool
  ls_inBlock :: bool

definition live_body :: "string \<Rightarrow> live_scan \<Rightarrow> live_scan" where
  "live_body ll st = st\<lparr>ls_set := live_line ll (ls_set st),
     ls_sawSTPDisable := (ls_sawSTPDisable st \<or> ll \<in> {''no spanning-tree port mode'', ''spanning-tree disable'', ''no spanning-tree''}),
     ls_sawSTPEnable := (ls_sawSTPEnable st \<or> ll \<in> {''spanning-tree port mode'', ''no spanning-tree disable'', ''spanning-tree''})\<rparr>"

text \<open>The loop over the lines; it ends at the next interface or at the end of the block.\<close>
fun live_lines :: "live_scan \<Rightarrow> string list \<Rightarrow> live_scan" where
  "live_lines st [] = st"
| "live_lines st (raw # raws) =
     (let l0 = TrimSpace raw;
          line = (case Index l0 ''!'' of Some i \<Rightarrow> TrimSpace (take i l0) | None \<Rightarrow> l0);
          ll = ToLower line
      in if line = [] then live_lines st raws
         else if HasPrefix ll ''interface '' then
           (if ls_inBlock st then st else live_lines (st\<lparr>ls_inBlock := True\<rparr>) raws)
         else if \<not> ls_inBlock st then live_lines st raws
         else if ll = ''exit'' \<or> ll = ''end'' \<or> ll = ''!'' then st
         else live_lines (live_body ll st) raws)"

text \<open>What follows the loop: STP, the native VLAN of a trunk, a trunk without a list.\<close>
definition live_finish :: "live_scan \<Rightarrow> PortLiveSettings" where
  "live_finish st =
     (let s0 = ls_set st;
          s1 = (if ls_sawSTPDisable st then s0\<lparr>lv_STPEnabled := False\<rparr>
                else if ls_sawSTPEnable st then s0\<lparr>lv_STPEnabled := True\<rparr> else s0);
          trunk = (ToLower (TrimSpace (lv_PortMode s1)) = ''trunk'');
          s2 = (if trunk \<and> lv_NativeVLAN s1 = None \<and> lv_AccessVLAN s1 \<noteq> None
                then s1\<lparr>lv_NativeVLAN := lv_AccessVLAN s1\<rparr> else s1)
      in if trunk \<and> lv_TrunkAllowedMode s2 = []
         then s2\<lparr>lv_TrunkAllowedAll := True, lv_TrunkAllowedMode := TrunkAllowAll\<rparr> else s2)"

text \<open>\<open>wantIface\<close> is empty when the caller names none.\<close>
definition ParseInterfaceConfigSnippet :: "string \<Rightarrow> string \<Rightarrow> PortLiveSettings" where
  "ParseInterfaceConfigSnippet out wantIface =
     (let want = ToLower (TrimSpace wantIface); low = ToLower out;
          pos = (if want \<noteq> [] then first_index low [''interface '' @ want, ''interface ''] else Index low ''interface '');
          body = (case pos of Some i \<Rightarrow> drop i out | None \<Rightarrow> out)
      in live_finish (live_lines \<lparr>ls_set = default_live, ls_sawSTPDisable = False, ls_sawSTPEnable = False, ls_inBlock = False\<rparr>
                        (Split body CHR 0x0A)))"

text \<open>The search for the whole name; \<open>None\<close> is the result \<open>ok = false\<close>.\<close>
function find_iface :: "string \<Rightarrow> string \<Rightarrow> string \<Rightarrow> string \<Rightarrow> PortLiveSettings option" where
  "find_iface iface needle restFull restLow =
     (if needle = [] then None
      else case Index restLow needle of
        None \<Rightarrow> None
      | Some idx \<Rightarrow>
          let aft = idx + length needle in
          if aft \<ge> length restLow \<or> restLow ! aft \<in> {CHR '' '', CHR 0x09, CHR 0x0D, CHR 0x0A}
          then Some (ParseInterfaceConfigSnippet (drop idx restFull) iface)
          else find_iface iface needle (drop aft restFull) (drop aft restLow))"
  by pat_completeness auto
termination
  by (relation "measure (\<lambda>(iface, needle, restFull, restLow). length restLow)") (auto simp: neq_Nil_conv)

declare find_iface.simps [simp del]

definition ParseInterfaceFromRunningConfig :: "string \<Rightarrow> string \<Rightarrow> PortLiveSettings option" where
  "ParseInterfaceFromRunningConfig full0 iface0 =
     (let iface = TrimSpace iface0; full = TrimSpace full0 in
      if iface = [] \<or> full = [] then None
      else find_iface iface (''interface '' @ ToLower iface) full (ToLower full))"

definition interfaceSnippetOK :: "string \<Rightarrow> string \<Rightarrow> bool" where
  "interfaceSnippetOK chunk iface =
     (let low = ToLower chunk; name = ToLower (TrimSpace iface) in
      if has_any low [''invalid input'', ''% invalid'', ''unknown command'', ''incomplete command'', ''command not found''] then False
      else if name \<noteq> [] \<and> Contains low (''interface '' @ name) then True
      else Contains low ''interface '')"

definition showInterfaceCmds :: "Vendor \<Rightarrow> string \<Rightarrow> string list" where
  "showInterfaceCmds v iface0 =
     (let iface = TrimSpace iface0; cmd = ShowInterfaceConfigCmd v iface; low = ToLower iface;
          alt = ''show running-config interface ethernet '' @ iface
      in if v \<noteq> VendorSNR then [cmd]
         else if iface \<noteq> [] \<and> \<not> Contains low ''ethernet'' \<and> \<not> Contains low ''port-channel'' \<and> \<not> HasPrefix low ''vlan''
              \<and> alt \<noteq> cmd then [cmd, alt]
         else [cmd])"

section \<open>The dialogues\<close>

text \<open>
  Privileged mode as these two sessions enter it: the command is sent even when it is empty.
  Turning the pages of a long answer is part of the peer.
\<close>
definition enter_priv_always :: "ssh_peer \<Rightarrow> string \<Rightarrow> string \<Rightarrow> string list \<times> cli_error option" where
  "enter_priv_always p privCmd enablePass =
     (case send p [] privCmd of
        (ws1, Some e) \<Rightarrow> (ws1, Some e)
      | (ws1, None) \<Rightarrow>
          if needPass p [] ws1 \<and> \<not> alreadyPriv p [] ws1 then send p ws1 enablePass else (ws1, None))"

text \<open>The \<open>show\<close> commands until one prints the block: the writes, the error, \<open>shown\<close>.\<close>
fun show_each :: "ssh_peer \<Rightarrow> string \<Rightarrow> string list \<Rightarrow> string list \<Rightarrow> string list \<times> cli_error option \<times> bool" where
  "show_each p iface ws [] = (ws, None, False)"
| "show_each p iface ws (cmd # cmds) =
     (case send p ws cmd of
        (ws1, Some e) \<Rightarrow> (ws1, Some e, False)
      | (ws1, None) \<Rightarrow>
          if interfaceSnippetOK (drop (length (pe_out p ws)) (pe_out p ws1)) iface then (ws1, None, True)
          else show_each p iface ws1 cmds)"

definition send_ign :: "ssh_peer \<Rightarrow> string list \<Rightarrow> string list \<Rightarrow> string list" where
  "send_ign p ws ss = foldl (\<lambda>w s. fst (send p w s)) ws ss"

definition show_snr :: "ssh_peer \<Rightarrow> string \<Rightarrow> string \<Rightarrow> string list \<Rightarrow> string list \<times> cli_error option" where
  "show_snr p confCmd iface ws =
     (let ws1 = send_ign p ws [confCmd, ''interface '' @ iface] in
      case send p ws1 ''show running-config current-mode'' of
        (ws2, Some e) \<Rightarrow> (ws2, Some e)
      | (ws2, None) \<Rightarrow>
          (send_ign p ws2 (if \<not> interfaceSnippetOK (drop (length (pe_out p ws1)) (pe_out p ws2)) iface
                           then [''exit'', ''exit''] else [''end'']), None))"

definition runShowInterfaceConfig :: "ssh_peer \<Rightarrow> Vendor \<Rightarrow> string \<Rightarrow> string \<Rightarrow> run" where
  "runShowInterfaceConfig p v enablePass iface =
     (case pe_setup p of
        Some e \<Rightarrow> ([], [], Some e)
      | None \<Rightarrow>
          (case confEnterCmds v of (privCmd, confCmd, _) \<Rightarrow>
           (case enter_priv_always p privCmd enablePass of
              (ws1, Some e) \<Rightarrow> (ws1, pe_out p ws1, Some e)
            | (ws1, None) \<Rightarrow>
                let ws2 = send_ign p ws1 (''terminal length 0'' # (if v = VendorEltex then [''terminal datadump''] else [])) in
                (case show_each p iface ws2 (showInterfaceCmds v iface) of
                   (ws3, Some e, _) \<Rightarrow> (ws3, both_bufs p ws3, Some e)
                 | (ws3, None, shown) \<Rightarrow>
                     (case (if v = VendorSNR \<and> \<not> shown then show_snr p confCmd iface ws3 else (ws3, None)) of
                        (ws4, Some e) \<Rightarrow> (ws4, both_bufs p ws4, Some e)
                      | (ws4, None) \<Rightarrow> let ws5 = send_ign p ws4 [''exit''] in (ws5, both_bufs p ws5, None))))))"

text \<open>The settings, or the error; the outer \<open>None\<close> is a call that does not return.\<close>
definition FetchPortLiveSettings :: "dialer \<Rightarrow> Creds \<Rightarrow> string \<Rightarrow> (cli_error + PortLiveSettings) option" where
  "FetchPortLiveSettings dial c iface0 =
     (let iface = TrimSpace iface0 in
      if iface = [] then Some (Inl EmptyInterface)
      else if TrimSpace (cr_Host c) = [] \<or> TrimSpace (cr_User c) = [] then Some (Inl NoHostOrUser)
      else case supported_vendor c of
        None \<Rightarrow> None
      | Some None \<Rightarrow> Some (Inl (LiveUnsupported (DetectVendor (cr_Vendor c) (cr_SysDescr c) (cr_Name c))))
      | Some (Some v) \<Rightarrow>
          (case dial c of
             Inl e \<Rightarrow> Some (Inl e)
           | Inr p \<Rightarrow>
               (case runShowInterfaceConfig p v (enable_secret c) iface of (ws, out, err) \<Rightarrow>
                  (case err of
                     Some e \<Rightarrow> if TrimSpace out = [] then Some (Inl e)
                       else if \<not> Contains (ToLower out) ''interface'' then Some (Inl (NoInterfaceBlock (Some e) out))
                       else Some (Inr (ParseInterfaceConfigSnippet out iface))
                   | None \<Rightarrow> if \<not> Contains (ToLower out) ''interface'' then Some (Inl (NoInterfaceBlock None out))
                       else Some (Inr (ParseInterfaceConfigSnippet out iface))))))"

definition CountDHCPSnoopingTrustLines :: "string \<Rightarrow> nat" where
  "CountDHCPSnoopingTrustLines cfg =
     length (filter (\<lambda>raw. ToLower (TrimSpace raw) = ''ip dhcp snooping trust'') (Split cfg CHR 0x0A))"

definition interpretDHCPSnoopCLI :: "string \<Rightarrow> cli_error option" where
  "interpretDHCPSnoopCLI out =
     (let low = ToLower out; check = from_mark low [''(config'', ''config)#''] in
      case find (Contains check) port_bad of
        Some bad \<Rightarrow> Some (CliBad bad out)
      | None \<Rightarrow> if has_any low [''dhcp snooping'', ''(config'', ''interface ''] then None else Some (NoSnoopingMarks out))"

text \<open>Commands of which the first failing one ends the run.\<close>
fun send_all :: "ssh_peer \<Rightarrow> string list \<Rightarrow> string list \<Rightarrow> string list \<times> cli_error option" where
  "send_all p ws [] = (ws, None)"
| "send_all p ws (s # ss) = (case send p ws s of (ws1, Some e) \<Rightarrow> (ws1, Some e) | (ws1, None) \<Rightarrow> send_all p ws1 ss)"

text \<open>The last part of both branches: saving, and the question the switch may ask.\<close>
definition snoop_save :: "ssh_peer \<Rightarrow> string \<Rightarrow> string list \<Rightarrow> run" where
  "snoop_save p writeCmd ws =
     (case send p ws writeCmd of
        (ws1, Some e) \<Rightarrow> (ws1, both_bufs p ws1, Some e)
      | (ws1, None) \<Rightarrow> let ws2 = maybeConfirmWrite p ws1 in (ws2, both_bufs p ws2, None))"

definition snoop_trust :: "ssh_peer \<Rightarrow> string \<Rightarrow> string \<Rightarrow> string list \<Rightarrow> run" where
  "snoop_trust p writeCmd iface ws =
     (case send_all p ws [''ip dhcp snooping'', ''interface '' @ iface, UbiquitiDHCPTrustCLI True] of
        (ws1, Some e) \<Rightarrow> (ws1, pe_out p ws1, Some e)
      | (ws1, None) \<Rightarrow> snoop_save p writeCmd (send_ign p ws1 [''exit'', ''exit'']))"

text \<open>Without a trusted port left the switch stops snooping at all.\<close>
definition snoop_untrust :: "ssh_peer \<Rightarrow> string \<Rightarrow> string \<Rightarrow> string \<Rightarrow> string list \<Rightarrow> run" where
  "snoop_untrust p confCmd writeCmd iface ws =
     (case send_all p ws [''interface '' @ iface, UbiquitiDHCPTrustCLI False] of
        (ws1, Some e) \<Rightarrow> (ws1, pe_out p ws1, Some e)
      | (ws1, None) \<Rightarrow>
          let ws2 = send_ign p ws1 [''exit'', ''exit''] in
          (case send p ws2 ''show running-config | include ip dhcp snooping trust'' of
             (ws3, Some e) \<Rightarrow> (ws3, both_bufs p ws3, Some e)
           | (ws3, None) \<Rightarrow>
               let remain = CountDHCPSnoopingTrustLines (drop (length (pe_out p ws2)) (pe_out p ws3)) in
               if remain = 0 then
                 (case send_all p ws3 [confCmd, ''no ip dhcp snooping''] of
                    (ws4, Some e) \<Rightarrow> (ws4, pe_out p ws4, Some e)
                  | (ws4, None) \<Rightarrow> snoop_save p writeCmd (send_ign p ws4 [''exit'']))
               else snoop_save p writeCmd ws3))"

definition runDHCPSnoopingTrust :: "ssh_peer \<Rightarrow> Vendor \<Rightarrow> string \<Rightarrow> string \<Rightarrow> bool \<Rightarrow> run" where
  "runDHCPSnoopingTrust p v enablePass iface trusted =
     (case pe_setup p of
        Some e \<Rightarrow> ([], [], Some e)
      | None \<Rightarrow>
          (case confEnterCmds v of (privCmd, confCmd, writeCmd) \<Rightarrow>
           (case enter_priv_always p privCmd enablePass of
              (ws1, Some e) \<Rightarrow> (ws1, pe_out p ws1, Some e)
            | (ws1, None) \<Rightarrow>
                (case send p (send_ign p ws1 [''terminal length 0'']) confCmd of
                   (ws2, Some e) \<Rightarrow> (ws2, pe_out p ws2, Some e)
                 | (ws2, None) \<Rightarrow>
                     if trusted then snoop_trust p writeCmd iface ws2
                     else snoop_untrust p confCmd writeCmd iface ws2))))"

definition ApplyDHCPSnoopingTrust :: "dialer \<Rightarrow> Creds \<Rightarrow> string \<Rightarrow> bool \<Rightarrow> (cli_error option \<times> string list list) option" where
  "ApplyDHCPSnoopingTrust dial c iface0 trusted =
     (let iface = TrimSpace iface0 in
      if iface = [] then Some (Some EmptyInterface, [])
      else if TrimSpace (cr_Host c) = [] \<or> TrimSpace (cr_User c) = [] then Some (Some NoHostOrUser, [])
      else case supported_vendor c of
        None \<Rightarrow> None
      | Some None \<Rightarrow> Some (Some (SnoopUnsupported (DetectVendor (cr_Vendor c) (cr_SysDescr c) (cr_Name c))), [])
      | Some (Some v) \<Rightarrow>
          (case dial c of
             Inl e \<Rightarrow> Some (Some e, [])
           | Inr p \<Rightarrow>
               let r = runDHCPSnoopingTrust p v (enable_secret c) iface trusted in
               Some (run_result interpretDHCPSnoopCLI r, [fst r])))"

section \<open>Reading what was written\<close>

text \<open>The digits and commas at the end of a VLAN command.\<close>
definition numeric :: "string \<Rightarrow> bool" where
  "numeric t \<longleftrightarrow> (\<forall>c\<in>set t. is_digit c \<or> c = CHR '','')"

lemma numeric_Itoa: "validVLANID n \<Longrightarrow> numeric (Itoa n)"
  by (auto simp: numeric_def dest: Itoa_valid_digits)

lemma numeric_csv: "numeric (allowed_csv vc)"
  using ParseVLANIDList_ok Format_chars unfolding numeric_def allowed_csv_def id_list_def by blast

lemma numeric_plain: "numeric t \<Longrightarrow> c \<in> set t \<Longrightarrow> \<not> is_space c \<and> \<not> is_upper c \<and> c \<noteq> CHR ''!''"
proof -
  assume "numeric t" "c \<in> set t"
  then have "is_digit c \<or> c = CHR '',''" by (auto simp: numeric_def)
  then show ?thesis
  proof
    assume "is_digit c"
    moreover have "\<not> is_digit CHR ''!''" by (simp add: is_digit_def)
    ultimately show ?thesis using is_digit_not_space is_digit_not_upper by auto
  qed (simp add: is_space_def is_upper_def)
qed

lemma numeric_Trim: "numeric t \<Longrightarrow> TrimSpace t = t"
  by (rule TrimSpace_no_space) (use numeric_plain in blast)

lemma numeric_Lower: "numeric t \<Longrightarrow> ToLower t = t"
  by (rule ToLower_id) (use numeric_plain in blast)

lemma Index_first_absent: "x \<notin> set t \<Longrightarrow> Index t (x # p) = None"
  by (induction t) auto

lemma numeric_Index: "numeric t \<Longrightarrow> \<not> is_digit x \<Longrightarrow> x \<noteq> CHR '','' \<Longrightarrow> Index t (x # p) = None"
  by (rule Index_first_absent) (auto simp: numeric_def)

lemma numeric_Prefix: "numeric t \<Longrightarrow> \<not> is_digit x \<Longrightarrow> x \<noteq> CHR '','' \<Longrightarrow> \<not> HasPrefix t (x # p)"
  by (cases t) (auto simp: numeric_def)

text \<open>The commands of the Cisco dialect that end in a number or a list.\<close>
definition vlan_words :: "string list" where
  "vlan_words = [''switchport access vlan '', ''switchport trunk native vlan '', ''switchport trunk allowed vlan '',
     ''switchport trunk allowed vlan add '', ''switchport trunk allowed vlan remove '', ''switchport trunk allowed vlan except '']"

lemma not_digit_letters:
  "\<not> is_digit CHR ''a''" "\<not> is_digit CHR ''r''" "\<not> is_digit CHR ''e''" "\<not> is_digit CHR ''d''" "\<not> is_digit CHR '' ''"
  by (simp_all add: is_digit_def)

text \<open>Such a command concerns nothing but the VLANs.\<close>
lemma live_line_words:
  assumes "numeric t" "k \<in> set vlan_words"
  shows "live_line (k @ t) s = live_vlan (k @ t) s"
proof -
  note idx = numeric_Index [OF assms(1)]
  from assms(2) have k: "k = ''switchport access vlan '' \<or> k = ''switchport trunk native vlan '' \<or> k = ''switchport trunk allowed vlan '' \<or>
     k = ''switchport trunk allowed vlan add '' \<or> k = ''switchport trunk allowed vlan remove '' \<or> k = ''switchport trunk allowed vlan except ''"
    by (simp add: vlan_words_def)
  have adm: "\<not> admin_words (k @ t)"
    using k by (elim disjE) (simp_all add: admin_words_def Contains_def idx not_digit_letters)
  have 1: "live_admin (k @ t) s = s" for s
    using k adm by (elim disjE) (simp_all add: live_admin_def)
  have 2: "live_switches (k @ t) s = s" for s
    using k by (elim disjE) (simp_all add: live_switches_def)
  have 3: "live_poe (k @ t) s = s" for s
    using k by (elim disjE) (simp_all add: live_poe_def)
  have 4: "live_edge (k @ t) s = s" for s
    using k by (elim disjE) (simp_all add: live_edge_def)
  have 5: "live_stp_values (k @ t) s = s" for s
    using k by (elim disjE) (simp_all add: live_stp_values_def)
  show ?thesis by (simp only: live_line_def 1 2 3 4 5)
qed

lemma live_mode_lines:
  "live_line ''switchport mode access'' s = s\<lparr>lv_PortMode := ''access''\<rparr>"
  "live_line ''switchport mode trunk'' s = s\<lparr>lv_PortMode := ''trunk''\<rparr>"
  by (simp_all add: live_line_def live_admin_def live_switches_def live_poe_def live_edge_def live_stp_values_def live_vlan_def
      admin_words_def Contains_def after_def TrimSpace_def trim_left_def trim_right_def is_space_def)

lemma live_all_line:
  "live_line ''switchport trunk allowed vlan all'' s =
     s\<lparr>lv_TrunkAllowedAll := True, lv_TrunkAllowedMode := TrunkAllowAll, lv_TrunkAllowed := []\<rparr>"
  by (simp add: live_line_def live_admin_def live_switches_def live_poe_def live_edge_def live_stp_values_def live_vlan_def
      admin_words_def Contains_def after_def TrimSpace_def trim_left_def trim_right_def is_space_def
      applyTrunkAllowedLive_def ToLower_def lower_char_def is_upper_def)

lemma after_blank: "numeric t \<Longrightarrow> after k (k @ CHR '' '' # t) = t"
  by (simp add: after_def TrimSpace_Cons_space is_space_def numeric_Trim)

lemma vlan_of_Itoa: "validVLANID n \<Longrightarrow> vlan_of (Itoa n) = Some n"
  by (simp add: vlan_of_def Atoi_Itoa validVLANID_int64)

lemma live_access: "validVLANID n \<Longrightarrow> live_line (''switchport access vlan '' @ Itoa n) s = s\<lparr>lv_AccessVLAN := Some n\<rparr>"
proof -
  assume n: "validVLANID n"
  have "after ''switchport access vlan'' (''switchport access vlan'' @ CHR '' '' # Itoa n) = Itoa n"
    by (rule after_blank) (rule numeric_Itoa [OF n])
  then show ?thesis
    using n by (subst live_line_words) (simp_all add: numeric_Itoa vlan_words_def live_vlan_def vlan_of_Itoa)
qed

lemma live_native: "validVLANID n \<Longrightarrow> live_line (''switchport trunk native vlan '' @ Itoa n) s = s\<lparr>lv_NativeVLAN := Some n\<rparr>"
proof -
  assume n: "validVLANID n"
  have "after ''switchport trunk native vlan'' (''switchport trunk native vlan'' @ CHR '' '' # Itoa n) = Itoa n"
    by (rule after_blank) (rule numeric_Itoa [OF n])
  then show ?thesis
    using n by (subst live_line_words) (simp_all add: numeric_Itoa vlan_words_def live_vlan_def vlan_of_Itoa)
qed

text \<open>The word between \<open>vlan\<close> and the list, and the mode it stands for.\<close>
definition mode_word :: "string \<Rightarrow> string" where
  "mode_word m = (if m = TrunkAllowSet then [] else m @ '' '')"

lemma live_allowed:
  assumes "numeric t" "t \<noteq> []" "m \<in> {TrunkAllowAdd, TrunkAllowRemove, TrunkAllowExcept, TrunkAllowSet}"
  shows "live_line (''switchport trunk allowed vlan '' @ mode_word m @ t) s =
     s\<lparr>lv_TrunkAllowedAll := False, lv_TrunkAllowedMode := m, lv_TrunkAllowed := ParseVLANIDList t\<rparr>"
proof -
  let ?r = "mode_word m @ t"
  from assms(3) have m: "m = TrunkAllowAdd \<or> m = TrunkAllowRemove \<or> m = TrunkAllowExcept \<or> m = TrunkAllowSet" by simp
  have w: "''switchport trunk allowed vlan '' @ mode_word m \<in> set vlan_words"
    using assms(3) by (auto simp: vlan_words_def mode_word_def)
  have tr: "trimmed ?r"
    using assms numeric_plain [OF assms(1), of "hd t"] numeric_plain [OF assms(1), of "last t"]
    by (auto simp: trimmed_def mode_word_def is_space_def)
  have "after ''switchport trunk allowed vlan'' (''switchport trunk allowed vlan'' @ CHR '' '' # ?r) = ?r"
    by (simp add: after_def TrimSpace_Cons_space is_space_def TrimSpace_trimmed [OF tr])
  then have af: "after ''switchport trunk allowed vlan'' (''switchport trunk allowed vlan '' @ ?r) = ?r" by simp
  have lw: "ToLower (mode_word m) = mode_word m"
    using assms(3) by (auto simp: mode_word_def ToLower_def lower_char_def is_upper_def)
  have low: "ToLower ?r = ?r" using numeric_Lower [OF assms(1)] by (simp add: ToLower_append lw)
  have np: "\<not> HasPrefix t (x # p)" if "x \<in> {CHR ''a'', CHR ''r'', CHR ''e''}" for x p
    using numeric_Prefix [OF assms(1), of x p] that not_digit_letters by auto
  have na: "?r \<noteq> ''all''"
    using m np [of "CHR ''a''" "''ll''"] by (elim disjE) (auto simp: mode_word_def)
  have "applyTrunkAllowedLive s ?r = s\<lparr>lv_TrunkAllowedAll := False, lv_TrunkAllowedMode := m, lv_TrunkAllowed := ParseVLANIDList t\<rparr>"
    using m na np unfolding applyTrunkAllowedLive_def TrimSpace_trimmed [OF tr] low Let_def
    by (elim disjE) (simp_all add: mode_word_def)
  moreover have "live_vlan (''switchport trunk allowed vlan '' @ ?r) s = applyTrunkAllowedLive s ?r"
    using af by (simp add: live_vlan_def)
  moreover have "live_line (''switchport trunk allowed vlan '' @ ?r) s = live_vlan (''switchport trunk allowed vlan '' @ ?r) s"
    using live_line_words [OF assms(1) w] by simp
  ultimately show ?thesis by simp
qed

text \<open>A line of the block that is read as it stands.\<close>
definition tidy :: "string \<Rightarrow> bool" where
  "tidy l \<longleftrightarrow> l \<noteq> [] \<and> trimmed l \<and> CHR ''!'' \<notin> set l \<and> ToLower l = l \<and> \<not> HasPrefix l ''interface '' \<and> l \<noteq> ''exit'' \<and> l \<noteq> ''end''"

lemma live_lines_tidy:
  "ls_inBlock st \<Longrightarrow> \<forall>l\<in>set ls. tidy l \<Longrightarrow>
     live_lines st (ls @ [''exit'']) = foldl (\<lambda>st l. live_body l st) st ls"
proof (induction ls arbitrary: st)
  case Nil
  have "TrimSpace ''exit'' = ''exit''" "ToLower ''exit'' = ''exit''" "Index ''exit'' ''!'' = None" by code_simp+
  with Nil show ?case by simp
next
  case (Cons l ls)
  then have t: "tidy l" by simp
  then have "TrimSpace l = l" "Index l ''!'' = None" "ToLower l = l" "l \<noteq> ''!''"
    by (auto simp: tidy_def TrimSpace_trimmed Index_first_absent)
  moreover have "ls_inBlock (live_body l st)" using Cons.prems by (simp add: live_body_def)
  ultimately show ?case using Cons t by (simp add: Let_def tidy_def)
qed

lemma tidy_words: "k \<in> set vlan_words \<Longrightarrow> numeric t \<Longrightarrow> t \<noteq> [] \<Longrightarrow> tidy (k @ t)"
proof -
  assume k: "k \<in> set vlan_words" and t: "numeric t" "t \<noteq> []"
  then have "\<not> is_space (last t)" using numeric_plain by auto
  moreover have "CHR ''!'' \<notin> set t" using numeric_plain t by auto
  ultimately show ?thesis
    using k t numeric_Lower [OF t(1)] unfolding vlan_words_def
    by (simp, elim disjE)
       (simp_all add: tidy_def trimmed_def is_space_def ToLower_def lower_char_def is_upper_def)
qed

lemma tidy_modes: "tidy ''switchport mode access''" "tidy ''switchport mode trunk''" "tidy ''switchport trunk allowed vlan all''"
  by (simp_all add: tidy_def trimmed_def is_space_def ToLower_def lower_char_def is_upper_def)

text \<open>The block of a running configuration that holds the VLAN commands of a change.\<close>
definition vlan_snippet :: "string \<Rightarrow> PortVLANChange \<Rightarrow> string" where
  "vlan_snippet iface vc = Join ((''interface '' @ iface) # vlanCiscoLines vc @ [''exit'']) LF"

definition plain_iface :: "string \<Rightarrow> bool" where
  "plain_iface iface \<longleftrightarrow> iface \<noteq> [] \<and> trimmed iface \<and> one_line iface \<and> CHR ''!'' \<notin> set iface"

lemma live_body_switchport:
  "HasPrefix l ''switchport '' \<Longrightarrow> live_body l st = st\<lparr>ls_set := live_line l (ls_set st)\<rparr>"
  by (auto simp: live_body_def HasPrefix_iff)

lemma live_body_all:
  "\<forall>l\<in>set ls. HasPrefix l ''switchport '' \<Longrightarrow>
     foldl (\<lambda>st l. live_body l st) st ls = st\<lparr>ls_set := foldl (\<lambda>s l. live_line l s) (ls_set st) ls\<rparr>"
  by (induction ls arbitrary: st) (simp_all add: live_body_switchport)

lemma snippet_read:
  assumes "plain_iface iface" "vlanCiscoLines vc = ls" "\<forall>l\<in>set ls. tidy l \<and> one_line l \<and> HasPrefix l ''switchport ''"
  shows "ParseInterfaceConfigSnippet (vlan_snippet iface vc) [] =
     live_finish \<lparr>ls_set = foldl (\<lambda>s l. live_line l s) default_live ls, ls_sawSTPDisable = False, ls_sawSTPEnable = False,
       ls_inBlock = True\<rparr>"
proof -
  let ?h = "''interface '' @ iface"
  have sp: "Split (vlan_snippet iface vc) CHR 0x0A = ?h # ls @ [''exit'']"
    unfolding vlan_snippet_def assms(2) using assms(1,3)
    by (intro Split_Join) (auto simp: plain_iface_def one_line_def)
  have "ToLower (vlan_snippet iface vc) = ''interface '' @ ToLower (iface @ LF @ Join (ls @ [''exit'']) LF)"
    by (cases "ls @ [''exit'']") (simp_all add: vlan_snippet_def assms(2) ToLower_def lower_char_def is_upper_def)
  then have ix: "Index (ToLower (vlan_snippet iface vc)) ''interface '' = Some 0" by simp
  have h: "TrimSpace ?h = ?h" "Index ?h ''!'' = None" "HasPrefix (ToLower ?h) ''interface ''" "?h \<noteq> []"
    using assms(1) by (auto simp: plain_iface_def trimmed_def is_space_def Index_first_absent ToLower_def lower_char_def is_upper_def
        intro!: TrimSpace_trimmed)
  let ?st = "\<lparr>ls_set = default_live, ls_sawSTPDisable = False, ls_sawSTPEnable = False, ls_inBlock = True\<rparr>"
  have "live_lines (?st\<lparr>ls_inBlock := False\<rparr>) (?h # ls @ [''exit'']) = live_lines ?st (ls @ [''exit''])"
    using h by (simp del: append.simps(2) HasPrefix.simps add: Let_def)
  also have "\<dots> = foldl (\<lambda>st l. live_body l st) ?st ls"
    using assms(3) by (intro live_lines_tidy) auto
  also have "\<dots> = ?st\<lparr>ls_set := foldl (\<lambda>s l. live_line l s) default_live ls\<rparr>"
    using assms(3) by (subst live_body_all) auto
  finally have fin: "live_lines (?st\<lparr>ls_inBlock := False\<rparr>) (?h # ls @ [''exit'']) = ?st\<lparr>ls_set := foldl (\<lambda>s l. live_line l s) default_live ls\<rparr>" .
  have "ParseInterfaceConfigSnippet (vlan_snippet iface vc) [] =
      live_finish (live_lines (?st\<lparr>ls_inBlock := False\<rparr>) (Split (vlan_snippet iface vc) CHR 0x0A))"
    using ix by (simp add: ParseInterfaceConfigSnippet_def Let_def ToLower_def)
  then show ?thesis unfolding sp fin by simp
qed

lemma words_lines: "l = k @ t \<Longrightarrow> k \<in> set vlan_words \<Longrightarrow> numeric t \<Longrightarrow> t \<noteq> [] \<Longrightarrow> tidy l \<and> one_line l \<and> HasPrefix l ''switchport ''"
proof -
  assume l: "l = k @ t" and k: "k \<in> set vlan_words" and t: "numeric t" "t \<noteq> []"
  have "one_line t" using numeric_plain [OF t(1)] by (auto simp: one_line_def is_space_def)
  moreover have "one_line k \<and> HasPrefix (k @ t) ''switchport ''"
    using k unfolding vlan_words_def by (simp, elim disjE) simp_all
  ultimately show ?thesis using tidy_words [OF k t] l by simp
qed

definition reads_back :: "PortVLANChange \<Rightarrow> PortLiveSettings \<Rightarrow> bool" where
  "reads_back vc s =
     (let mode = ToLower (TrimSpace (pc_AllowedMode vc)) in
      if pc_Op vc = VLANOpSetAccess then lv_PortMode s = ''access'' \<and> lv_AccessVLAN s = Some (pc_VLANID vc)
      else if pc_Op vc = VLANOpSetNative then
        lv_PortMode s = ''trunk'' \<and> lv_NativeVLAN s = Some (pc_VLANID vc) \<and> lv_TrunkAllowedAll s
      else if pc_Op vc = VLANOpAddTagged then
        lv_PortMode s = ''trunk'' \<and> lv_TrunkAllowedMode s = TrunkAllowAdd \<and> lv_TrunkAllowed s = [pc_VLANID vc]
      else if pc_Op vc = VLANOpTrunkAllow then
        lv_PortMode s = ''trunk'' \<and> lv_NativeVLAN s = (if pc_VLANID vc = 0 then None else Some (pc_VLANID vc)) \<and>
        lv_TrunkAllowedMode s = mode \<and> (lv_TrunkAllowedAll s \<longleftrightarrow> mode = TrunkAllowAll) \<and>
        lv_TrunkAllowed s = (if mode = TrunkAllowAll then [] else ParseVLANIDList (pc_AllowedList vc))
      else True)"

lemma Parse_one: "validVLANID n \<Longrightarrow> ParseVLANIDList (Itoa n) = [n]"
  using Parse_Format [of "[n]"] by (simp add: FormatVLANIDList_def validVLANID_def)

lemma finish_trunk:
  "lv_PortMode s = ''trunk'' \<Longrightarrow> live_finish \<lparr>ls_set = s, ls_sawSTPDisable = False, ls_sawSTPEnable = False, ls_inBlock = True\<rparr> =
     (let s2 = (if lv_NativeVLAN s = None \<and> lv_AccessVLAN s \<noteq> None then s\<lparr>lv_NativeVLAN := lv_AccessVLAN s\<rparr> else s)
      in if lv_TrunkAllowedMode s2 = [] then s2\<lparr>lv_TrunkAllowedAll := True, lv_TrunkAllowedMode := TrunkAllowAll\<rparr> else s2)"
proof -
  have "ToLower (TrimSpace ''trunk'') = ''trunk''" by code_simp
  then show "lv_PortMode s = ''trunk'' \<Longrightarrow> ?thesis" by (simp add: live_finish_def)
qed

lemma finish_access:
  "lv_PortMode s = ''access'' \<Longrightarrow> live_finish \<lparr>ls_set = s, ls_sawSTPDisable = False, ls_sawSTPEnable = False, ls_inBlock = True\<rparr> = s"
proof -
  have "ToLower (TrimSpace ''access'') = ''access''" by code_simp
  then show "lv_PortMode s = ''access'' \<Longrightarrow> ?thesis" by (simp add: live_finish_def)
qed

lemma mode_lines_ok:
  "tidy ''switchport mode access'' \<and> one_line ''switchport mode access'' \<and> HasPrefix ''switchport mode access'' ''switchport ''"
  "tidy ''switchport mode trunk'' \<and> one_line ''switchport mode trunk'' \<and> HasPrefix ''switchport mode trunk'' ''switchport ''"
  "tidy ''switchport trunk allowed vlan all'' \<and> one_line ''switchport trunk allowed vlan all'' \<and>
     HasPrefix ''switchport trunk allowed vlan all'' ''switchport ''"
  by (simp_all add: tidy_modes)

lemma default_live_simps [simp]:
  "lv_NativeVLAN default_live = None" "lv_AccessVLAN default_live = None" "lv_TrunkAllowedMode default_live = []"
  "lv_TrunkAllowed default_live = []"
  by (simp_all add: default_live_def zero_live_def)

lemma access_reads_back:
  assumes "validVLANID (pc_VLANID vc)" "pc_Op vc = VLANOpSetAccess" "plain_iface iface"
  shows "reads_back vc (ParseInterfaceConfigSnippet (vlan_snippet iface vc) [])"
proof -
  let ?l = "''switchport access vlan '' @ Itoa (pc_VLANID vc)"
  have ls: "vlanCiscoLines vc = [''switchport mode access'', ?l]" using assms(2) by (simp add: vlanCiscoLines_def)
  have "tidy ?l \<and> one_line ?l \<and> HasPrefix ?l ''switchport ''"
    by (rule words_lines [OF refl]) (simp_all add: vlan_words_def numeric_Itoa assms(1))
  then have "\<forall>l\<in>set [''switchport mode access'', ?l]. tidy l \<and> one_line l \<and> HasPrefix l ''switchport ''"
    using mode_lines_ok by (simp only: list.set ball_simps simp_thms)
  from snippet_read [OF assms(3) ls this] show ?thesis
    using assms live_access [OF assms(1)]
    by (simp only: foldl.simps live_mode_lines) (subst finish_access, simp_all add: reads_back_def)
qed

lemma native_reads_back:
  assumes "validVLANID (pc_VLANID vc)" "pc_Op vc = VLANOpSetNative" "plain_iface iface"
  shows "reads_back vc (ParseInterfaceConfigSnippet (vlan_snippet iface vc) [])"
proof -
  let ?l = "''switchport trunk native vlan '' @ Itoa (pc_VLANID vc)"
  have ls: "vlanCiscoLines vc = [''switchport mode trunk'', ?l]" using assms(2) by (simp add: vlanCiscoLines_def)
  have "tidy ?l \<and> one_line ?l \<and> HasPrefix ?l ''switchport ''"
    by (rule words_lines [OF refl]) (simp_all add: vlan_words_def numeric_Itoa assms(1))
  then have "\<forall>l\<in>set [''switchport mode trunk'', ?l]. tidy l \<and> one_line l \<and> HasPrefix l ''switchport ''"
    using mode_lines_ok by (simp only: list.set ball_simps simp_thms)
  from snippet_read [OF assms(3) ls this] show ?thesis
    using assms live_native [OF assms(1)]
    by (simp only: foldl.simps live_mode_lines) (subst finish_trunk, simp_all add: reads_back_def Let_def)
qed

text \<open>The line of the allowed list, in every mode but \<open>all\<close>.\<close>
lemma allowed_line_ok:
  assumes "numeric t" "t \<noteq> []" "m \<in> {TrunkAllowAdd, TrunkAllowRemove, TrunkAllowExcept, TrunkAllowSet}"
  shows "tidy (''switchport trunk allowed vlan '' @ mode_word m @ t) \<and> one_line (''switchport trunk allowed vlan '' @ mode_word m @ t) \<and>
    HasPrefix (''switchport trunk allowed vlan '' @ mode_word m @ t) ''switchport ''"
  using assms by (intro words_lines [of _ "''switchport trunk allowed vlan '' @ mode_word m" t])
    (auto simp: vlan_words_def mode_word_def)

lemma tagged_reads_back:
  assumes "validVLANID (pc_VLANID vc)" "pc_Op vc = VLANOpAddTagged" "plain_iface iface"
  shows "reads_back vc (ParseInterfaceConfigSnippet (vlan_snippet iface vc) [])"
proof -
  let ?l = "''switchport trunk allowed vlan '' @ mode_word TrunkAllowAdd @ Itoa (pc_VLANID vc)"
  have ls: "vlanCiscoLines vc = [''switchport mode trunk'', ?l]" using assms(2) by (simp add: vlanCiscoLines_def mode_word_def)
  have "tidy ?l \<and> one_line ?l \<and> HasPrefix ?l ''switchport ''"
    by (rule allowed_line_ok) (simp_all add: numeric_Itoa assms(1))
  then have "\<forall>l\<in>set [''switchport mode trunk'', ?l]. tidy l \<and> one_line l \<and> HasPrefix l ''switchport ''"
    using mode_lines_ok by (simp only: list.set ball_simps simp_thms)
  from snippet_read [OF assms(3) ls this] show ?thesis
    using assms live_allowed [OF numeric_Itoa [OF assms(1)], of TrunkAllowAdd] Parse_one [OF assms(1)]
    by (simp only: foldl.simps live_mode_lines) (subst finish_trunk, simp_all add: reads_back_def Let_def)
qed

lemma trunk_reads_back:
  assumes "pc_VLANID vc = 0 \<or> validVLANID (pc_VLANID vc)" "pc_Op vc = VLANOpTrunkAllow" "plain_iface iface"
    "mode = ToLower (TrimSpace (pc_AllowedMode vc))"
    "mode = TrunkAllowAll \<and> al = ''switchport trunk allowed vlan all'' \<or>
     mode \<in> {TrunkAllowAdd, TrunkAllowRemove, TrunkAllowExcept, TrunkAllowSet} \<and> ParseVLANIDList (pc_AllowedList vc) \<noteq> [] \<and>
       al = ''switchport trunk allowed vlan '' @ mode_word mode @ allowed_csv vc"
  shows "reads_back vc (ParseInterfaceConfigSnippet (vlan_snippet iface vc) [])"
proof -
  define nat where "nat = (if pc_VLANID vc = 0 then [] else [''switchport trunk native vlan '' @ Itoa (pc_VLANID vc)])"
  have rng: "pc_VLANID vc \<ge> 1 \<and> pc_VLANID vc \<le> 4094 \<longleftrightarrow> pc_VLANID vc \<noteq> 0"
    using assms(1) by (auto simp: validVLANID_def)
  have tl: "trunk_allow_lines vc = [''switchport mode trunk''] @ nat @ [al]"
    using assms(4,5) unfolding trunk_allow_lines_def rng Let_def nat_def by (auto simp: mode_word_def)
  have "vlanCiscoLines vc = trunk_allow_lines vc" using assms(2) by (simp add: vlanCiscoLines_def)
  with tl have ls: "vlanCiscoLines vc = [''switchport mode trunk''] @ nat @ [al]" by simp
  have csv: "mode \<noteq> TrunkAllowAll \<Longrightarrow> allowed_csv vc \<noteq> []"
    using assms(5) Parse_Format_Parse [of "pc_AllowedList vc"] by (auto simp: allowed_csv_def ParseVLANIDList_Nil)
  have "tidy al \<and> one_line al \<and> HasPrefix al ''switchport ''"
    using assms(5) csv mode_lines_ok(3) allowed_line_ok [OF numeric_csv, of vc mode] by auto
  moreover have "\<forall>l\<in>set nat. tidy l \<and> one_line l \<and> HasPrefix l ''switchport ''"
    using assms(1) by (auto simp: nat_def vlan_words_def numeric_Itoa simp del: append.simps HasPrefix.simps
        intro!: words_lines [of _ "''switchport trunk native vlan ''" "Itoa (pc_VLANID vc)", THEN conjunct1]
          words_lines [of _ "''switchport trunk native vlan ''" "Itoa (pc_VLANID vc)", THEN conjunct2, THEN conjunct1]
          words_lines [of _ "''switchport trunk native vlan ''" "Itoa (pc_VLANID vc)", THEN conjunct2, THEN conjunct2])
  ultimately have "\<forall>l\<in>set ([''switchport mode trunk''] @ nat @ [al]). tidy l \<and> one_line l \<and> HasPrefix l ''switchport ''"
    using mode_lines_ok(2) by (simp only: list.set set_append ball_simps ball_Un simp_thms)
  note rd = snippet_read [OF assms(3) ls this]
  define s1 where "s1 = foldl (\<lambda>s l. live_line l s) (default_live\<lparr>lv_PortMode := ''trunk''\<rparr>) nat"
  have s1: "s1 = default_live\<lparr>lv_PortMode := ''trunk'', lv_NativeVLAN := (if pc_VLANID vc = 0 then None else Some (pc_VLANID vc))\<rparr>"
    using assms(1) live_native [of "pc_VLANID vc"] by (auto simp: s1_def nat_def default_live_def zero_live_def simp del: append.simps)
  have fl: "foldl (\<lambda>s l. live_line l s) default_live ([''switchport mode trunk''] @ nat @ [al]) = live_line al s1"
    by (simp only: s1_def foldl_append foldl.simps live_mode_lines)
  have al: "live_line al s1 = s1\<lparr>lv_TrunkAllowedAll := (mode = TrunkAllowAll), lv_TrunkAllowedMode := mode,
      lv_TrunkAllowed := (if mode = TrunkAllowAll then [] else ParseVLANIDList (pc_AllowedList vc))\<rparr>"
    using assms(5)
  proof (elim disjE conjE)
    assume "mode = TrunkAllowAll" "al = ''switchport trunk allowed vlan all''"
    then show ?thesis by (simp only: live_all_line simp_thms if_True)
  next
    assume m: "mode \<in> {TrunkAllowAdd, TrunkAllowRemove, TrunkAllowExcept, TrunkAllowSet}"
      and l: "al = ''switchport trunk allowed vlan '' @ mode_word mode @ allowed_csv vc"
    from m have ne: "mode \<noteq> TrunkAllowAll" by auto
    show ?thesis
      using live_allowed [OF numeric_csv csv [OF ne] m, of s1] Parse_Format_Parse [of "pc_AllowedList vc"] ne
      unfolding l by (simp only: allowed_csv_def if_False)
  qed
  have "mode \<noteq> []" using assms(5) by auto
  then show ?thesis
    unfolding rd fl al using assms(2,4)
    by (subst finish_trunk) (simp_all add: s1 reads_back_def Let_def)
qed


definition except_change :: PortVLANChange where
  "except_change = \<lparr>pc_Op = VLANOpTrunkAllow, pc_VLANID = 5, pc_AllowedMode = ''Except'', pc_AllowedList = ''10;20-21'',
     pc_PrevAccessVLAN = None, pc_PortMode = []\<rparr>"


text \<open>
  The reader behind the VLAN inventory has no notion of \<open>except\<close>: it takes the same commands for a
  list of the VLANs the trunk carries, the opposite of what they say.
\<close>
lemma except_read_as_allowed:
  "pi_TrunkAllowed (snd (hd (ParseRunningConfigPortModes (vlan_snippet ''0/1'' except_change)))) = [10, 20, 21]"
  "pi_TrunkAllowedAll (snd (hd (ParseRunningConfigPortModes (vlan_snippet ''0/1'' except_change)))) = False"
  "lv_TrunkAllowedMode (ParseInterfaceConfigSnippet (vlan_snippet ''0/1'' except_change) []) = ''except''"
  by code_simp+

section \<open>DHCP snooping\<close>

text \<open>The command that stops snooping on the whole switch, and the listing it depends on.\<close>
abbreviation snoop_off :: string where "snoop_off \<equiv> ''no ip dhcp snooping'' @ CR @ LF"
abbreviation snoop_list :: string where "snoop_list \<equiv> ''show running-config | include ip dhcp snooping trust'' @ CR @ LF"

lemma set_send: "set (fst (send p ws s)) = insert (s @ CR @ LF) (set ws)"
  by (simp add: send_def Let_def)

lemma set_send_ign: "set (send_ign p ws ss) = set ws \<union> (\<lambda>s. s @ CR @ LF) ` set ss"
  unfolding send_ign_def by (induction ss arbitrary: ws) (auto simp: set_send)

lemma set_send_all: "set (fst (send_all p ws ss)) \<subseteq> set ws \<union> (\<lambda>s. s @ CR @ LF) ` set ss"
proof (induction ss arbitrary: ws)
  case (Cons s ss)
  obtain w e where s: "send p ws s = (w, e)" by (cases "send p ws s")
  then have "set w = insert (s @ CR @ LF) (set ws)" using set_send [of p ws s] by simp
  with Cons [of w] s show ?case by (auto split: option.split)
qed simp

lemma set_priv: "set (fst (enter_priv_always p cmd pass)) \<subseteq> {cmd @ CR @ LF, pass @ CR @ LF}"
proof -
  obtain w e where s: "send p [] cmd = (w, e)" by (cases "send p [] cmd")
  then have "set w = {cmd @ CR @ LF}" using set_send [of p "[]" cmd] by simp
  with s show ?thesis by (auto simp: enter_priv_always_def set_send split: option.splits)
qed

lemma set_save: "set (fst (snoop_save p cmd ws)) \<subseteq> set ws \<union> {cmd @ CR @ LF, ''Y'' @ CR @ LF}"
proof -
  obtain w e where s: "send p ws cmd = (w, e)" by (cases "send p ws cmd")
  then have "set w = insert (cmd @ CR @ LF) (set ws)" using set_send [of p ws cmd] by simp
  with s show ?thesis by (auto simp: snoop_save_def maybeConfirmWrite_def Let_def set_send split: option.splits if_splits)
qed

lemma write_cmds: "confEnterCmds v = (a, b, c) \<Longrightarrow>
   a \<noteq> ''no ip dhcp snooping'' \<and> b \<noteq> ''no ip dhcp snooping'' \<and> c \<noteq> ''no ip dhcp snooping''"
  by (cases v) (auto simp: confEnterCmds_def)

lemma snoop_trust_keeps:
  assumes "snoop_off \<notin> set ws" "c \<noteq> ''no ip dhcp snooping''"
  shows "snoop_off \<notin> set (fst (snoop_trust p c iface ws))"
proof -
  obtain w e where s: "send_all p ws [''ip dhcp snooping'', ''interface '' @ iface, UbiquitiDHCPTrustCLI True] = (w, e)" by fastforce
  then have w: "snoop_off \<notin> set w"
    using set_send_all [of p ws "[''ip dhcp snooping'', ''interface '' @ iface, UbiquitiDHCPTrustCLI True]"] assms(1)
    by (auto simp: UbiquitiDHCPTrustCLI_def)
  then have "snoop_off \<notin> set (send_ign p w [''exit'', ''exit''])" by (simp add: set_send_ign)
  then have "snoop_off \<notin> set (fst (snoop_save p c (send_ign p w [''exit'', ''exit''])))"
    using set_save [of p c "send_ign p w [''exit'', ''exit'']"] assms(2) by auto
  with w s show ?thesis by (simp add: snoop_trust_def split: option.split)
qed

text \<open>A session only adds to what was written.\<close>
lemma prefix_send: "prefix ws (fst (send p ws s))"
  by (simp add: send_def Let_def)

lemma prefix_send_ign: "prefix ws (send_ign p ws ss)"
proof (induction ss arbitrary: ws)
  case (Cons s ss)
  have "prefix ws (fst (send p ws s))" by (rule prefix_send)
  also have "prefix \<dots> (send_ign p (fst (send p ws s)) ss)" by (rule Cons)
  finally show ?case by (simp add: send_ign_def)
qed (simp add: send_ign_def)

lemma prefix_send_all: "prefix ws (fst (send_all p ws ss))"
proof (induction ss arbitrary: ws)
  case (Cons s ss)
  obtain w e where s: "send p ws s = (w, e)" by (cases "send p ws s")
  then have "prefix ws w" using prefix_send [of ws p s] by simp
  with Cons [of w] s show ?case by (auto split: option.split)
qed simp

lemma prefix_save: "prefix ws (fst (snoop_save p cmd ws))"
proof -
  obtain w e where s: "send p ws cmd = (w, e)" by (cases "send p ws cmd")
  then have "prefix ws w" using prefix_send [of ws p cmd] by simp
  with s show ?thesis
    using prefix_send [of w p "''Y''"] by (auto simp: snoop_save_def maybeConfirmWrite_def Let_def split: option.splits)
qed

lemma snoop_untrust_off:
  assumes "snoop_off \<in> set (fst (snoop_untrust p b c iface ws))" "snoop_off \<notin> set ws" "c \<noteq> ''no ip dhcp snooping''"
  shows "\<exists>ws'. prefix (ws' @ [snoop_list]) (fst (snoop_untrust p b c iface ws)) \<and>
     CountDHCPSnoopingTrustLines (drop (length (pe_out p ws')) (pe_out p (ws' @ [snoop_list]))) = 0"
proof -
  obtain w1 e1 where s1: "send_all p ws [''interface '' @ iface, UbiquitiDHCPTrustCLI False] = (w1, e1)" by fastforce
  then have o1: "snoop_off \<notin> set w1"
    using set_send_all [of p ws "[''interface '' @ iface, UbiquitiDHCPTrustCLI False]"] assms(2)
    by (auto simp: UbiquitiDHCPTrustCLI_def)
  define w2 where "w2 = send_ign p w1 [''exit'', ''exit'']"
  have o2: "snoop_off \<notin> set w2" using o1 by (simp add: w2_def set_send_ign)
  obtain w3 e3 where s3: "send p w2 ''show running-config | include ip dhcp snooping trust'' = (w3, e3)" by fastforce
  then have w3: "w3 = w2 @ [snoop_list]" by (simp add: send_def Let_def)
  have o3: "snoop_off \<notin> set w3" using o2 by (simp add: w3)
  define remain where "remain = CountDHCPSnoopingTrustLines (drop (length (pe_out p w2)) (pe_out p w3))"
  obtain w4 e4 where s4: "send_all p w3 [b, ''no ip dhcp snooping''] = (w4, e4)" by fastforce
  have eq: "fst (snoop_untrust p b c iface ws) =
      (if e1 \<noteq> None then w1 else if e3 \<noteq> None then w3 else if remain = 0
       then (if e4 \<noteq> None then w4 else fst (snoop_save p c (send_ign p w4 [''exit'']))) else fst (snoop_save p c w3))"
    unfolding snoop_untrust_def s1 by (cases e1; cases e3; cases e4)
      (simp_all add: w2_def [symmetric] s3 remain_def Let_def s4 del: send_all.simps)
  have nosave: "snoop_off \<notin> set (fst (snoop_save p c w3))"
    using set_save [of p c w3] o3 assms(3) by auto
  from assms(1) o1 o3 nosave have c: "e1 = None" "e3 = None" "remain = 0" unfolding eq by (auto split: if_splits)
  have "prefix w3 w4" using prefix_send_all [of w3 p "[b, ''no ip dhcp snooping'']"] s4 by simp
  then have "prefix w3 (fst (snoop_untrust p b c iface ws))"
    unfolding eq using c prefix_send_ign [of w4 p "[''exit'']"] prefix_save [of "send_ign p w4 [''exit'']" p c]
    by (auto intro: prefix_order.trans)
  with c(3) show ?thesis unfolding remain_def w3 by blast
qed

text \<open>
  DHCP snooping is switched off on a switch only when a port loses its trust and the listing of the
  trusted ports, requested in the same session, shows none; never while trust is being given.
\<close>
theorem snooping_off_only_unused:
  assumes "snoop_off \<in> set (fst (runDHCPSnoopingTrust p v pass iface trusted))" "pass \<noteq> ''no ip dhcp snooping''"
  shows "\<not> trusted \<and> (\<exists>ws. prefix (ws @ [snoop_list]) (fst (runDHCPSnoopingTrust p v pass iface trusted)) \<and>
     CountDHCPSnoopingTrustLines (drop (length (pe_out p ws)) (pe_out p (ws @ [snoop_list]))) = 0)"
proof -
  obtain a b c where abc: "confEnterCmds v = (a, b, c)" by (cases "confEnterCmds v") auto
  note nc = write_cmds [OF abc]
  obtain w1 e1 where s1: "enter_priv_always p a pass = (w1, e1)" by fastforce
  then have o1: "snoop_off \<notin> set w1" using set_priv [of p a pass] nc assms(2) by auto
  obtain w2 e2 where s2: "send p (send_ign p w1 [''terminal length 0'']) b = (w2, e2)" by fastforce
  then have "set w2 = insert (b @ CR @ LF) (set (send_ign p w1 [''terminal length 0'']))"
    using set_send [of p "send_ign p w1 [''terminal length 0'']" b] by simp
  then have o2: "snoop_off \<notin> set w2" using o1 nc by (auto simp: set_send_ign)
  have eq: "fst (runDHCPSnoopingTrust p v pass iface trusted) =
      (if pe_setup p \<noteq> None then [] else if e1 \<noteq> None then w1 else if e2 \<noteq> None then w2
       else if trusted then fst (snoop_trust p c iface w2) else fst (snoop_untrust p b c iface w2))"
    by (simp add: runDHCPSnoopingTrust_def abc s1 s2 split: option.split)
  have "snoop_off \<notin> set (fst (snoop_trust p c iface w2))" using snoop_trust_keeps o2 nc by blast
  with assms(1) o1 o2 have c: "pe_setup p = None" "e1 = None" "e2 = None" "\<not> trusted" unfolding eq by (auto split: if_splits)
  with assms(1) snoop_untrust_off [of p b c iface w2] o2 nc show ?thesis unfolding eq by auto
qed

text \<open>
  The listing may be empty for another reason: a switch whose CLI has no \<open>include\<close> answers with an
  error, and snooping is switched off although another port is trusted.
\<close>
definition no_include_peer :: ssh_peer where
  "no_include_peer = prompt_peer\<lparr>pe_out := (\<lambda>ws. ''sw#'' @ concat (map (\<lambda>w. LF @
     (if HasPrefix w ''show'' then ''sw# % Invalid input detected'' else ''sw(config)#'')) ws))\<rparr>"

lemma snooping_off_after_error:
  "snoop_off \<in> set (fst (runDHCPSnoopingTrust no_include_peer VendorEltex ''secret'' ''0/1'' False))"
  by code_simp

theorem snooping_off_only_unused_witness:
  "\<exists>ws. CountDHCPSnoopingTrustLines (drop (length (pe_out no_include_peer ws)) (pe_out no_include_peer (ws @ [snoop_list]))) = 0"
  using snooping_off_only_unused [OF snooping_off_after_error] by auto

end
