(* ===== verification/Vlan_Names.thy ===== *)
theory Vlan_Names
  imports Port_Live
begin

text \<open>
  The names NetLynx gives to VLANs, from the command builders of \<open>vlan.go\<close> to the reader of the VLAN
  database: the quotes that are added are the quotes that are removed.
\<close>

section \<open>Quoting\<close>

definition clean_name :: "string \<Rightarrow> bool" where
  "clean_name s \<longleftrightarrow> s \<noteq> [] \<and> trimmed s \<and> one_line s \<and> CHR 0x22 \<notin> set s \<and> CHR 0x27 \<notin> set s"

lemma clean_sanitize: "sanitizeVLANNameMax s n \<noteq> [] \<Longrightarrow> clean_name (sanitizeVLANNameMax s n)"
proof -
  assume "sanitizeVLANNameMax s n \<noteq> []"
  moreover have "trimmed (sanitizeVLANNameMax s n)"
    by (simp add: sanitizeVLANNameMax_def Let_def trimmed_TrimSpace)
  ultimately show ?thesis unfolding clean_name_def using sanitize_chars [of _ s n] by auto
qed

lemma clean_Trim: "clean_name s \<Longrightarrow> TrimSpace s = s"
  by (simp add: clean_name_def TrimSpace_trimmed)

lemma quote_cases:
  assumes "clean_name s"
  shows "quoteCLIDescription s = s \<or> quoteCLIDescription s = apos @ s @ apos"
  using assms clean_Trim [OF assms] by (auto simp: quoteCLIDescription_def Contains_char clean_name_def)

lemma quoteDB_eq: "clean_name s \<Longrightarrow> quoteVLANDBName s = quot @ s @ quot"
  using clean_Trim [of s] by (simp add: quoteVLANDBName_def clean_name_def ReplaceAll_absent Contains_char)

lemma unquote_plain: "clean_name s \<Longrightarrow> unquote s = s"
proof -
  assume s: "clean_name s"
  then have "hd s \<in> set s" by (simp add: clean_name_def)
  with s have "hd s \<noteq> CHR 0x22" "hd s \<noteq> CHR 0x27" unfolding clean_name_def by metis+
  with clean_Trim [OF s] show ?thesis by (simp add: unquote_def)
qed

lemma unquote_quoted: "clean_name s \<Longrightarrow> unquote (apos @ s @ apos) = s" "clean_name s \<Longrightarrow> unquote (quot @ s @ quot) = s"
proof -
  assume s: "clean_name s"
  have "trimmed (apos @ s @ apos)" "trimmed (quot @ s @ quot)" by (simp_all add: trimmed_def is_space_def)
  then have t: "TrimSpace (apos @ s @ apos) = apos @ s @ apos" "TrimSpace (quot @ s @ quot) = quot @ s @ quot"
    by (simp_all only: TrimSpace_trimmed)
  show "unquote (apos @ s @ apos) = s" unfolding unquote_def t using clean_Trim [OF s] by simp
  show "unquote (quot @ s @ quot) = s" unfolding unquote_def t using clean_Trim [OF s] by simp
qed

text \<open>The quoted forms of a name, as the builders write them.\<close>
definition quoted :: "string \<Rightarrow> string \<Rightarrow> bool" where
  "quoted s q \<longleftrightarrow> clean_name s \<and> q \<in> {s, apos @ s @ apos, quot @ s @ quot}"

lemma quoted_quoteCLI: "clean_name s \<Longrightarrow> quoted s (quoteCLIDescription s)"
  using quote_cases by (auto simp: quoted_def)

lemma quoted_quoteDB: "clean_name s \<Longrightarrow> quoted s (quoteVLANDBName s)"
  by (simp add: quoted_def quoteDB_eq)

lemma quoted_unquote: "quoted s q \<Longrightarrow> unquote q = s"
  using unquote_plain unquote_quoted by (auto simp: quoted_def)

lemma quoted_shape: "quoted s q \<Longrightarrow> q \<noteq> [] \<and> trimmed q \<and> one_line q"
  by (auto simp: quoted_def clean_name_def trimmed_def is_space_def)

section \<open>Lines of the VLAN database\<close>

abbreviation db0 :: db_state where
  "db0 \<equiv> \<lparr>db_names = [], db_inDB = False, db_inIface = False, db_iosVLAN = 0\<rparr>"

lemma trimmed_prefix: "trimmed (c # k) \<or> k \<noteq> [] \<Longrightarrow> \<not> is_space c \<Longrightarrow> q \<noteq> [] \<Longrightarrow> trimmed q \<Longrightarrow> trimmed (c # k @ q)"
  by (auto simp: trimmed_def)

lemma ToLower_word: "\<forall>c\<in>set k. \<not> is_upper c \<Longrightarrow> ToLower (k @ q) = k @ ToLower q"
  by (simp add: ToLower_append ToLower_id)

lemma lower_words:
  "ToLower (''vlan '' @ q) = ''vlan '' @ ToLower q" "ToLower (''name '' @ q) = ''name '' @ ToLower q"
  "ToLower (''vlan name '' @ q) = ''vlan name '' @ ToLower q" "ToLower ('' name '' @ q) = '' name '' @ ToLower q"
  by (rule ToLower_word, simp add: is_upper_def)+

lemma after_word: "trimmed q \<Longrightarrow> after k (k @ CHR '' '' # q) = q"
  by (simp add: after_def TrimSpace_Cons_space is_space_def TrimSpace_trimmed)

lemma digits_shape:
  assumes "validVLANID n"
  shows "trimmed (Itoa n)" "ToLower (Itoa n) = Itoa n" "\<not> HasPrefix (Itoa n) (CHR ''n'' # p)" "\<not> HasPrefix (Itoa n) (CHR ''d'' # p)"
    "Index (Itoa n) '' name '' = None" "\<not> ContainsAny (Itoa n) '',-''" "CHR '' '' \<notin> set (Itoa n)"
proof -
  note d = Itoa_valid_digits [OF assms]
  show "trimmed (Itoa n)" using Itoa_no_space [of n] by (auto simp: trimmed_def)
  show "ToLower (Itoa n) = Itoa n" by simp
  have nd: "\<not> is_digit CHR ''n''" "\<not> is_digit CHR ''d''" by (simp_all add: is_digit_def)
  show "\<not> HasPrefix (Itoa n) (CHR ''n'' # p)" "\<not> HasPrefix (Itoa n) (CHR ''d'' # p)"
    using d nd by (cases "Itoa n"; auto)+
  show sp: "CHR '' '' \<notin> set (Itoa n)" using Itoa_no_space [of n] by (auto simp: is_space_def)
  then show "Index (Itoa n) '' name '' = None" by (rule Index_first_absent)
  show "\<not> ContainsAny (Itoa n) '',-''" using d not_digit_sign by (auto simp: ContainsAny_def list_ex_iff dest: d)
qed

lemma Index_after: "x \<notin> set u \<Longrightarrow> Index (u @ x # p @ v) (x # p) = Some (length u)"
  by (induction u) (auto simp: HasPrefix_iff)

lemma Cut_at: "sep \<notin> set u \<Longrightarrow> Cut (u @ sep # v) sep = (u, v, True)"
  by (induction u) auto

text \<open>What each line of a builder does to the state of the reader.\<close>
lemma db_enter: "db_line db0 ''vlan database'' = db0\<lparr>db_inDB := True\<rparr>"
  by code_simp

lemma db_exit: "\<not> db_inIface st \<Longrightarrow> db_names (db_line st ''exit'') = db_names st"
  and db_quit: "\<not> db_inIface st \<Longrightarrow> db_names (db_line st ''quit'') = db_names st"
proof -
  have "TrimSpace ''exit'' = ''exit''" "ToLower ''exit'' = ''exit''" "TrimSpace ''quit'' = ''quit''" "ToLower ''quit'' = ''quit''"
    by code_simp+
  then show "\<not> db_inIface st \<Longrightarrow> db_names (db_line st ''exit'') = db_names st"
    "\<not> db_inIface st \<Longrightarrow> db_names (db_line st ''quit'') = db_names st"
    by (simp_all add: db_line_def ios_line_def db_section_line_def is_vlan_line_def Let_def)
qed

lemma line_head:
  assumes "k \<in> {''vlan '', ''name '', ''vlan name ''}" "q \<noteq> []" "trimmed q"
  shows "TrimSpace (k @ q) = k @ q" "ToLower (k @ q) = k @ ToLower q"
proof -
  have "trimmed (k @ q)" using assms by (auto simp: trimmed_def is_space_def)
  then show "TrimSpace (k @ q) = k @ q" by (rule TrimSpace_trimmed)
  show "ToLower (k @ q) = k @ ToLower q" using assms(1) lower_words by auto
qed

lemma not_database:
  assumes "validVLANID n"
  shows "''vlan '' @ Itoa n @ t \<noteq> ''vlan database''" "is_vlan_line (''vlan '' @ Itoa n @ t)"
proof -
  obtain c cs where c: "Itoa n = c # cs" by (cases "Itoa n") auto
  then have "is_digit c" using Itoa_valid_digits [OF assms] by auto
  then have "c \<noteq> CHR ''d''" "c \<noteq> CHR ''n''" by (auto simp: is_digit_def)
  then show "''vlan '' @ Itoa n @ t \<noteq> ''vlan database''" "is_vlan_line (''vlan '' @ Itoa n @ t)"
    by (simp_all add: c is_vlan_line_def)
qed

lemma rest_none: "validVLANID n \<Longrightarrow> parseVLANIDNameRest (Itoa n) = None"
  by (simp add: parseVLANIDNameRest_def digits_shape)

lemma rest_some:
  assumes "validVLANID n" "quoted s q"
  shows "parseVLANIDNameRest (Itoa n @ '' name '' @ q) = Some (n, s)"
proof -
  have q: "q \<noteq> []" "trimmed q" using quoted_shape [OF assms(2)] by auto
  have "trimmed (Itoa n @ '' name '' @ q)" using digits_shape(1) [OF assms(1)] q by (auto simp: trimmed_def)
  then have t: "TrimSpace (Itoa n @ '' name '' @ q) = Itoa n @ '' name '' @ q" by (rule TrimSpace_trimmed)
  have "Index (Itoa n @ CHR '' '' # ''name '' @ ToLower q) (CHR '' '' # ''name '') = Some (length (Itoa n))"
    using digits_shape(7) [OF assms(1)] by (rule Index_after)
  then have i: "Index (ToLower (Itoa n @ '' name '' @ q)) '' name '' = Some (length (Itoa n))"
    by (simp add: ToLower_append [of "Itoa n"] lower_words(4) [simplified])
  show ?thesis
    unfolding parseVLANIDNameRest_def t Let_def i
    using assms digits_shape(6) [OF assms(1)] TrimSpace_trimmed [OF q(2)]
    by (simp add: vlan_of_Itoa quoted_unquote)
qed

lemma ios_vlan:
  assumes "validVLANID n"
  shows "db_line db0 (''vlan '' @ Itoa n) = db0\<lparr>db_names := [(n, [])], db_iosVLAN := n\<rparr>"
proof -
  have h: "TrimSpace (''vlan '' @ Itoa n) = ''vlan '' @ Itoa n" "ToLower (''vlan '' @ Itoa n) = ''vlan '' @ Itoa n"
    using line_head [of "''vlan ''" "Itoa n"] digits_shape [OF assms] by auto
  have a: "after ''vlan'' (''vlan '' @ Itoa n) = Itoa n" using after_word [OF digits_shape(1) [OF assms], of "''vlan''"] by simp
  have c: "\<not> Contains (''vlan '' @ Itoa n) '',''" "\<not> Contains (''vlan '' @ Itoa n) ''-''"
    using digits_shape(6) [OF assms] by (simp_all add: Contains_char ContainsAny_def list_ex_iff) blast+
  have nd: "''vlan '' @ Itoa n \<noteq> ''vlan database''" "is_vlan_line (''vlan '' @ Itoa n)"
    using not_database [OF assms, of "[]"] by simp_all
  show ?thesis
    unfolding db_line_def h Let_def ios_line_def a
    using nd c assms by (simp add: rest_none vlan_of_Itoa add_unnamed_def)
qed

lemma ios_name:
  assumes "quoted s q" "n > 0"
  shows "db_names (db_line (db0\<lparr>db_names := [(n, [])], db_iosVLAN := n\<rparr>) (''name '' @ q)) = [(n, s)]"
    "\<not> db_inIface (db_line (db0\<lparr>db_names := [(n, [])], db_iosVLAN := n\<rparr>) (''name '' @ q))"
proof -
  have q: "q \<noteq> []" "trimmed q" using quoted_shape [OF assms(1)] by auto
  have h: "TrimSpace (''name '' @ q) = ''name '' @ q" "ToLower (''name '' @ q) = ''name '' @ ToLower q"
    using line_head [of "''name ''" q] q by auto
  have a: "after ''name'' (''name '' @ q) = q" using after_word [OF q(2), of "''name''"] by simp
  show "db_names (db_line (db0\<lparr>db_names := [(n, [])], db_iosVLAN := n\<rparr>) (''name '' @ q)) = [(n, s)]"
    "\<not> db_inIface (db_line (db0\<lparr>db_names := [(n, [])], db_iosVLAN := n\<rparr>) (''name '' @ q))"
    unfolding db_line_def h Let_def ios_line_def a
    using assms quoted_unquote [OF assms(1)] by (simp_all add: is_vlan_line_def)
qed

lemma section_vlan:
  assumes "validVLANID n"
  shows "db_line (db0\<lparr>db_inDB := True\<rparr>) (''vlan '' @ Itoa n) = db0\<lparr>db_inDB := True, db_names := [(n, [])]\<rparr>"
proof -
  have h: "TrimSpace (''vlan '' @ Itoa n) = ''vlan '' @ Itoa n" "ToLower (''vlan '' @ Itoa n) = ''vlan '' @ Itoa n"
    using line_head [of "''vlan ''" "Itoa n"] digits_shape [OF assms] by auto
  have a: "after ''vlan'' (''vlan '' @ Itoa n) = Itoa n" using after_word [OF digits_shape(1) [OF assms], of "''vlan''"] by simp
  have nd: "''vlan '' @ Itoa n \<noteq> ''vlan database''" "is_vlan_line (''vlan '' @ Itoa n)"
    using not_database [OF assms, of "[]"] by simp_all
  have np: "\<not> HasPrefix (''vlan '' @ Itoa n) ''vlan name ''" using nd(2) by (auto simp: is_vlan_line_def HasPrefix_iff)
  show ?thesis
    unfolding db_line_def h Let_def db_section_line_def a
    using nd np assms by (simp add: rest_none Parse_one add_unnamed_def del: HasPrefix.simps append.simps) (simp add: nd)
qed

lemma section_vlan_name:
  assumes "validVLANID n" "quoted s q"
  shows "db_line (db0\<lparr>db_inDB := True\<rparr>) (''vlan '' @ Itoa n @ '' name '' @ q) = db0\<lparr>db_inDB := True, db_names := [(n, s)]\<rparr>"
proof -
  let ?q = "Itoa n @ '' name '' @ q"
  have q: "q \<noteq> []" "trimmed q" using quoted_shape [OF assms(2)] by auto
  have tq: "trimmed ?q" "?q \<noteq> []" using digits_shape(1) [OF assms(1)] q by (auto simp: trimmed_def)
  have lo: "ToLower ?q = Itoa n @ '' name '' @ ToLower q" by (simp add: ToLower_append [of "Itoa n"] lower_words(4) [simplified])
  have h: "TrimSpace (''vlan '' @ ?q) = ''vlan '' @ ?q" "ToLower (''vlan '' @ ?q) = ''vlan '' @ Itoa n @ '' name '' @ ToLower q"
    using line_head [of "''vlan ''" ?q] tq lo by auto
  have a: "after ''vlan'' (''vlan '' @ ?q) = ?q" using after_word [OF tq(1), of "''vlan''"] by simp
  note nd = not_database [OF assms(1), of "'' name '' @ ToLower q"]
  have np: "\<not> HasPrefix (''vlan '' @ Itoa n @ '' name '' @ ToLower q) ''vlan name ''" using nd(2) by (auto simp: is_vlan_line_def HasPrefix_iff)
  have "parseVLANIDNameRest ?q = Some (n, s)" by (rule rest_some [OF assms])
  then show ?thesis
    unfolding db_line_def h Let_def db_section_line_def a
    using nd np by (simp add: nd)
qed

lemma section_name:
  assumes "validVLANID n" "quoted s q"
  shows "db_line (db0\<lparr>db_inDB := True, db_names := [(n, [])]\<rparr>) (''vlan name '' @ Itoa n @ '' '' @ q) =
     db0\<lparr>db_inDB := True, db_names := [(n, s)]\<rparr>"
proof -
  let ?q = "Itoa n @ '' '' @ q"
  have q: "q \<noteq> []" "trimmed q" using quoted_shape [OF assms(2)] by auto
  have tq: "trimmed ?q" "?q \<noteq> []" using digits_shape(1) [OF assms(1)] q by (auto simp: trimmed_def)
  have h: "TrimSpace (''vlan name '' @ ?q) = ''vlan name '' @ ?q" "ToLower (''vlan name '' @ ?q) = ''vlan name '' @ ToLower ?q"
    using line_head [of "''vlan name ''" ?q] tq by auto
  have a: "after ''vlan name'' (''vlan name '' @ ?q) = ?q" using after_word [OF tq(1), of "''vlan name''"] by simp
  have c: "Cut ?q CHR '' '' = (Itoa n, q, True)" using Cut_at [OF digits_shape(7) [OF assms(1)]] by simp
  show ?thesis
    unfolding db_line_def h Let_def db_section_line_def a c
    using assms by (simp add: vlan_of_Itoa quoted_unquote)
qed

section \<open>Properties\<close>

lemma read_lines:
  assumes "\<forall>l\<in>set ls. one_line l" "ls \<noteq> []" "db_names (foldl db_line db0 ls) = [(n, s)]"
  shows "map_of (ParseVLANDatabase (Join ls LF)) n = Some s"
proof -
  have "Split (Join ls LF) CHR 0x0A = ls" using assms(1,2) by (intro Split_Join) (auto simp: one_line_def)
  with assms(3) show ?thesis by (auto simp: ParseVLANDatabase_def Let_def update_conv')
qed

text \<open>
  A VLAN created or renamed on a switch carries the name NetLynx will read: in every dialect,
  the commands of a valid request with a name, read as a configuration, give that VLAN the cleaned
  name of the request, whatever quotes, line ends or blanks the user typed.
\<close>
theorem vlan_name_roundtrip:
  assumes "VLANDatabaseChange_Validate ch = None" "dc_Op ch \<in> {VLANDBOpCreate, VLANDBOpSetName}"
    "name = sanitizeVLANNameMax (dc_Name ch) (if style = vlanStyleHuawei then 31 else 32)" "name \<noteq> []"
  shows "map_of (ParseVLANDatabase (Join (VLANDatabaseCLILines style ch) LF)) (dc_VLANID ch) = Some name"
proof -
  let ?n = "dc_VLANID ch"
  have n: "validVLANID ?n" "?n > 0"
    using assms(1,2) by (auto simp: VLANDatabaseChange_Validate_def validVLANID_def split: if_splits)
  have cn: "clean_name name" using assms(3,4) clean_sanitize by simp
  note qc = quoted_quoteCLI [OF cn] and qd = quoted_quoteDB [OF cn]
  have "\<forall>l\<in>set (VLANDatabaseCLILines style ch). one_line l" using one_line_VLANDB by blast
  moreover have "VLANDatabaseCLILines style ch \<noteq> [] \<and> db_names (foldl db_line db0 (VLANDatabaseCLILines style ch)) = [(?n, name)]"
  proof (cases style)
    case vlanStyleIEEE
    with assms have "VLANDatabaseCLILines style ch =
        [''vlan database'', ''vlan '' @ Itoa ?n, ''vlan name '' @ Itoa ?n @ '' '' @ quoteVLANDBName name, ''exit'']"
      by (auto simp: vlanDBIEEELines_def sanitizeVLANName_def Let_def)
    then show ?thesis by (simp only: foldl.simps db_enter section_vlan [OF n(1)] section_name [OF n(1) qd] db_exit) (simp add: db_exit)
  next
    case vlanStyleEltex
    with assms have "VLANDatabaseCLILines style ch =
        [''vlan database'', ''vlan '' @ Itoa ?n @ '' name '' @ quoteCLIDescription name, ''exit'']"
      by (auto simp: vlanDBEltexLines_def sanitizeVLANName_def Let_def)
    then show ?thesis by (simp only: foldl.simps db_enter section_vlan_name [OF n(1) qc]) (simp add: db_exit)
  next
    case vlanStyleHuawei
    with assms have "VLANDatabaseCLILines style ch = [''vlan '' @ Itoa ?n, ''name '' @ quoteVLANDBName name, ''quit'']"
      by (auto simp: vlanDBHuaweiLines_def Let_def)
    then show ?thesis by (simp only: foldl.simps ios_vlan [OF n(1)] db_quit [OF ios_name(2) [OF qd n(2)]] ios_name(1) [OF qd n(2)]) simp
  next
    case vlanStyleCisco
    with assms have "VLANDatabaseCLILines style ch = [''vlan '' @ Itoa ?n, ''name '' @ quoteCLIDescription name, ''exit'']"
      by (auto simp: vlanDBCiscoLines_def sanitizeVLANName_def Let_def)
    then show ?thesis by (simp only: foldl.simps ios_vlan [OF n(1)] db_exit [OF ios_name(2) [OF qc n(2)]] ios_name(1) [OF qc n(2)]) simp
  next
    case vlanStyleAuto
    with assms have "VLANDatabaseCLILines style ch = [''vlan '' @ Itoa ?n, ''name '' @ quoteCLIDescription name, ''exit'']"
      by (auto simp: vlanDBCiscoLines_def sanitizeVLANName_def Let_def)
    then show ?thesis by (simp only: foldl.simps ios_vlan [OF n(1)] db_exit [OF ios_name(2) [OF qc n(2)]] ios_name(1) [OF qc n(2)]) simp
  qed
  ultimately show ?thesis by (intro read_lines) auto
qed

definition quoted_request :: VLANDatabaseChange where
  "quoted_request = \<lparr>dc_Op = VLANDBOpCreate, dc_VLANID = 10, dc_VLANIDs = [], dc_Name = '' guest'' @ LF @ apos @ ''wifi''\<rparr>"

theorem vlan_name_roundtrip_witness:
  "map_of (ParseVLANDatabase (Join (VLANDatabaseCLILines vlanStyleEltex quoted_request) LF)) 10 = Some ''guest wifi''"
proof -
  have "VLANDatabaseChange_Validate quoted_request = None" "dc_VLANID quoted_request = 10" by code_simp+
  moreover have "dc_Op quoted_request \<in> {VLANDBOpCreate, VLANDBOpSetName}" by (simp add: quoted_request_def)
  moreover have "sanitizeVLANNameMax (dc_Name quoted_request) 32 = ''guest wifi''" by code_simp
  ultimately show ?thesis using vlan_name_roundtrip [of quoted_request "''guest wifi''" vlanStyleEltex] by simp
qed

end
