(* ===== verification/Login_Limit.thy ===== *)
theory Login_Limit
  imports Go_Prelude
begin

text \<open>
  The limiter of login attempts (\<open>internal/api/login_limit.go\<close>): a counter of failures for every
  address and every user name, a pause after too many of them, and the collection of old counters.
  Every operation takes the lock for its whole body, so it is one step; \<open>now\<close> is the clock it
  reads. The state machine interleaves attempts, logins and collections in any order.
\<close>

section \<open>Counters\<close>

record loginBucket =
  lb_fails :: int
  lb_blocked :: time
  lb_windowAt :: time

type_synonym buckets = "string \<rightharpoonup> loginBucket"

record loginLimiter =
  ll_byIP :: buckets
  ll_byUser :: buckets
  ll_maxFail :: int
  ll_window :: duration
  ll_blockFor :: duration

abbreviation minute :: duration where "minute \<equiv> 60000000000"

definition newLoginLimiter :: loginLimiter where
  "newLoginLimiter = \<lparr>ll_byIP = Map.empty, ll_byUser = Map.empty, ll_maxFail = 8, ll_window = 5 * minute,
     ll_blockFor = 2 * minute\<rparr>"

definition allowBucket :: "loginLimiter \<Rightarrow> buckets \<Rightarrow> string \<Rightarrow> time \<Rightarrow> buckets \<times> bool" where
  "allowBucket l m key now =
     (if key = [] then (m, True)
      else case m key of
        None \<Rightarrow> (m, True)
      | Some b \<Rightarrow>
          if now < lb_blocked b then (m, False)
          else if now - lb_windowAt b > ll_window l then (m(key \<mapsto> b\<lparr>lb_fails := 0, lb_windowAt := now\<rparr>), True)
          else (m, True))"

text \<open>Both counters are asked; the second only when the first allows.\<close>
definition allow :: "loginLimiter \<Rightarrow> string \<Rightarrow> string \<Rightarrow> time \<Rightarrow> loginLimiter \<times> bool" where
  "allow l ip username now =
     (case allowBucket l (ll_byIP l) ip now of
        (m1, False) \<Rightarrow> (l\<lparr>ll_byIP := m1\<rparr>, False)
      | (m1, True) \<Rightarrow>
          (case allowBucket l (ll_byUser l) (ToLower username) now of
             (m2, r) \<Rightarrow> (l\<lparr>ll_byIP := m1, ll_byUser := m2\<rparr>, r)))"

definition failBucket :: "loginLimiter \<Rightarrow> buckets \<Rightarrow> string \<Rightarrow> time \<Rightarrow> buckets" where
  "failBucket l m key now =
     (if key = [] then m
      else let b0 = (case m key of None \<Rightarrow> \<lparr>lb_fails = 0, lb_blocked = 0, lb_windowAt = now\<rparr> | Some b \<Rightarrow> b);
               b1 = (if now - lb_windowAt b0 > ll_window l then b0\<lparr>lb_fails := 0, lb_windowAt := now\<rparr> else b0);
               b2 = b1\<lparr>lb_fails := lb_fails b1 + 1\<rparr>
           in m(key \<mapsto> (if lb_fails b2 \<ge> ll_maxFail l
                then b2\<lparr>lb_blocked := now + ll_blockFor l, lb_fails := 0, lb_windowAt := now\<rparr> else b2)))"

definition fail :: "loginLimiter \<Rightarrow> string \<Rightarrow> string \<Rightarrow> time \<Rightarrow> loginLimiter" where
  "fail l ip username now =
     l\<lparr>ll_byIP := failBucket l (ll_byIP l) ip now, ll_byUser := failBucket l (ll_byUser l) (ToLower username) now\<rparr>"

definition success :: "loginLimiter \<Rightarrow> string \<Rightarrow> string \<Rightarrow> loginLimiter" where
  "success l ip username =
     l\<lparr>ll_byIP := (ll_byIP l)(ip := None), ll_byUser := (ll_byUser l)(ToLower username := None)\<rparr>"

definition prunable :: "loginLimiter \<Rightarrow> time \<Rightarrow> loginBucket \<Rightarrow> bool" where
  "prunable l now b \<longleftrightarrow>
     (now - lb_windowAt b > ll_window l * 2 \<and> now > lb_blocked b) \<or>
     (lb_fails b = 0 \<and> now > lb_blocked b \<and> now - lb_windowAt b > ll_window l)"

definition prune :: "loginLimiter \<Rightarrow> time \<Rightarrow> buckets \<Rightarrow> buckets" where
  "prune l now m = (\<lambda>k. case m k of Some b \<Rightarrow> if prunable l now b then None else Some b | None \<Rightarrow> None)"

definition gc :: "loginLimiter \<Rightarrow> time \<Rightarrow> loginLimiter" where
  "gc l now = l\<lparr>ll_byIP := prune l now (ll_byIP l), ll_byUser := prune l now (ll_byUser l)\<rparr>"

section \<open>The state machine\<close>

text \<open>A wrong password, a right one, a collection.\<close>
datatype login_event = Wrong string string time | Right string string time | Collect time

fun event_time :: "login_event \<Rightarrow> time" where
  "event_time (Wrong ip u t) = t"
| "event_time (Right ip u t) = t"
| "event_time (Collect t) = t"

text \<open>The handlers ask \<open>allow\<close> first and then report; the flag says whether the password was looked at.\<close>
fun login_step :: "loginLimiter \<Rightarrow> login_event \<Rightarrow> loginLimiter \<times> bool" where
  "login_step l (Wrong ip u t) =
     (case allow l ip u t of (l1, ok) \<Rightarrow> if ok then (fail l1 ip u t, True) else (l1, False))"
| "login_step l (Right ip u t) =
     (case allow l ip u t of (l1, ok) \<Rightarrow> if ok then (success l1 ip u, True) else (l1, False))"
| "login_step l (Collect t) = (gc l t, False)"

inductive limiter_reachable :: "loginLimiter \<Rightarrow> bool" where
  start: "limiter_reachable newLoginLimiter"
| step: "limiter_reachable l \<Longrightarrow> limiter_reachable (fst (login_step l ev))"

text \<open>The wrong passwords of one kind (from an address, for a user) that were looked at.\<close>
fun looked_at :: "(login_event \<Rightarrow> bool) \<Rightarrow> loginLimiter \<Rightarrow> login_event list \<Rightarrow> nat" where
  "looked_at kind l [] = 0"
| "looked_at kind l (ev # evs) =
     (case login_step l ev of (l1, ok) \<Rightarrow> (if ok \<and> kind ev then 1 else 0) + looked_at kind l1 evs)"

fun wrong_from :: "string \<Rightarrow> login_event \<Rightarrow> bool" where
  "wrong_from k (Wrong ip u t) = (ip = k)"
| "wrong_from k ev = False"

fun wrong_for :: "string \<Rightarrow> login_event \<Rightarrow> bool" where
  "wrong_for k (Wrong ip u t) = (ToLower u = k)"
| "wrong_for k ev = False"

fun right_from :: "string \<Rightarrow> login_event \<Rightarrow> bool" where
  "right_from k (Right ip u t) = (ip = k)"
| "right_from k ev = False"

fun right_for :: "string \<Rightarrow> login_event \<Rightarrow> bool" where
  "right_for k (Right ip u t) = (ToLower u = k)"
| "right_for k ev = False"

section \<open>Invariant\<close>

definition buckets_ok :: "loginLimiter \<Rightarrow> buckets \<Rightarrow> bool" where
  "buckets_ok l m \<longleftrightarrow> (\<forall>k b. m k = Some b \<longrightarrow> 0 \<le> lb_fails b \<and> lb_fails b < ll_maxFail l)"

definition limits_ok :: "loginLimiter \<Rightarrow> bool" where
  "limits_ok l \<longleftrightarrow> 0 < ll_maxFail l \<and> buckets_ok l (ll_byIP l) \<and> buckets_ok l (ll_byUser l)"

lemma allowBucket_ok: "0 < ll_maxFail l \<Longrightarrow> buckets_ok l m \<Longrightarrow> buckets_ok l (fst (allowBucket l m key now))"
  by (auto simp: buckets_ok_def allowBucket_def split: option.splits)

lemma failBucket_ok: "0 < ll_maxFail l \<Longrightarrow> buckets_ok l m \<Longrightarrow> buckets_ok l (failBucket l m key now)"
proof (cases "key = []")
  case False
  assume l: "0 < ll_maxFail l" and ok: "buckets_ok l m"
  define b0 where "b0 = (case m key of None \<Rightarrow> \<lparr>lb_fails = 0, lb_blocked = 0, lb_windowAt = now\<rparr> | Some b \<Rightarrow> b)"
  have b0: "0 \<le> lb_fails b0" using ok l by (auto simp: b0_def buckets_ok_def split: option.split)
  define b1 where "b1 = (if now - lb_windowAt b0 > ll_window l then b0\<lparr>lb_fails := 0, lb_windowAt := now\<rparr> else b0)"
  have b1: "0 \<le> lb_fails b1" using b0 by (simp add: b1_def)
  have "failBucket l m key now = m(key \<mapsto> (if lb_fails b1 + 1 \<ge> ll_maxFail l
      then b1\<lparr>lb_blocked := now + ll_blockFor l, lb_fails := 0, lb_windowAt := now\<rparr> else b1\<lparr>lb_fails := lb_fails b1 + 1\<rparr>))"
    using False by (simp add: failBucket_def b0_def [symmetric] b1_def [symmetric] Let_def)
  then show ?thesis using ok l b1 by (simp add: buckets_ok_def)
qed (simp add: failBucket_def)

lemma prune_ok: "buckets_ok l m \<Longrightarrow> buckets_ok l (prune l now m)"
  by (auto simp: buckets_ok_def prune_def split: option.splits if_splits)

text \<open>The limits are never changed.\<close>
lemma allow_limits:
  "ll_maxFail (fst (allow l ip u t)) = ll_maxFail l" "ll_window (fst (allow l ip u t)) = ll_window l"
  "ll_blockFor (fst (allow l ip u t)) = ll_blockFor l"
  by (simp_all add: allow_def split: prod.split bool.split)

lemma step_limits:
  "ll_maxFail (fst (login_step l ev)) = ll_maxFail l" "ll_window (fst (login_step l ev)) = ll_window l"
  "ll_blockFor (fst (login_step l ev)) = ll_blockFor l"
proof -
  have "ll_maxFail (fst (login_step l ev)) = ll_maxFail l \<and> ll_window (fst (login_step l ev)) = ll_window l \<and>
    ll_blockFor (fst (login_step l ev)) = ll_blockFor l"
  proof (cases ev)
    case (Wrong ip u t)
    then show ?thesis using allow_limits [of l ip u t] by (cases "allow l ip u t") (simp add: fail_def)
  next
    case (Right ip u t)
    then show ?thesis using allow_limits [of l ip u t] by (cases "allow l ip u t") (simp add: success_def)
  qed (simp add: gc_def)
  then show "ll_maxFail (fst (login_step l ev)) = ll_maxFail l" "ll_window (fst (login_step l ev)) = ll_window l"
    "ll_blockFor (fst (login_step l ev)) = ll_blockFor l" by blast+
qed

lemma limits_ok_allow: "limits_ok l \<Longrightarrow> limits_ok (fst (allow l ip u t))"
proof -
  assume ok: "limits_ok l"
  obtain m1 r1 where 1: "allowBucket l (ll_byIP l) ip t = (m1, r1)" by fastforce
  obtain m2 r2 where 2: "allowBucket l (ll_byUser l) (ToLower u) t = (m2, r2)" by fastforce
  have "buckets_ok l m1" "buckets_ok l m2"
    using ok allowBucket_ok [of l "ll_byIP l" ip t] allowBucket_ok [of l "ll_byUser l" "ToLower u" t] 1 2
    by (auto simp: limits_ok_def)
  with ok show ?thesis
    by (auto simp: limits_ok_def allow_def 1 2 buckets_ok_def split: bool.split)
qed

lemma limits_ok_fail: "limits_ok l \<Longrightarrow> limits_ok (fail l ip u t)"
  using failBucket_ok [of l "ll_byIP l" ip t] failBucket_ok [of l "ll_byUser l" "ToLower u" t]
  by (simp add: limits_ok_def fail_def buckets_ok_def)

lemma limits_ok_success: "limits_ok l \<Longrightarrow> limits_ok (success l ip u)"
  by (simp add: limits_ok_def success_def buckets_ok_def)

lemma limits_ok_gc: "limits_ok l \<Longrightarrow> limits_ok (gc l t)"
  using prune_ok [of l "ll_byIP l" t] prune_ok [of l "ll_byUser l" t] by (simp add: limits_ok_def gc_def buckets_ok_def)

lemma limits_ok_step: "limits_ok l \<Longrightarrow> limits_ok (fst (login_step l ev))"
proof (cases ev)
  case (Wrong ip u t)
  assume "limits_ok l"
  then have "limits_ok (fst (allow l ip u t))" by (rule limits_ok_allow)
  then show ?thesis using limits_ok_fail by (cases "allow l ip u t") (simp add: Wrong)
next
  case (Right ip u t)
  assume "limits_ok l"
  then have "limits_ok (fst (allow l ip u t))" by (rule limits_ok_allow)
  then show ?thesis using limits_ok_success by (cases "allow l ip u t") (simp add: Right)
qed (simp add: limits_ok_gc)

lemma reachable_limits:
  assumes "limiter_reachable l"
  shows "limits_ok l \<and> ll_maxFail l = 8 \<and> ll_window l = 5 * minute \<and> ll_blockFor l = 2 * minute"
  using assms
proof induction
  case start
  then show ?case by (simp add: limits_ok_def buckets_ok_def newLoginLimiter_def)
next
  case (step l ev)
  then show ?case using limits_ok_step step_limits by simp
qed

section \<open>How many passwords can be tried\<close>

text \<open>
  The tries an attacker has used up, seen from a counter at a time when a span of length \<open>D\<close> that
  began at \<open>t0\<close> is running. A counter that has not been restarted in the span stands for its
  failures, a restarted one for those and a full round before; a blocked one for two full rounds.
\<close>
definition spent :: "loginLimiter \<Rightarrow> time \<Rightarrow> duration \<Rightarrow> loginBucket option \<Rightarrow> int" where
  "spent l t0 D b = (case b of
       None \<Rightarrow> ll_maxFail l - 1
     | Some b \<Rightarrow> if lb_blocked b \<ge> t0 + D then 2 * ll_maxFail l - 1
         else if lb_windowAt b < t0 then lb_fails b else ll_maxFail l - 1 + lb_fails b)"

definition span_ok :: "loginLimiter \<Rightarrow> duration \<Rightarrow> bool" where
  "span_ok l D \<longleftrightarrow> D \<le> ll_window l \<and> D \<le> ll_blockFor l \<and> 0 < ll_maxFail l"

lemma spent_allow:
  assumes "span_ok l D" "t0 \<le> t" "t < t0 + D" "buckets_ok l m"
  shows "spent l t0 D (m k) \<le> spent l t0 D (fst (allowBucket l m key t) k)"
  using assms by (auto simp: span_ok_def spent_def allowBucket_def buckets_ok_def split: option.splits)

lemma spent_prune:
  assumes "span_ok l D" "t0 \<le> t" "t < t0 + D" "buckets_ok l m" "0 \<le> D"
  shows "spent l t0 D (m k) \<le> spent l t0 D (prune l t m k)"
proof (cases "m k")
  case (Some b)
  have "lb_fails b \<le> ll_maxFail l - 1" using assms(4) Some by (auto simp: buckets_ok_def)
  then show ?thesis using assms Some by (auto simp: span_ok_def spent_def prune_def prunable_def)
qed (simp add: prune_def)

text \<open>A failure that was let through uses up at least one try; it was not let through a block.\<close>
lemma spent_fail:
  assumes "span_ok l D" "t0 \<le> t" "t < t0 + D" "buckets_ok l m" "key \<noteq> []" "snd (allowBucket l m key t)" "0 \<le> D"
  shows "spent l t0 D (m key) + 1 \<le> spent l t0 D (failBucket l (fst (allowBucket l m key t)) key t key)"
proof (cases "m key")
  case None
  then show ?thesis using assms by (simp add: span_ok_def spent_def allowBucket_def failBucket_def Let_def)
next
  case (Some b)
  have nb: "lb_blocked b \<le> t" using assms(5,6) Some by (auto simp: allowBucket_def split: if_splits)
  have f: "0 \<le> lb_fails b" "lb_fails b \<le> ll_maxFail l - 1" using assms(4) Some by (auto simp: buckets_ok_def)
  show ?thesis
  proof (cases "t - lb_windowAt b > ll_window l")
    case True
    then have "lb_windowAt b < t0" using assms(1,3) by (simp add: span_ok_def)
    with True Some nb f assms show ?thesis
      by (auto simp: span_ok_def spent_def allowBucket_def failBucket_def Let_def)
  next
    case False
    with Some nb f assms show ?thesis
      by (auto simp: span_ok_def spent_def allowBucket_def failBucket_def Let_def)
  qed
qed

lemma spent_fail_other:
  assumes "span_ok l D" "t0 \<le> t" "t < t0 + D" "buckets_ok l m" "key \<noteq> k"
  shows "failBucket l m key t k = m k"
  using assms by (simp add: failBucket_def Let_def)

lemma spent_bounds:
  assumes "0 < ll_maxFail l" "buckets_ok l m"
  shows "0 \<le> spent l t0 D (m k)" "spent l t0 D (m k) \<le> 2 * ll_maxFail l - 1"
  using assms by (force simp: spent_def buckets_ok_def split: option.split)+

text \<open>
  A counter that bounds one kind of attempt: inside a span, each attempt of that kind that is let
  through uses up a try, no other event gives one back, and there are two rounds of tries in all.
\<close>
locale counted =
  fixes counter :: "loginLimiter \<Rightarrow> loginBucket option" and kind cleared :: "login_event \<Rightarrow> bool"
  assumes counter_step: "limits_ok l \<Longrightarrow> span_ok l D \<Longrightarrow> 0 \<le> D \<Longrightarrow> t0 \<le> event_time ev \<Longrightarrow> event_time ev < t0 + D \<Longrightarrow>
      \<not> cleared ev \<Longrightarrow> login_step l ev = (l1, ok) \<Longrightarrow>
      spent l t0 D (counter l) + (if ok \<and> kind ev then 1 else 0) \<le> spent l t0 D (counter l1)"
    and counter_bound: "limits_ok l \<Longrightarrow> 0 \<le> spent l t0 D (counter l) \<and> spent l t0 D (counter l) \<le> 2 * ll_maxFail l - 1"
begin

lemma looked_at_spent:
  assumes "limits_ok l" "span_ok l D" "0 \<le> D"
    "\<forall>ev\<in>set evs. t0 \<le> event_time ev \<and> event_time ev < t0 + D \<and> \<not> cleared ev"
  shows "spent l t0 D (counter l) + int (looked_at kind l evs) \<le> 2 * ll_maxFail l - 1"
  using assms
proof (induction evs arbitrary: l)
  case Nil
  then show ?case using counter_bound by simp
next
  case (Cons ev evs)
  obtain l1 ok where st: "login_step l ev = (l1, ok)" by fastforce
  have lim: "ll_maxFail l1 = ll_maxFail l" "ll_window l1 = ll_window l" "ll_blockFor l1 = ll_blockFor l"
    using step_limits [of l ev] st by simp_all
  have sp: "spent l1 t0 D b = spent l t0 D b" for b by (simp add: spent_def lim split: option.split)
  have "limits_ok l1" using limits_ok_step [of l ev] Cons.prems(1) st by simp
  moreover have "span_ok l1 D" using Cons.prems(2) by (simp add: span_ok_def lim)
  ultimately have "spent l t0 D (counter l1) + int (looked_at kind l1 evs) \<le> 2 * ll_maxFail l - 1"
    using Cons.IH [of l1] Cons.prems(3,4) by (simp add: sp lim)
  moreover have "spent l t0 D (counter l) + (if ok \<and> kind ev then 1 else 0) \<le> spent l t0 D (counter l1)"
    using counter_step [of l D t0 ev l1 ok] Cons.prems st by simp
  ultimately show ?case by (auto simp: st split: if_splits)
qed

lemma looked_at_bound:
  assumes "limits_ok l" "span_ok l D" "0 \<le> D"
    "\<forall>ev\<in>set evs. t0 \<le> event_time ev \<and> event_time ev < t0 + D \<and> \<not> cleared ev"
  shows "int (looked_at kind l evs) \<le> 2 * ll_maxFail l - 1"
  using looked_at_spent [OF assms] counter_bound [OF assms(1), of t0 D] by linarith

end

text \<open>Both counters of the limiter are such counters.\<close>
lemma allow_parts:
  assumes "allow l ip u t = (l1, ok)"
  shows "ll_byIP l1 = fst (allowBucket l (ll_byIP l) ip t)"
    "ll_byUser l1 = (if snd (allowBucket l (ll_byIP l) ip t) then fst (allowBucket l (ll_byUser l) (ToLower u) t) else ll_byUser l)"
    "ok = (snd (allowBucket l (ll_byIP l) ip t) \<and> snd (allowBucket l (ll_byUser l) (ToLower u) t))"
    "ll_maxFail l1 = ll_maxFail l" "ll_window l1 = ll_window l" "ll_blockFor l1 = ll_blockFor l"
  using assms by (auto simp: allow_def split: prod.splits bool.splits)

lemma failBucket_limits:
  "ll_maxFail l1 = ll_maxFail l \<Longrightarrow> ll_window l1 = ll_window l \<Longrightarrow> ll_blockFor l1 = ll_blockFor l \<Longrightarrow>
     failBucket l1 m key t = failBucket l m key t"
  by (simp add: failBucket_def Let_def)

lemma allow_ok_buckets:
  assumes "limits_ok l"
  shows "buckets_ok l (fst (allowBucket l (ll_byIP l) ip t))" "buckets_ok l (fst (allowBucket l (ll_byUser l) u t))"
  using assms allowBucket_ok by (auto simp: limits_ok_def)

lemma step_byIP:
  assumes "limits_ok l" "span_ok l D" "0 \<le> D" "t0 \<le> event_time ev" "event_time ev < t0 + D"
    "\<not> right_from k ev" "login_step l ev = (l1, ok)" "k \<noteq> []"
  shows "spent l t0 D (ll_byIP l k) + (if ok \<and> wrong_from k ev then 1 else 0) \<le> spent l t0 D (ll_byIP l1 k)"
proof (cases ev)
  case (Wrong ip u t)
  obtain l2 r where al: "allow l ip u t = (l2, r)" by fastforce
  note p = allow_parts [OF al]
  have t: "t0 \<le> t" "t < t0 + D" using assms(4,5) Wrong by auto
  have ok: "buckets_ok l (ll_byIP l)" using assms(1) by (simp add: limits_ok_def)
  have mono: "spent l t0 D (ll_byIP l k) \<le> spent l t0 D (fst (allowBucket l (ll_byIP l) ip t) k)"
    using spent_allow [OF assms(2) t ok] .
  show ?thesis
  proof (cases r)
    case False
    then show ?thesis using assms(7) al mono p(1) by (simp add: Wrong)
  next
    case True
    then have l1: "l1 = fail l2 ip u t" "ok" using assms(7) al by (auto simp: Wrong)
    then have b: "ll_byIP l1 k = failBucket l (fst (allowBucket l (ll_byIP l) ip t)) ip t k"
      by (simp add: fail_def p failBucket_limits [of l2 l])
    show ?thesis
    proof (cases "ip = k")
      case True
      then show ?thesis
        using spent_fail [OF assms(2) t ok, of k] assms(3,8) p(3) \<open>r\<close> b l1(2) by (simp add: Wrong)
    next
      case False
      then show ?thesis
        using spent_fail_other [OF assms(2) t allow_ok_buckets(1) [OF assms(1)] False] b mono by (simp add: Wrong)
    qed
  qed
next
  case (Right ip u t)
  obtain l2 r where al: "allow l ip u t = (l2, r)" by fastforce
  note p = allow_parts [OF al]
  have t: "t0 \<le> t" "t < t0 + D" using assms(4,5) Right by auto
  have ok: "buckets_ok l (ll_byIP l)" using assms(1) by (simp add: limits_ok_def)
  have "ll_byIP l1 k = fst (allowBucket l (ll_byIP l) ip t) k"
    using assms(6,7) al p(1) by (auto simp: Right success_def split: if_splits)
  then show ?thesis using spent_allow [OF assms(2) t ok, of k ip] by (simp add: Right)
next
  case (Collect t)
  then show ?thesis
    using spent_prune [OF assms(2), of t0 t "ll_byIP l" k] assms by (auto simp: limits_ok_def gc_def)
qed

lemma step_byUser:
  assumes "limits_ok l" "span_ok l D" "0 \<le> D" "t0 \<le> event_time ev" "event_time ev < t0 + D"
    "\<not> right_for k ev" "login_step l ev = (l1, ok)" "k \<noteq> []"
  shows "spent l t0 D (ll_byUser l k) + (if ok \<and> wrong_for k ev then 1 else 0) \<le> spent l t0 D (ll_byUser l1 k)"
proof -
  have ok: "buckets_ok l (ll_byUser l)" using assms(1) by (simp add: limits_ok_def)
  have mono: "spent l t0 D (ll_byUser l k) \<le> spent l t0 D (ll_byUser l2 k)"
    if "allow l ip u t = (l2, r)" "t0 \<le> t" "t < t0 + D" for ip u t l2 r
    using allow_parts(2) [OF that(1)] spent_allow [OF assms(2) that(2,3) ok] by simp
  show ?thesis
  proof (cases ev)
    case (Wrong ip u t)
    obtain l2 r where al: "allow l ip u t = (l2, r)" by fastforce
    note p = allow_parts [OF al]
    have t: "t0 \<le> t" "t < t0 + D" using assms(4,5) Wrong by auto
    show ?thesis
    proof (cases r)
      case False
      then show ?thesis using assms(7) al mono [OF al t] by (simp add: Wrong)
    next
      case True
      then have l1: "l1 = fail l2 ip u t" "ok" using assms(7) al by (auto simp: Wrong)
      have snd: "snd (allowBucket l (ll_byIP l) ip t)" "snd (allowBucket l (ll_byUser l) (ToLower u) t)" using True p(3) by auto
      then have b: "ll_byUser l1 k = failBucket l (fst (allowBucket l (ll_byUser l) (ToLower u) t)) (ToLower u) t k"
        by (simp add: l1 fail_def p failBucket_limits [of l2 l])
      show ?thesis
      proof (cases "ToLower u = k")
        case True
        then show ?thesis
          using spent_fail [OF assms(2) t ok, of k] assms(3,8) snd(2) b l1(2) by (simp add: Wrong)
      next
        case False
        then show ?thesis
          using spent_fail_other [OF assms(2) t allow_ok_buckets(2) [OF assms(1)] False] b mono [OF al t] snd p(2) by (simp add: Wrong)
      qed
    qed
  next
    case (Right ip u t)
    obtain l2 r where al: "allow l ip u t = (l2, r)" by fastforce
    have t: "t0 \<le> t" "t < t0 + D" using assms(4,5) Right by auto
    have "ll_byUser l1 k = ll_byUser l2 k"
      using assms(6,7) al by (auto simp: Right success_def split: if_splits)
    then show ?thesis using mono [OF al t] by (simp add: Right)
  next
    case (Collect t)
    then show ?thesis
      using spent_prune [OF assms(2), of t0 t "ll_byUser l" k] assms ok by (auto simp: gc_def)
  qed
qed

interpretation by_address: counted "\<lambda>l. ll_byIP l (c # cs)" "wrong_from (c # cs)" "right_from (c # cs)" for c cs
proof unfold_locales
  fix l D t0 ev l1 ok
  assume a: "limits_ok l" "span_ok l D" "0 \<le> D" "t0 \<le> event_time ev" "event_time ev < t0 + D"
    "\<not> right_from (c # cs) ev" "login_step l ev = (l1, ok)"
  show "spent l t0 D (ll_byIP l (c # cs)) + (if ok \<and> wrong_from (c # cs) ev then 1 else 0) \<le> spent l t0 D (ll_byIP l1 (c # cs))"
    by (rule step_byIP [OF a]) simp
next
  fix l t0 D
  assume "limits_ok l"
  then show "0 \<le> spent l t0 D (ll_byIP l (c # cs)) \<and> spent l t0 D (ll_byIP l (c # cs)) \<le> 2 * ll_maxFail l - 1"
    using spent_bounds by (simp add: limits_ok_def)
qed

interpretation by_name: counted "\<lambda>l. ll_byUser l (c # cs)" "wrong_for (c # cs)" "right_for (c # cs)" for c cs
proof unfold_locales
  fix l D t0 ev l1 ok
  assume a: "limits_ok l" "span_ok l D" "0 \<le> D" "t0 \<le> event_time ev" "event_time ev < t0 + D"
    "\<not> right_for (c # cs) ev" "login_step l ev = (l1, ok)"
  show "spent l t0 D (ll_byUser l (c # cs)) + (if ok \<and> wrong_for (c # cs) ev then 1 else 0) \<le> spent l t0 D (ll_byUser l1 (c # cs))"
    by (rule step_byUser [OF a]) simp
next
  fix l t0 D
  assume "limits_ok l"
  then show "0 \<le> spent l t0 D (ll_byUser l (c # cs)) \<and> spent l t0 D (ll_byUser l (c # cs)) \<le> 2 * ll_maxFail l - 1"
    using spent_bounds by (simp add: limits_ok_def)
qed

section \<open>Properties\<close>

lemma guesses_bounded:
  assumes "limiter_reachable l" "k \<noteq> []"
    "\<forall>ev\<in>set evs. t0 \<le> event_time ev \<and> event_time ev < t0 + 2 * minute"
  shows guesses_from_bounded: "\<not> list_ex (right_from k) evs \<Longrightarrow> looked_at (wrong_from k) l evs \<le> 15"
    and guesses_for_bounded: "\<not> list_ex (right_for k) evs \<Longrightarrow> looked_at (wrong_for k) l evs \<le> 15"
proof -
  obtain c cs where k: "k = c # cs" using assms(2) by (cases k) auto
  note r = reachable_limits [OF assms(1)]
  have sp: "span_ok l (2 * minute)" using r by (simp add: span_ok_def)
  have b: "2 * ll_maxFail l - 1 = 15" using r by simp
  show "looked_at (wrong_from k) l evs \<le> 15" if "\<not> list_ex (right_from k) evs"
    using by_address.looked_at_bound [of l "2 * minute" evs t0 c cs] r sp assms(3) that b by (auto simp: k list_ex_iff)
  show "looked_at (wrong_for k) l evs \<le> 15" if "\<not> list_ex (right_for k) evs"
    using by_name.looked_at_bound [of l "2 * minute" evs t0 c cs] r sp assms(3) that b by (auto simp: k list_ex_iff)
qed

text \<open>
  However attempts, logins of others and collections are interleaved, at most 15 wrong passwords
  are looked at within any two minutes from one address, and at most 15 for one user name, as long
  as nobody logs in from that address or with that name. (Eight failures block for two minutes, but
  a round may begin before the two minutes and be forgotten inside them.)
\<close>
theorem login_guesses_bounded:
  assumes "limiter_reachable l" "k \<noteq> []"
    "\<forall>ev\<in>set evs. t0 \<le> event_time ev \<and> event_time ev < t0 + 2 * minute"
  shows "(list_ex (right_from k) evs \<or> looked_at (wrong_from k) l evs \<le> 15) \<and>
    (list_ex (right_for k) evs \<or> looked_at (wrong_for k) l evs \<le> 15)"
  using guesses_bounded [OF assms] by blast

definition burst :: "login_event list" where
  "burst = map (\<lambda>i. Wrong ''10.0.0.9'' ''admin'' (i * 1000000000)) [1..20]"

lemma burst_looked_at: "looked_at (wrong_from ''10.0.0.9'') newLoginLimiter burst = 8"
  by code_simp

theorem login_guesses_bounded_witness:
  "looked_at (wrong_from ''10.0.0.9'') newLoginLimiter burst = 8 \<and> looked_at (wrong_for ''admin'') newLoginLimiter burst \<le> 15"
proof -
  have "\<forall>ev\<in>set burst. 0 \<le> event_time ev \<and> event_time ev < 0 + 2 * minute" by (auto simp: burst_def)
  moreover have "\<not> list_ex (right_for ''admin'') burst" by (simp add: burst_def list_ex_iff)
  ultimately show ?thesis
    using login_guesses_bounded [OF limiter_reachable.start, of "''admin''" burst 0] burst_looked_at by simp
qed

text \<open>Any attempt from an address, any attempt for a name.\<close>
fun tries_from :: "string \<Rightarrow> login_event \<Rightarrow> bool" where
  "tries_from k (Wrong ip u t) = (ip = k)"
| "tries_from k (Right ip u t) = (ip = k)"
| "tries_from k (Collect t) = False"

fun tries_for :: "string \<Rightarrow> login_event \<Rightarrow> bool" where
  "tries_for k (Wrong ip u t) = (ToLower u = k)"
| "tries_for k (Right ip u t) = (ToLower u = k)"
| "tries_for k (Collect t) = False"

lemma allowBucket_blocked:
  "m k = Some b \<Longrightarrow> t < lb_blocked b \<Longrightarrow> k \<noteq> [] \<Longrightarrow> allowBucket l m k t = (m, False)"
  by (simp add: allowBucket_def)

lemma allowBucket_other: "key \<noteq> k \<Longrightarrow> fst (allowBucket l m key t) k = m k"
  by (auto simp: allowBucket_def split: option.split)

lemma failBucket_other: "key \<noteq> k \<Longrightarrow> failBucket l m key t k = m k"
  by (simp add: failBucket_def Let_def)

lemma prune_blocked: "m k = Some b \<Longrightarrow> t < lb_blocked b \<Longrightarrow> prune l t m k = Some b"
  by (auto simp: prune_def prunable_def)

lemma blocked_step_ip:
  assumes "ll_byIP l k = Some b" "event_time ev < lb_blocked b" "k \<noteq> []" "login_step l ev = (l1, ok)"
  shows "ll_byIP l1 k = Some b \<and> \<not> (ok \<and> tries_from k ev)"
proof (cases ev)
  case (Wrong ip u t)
  obtain l2 r where al: "allow l ip u t = (l2, r)" by fastforce
  note p = allow_parts [OF al]
  show ?thesis
    using assms al p(1,3) allowBucket_blocked [of "ll_byIP l" k b t l] allowBucket_other [of ip k l "ll_byIP l" t]
    by (cases "ip = k"; cases r) (auto simp: Wrong fail_def failBucket_other)
next
  case (Right ip u t)
  obtain l2 r where al: "allow l ip u t = (l2, r)" by fastforce
  note p = allow_parts [OF al]
  show ?thesis
    using assms al p(1,3) allowBucket_blocked [of "ll_byIP l" k b t l] allowBucket_other [of ip k l "ll_byIP l" t]
    by (cases "ip = k"; cases r) (auto simp: Right success_def)
qed (use assms prune_blocked in \<open>auto simp: gc_def\<close>)

lemma blocked_step_user:
  assumes "ll_byUser l k = Some b" "event_time ev < lb_blocked b" "k \<noteq> []" "login_step l ev = (l1, ok)"
  shows "ll_byUser l1 k = Some b \<and> \<not> (ok \<and> tries_for k ev)"
proof (cases ev)
  case (Wrong ip u t)
  obtain l2 r where al: "allow l ip u t = (l2, r)" by fastforce
  note p = allow_parts [OF al]
  show ?thesis
    using assms al p(2,3) allowBucket_blocked [of "ll_byUser l" k b t l] allowBucket_other [of "ToLower u" k l "ll_byUser l" t]
    by (cases "ToLower u = k"; cases r) (auto simp: Wrong fail_def failBucket_other)
next
  case (Right ip u t)
  obtain l2 r where al: "allow l ip u t = (l2, r)" by fastforce
  note p = allow_parts [OF al]
  show ?thesis
    using assms al p(2,3) allowBucket_blocked [of "ll_byUser l" k b t l] allowBucket_other [of "ToLower u" k l "ll_byUser l" t]
    by (cases "ToLower u = k"; cases r) (auto simp: Right success_def)
qed (use assms prune_blocked in \<open>auto simp: gc_def\<close>)

lemma looked_at_none:
  assumes "P l" "\<And>l ev l1 ok. P l \<Longrightarrow> ev \<in> set evs \<Longrightarrow> login_step l ev = (l1, ok) \<Longrightarrow> P l1 \<and> \<not> (ok \<and> kind ev)"
  shows "looked_at kind l evs = 0"
  using assms
proof (induction evs arbitrary: l)
  case (Cons ev evs)
  obtain l1 ok where st: "login_step l ev = (l1, ok)" by fastforce
  have "P l1" "\<not> (ok \<and> kind ev)" using Cons.prems(2) [OF Cons.prems(1) _ st] by auto
  moreover have "looked_at kind l1 evs = 0"
    by (rule Cons.IH [OF \<open>P l1\<close>]) (rule Cons.prems(2), assumption, simp)
  ultimately show ?case using st by auto
qed simp

text \<open>
  A pause cannot be cut short: while an address or a user name is blocked, no password from that
  address or for that name is looked at, right or wrong, whatever else happens and however often
  old counters are collected.
\<close>
theorem login_block_holds:
  assumes "k \<noteq> []" "\<forall>ev\<in>set evs. event_time ev < lb_blocked b"
  shows "(ll_byIP l k = Some b \<longrightarrow> looked_at (tries_from k) l evs = 0) \<and>
    (ll_byUser l k = Some b \<longrightarrow> looked_at (tries_for k) l evs = 0)"
proof (intro conjI impI)
  assume "ll_byIP l k = Some b"
  then show "looked_at (tries_from k) l evs = 0"
    by (rule looked_at_none [where P = "\<lambda>l. ll_byIP l k = Some b"]) (use assms blocked_step_ip in blast)
next
  assume "ll_byUser l k = Some b"
  then show "looked_at (tries_for k) l evs = 0"
    by (rule looked_at_none [where P = "\<lambda>l. ll_byUser l k = Some b"]) (use assms blocked_step_user in blast)
qed

definition blocked_limiter :: loginLimiter where
  "blocked_limiter = newLoginLimiter\<lparr>ll_byUser := [''admin'' \<mapsto> \<lparr>lb_fails = 0, lb_blocked = 2 * minute, lb_windowAt = 0\<rparr>]\<rparr>"

theorem login_block_holds_witness:
  "looked_at (tries_for ''admin'') blocked_limiter [Wrong ''10.0.0.9'' ''Admin'' 5, Collect 6, Right ''10.0.0.7'' ''admin'' (minute)] = 0"
proof -
  have "ll_byUser blocked_limiter ''admin'' = Some \<lparr>lb_fails = 0, lb_blocked = 2 * minute, lb_windowAt = 0\<rparr>"
    by (simp add: blocked_limiter_def)
  then show ?thesis
    using login_block_holds [of "''admin''" "[Wrong ''10.0.0.9'' ''Admin'' 5, Collect 6, Right ''10.0.0.7'' ''admin'' (minute)]"
      "\<lparr>lb_fails = 0, lb_blocked = 2 * minute, lb_windowAt = 0\<rparr>" blocked_limiter]
    by (simp del: looked_at.simps)
qed

text \<open>
  The bound holds for attempts that are checked one after the other. The handlers release the lock
  between \<open>allow\<close> and \<open>fail\<close>, while the password is compared: any number of requests that arrive
  together pass \<open>allow\<close> before the first failure is recorded.
\<close>
lemma parallel_requests_pass:
  "((\<lambda>l. fst (allow l ip u t)) ^^ n) newLoginLimiter = newLoginLimiter \<and> snd (allow newLoginLimiter ip u t)"
proof -
  have "allow newLoginLimiter ip u t = (newLoginLimiter, True)"
    by (simp add: allow_def allowBucket_def newLoginLimiter_def)
  then show ?thesis by (induction n) simp_all
qed

end
