(* ===== verification/Access_Control.thy ===== *)
theory Access_Control
  imports Login_Limit
begin

text \<open>
  Who may use the server (\<open>internal/api/auth.go\<close>, \<open>rbac.go\<close>, \<open>sse_ticket.go\<close>, \<open>sse.go\<close>, \<open>users.go\<close>;
  \<open>internal/store/auth_security.go\<close>, \<open>users_audit.go\<close>): users and their roles, login with the limiter,
  refresh sessions with rotation and detection of reuse, one-time tickets for the event stream, and
  the two middlewares in front of every route.

  The tables \<open>users\<close> and \<open>auth_sessions\<close> are lists of rows; a statement is the function the SQL text
  describes, with the uniqueness and foreign-key constraints of the migrations. \<open>db_up\<close> is whether the
  database answers. bcrypt, SHA-256, the JWT library and the source of random tokens are
  arguments.
\<close>

section \<open>Users\<close>

abbreviation RoleAdmin :: string where "RoleAdmin \<equiv> ''admin''"
abbreviation RoleOperator :: string where "RoleOperator \<equiv> ''operator''"
abbreviation RoleViewer :: string where "RoleViewer \<equiv> ''viewer''"

record AuthUser =
  au_ID :: int
  au_Username :: string
  au_PasswordHash :: string
  au_Role :: string
  au_IsActive :: bool

record AuthSession =
  as_ID :: int
  as_UserID :: int
  as_FamilyID :: string
  as_RefreshHash :: string
  as_ExpiresAt :: time
  as_RevokedAt :: "time option"

record auth_db =
  db_up :: bool
  db_users :: "AuthUser list"
  db_nextUser :: int
  db_sessions :: "AuthSession list"
  db_nextSession :: int

datatype store_error = DBError | AuthUserNotFound | AuthSessionNotFound | AuthTokenReuse | AuthSessionExpired
  | LastAdmin | BadRole | MissingCredentials | HashError | Conflict

definition validRole :: "string \<Rightarrow> bool" where
  "validRole role \<longleftrightarrow> TrimSpace role \<in> {RoleAdmin, RoleOperator, RoleViewer}"

definition GetAuthUserByUsername :: "auth_db \<Rightarrow> string \<Rightarrow> store_error + AuthUser" where
  "GetAuthUserByUsername db username =
     (if \<not> db_up db then Inl DBError
      else case find (\<lambda>u. au_Username u = TrimSpace username) (db_users db) of
        None \<Rightarrow> Inl AuthUserNotFound | Some u \<Rightarrow> Inr u)"

definition GetAuthUserByID :: "auth_db \<Rightarrow> int \<Rightarrow> store_error + AuthUser" where
  "GetAuthUserByID db i =
     (if \<not> db_up db then Inl DBError
      else case find (\<lambda>u. au_ID u = i) (db_users db) of None \<Rightarrow> Inl AuthUserNotFound | Some u \<Rightarrow> Inr u)"

definition insert_user :: "auth_db \<Rightarrow> string \<Rightarrow> string \<Rightarrow> string \<Rightarrow> auth_db \<times> AuthUser" where
  "insert_user db username hash role =
     (let u = \<lparr>au_ID = db_nextUser db, au_Username = username, au_PasswordHash = hash, au_Role = role, au_IsActive = True\<rparr>
      in (db\<lparr>db_users := db_users db @ [u], db_nextUser := db_nextUser db + 1\<rparr>, u))"

text \<open>\<open>hash\<close> is \<open>bcrypt.GenerateFromPassword\<close>.\<close>
definition EnsureAdminUser :: "(string \<Rightarrow> string option) \<Rightarrow> auth_db \<Rightarrow> string \<Rightarrow> string \<Rightarrow> store_error option \<times> auth_db" where
  "EnsureAdminUser hash db username0 password0 =
     (let username = TrimSpace username0; password = TrimSpace password0 in
      if username = [] \<or> password = [] then (None, db)
      else case hash password of
        None \<Rightarrow> (Some HashError, db)
      | Some h \<Rightarrow>
          if \<not> db_up db then (Some DBError, db)
          else if list_ex (\<lambda>u. au_Username u = username) (db_users db) then (None, db)
          else (None, fst (insert_user db username h RoleAdmin)))"

definition CreateAuthUser :: "(string \<Rightarrow> string option) \<Rightarrow> auth_db \<Rightarrow> string \<Rightarrow> string \<Rightarrow> string \<Rightarrow> (store_error + AuthUser) \<times> auth_db" where
  "CreateAuthUser hash db username0 password role0 =
     (let username = TrimSpace username0; role = TrimSpace role0 in
      if username = [] \<or> password = [] then (Inl MissingCredentials, db)
      else if \<not> validRole role then (Inl BadRole, db)
      else case hash password of
        None \<Rightarrow> (Inl HashError, db)
      | Some h \<Rightarrow>
          if \<not> db_up db then (Inl DBError, db)
          else if list_ex (\<lambda>u. au_Username u = username) (db_users db) then (Inl Conflict, db)
          else (case insert_user db username h role of (db', u) \<Rightarrow> (Inr u, db')))"

definition active_admin :: "AuthUser \<Rightarrow> bool" where
  "active_admin u \<longleftrightarrow> au_Role u = RoleAdmin \<and> au_IsActive u"

definition countActiveAdmins :: "auth_db \<Rightarrow> store_error + nat" where
  "countActiveAdmins db = (if \<not> db_up db then Inl DBError else Inr (length (filter active_admin (db_users db))))"

definition wouldRemoveLastAdmin :: "auth_db \<Rightarrow> AuthUser \<Rightarrow> string \<Rightarrow> bool \<Rightarrow> store_error + bool" where
  "wouldRemoveLastAdmin db cur newRole newActive =
     (if au_Role cur \<noteq> RoleAdmin \<or> \<not> au_IsActive cur then Inr False
      else if newRole = RoleAdmin \<and> newActive then Inr False
      else case countActiveAdmins db of Inl e \<Rightarrow> Inl e | Inr n \<Rightarrow> Inr (n \<le> 1))"

text \<open>
  \<open>UpdateAuthUser\<close> and \<open>DeleteAuthUser\<close> read first and write later, in separate statements. The two
  halves are separate definitions so that they can be interleaved.
\<close>
record user_change =
  uc_ID :: int
  uc_Role :: "string option"
  uc_Active :: "bool option"
  uc_Password :: "string option"

definition update_check :: "auth_db \<Rightarrow> user_change \<Rightarrow> store_error + string" where
  "update_check db c =
     (case GetAuthUserByID db (uc_ID c) of
        Inl e \<Rightarrow> Inl e
      | Inr cur \<Rightarrow>
          (case (case uc_Role c of
                   None \<Rightarrow> Inr (au_Role cur)
                 | Some r \<Rightarrow> if validRole (TrimSpace r) then Inr (TrimSpace r) else Inl BadRole) of
             Inl e \<Rightarrow> Inl e
           | Inr newRole \<Rightarrow>
               (case wouldRemoveLastAdmin db cur newRole (case uc_Active c of None \<Rightarrow> au_IsActive cur | Some a \<Rightarrow> a) of
                  Inl e \<Rightarrow> Inl e
                | Inr True \<Rightarrow> Inl LastAdmin
                | Inr False \<Rightarrow> Inr newRole)))"

definition update_row :: "user_change \<Rightarrow> string \<Rightarrow> string option \<Rightarrow> AuthUser \<Rightarrow> AuthUser" where
  "update_row c newRole h u =
     u\<lparr>au_Role := (if uc_Role c = None then au_Role u else newRole),
       au_IsActive := (case uc_Active c of None \<Rightarrow> au_IsActive u | Some a \<Rightarrow> a),
       au_PasswordHash := (case h of None \<Rightarrow> au_PasswordHash u | Some h' \<Rightarrow> h')\<rparr>"

definition update_write :: "(string \<Rightarrow> string option) \<Rightarrow> auth_db \<Rightarrow> user_change \<Rightarrow> string \<Rightarrow> store_error option \<times> auth_db" where
  "update_write hash db c newRole =
     (case (case uc_Password c of
              None \<Rightarrow> Inr None
            | Some p \<Rightarrow> if TrimSpace p = [] then Inr None else (case hash p of None \<Rightarrow> Inl HashError | Some h \<Rightarrow> Inr (Some h))) of
        Inl e \<Rightarrow> (Some e, db)
      | Inr h \<Rightarrow>
          if \<not> db_up db then (Some DBError, db)
          else if \<not> list_ex (\<lambda>u. au_ID u = uc_ID c) (db_users db) then (Some AuthUserNotFound, db)
          else (None, db\<lparr>db_users := map (\<lambda>u. if au_ID u = uc_ID c then update_row c newRole h u else u) (db_users db)\<rparr>))"

definition UpdateAuthUser :: "(string \<Rightarrow> string option) \<Rightarrow> auth_db \<Rightarrow> user_change \<Rightarrow> store_error option \<times> auth_db" where
  "UpdateAuthUser hash db c =
     (case update_check db c of Inl e \<Rightarrow> (Some e, db) | Inr newRole \<Rightarrow> update_write hash db c newRole)"

definition delete_check :: "auth_db \<Rightarrow> int \<Rightarrow> store_error option" where
  "delete_check db i =
     (case GetAuthUserByID db i of
        Inl e \<Rightarrow> Some e
      | Inr cur \<Rightarrow>
          (case wouldRemoveLastAdmin db cur [] False of
             Inl e \<Rightarrow> Some e | Inr True \<Rightarrow> Some LastAdmin | Inr False \<Rightarrow> None))"

text \<open>The sessions of the user go with it (\<open>ON DELETE CASCADE\<close>).\<close>
definition delete_write :: "auth_db \<Rightarrow> int \<Rightarrow> store_error option \<times> auth_db" where
  "delete_write db i =
     (if \<not> db_up db then (Some DBError, db)
      else if \<not> list_ex (\<lambda>u. au_ID u = i) (db_users db) then (Some AuthUserNotFound, db)
      else (None, db\<lparr>db_users := filter (\<lambda>u. au_ID u \<noteq> i) (db_users db),
                     db_sessions := filter (\<lambda>s. as_UserID s \<noteq> i) (db_sessions db)\<rparr>))"

definition DeleteAuthUser :: "auth_db \<Rightarrow> int \<Rightarrow> store_error option \<times> auth_db" where
  "DeleteAuthUser db i = (case delete_check db i of Some e \<Rightarrow> (Some e, db) | None \<Rightarrow> delete_write db i)"

section \<open>Refresh sessions\<close>

definition insert_session :: "auth_db \<Rightarrow> int \<Rightarrow> string \<Rightarrow> string \<Rightarrow> time \<Rightarrow> auth_db" where
  "insert_session db uid fid hash exp =
     db\<lparr>db_sessions := db_sessions db @ [\<lparr>as_ID = db_nextSession db, as_UserID = uid, as_FamilyID = fid,
          as_RefreshHash = hash, as_ExpiresAt = exp, as_RevokedAt = None\<rparr>],
        db_nextSession := db_nextSession db + 1\<rparr>"

text \<open>The row can be inserted: the hash is new and the user exists.\<close>
definition can_insert :: "auth_db \<Rightarrow> int \<Rightarrow> string \<Rightarrow> bool" where
  "can_insert db uid hash \<longleftrightarrow> \<not> list_ex (\<lambda>s. as_RefreshHash s = hash) (db_sessions db) \<and> list_ex (\<lambda>u. au_ID u = uid) (db_users db)"

text \<open>\<open>fid\<close> is the value of \<open>gen_random_uuid()\<close>.\<close>
definition CreateAuthSession :: "auth_db \<Rightarrow> int \<Rightarrow> string \<Rightarrow> time \<Rightarrow> string \<Rightarrow> (store_error + string) \<times> auth_db" where
  "CreateAuthSession db uid hash exp fid =
     (if \<not> db_up db then (Inl DBError, db)
      else if \<not> can_insert db uid hash then (Inl Conflict, db)
      else (Inr fid, insert_session db uid fid hash exp))"

definition GetAuthSessionByHash :: "auth_db \<Rightarrow> string \<Rightarrow> store_error + AuthSession" where
  "GetAuthSessionByHash db hash =
     (if \<not> db_up db then Inl DBError
      else case find (\<lambda>s. as_RefreshHash s = hash) (db_sessions db) of None \<Rightarrow> Inl AuthSessionNotFound | Some s \<Rightarrow> Inr s)"

text \<open>\<open>UPDATE auth_sessions SET revoked_at = now() WHERE \<dots> AND revoked_at IS NULL\<close>\<close>
definition revoke_where :: "(AuthSession \<Rightarrow> bool) \<Rightarrow> time \<Rightarrow> auth_db \<Rightarrow> auth_db" where
  "revoke_where P now db =
     db\<lparr>db_sessions := map (\<lambda>s. if P s \<and> as_RevokedAt s = None then s\<lparr>as_RevokedAt := Some now\<rparr> else s) (db_sessions db)\<rparr>"

definition RevokeAuthSessionByHash :: "auth_db \<Rightarrow> string \<Rightarrow> time \<Rightarrow> store_error option \<times> auth_db" where
  "RevokeAuthSessionByHash db hash now =
     (if \<not> db_up db then (Some DBError, db) else (None, revoke_where (\<lambda>s. as_RefreshHash s = hash) now db))"

definition RevokeAuthSessionFamily :: "auth_db \<Rightarrow> string \<Rightarrow> time \<Rightarrow> store_error option \<times> auth_db" where
  "RevokeAuthSessionFamily db fid now =
     (if \<not> db_up db then (Some DBError, db) else (None, revoke_where (\<lambda>s. as_FamilyID s = fid) now db))"

text \<open>The transaction that replaces a refresh token; a statement that fails rolls it back.\<close>
definition RotateAuthSession :: "auth_db \<Rightarrow> string \<Rightarrow> string \<Rightarrow> time \<Rightarrow> time \<Rightarrow> (store_error + int \<times> string) \<times> auth_db" where
  "RotateAuthSession db oldHash newHash newExpiresAt now =
     (case GetAuthSessionByHash db oldHash of
        Inl e \<Rightarrow> (Inl e, db)
      | Inr s \<Rightarrow>
          if as_RevokedAt s \<noteq> None
          then (Inl AuthTokenReuse, revoke_where (\<lambda>r. as_FamilyID r = as_FamilyID s) now db)
          else if now > as_ExpiresAt s then (Inl AuthSessionExpired, db)
          else let db1 = revoke_where (\<lambda>r. as_ID r = as_ID s) now db in
            if \<not> can_insert db1 (as_UserID s) newHash then (Inl Conflict, db)
            else (Inr (as_UserID s, as_FamilyID s), insert_session db1 (as_UserID s) (as_FamilyID s) newHash newExpiresAt))"

section \<open>There is always an administrator\<close>

definition users_ok :: "auth_db \<Rightarrow> bool" where
  "users_ok db \<longleftrightarrow> distinct (map au_ID (db_users db)) \<and> distinct (map au_Username (db_users db)) \<and>
     (\<forall>u\<in>set (db_users db). au_ID u < db_nextUser db \<and> validRole (au_Role u))"

definition has_admin :: "auth_db \<Rightarrow> bool" where
  "has_admin db \<longleftrightarrow> list_ex active_admin (db_users db)"

lemma find_userD: "find P us = Some u \<Longrightarrow> u \<in> set us \<and> P u"
  by (induction us) (auto split: if_splits)

lemma GetAuthUserByID_Inr: "GetAuthUserByID db i = Inr u \<Longrightarrow> u \<in> set (db_users db) \<and> au_ID u = i"
  by (auto simp: GetAuthUserByID_def dest: find_userD split: if_splits option.splits)

text \<open>When another active administrator exists, the count finds at least two; so a count of one means there is none.\<close>
lemma other_admin:
  assumes "distinct (map au_ID us)" "cur \<in> set us" "1 < length (filter active_admin us)"
  obtains v where "v \<in> set us" "active_admin v" "au_ID v \<noteq> au_ID cur"
proof -
  have "\<exists>v\<in>set (filter active_admin us). v \<noteq> cur"
  proof (rule ccontr)
    assume "\<not> ?thesis"
    then have sub: "set (filter active_admin us) \<subseteq> {cur}" by auto
    have "distinct (filter active_admin us)" using assms(1) by (simp add: distinct_map)
    then have "length (filter active_admin us) = card (set (filter active_admin us))" by (simp only: distinct_card)
    also have "\<dots> \<le> card {cur}" using sub by (intro card_mono) auto
    finally show False using assms(3) by simp
  qed
  then obtain v where v: "v \<in> set us" "active_admin v" "v \<noteq> cur" by auto
  then have "au_ID v \<noteq> au_ID cur" using assms(1,2) by (auto simp: distinct_map inj_on_def)
  with v that show ?thesis by blast
qed

lemma wouldRemove_False:
  assumes "wouldRemoveLastAdmin db cur r a = Inr False" "has_admin db" "users_ok db" "cur \<in> set (db_users db)"
  shows "(active_admin cur \<and> r = RoleAdmin \<and> a) \<or>
    (\<exists>v\<in>set (db_users db). active_admin v \<and> au_ID v \<noteq> au_ID cur)"
proof (cases "active_admin cur")
  case True
  show ?thesis
  proof (cases "r = RoleAdmin \<and> a")
    case False
    then have "1 < length (filter active_admin (db_users db))"
      using assms(1) True by (auto simp: wouldRemoveLastAdmin_def active_admin_def countActiveAdmins_def split: if_splits)
    then show ?thesis using other_admin [of "db_users db" cur] assms(3,4) by (auto simp: users_ok_def)
  qed (use True in simp)
next
  case False
  then show ?thesis using assms(2-4)
    by (auto simp: has_admin_def list_ex_iff users_ok_def distinct_map inj_on_def)
qed

datatype user_op = EnsureAdmin string string | Create string string string | Update user_change | Delete int
  | Outage bool

fun user_op_db :: "(string \<Rightarrow> string option) \<Rightarrow> auth_db \<Rightarrow> user_op \<Rightarrow> auth_db" where
  "user_op_db hash db (EnsureAdmin u p) = snd (EnsureAdminUser hash db u p)"
| "user_op_db hash db (Create u p r) = snd (CreateAuthUser hash db u p r)"
| "user_op_db hash db (Update c) = snd (UpdateAuthUser hash db c)"
| "user_op_db hash db (Delete i) = snd (DeleteAuthUser db i)"
| "user_op_db hash db (Outage up) = db\<lparr>db_up := up\<rparr>"

lemma insert_user_keeps:
  assumes "users_ok db" "\<not> list_ex (\<lambda>u. au_Username u = n) (db_users db)" "validRole r"
  shows "users_ok (fst (insert_user db n h r)) \<and> (has_admin db \<longrightarrow> has_admin (fst (insert_user db n h r)))"
  using assms by (fastforce simp: insert_user_def users_ok_def has_admin_def list_ex_iff Let_def)

lemma validRole_admin [simp]: "validRole RoleAdmin"
proof -
  have "TrimSpace RoleAdmin = RoleAdmin" by code_simp
  then show ?thesis by (simp add: validRole_def)
qed

lemma EnsureAdminUser_keeps:
  "users_ok db \<Longrightarrow> users_ok (snd (EnsureAdminUser hash db u p)) \<and> (has_admin db \<longrightarrow> has_admin (snd (EnsureAdminUser hash db u p)))"
  using insert_user_keeps [OF _ _ validRole_admin, of db "TrimSpace u"]
  by (auto simp: EnsureAdminUser_def Let_def split: option.split)

lemma CreateAuthUser_keeps:
  "users_ok db \<Longrightarrow> users_ok (snd (CreateAuthUser hash db u p r)) \<and> (has_admin db \<longrightarrow> has_admin (snd (CreateAuthUser hash db u p r)))"
  using insert_user_keeps [of db "TrimSpace u" "TrimSpace r"]
  by (auto simp: CreateAuthUser_def Let_def case_prod_beta split: option.split)

lemma map_update_row_keys [simp]:
  "map au_ID (map (\<lambda>u. if P u then update_row c r h u else u) us) = map au_ID us"
  "map au_Username (map (\<lambda>u. if P u then update_row c r h u else u) us) = map au_Username us"
  by (auto simp: update_row_def)

lemma update_check_Inr:
  assumes "update_check db c = Inr r"
  obtains cur where "GetAuthUserByID db (uc_ID c) = Inr cur"
    "uc_Role c = None \<Longrightarrow> r = au_Role cur" "uc_Role c \<noteq> None \<Longrightarrow> validRole r"
    "wouldRemoveLastAdmin db cur r (case uc_Active c of None \<Rightarrow> au_IsActive cur | Some a \<Rightarrow> a) = Inr False"
  using assms that
  by (auto simp: update_check_def split: sum.splits option.splits if_splits bool.splits)

lemma UpdateAuthUser_keeps:
  assumes ok: "users_ok db"
  shows "users_ok (snd (UpdateAuthUser hash db c)) \<and> (has_admin db \<longrightarrow> has_admin (snd (UpdateAuthUser hash db c)))"
proof (cases "fst (UpdateAuthUser hash db c)")
  case (Some e)
  then have "snd (UpdateAuthUser hash db c) = db"
    by (auto simp: UpdateAuthUser_def update_write_def split: sum.splits option.splits if_splits)
  then show ?thesis using ok by simp
next
  case None
  then obtain r h where chk: "update_check db c = Inr r" and w: "snd (UpdateAuthUser hash db c) =
      db\<lparr>db_users := map (\<lambda>u. if au_ID u = uc_ID c then update_row c r h u else u) (db_users db)\<rparr>" (is "_ = ?db")
    by (auto simp: UpdateAuthUser_def update_write_def split: sum.splits option.splits if_splits)
  obtain cur where cur: "GetAuthUserByID db (uc_ID c) = Inr cur" and r: "uc_Role c = None \<Longrightarrow> r = au_Role cur"
    "uc_Role c \<noteq> None \<Longrightarrow> validRole r"
    and rm: "wouldRemoveLastAdmin db cur r (case uc_Active c of None \<Rightarrow> au_IsActive cur | Some a \<Rightarrow> a) = Inr False"
    using update_check_Inr [OF chk] by metis
  note c = GetAuthUserByID_Inr [OF cur]
  have "users_ok ?db" using ok r(2) by (auto simp: users_ok_def comp_def update_row_def if_distrib cong: if_cong)
  moreover have "has_admin ?db" if "has_admin db"
  proof -
    from wouldRemove_False [OF rm that ok] c consider
      "active_admin cur" "r = RoleAdmin" "case uc_Active c of None \<Rightarrow> au_IsActive cur | Some a \<Rightarrow> a"
      | v where "v \<in> set (db_users db)" "active_admin v" "au_ID v \<noteq> au_ID cur" by auto
    then show ?thesis
    proof cases
      case 1
      then have "active_admin (update_row c r h cur)" by (auto simp: active_admin_def update_row_def)
      then show ?thesis using c by (auto simp: has_admin_def list_ex_iff)
    next
      case 2
      then show ?thesis using c by (auto simp: has_admin_def list_ex_iff)
    qed
  qed
  ultimately show ?thesis using w by simp
qed

lemma DeleteAuthUser_keeps:
  assumes ok: "users_ok db"
  shows "users_ok (snd (DeleteAuthUser db i)) \<and> (has_admin db \<longrightarrow> has_admin (snd (DeleteAuthUser db i)))"
proof (cases "fst (DeleteAuthUser db i)")
  case (Some e)
  then have "snd (DeleteAuthUser db i) = db"
    by (auto simp: DeleteAuthUser_def delete_write_def split: option.splits if_splits)
  then show ?thesis using ok by simp
next
  case None
  then have chk: "delete_check db i = None" and w: "snd (DeleteAuthUser db i) = snd (delete_write db i)"
    by (auto simp: DeleteAuthUser_def split: option.splits)
  obtain cur where cur: "GetAuthUserByID db i = Inr cur" and rm: "wouldRemoveLastAdmin db cur [] False = Inr False"
    using chk by (auto simp: delete_check_def split: sum.splits bool.splits)
  note c = GetAuthUserByID_Inr [OF cur]
  have "users_ok (snd (delete_write db i))"
    using ok by (auto simp: users_ok_def delete_write_def distinct_map inj_on_def)
  moreover have "has_admin (snd (delete_write db i))" if "has_admin db"
    using wouldRemove_False [OF rm that ok] c that by (auto simp: has_admin_def list_ex_iff delete_write_def)
  ultimately show ?thesis using w by simp
qed

lemma user_op_keeps:
  "users_ok db \<Longrightarrow> users_ok (user_op_db hash db op) \<and> (has_admin db \<longrightarrow> has_admin (user_op_db hash db op))"
proof (cases op)
  case (Outage up)
  assume "users_ok db"
  then show ?thesis by (simp add: Outage users_ok_def has_admin_def)
qed (use EnsureAdminUser_keeps CreateAuthUser_keeps UpdateAuthUser_keeps DeleteAuthUser_keeps in auto)

text \<open>
  C37. Whatever administrators do one request after the other (create, change, disable, delete users,
  with the database up or down in between), an active administrator remains once there is one, names
  and identifiers stay unique and every role is a valid one.
\<close>
theorem last_admin_kept:
  assumes "users_ok db" "has_admin db"
  shows "users_ok (foldl (user_op_db hash) db ops) \<and> has_admin (foldl (user_op_db hash) db ops)"
  using assms
proof (induction ops arbitrary: db)
  case (Cons op ops)
  then show ?case using user_op_keeps [of db hash op] by simp
qed simp

definition two_admins :: auth_db where
  "two_admins = \<lparr>db_up = True, db_users =
     [\<lparr>au_ID = 1, au_Username = ''admin'', au_PasswordHash = ''h1'', au_Role = RoleAdmin, au_IsActive = True\<rparr>,
      \<lparr>au_ID = 2, au_Username = ''root'', au_PasswordHash = ''h2'', au_Role = RoleAdmin, au_IsActive = True\<rparr>],
     db_nextUser = 3, db_sessions = [], db_nextSession = 1\<rparr>"

lemma two_admins_ok: "users_ok two_admins" "has_admin two_admins"
  by (simp_all add: users_ok_def two_admins_def has_admin_def active_admin_def)

theorem last_admin_kept_witness:
  "has_admin (foldl (user_op_db Some) two_admins
     [Delete 1, Delete 2, Update \<lparr>uc_ID = 2, uc_Role = Some ''viewer'', uc_Active = None, uc_Password = None\<rparr>])"
  using last_admin_kept [OF two_admins_ok] by blast

text \<open>
  The check and the write are separate statements without a transaction. Two requests that delete
  one administrator each, both checked before either writes, leave none.
\<close>
lemma last_admin_race:
  "delete_check two_admins 1 = None \<and> delete_check two_admins 2 = None \<and>
   \<not> has_admin (snd (delete_write (snd (delete_write two_admins 1)) 2))"
  by (simp add: delete_check_def delete_write_def GetAuthUserByID_def wouldRemoveLastAdmin_def countActiveAdmins_def
      two_admins_def has_admin_def active_admin_def)

section \<open>Families of refresh tokens\<close>

definition live :: "AuthSession \<Rightarrow> bool" where
  "live s \<longleftrightarrow> as_RevokedAt s = None"

text \<open>
  \<open>U\<close> holds the family identifiers handed out so far. Hashes and row identifiers are unique, a family
  belongs to one user, and at most one of its tokens is live.
\<close>
definition sessions_ok :: "auth_db \<Rightarrow> string set \<Rightarrow> bool" where
  "sessions_ok db U \<longleftrightarrow>
     distinct (map as_RefreshHash (db_sessions db)) \<and> distinct (map as_ID (db_sessions db)) \<and>
     (\<forall>s\<in>set (db_sessions db). as_ID s < db_nextSession db \<and> as_FamilyID s \<in> U) \<and>
     (\<forall>s\<in>set (db_sessions db). \<forall>r\<in>set (db_sessions db). as_FamilyID s = as_FamilyID r \<longrightarrow>
        as_UserID s = as_UserID r \<and> (live s \<and> live r \<longrightarrow> as_ID s = as_ID r))"

datatype session_op = Login int string time string | Rotate string string time time | LogoutHash string time
  | LogoutFamily string time | UserOp user_op

fun session_op_db :: "(string \<Rightarrow> string option) \<Rightarrow> auth_db \<Rightarrow> session_op \<Rightarrow> auth_db" where
  "session_op_db hash db (Login uid h e fid) = snd (CreateAuthSession db uid h e fid)"
| "session_op_db hash db (Rotate h h' e now) = snd (RotateAuthSession db h h' e now)"
| "session_op_db hash db (LogoutHash h now) = snd (RevokeAuthSessionByHash db h now)"
| "session_op_db hash db (LogoutFamily f now) = snd (RevokeAuthSessionFamily db f now)"
| "session_op_db hash db (UserOp uop) = user_op_db hash db uop"

fun op_family :: "session_op \<Rightarrow> string set" where
  "op_family (Login uid h e fid) = {fid}"
| "op_family _ = {}"

text \<open>Any sequence of operations in which a login gets a family identifier never used before.\<close>
inductive session_steps :: "(string \<Rightarrow> string option) \<Rightarrow> auth_db \<Rightarrow> string set \<Rightarrow> auth_db \<Rightarrow> string set \<Rightarrow> bool"
  for hash db U where
  start: "session_steps hash db U db U"
| step: "session_steps hash db U db1 U1 \<Longrightarrow> op_family op \<inter> U1 = {} \<Longrightarrow>
    session_steps hash db U (session_op_db hash db1 op) (U1 \<union> op_family op)"

lemma db_sessions_insert_user [simp]: "db_sessions (fst (insert_user db n h r)) = db_sessions db"
  "db_nextSession (fst (insert_user db n h r)) = db_nextSession db"
  by (simp_all add: insert_user_def Let_def)

text \<open>Of the operations on users only the deletion touches sessions.\<close>
lemma user_op_sessions:
  "\<exists>P. db_sessions (user_op_db hash db uop) = filter P (db_sessions db) \<and>
    (\<forall>s r. as_UserID s = as_UserID r \<longrightarrow> P s = P r) \<and> db_nextSession (user_op_db hash db uop) = db_nextSession db"
proof (cases uop)
  case (Delete i)
  show ?thesis
  proof (cases "fst (DeleteAuthUser db i)")
    case (Some e)
    then have "snd (DeleteAuthUser db i) = db"
      by (auto simp: DeleteAuthUser_def delete_write_def split: option.splits if_splits)
    then show ?thesis by (auto simp: Delete intro!: exI [of _ "\<lambda>_. True"])
  next
    case None
    then have "db_sessions (snd (DeleteAuthUser db i)) = filter (\<lambda>s. as_UserID s \<noteq> i) (db_sessions db) \<and>
        db_nextSession (snd (DeleteAuthUser db i)) = db_nextSession db"
      by (auto simp: DeleteAuthUser_def delete_write_def split: option.splits if_splits)
    then show ?thesis by (auto simp: Delete intro!: exI [of _ "\<lambda>s. as_UserID s \<noteq> i"])
  qed
next
  case (EnsureAdmin u p)
  then show ?thesis
    by (auto simp: EnsureAdminUser_def Let_def split: option.split intro!: exI [of _ "\<lambda>_. True"])
next
  case (Create u p r)
  then show ?thesis
    by (auto simp: CreateAuthUser_def Let_def case_prod_beta split: option.split intro!: exI [of _ "\<lambda>_. True"])
next
  case (Update c)
  then show ?thesis
    by (auto simp: UpdateAuthUser_def update_write_def split: sum.split option.split intro!: exI [of _ "\<lambda>_. True"])
next
  case (Outage up)
  then show ?thesis by (auto intro!: exI [of _ "\<lambda>_. True"])
qed

lemma sessions_ok_filter:
  "sessions_ok db U \<Longrightarrow> db_sessions db' = filter P (db_sessions db) \<Longrightarrow> db_nextSession db' = db_nextSession db \<Longrightarrow> sessions_ok db' U"
  by (auto simp: sessions_ok_def distinct_map_filter)

lemma sessions_ok_revoke: "sessions_ok db U \<Longrightarrow> sessions_ok (revoke_where P now db) U"
proof -
  assume ok: "sessions_ok db U"
  have "map as_RefreshHash (db_sessions (revoke_where P now db)) = map as_RefreshHash (db_sessions db)"
    "map as_ID (db_sessions (revoke_where P now db)) = map as_ID (db_sessions db)"
    by (auto simp: revoke_where_def)
  moreover have "s \<in> set (db_sessions (revoke_where P now db)) \<Longrightarrow> \<exists>r\<in>set (db_sessions db). as_ID s = as_ID r \<and>
      as_FamilyID s = as_FamilyID r \<and> as_UserID s = as_UserID r \<and> (live s \<longrightarrow> live r)" for s
    by (auto simp: revoke_where_def live_def split: if_splits)
  moreover have "db_nextSession (revoke_where P now db) = db_nextSession db" by (simp add: revoke_where_def)
  ultimately show ?thesis using ok unfolding sessions_ok_def by (simp only:) (metis (no_types, lifting))
qed

lemma sessions_ok_insert:
  assumes ok: "sessions_ok db U" and can: "can_insert db uid h"
    and dead: "\<And>s. s \<in> set (db_sessions db) \<Longrightarrow> as_FamilyID s = fid \<Longrightarrow> as_UserID s = uid \<and> \<not> live s"
  shows "sessions_ok (insert_session db uid fid h e) (insert fid U)"
proof -
  define n where "n = \<lparr>as_ID = db_nextSession db, as_UserID = uid, as_FamilyID = fid, as_RefreshHash = h,
    as_ExpiresAt = e, as_RevokedAt = None\<rparr>"
  have ins: "db_sessions (insert_session db uid fid h e) = db_sessions db @ [n]"
    "db_nextSession (insert_session db uid fid h e) = db_nextSession db + 1"
    by (simp_all add: insert_session_def n_def)
  have new: "as_ID n \<notin> as_ID ` set (db_sessions db)" using ok by (auto simp: sessions_ok_def n_def)
  have new': "as_RefreshHash n \<notin> as_RefreshHash ` set (db_sessions db)"
    using can by (auto simp: can_insert_def list_ex_iff n_def)
  have old: "as_ID s < db_nextSession db + 1 \<and> as_FamilyID s \<in> insert fid U" if "s \<in> set (db_sessions db)" for s
    using ok that by (fastforce simp: sessions_ok_def)
  have pair: "as_UserID s = as_UserID r \<and> (live s \<and> live r \<longrightarrow> as_ID s = as_ID r)"
    if mem: "s \<in> insert n (set (db_sessions db))" "r \<in> insert n (set (db_sessions db))" "as_FamilyID s = as_FamilyID r" for s r
  proof -
    consider "s = n" "r = n" | "s = n" "r \<in> set (db_sessions db)" | "s \<in> set (db_sessions db)" "r = n"
      | "s \<in> set (db_sessions db)" "r \<in> set (db_sessions db)" using mem by blast
    then show ?thesis
    proof cases
      case 2
      then show ?thesis using dead [of r] mem(3) by (simp add: n_def)
    next
      case 3
      then show ?thesis using dead [of s] mem(3) by (simp add: n_def)
    next
      case 4
      with ok mem(3) show ?thesis unfolding sessions_ok_def by blast
    qed simp
  qed
  have d: "distinct (map as_RefreshHash (db_sessions db))" "distinct (map as_ID (db_sessions db))"
    using ok unfolding sessions_ok_def by blast+
  show ?thesis unfolding sessions_ok_def ins
  proof (intro conjI)
    show "distinct (map as_RefreshHash (db_sessions db @ [n]))" "distinct (map as_ID (db_sessions db @ [n]))"
      using d new new' by simp_all
    show "\<forall>s\<in>set (db_sessions db @ [n]). as_ID s < db_nextSession db + 1 \<and> as_FamilyID s \<in> insert fid U"
      using old by (auto simp: n_def)
    show "\<forall>s\<in>set (db_sessions db @ [n]). \<forall>r\<in>set (db_sessions db @ [n]). as_FamilyID s = as_FamilyID r \<longrightarrow>
        as_UserID s = as_UserID r \<and> (live s \<and> live r \<longrightarrow> as_ID s = as_ID r)"
      using pair by (metis Un_insert_right empty_set list.simps(15) set_append sup_bot_right)
  qed
qed

lemma GetAuthSessionByHash_Inr: "GetAuthSessionByHash db h = Inr s \<Longrightarrow> s \<in> set (db_sessions db) \<and> as_RefreshHash s = h \<and> db_up db"
proof -
  have "find P ss = Some s \<Longrightarrow> s \<in> set ss \<and> P s" for P :: "AuthSession \<Rightarrow> bool" and ss
    by (induction ss) (auto split: if_splits)
  then show "GetAuthSessionByHash db h = Inr s \<Longrightarrow> ?thesis"
    by (auto simp: GetAuthSessionByHash_def split: if_splits option.splits)
qed

lemma revoke_sessions_mem:
  "r \<in> set (db_sessions (revoke_where P now db)) \<longleftrightarrow>
   (\<exists>s\<in>set (db_sessions db). r = (if P s \<and> live s then s\<lparr>as_RevokedAt := Some now\<rparr> else s))"
proof -
  have "db_sessions (revoke_where P now db) =
      map (\<lambda>s. if P s \<and> live s then s\<lparr>as_RevokedAt := Some now\<rparr> else s) (db_sessions db)"
    by (simp add: revoke_where_def live_def)
  then show ?thesis by (simp only: set_map image_iff)
qed

lemma Rotate_cases:
  obtains (failed) e' where "RotateAuthSession db h h' e now = (Inl e', db)" "e' \<noteq> AuthTokenReuse"
  | (reuse) s where "GetAuthSessionByHash db h = Inr s" "\<not> live s"
      "RotateAuthSession db h h' e now = (Inl AuthTokenReuse, revoke_where (\<lambda>r. as_FamilyID r = as_FamilyID s) now db)"
  | (rotated) s db1 where "GetAuthSessionByHash db h = Inr s" "live s" "now \<le> as_ExpiresAt s"
      "db1 = revoke_where (\<lambda>r. as_ID r = as_ID s) now db" "can_insert db1 (as_UserID s) h'"
      "RotateAuthSession db h h' e now = (Inr (as_UserID s, as_FamilyID s), insert_session db1 (as_UserID s) (as_FamilyID s) h' e)"
proof (cases "GetAuthSessionByHash db h")
  case (Inl a)
  then have "a \<noteq> AuthTokenReuse" by (auto simp: GetAuthSessionByHash_def split: if_splits option.splits)
  then show ?thesis using Inl by (intro that(1)) (simp_all add: RotateAuthSession_def)
next
  case (Inr s)
  define db1 where "db1 = revoke_where (\<lambda>r. as_ID r = as_ID s) now db"
  show ?thesis
  proof (cases "live s")
    case False
    then show ?thesis using Inr by (intro that(2)) (simp_all add: RotateAuthSession_def live_def)
  next
    case True
    consider "as_ExpiresAt s < now" | "now \<le> as_ExpiresAt s" "\<not> can_insert db1 (as_UserID s) h'"
      | "now \<le> as_ExpiresAt s" "can_insert db1 (as_UserID s) h'" by linarith
    then show ?thesis
    proof cases
      case 3
      show ?thesis by (rule that(3) [OF Inr True 3(1) db1_def 3(2)])
        (use Inr True 3 in \<open>simp add: RotateAuthSession_def live_def db1_def [symmetric] Let_def\<close>)
    qed (use Inr True that(1) in \<open>simp_all add: RotateAuthSession_def live_def db1_def [symmetric] Let_def\<close>)
  qed
qed

lemma can_insert_revoke [simp]: "can_insert (revoke_where P now db) uid h = can_insert db uid h"
proof -
  have mem: "list_ex (\<lambda>s. as_RefreshHash s = h) ss \<longleftrightarrow> h \<in> set (map as_RefreshHash ss)" for ss
    by (auto simp: list_ex_iff)
  have "map as_RefreshHash (db_sessions (revoke_where P now db)) = map as_RefreshHash (db_sessions db)"
    "db_users (revoke_where P now db) = db_users db"
    by (auto simp: revoke_where_def)
  then show ?thesis by (simp only: can_insert_def mem)
qed

text \<open>After a rotation the family has no other live token than the new one.\<close>
lemma revoked_family_dead:
  assumes "sessions_ok db U" "s \<in> set (db_sessions db)" "live s"
    "r \<in> set (db_sessions (revoke_where (\<lambda>r. as_ID r = as_ID s) now db))" "as_FamilyID r = as_FamilyID s"
  shows "as_UserID r = as_UserID s \<and> \<not> live r"
proof -
  obtain r0 where r0: "r0 \<in> set (db_sessions db)"
    "r = (if as_ID r0 = as_ID s \<and> live r0 then r0\<lparr>as_RevokedAt := Some now\<rparr> else r0)"
    using assms(4) by (auto simp: revoke_sessions_mem)
  have "as_FamilyID r0 = as_FamilyID s" using r0 assms(5) by (auto split: if_splits)
  then have "as_UserID r0 = as_UserID s \<and> (live r0 \<longrightarrow> as_ID r0 = as_ID s)"
    using assms(1-3) r0(1) unfolding sessions_ok_def by blast
  then show ?thesis using r0(2) by (auto simp: live_def)
qed

lemma sessions_ok_op:
  assumes ok: "sessions_ok db U" and new: "op_family sop \<inter> U = {}"
  shows "sessions_ok (session_op_db hash db sop) (U \<union> op_family sop)"
proof (cases sop)
  case (Login uid h e fid)
  then have "fid \<notin> U" using new by simp
  then have none: "s \<in> set (db_sessions db) \<Longrightarrow> as_FamilyID s = fid \<Longrightarrow> False" for s
    using ok unfolding sessions_ok_def by blast
  have "sessions_ok db (insert fid U)" using ok unfolding sessions_ok_def by blast
  then show ?thesis using none sessions_ok_insert [OF ok, of uid h fid e]
    by (auto simp: Login CreateAuthSession_def)
next
  case (Rotate h h' e now)
  show ?thesis
  proof (cases rule: Rotate_cases [of db h h' e now])
    case (rotated s db1)
    have s: "s \<in> set (db_sessions db)" using GetAuthSessionByHash_Inr [OF rotated(1)] by blast
    have "sessions_ok db1 U" using ok rotated(4) sessions_ok_revoke by simp
    then have "sessions_ok (insert_session db1 (as_UserID s) (as_FamilyID s) h' e) (insert (as_FamilyID s) U)"
      using revoked_family_dead [OF ok s rotated(2)] rotated(4,5) by (intro sessions_ok_insert) auto
    moreover have "as_FamilyID s \<in> U" using ok s unfolding sessions_ok_def by blast
    ultimately show ?thesis using rotated(6) by (simp add: Rotate insert_absorb)
  qed (use ok sessions_ok_revoke in \<open>auto simp: Rotate\<close>)
next
  case (UserOp uop)
  then show ?thesis using user_op_sessions [of hash db uop] sessions_ok_filter [OF ok] by auto
qed (use ok sessions_ok_revoke in \<open>auto simp: RevokeAuthSessionByHash_def RevokeAuthSessionFamily_def\<close>)

lemma sessions_ok_steps:
  "session_steps hash db U db' U' \<Longrightarrow> sessions_ok db U \<Longrightarrow> sessions_ok db' U' \<and> U \<subseteq> U'"
  by (induction rule: session_steps.induct) (use sessions_ok_op in auto)

text \<open>No token of family \<open>f\<close> is live.\<close>
definition family_dead :: "string \<Rightarrow> auth_db \<Rightarrow> bool" where
  "family_dead f db \<longleftrightarrow> (\<forall>s\<in>set (db_sessions db). as_FamilyID s = f \<longrightarrow> \<not> live s)"

lemma family_dead_op:
  assumes ok: "sessions_ok db U" and new: "op_family sop \<inter> U = {}" and f: "f \<in> U" "family_dead f db"
  shows "family_dead f (session_op_db hash db sop)"
proof -
  have rev: "family_dead f (revoke_where P now db)" for P now
    using f(2) by (auto simp: family_dead_def revoke_sessions_mem live_def)
  have ins: "family_dead f db1 \<Longrightarrow> fid \<noteq> f \<Longrightarrow> family_dead f (insert_session db1 uid fid h e)" for db1 uid fid h e
    by (simp add: family_dead_def insert_session_def)
  show ?thesis
  proof (cases sop)
    case (Login uid h e fid)
    then have "fid \<noteq> f" using new f(1) by auto
    then show ?thesis using ins f(2) by (simp add: Login CreateAuthSession_def)
  next
    case (Rotate h h' e now)
    show ?thesis
    proof (cases rule: Rotate_cases [of db h h' e now])
      case (rotated s db1)
      have "as_FamilyID s \<noteq> f"
        using GetAuthSessionByHash_Inr [OF rotated(1)] rotated(2) f(2) by (auto simp: family_dead_def)
      then show ?thesis using ins rev rotated(4,6) by (simp add: Rotate)
    qed (use rev f(2) in \<open>auto simp: Rotate\<close>)
  next
    case (UserOp uop)
    obtain P where "db_sessions (user_op_db hash db uop) = filter P (db_sessions db)"
      using user_op_sessions [of hash db uop] by blast
    then show ?thesis using f(2) by (simp add: UserOp family_dead_def)
  qed (use rev f(2) in \<open>auto simp: RevokeAuthSessionByHash_def RevokeAuthSessionFamily_def\<close>)
qed

lemma family_dead_steps:
  "session_steps hash db U db' U' \<Longrightarrow> sessions_ok db U \<Longrightarrow> f \<in> U \<Longrightarrow> family_dead f db \<Longrightarrow> family_dead f db'"
proof (induction rule: session_steps.induct)
  case (step db1 U1 op)
  then show ?case using sessions_ok_steps [OF step.hyps(1)] family_dead_op [of db1 U1 op f hash] by blast
qed

lemma family_dead_rotate:
  assumes "family_dead f db" "fst (RotateAuthSession db h h' e now) = Inr (uid, g)"
  shows "g \<noteq> f"
  using assms GetAuthSessionByHash_Inr
  by (cases rule: Rotate_cases [of db h h' e now]) (auto simp: family_dead_def)

text \<open>
  The token \<open>h\<close> of family \<open>f\<close> has been used up: its row is revoked, and the row is there as long as
  the family has any row.
\<close>
definition used_up :: "string \<Rightarrow> string \<Rightarrow> auth_db \<Rightarrow> bool" where
  "used_up h f db \<longleftrightarrow> (\<forall>s\<in>set (db_sessions db). as_FamilyID s = f \<and> as_RefreshHash s = h \<longrightarrow> \<not> live s) \<and>
     ((\<exists>s\<in>set (db_sessions db). as_FamilyID s = f) \<longrightarrow>
      (\<exists>s\<in>set (db_sessions db). as_FamilyID s = f \<and> as_RefreshHash s = h))"

lemma revoke_keeps_row:
  assumes "s \<in> set (db_sessions db)"
  shows "\<exists>r\<in>set (db_sessions (revoke_where P now db)). as_FamilyID r = as_FamilyID s \<and> as_RefreshHash r = as_RefreshHash s"
proof -
  have "(if P s \<and> live s then s\<lparr>as_RevokedAt := Some now\<rparr> else s) \<in> set (db_sessions (revoke_where P now db))"
    using assms unfolding revoke_sessions_mem by blast
  then show ?thesis by (rule bexI [rotated]) simp
qed

lemma used_up_revoke: "used_up h f db \<Longrightarrow> used_up h f (revoke_where P now db)"
proof -
  assume u: "used_up h f db"
  have fwd: "\<exists>s\<in>set (db_sessions db). as_FamilyID r = as_FamilyID s \<and> as_RefreshHash r = as_RefreshHash s \<and> (live r \<longrightarrow> live s)"
    if "r \<in> set (db_sessions (revoke_where P now db))" for r
    using that by (auto simp: revoke_sessions_mem live_def split: if_splits)
  show ?thesis using u fwd revoke_keeps_row [of _ db P now] unfolding used_up_def by metis
qed

lemma used_up_insert:
  "used_up h f db \<Longrightarrow> fid \<noteq> f \<or> (can_insert db uid h' \<and> (\<exists>s\<in>set (db_sessions db). as_FamilyID s = f)) \<Longrightarrow>
   used_up h f (insert_session db uid fid h' e)"
  by (auto simp: used_up_def insert_session_def can_insert_def list_ex_iff)

lemma used_up_op:
  assumes ok: "sessions_ok db U" and new: "op_family sop \<inter> U = {}" and f: "f \<in> U" "used_up h f db"
  shows "used_up h f (session_op_db hash db sop)"
proof (cases sop)
  case (Login uid k e fid)
  then have "fid \<noteq> f" using new f(1) by auto
  then show ?thesis using used_up_insert f(2) by (simp add: Login CreateAuthSession_def)
next
  case (Rotate k k' e now)
  show ?thesis
  proof (cases rule: Rotate_cases [of db k k' e now])
    case (rotated s db1)
    note s = GetAuthSessionByHash_Inr [OF rotated(1)]
    have "\<exists>r\<in>set (db_sessions db1). as_FamilyID r = as_FamilyID s"
      using revoke_keeps_row s rotated(4) by blast
    moreover have "used_up h f db1" using used_up_revoke f(2) rotated(4) by simp
    ultimately show ?thesis
      using used_up_insert [of h f db1 "as_FamilyID s" "as_UserID s" k' e] rotated(5,6) by (auto simp: Rotate)
  qed (use used_up_revoke f(2) in \<open>auto simp: Rotate\<close>)
next
  case (UserOp uop)
  obtain P where P: "db_sessions (user_op_db hash db uop) = filter P (db_sessions db)"
    "\<And>s r. as_UserID s = as_UserID r \<Longrightarrow> P s = P r"
    using user_op_sessions [of hash db uop] by blast
  have "P s = P r" if "s \<in> set (db_sessions db)" "r \<in> set (db_sessions db)" "as_FamilyID s = as_FamilyID r" for s r
    using ok that P(2) unfolding sessions_ok_def by blast
  then show ?thesis using f(2) unfolding used_up_def UserOp session_op_db.simps P(1) set_filter by blast
qed (use used_up_revoke f(2) in \<open>auto simp: RevokeAuthSessionByHash_def RevokeAuthSessionFamily_def\<close>)

lemma used_up_steps:
  "session_steps hash db U db' U' \<Longrightarrow> sessions_ok db U \<Longrightarrow> f \<in> U \<Longrightarrow> used_up h f db \<Longrightarrow> used_up h f db'"
proof (induction rule: session_steps.induct)
  case (step db1 U1 op)
  then show ?case using sessions_ok_steps [OF step.hyps(1)] used_up_op [of db1 U1 op f h hash] by blast
qed

lemma rotated_used_up:
  assumes ok: "sessions_ok db U" and rot: "fst (RotateAuthSession db h h' e now) = Inr (uid, f)"
  shows "used_up h f (snd (RotateAuthSession db h h' e now)) \<and> f \<in> U \<and>
    sessions_ok (snd (RotateAuthSession db h h' e now)) U"
proof (cases rule: Rotate_cases [of db h h' e now])
  case (rotated s db1)
  note s = GetAuthSessionByHash_Inr [OF rotated(1)]
  have f: "f = as_FamilyID s" using rot rotated(6) by simp
  have row: "\<exists>r\<in>set (db_sessions db1). as_FamilyID r = f \<and> as_RefreshHash r = h"
    using revoke_keeps_row s f rotated(4) by blast
  have "\<not> live r" if "r \<in> set (db_sessions db1)" "as_FamilyID r = f" for r
    using revoked_family_dead [OF ok _ rotated(2)] s that f rotated(4) by blast
  then have "used_up h f db1" using row unfolding used_up_def by blast
  then have "used_up h f (snd (RotateAuthSession db h h' e now))"
    using used_up_insert [of h f db1 "as_FamilyID s" "as_UserID s" h' e] rotated(5,6) row by auto
  moreover have "f \<in> U" using ok s f unfolding sessions_ok_def by blast
  moreover have "sessions_ok (snd (RotateAuthSession db h h' e now)) U"
    using sessions_ok_op [OF ok, of "Rotate h h' e now"] by simp
  ultimately show ?thesis by blast
qed (use rot in simp_all)

lemma reuse_family_dead:
  assumes "GetAuthSessionByHash db h = Inr s" "\<not> live s"
  shows "fst (RotateAuthSession db h h' e now) = Inl AuthTokenReuse \<and>
    family_dead (as_FamilyID s) (snd (RotateAuthSession db h h' e now))"
  using assms by (auto simp: RotateAuthSession_def live_def family_dead_def revoke_sessions_mem)

text \<open>
  From an empty table, whatever logins, rotations, logouts and changes of users follow, two
  sessions of one family belong to the same user, and when both are live they are the same session:
  a login has at most one refresh token that works.
\<close>
theorem one_live_token:
  assumes "db_sessions db = []" "session_steps hash db U db' U'"
    "s \<in> set (db_sessions db')" "r \<in> set (db_sessions db')" "as_FamilyID s = as_FamilyID r"
  shows "as_UserID s = as_UserID r \<and> (live s \<and> live r \<longrightarrow> s = r)"
proof -
  have "sessions_ok db U" using assms(1) by (simp add: sessions_ok_def)
  then have "sessions_ok db' U'" using sessions_ok_steps [OF assms(2)] by blast
  then have "as_UserID s = as_UserID r \<and> (live s \<and> live r \<longrightarrow> as_ID s = as_ID r) \<and> distinct (map as_ID (db_sessions db'))"
    using assms(3-5) unfolding sessions_ok_def by blast
  then show ?thesis using assms(3,4) by (auto simp: distinct_map inj_on_def)
qed

text \<open>
  C19. A refresh token that was exchanged and is presented again, at any later time, is recognised as
  reused, and from then on no token of its family is ever exchanged again, whoever holds it and
  whatever happens in between.
\<close>
theorem refresh_reuse_kills_family:
  assumes "sessions_ok db U" "fst (RotateAuthSession db old new e t) = Inr (uid, f)"
    "session_steps hash (snd (RotateAuthSession db old new e t)) U db2 U2"
    "GetAuthSessionByHash db2 old = Inr s" "as_FamilyID s = f"
    "session_steps hash (snd (RotateAuthSession db2 old n2 e2 t2)) U2 db4 U4"
  shows "fst (RotateAuthSession db2 old n2 e2 t2) = Inl AuthTokenReuse \<and>
    fst (RotateAuthSession db4 h h' e4 t4) \<noteq> Inr (uid4, f)"
proof -
  note r = rotated_used_up [OF assms(1,2)]
  have "used_up old f db2" using used_up_steps [OF assms(3)] r by blast
  then have dead: "\<not> live s" using GetAuthSessionByHash_Inr [OF assms(4)] assms(5) unfolding used_up_def by blast
  have st: "sessions_ok db2 U2 \<and> U \<subseteq> U2" using sessions_ok_steps [OF assms(3)] r by blast
  then have "sessions_ok (snd (RotateAuthSession db2 old n2 e2 t2)) U2"
    using sessions_ok_op [of db2 U2 "Rotate old n2 e2 t2"] by simp
  then have "family_dead f db4"
    using family_dead_steps [OF assms(6)] reuse_family_dead [OF assms(4) dead] assms(5) r st by blast
  then show ?thesis using family_dead_rotate reuse_family_dead [OF assms(4) dead] by blast
qed

definition demo_login :: auth_db where
  "demo_login = session_op_db Some two_admins (Login 1 ''h1'' 100 ''f1'')"

definition demo_rotated :: auth_db where
  "demo_rotated = session_op_db Some demo_login (Rotate ''h1'' ''h2'' 200 10)"

lemma demo_steps: "session_steps Some two_admins {} demo_login {''f1''}" "session_steps Some two_admins {} demo_rotated {''f1''}"
proof -
  show 1: "session_steps Some two_admins {} demo_login {''f1''}"
    using session_steps.step [OF session_steps.start, of "Login 1 ''h1'' 100 ''f1''" "{}" Some two_admins] by (simp add: demo_login_def)
  show "session_steps Some two_admins {} demo_rotated {''f1''}"
    using session_steps.step [OF 1, of "Rotate ''h1'' ''h2'' 200 10"] by (simp add: demo_rotated_def)
qed

lemma demo_rows: "db_sessions demo_rotated =
    [\<lparr>as_ID = 1, as_UserID = 1, as_FamilyID = ''f1'', as_RefreshHash = ''h1'', as_ExpiresAt = 100, as_RevokedAt = Some 10\<rparr>,
     \<lparr>as_ID = 2, as_UserID = 1, as_FamilyID = ''f1'', as_RefreshHash = ''h2'', as_ExpiresAt = 200, as_RevokedAt = None\<rparr>]"
  by code_simp

theorem one_live_token_witness:
  "\<not> (live (db_sessions demo_rotated ! 0) \<and> live (db_sessions demo_rotated ! 1))"
  using one_live_token [OF _ demo_steps(2), of "db_sessions demo_rotated ! 0" "db_sessions demo_rotated ! 1"]
  by (simp add: demo_rows two_admins_def)

lemma demo_login_ok: "sessions_ok demo_login {''f1''}"
proof -
  have "sessions_ok two_admins {}" by (simp add: sessions_ok_def two_admins_def)
  then show ?thesis using sessions_ok_steps [OF demo_steps(1)] by blast
qed

theorem refresh_reuse_kills_family_witness:
  "fst (RotateAuthSession (snd (RotateAuthSession demo_rotated ''h1'' ''h3'' 300 20)) ''h2'' ''h4'' 400 30) \<noteq> Inr (1, ''f1'')"
proof -
  have 1: "fst (RotateAuthSession demo_login ''h1'' ''h2'' 200 10) = Inr (1, ''f1'')"
    by (simp add: demo_login_def two_admins_def CreateAuthSession_def RotateAuthSession_def GetAuthSessionByHash_def
        can_insert_def insert_session_def revoke_where_def Let_def)
  have 2: "snd (RotateAuthSession demo_login ''h1'' ''h2'' 200 10) = demo_rotated" by (simp add: demo_rotated_def)
  have 3: "GetAuthSessionByHash demo_rotated ''h1'' =
      Inr \<lparr>as_ID = 1, as_UserID = 1, as_FamilyID = ''f1'', as_RefreshHash = ''h1'', as_ExpiresAt = 100, as_RevokedAt = Some 10\<rparr>"
  proof -
    have "db_up demo_rotated" by code_simp
    then show ?thesis by (simp add: GetAuthSessionByHash_def demo_rows)
  qed
  show ?thesis
    using refresh_reuse_kills_family [OF demo_login_ok 1, unfolded 2, OF session_steps.start 3 _ session_steps.start] by simp
qed

end
