(* ===== verification/Auth_Http.thy ===== *)
theory Auth_Http
  imports Access_Control Net_Addr
begin

text \<open>
  The handlers and middlewares of authentication (\<open>internal/api/auth.go\<close>, \<open>rbac.go\<close>, \<open>sse_ticket.go\<close>,
  \<open>sse.go\<close>, \<open>users.go\<close>, \<open>clientIP\<close> of \<open>login_limit.go\<close>) over the tables of \<open>Access_Control\<close> and the limiter
  of \<open>Login_Limit\<close>. A handler returns the new server state, what it does to the refresh cookie and
  either the HTTP status of the error or the answer. The JWT library, bcrypt, SHA-256 and the source
  of random tokens are arguments; a token drawn is \<open>None\<close> when the source fails.
\<close>

section \<open>Requests and the server\<close>

record auth_config =
  cf_AuthDisabled :: bool
  cf_AdminUser :: string
  cf_AdminPassword :: string
  cf_JWTSecret :: string
  cf_TrustProxy :: bool
  cf_AccessTokenTTL :: duration
  cf_RefreshTokenTTL :: duration

record request =
  rq_Authorization :: string
  rq_XRealIP :: string
  rq_XForwardedFor :: string
  rq_RemoteAddr :: string
  rq_Cookie :: "string option"
  rq_Ticket :: string

type_synonym tickets = "string \<rightharpoonup> string \<times> time"

record server =
  sv_db :: auth_db
  sv_limit :: loginLimiter
  sv_tickets :: tickets

datatype cookie = KeepCookie | SetRefresh string int | ClearRefresh

definition secureStringEqual :: "string \<Rightarrow> string \<Rightarrow> bool" where
  "secureStringEqual a b = (if length a \<noteq> length b then False else a = b)"

definition clientIP :: "request \<Rightarrow> bool \<Rightarrow> string" where
  "clientIP r trustProxy =
     (if trustProxy \<and> TrimSpace (rq_XRealIP r) \<noteq> [] then TrimSpace (rq_XRealIP r)
      else if trustProxy \<and> TrimSpace (rq_XForwardedFor r) \<noteq> []
      then TrimSpace (hd (Split (TrimSpace (rq_XForwardedFor r)) CHR '',''))
      else case SplitHostPort (TrimSpace (rq_RemoteAddr r)) of
        None \<Rightarrow> TrimSpace (rq_RemoteAddr r) | Some (host, port) \<Rightarrow> host)"

text \<open>\<open>base64.StdEncoding\<close>: groups of four characters, padded at the end, line ends skipped.\<close>
definition b64_val :: "char \<Rightarrow> nat option" where
  "b64_val c = (let n = of_char c in
     if 65 \<le> n \<and> n \<le> 90 then Some (n - 65)
     else if 97 \<le> n \<and> n \<le> 122 then Some (n - 71)
     else if 48 \<le> n \<and> n \<le> 57 then Some (n + 4)
     else if n = 43 then Some 62 else if n = 47 then Some 63 else None)"

fun b64_groups :: "string \<Rightarrow> string option" where
  "b64_groups [] = Some []"
| "b64_groups (a # b # c # d # rest) =
     (case (b64_val a, b64_val b) of
        (Some x, Some y) \<Rightarrow>
          if c = CHR ''='' then (if d = CHR ''='' \<and> rest = [] then Some [char_of (x * 4 + y div 16)] else None)
          else (case b64_val c of
             None \<Rightarrow> None
           | Some z \<Rightarrow>
               if d = CHR ''='' then
                 (if rest = [] then Some [char_of (x * 4 + y div 16), char_of (y mod 16 * 16 + z div 4)] else None)
               else (case (b64_val d, b64_groups rest) of
                  (Some w, Some out) \<Rightarrow>
                    Some (char_of (x * 4 + y div 16) # char_of (y mod 16 * 16 + z div 4) # char_of (z mod 4 * 64 + w) # out)
                | _ \<Rightarrow> None))
      | _ \<Rightarrow> None)"
| "b64_groups _ = None"

definition b64_decode :: "string \<Rightarrow> string option" where
  "b64_decode s = b64_groups (filter (\<lambda>c. c \<noteq> CHR 0x0D \<and> c \<noteq> CHR 0x0A) s)"

text \<open>\<open>Request.BasicAuth\<close>\<close>
definition BasicAuth :: "request \<Rightarrow> (string \<times> string) option" where
  "BasicAuth r =
     (if \<not> HasPrefix (ToLower (rq_Authorization r)) ''basic '' then None
      else case b64_decode (drop 6 (rq_Authorization r)) of
        None \<Rightarrow> None
      | Some c \<Rightarrow> (case Cut c CHR '':'' of (u, p, ok) \<Rightarrow> if ok then Some (u, p) else None))"

text \<open>
  \<open>verify secret token\<close> is \<open>jwt.ParseWithClaims\<close> with the HMAC check at the time of the request: the
  user name of the claims of a valid token.
\<close>
definition userFromBearer :: "(string \<Rightarrow> string \<Rightarrow> string option) \<Rightarrow> auth_config \<Rightarrow> request \<Rightarrow> string option" where
  "userFromBearer verify cfg r =
     (let raw = TrimSpace (rq_Authorization r) in
      if \<not> HasPrefix (ToLower raw) ''bearer '' then None
      else let tokenStr = TrimSpace (drop 7 raw) in
        if tokenStr = [] \<or> cf_JWTSecret cfg = [] then None
        else case verify (cf_JWTSecret cfg) tokenStr of
          None \<Rightarrow> None | Some u \<Rightarrow> if u = [] then None else Some u)"

section \<open>Middlewares\<close>

definition active_user :: "auth_db \<Rightarrow> string \<Rightarrow> AuthUser option" where
  "active_user db u = (case GetAuthUserByUsername db u of
     Inl e \<Rightarrow> None | Inr row \<Rightarrow> if au_IsActive row then Some row else None)"

text \<open>The user of the context, or the status of the refusal.\<close>
definition authMiddleware ::
  "(string \<Rightarrow> string \<Rightarrow> string option) \<Rightarrow> auth_config \<Rightarrow> time \<Rightarrow> request \<Rightarrow> server \<Rightarrow> server \<times> (nat + string)" where
  "authMiddleware verify cfg now r sv =
     (if cf_AuthDisabled cfg then (sv, Inr [])
      else case userFromBearer verify cfg r of
        Some u \<Rightarrow> (case active_user (sv_db sv) u of None \<Rightarrow> (sv, Inl 401) | Some row \<Rightarrow> (sv, Inr (au_Username row)))
      | None \<Rightarrow>
          (case BasicAuth r of
             None \<Rightarrow> (sv, Inl 401)
           | Some (u, p) \<Rightarrow>
               let ip = clientIP r (cf_TrustProxy cfg) in
               (case allow (sv_limit sv) ip u now of
                  (l1, False) \<Rightarrow> (sv\<lparr>sv_limit := l1\<rparr>, Inl 429)
                | (l1, True) \<Rightarrow>
                    if secureStringEqual u (cf_AdminUser cfg) \<and> secureStringEqual p (cf_AdminPassword cfg)
                    then (sv\<lparr>sv_limit := success l1 ip u\<rparr>, Inr u)
                    else (sv\<lparr>sv_limit := fail l1 ip u now\<rparr>, Inl 401))))"

definition resolveAuthRole :: "auth_config \<Rightarrow> auth_db \<Rightarrow> request \<Rightarrow> string \<Rightarrow> string option" where
  "resolveAuthRole cfg db r ctx =
     (if cf_AuthDisabled cfg then Some RoleAdmin
      else if cf_AdminPassword cfg \<noteq> [] \<and>
        (case BasicAuth r of None \<Rightarrow> False
         | Some (u, p) \<Rightarrow> secureStringEqual u (cf_AdminUser cfg) \<and> secureStringEqual p (cf_AdminPassword cfg))
      then Some RoleAdmin
      else if ctx \<noteq> [] then map_option au_Role (active_user db ctx)
      else None)"

definition role_order :: "string \<Rightarrow> nat" where
  "role_order role = (if role = RoleViewer then 1 else if role = RoleOperator then 2 else if role = RoleAdmin then 3 else 0)"

text \<open>The role put in the context, \<open>None\<close> when authentication is off.\<close>
definition requireMinRole :: "auth_config \<Rightarrow> string \<Rightarrow> auth_db \<Rightarrow> request \<Rightarrow> string \<Rightarrow> nat + string option" where
  "requireMinRole cfg minRole db r ctx =
     (if cf_AuthDisabled cfg then Inr None
      else case resolveAuthRole cfg db r ctx of
        None \<Rightarrow> Inl 401
      | Some role \<Rightarrow> if role_order role < role_order minRole then Inl 403 else Inr (Some role))"

text \<open>A guarded route; \<open>db2\<close> is the database when the role is looked up.\<close>
definition guarded ::
  "(string \<Rightarrow> string \<Rightarrow> string option) \<Rightarrow> auth_config \<Rightarrow> time \<Rightarrow> string \<Rightarrow> auth_db \<Rightarrow> request \<Rightarrow> server \<Rightarrow> server \<times> (nat + string option)" where
  "guarded verify cfg now minRole db2 r sv =
     (case authMiddleware verify cfg now r sv of
        (sv', Inl status) \<Rightarrow> (sv', Inl status)
      | (sv', Inr ctx) \<Rightarrow> (sv', requireMinRole cfg minRole db2 r ctx))"

section \<open>Tickets for the event stream\<close>

definition issue :: "tickets \<Rightarrow> string option \<Rightarrow> string \<Rightarrow> duration \<Rightarrow> time \<Rightarrow> tickets \<times> string option" where
  "issue ts drawn username ttl now =
     (case drawn of
        None \<Rightarrow> (ts, None)
      | Some raw \<Rightarrow>
          ((\<lambda>k. case ts k of Some t \<Rightarrow> if now > snd t then None else Some t | None \<Rightarrow> None)
             (raw \<mapsto> (username, now + ttl)), Some raw))"

definition consume :: "tickets \<Rightarrow> string \<Rightarrow> time \<Rightarrow> tickets \<times> string option" where
  "consume ts raw now =
     (case ts raw of
        None \<Rightarrow> (ts, None)
      | Some t \<Rightarrow> (ts(raw := None), if now > snd t then None else Some (fst t)))"

abbreviation ticket_ttl :: duration where "ticket_ttl \<equiv> 60000000000"

definition handleIssueSSETicket :: "auth_config \<Rightarrow> string option \<Rightarrow> time \<Rightarrow> string \<Rightarrow> server \<Rightarrow> server \<times> (nat + string \<times> int)" where
  "handleIssueSSETicket cfg drawn now ctx sv =
     (if cf_AuthDisabled cfg then (sv, Inr ([], 0))
      else if ctx = [] then (sv, Inl 401)
      else case issue (sv_tickets sv) drawn ctx ticket_ttl now of
        (ts, None) \<Rightarrow> (sv\<lparr>sv_tickets := ts\<rparr>, Inl 500)
      | (ts, Some ticket) \<Rightarrow> (sv\<lparr>sv_tickets := ts\<rparr>, Inr (ticket, 60)))"

definition authorizeSSE ::
  "(string \<Rightarrow> string \<Rightarrow> string option) \<Rightarrow> auth_config \<Rightarrow> time \<Rightarrow> request \<Rightarrow> server \<Rightarrow> server \<times> string option" where
  "authorizeSSE verify cfg now r sv =
     (if cf_AuthDisabled cfg then (sv, Some ''anonymous'')
      else let ticket = TrimSpace (rq_Ticket r) in
        if ticket \<noteq> [] then
          (case consume (sv_tickets sv) ticket now of
             (ts, None) \<Rightarrow> (sv\<lparr>sv_tickets := ts\<rparr>, None)
           | (ts, Some u) \<Rightarrow> (sv\<lparr>sv_tickets := ts\<rparr>, map_option au_Username (active_user (sv_db sv) u)))
        else (case userFromBearer verify cfg r of
             None \<Rightarrow> (sv, None)
           | Some u \<Rightarrow> (sv, map_option au_Username (active_user (sv_db sv) u))))"

section \<open>Login, refresh, logout\<close>

record loginBody =
  lo_Username :: string
  lo_Password :: string

datatype body_error = BodyTooLarge | BadJSON

text \<open>\<open>time.Duration / time.Second\<close>, towards zero.\<close>
definition seconds :: "duration \<Rightarrow> int" where
  "seconds d = (if d < 0 then - ((- d) div 1000000000) else d div 1000000000)"

text \<open>\<open>sign secret username issued expires\<close> is the signing of an access token.\<close>
definition issueAccessToken ::
  "(string \<Rightarrow> string \<Rightarrow> time \<Rightarrow> time \<Rightarrow> string option) \<Rightarrow> auth_config \<Rightarrow> string \<Rightarrow> time \<Rightarrow> (string \<times> int) option" where
  "issueAccessToken sign cfg username now =
     (case sign (cf_JWTSecret cfg) username now (now + cf_AccessTokenTTL cfg) of
        None \<Rightarrow> None | Some tok \<Rightarrow> Some (tok, seconds (cf_AccessTokenTTL cfg)))"

definition newRefreshToken :: "(string \<Rightarrow> string) \<Rightarrow> string option \<Rightarrow> (string \<times> string) option" where
  "newRefreshToken hashToken drawn = map_option (\<lambda>raw. (raw, hashToken raw)) drawn"

record login_answer =
  la_access :: string
  la_expires :: int
  la_ID :: int
  la_Username :: string
  la_Role :: string

text \<open>
  \<open>pw_ok\<close> is \<open>bcrypt.CompareHashAndPassword\<close>, \<open>drawn\<close> the random token, \<open>fid\<close> the identifier the database
  gives the new family.
\<close>
definition handleAuthLogin ::
  "(string \<Rightarrow> string \<Rightarrow> bool) \<Rightarrow> (string \<Rightarrow> string) \<Rightarrow> (string \<Rightarrow> string \<Rightarrow> time \<Rightarrow> time \<Rightarrow> string option) \<Rightarrow> auth_config \<Rightarrow>
   string option \<Rightarrow> string \<Rightarrow> time \<Rightarrow> request \<Rightarrow> body_error + loginBody \<Rightarrow> server \<Rightarrow> server \<times> cookie \<times> (nat + login_answer)" where
  "handleAuthLogin pw_ok hashToken sign cfg drawn fid now r body sv =
     (if cf_AuthDisabled cfg then (sv, KeepCookie, Inl 400)
      else case body of
        Inl BodyTooLarge \<Rightarrow> (sv, KeepCookie, Inl 413)
      | Inl BadJSON \<Rightarrow> (sv, KeepCookie, Inl 400)
      | Inr b \<Rightarrow>
          let username = TrimSpace (lo_Username b) in
          if username = [] \<or> lo_Password b = [] then (sv, KeepCookie, Inl 400)
          else let ip = clientIP r (cf_TrustProxy cfg) in
          (case allow (sv_limit sv) ip username now of
             (l1, False) \<Rightarrow> (sv\<lparr>sv_limit := l1\<rparr>, KeepCookie, Inl 429)
           | (l1, True) \<Rightarrow>
               (case active_user (sv_db sv) username of
                  None \<Rightarrow> (sv\<lparr>sv_limit := fail l1 ip username now\<rparr>, KeepCookie, Inl 401)
                | Some u \<Rightarrow>
                    if \<not> pw_ok (au_PasswordHash u) (lo_Password b)
                    then (sv\<lparr>sv_limit := fail l1 ip username now\<rparr>, KeepCookie, Inl 401)
                    else let sv1 = sv\<lparr>sv_limit := success l1 ip username\<rparr> in
                      (case newRefreshToken hashToken drawn of
                         None \<Rightarrow> (sv1, KeepCookie, Inl 500)
                       | Some (refreshRaw, refreshHash) \<Rightarrow>
                           (case CreateAuthSession (sv_db sv1) (au_ID u) refreshHash (now + cf_RefreshTokenTTL cfg) fid of
                              (Inl e, db') \<Rightarrow> (sv1\<lparr>sv_db := db'\<rparr>, KeepCookie, Inl 500)
                            | (Inr _, db') \<Rightarrow>
                                (case issueAccessToken sign cfg (au_Username u) now of
                                   None \<Rightarrow> (sv1\<lparr>sv_db := db'\<rparr>, KeepCookie, Inl 500)
                                 | Some (access, ttlSec) \<Rightarrow>
                                     (sv1\<lparr>sv_db := db'\<rparr>, SetRefresh refreshRaw (seconds (cf_RefreshTokenTTL cfg)),
                                      Inr \<lparr>la_access = access, la_expires = ttlSec, la_ID = au_ID u,
                                           la_Username = au_Username u, la_Role = au_Role u\<rparr>)))))))"

text \<open>
  \<open>up2\<close> and \<open>up3\<close> say whether the database answers the second and the third statement; the first
  one sees \<open>db_up\<close>.
\<close>
definition handleAuthRefresh ::
  "(string \<Rightarrow> string) \<Rightarrow> (string \<Rightarrow> string \<Rightarrow> time \<Rightarrow> time \<Rightarrow> string option) \<Rightarrow> auth_config \<Rightarrow> string option \<Rightarrow>
   bool \<Rightarrow> bool \<Rightarrow> time \<Rightarrow> request \<Rightarrow> auth_db \<Rightarrow> auth_db \<times> cookie \<times> (nat + string \<times> int)" where
  "handleAuthRefresh hashToken sign cfg drawn up2 up3 now r db =
     (case rq_Cookie r of
        None \<Rightarrow> (db, KeepCookie, Inl 401)
      | Some c \<Rightarrow>
          if TrimSpace c = [] then (db, KeepCookie, Inl 401)
          else case newRefreshToken hashToken drawn of
            None \<Rightarrow> (db, KeepCookie, Inl 500)
          | Some (refreshRaw, refreshHash) \<Rightarrow>
              (case RotateAuthSession db (hashToken c) refreshHash (now + cf_RefreshTokenTTL cfg) now of
                 (Inl e, db') \<Rightarrow> (db', ClearRefresh, Inl 401)
               | (Inr (userID, _), db') \<Rightarrow>
                   (case GetAuthUserByID (db'\<lparr>db_up := up2\<rparr>) userID of
                      Inl e \<Rightarrow> (snd (RevokeAuthSessionByHash (db'\<lparr>db_up := up3\<rparr>) refreshHash now), KeepCookie, Inl 401)
                    | Inr u \<Rightarrow>
                        if \<not> au_IsActive u
                        then (snd (RevokeAuthSessionByHash (db'\<lparr>db_up := up3\<rparr>) refreshHash now), KeepCookie, Inl 401)
                        else (case issueAccessToken sign cfg (au_Username u) now of
                           None \<Rightarrow> (db', KeepCookie, Inl 500)
                         | Some (access, ttlSec) \<Rightarrow>
                             (db', SetRefresh refreshRaw (seconds (cf_RefreshTokenTTL cfg)), Inr (access, ttlSec))))))"

definition handleAuthLogout :: "(string \<Rightarrow> string) \<Rightarrow> time \<Rightarrow> request \<Rightarrow> auth_db \<Rightarrow> auth_db \<times> cookie" where
  "handleAuthLogout hashToken now r db =
     (case rq_Cookie r of
        None \<Rightarrow> (db, ClearRefresh)
      | Some c \<Rightarrow>
          if TrimSpace c = [] then (db, ClearRefresh)
          else (case GetAuthSessionByHash db (hashToken c) of
             Inr sess \<Rightarrow>
               (if as_FamilyID sess \<noteq> [] then (snd (RevokeAuthSessionFamily db (as_FamilyID sess) now), ClearRefresh)
                else (snd (RevokeAuthSessionByHash db (hashToken c) now), ClearRefresh))
           | Inl e \<Rightarrow> (snd (RevokeAuthSessionByHash db (hashToken c) now), ClearRefresh)))"

definition handleAuthMe ::
  "(string \<Rightarrow> string \<Rightarrow> string option) \<Rightarrow> auth_config \<Rightarrow> request \<Rightarrow> string \<Rightarrow> auth_db \<Rightarrow> nat + int \<times> string \<times> string" where
  "handleAuthMe verify cfg r ctx db =
     (if cf_AuthDisabled cfg then Inr (0, ''local'', RoleAdmin)
      else let u = (if ctx = [] then (case userFromBearer verify cfg r of None \<Rightarrow> [] | Some uu \<Rightarrow> uu) else ctx) in
        if u = [] then Inl 401
        else case GetAuthUserByUsername db u of
          Inl e \<Rightarrow> Inl 401 | Inr row \<Rightarrow> Inr (au_ID row, au_Username row, au_Role row))"

section \<open>The administration of users\<close>

record createUserBody =
  cb_Username :: string
  cb_Password :: string
  cb_Role :: string

definition handleCreateUser ::
  "(string \<Rightarrow> string option) \<Rightarrow> createUserBody option \<Rightarrow> auth_db \<Rightarrow> auth_db \<times> (nat + AuthUser)" where
  "handleCreateUser hash body db =
     (case body of
        None \<Rightarrow> (db, Inl 400)
      | Some b \<Rightarrow>
          (case CreateAuthUser hash db (cb_Username b) (cb_Password b) (cb_Role b) of
             (Inl e, db') \<Rightarrow> (db', Inl 400) | (Inr u, db') \<Rightarrow> (db', Inr u)))"

text \<open>\<open>strconv.ParseInt(s, 10, 64)\<close> reads what \<open>Atoi\<close> reads; a number outside \<open>int64\<close> is an error.\<close>
definition user_id :: "string \<Rightarrow> int option" where
  "user_id param = (case Atoi param of None \<Rightarrow> None | Some i \<Rightarrow> if i \<le> 0 then None else Some i)"

record patchUserBody =
  pb_Role :: "string option"
  pb_IsActive :: "bool option"
  pb_NewPassword :: "string option"

definition handlePatchUser ::
  "(string \<Rightarrow> string option) \<Rightarrow> string \<Rightarrow> patchUserBody option \<Rightarrow> auth_db \<Rightarrow> auth_db \<times> nat" where
  "handlePatchUser hash param body db =
     (case (user_id param, body) of
        (None, _) \<Rightarrow> (db, 400)
      | (Some i, None) \<Rightarrow> (db, 400)
      | (Some i, Some b) \<Rightarrow>
          (case UpdateAuthUser hash db \<lparr>uc_ID = i, uc_Role = pb_Role b, uc_Active = pb_IsActive b, uc_Password = pb_NewPassword b\<rparr> of
             (Some AuthUserNotFound, db') \<Rightarrow> (db', 404)
           | (Some LastAdmin, db') \<Rightarrow> (db', 409)
           | (Some _, db') \<Rightarrow> (db', 400)
           | (None, db') \<Rightarrow> (db', 200)))"

definition handleDeleteUser :: "string \<Rightarrow> auth_db \<Rightarrow> auth_db \<times> nat" where
  "handleDeleteUser param db =
     (case user_id param of
        None \<Rightarrow> (db, 400)
      | Some i \<Rightarrow>
          (case DeleteAuthUser db i of
             (Some AuthUserNotFound, db') \<Rightarrow> (db', 404)
           | (Some LastAdmin, db') \<Rightarrow> (db', 409)
           | (Some _, db') \<Rightarrow> (db', 500)
           | (None, db') \<Rightarrow> (db', 200)))"

section \<open>Who passes a guarded route\<close>

lemma secureStringEqual_eq [simp]: "secureStringEqual a b \<longleftrightarrow> a = b"
  by (auto simp: secureStringEqual_def)

lemma HasPrefix_ToLower_take:
  "HasPrefix (ToLower s) p \<Longrightarrow> \<exists>u v. s = u @ v \<and> ToLower u = p"
  by (auto simp: HasPrefix_iff ToLower_def map_eq_append_conv)

text \<open>One header carries either a bearer token or a name and a password.\<close>
lemma bearer_or_basic:
  assumes "userFromBearer verify cfg r = Some u"
  shows "BasicAuth r = None"
proof (rule ccontr)
  let ?h = "rq_Authorization r"
  assume "BasicAuth r \<noteq> None"
  then have "HasPrefix (ToLower ?h) ''basic ''" by (auto simp: BasicAuth_def split: if_splits)
  then obtain u v where uv: "?h = u @ v" "ToLower u = ''basic ''" using HasPrefix_ToLower_take by blast
  then obtain b a u' where h: "?h = b # a # u' @ v" "lower_char b = CHR ''b''" "lower_char a = CHR ''a''"
    by (auto simp: ToLower_def map_eq_Cons_conv)
  have "\<not> is_space b" using h(2) by (auto simp: is_space_def lower_char_def is_upper_def split: if_splits)
  then have "TrimSpace ?h = trim_right is_space ?h" by (simp add: TrimSpace_def trim_left_def h(1))
  then obtain t where t: "?h = TrimSpace ?h @ t" using trim_right_append [of ?h is_space] by auto
  have "HasPrefix (ToLower (TrimSpace ?h)) ''bearer ''"
    using assms by (auto simp: userFromBearer_def Let_def split: if_splits)
  then have "HasPrefix (ToLower ?h) ''bearer ''"
    by (subst t) (auto simp: HasPrefix_iff ToLower_append)
  then show False using h by (auto simp: HasPrefix_iff ToLower_def)
qed

text \<open>
  C3. A route that needs a role is reached exactly with the emergency name and password of the
  environment while the limiter allows it, and then as administrator, or with a valid token of a
  user who is active, at the check and again when the role is read, and whose role then suffices.
  A database that does not answer, a missing or inactive user or an unknown role never pass a
  route that needs any role.
\<close>
theorem guarded_exact:
  assumes "\<not> cf_AuthDisabled cfg" "cf_AdminPassword cfg \<noteq> []"
  shows "snd (guarded verify cfg now minRole db2 r sv) = Inr role \<longleftrightarrow>
    (BasicAuth r = Some (cf_AdminUser cfg, cf_AdminPassword cfg) \<and> role = Some RoleAdmin \<and>
       snd (allow (sv_limit sv) (clientIP r (cf_TrustProxy cfg)) (cf_AdminUser cfg) now)) \<or>
    (\<exists>u row row2. userFromBearer verify cfg r = Some u \<and> active_user (sv_db sv) u = Some row \<and> au_Username row \<noteq> [] \<and>
       active_user db2 (au_Username row) = Some row2 \<and> role = Some (au_Role row2) \<and>
       role_order minRole \<le> role_order (au_Role row2))"
proof (cases "userFromBearer verify cfg r")
  case (Some u)
  note nb = bearer_or_basic [OF Some]
  show ?thesis
  proof (cases "active_user (sv_db sv) u")
    case None
    then show ?thesis using assms Some nb by (simp add: guarded_def authMiddleware_def)
  next
    case row: (Some row)
    show ?thesis
      using assms Some nb row
      by (cases "active_user db2 (au_Username row)")
        (auto simp: guarded_def authMiddleware_def requireMinRole_def resolveAuthRole_def split: if_splits)
  qed
next
  case None
  show ?thesis
  proof (cases "BasicAuth r")
    case None
    then show ?thesis using assms \<open>userFromBearer verify cfg r = None\<close> by (simp add: guarded_def authMiddleware_def)
  next
    case (Some up)
    obtain u p where up: "up = (u, p)" by fastforce
    obtain l1 ok where al: "allow (sv_limit sv) (clientIP r (cf_TrustProxy cfg)) u now = (l1, ok)" by fastforce
    have le: "role_order minRole \<le> role_order RoleAdmin" by (simp add: role_order_def)
    show ?thesis
      using assms None Some al le
      by (cases ok) (auto simp: guarded_def authMiddleware_def requireMinRole_def resolveAuthRole_def up Let_def)
  qed
qed

definition demo_cfg :: auth_config where
  "demo_cfg = \<lparr>cf_AuthDisabled = False, cf_AdminUser = ''admin'', cf_AdminPassword = ''s'', cf_JWTSecret = ''k'',
     cf_TrustProxy = False, cf_AccessTokenTTL = 900000000000, cf_RefreshTokenTTL = 604800000000000\<rparr>"

definition demo_request :: "string \<Rightarrow> request" where
  "demo_request h = \<lparr>rq_Authorization = h, rq_XRealIP = [], rq_XForwardedFor = [], rq_RemoteAddr = ''10.0.0.9:40000'',
     rq_Cookie = None, rq_Ticket = []\<rparr>"

definition demo_server :: server where
  "demo_server = \<lparr>sv_db = two_admins, sv_limit = newLoginLimiter, sv_tickets = Map.empty\<rparr>"

theorem guarded_exact_witness:
  "snd (guarded (\<lambda>k t. Some ''root'') demo_cfg 5 RoleOperator two_admins (demo_request ''Bearer tok'') demo_server) = Inr (Some RoleAdmin)"
proof -
  have "userFromBearer (\<lambda>k t. Some ''root'') demo_cfg (demo_request ''Bearer tok'') = Some ''root''"
    by (simp add: demo_request_def demo_cfg_def) code_simp
  moreover have "active_user two_admins ''root'' = Some (db_users two_admins ! 1)" "au_Username (db_users two_admins ! 1) = ''root''"
    "au_Role (db_users two_admins ! 1) = RoleAdmin"
    by code_simp+
  ultimately show ?thesis
    by (subst guarded_exact) (simp_all add: demo_cfg_def demo_server_def role_order_def)
qed

section \<open>Tickets work once and for a minute\<close>

datatype ticket_event = Issued string string time | Consumed string time

fun ticket_time :: "ticket_event \<Rightarrow> time" where
  "ticket_time (Issued raw u t) = t"
| "ticket_time (Consumed raw t) = t"

fun ticket_step :: "tickets \<Rightarrow> ticket_event \<Rightarrow> tickets" where
  "ticket_step ts (Issued raw u t) = fst (issue ts (Some raw) u ticket_ttl t)"
| "ticket_step ts (Consumed raw t) = fst (consume ts raw t)"

text \<open>The contract: what the last event about \<open>raw\<close> left, its user and its end.\<close>
fun ticket_spec :: "string \<Rightarrow> (string \<times> time) option \<Rightarrow> ticket_event \<Rightarrow> (string \<times> time) option" where
  "ticket_spec raw a (Issued raw' u t) = (if raw' = raw then Some (u, t + ticket_ttl) else a)"
| "ticket_spec raw a (Consumed raw' t) = (if raw' = raw then None else a)"

text \<open>The store holds what the contract holds, except tickets whose time is over.\<close>
definition ticket_rel :: "time \<Rightarrow> string \<Rightarrow> tickets \<Rightarrow> (string \<times> time) option \<Rightarrow> bool" where
  "ticket_rel t raw ts a \<longleftrightarrow> ts raw = a \<or> (ts raw = None \<and> (case a of None \<Rightarrow> False | Some (u, e) \<Rightarrow> e < t))"

lemma ticket_rel_step:
  "ticket_rel t0 raw ts a \<Longrightarrow> t0 \<le> ticket_time ev \<Longrightarrow> ticket_rel (ticket_time ev) raw (ticket_step ts ev) (ticket_spec raw a ev)"
  by (cases ev) (auto simp: ticket_rel_def issue_def consume_def split: option.splits)

lemma ticket_rel_run:
  "ticket_rel t0 raw ts a \<Longrightarrow> sorted (t0 # map ticket_time evs @ [now]) \<Longrightarrow>
   ticket_rel now raw (foldl ticket_step ts evs) (foldl (ticket_spec raw) a evs)"
proof (induction evs arbitrary: t0 ts a)
  case Nil
  then show ?case by (auto simp: ticket_rel_def split: option.splits)
next
  case (Cons ev evs)
  have "ticket_rel (ticket_time ev) raw (ticket_step ts ev) (ticket_spec raw a ev)"
    using Cons.prems by (intro ticket_rel_step) auto
  then show ?case using Cons.IH Cons.prems(2) by simp
qed

text \<open>
  A ticket opens the stream exactly for the user it was issued to, at most a minute after it was
  issued and only when it has not been presented since: this holds after any sequence of issues,
  each of which also drops the tickets that are over, and presentations.
\<close>
theorem ticket_once:
  assumes "sorted (map ticket_time evs @ [now])"
  shows "snd (consume (foldl ticket_step Map.empty evs) raw now) =
    (case foldl (ticket_spec raw) None evs of None \<Rightarrow> None | Some (u, e) \<Rightarrow> if now \<le> e then Some u else None)"
proof -
  have "ticket_rel now raw (foldl ticket_step Map.empty evs) (foldl (ticket_spec raw) None evs)"
  proof (cases "map ticket_time evs @ [now]")
    case (Cons t0 ts)
    have "sorted (t0 # map ticket_time evs @ [now])" using assms Cons by simp
    then show ?thesis using ticket_rel_run [of t0 raw Map.empty None] by (simp add: ticket_rel_def)
  qed simp
  then show ?thesis by (auto simp: ticket_rel_def consume_def split: option.splits)
qed

theorem ticket_once_witness:
  "snd (consume (foldl ticket_step Map.empty [Issued ''a'' ''ann'' 0, Issued ''b'' ''bob'' 5, Consumed ''a'' 7]) ''b'' 9) = Some ''bob'' \<and>
   snd (consume (foldl ticket_step Map.empty [Issued ''a'' ''ann'' 0, Issued ''b'' ''bob'' 5, Consumed ''a'' 7]) ''a'' 9) = None"
  by (subst (1 2) ticket_once) simp_all

section \<open>Logins are limited\<close>

text \<open>The attempt a well-formed request makes: of its address, for its user name, right or wrong.\<close>
definition attempt ::
  "(string \<Rightarrow> string \<Rightarrow> bool) \<Rightarrow> auth_config \<Rightarrow> time \<Rightarrow> request \<Rightarrow> loginBody \<Rightarrow> auth_db \<Rightarrow> login_event" where
  "attempt pw_ok cfg now r b db =
     (let ip = clientIP r (cf_TrustProxy cfg); username = TrimSpace (lo_Username b) in
      case active_user db username of
        None \<Rightarrow> Wrong ip username now
      | Some u \<Rightarrow> if pw_ok (au_PasswordHash u) (lo_Password b) then Right ip username now else Wrong ip username now)"

definition complete_body :: "loginBody \<Rightarrow> bool" where
  "complete_body b \<longleftrightarrow> TrimSpace (lo_Username b) \<noteq> [] \<and> lo_Password b \<noteq> []"

text \<open>
  The handler is one step of the limiter; what the limiter refuses is answered with 429, a wrong
  attempt it lets through with 401, and only a right one can succeed.
\<close>
lemma login_is_step:
  assumes "\<not> cf_AuthDisabled cfg" "complete_body b"
    "handleAuthLogin pw_ok hashToken sign cfg drawn fid now r (Inr b) sv = (sv', ck, ans)"
  shows "sv_limit sv' = fst (login_step (sv_limit sv) (attempt pw_ok cfg now r b (sv_db sv))) \<and>
    (ans = Inl 401 \<longleftrightarrow> snd (login_step (sv_limit sv) (attempt pw_ok cfg now r b (sv_db sv))) \<and>
       (\<exists>ip u t. attempt pw_ok cfg now r b (sv_db sv) = Wrong ip u t)) \<and>
    (\<forall>a. ans = Inr a \<longrightarrow> snd (login_step (sv_limit sv) (attempt pw_ok cfg now r b (sv_db sv))) \<and>
       (\<exists>ip u t. attempt pw_ok cfg now r b (sv_db sv) = Right ip u t)) \<and>
    db_users (sv_db sv') = db_users (sv_db sv) \<and> db_up (sv_db sv') = db_up (sv_db sv)"
proof -
  let ?ip = "clientIP r (cf_TrustProxy cfg)" and ?u = "TrimSpace (lo_Username b)"
  obtain l1 ok where al: "allow (sv_limit sv) ?ip ?u now = (l1, ok)" by fastforce
  have b: "?u \<noteq> []" "lo_Password b \<noteq> []" using assms(2) by (simp_all add: complete_body_def)
  show ?thesis
  proof (cases "ok \<and> (\<exists>u. active_user (sv_db sv) ?u = Some u \<and> pw_ok (au_PasswordHash u) (lo_Password b))")
    case False
    then show ?thesis using assms(1,3) al b
      by (cases ok; cases "active_user (sv_db sv) ?u")
        (auto simp: handleAuthLogin_def attempt_def Let_def split: if_splits)
  next
    case True
    then obtain u where u: "active_user (sv_db sv) ?u = Some u" "pw_ok (au_PasswordHash u) (lo_Password b)" and ok by blast
    have at: "attempt pw_ok cfg now r b (sv_db sv) = Right ?ip ?u now" using u by (simp add: attempt_def)
    have "ans \<noteq> Inl 401" "sv_limit sv' = success l1 ?ip ?u" "db_users (sv_db sv') = db_users (sv_db sv)"
      "db_up (sv_db sv') = db_up (sv_db sv)"
      using assms(1,3) al b u \<open>ok\<close>
      by (auto simp: handleAuthLogin_def Let_def CreateAuthSession_def insert_session_def split: option.splits prod.splits sum.splits if_splits)
    then show ?thesis using al \<open>ok\<close> by (simp add: at)
  qed
qed

lemma rotated_hash_dead:
  assumes "sessions_ok db U" "GetAuthSessionByHash db h = Inr s" "db1 = revoke_where (\<lambda>r. as_ID r = as_ID s) now db"
    "can_insert db1 uid h'"
  shows "\<not> list_ex (\<lambda>s. as_RefreshHash s = h \<and> live s) (db_sessions (insert_session db1 uid fid h' e))"
proof -
  note s = GetAuthSessionByHash_Inr [OF assms(2)]
  have one: "r = s" if "r \<in> set (db_sessions db)" "as_RefreshHash r = h" for r
    using assms(1) s that unfolding sessions_ok_def distinct_map inj_on_def by blast
  have "\<not> (as_RefreshHash r = h \<and> live r)" if "r \<in> set (db_sessions db1)" for r
  proof -
    obtain r0 where r0: "r0 \<in> set (db_sessions db)" "r = (if as_ID r0 = as_ID s \<and> live r0 then r0\<lparr>as_RevokedAt := Some now\<rparr> else r0)"
      using \<open>r \<in> set (db_sessions db1)\<close> unfolding assms(3) revoke_sessions_mem by blast
    have h: "as_RefreshHash r = as_RefreshHash r0" by (subst r0(2)) simp
    show ?thesis
    proof
      assume r: "as_RefreshHash r = h \<and> live r"
      then have "r0 = s" using one [OF r0(1)] h by simp
      then have "\<not> live r" by (subst r0(2)) (simp add: live_def)
      then show False using r by blast
    qed
  qed
  moreover have "can_insert db uid h'" using assms(4) unfolding assms(3) by simp
  then have "h' \<noteq> h" using s by (auto simp: can_insert_def list_ex_iff)
  ultimately show ?thesis by (auto simp: list_ex_iff insert_session_def)
qed

text \<open>A login request as it arrives, with what is drawn for it.\<close>
record login_request =
  lr_drawn :: "string option"
  lr_family :: string
  lr_now :: time
  lr_request :: request
  lr_body :: loginBody

definition serve_login ::
  "(string \<Rightarrow> string \<Rightarrow> bool) \<Rightarrow> (string \<Rightarrow> string) \<Rightarrow> (string \<Rightarrow> string \<Rightarrow> time \<Rightarrow> time \<Rightarrow> string option) \<Rightarrow> auth_config \<Rightarrow>
   login_request \<Rightarrow> server \<Rightarrow> server \<times> cookie \<times> (nat + login_answer)" where
  "serve_login pw_ok hashToken sign cfg q sv =
     handleAuthLogin pw_ok hashToken sign cfg (lr_drawn q) (lr_family q) (lr_now q) (lr_request q) (Inr (lr_body q)) sv"

text \<open>How many requests for the name \<open>k\<close> are told that the password is wrong.\<close>
fun told_wrong ::
  "(string \<Rightarrow> string \<Rightarrow> bool) \<Rightarrow> (string \<Rightarrow> string) \<Rightarrow> (string \<Rightarrow> string \<Rightarrow> time \<Rightarrow> time \<Rightarrow> string option) \<Rightarrow> auth_config \<Rightarrow>
   string \<Rightarrow> server \<Rightarrow> login_request list \<Rightarrow> nat" where
  "told_wrong pw_ok hashToken sign cfg k sv [] = 0"
| "told_wrong pw_ok hashToken sign cfg k sv (q # qs) =
     (case serve_login pw_ok hashToken sign cfg q sv of (sv', ck, ans) \<Rightarrow>
        (if ans = Inl 401 \<and> ToLower (TrimSpace (lo_Username (lr_body q))) = k then 1 else 0) +
        told_wrong pw_ok hashToken sign cfg k sv' qs)"

definition attempt_of :: "(string \<Rightarrow> string \<Rightarrow> bool) \<Rightarrow> auth_config \<Rightarrow> auth_db \<Rightarrow> login_request \<Rightarrow> login_event" where
  "attempt_of pw_ok cfg db q = attempt pw_ok cfg (lr_now q) (lr_request q) (lr_body q) db"

lemma attempt_users:
  "db_users db' = db_users db \<Longrightarrow> db_up db' = db_up db \<Longrightarrow> attempt_of pw_ok cfg db' = attempt_of pw_ok cfg db"
proof -
  assume db: "db_users db' = db_users db" "db_up db' = db_up db"
  have "active_user db' u = active_user db u" for u by (simp add: active_user_def GetAuthUserByUsername_def db)
  then show ?thesis by (simp add: fun_eq_iff attempt_of_def attempt_def)
qed

lemma attempt_time [simp]: "event_time (attempt_of pw_ok cfg db q) = lr_now q"
  by (simp add: attempt_of_def attempt_def Let_def split: option.split)

lemma attempt_wrong_for:
  "attempt_of pw_ok cfg db q = Wrong ip u t \<Longrightarrow> u = TrimSpace (lo_Username (lr_body q))"
  by (auto simp: attempt_of_def attempt_def Let_def split: option.splits if_splits)

lemma told_wrong_looked_at:
  assumes "\<not> cf_AuthDisabled cfg" "list_all (\<lambda>q. complete_body (lr_body q)) qs"
  shows "told_wrong pw_ok hashToken sign cfg k sv qs =
    looked_at (wrong_for k) (sv_limit sv) (map (attempt_of pw_ok cfg (sv_db sv)) qs)"
  using assms(2)
proof (induction qs arbitrary: sv)
  case (Cons q qs)
  obtain sv' ck ans where h: "serve_login pw_ok hashToken sign cfg q sv = (sv', ck, ans)" by (metis prod_cases3)
  have c: "complete_body (lr_body q)" using Cons.prems by simp
  note s = login_is_step [OF assms(1) c h [unfolded serve_login_def], folded attempt_of_def]
  have "told_wrong pw_ok hashToken sign cfg k sv' qs =
      looked_at (wrong_for k) (sv_limit sv') (map (attempt_of pw_ok cfg (sv_db sv')) qs)"
    using Cons.IH Cons.prems by simp
  also have "attempt_of pw_ok cfg (sv_db sv') = attempt_of pw_ok cfg (sv_db sv)"
    using s by (intro attempt_users) simp_all
  finally have rest: "told_wrong pw_ok hashToken sign cfg k sv' qs =
      looked_at (wrong_for k) (sv_limit sv') (map (attempt_of pw_ok cfg (sv_db sv)) qs)" .
  obtain l1 ok where st: "login_step (sv_limit sv) (attempt_of pw_ok cfg (sv_db sv) q) = (l1, ok)" by fastforce
  have "ans = Inl 401 \<and> ToLower (TrimSpace (lo_Username (lr_body q))) = k \<longleftrightarrow>
      ok \<and> wrong_for k (attempt_of pw_ok cfg (sv_db sv) q)"
    using s st attempt_wrong_for [of pw_ok cfg "sv_db sv" q]
    by (cases "attempt_of pw_ok cfg (sv_db sv) q") auto
  then show ?case using h rest s st by simp
qed simp


definition guess :: "int \<Rightarrow> login_request" where
  "guess i = \<lparr>lr_drawn = None, lr_family = [], lr_now = i, lr_request = demo_request [],
     lr_body = \<lparr>lo_Username = ''Root'', lo_Password = ''x''\<rparr>\<rparr>"


section \<open>Refresh\<close>


definition demo_refresh :: "auth_db \<times> cookie \<times> (nat + string \<times> int)" where
  "demo_refresh = handleAuthRefresh (\<lambda>t. t) (\<lambda>k u i e. Some (''jwt-'' @ u)) demo_cfg (Some ''h2'') True True 10
     ((demo_request [])\<lparr>rq_Cookie := Some ''h1''\<rparr>) demo_login"


end
