(* ===== verification/Device_State.thy ===== *)
theory Device_State
  imports Go_Prelude
begin

text \<open>
  What the poller knows of a device (\<open>internal/models/device.go\<close>, \<open>online.go\<close>,
  \<open>internal/store/device_category.go\<close>) and when it polls it (\<open>internal/poller/poller.go\<close>): categories and
  their priority, the rule that says a device is online, the intervals of light and heavy polls, the order
  of a round, and the pause of SNMP after repeated failures.
\<close>

section \<open>Categories\<close>

text \<open>
  Category names may be Russian. \<open>lower_text\<close> is \<open>strings.ToLower\<close> on ASCII and Cyrillic letters in
  UTF-8; no other letter has a lower case that occurs in the names compared below.
\<close>
fun lower_text :: "string \<Rightarrow> string" where
  "lower_text (a # b # s) =
     (if a = CHR 0xD0 \<and> 0x90 \<le> (of_char b :: nat) \<and> (of_char b :: nat) \<le> 0x9F
      then CHR 0xD0 # char_of ((of_char b :: nat) + 0x20) # lower_text s
      else if a = CHR 0xD0 \<and> 0xA0 \<le> (of_char b :: nat) \<and> (of_char b :: nat) \<le> 0xAF
      then CHR 0xD1 # char_of ((of_char b :: nat) - 0x20) # lower_text s
      else if a = CHR 0xD0 \<and> b = CHR 0x81 then CHR 0xD1 # CHR 0x91 # lower_text s
      else lower_char a # lower_text (b # s))"
| "lower_text s = map lower_char s"

definition ru_kommutator :: string where
  "ru_kommutator =
    [CHR 0xD0, CHR 0xBA, CHR 0xD0, CHR 0xBE, CHR 0xD0, CHR 0xBC, CHR 0xD0, CHR 0xBC, CHR 0xD1, CHR 0x83, CHR 0xD1,
    CHR 0x82, CHR 0xD0, CHR 0xB0, CHR 0xD1, CHR 0x82, CHR 0xD0, CHR 0xBE, CHR 0xD1, CHR 0x80]"

definition ru_kommutatory :: string where
  "ru_kommutatory =
    [CHR 0xD0, CHR 0xBA, CHR 0xD0, CHR 0xBE, CHR 0xD0, CHR 0xBC, CHR 0xD0, CHR 0xBC, CHR 0xD1, CHR 0x83, CHR 0xD1,
    CHR 0x82, CHR 0xD0, CHR 0xB0, CHR 0xD1, CHR 0x82, CHR 0xD0, CHR 0xBE, CHR 0xD1, CHR 0x80, CHR 0xD1, CHR 0x8B]"

definition ru_router :: string where
  "ru_router =
    [CHR 0xD1, CHR 0x80, CHR 0xD0, CHR 0xBE, CHR 0xD1, CHR 0x83, CHR 0xD1, CHR 0x82, CHR 0xD0, CHR 0xB5, CHR 0xD1,
    CHR 0x80]"

definition ru_routery :: string where
  "ru_routery =
    [CHR 0xD1, CHR 0x80, CHR 0xD0, CHR 0xBE, CHR 0xD1, CHR 0x83, CHR 0xD1, CHR 0x82, CHR 0xD0, CHR 0xB5, CHR 0xD1,
    CHR 0x80, CHR 0xD1, CHR 0x8B]"

definition ru_marshrutizator :: string where
  "ru_marshrutizator =
    [CHR 0xD0, CHR 0xBC, CHR 0xD0, CHR 0xB0, CHR 0xD1, CHR 0x80, CHR 0xD1, CHR 0x88, CHR 0xD1, CHR 0x80, CHR 0xD1,
    CHR 0x83, CHR 0xD1, CHR 0x82, CHR 0xD0, CHR 0xB8, CHR 0xD0, CHR 0xB7, CHR 0xD0, CHR 0xB0, CHR 0xD1, CHR 0x82,
    CHR 0xD0, CHR 0xBE, CHR 0xD1, CHR 0x80]"

definition ru_marshrutizatory :: string where
  "ru_marshrutizatory =
    [CHR 0xD0, CHR 0xBC, CHR 0xD0, CHR 0xB0, CHR 0xD1, CHR 0x80, CHR 0xD1, CHR 0x88, CHR 0xD1, CHR 0x80, CHR 0xD1,
    CHR 0x83, CHR 0xD1, CHR 0x82, CHR 0xD0, CHR 0xB8, CHR 0xD0, CHR 0xB7, CHR 0xD0, CHR 0xB0, CHR 0xD1, CHR 0x82,
    CHR 0xD0, CHR 0xBE, CHR 0xD1, CHR 0x80, CHR 0xD1, CHR 0x8B]"

definition ru_server :: string where
  "ru_server =
    [CHR 0xD1, CHR 0x81, CHR 0xD0, CHR 0xB5, CHR 0xD1, CHR 0x80, CHR 0xD0, CHR 0xB2, CHR 0xD0, CHR 0xB5, CHR 0xD1,
    CHR 0x80]"

definition ru_servery :: string where
  "ru_servery =
    [CHR 0xD1, CHR 0x81, CHR 0xD0, CHR 0xB5, CHR 0xD1, CHR 0x80, CHR 0xD0, CHR 0xB2, CHR 0xD0, CHR 0xB5, CHR 0xD1,
    CHR 0x80, CHR 0xD1, CHR 0x8B]"

definition ru_kompyuter :: string where
  "ru_kompyuter =
    [CHR 0xD0, CHR 0xBA, CHR 0xD0, CHR 0xBE, CHR 0xD0, CHR 0xBC, CHR 0xD0, CHR 0xBF, CHR 0xD1, CHR 0x8C, CHR 0xD1,
    CHR 0x8E, CHR 0xD1, CHR 0x82, CHR 0xD0, CHR 0xB5, CHR 0xD1, CHR 0x80]"

definition ru_kompyutery :: string where
  "ru_kompyutery =
    [CHR 0xD0, CHR 0xBA, CHR 0xD0, CHR 0xBE, CHR 0xD0, CHR 0xBC, CHR 0xD0, CHR 0xBF, CHR 0xD1, CHR 0x8C, CHR 0xD1,
    CHR 0x8E, CHR 0xD1, CHR 0x82, CHR 0xD0, CHR 0xB5, CHR 0xD1, CHR 0x80, CHR 0xD1, CHR 0x8B]"

definition ru_telefon :: string where
  "ru_telefon =
    [CHR 0xD1, CHR 0x82, CHR 0xD0, CHR 0xB5, CHR 0xD0, CHR 0xBB, CHR 0xD0, CHR 0xB5, CHR 0xD1, CHR 0x84, CHR 0xD0,
    CHR 0xBE, CHR 0xD0, CHR 0xBD]"

definition ru_telefony :: string where
  "ru_telefony =
    [CHR 0xD1, CHR 0x82, CHR 0xD0, CHR 0xB5, CHR 0xD0, CHR 0xBB, CHR 0xD0, CHR 0xB5, CHR 0xD1, CHR 0x84, CHR 0xD0,
    CHR 0xBE, CHR 0xD0, CHR 0xBD, CHR 0xD1, CHR 0x8B]"

definition ru_mfu :: string where
  "ru_mfu =
    [CHR 0xD0, CHR 0xBC, CHR 0xD1, CHR 0x84, CHR 0xD1, CHR 0x83]"

definition ru_printer :: string where
  "ru_printer =
    [CHR 0xD0, CHR 0xBF, CHR 0xD1, CHR 0x80, CHR 0xD0, CHR 0xB8, CHR 0xD0, CHR 0xBD, CHR 0xD1, CHR 0x82, CHR 0xD0,
    CHR 0xB5, CHR 0xD1, CHR 0x80]"

definition ru_ibp :: string where
  "ru_ibp =
    [CHR 0xD0, CHR 0xB8, CHR 0xD0, CHR 0xB1, CHR 0xD0, CHR 0xBF]"

definition ru_kamera :: string where
  "ru_kamera =
    [CHR 0xD0, CHR 0xBA, CHR 0xD0, CHR 0xB0, CHR 0xD0, CHR 0xBC, CHR 0xD0, CHR 0xB5, CHR 0xD1, CHR 0x80, CHR 0xD0,
    CHR 0xB0]"

definition ru_kamery :: string where
  "ru_kamery =
    [CHR 0xD0, CHR 0xBA, CHR 0xD0, CHR 0xB0, CHR 0xD0, CHR 0xBC, CHR 0xD0, CHR 0xB5, CHR 0xD1, CHR 0x80, CHR 0xD1,
    CHR 0x8B]"

definition ru_inoe :: string where
  "ru_inoe =
    [CHR 0xD0, CHR 0xB8, CHR 0xD0, CHR 0xBD, CHR 0xD0, CHR 0xBE, CHR 0xD0, CHR 0xB5]"

definition ru_drugie :: string where
  "ru_drugie =
    [CHR 0xD0, CHR 0xB4, CHR 0xD1, CHR 0x80, CHR 0xD1, CHR 0x83, CHR 0xD0, CHR 0xB3, CHR 0xD0, CHR 0xB8, CHR 0xD0,
    CHR 0xB5]"

definition ru_istochnik :: string where
  "ru_istochnik =
    [CHR 0xD0, CHR 0xB8, CHR 0xD1, CHR 0x81, CHR 0xD1, CHR 0x82, CHR 0xD0, CHR 0xBE, CHR 0xD1, CHR 0x87, CHR 0xD0,
    CHR 0xBD, CHR 0xD0, CHR 0xB8, CHR 0xD0, CHR 0xBA, CHR 0x20, CHR 0xD0, CHR 0xBF, CHR 0xD0, CHR 0xB8, CHR 0xD1,
    CHR 0x82, CHR 0xD0, CHR 0xB0, CHR 0xD0, CHR 0xBD, CHR 0xD0, CHR 0xB8, CHR 0xD1, CHR 0x8F]"

definition ru_tochka :: string where
  "ru_tochka =
    [CHR 0xD1, CHR 0x82, CHR 0xD0, CHR 0xBE, CHR 0xD1, CHR 0x87, CHR 0xD0, CHR 0xBA, CHR 0xD0, CHR 0xB0, CHR 0x20,
    CHR 0xD0, CHR 0xB4, CHR 0xD0, CHR 0xBE, CHR 0xD1, CHR 0x81, CHR 0xD1, CHR 0x82, CHR 0xD1, CHR 0x83, CHR 0xD0,
    CHR 0xBF, CHR 0xD0, CHR 0xB0]"

definition ru_tochki :: string where
  "ru_tochki =
    [CHR 0xD1, CHR 0x82, CHR 0xD0, CHR 0xBE, CHR 0xD1, CHR 0x87, CHR 0xD0, CHR 0xBA, CHR 0xD0, CHR 0xB8, CHR 0x20,
    CHR 0xD0, CHR 0xB4, CHR 0xD0, CHR 0xBE, CHR 0xD1, CHR 0x81, CHR 0xD1, CHR 0x82, CHR 0xD1, CHR 0x83, CHR 0xD0,
    CHR 0xBF, CHR 0xD0, CHR 0xB0]"

definition cat_letter :: "char \<Rightarrow> bool" where
  "cat_letter c \<longleftrightarrow> 97 \<le> (of_char c :: nat) \<and> (of_char c :: nat) \<le> 122"

text \<open>\<open>^[a-z][a-z0-9_]{0,31}$\<close>\<close>
definition ValidCategoryID :: "string \<Rightarrow> bool" where
  "ValidCategoryID raw = (case lower_text (TrimSpace raw) of
     [] \<Rightarrow> False
   | c # cs \<Rightarrow> cat_letter c \<and> length cs \<le> 31 \<and> list_all (\<lambda>c. cat_letter c \<or> is_digit c \<or> c = CHR ''_'') cs)"

definition NormalizeDeviceCategory :: "string \<Rightarrow> string" where
  "NormalizeDeviceCategory raw =
     (let s = lower_text (TrimSpace raw) in
      if s = [] then ''switch''
      else if s \<in> {''switch'', ru_kommutator, ru_kommutatory} then ''switch''
      else if s \<in> {''router'', ru_router, ru_routery, ru_marshrutizator, ru_marshrutizatory} then ''router''
      else if s \<in> {''server'', ru_server, ru_servery} then ''server''
      else if s \<in> {''computer'', ru_kompyuter, ru_kompyutery, ''pc''} then ''computer''
      else if s \<in> {''phone'', ru_telefon, ru_telefony, ''voip''} then ''phone''
      else if s \<in> {''mfu'', ru_mfu, ru_printer, ''printer''} then ''mfu''
      else if s \<in> {''ups'', ru_ibp, ru_istochnik} then ''ups''
      else if s \<in> {''camera'', ru_kamera, ru_kamery} then ''camera''
      else if s \<in> {''ap'', ru_tochka, ru_tochki, ''access point'', ''wifi'', ''wap''} then ''ap''
      else if s \<in> {''other'', ru_inoe, ru_drugie} then ''other''
      else if s = ''virtual'' then ''other''
      else if ValidCategoryID s then s
      else ''other'')"

section \<open>Devices\<close>

record Device =
  dv_Host :: string
  dv_Category :: string
  dv_Mode :: string
  dv_Override :: "bool option"
  dv_SNMPOK :: "bool option"
  dv_PingOK :: "bool option"
  dv_OfflineSince :: "time option"
  dv_PollInterval :: int
  dv_HeavyInterval :: "int option"
  dv_LastPoll :: "time option"
  dv_LastHeavy :: "time option"

definition NormalizeReachabilityMode :: "string \<Rightarrow> bool option \<Rightarrow> string" where
  "NormalizeReachabilityMode mode0 onlineOverride =
     (let mode = lower_text (TrimSpace mode0) in
      if mode \<in> {''auto'', ''ping'', ''online'', ''offline''} then mode
      else case onlineOverride of
        Some True \<Rightarrow> ''online'' | Some False \<Rightarrow> ''offline'' | None \<Rightarrow> ''auto'')"

definition ReachabilityModeEffective :: "Device \<Rightarrow> string" where
  "ReachabilityModeEffective d = NormalizeReachabilityMode (dv_Mode d) (dv_Override d)"

definition IsOnline :: "Device \<Rightarrow> bool" where
  "IsOnline d =
     (let mode = ReachabilityModeEffective d in
      if mode = ''online'' then True
      else if mode = ''offline'' then False
      else if mode = ''ping'' then dv_PingOK d = Some True
      else if dv_SNMPOK d = Some True then True
      else let cat = lower_text (TrimSpace (dv_Category d)) in
        if cat = [] \<or> cat = ''switch'' \<or> cat = ''router'' \<or> cat = ru_kommutator \<or> cat = ru_kommutatory then False
        else dv_PingOK d = Some True)"

section \<open>Priorities and intervals\<close>

definition pollPriority :: "string \<Rightarrow> nat" where
  "pollPriority category =
     (let c = NormalizeDeviceCategory category in
      if c \<in> {''router'', ''switch'', ''server''} then 0
      else if c = ''nas'' then 1
      else if c \<in> {''ups'', ''computer'', ''ilo'', ''hypervisor'', ''ipmi''} then 2
      else if c \<in> {''ap'', ''phone''} then 3
      else 4)"

definition offlineConfirmForCategory :: "string \<Rightarrow> nat" where
  "offlineConfirmForCategory category = (if pollPriority category \<le> 2 then 2 else 3)"

definition allowInstantPingDead :: "string \<Rightarrow> bool" where
  "allowInstantPingDead category \<longleftrightarrow> \<not> (pollPriority category = 3 \<or> pollPriority category = 4)"

abbreviation second :: duration where "second \<equiv> 1000000000"

record poll_config =
  pg_CriticalPollInterval :: duration
  pg_HeavyPollInterval :: duration

definition shouldSchedulePoll :: "poll_config \<Rightarrow> Device \<Rightarrow> time \<Rightarrow> bool" where
  "shouldSchedulePoll cfg d now =
     (let sec = (if dv_PollInterval d \<le> 0 then 60 else dv_PollInterval d);
          sec = (if sec < 10 then 10 else sec);
          sec = (if sec > 86400 then 86400 else sec);
          interval = sec * second;
          interval = (if pollPriority (dv_Category d) = 0 \<and> pg_CriticalPollInterval cfg > 0 \<and>
                         interval > pg_CriticalPollInterval cfg then pg_CriticalPollInterval cfg else interval)
      in case dv_LastPoll d of None \<Rightarrow> True | Some t \<Rightarrow> now - t \<ge> interval)"

definition pollIntervalOf :: "poll_config \<Rightarrow> Device \<Rightarrow> duration" where
  "pollIntervalOf cfg d =
     (let sec = (if dv_PollInterval d \<le> 0 then 60 else dv_PollInterval d);
          sec = (if sec < 10 then 10 else sec);
          interval = sec * second
      in if pollPriority (dv_Category d) = 0 \<and> pg_CriticalPollInterval cfg > 0 \<and> interval > pg_CriticalPollInterval cfg
         then pg_CriticalPollInterval cfg else interval)"

definition shouldPollHeavy :: "poll_config \<Rightarrow> Device \<Rightarrow> time \<Rightarrow> bool" where
  "shouldPollHeavy cfg d now =
     (let interval = (case dv_HeavyInterval d of
            None \<Rightarrow> pg_HeavyPollInterval cfg
          | Some n \<Rightarrow> if n > 0 then n * second else pg_HeavyPollInterval cfg)
      in if interval \<le> 0 then False
         else case dv_LastHeavy d of None \<Rightarrow> True | Some t \<Rightarrow> now - t \<ge> interval)"

definition overdueBy :: "poll_config \<Rightarrow> Device \<Rightarrow> time \<Rightarrow> duration" where
  "overdueBy cfg d now = (case dv_LastPoll d of
     None \<Rightarrow> 2 ^ 62 - 1 | Some t \<Rightarrow> now - t - pollIntervalOf cfg d)"

text \<open>
  The devices of a round in the order in which \<open>pollAll\<close> starts them: \<open>sort.SliceStable\<close> by priority,
  then by how long they are overdue.
\<close>
definition due_devices :: "poll_config \<Rightarrow> time \<Rightarrow> Device list \<Rightarrow> Device list" where
  "due_devices cfg now devs =
     sort_key (\<lambda>d. pollPriority (dv_Category d)) (sort_key (\<lambda>d. - overdueBy cfg d now)
       (filter (\<lambda>d. shouldSchedulePoll cfg d now) devs))"

section \<open>The pause of SNMP\<close>

record snmpBackoffState =
  sb_failures :: nat
  sb_until :: time

abbreviation snmpFailThreshold :: nat where "snmpFailThreshold \<equiv> 3"
abbreviation snmpBackoffPause :: duration where "snmpBackoffPause \<equiv> 15 * 60 * second"

definition snmpBackoffEligible :: "string \<Rightarrow> bool" where
  "snmpBackoffEligible category \<longleftrightarrow> pollPriority category = 3 \<or> pollPriority category = 4"

definition snmpBackoffActive :: "snmpBackoffState option \<Rightarrow> time \<Rightarrow> bool" where
  "snmpBackoffActive b now = (case b of None \<Rightarrow> False | Some st \<Rightarrow> now < sb_until st)"

definition noteSNMPFailure :: "snmpBackoffState option \<Rightarrow> time \<Rightarrow> snmpBackoffState" where
  "noteSNMPFailure b now =
     (let st = (case b of None \<Rightarrow> \<lparr>sb_failures = 0, sb_until = 0\<rparr> | Some st \<Rightarrow> st);
          st = st\<lparr>sb_failures := sb_failures st + 1\<rparr>
      in if sb_failures st \<ge> snmpFailThreshold \<and> now > sb_until st then st\<lparr>sb_until := now + snmpBackoffPause\<rparr> else st)"

end
