(* ===== verification/Reachability.thy ===== *)
theory Reachability
  imports Device_State
begin

text \<open>
  When the poller says that a device has gone or has come back (\<open>pollOne\<close>,
  \<open>emitReachabilityTransition\<close> and their helpers in \<open>internal/poller/poller.go\<close>; \<open>EnsureOfflineSince\<close>,
  \<open>RefreshOfflineSince\<close>, \<open>HasEventSince\<close> in \<open>internal/store/store.go\<close>).

  The state of one device is its row, its events in the database and the counters of the running
  process; those of different devices do not meet, since every table and every \<open>sync.Map\<close> is keyed
  by the device. A poll of a device is one step (\<open>pollInflight\<close> lets only one run at a time), and
  all times it reads are one instant. \<open>answers\<close> says which of its statements the database carries out.
\<close>

section \<open>State\<close>

record offlineStreakState =
  os_n :: nat
  os_fromOnline :: bool

datatype reach_kind = DEVICE_OFFLINE | DEVICE_ONLINE

text \<open>Events, the latest first.\<close>
record reach_state =
  re_dev :: Device
  re_events :: "(reach_kind \<times> time) list"
  re_off :: "offlineStreakState option"
  re_on :: "nat option"
  re_backoff :: "snmpBackoffState option"

record answers =
  an_prev :: bool
  an_ping :: bool
  an_meta :: bool
  an_cur :: bool
  an_has :: bool
  an_ensure :: bool
  an_insert :: bool
  an_last :: bool

definition all_answer :: answers where
  "all_answer = \<lparr>an_prev = True, an_ping = True, an_meta = True, an_cur = True, an_has = True, an_ensure = True,
     an_insert = True, an_last = True\<rparr>"

abbreviation offlineConfirmPolls :: nat where "offlineConfirmPolls \<equiv> 2"
abbreviation onlineConfirmPolls :: nat where "onlineConfirmPolls \<equiv> 2"
abbreviation onlineRecoverMinOffline :: duration where "onlineRecoverMinOffline \<equiv> 3 * 60 * second"
abbreviation offlineEventLookupSkew :: duration where "offlineEventLookupSkew \<equiv> 30 * second"

section \<open>Decisions\<close>

definition onlineRecoverThreshold :: "int \<Rightarrow> duration" where
  "onlineRecoverThreshold pollIntervalSec =
     (if pollIntervalSec > 0 \<and> pollIntervalSec * 2 * second > onlineRecoverMinOffline
      then pollIntervalSec * 2 * second else onlineRecoverMinOffline)"

definition shouldEmitDeviceOnline :: "bool \<Rightarrow> offlineStreakState \<Rightarrow> time option \<Rightarrow> time \<Rightarrow> int \<Rightarrow> bool \<Rightarrow> bool" where
  "shouldEmitDeviceOnline wasOnline streak offlineSince now pollIntervalSec hasOfflineEvent =
     (if wasOnline then False
      else if os_fromOnline streak \<and> os_n streak \<ge> offlineConfirmPolls then True
      else hasOfflineEvent \<and>
        (case offlineSince of None \<Rightarrow> False | Some s \<Rightarrow> now - s \<ge> onlineRecoverThreshold pollIntervalSec))"

definition shouldCatchUpDeviceOffline :: "bool \<Rightarrow> offlineStreakState \<Rightarrow> time option \<Rightarrow> time \<Rightarrow> int \<Rightarrow> bool \<Rightarrow> bool" where
  "shouldCatchUpDeviceOffline wasOnline streak offlineSince now pollIntervalSec hasOfflineEvent =
     (case offlineSince of
        None \<Rightarrow> False
      | Some s \<Rightarrow> \<not> (wasOnline \<or> hasOfflineEvent \<or> os_fromOnline streak) \<and>
          now - s \<ge> onlineRecoverThreshold pollIntervalSec)"

definition shouldEmitDeviceOfflineNow :: "offlineStreakState \<Rightarrow> bool \<Rightarrow> nat \<Rightarrow> bool \<Rightarrow> bool" where
  "shouldEmitDeviceOfflineNow streak pingDead confirm0 instantPingDead =
     (if \<not> os_fromOnline streak then False
      else let confirm = (if confirm0 < 1 then offlineConfirmPolls else confirm0) in
        if os_n streak = confirm then True
        else instantPingDead \<and> os_n streak = 1 \<and> pingDead)"

definition pingWentDead :: "Device \<Rightarrow> Device option \<Rightarrow> bool" where
  "pingWentDead cur prev = (case (dv_PingOK cur, prev) of
     (Some c, Some p) \<Rightarrow> (case dv_PingOK p of None \<Rightarrow> False | Some b \<Rightarrow> \<not> c \<and> b)
   | _ \<Rightarrow> False)"

section \<open>Counters\<close>

definition no_streak :: offlineStreakState where
  "no_streak = \<lparr>os_n = 0, os_fromOnline = False\<rparr>"

definition peekOfflineStreak :: "reach_state \<Rightarrow> offlineStreakState" where
  "peekOfflineStreak st = (case re_off st of None \<Rightarrow> no_streak | Some s \<Rightarrow> s)"

definition noteOfflinePoll :: "reach_state \<Rightarrow> bool \<Rightarrow> offlineStreakState \<times> reach_state" where
  "noteOfflinePoll st wasOnline =
     (let s = (if wasOnline then \<lparr>os_n = 1, os_fromOnline = True\<rparr>
               else (peekOfflineStreak st)\<lparr>os_n := os_n (peekOfflineStreak st) + 1\<rparr>)
      in (s, st\<lparr>re_off := Some s\<rparr>))"

definition noteOnlinePoll :: "reach_state \<Rightarrow> nat \<times> reach_state" where
  "noteOnlinePoll st =
     (let n = (case re_on st of None \<Rightarrow> 1 | Some prev \<Rightarrow> if prev > 0 then prev + 1 else 1)
      in (n, st\<lparr>re_on := Some n\<rparr>))"

definition resetOfflineStreak :: "reach_state \<Rightarrow> reach_state" where
  "resetOfflineStreak st = st\<lparr>re_off := None\<rparr>"

definition resetOnlineStreak :: "reach_state \<Rightarrow> nat \<times> reach_state" where
  "resetOnlineStreak st = ((case re_on st of None \<Rightarrow> 0 | Some n \<Rightarrow> n), st\<lparr>re_on := None\<rparr>)"

section \<open>The database\<close>

definition HasEventSince :: "reach_state \<Rightarrow> reach_kind \<Rightarrow> time \<Rightarrow> bool" where
  "HasEventSince st k since \<longleftrightarrow> since \<noteq> 0 \<and> list_ex (\<lambda>(k', at). k' = k \<and> at \<ge> since) (re_events st)"

definition EnsureOfflineSince :: "time \<Rightarrow> reach_state \<Rightarrow> reach_state" where
  "EnsureOfflineSince now st = st\<lparr>re_dev := (re_dev st)\<lparr>dv_OfflineSince :=
     (case dv_OfflineSince (re_dev st) of None \<Rightarrow> Some now | Some s \<Rightarrow> Some s)\<rparr>\<rparr>"

definition RefreshOfflineSince :: "time \<Rightarrow> reach_state \<Rightarrow> reach_state" where
  "RefreshOfflineSince now st =
     (if IsOnline (re_dev st) then st\<lparr>re_dev := (re_dev st)\<lparr>dv_OfflineSince := None\<rparr>\<rparr>
      else EnsureOfflineSince now st)"

text \<open>The part of \<open>emit\<close> that these events reach: they carry no port and no MAC address.\<close>
definition emit_reach :: "answers \<Rightarrow> time \<Rightarrow> reach_kind \<Rightarrow> reach_state \<Rightarrow> reach_state" where
  "emit_reach an now k st = (if an_insert an then st\<lparr>re_events := (k, now) # re_events st\<rparr> else st)"

definition emitDeviceOnline :: "answers \<Rightarrow> time \<Rightarrow> reach_state \<Rightarrow> reach_state" where
  "emitDeviceOnline an now st = emit_reach an now DEVICE_ONLINE st"

definition emitDeviceOffline :: "answers \<Rightarrow> time \<Rightarrow> reach_state \<Rightarrow> reach_state" where
  "emitDeviceOffline an now st =
     emit_reach an now DEVICE_OFFLINE (if an_ensure an then EnsureOfflineSince now st else st)"

section \<open>The transition\<close>

text \<open>What \<open>emitReachabilityTransition\<close> does for a device found online; the flag asks to keep \<open>offline_since\<close>.\<close>
definition found_online :: "answers \<Rightarrow> time \<Rightarrow> bool \<Rightarrow> time option \<Rightarrow> bool \<Rightarrow> reach_state \<Rightarrow> reach_state \<times> bool" where
  "found_online an now wasOnline since hasOff0 st0 =
     (let cur = re_dev st0; interval = dv_PollInterval cur; prevStreak0 = peekOfflineStreak st0;
          catch = shouldCatchUpDeviceOffline wasOnline prevStreak0 since now interval hasOff0;
          prevStreak = (if catch then \<lparr>os_n = offlineConfirmForCategory (dv_Category cur), os_fromOnline = True\<rparr> else prevStreak0);
          st = (if catch then (emitDeviceOffline an now st0)\<lparr>re_off := Some prevStreak\<rparr> else st0);
          hasOff = (hasOff0 \<or> catch);
          recovering = (hasOff \<and> dv_OfflineSince cur \<noteq> None)
      in if recovering \<or> shouldEmitDeviceOnline wasOnline prevStreak since now interval hasOff then
           (case noteOnlinePoll st of (n, st) \<Rightarrow>
              if n \<ge> onlineConfirmPolls
              then (emitDeviceOnline an now (snd (resetOnlineStreak (resetOfflineStreak st))), False)
              else (resetOfflineStreak st, True))
         else (snd (resetOnlineStreak (resetOfflineStreak st)), False))"

definition found_offline :: "answers \<Rightarrow> time \<Rightarrow> Device option \<Rightarrow> bool \<Rightarrow> time option \<Rightarrow> bool \<Rightarrow> reach_state \<Rightarrow> reach_state" where
  "found_offline an now prev wasOnline since hasOff st0 =
     (let cur = re_dev st0; confirm = offlineConfirmForCategory (dv_Category cur) in
      case resetOnlineStreak st0 of (onlineN, st) \<Rightarrow>
        if onlineN > 0 \<and> onlineN < onlineConfirmPolls \<and> hasOff
        then st\<lparr>re_off := Some \<lparr>os_n = confirm, os_fromOnline = True\<rparr>\<rparr>
        else (case noteOfflinePoll st wasOnline of (s, st) \<Rightarrow>
          if shouldEmitDeviceOfflineNow s (pingWentDead cur prev) confirm (allowInstantPingDead (dv_Category cur))
            \<or> shouldCatchUpDeviceOffline wasOnline s since now (dv_PollInterval cur) hasOff
          then (emitDeviceOffline an now st)\<lparr>re_off := Some \<lparr>os_n = confirm, os_fromOnline = True\<rparr>\<rparr>
          else st))"

definition emitReachabilityTransition :: "answers \<Rightarrow> time \<Rightarrow> Device option \<Rightarrow> bool \<Rightarrow> reach_state \<Rightarrow> reach_state \<times> bool" where
  "emitReachabilityTransition an now prev wasOnline st =
     (if \<not> an_cur an then (st, False)
      else let since = (case prev of None \<Rightarrow> None | Some p \<Rightarrow> dv_OfflineSince p);
               hasOff = (case since of None \<Rightarrow> False
                 | Some s \<Rightarrow> an_has an \<and> HasEventSince st DEVICE_OFFLINE (s - offlineEventLookupSkew))
           in if IsOnline (re_dev st) then found_online an now wasOnline since hasOff st
              else (found_offline an now prev wasOnline since hasOff st, False))"

section \<open>A poll\<close>

text \<open>How far the SNMP part of a poll gets.\<close>
datatype snmp_result = NewError | ConnectError | SysGetError | WalkError | Answered

record probe =
  pr_ping :: bool
  pr_snmp :: snmp_result

definition set_snmp :: "answers \<Rightarrow> bool option \<Rightarrow> reach_state \<Rightarrow> reach_state" where
  "set_snmp an v st = (if an_meta an then st\<lparr>re_dev := (re_dev st)\<lparr>dv_SNMPOK := v\<rparr>\<rparr> else st)"

definition snmp_failed :: "time \<Rightarrow> reach_state \<Rightarrow> reach_state" where
  "snmp_failed now st = (if snmpBackoffEligible (dv_Category (re_dev st))
     then st\<lparr>re_backoff := Some (noteSNMPFailure (re_backoff st) now)\<rparr> else st)"

definition poll_row :: "answers \<Rightarrow> time \<Rightarrow> probe \<Rightarrow> reach_state \<Rightarrow> reach_state" where
  "poll_row an now p st0 =
     (let st = (if an_ping an then st0\<lparr>re_dev := (re_dev st0)\<lparr>dv_PingOK := Some (pr_ping p)\<rparr>\<rparr> else st0) in
      if ReachabilityModeEffective (re_dev st) = ''ping'' then set_snmp an None st
      else if snmpBackoffEligible (dv_Category (re_dev st)) \<and> snmpBackoffActive (re_backoff st) now then st
      else case pr_snmp p of
        NewError \<Rightarrow> set_snmp an (Some False) st
      | ConnectError \<Rightarrow> snmp_failed now (set_snmp an (Some False) st)
      | SysGetError \<Rightarrow> snmp_failed now (set_snmp an (Some False) st)
      | WalkError \<Rightarrow> set_snmp an (Some False) (st\<lparr>re_backoff := None\<rparr>)
      | Answered \<Rightarrow> set_snmp an (Some True) (st\<lparr>re_backoff := None\<rparr>))"

definition pollOne :: "answers \<Rightarrow> time \<Rightarrow> probe \<Rightarrow> reach_state \<Rightarrow> reach_state" where
  "pollOne an now p st =
     (if TrimSpace (dv_Host (re_dev st)) = [] then st
      else let prev = (if an_prev an then Some (re_dev st) else None);
               wasOnline = (case prev of None \<Rightarrow> False | Some d \<Rightarrow> IsOnline d)
           in case emitReachabilityTransition an now prev wasOnline (poll_row an now p st) of
                (st2, hold) \<Rightarrow>
                  if \<not> an_last an then st2
                  else if hold then EnsureOfflineSince now st2 else RefreshOfflineSince now st2)"

text \<open>A restart loses the counters; \<open>RefreshAllOfflineSince\<close> runs before the first round.\<close>
definition restart :: "time \<Rightarrow> reach_state \<Rightarrow> reach_state" where
  "restart now st = RefreshOfflineSince now (st\<lparr>re_off := None, re_on := None, re_backoff := None\<rparr>)"

section \<open>Offline and online notices alternate\<close>

lemma all_answer_simps [simp]:
  "an_prev all_answer" "an_ping all_answer" "an_meta all_answer" "an_cur all_answer" "an_has all_answer"
  "an_ensure all_answer" "an_insert all_answer" "an_last all_answer"
  by (simp_all add: all_answer_def)

lemma IsOnline_since [simp]: "IsOnline (d\<lparr>dv_OfflineSince := x\<rparr>) = IsOnline d"
  by (simp add: IsOnline_def ReachabilityModeEffective_def)

lemma poll_row_keeps [simp]:
  "dv_OfflineSince (re_dev (poll_row an now p st)) = dv_OfflineSince (re_dev st)"
  "dv_Category (re_dev (poll_row an now p st)) = dv_Category (re_dev st)"
  "dv_Host (re_dev (poll_row an now p st)) = dv_Host (re_dev st)"
  "re_events (poll_row an now p st) = re_events st"
  "re_off (poll_row an now p st) = re_off st" "re_on (poll_row an now p st) = re_on st"
  by (simp_all add: poll_row_def Let_def set_snmp_def snmp_failed_def split: snmp_result.split)

text \<open>The notices of a device, the latest first: the earliest one says that it has gone.\<close>
fun alternating :: "reach_kind list \<Rightarrow> bool" where
  "alternating [] = True"
| "alternating [k] = (k = DEVICE_OFFLINE)"
| "alternating (k # k' # ks) = (k \<noteq> k' \<and> alternating (k' # ks))"

definition outstanding :: "reach_state \<Rightarrow> bool" where
  "outstanding st \<longleftrightarrow> (case re_events st of [] \<Rightarrow> False | (k, t) # _ \<Rightarrow> k = DEVICE_OFFLINE)"

text \<open>
  What holds after a poll at \<open>T\<close> when polls are more than \<open>g\<close> apart. While a notice is outstanding the
  database shows it, and the counters say either that the device is still away or that it was found
  once; otherwise no earlier notice is young enough to be taken for one of this absence.
\<close>
definition reach_inv :: "duration \<Rightarrow> time \<Rightarrow> reach_state \<Rightarrow> bool" where
  "reach_inv g T st \<longleftrightarrow> alternating (map fst (re_events st)) \<and> TrimSpace (dv_Host (re_dev st)) \<noteq> [] \<and>
     (\<forall>(k, t)\<in>set (re_events st). t \<le> T) \<and>
     (\<forall>s. dv_OfflineSince (re_dev st) = Some s \<longrightarrow> offlineEventLookupSkew < s \<and> s \<le> T) \<and>
     (if outstanding st then
        (\<exists>s. dv_OfflineSince (re_dev st) = Some s \<and> s \<le> snd (hd (re_events st))) \<and>
        (if IsOnline (re_dev st) then re_on st = Some 1 \<and> re_off st = None
         else re_on st = None \<and> os_fromOnline (peekOfflineStreak st) \<and>
           os_n (peekOfflineStreak st) \<ge> offlineConfirmForCategory (dv_Category (re_dev st)))
      else (\<forall>(k, t)\<in>set (re_events st). k = DEVICE_OFFLINE \<longrightarrow> t + g \<le> T \<and>
          (\<forall>s. dv_OfflineSince (re_dev st) = Some s \<longrightarrow> t < s - offlineEventLookupSkew)) \<and>
        (re_on st = None \<or> (re_on st = Some 1 \<and> IsOnline (re_dev st))))"

lemma confirm_bounds: "2 \<le> offlineConfirmForCategory c"
  by (simp add: offlineConfirmForCategory_def)

lemma outstanding_emit [simp]: "outstanding (st\<lparr>re_events := (k, t) # es\<rparr>) = (k = DEVICE_OFFLINE)"
  by (simp add: outstanding_def)

lemma alternating_Cons_OFFLINE:
  "alternating (map fst (re_events st)) \<Longrightarrow> \<not> outstanding st \<Longrightarrow> alternating (DEVICE_OFFLINE # map fst (re_events st))"
  by (cases "re_events st") (auto simp: outstanding_def)

lemma alternating_Cons_ONLINE:
  "alternating (map fst (re_events st)) \<Longrightarrow> outstanding st \<Longrightarrow> alternating (DEVICE_ONLINE # map fst (re_events st))"
  by (cases "re_events st") (auto simp: outstanding_def)

text \<open>Whether the notice of this absence is found in the database.\<close>
lemma has_off:
  assumes "reach_inv g T st" "dv_OfflineSince (re_dev st) = Some s"
  shows "HasEventSince st DEVICE_OFFLINE (s - offlineEventLookupSkew) = outstanding st"
proof (cases "outstanding st")
  case True
  then obtain t es where e: "re_events st = (DEVICE_OFFLINE, t) # es"
    by (auto simp: outstanding_def split: list.splits)
  have "offlineEventLookupSkew < s" "s \<le> t" using assms True e by (auto simp: reach_inv_def)
  then show ?thesis using True e by (simp add: HasEventSince_def)
next
  case False
  then have "\<forall>(k, t)\<in>set (re_events st). k = DEVICE_OFFLINE \<longrightarrow> t < s - offlineEventLookupSkew"
    using assms by (fastforce simp: reach_inv_def)
  then show ?thesis using False by (auto simp: HasEventSince_def list_ex_iff)
qed

lemma HasEventSince_row [simp]: "HasEventSince (poll_row an now p st) k s = HasEventSince st k s"
  by (simp add: HasEventSince_def)

text \<open>The lookup of the transition, when the database answers.\<close>
definition shown :: "reach_state \<Rightarrow> bool" where
  "shown st \<longleftrightarrow> outstanding st \<and> dv_OfflineSince (re_dev st) \<noteq> None"

lemma pollOne_eq:
  assumes "reach_inv g T st"
  shows "pollOne all_answer now p st =
    (let st1 = poll_row all_answer now p st; since = dv_OfflineSince (re_dev st); was = IsOnline (re_dev st) in
     if IsOnline (re_dev st1) then
       (case found_online all_answer now was since (shown st) st1 of
          (st2, hold) \<Rightarrow> if hold then EnsureOfflineSince now st2 else RefreshOfflineSince now st2)
     else RefreshOfflineSince now (found_offline all_answer now (Some (re_dev st)) was since (shown st) st1))"
proof -
  have h: "TrimSpace (dv_Host (re_dev st)) \<noteq> []" using assms by (simp add: reach_inv_def)
  show ?thesis
  proof (cases "dv_OfflineSince (re_dev st)")
    case None
    then show ?thesis using h
      by (simp add: pollOne_def emitReachabilityTransition_def shown_def Let_def)
  next
    case (Some s)
    then have "HasEventSince st DEVICE_OFFLINE (s - offlineEventLookupSkew) = shown st"
      using has_off [OF assms Some] by (simp add: shown_def)
    then show ?thesis using h Some
      by (simp add: pollOne_def emitReachabilityTransition_def Let_def)
  qed
qed

lemmas reach_defs = found_online_def found_offline_def noteOnlinePoll_def noteOfflinePoll_def resetOnlineStreak_def
  resetOfflineStreak_def emitDeviceOnline_def emitDeviceOffline_def emit_reach_def EnsureOfflineSince_def RefreshOfflineSince_def
  shouldCatchUpDeviceOffline_def shouldEmitDeviceOnline_def

text \<open>A notice is outstanding: the device stays away, is found for the first or for the second time.\<close>
lemma step_outstanding:
  assumes inv: "reach_inv g T st" and out: "outstanding st" and t: "T + g \<le> now" "0 < g"
  shows "reach_inv g now (pollOne all_answer now p st) \<and>
    (outstanding (pollOne all_answer now p st) \<longleftrightarrow>
       \<not> (IsOnline (re_dev st) \<and> IsOnline (re_dev (poll_row all_answer now p st)))) \<and>
    IsOnline (re_dev (pollOne all_answer now p st)) = IsOnline (re_dev (poll_row all_answer now p st)) \<and>
    dv_Category (re_dev (pollOne all_answer now p st)) = dv_Category (re_dev st)"
proof -
  define st1 where "st1 = poll_row all_answer now p st"
  have s1: "dv_OfflineSince (re_dev st1) = dv_OfflineSince (re_dev st)" "dv_Category (re_dev st1) = dv_Category (re_dev st)"
    "dv_Host (re_dev st1) = dv_Host (re_dev st)" "re_events st1 = re_events st" "re_off st1 = re_off st" "re_on st1 = re_on st"
    by (simp_all add: st1_def)
  obtain s where s: "dv_OfflineSince (re_dev st) = Some s" "s \<le> snd (hd (re_events st))" "s \<le> T" "offlineEventLookupSkew < s"
    using inv out by (auto simp: reach_inv_def)
  obtain t0 es where ev: "re_events st = (DEVICE_OFFLINE, t0) # es"
    using out by (auto simp: outstanding_def split: list.splits)
  have base: "alternating (map fst (re_events st))" "TrimSpace (dv_Host (re_dev st)) \<noteq> []"
    "\<forall>(k, t)\<in>set (re_events st). t \<le> T"
    using inv unfolding reach_inv_def by blast+
  then have later: "\<forall>(k, t)\<in>set (re_events st). t \<le> now" "\<forall>(k, t)\<in>set (re_events st). k = DEVICE_OFFLINE \<longrightarrow> t + g \<le> now"
    using t by fastforce+
  have sh: "shown st" using out s by (simp add: shown_def)
  note eq = pollOne_eq [OF inv, of now p, folded st1_def, unfolded Let_def, simplified sh]
  show ?thesis
  proof (cases "IsOnline (re_dev st)")
    case was: True
    then have c: "re_on st = Some 1" "re_off st = None" using inv out by (simp_all add: reach_inv_def)
    show ?thesis
    proof (cases "IsOnline (re_dev st1)")
      case True
      have "pollOne all_answer now p st = st1\<lparr>re_dev := (re_dev st1)\<lparr>dv_OfflineSince := None\<rparr>,
          re_events := (DEVICE_ONLINE, now) # re_events st, re_on := None, re_off := None\<rparr>"
        using was True c s sh s1 by (simp add: eq reach_defs Let_def)
      then show ?thesis using was True later s1 base alternating_Cons_ONLINE [OF base(1) out]
        by (simp add: reach_inv_def outstanding_def st1_def [symmetric])
    next
      case False
      have "pollOne all_answer now p st = st1\<lparr>re_on := None, re_off := Some \<lparr>os_n = offlineConfirmForCategory (dv_Category (re_dev st)), os_fromOnline = True\<rparr>\<rparr>"
        using was False c s sh s1 by (simp add: eq reach_defs Let_def)
      then show ?thesis using was False later s1 base s out ev t
        by (simp add: reach_inv_def outstanding_def peekOfflineStreak_def st1_def [symmetric])
    qed
  next
    case was: False
    then have c: "re_on st = None" "os_fromOnline (peekOfflineStreak st)"
        "os_n (peekOfflineStreak st) \<ge> offlineConfirmForCategory (dv_Category (re_dev st))"
      using inv out by (simp_all add: reach_inv_def)
    have pk: "peekOfflineStreak st1 = peekOfflineStreak st" using s1 by (simp add: peekOfflineStreak_def)
    show ?thesis
    proof (cases "IsOnline (re_dev st1)")
      case True
      have "pollOne all_answer now p st = st1\<lparr>re_on := Some 1, re_off := None\<rparr>"
        using was True c s sh s1 pk by (simp add: eq reach_defs Let_def)
      then show ?thesis using was True later s1 base s out ev t
        by (simp add: reach_inv_def outstanding_def st1_def [symmetric])
    next
      case False
      have "pollOne all_answer now p st = st1\<lparr>re_on := None,
          re_off := Some ((peekOfflineStreak st)\<lparr>os_n := os_n (peekOfflineStreak st) + 1\<rparr>)\<rparr>"
        using was False c s sh s1 pk confirm_bounds [of "dv_Category (re_dev st)"]
        by (simp add: eq reach_defs Let_def shouldEmitDeviceOfflineNow_def peekOfflineStreak_def)
      then show ?thesis using was False later s1 base s out ev t c
        by (simp add: reach_inv_def outstanding_def peekOfflineStreak_def st1_def [symmetric])
    qed
  qed
qed

text \<open>No notice is outstanding: the device stays, is missed, is given up, or was lost without a notice.\<close>
lemma step_settled:
  assumes inv: "reach_inv g T st" and out: "\<not> outstanding st" and t: "T + g \<le> now" "15 * second < g" "offlineEventLookupSkew < now"
  shows "reach_inv g now (pollOne all_answer now p st) \<and>
    IsOnline (re_dev (pollOne all_answer now p st)) = IsOnline (re_dev (poll_row all_answer now p st)) \<and>
    dv_Category (re_dev (pollOne all_answer now p st)) = dv_Category (re_dev st) \<and>
    (IsOnline (re_dev st) \<and> IsOnline (re_dev (poll_row all_answer now p st)) \<longrightarrow> \<not> outstanding (pollOne all_answer now p st)) \<and>
    (\<not> outstanding (pollOne all_answer now p st) \<longrightarrow>
       (if IsOnline (re_dev st) then \<not> IsOnline (re_dev (poll_row all_answer now p st)) \<longrightarrow>
          peekOfflineStreak (pollOne all_answer now p st) = \<lparr>os_n = 1, os_fromOnline = True\<rparr>
        else \<not> IsOnline (re_dev (poll_row all_answer now p st)) \<longrightarrow>
          peekOfflineStreak (pollOne all_answer now p st) =
            (peekOfflineStreak st)\<lparr>os_n := os_n (peekOfflineStreak st) + 1\<rparr> \<and>
          (os_fromOnline (peekOfflineStreak st) \<longrightarrow>
             os_n (peekOfflineStreak st) + 1 \<noteq> offlineConfirmForCategory (dv_Category (re_dev st)))))"
proof -
  define st1 where "st1 = poll_row all_answer now p st"
  have s1: "dv_OfflineSince (re_dev st1) = dv_OfflineSince (re_dev st)" "dv_Category (re_dev st1) = dv_Category (re_dev st)"
    "dv_Host (re_dev st1) = dv_Host (re_dev st)" "re_events st1 = re_events st" "re_off st1 = re_off st" "re_on st1 = re_on st"
    by (simp_all add: st1_def)
  have base: "alternating (map fst (re_events st))" "TrimSpace (dv_Host (re_dev st)) \<noteq> []"
    "\<forall>(k, t)\<in>set (re_events st). t \<le> T"
    "\<forall>s. dv_OfflineSince (re_dev st) = Some s \<longrightarrow> offlineEventLookupSkew < s \<and> s \<le> T"
    using inv unfolding reach_inv_def by blast+
  have old: "\<forall>(k, t)\<in>set (re_events st). k = DEVICE_OFFLINE \<longrightarrow> t + g \<le> T \<and>
      (\<forall>s. dv_OfflineSince (re_dev st) = Some s \<longrightarrow> t < s - offlineEventLookupSkew)"
    and on: "re_on st = None \<or> (re_on st = Some 1 \<and> IsOnline (re_dev st))"
    using inv out by (simp_all add: reach_inv_def)
  have later: "\<forall>(k, t)\<in>set (re_events st). t \<le> now"
    "\<forall>(k, t)\<in>set (re_events st). k = DEVICE_OFFLINE \<longrightarrow> t + g \<le> now"
    "\<forall>(k, t)\<in>set (re_events st). k = DEVICE_OFFLINE \<longrightarrow> t < now - offlineEventLookupSkew"
    using base(3) old t by fastforce+
  have since': "\<forall>s. dv_OfflineSince (re_dev st) = Some s \<longrightarrow> offlineEventLookupSkew < s \<and> s \<le> now"
    using base(4) t by force
  have old': "\<forall>(k, t)\<in>set (re_events st). k = DEVICE_OFFLINE \<longrightarrow> t + g \<le> now \<and>
      (\<forall>s. (case dv_OfflineSince (re_dev st) of None \<Rightarrow> Some now | Some s \<Rightarrow> Some s) = Some s \<longrightarrow> t < s - offlineEventLookupSkew)"
    using old later(2,3) by (auto split: option.splits)
  have sh: "\<not> shown st" using out by (simp add: shown_def)
  note eq = pollOne_eq [OF inv, of now p, folded st1_def, unfolded Let_def, simplified sh if_False]
  have pk: "peekOfflineStreak st1 = peekOfflineStreak st" using s1 by (simp add: peekOfflineStreak_def)
  note alt = alternating_Cons_OFFLINE [OF base(1) out]
  let ?ens = "case dv_OfflineSince (re_dev st) of None \<Rightarrow> Some now | Some s \<Rightarrow> Some s"
  have ens: "\<exists>s. ?ens = Some s \<and> s \<le> now" "\<And>s. ?ens = Some s \<Longrightarrow> offlineEventLookupSkew < s \<and> s \<le> now"
    using since' t(3) by (auto split: option.split option.splits)
  show ?thesis
  proof (cases "IsOnline (re_dev st1)")
    case True
    let ?catch = "shouldCatchUpDeviceOffline (IsOnline (re_dev st)) (peekOfflineStreak st) (dv_OfflineSince (re_dev st)) now
        (dv_PollInterval (re_dev st1)) False"
    show ?thesis
    proof (cases ?catch)
      case c: True
      then obtain s where s: "dv_OfflineSince (re_dev st) = Some s" "\<not> IsOnline (re_dev st)"
        by (auto simp: shouldCatchUpDeviceOffline_def split: option.splits)
      then have no: "re_on st = None" using on by blast
      have "pollOne all_answer now p st = st1\<lparr>re_events := (DEVICE_OFFLINE, now) # re_events st, re_on := Some 1, re_off := None\<rparr>"
        using True c s no s1 pk unfolding eq found_online_def
        by (simp add: noteOnlinePoll_def resetOfflineStreak_def emitDeviceOffline_def emit_reach_def EnsureOfflineSince_def Let_def)
      then show ?thesis using True s later s1 base since' alt
        by (simp add: reach_inv_def st1_def [symmetric] outstanding_def)
    next
      case c: False
      let ?want = "shouldEmitDeviceOnline (IsOnline (re_dev st)) (peekOfflineStreak st) (dv_OfflineSince (re_dev st)) now
        (dv_PollInterval (re_dev st1)) False"
      show ?thesis
      proof (cases ?want)
        case w: True
        then have "\<not> IsOnline (re_dev st)" by (auto simp: shouldEmitDeviceOnline_def)
        then have no: "re_on st = None" using on by blast
        have "pollOne all_answer now p st = st1\<lparr>re_dev := (re_dev st1)\<lparr>dv_OfflineSince := ?ens\<rparr>, re_on := Some 1, re_off := None\<rparr>"
          using True c w no s1 pk unfolding eq found_online_def
          by (simp add: noteOnlinePoll_def resetOfflineStreak_def EnsureOfflineSince_def Let_def)
        then show ?thesis using True w s1 base(1,2) later(1) old' ens out
          by (simp add: reach_inv_def st1_def [symmetric] outstanding_def)
      next
        case w: False
        have "pollOne all_answer now p st = st1\<lparr>re_dev := (re_dev st1)\<lparr>dv_OfflineSince := None\<rparr>, re_on := None, re_off := None\<rparr>"
          using True c w s1 pk unfolding eq found_online_def
          by (simp add: resetOnlineStreak_def resetOfflineStreak_def RefreshOfflineSince_def Let_def)
        then show ?thesis using True s1 base(1,2) later(1,2) out
          by (simp add: reach_inv_def st1_def [symmetric] outstanding_def)
      qed
    qed
  next
    case False
    define sk where "sk = (if IsOnline (re_dev st) then \<lparr>os_n = 1, os_fromOnline = True\<rparr>
        else (peekOfflineStreak st)\<lparr>os_n := os_n (peekOfflineStreak st) + 1\<rparr>)"
    let ?confirm = "offlineConfirmForCategory (dv_Category (re_dev st))"
    let ?emit = "shouldEmitDeviceOfflineNow sk (pingWentDead (re_dev st1) (Some (re_dev st))) ?confirm (allowInstantPingDead (dv_Category (re_dev st)))
        \<or> shouldCatchUpDeviceOffline (IsOnline (re_dev st)) sk (dv_OfflineSince (re_dev st)) now (dv_PollInterval (re_dev st1)) False"
    have nt: "noteOfflinePoll (st1\<lparr>re_on := None\<rparr>) (IsOnline (re_dev st)) = (sk, st1\<lparr>re_on := None, re_off := Some sk\<rparr>)"
      using s1 by (simp add: noteOfflinePoll_def sk_def peekOfflineStreak_def Let_def)
    show ?thesis
    proof (cases ?emit)
      case e: True
      have "pollOne all_answer now p st = st1\<lparr>re_dev := (re_dev st1)\<lparr>dv_OfflineSince := ?ens\<rparr>,
          re_events := (DEVICE_OFFLINE, now) # re_events st, re_on := None, re_off := Some \<lparr>os_n = ?confirm, os_fromOnline = True\<rparr>\<rparr>"
        using False e s1 nt unfolding eq found_offline_def
        by (simp add: resetOnlineStreak_def emitDeviceOffline_def emit_reach_def EnsureOfflineSince_def RefreshOfflineSince_def Let_def
            split: option.split)
      then show ?thesis using False s1 base later ens alt
        by (simp add: reach_inv_def st1_def [symmetric] peekOfflineStreak_def outstanding_def)
    next
      case e: False
      have "pollOne all_answer now p st = st1\<lparr>re_dev := (re_dev st1)\<lparr>dv_OfflineSince := ?ens\<rparr>, re_on := None, re_off := Some sk\<rparr>"
        using False e s1 nt unfolding eq found_offline_def
        by (simp add: resetOnlineStreak_def EnsureOfflineSince_def RefreshOfflineSince_def Let_def)
      then show ?thesis using False s1 base(1,2) later(1) old' ens out e confirm_bounds [of "dv_Category (re_dev st)"]
        by (auto simp: reach_inv_def st1_def [symmetric] outstanding_def peekOfflineStreak_def sk_def shouldEmitDeviceOfflineNow_def)
    qed
  qed
qed

section \<open>Properties\<close>

definition polls :: "reach_state \<Rightarrow> (time \<times> probe) list \<Rightarrow> reach_state" where
  "polls st ps = foldl (\<lambda>st (t, p). pollOne all_answer t p st) st ps"

text \<open>More than 15 seconds between polls.\<close>
fun spaced :: "time \<Rightarrow> (time \<times> probe) list \<Rightarrow> bool" where
  "spaced T [] = True"
| "spaced T ((t, p) # ps) = (T + 15 * second < t \<and> spaced t ps)"

fun last_time :: "time \<Rightarrow> (time \<times> probe) list \<Rightarrow> time" where
  "last_time T [] = T"
| "last_time T ((t, p) # ps) = last_time t ps"

text \<open>A device about which nothing has been said, when the server starts.\<close>
definition unreported :: "time \<Rightarrow> reach_state \<Rightarrow> bool" where
  "unreported T st \<longleftrightarrow> re_events st = [] \<and> re_on st = None \<and> TrimSpace (dv_Host (re_dev st)) \<noteq> [] \<and>
     offlineEventLookupSkew < T \<and>
     (case dv_OfflineSince (re_dev st) of None \<Rightarrow> True | Some s \<Rightarrow> offlineEventLookupSkew < s \<and> s \<le> T)"

abbreviation gap :: duration where "gap \<equiv> 15 * second + 1"

lemma unreported_inv: "unreported T st \<Longrightarrow> reach_inv gap T st"
  by (auto simp: unreported_def reach_inv_def outstanding_def split: option.splits)

lemma poll_inv:
  assumes "reach_inv gap T st" "T + 15 * second < now" "offlineEventLookupSkew < T"
  shows "reach_inv gap now (pollOne all_answer now p st)"
  using assms step_outstanding [of gap T st now p] step_settled [of gap T st now p] by (cases "outstanding st") auto

lemma polls_inv:
  "reach_inv gap T st \<Longrightarrow> spaced T ps \<Longrightarrow> offlineEventLookupSkew < T \<Longrightarrow>
   reach_inv gap (last_time T ps) (polls st ps) \<and> T \<le> last_time T ps"
proof (induction ps arbitrary: T st)
  case (Cons tp ps)
  obtain t p where tp: "tp = (t, p)" by fastforce
  have "reach_inv gap t (pollOne all_answer t p st)" using Cons.prems poll_inv tp by simp
  then have "reach_inv gap (last_time t ps) (polls (pollOne all_answer t p st) ps) \<and> t \<le> last_time t ps"
    using Cons.IH Cons.prems tp by simp
  then show ?case using Cons.prems by (simp add: tp polls_def)
qed (simp add: polls_def)

text \<open>
  C8. As long as the process runs, the database answers and polls are more than 15 seconds apart, the
  notices of a device strictly alternate, whatever its probes return: it is reported gone before it
  is reported back, and neither is ever reported twice in a row.
\<close>
theorem notices_alternate:
  assumes "unreported T st" "spaced T ps"
  shows "alternating (map fst (re_events (polls st ps)))"
proof -
  have "offlineEventLookupSkew < T" using assms(1) by (simp add: unreported_def)
  then have "reach_inv gap (last_time T ps) (polls st ps)"
    using polls_inv [OF unreported_inv [OF assms(1)] assms(2)] by blast
  then show ?thesis unfolding reach_inv_def by blast
qed

text \<open>Every poll of \<open>qs\<close> finds the device online, or every one finds it offline.\<close>
fun all_found :: "bool \<Rightarrow> reach_state \<Rightarrow> (time \<times> probe) list \<Rightarrow> bool" where
  "all_found b st [] = True"
| "all_found b st ((t, p) # qs) =
     (IsOnline (re_dev (poll_row all_answer t p st)) = b \<and> all_found b (pollOne all_answer t p st) qs)"

lemma stays_outstanding:
  "reach_inv gap T st \<Longrightarrow> outstanding st \<Longrightarrow> spaced T qs \<Longrightarrow> offlineEventLookupSkew < T \<Longrightarrow> all_found False st qs \<Longrightarrow>
   outstanding (polls st qs)"
proof (induction qs arbitrary: T st)
  case (Cons tp qs)
  obtain t p where tp: "tp = (t, p)" by fastforce
  have "reach_inv gap t (pollOne all_answer t p st) \<and> outstanding (pollOne all_answer t p st)"
    using step_outstanding [of gap T st t p] Cons.prems by (simp add: tp)
  then show ?case using Cons.IH [of t "pollOne all_answer t p st"] Cons.prems by (simp add: tp polls_def)
qed (simp add: polls_def)

text \<open>The count of failed polls reaches the threshold.\<close>
lemma counts_up:
  "reach_inv gap T st \<Longrightarrow> spaced T qs \<Longrightarrow> offlineEventLookupSkew < T \<Longrightarrow> all_found False st qs \<Longrightarrow>
   outstanding st \<or> (\<not> IsOnline (re_dev st) \<and> os_fromOnline (peekOfflineStreak st) \<and>
     os_n (peekOfflineStreak st) < offlineConfirmForCategory (dv_Category (re_dev st)) \<and>
     offlineConfirmForCategory (dv_Category (re_dev st)) \<le> os_n (peekOfflineStreak st) + length qs) \<Longrightarrow>
   outstanding (polls st qs)"
proof (induction qs arbitrary: T st)
  case (Cons tp qs)
  obtain t p where tp: "tp = (t, p)" by fastforce
  let ?st = "pollOne all_answer t p st"
  show ?case
  proof (cases "outstanding st")
    case True
    then show ?thesis using stays_outstanding Cons.prems by blast
  next
    case False
    then have off: "\<not> IsOnline (re_dev st)" "os_fromOnline (peekOfflineStreak st)"
      "os_n (peekOfflineStreak st) < offlineConfirmForCategory (dv_Category (re_dev st))"
      "offlineConfirmForCategory (dv_Category (re_dev st)) \<le> os_n (peekOfflineStreak st) + length (tp # qs)"
      using Cons.prems(5) by blast+
    have fnd: "\<not> IsOnline (re_dev (poll_row all_answer t p st))" using Cons.prems(4) by (simp add: tp)
    have st: "reach_inv gap t ?st" "\<not> IsOnline (re_dev ?st)" "dv_Category (re_dev ?st) = dv_Category (re_dev st)"
      "\<not> outstanding ?st \<Longrightarrow> peekOfflineStreak ?st = (peekOfflineStreak st)\<lparr>os_n := os_n (peekOfflineStreak st) + 1\<rparr> \<and>
         os_n (peekOfflineStreak st) + 1 \<noteq> offlineConfirmForCategory (dv_Category (re_dev st))"
      using step_settled [of gap T st t p] False Cons.prems(1-3) off(1,2) fnd by (simp_all add: tp)
    have "outstanding (polls ?st qs)"
    proof (rule Cons.IH [OF st(1)])
      show "outstanding ?st \<or> (\<not> IsOnline (re_dev ?st) \<and> os_fromOnline (peekOfflineStreak ?st) \<and>
         os_n (peekOfflineStreak ?st) < offlineConfirmForCategory (dv_Category (re_dev ?st)) \<and>
         offlineConfirmForCategory (dv_Category (re_dev ?st)) \<le> os_n (peekOfflineStreak ?st) + length qs)"
        using st(2-4) off(2-4) by (cases "outstanding ?st") auto
    qed (use Cons.prems in \<open>simp_all add: tp\<close>)
    then show ?thesis by (simp add: tp polls_def)
  qed
qed (auto simp: polls_def)

lemma found_events:
  "re_events st \<noteq> [] \<Longrightarrow> re_events (fst (found_online an now was since h st)) \<noteq> []"
  "re_events st \<noteq> [] \<Longrightarrow> re_events (found_offline an now prev was since h st) \<noteq> []"
  by (simp_all add: reach_defs Let_def split: option.split)

lemma poll_events: "re_events st \<noteq> [] \<Longrightarrow> re_events (pollOne an now p st) \<noteq> []"
proof -
  assume e: "re_events st \<noteq> []"
  have "re_events (fst (emitReachabilityTransition an now prev was (poll_row an now p st))) \<noteq> []" for prev was
    using e found_events by (simp add: emitReachabilityTransition_def Let_def)
  then show ?thesis using e
    by (simp add: pollOne_def Let_def case_prod_beta EnsureOfflineSince_def RefreshOfflineSince_def)
qed

definition reported_back :: "reach_state \<Rightarrow> bool" where
  "reported_back st \<longleftrightarrow> (case re_events st of [] \<Rightarrow> False | (k, t) # _ \<Rightarrow> k = DEVICE_ONLINE)"

lemma settled_after: "re_events st \<noteq> [] \<Longrightarrow> \<not> outstanding st \<Longrightarrow> reported_back st"
  by (auto simp: outstanding_def reported_back_def split: list.splits) (metis reach_kind.exhaust)

lemma two_online:
  assumes inv: "reach_inv gap T st" "offlineEventLookupSkew < T" and out: "outstanding st"
    and qs: "spaced T [(t1, p1), (t2, p2)]" "all_found True st [(t1, p1), (t2, p2)]"
  shows "reported_back (polls st [(t1, p1), (t2, p2)])"
proof -
  let ?st1 = "pollOne all_answer t1 p1 st"
  have 1: "reach_inv gap t1 ?st1" "IsOnline (re_dev ?st1)" "outstanding ?st1 \<longleftrightarrow> \<not> IsOnline (re_dev st)"
    using step_outstanding [OF inv(1) out, of t1 p1] qs by simp_all
  have "re_events st \<noteq> []" using out by (auto simp: outstanding_def)
  then have ne: "re_events (pollOne all_answer t2 p2 ?st1) \<noteq> []" by (intro poll_events)
  have "\<not> outstanding (pollOne all_answer t2 p2 ?st1)"
    using step_outstanding [OF 1(1), of t2 p2] step_settled [OF 1(1), of t2 p2] 1(2) qs inv(2)
    by (cases "outstanding ?st1") simp_all
  then show ?thesis using settled_after ne by (simp add: polls_def)
qed

lemma category_polls:
  "reach_inv gap T st \<Longrightarrow> T + 15 * second < t \<Longrightarrow> offlineEventLookupSkew < T \<Longrightarrow>
   dv_Category (re_dev (pollOne all_answer t p st)) = dv_Category (re_dev st)"
  using step_outstanding [of gap T st t p] step_settled [of gap T st t p] by (cases "outstanding st") simp_all

lemma given_up:
  assumes inv: "reach_inv gap T st" "offlineEventLookupSkew < T" and on: "IsOnline (re_dev st)"
    and qs: "spaced T qs" "all_found False st qs" "offlineConfirmForCategory (dv_Category (re_dev st)) \<le> length qs"
  shows "outstanding (polls st qs)"
proof (cases "outstanding st")
  case True
  then show ?thesis using stays_outstanding inv qs by blast
next
  case False
  obtain t p rs where q: "qs = (t, p) # rs"
    using qs(3) confirm_bounds [of "dv_Category (re_dev st)"] by (cases qs) auto
  let ?st1 = "pollOne all_answer t p st"
  have 1: "reach_inv gap t ?st1" "\<not> IsOnline (re_dev ?st1)" "dv_Category (re_dev ?st1) = dv_Category (re_dev st)"
    "\<not> outstanding ?st1 \<Longrightarrow> peekOfflineStreak ?st1 = \<lparr>os_n = 1, os_fromOnline = True\<rparr>"
    using step_settled [OF inv(1) False, of t p] qs inv(2) on by (simp_all add: q)
  have "outstanding (polls ?st1 rs)"
  proof (rule counts_up [OF 1(1)])
    show "outstanding ?st1 \<or> (\<not> IsOnline (re_dev ?st1) \<and> os_fromOnline (peekOfflineStreak ?st1) \<and>
       os_n (peekOfflineStreak ?st1) < offlineConfirmForCategory (dv_Category (re_dev ?st1)) \<and>
       offlineConfirmForCategory (dv_Category (re_dev ?st1)) \<le> os_n (peekOfflineStreak ?st1) + length rs)"
      using 1(2-4) qs(3) confirm_bounds [of "dv_Category (re_dev st)"] by (cases "outstanding ?st1") (simp_all add: q)
  qed (use qs inv in \<open>simp_all add: q\<close>)
  then show ?thesis by (simp add: q polls_def)
qed


section \<open>A device\<close>

definition camera :: reach_state where
  "camera = \<lparr>re_dev = \<lparr>dv_Host = ''10.0.0.5'', dv_Category = ''camera'', dv_Mode = ''ping'', dv_Override = None,
       dv_SNMPOK = None, dv_PingOK = None, dv_OfflineSince = None, dv_PollInterval = 60, dv_HeavyInterval = None,
       dv_LastPoll = None, dv_LastHeavy = None\<rparr>,
     re_events = [], re_off = None, re_on = None, re_backoff = None\<rparr>"

abbreviation minutes :: "int \<Rightarrow> time" where "minutes n \<equiv> n * 60 * second"

definition alive :: probe where "alive = \<lparr>pr_ping = True, pr_snmp = SysGetError\<rparr>"
definition dead :: probe where "dead = \<lparr>pr_ping = False, pr_snmp = SysGetError\<rparr>"

definition camera_gone :: "(time \<times> probe) list" where
  "camera_gone = [(minutes 2, alive), (minutes 3, dead), (minutes 4, dead), (minutes 5, dead), (minutes 6, dead)]"

lemma camera_unreported: "unreported (minutes 1) camera"
proof -
  have "TrimSpace ''10.0.0.5'' \<noteq> []" by code_simp
  then show ?thesis by (simp add: unreported_def camera_def)
qed

theorem notices_alternate_witness:
  "alternating (map fst (re_events (polls camera (camera_gone @ [(minutes 7, alive), (minutes 8, dead), (minutes 9, alive), (minutes 10, alive)]))))"
  by (rule notices_alternate [OF camera_unreported]) (simp add: camera_gone_def)


section \<open>What the alternation does not survive\<close>

text \<open>
  A restart between the two polls that confirm a return clears \<open>offline_since\<close> (the device is online
  at that moment), so the return is never reported, and the next absence is a second notice in a row.
\<close>
lemma restart_loses_return:
  "\<not> reported_back (polls (restart (minutes 7 + second) (polls camera (camera_gone @ [(minutes 7, alive)])))
      [(minutes 8, alive), (minutes 9, alive), (minutes 10, alive)])"
  by code_simp

lemma restart_repeats_notice:
  "map fst (re_events (polls (restart (minutes 7 + second) (polls camera (camera_gone @ [(minutes 7, alive)])))
      [(minutes 8, dead), (minutes 9, dead), (minutes 10, dead)])) = [DEVICE_OFFLINE, DEVICE_OFFLINE]"
  by code_simp

text \<open>
  With polls ten seconds apart, the shortest interval a device may have, the notice of one absence is
  taken for the notice of the next short one: the device is reported back twice.
\<close>
lemma ten_second_polls:
  "map fst (re_events (polls camera (map (\<lambda>(i, p). (minutes 2 + i * 10 * second, p))
     [(0, alive), (1, dead), (2, dead), (3, dead), (4, alive), (5, alive), (6, dead), (7, alive), (8, alive)]))) =
   [DEVICE_ONLINE, DEVICE_ONLINE, DEVICE_OFFLINE]"
  by code_simp

text \<open>
  When the insertion of the notice fails, the counters already say that it was made: the absence is
  not reported while the process runs.
\<close>
lemma failed_insert_silences:
  "re_events (polls (pollOne (all_answer\<lparr>an_insert := False\<rparr>) (minutes 5) dead (polls camera
       [(minutes 2, alive), (minutes 3, dead), (minutes 4, dead)]))
     [(minutes 6, dead), (minutes 7, dead), (minutes 8, dead)]) = []"
  by code_simp

end
