(* ===== verification/Mac_Text.thy ===== *)
theory Mac_Text
  imports Net_Addr
begin

text \<open>
  What a user typed: an address, a MAC address or a name (\<open>internal/store/netquery.go\<close>). A MAC address is
  kept in one canonical form, six pairs of lower-case digits with colons.
\<close>

section \<open>Reading\<close>

definition is_hex :: "char \<Rightarrow> bool" where
  "is_hex c \<longleftrightarrow> is_digit c \<or> (97 \<le> (of_char c :: nat) \<and> (of_char c :: nat) \<le> 102) \<or> (65 \<le> (of_char c :: nat) \<and> (of_char c :: nat) \<le> 70)"

text \<open>\<open>hexOnly\<close>: \<open>^[0-9a-fA-F:]+$\<close>\<close>
definition hexOnly :: "string \<Rightarrow> bool" where
  "hexOnly s \<longleftrightarrow> s \<noteq> [] \<and> list_all (\<lambda>c. is_hex c \<or> c = CHR '':'') s"

text \<open>Also the \<open>strings.Map\<close> of \<open>NormalizeMACQuery\<close>.\<close>
definition macHexDigits :: "string \<Rightarrow> string" where
  "macHexDigits raw = map lower_char (filter is_hex raw)"

text \<open>The loop that writes pairs with a colon between them.\<close>
fun colon_pairs :: "string \<Rightarrow> string" where
  "colon_pairs (a # b # c # rest) = a # b # CHR '':'' # colon_pairs (c # rest)"
| "colon_pairs s = s"

definition NormalizeMACQuery :: "string \<Rightarrow> string option" where
  "NormalizeMACQuery raw =
     (let s = TrimSpace raw in
      if s = [] then None
      else if Contains s '':'' \<or> Contains s ''-'' \<or> hexOnly s then
        (let hex = macHexDigits s in
         if length hex < 6 \<or> length hex > 12 \<or> length hex mod 2 \<noteq> 0 then None
         else Some (colon_pairs hex))
      else None)"

definition FormatFullMAC :: "string \<Rightarrow> string option" where
  "FormatFullMAC raw = (case NormalizeMACQuery raw of
     None \<Rightarrow> None
   | Some mac \<Rightarrow> if length (filter (\<lambda>c. c \<noteq> CHR '':'') mac) \<noteq> 12 then None else Some mac)"

text \<open>The host and the MAC address of a text typed into the field of the host.\<close>
definition SplitHostOrMAC :: "string \<Rightarrow> string \<times> string" where
  "SplitHostOrMAC raw0 =
     (let raw = TrimSpace raw0 in
      if raw = [] then ([], [])
      else case FormatFullMAC raw of Some m \<Rightarrow> ([], m) | None \<Rightarrow> (raw, []))"

datatype SearchQueryKind = SearchQueryLabel | SearchQueryMAC | SearchQueryIP

definition ClassifySearchQuery :: "string \<Rightarrow> SearchQueryKind \<times> string" where
  "ClassifySearchQuery raw =
     (let s = TrimSpace raw in
      if s = [] then (SearchQueryLabel, [])
      else case (case ParseIP s of None \<Rightarrow> None | Some a \<Rightarrow> To4 a) of
        Some v \<Rightarrow> (SearchQueryIP, Join (map (\<lambda>b. Itoa (uint b)) v) ''.'')
      | None \<Rightarrow> (case NormalizeMACQuery s of Some mac \<Rightarrow> (SearchQueryMAC, mac) | None \<Rightarrow> (SearchQueryLabel, s)))"

section \<open>The canonical form\<close>

definition lower_hex :: "char \<Rightarrow> bool" where
  "lower_hex c \<longleftrightarrow> is_digit c \<or> (97 \<le> (of_char c :: nat) \<and> (of_char c :: nat) \<le> 102)"

definition canonical_mac :: "string \<Rightarrow> bool" where
  "canonical_mac m \<longleftrightarrow> (\<exists>ds. length ds = 12 \<and> list_all lower_hex ds \<and> m = colon_pairs ds)"

lemma lower_hexD: "lower_hex c \<Longrightarrow> is_hex c \<and> lower_char c = c \<and> c \<noteq> CHR '':'' \<and> \<not> is_space c"
  by (auto simp: lower_hex_def is_hex_def lower_char_def is_upper_def is_digit_def is_space_def)

lemma lower_char_hex: "is_hex c \<Longrightarrow> lower_hex (lower_char c)"
  by (auto simp: lower_hex_def is_hex_def lower_char_def is_upper_def is_digit_def of_char_of)

lemma macHexDigits_lower: "list_all lower_hex (macHexDigits s)"
  by (simp add: macHexDigits_def list_all_iff lower_char_hex)

lemma filter_colon_pairs: "list_all (\<lambda>c. c \<noteq> CHR '':'') ds \<Longrightarrow> filter (\<lambda>c. c \<noteq> CHR '':'') (colon_pairs ds) = ds"
  by (induction ds rule: colon_pairs.induct) auto

lemma set_colon_pairs: "set (colon_pairs ds) \<subseteq> insert CHR '':'' (set ds)"
  by (induction ds rule: colon_pairs.induct) auto

lemma hex_colon_pairs: "list_all lower_hex ds \<Longrightarrow> macHexDigits (colon_pairs ds) = ds"
proof (induction ds rule: colon_pairs.induct)
  case (1 a b c rest)
  have "\<not> is_hex CHR '':''" by (simp add: is_hex_def is_digit_def)
  then show ?case using 1 lower_hexD by (simp add: macHexDigits_def)
qed (use lower_hexD in \<open>auto simp: macHexDigits_def\<close>)

lemma colon_pairs_trim: "list_all lower_hex ds \<Longrightarrow> TrimSpace (colon_pairs ds) = colon_pairs ds"
proof (rule TrimSpace_no_space)
  assume ds: "list_all lower_hex ds"
  have "\<not> is_space CHR '':''" by (simp add: is_space_def)
  then show "\<forall>c\<in>set (colon_pairs ds). \<not> is_space c"
    using ds set_colon_pairs [of ds] lower_hexD by (fastforce simp: list_all_iff)
qed

lemma FormatFullMAC_eq:
  "FormatFullMAC raw =
     (let s = TrimSpace raw in
      if (Contains s '':'' \<or> Contains s ''-'' \<or> hexOnly s) \<and> length (macHexDigits s) = 12
      then Some (colon_pairs (macHexDigits s)) else None)"
proof -
  have "length (filter (\<lambda>c. c \<noteq> CHR '':'') (colon_pairs (macHexDigits s))) = length (macHexDigits s)" for s
    using macHexDigits_lower [of s] lower_hexD filter_colon_pairs [of "macHexDigits s"]
    by (simp add: list_all_iff)
  moreover have "macHexDigits [] = []" by (simp add: macHexDigits_def)
  ultimately show ?thesis by (auto simp: FormatFullMAC_def NormalizeMACQuery_def Let_def)
qed

lemma canonical_FormatFullMAC: "canonical_mac m \<Longrightarrow> FormatFullMAC m = Some m"
proof -
  assume "canonical_mac m"
  then obtain ds where ds: "length ds = 12" "list_all lower_hex ds" "m = colon_pairs ds" unfolding canonical_mac_def by blast
  obtain a b c d e f g h i j k l where l: "ds = [a, b, c, d, e, f, g, h, i, j, k, l]"
    using ds(1) by (auto simp: numeral_eq_Suc length_Suc_conv)
  have "CHR '':'' \<in> set (colon_pairs ds)" by (simp add: l)
  then show ?thesis using ds by (simp add: FormatFullMAC_eq colon_pairs_trim hex_colon_pairs Contains_char)
qed

lemma canonical_lower: "canonical_mac m \<Longrightarrow> ToLower m = m \<and> TrimSpace m = m \<and> m \<noteq> []"
proof -
  assume "canonical_mac m"
  then obtain ds where ds: "length ds = 12" "list_all lower_hex ds" "m = colon_pairs ds" unfolding canonical_mac_def by blast
  have "map lower_char (colon_pairs ds) = colon_pairs ds" if "list_all lower_hex ds" for ds
  proof (rule map_idI)
    fix c assume "c \<in> set (colon_pairs ds)"
    then have "c = CHR '':'' \<or> lower_hex c" using that set_colon_pairs [of ds] by (auto simp: list_all_iff)
    moreover have "lower_char CHR '':'' = CHR '':''" by (simp add: lower_char_def is_upper_def)
    ultimately show "lower_char c = c" using lower_hexD by blast
  qed
  then have "ToLower m = m" using ds by (simp add: ToLower_def)
  moreover have "TrimSpace m = m" using ds by (simp add: colon_pairs_trim)
  moreover have "m \<noteq> []" using ds(1) unfolding ds(3) by (cases ds rule: colon_pairs.cases) auto
  ultimately show ?thesis by blast
qed

text \<open>
  \<open>FormatFullMAC\<close> gives canonical addresses only, each of which it reads back as itself, and two
  texts are the same address exactly when their hexadecimal digits agree up to case.
\<close>
theorem FormatFullMAC_canonical:
  assumes "FormatFullMAC raw = Some m"
  shows "canonical_mac m \<and> FormatFullMAC m = Some m \<and> length m = 17 \<and>
    (\<forall>raw' m'. FormatFullMAC raw' = Some m' \<longrightarrow> (m' = m \<longleftrightarrow> macHexDigits (TrimSpace raw') = macHexDigits (TrimSpace raw)))"
proof -
  define ds where "ds = macHexDigits (TrimSpace raw)"
  have ds: "list_all lower_hex ds" "length ds = 12" and m: "m = colon_pairs ds"
    using assms macHexDigits_lower by (auto simp: FormatFullMAC_eq ds_def Let_def split: if_splits)
  have can: "canonical_mac m" using ds m unfolding canonical_mac_def by blast
  then have "FormatFullMAC m = Some m" by (rule canonical_FormatFullMAC)
  moreover have "m' = m \<longleftrightarrow> macHexDigits (TrimSpace raw') = ds" if "FormatFullMAC raw' = Some m'" for raw' m'
    using that ds(1) hex_colon_pairs macHexDigits_lower unfolding FormatFullMAC_eq m Let_def
    by (metis option.distinct(1) option.inject)
  moreover have "length m = 17"
    using ds(2) unfolding m by (auto simp: numeral_eq_Suc length_Suc_conv)
  ultimately show ?thesis using can by (simp add: ds_def)
qed

theorem FormatFullMAC_canonical_witness:
  "canonical_mac ''00:1a:2b:3c:4d:5e'' \<and> FormatFullMAC ''00:1a:2b:3c:4d:5e'' = Some ''00:1a:2b:3c:4d:5e''"
proof -
  have "FormatFullMAC ''001A-2B3C-4D5E'' = Some ''00:1a:2b:3c:4d:5e''" by code_simp
  then show ?thesis using FormatFullMAC_canonical by blast
qed

text \<open>
  A text with a colon or a dash is taken for a MAC address as soon as it holds twelve hexadecimal
  digits, whatever else is in it: an address with a port, an IPv6 address or a host name is stored
  as the MAC address of the device, whose host stays empty.
\<close>
lemma hosts_taken_for_macs:
  "SplitHostOrMAC ''192.168.1.10:161'' = ([], ''19:21:68:11:01:61'')"
  "SplitHostOrMAC ''2001:db8:0:1::25:1'' = ([], ''20:01:db:80:12:51'')"
  "SplitHostOrMAC ''sw-access-floor2-cab42b'' = ([], ''ac:ce:f2:ca:b4:2b'')"
  by code_simp+

end
