(* ===== verification/Event_Log.thy ===== *)
theory Event_Log
  imports Complex_Main Mac_Text
begin

text \<open>
  Events of a device and what follows from them (\<open>emit\<close> and \<open>maybeIncidentAction\<close> of
  \<open>internal/poller/poller.go\<close>; \<open>port_ignore.go\<close>, \<open>incident_cooldown.go\<close>, the lookups of
  \<open>mac_moves.go\<close>, \<open>snmp_text.go\<close> and \<open>mac_wifi.go\<close> in \<open>internal/store\<close>; \<open>internal/actions\<close>).
  The log of a device is the list of its rows in the table of events, the latest first. What the
  database, the notifier and the switch answer is an argument.
\<close>

section \<open>Events\<close>

definition upper_char :: "char \<Rightarrow> char" where
  "upper_char c = (if 97 \<le> (of_char c :: nat) \<and> (of_char c :: nat) \<le> 122 then char_of ((of_char c :: nat) - 32) else c)"

text \<open>\<open>strings.ToUpper\<close> on ASCII.\<close>
definition ToUpper :: "string \<Rightarrow> string" where
  "ToUpper s = map upper_char s"

text \<open>A value of a payload.\<close>
datatype pval = PInt int | PStr string | PBool bool | PNum rat | PInts "int list" | PStrs "string list"
  | PMaps "(string \<times> pval) list list"

type_synonym payload = "(string \<times> pval) list"

record event =
  ev_if :: "int option"
  ev_type :: string
  ev_sev :: string
  ev_pl :: payload
  ev_at :: time

type_synonym log = "event list"

definition pl_str :: "payload \<Rightarrow> string \<Rightarrow> string option" where
  "pl_str pl k = (case map_of pl k of Some (PStr s) \<Rightarrow> Some s | _ \<Rightarrow> None)"

definition pl_mac :: "payload \<Rightarrow> string \<Rightarrow> string option" where
  "pl_mac pl k = (case pl_str pl k of None \<Rightarrow> None | Some m \<Rightarrow> map_option ToLower (FormatFullMAC m))"

definition EventPayloadMAC :: "string \<Rightarrow> payload \<Rightarrow> string" where
  "EventPayloadMAC typ pl =
     (case pl_mac pl ''mac'' of
        Some m \<Rightarrow> m
      | None \<Rightarrow>
          if typ = ''ACCESS_PORT_MAC_SUBSTITUTED'' then
            (case pl_mac pl ''new_mac'' of
               Some m \<Rightarrow> m
             | None \<Rightarrow> (case pl_mac pl ''old_mac'' of Some m \<Rightarrow> m | None \<Rightarrow> []))
          else [])"

definition HasPortEventSince :: "log \<Rightarrow> int \<Rightarrow> string \<Rightarrow> time \<Rightarrow> bool" where
  "HasPortEventSince lg ifIndex typ since \<longleftrightarrow>
     \<not> (ifIndex \<le> 0 \<or> typ = []) \<and>
     list_ex (\<lambda>e. ev_if e = Some ifIndex \<and> ev_type e = typ \<and> ev_at e \<ge> since) lg"

definition HasMACEventSince :: "log \<Rightarrow> string \<Rightarrow> string \<Rightarrow> time \<Rightarrow> bool" where
  "HasMACEventSince lg typ mac since =
     (case FormatFullMAC mac of
        None \<Rightarrow> False
      | Some m \<Rightarrow> list_ex (\<lambda>e. ev_type e = typ \<and> ev_at e \<ge> since \<and>
          ToLower (case pl_str (ev_pl e) ''mac'' of None \<Rightarrow> [] | Some s \<Rightarrow> s) = m) lg)"

text \<open>Whether a LINK event came from a trap: its source, or the mark of a poll that confirmed one.\<close>
definition from_trap :: "event \<Rightarrow> bool" where
  "from_trap e \<longleftrightarrow> ToLower (case pl_str (ev_pl e) ''source'' of None \<Rightarrow> [] | Some s \<Rightarrow> s) = ''trap'' \<or>
     map_of (ev_pl e) ''trap_confirmed'' = Some (PBool True) \<or> map_of (ev_pl e) ''trap_confirmed'' = Some (PStr ''true'')"

definition link_events :: "log \<Rightarrow> int \<Rightarrow> time \<Rightarrow> log" where
  "link_events lg ifIndex since =
     filter (\<lambda>e. ev_if e = Some ifIndex \<and> ev_at e \<ge> since \<and> (ev_type e = ''LINK_UP'' \<or> ev_type e = ''LINK_DOWN'')) lg"

definition CountLinkEventsWithSources :: "log \<Rightarrow> int \<Rightarrow> time \<Rightarrow> nat \<times> string list" where
  "CountLinkEventsWithSources lg ifIndex since =
     (if ifIndex \<le> 0 then (0, [])
      else let es = link_events lg ifIndex since in
        (length es, (if list_ex (\<lambda>e. \<not> from_trap e) es then [''poll''] else []) @ (if list_ex from_trap es then [''trap''] else [])))"

section \<open>Texts read over SNMP\<close>

definition hex_val :: "char \<Rightarrow> nat" where
  "hex_val c = (if is_digit c then nat (digit_val c)
     else if (of_char c :: nat) \<ge> 97 then of_char c - 87 else of_char c - 55)"

fun hex_bytes :: "string \<Rightarrow> nat list" where
  "hex_bytes (a # b # s) = (hex_val a * 16 + hex_val b) # hex_bytes s"
| "hex_bytes _ = []"

definition decodeHexPrintableASCII :: "string \<Rightarrow> string option" where
  "decodeHexPrintableASCII s =
     (if length s < 16 \<or> length s mod 2 \<noteq> 0 \<or> \<not> list_all is_hex s then None
      else let raw = rev (dropWhile (\<lambda>b. b = 0) (rev (hex_bytes s))) in
        if length raw < 8 \<or> list_ex (\<lambda>b. b < 0x20 \<or> b \<ge> 0x7f) raw then None
        else Some (map char_of raw))"

definition humanizeSNMPText :: "string \<Rightarrow> string" where
  "humanizeSNMPText s0 = (let s = TrimSpace s0 in
     if s = [] then s else case decodeHexPrintableASCII s of Some d \<Rightarrow> d | None \<Rightarrow> s)"

section \<open>Rules that silence a port\<close>

record PortEventIgnore =
  ig_EventTypes :: "string option"
  ig_BlockEvents :: bool
  ig_BlockNotify :: bool
  ig_BlockActions :: bool

definition MatchesIgnoreEventTypes :: "string \<Rightarrow> string option \<Rightarrow> bool" where
  "MatchesIgnoreEventTypes eventType flt =
     (case flt of
        None \<Rightarrow> True
      | Some f \<Rightarrow>
          let raw = TrimSpace f in
          if raw = [] \<or> raw = ''*'' then True
          else list_ex (\<lambda>part. ToUpper (TrimSpace part) = ToUpper (TrimSpace eventType)) (Split raw CHR '',''))"

type_synonym ignores = "(int \<times> PortEventIgnore) list"

definition ignoreReaction :: "ignores \<Rightarrow> int option \<Rightarrow> string \<Rightarrow> bool \<times> bool \<times> bool" where
  "ignoreReaction ig ifIdx typ =
     (case ifIdx of
        None \<Rightarrow> (False, False, False)
      | Some i \<Rightarrow>
          (case map_of ig i of
             None \<Rightarrow> (False, False, False)
           | Some rule \<Rightarrow>
               if \<not> MatchesIgnoreEventTypes typ (ig_EventTypes rule) then (False, False, False)
               else (ig_BlockEvents rule, ig_BlockNotify rule, ig_BlockActions rule)))"

section \<open>Emitting an event\<close>

text \<open>
  The log, the events published to the live hub, those given to the notifier, and the incident
  actions started, each the latest first.
\<close>
record emitted =
  em_log :: log
  em_live :: log
  em_hook :: log
  em_actions :: "(int option \<times> string \<times> time) list"

text \<open>
  \<open>ee_wifi\<close> is \<open>ShouldSkipWiFiMACTracking\<close> (\<open>None\<close>: an error), \<open>ee_insert\<close> whether the row of an event is inserted,
  \<open>ee_accepts\<close> whether background tasks are still accepted.
\<close>
record emit_env =
  ee_wifi :: "string \<Rightarrow> bool option"
  ee_insert :: "event \<Rightarrow> bool"
  ee_hub :: bool
  ee_hook :: bool
  ee_accepts :: bool

definition emit :: "emit_env \<Rightarrow> ignores \<Rightarrow> time \<Rightarrow> int option \<Rightarrow> string \<Rightarrow> string \<Rightarrow> payload \<Rightarrow> emitted \<Rightarrow> emitted" where
  "emit env ig now ifIdx typ sev pl em =
     (case ignoreReaction ig ifIdx typ of (blockEv, blockNotify, blockActions) \<Rightarrow>
        if blockEv then em
        else let mac = EventPayloadMAC typ pl in
          if mac \<noteq> [] \<and> ee_wifi env mac \<noteq> Some False then em
          else let e = \<lparr>ev_if = ifIdx, ev_type = typ, ev_sev = sev, ev_pl = pl, ev_at = now\<rparr> in
            if \<not> ee_insert env e then em
            else \<lparr>em_log = e # em_log em,
             em_live = (if ee_hub env then e # em_live em else em_live em),
             em_hook = (if ee_hook env \<and> \<not> blockNotify then e # em_hook em else em_hook em),
             em_actions = (if \<not> blockActions \<and> ee_accepts env then (ifIdx, typ, now) # em_actions em else em_actions em)\<rparr>)"

text \<open>An event is dropped, or it is the new head of the log.\<close>
lemma emit_cases:
  "emit env ig now ifIdx typ sev pl em = em \<or>
   em_log (emit env ig now ifIdx typ sev pl em) =
     \<lparr>ev_if = ifIdx, ev_type = typ, ev_sev = sev, ev_pl = pl, ev_at = now\<rparr> # em_log em"
  by (cases "ignoreReaction ig ifIdx typ") (simp add: emit_def Let_def)

section \<open>Incident actions\<close>

definition actionMatchesFilter :: "string \<Rightarrow> string option \<Rightarrow> bool" where
  "actionMatchesFilter value0 flt =
     (let value = ToUpper (TrimSpace value0) in
      if value = [] then False
      else case flt of
        None \<Rightarrow> True
      | Some f \<Rightarrow>
          if TrimSpace f = [] then True
          else list_ex (\<lambda>part. let p = ToUpper (TrimSpace part) in p \<noteq> [] \<and> (p = ''*'' \<or> p = value)) (Split f CHR '',''))"

record NotificationSettings =
  ns_Enabled :: bool
  ns_EventTypes :: "string option"
  ns_CooldownSeconds :: int
  ns_DryRun :: bool

text \<open>
  The cooldowns of a device by port, the ports it was told to switch off with the time, and its log.
\<close>
record incident =
  ic_cooldown :: "int \<rightharpoonup> time"
  ic_downs :: "(int \<times> time) list"
  ic_log :: log

definition IncidentActionInCooldown :: "incident \<Rightarrow> int \<Rightarrow> int \<Rightarrow> time \<Rightarrow> bool" where
  "IncidentActionInCooldown st ifIndex cooldownSec now =
     (if cooldownSec \<le> 0 then False
      else case ic_cooldown st ifIndex of None \<Rightarrow> False | Some lastAt \<Rightarrow> now - lastAt < cooldownSec * 1000000000)"

definition TouchIncidentActionCooldown :: "incident \<Rightarrow> int \<Rightarrow> time \<Rightarrow> incident" where
  "TouchIncidentActionCooldown st ifIndex now = st\<lparr>ic_cooldown := (ic_cooldown st)(ifIndex \<mapsto> now)\<rparr>"

text \<open>What the database and the switch answer: the settings, the cooldown, the SNMP write, the event, the mark.\<close>
record incident_env =
  ie_settings :: "NotificationSettings option"
  ie_cooldown :: bool
  ie_snmp :: bool
  ie_insert :: bool
  ie_touch :: bool

definition admin_down_event :: "int \<Rightarrow> string \<Rightarrow> payload \<Rightarrow> time \<Rightarrow> event" where
  "admin_down_event i sev pl now = \<lparr>ev_if = Some i, ev_type = ''PORT_ADMIN_DOWN_ACTION'', ev_sev = sev, ev_pl = pl, ev_at = now\<rparr>"

text \<open>The flag says that no error is returned; the switch is written before the event is stored.\<close>
definition TryPortAdminDown :: "incident_env \<Rightarrow> int \<Rightarrow> time \<Rightarrow> incident \<Rightarrow> incident \<times> bool" where
  "TryPortAdminDown env ifIndex now st =
     (if ifIndex \<le> 0 then (st, True)
      else if \<not> ie_snmp env then (st, False)
      else let st = st\<lparr>ic_downs := (ifIndex, now) # ic_downs st\<rparr> in
        if ie_insert env
        then (st\<lparr>ic_log := admin_down_event ifIndex ''warning'' [(''if_index'', PInt ifIndex), (''action'', PStr ''admin_down'')] now # ic_log st\<rparr>, True)
        else (st, False))"

text \<open>The checks of \<open>maybeIncidentAction\<close>, and what follows when they pass.\<close>
definition incident_check :: "incident_env \<Rightarrow> int option \<Rightarrow> string \<Rightarrow> time \<Rightarrow> incident \<Rightarrow> (int \<times> NotificationSettings) option" where
  "incident_check env ifIdx typ now st =
     (case (ifIdx, ie_settings env) of
        (Some i, Some ns) \<Rightarrow>
          if \<not> ns_Enabled ns \<or> \<not> actionMatchesFilter typ (ns_EventTypes ns) \<or> \<not> ie_cooldown env
            \<or> IncidentActionInCooldown st i (ns_CooldownSeconds ns) now then None
          else Some (i, ns)
      | _ \<Rightarrow> None)"

definition incident_act :: "incident_env \<Rightarrow> time \<Rightarrow> int \<times> NotificationSettings \<Rightarrow> incident \<Rightarrow> incident" where
  "incident_act env now ins st =
     (case ins of (i, ns) \<Rightarrow>
        if ns_DryRun ns then
          (let pl = [(''if_index'', PInt i), (''action'', PStr ''admin_down''), (''dry_run'', PBool True)];
               st = (if ie_insert env then st\<lparr>ic_log := admin_down_event i ''info'' pl now # ic_log st\<rparr> else st)
           in if ie_touch env then TouchIncidentActionCooldown st i now else st)
        else (case TryPortAdminDown env i now st of
            (st, False) \<Rightarrow> st
          | (st, True) \<Rightarrow> if ie_touch env then TouchIncidentActionCooldown st i now else st))"

definition maybeIncidentAction :: "incident_env \<Rightarrow> int option \<Rightarrow> string \<Rightarrow> time \<Rightarrow> incident \<Rightarrow> incident" where
  "maybeIncidentAction env ifIdx typ now st =
     (case incident_check env ifIdx typ now st of None \<Rightarrow> st | Some ins \<Rightarrow> incident_act env now ins st)"

section \<open>A port is switched off at most once per cooldown\<close>

text \<open>An event that asks for an action: when, with which settings and answers, on which port.\<close>
record incident_request =
  iq_env :: incident_env
  iq_if :: "int option"
  iq_type :: string
  iq_now :: time

definition incidents :: "incident \<Rightarrow> incident_request list \<Rightarrow> incident" where
  "incidents st qs = foldl (\<lambda>st q. maybeIncidentAction (iq_env q) (iq_if q) (iq_type q) (iq_now q) st) st qs"

text \<open>Two entries of one port lie at least \<open>d\<close> apart.\<close>
fun apart :: "duration \<Rightarrow> (int \<times> time) list \<Rightarrow> bool" where
  "apart d [] = True"
| "apart d ((i, t) # ds) = (list_all (\<lambda>(j, u). j = i \<longrightarrow> u + d \<le> t) ds \<and> apart d ds)"

definition downs_ok :: "duration \<Rightarrow> time \<Rightarrow> incident \<Rightarrow> bool" where
  "downs_ok d T st \<longleftrightarrow> apart d (ic_downs st) \<and>
     list_all (\<lambda>(i, t). t \<le> T \<and> (case ic_cooldown st i of None \<Rightarrow> False | Some u \<Rightarrow> t \<le> u)) (ic_downs st) \<and>
     (\<forall>i u. ic_cooldown st i = Some u \<longrightarrow> u \<le> T)"

definition kept_records :: "int \<Rightarrow> incident_request \<Rightarrow> bool" where
  "kept_records cooldown q \<longleftrightarrow> ie_insert (iq_env q) \<and> ie_touch (iq_env q) \<and>
     (case ie_settings (iq_env q) of None \<Rightarrow> True | Some ns \<Rightarrow> cooldown \<le> ns_CooldownSeconds ns)"

lemma incident_step:
  assumes ok: "downs_ok (c * 1000000000) T st" and t: "T \<le> iq_now q" and k: "kept_records c q" and c: "0 < c"
  shows "downs_ok (c * 1000000000) (iq_now q) (maybeIncidentAction (iq_env q) (iq_if q) (iq_type q) (iq_now q) st)"
proof -
  let ?d = "c * 1000000000" and ?now = "iq_now q" and ?env = "iq_env q"
  have later: "downs_ok ?d ?now st" using ok t by (fastforce simp: downs_ok_def list_all_iff)
  show ?thesis
  proof (cases "incident_check ?env (iq_if q) (iq_type q) ?now st")
    case None
    then show ?thesis using later by (simp add: maybeIncidentAction_def)
  next
    case (Some ins)
    then obtain i ns where ins: "ins = (i, ns)" "ie_settings ?env = Some ns"
      "\<not> IncidentActionInCooldown st i (ns_CooldownSeconds ns) ?now"
      by (auto simp: incident_check_def split: option.splits if_splits)
    have cs: "c \<le> ns_CooldownSeconds ns" using k ins(2) by (simp add: kept_records_def)
    have free: "t + ?d \<le> ?now" if "(i, t) \<in> set (ic_downs st)" for t
    proof -
      have "case ic_cooldown st i of None \<Rightarrow> False | Some u \<Rightarrow> t \<le> u"
        using later that by (auto simp: downs_ok_def list_all_iff)
      then obtain u where u: "ic_cooldown st i = Some u" "t \<le> u" by (cases "ic_cooldown st i") auto
      then have "ns_CooldownSeconds ns * 1000000000 \<le> ?now - u"
        using ins(3) cs c by (simp add: IncidentActionInCooldown_def)
      then show ?thesis using cs u by linarith
    qed
    define st' where "st' = incident_act ?env ?now ins st"
    have kr: "ie_insert ?env" "ie_touch ?env" using k by (simp_all add: kept_records_def)
    have cases: "(ic_downs st' = ic_downs st \<and> (ic_cooldown st' = ic_cooldown st \<or> ic_cooldown st' = (ic_cooldown st)(i \<mapsto> ?now))) \<or>
        (ic_downs st' = (i, ?now) # ic_downs st \<and> ic_cooldown st' = (ic_cooldown st)(i \<mapsto> ?now))"
      using kr by (auto simp: st'_def incident_act_def ins TryPortAdminDown_def TouchIncidentActionCooldown_def Let_def)
    have "downs_ok ?d ?now st'"
      using cases
    proof
      assume "ic_downs st' = ic_downs st \<and> (ic_cooldown st' = ic_cooldown st \<or> ic_cooldown st' = (ic_cooldown st)(i \<mapsto> ?now))"
      then show ?thesis using later by (fastforce simp: downs_ok_def list_all_iff)
    next
      assume "ic_downs st' = (i, ?now) # ic_downs st \<and> ic_cooldown st' = (ic_cooldown st)(i \<mapsto> ?now)"
      then show ?thesis using later free by (fastforce simp: downs_ok_def list_all_iff)
    qed
    then show ?thesis using Some by (simp add: maybeIncidentAction_def st'_def)
  qed
qed


definition quiet_incident :: incident where
  "quiet_incident = \<lparr>ic_cooldown = Map.empty, ic_downs = [], ic_log = []\<rparr>"

definition answering :: incident_env where
  "answering = \<lparr>ie_settings = Some \<lparr>ns_Enabled = True, ns_EventTypes = Some ''port_flap, LINK_DOWN'', ns_CooldownSeconds = 300, ns_DryRun = False\<rparr>,
     ie_cooldown = True, ie_snmp = True, ie_insert = True, ie_touch = True\<rparr>"

definition flap_at :: "int \<Rightarrow> incident_request" where
  "flap_at s = \<lparr>iq_env = answering, iq_if = Some 7, iq_type = ''PORT_FLAP'', iq_now = s * 1000000000\<rparr>"


text \<open>
  Every action runs in its own task, and the cooldown is looked up and marked in separate statements:
  two events of one port that arrive together both pass the check and switch it off twice. A port
  whose event cannot be stored was switched off all the same, without a cooldown.
\<close>
lemma incident_race:
  "(case (incident_check answering (Some 7) ''PORT_FLAP'' 0 quiet_incident, incident_check answering (Some 7) ''LINK_DOWN'' 0 quiet_incident) of
      (Some a, Some b) \<Rightarrow> ic_downs (incident_act answering 0 b (incident_act answering 0 a quiet_incident)) = [(7, 0), (7, 0)]
    | _ \<Rightarrow> False)"
  "let st = maybeIncidentAction (answering\<lparr>ie_insert := False\<rparr>) (Some 7) ''PORT_FLAP'' 0 quiet_incident
   in ic_downs st = [(7, 0)] \<and> ic_cooldown st 7 = None \<and> ic_log st = []"
  by code_simp+

end
