(* ===== verification/Port_Roles.thy ===== *)
theory Port_Roles
  imports Event_Log
begin

text \<open>
  The role of a port, read from its names and from the addresses learned on it (\<open>inferPortRole\<close> and its
  neighbours in \<open>internal/poller/poller.go\<close>), with the rows of ports (\<open>InterfaceSnapshot\<close> of
  \<open>internal/store/store.go\<close>, \<open>IfRow\<close> of \<open>internal/snmp/ifmib.go\<close>). Texts are byte strings: lower case is
  that of ASCII.
\<close>

section \<open>Ports\<close>

text \<open>What a walk of IF-MIB reads of a port.\<close>
record IfRow =
  ir_Descr :: string
  ir_Alias :: string
  ir_Name :: string
  ir_Type :: int
  ir_Admin :: int
  ir_Oper :: int
  ir_Speed :: int
  ir_HighSpeed :: int
  ir_HCIn :: int
  ir_HCOut :: int

text \<open>The row of a port in the database; \<open>sn_CLIDescr\<close> is its column \<open>cli_description\<close>, which snapshots leave out.\<close>
record InterfaceSnapshot =
  sn_Name :: "string option"
  sn_Descr :: "string option"
  sn_Oper :: "int option"
  sn_Admin :: "int option"
  sn_HCIn :: "int option"
  sn_HCOut :: "int option"
  sn_PolledAt :: "time option"
  sn_Speed :: "int option"
  sn_HighSpeed :: "int option"
  sn_UtilHigh :: "rat option"
  sn_UtilOk :: "rat option"
  sn_HighActive :: bool
  sn_Override :: "string option"
  sn_Role :: string
  sn_CLIMode :: "string option"
  sn_CLIDescr :: "string option"

text \<open>The zero value: what a lookup of a port without a row gives.\<close>
definition zero_snapshot :: InterfaceSnapshot where
  "zero_snapshot = \<lparr>sn_Name = None, sn_Descr = None, sn_Oper = None, sn_Admin = None, sn_HCIn = None, sn_HCOut = None,
     sn_PolledAt = None, sn_Speed = None, sn_HighSpeed = None, sn_UtilHigh = None, sn_UtilOk = None,
     sn_HighActive = False, sn_Override = None, sn_Role = [], sn_CLIMode = None, sn_CLIDescr = None\<rparr>"

type_synonym snapshots = "int \<rightharpoonup> InterfaceSnapshot"

definition snap_at :: "snapshots \<Rightarrow> int \<Rightarrow> InterfaceSnapshot" where
  "snap_at ifs i = (case ifs i of None \<Rightarrow> zero_snapshot | Some s \<Rightarrow> s)"

definition BitsPerSecond :: "IfRow \<Rightarrow> int" where
  "BitsPerSecond r = (if ir_HighSpeed r > 0 then ir_HighSpeed r * 1000000 else if ir_Speed r > 0 then ir_Speed r else 0)"

definition snapshotBitsPerSecond :: "InterfaceSnapshot \<Rightarrow> int" where
  "snapshotBitsPerSecond old =
     (case sn_HighSpeed old of
        Some h \<Rightarrow> if h > 0 then h * 1000000 else (case sn_Speed old of Some s \<Rightarrow> if s > 0 then s else 0 | None \<Rightarrow> 0)
      | None \<Rightarrow> (case sn_Speed old of Some s \<Rightarrow> if s > 0 then s else 0 | None \<Rightarrow> 0))"

definition DisplayDescr :: "InterfaceSnapshot \<Rightarrow> string" where
  "DisplayDescr s =
     (case sn_Override s of
        Some t \<Rightarrow> if TrimSpace t \<noteq> [] then TrimSpace t else (case sn_Descr s of Some d \<Rightarrow> humanizeSNMPText d | None \<Rightarrow> [])
      | None \<Rightarrow> (case sn_Descr s of Some d \<Rightarrow> humanizeSNMPText d | None \<Rightarrow> []))"

definition strOr :: "string option \<Rightarrow> string" where
  "strOr p = (case p of None \<Rightarrow> [] | Some s \<Rightarrow> s)"

section \<open>Roles\<close>

record role_config =
  rc_MinMACs :: int
  rc_MinVLANs :: int
  rc_FallbackMinMACs :: int

record FDBIfStats =
  fs_MACCount :: int
  fs_VLANCount :: int

definition no_stats :: FDBIfStats where
  "no_stats = \<lparr>fs_MACCount = 0, fs_VLANCount = 0\<rparr>"

definition isLikelyTrunkByFDB :: "FDBIfStats \<Rightarrow> role_config \<Rightarrow> bool" where
  "isLikelyTrunkByFDB s cfg =
     (if fs_MACCount s \<le> 0 then False
      else if fs_VLANCount s > 0 then
        (if fs_MACCount s < rc_MinMACs cfg then False else fs_VLANCount s \<ge> rc_MinVLANs cfg)
      else fs_MACCount s \<ge> rc_FallbackMinMACs cfg)"

definition looksLikeUplinkDescr :: "string \<Rightarrow> bool" where
  "looksLikeUplinkDescr j =
     (if j = [] then False
      else if Contains j ''to-'' \<or> HasPrefix j ''to '' then True
      else if list_ex (Contains j) [''edgeswitch'', ''eltex'', ''snr-'', ''snr '', ''mes2'', ''mes-'', ''serverroom'',
          ''server-room'', ''server room'', ''backbone'', ''core switch'', ''to server'', ''to-es'', ''to es''] then True
      else Contains j '' to '' \<and> list_ex (Contains j) [''switch'', ''es-'', ''es '', ''router'', ''snr'', ''eltex'', ''ubnt''])"

text \<open>The rules of \<open>inferPortRole\<close> that do not look at the previous row.\<close>
definition own_role :: "string \<Rightarrow> string \<Rightarrow> int \<Rightarrow> string option" where
  "own_role ifName ifDescr ifType =
     (let nameLower = ToLower (TrimSpace ifName);
          joined = ToLower (TrimSpace (ifName @ '' '' @ ifDescr)) in
      if ifType \<in> {24, 53, 131, 135, 136} then Some ''ignore''
      else if HasPrefix nameLower ''vlan'' \<or> Contains nameLower ''loopback'' then Some ''ignore''
      else if Contains joined ''trunk'' \<or> Contains joined ''uplink'' \<or> Contains joined ''lag''
        \<or> Contains joined ''port-channel'' \<or> Contains joined ''bond'' then Some ''trunk''
      else if looksLikeUplinkDescr joined then Some ''trunk''
      else if ifType \<in> {6, 117, 62, 69} then Some ''access''
      else None)"

text \<open>The call for the previous row has a row without names: it goes no deeper.\<close>
definition inferPortRole :: "string \<Rightarrow> string \<Rightarrow> int \<Rightarrow> InterfaceSnapshot \<Rightarrow> string" where
  "inferPortRole ifName ifDescr ifType prev =
     (case own_role ifName ifDescr ifType of
        Some r \<Rightarrow> r
      | None \<Rightarrow>
          if sn_Name prev \<noteq> None \<or> sn_Descr prev \<noteq> None then
            (case own_role (strOr (sn_Name prev)) (strOr (sn_Descr prev)) ifType of Some r \<Rightarrow> r | None \<Rightarrow> ''access'')
          else ''access'')"

definition inferRoleFromSnapshot :: "InterfaceSnapshot \<Rightarrow> string" where
  "inferRoleFromSnapshot s =
     (let cli = (case sn_CLIMode s of None \<Rightarrow> [] | Some m \<Rightarrow> ToLower (TrimSpace m)) in
      if cli = ''trunk'' then ''trunk''
      else if cli = ''access'' \<or> cli = ''general'' then ''access''
      else if ToLower (TrimSpace (sn_Role s)) = ''ignore'' then ''ignore''
      else inferPortRole (strOr (sn_Name s)) (strOr (sn_Descr s)) 0 zero_snapshot)"

definition makeResolvePortRole ::
    "snapshots \<Rightarrow> (int \<rightharpoonup> string) \<Rightarrow> (int \<Rightarrow> FDBIfStats) \<Rightarrow> role_config \<Rightarrow> int \<Rightarrow> string" where
  "makeResolvePortRole ifs effectiveRoleByIf fdbStats cfg ifIndex =
     (let found = (case ifs ifIndex of
            None \<Rightarrow> ''access''
          | Some snap \<Rightarrow>
              let role = inferRoleFromSnapshot snap in
              if role = ''access'' \<and> isLikelyTrunkByFDB (fdbStats ifIndex) cfg then ''trunk'' else role)
      in case effectiveRoleByIf ifIndex of
           Some role \<Rightarrow> if TrimSpace role \<noteq> [] then role else found
         | None \<Rightarrow> found)"

text \<open>The role the loop over the ports of a poll gives a port.\<close>
definition effective_role :: "bool \<Rightarrow> (int \<Rightarrow> bool) \<Rightarrow> (int \<Rightarrow> FDBIfStats) \<Rightarrow> role_config \<Rightarrow> int \<Rightarrow> IfRow \<Rightarrow> InterfaceSnapshot \<Rightarrow> string" where
  "effective_role heavyDue infraByIf fdbStats cfg i row old =
     (let alias = TrimSpace (ir_Alias row);
          roleDescr = (if alias \<noteq> [] then alias else ir_Descr row);
          portRole = inferRoleFromSnapshot old in
      if heavyDue \<and> portRole = ''access'' then
        (let portRole = inferPortRole (ir_Name row) roleDescr (ir_Type row) old;
             portRole = (if portRole = ''access'' \<and> infraByIf i then ''trunk'' else portRole)
         in if portRole = ''access'' \<and> isLikelyTrunkByFDB (fdbStats i) cfg then ''trunk'' else portRole)
      else portRole)"

section \<open>Three roles\<close>

definition is_role :: "string \<Rightarrow> bool" where
  "is_role r \<longleftrightarrow> r = ''access'' \<or> r = ''trunk'' \<or> r = ''ignore''"

lemma is_role_simps [simp]: "is_role ''access''" "is_role ''trunk''" "is_role ''ignore''"
  by (simp_all add: is_role_def)

lemma own_role_values: "own_role n d t = Some r \<Longrightarrow> is_role r"
  by (auto simp: own_role_def Let_def is_role_def split: if_splits)

lemma inferPortRole_values [simp]: "is_role (inferPortRole n d t p)"
  using own_role_values [of n d t] own_role_values [of "strOr (sn_Name p)" "strOr (sn_Descr p)" t]
  by (auto simp: inferPortRole_def split: option.split)

lemma inferRoleFromSnapshot_values [simp]: "is_role (inferRoleFromSnapshot s)"
  by (simp add: inferRoleFromSnapshot_def Let_def)

text \<open>A role derived from a row, a walk or both is one of the three.\<close>
lemma effective_role_values [simp]: "is_role (effective_role h infra st cfg i row old)"
  by (simp add: effective_role_def Let_def)

lemma makeResolvePortRole_values:
  "(\<And>r. eff i = Some r \<Longrightarrow> is_role r) \<Longrightarrow> is_role (makeResolvePortRole ifs eff st cfg i)"
  by (auto simp: makeResolvePortRole_def Let_def split: option.split)

end
