(* ===== verification/Fdb_Walk.thy ===== *)
theory Fdb_Walk
  imports Port_Roles
begin

text \<open>
  The table of learned addresses as it is walked over SNMP (\<open>internal/snmp/fdb.go\<close>). A walk is the list of
  the objects it delivered, with the flag whether it ended without an error; an object is its identifier
  and the value read as an integer.
\<close>

section \<open>Identifiers\<close>

definition normalizeOID :: "string \<Rightarrow> string" where
  "normalizeOID s = TrimPrefix (TrimSpace s) ''.''"

definition oid_suffix :: "string \<Rightarrow> string \<Rightarrow> string option" where
  "oid_suffix oid0 base0 =
     (let oid = normalizeOID oid0; base = normalizeOID base0 in
      if HasPrefix oid (base @ ''.'') then Some (TrimPrefix oid (base @ ''.'')) else None)"

definition parseSuffixInt :: "string \<Rightarrow> string \<Rightarrow> int option" where
  "parseSuffixInt oid base = (case oid_suffix oid base of None \<Rightarrow> None | Some s \<Rightarrow> Atoi s)"

definition hex_digit :: "nat \<Rightarrow> char" where
  "hex_digit n = (if n < 10 then char_of (48 + n) else char_of (87 + n))"

text \<open>\<open>%02x\<close> of a number below 256.\<close>
definition hex2 :: "nat \<Rightarrow> string" where
  "hex2 n = [hex_digit (n div 16), hex_digit (n mod 16)]"

fun octets :: "string list \<Rightarrow> string list option" where
  "octets [] = Some []"
| "octets (p # ps) =
     (case Atoi p of
        None \<Rightarrow> None
      | Some n \<Rightarrow> if n < 0 \<or> n > 255 then None else map_option (\<lambda>m. hex2 (nat n) # m) (octets ps))"

definition formatMACOctets :: "string list \<Rightarrow> string option" where
  "formatMACOctets parts = (if length parts \<noteq> 6 then None else map_option (\<lambda>m. Join m '':'') (octets parts))"

definition parseMACSuffix :: "string \<Rightarrow> string \<Rightarrow> string option" where
  "parseMACSuffix oid base =
     (case oid_suffix oid base of
        None \<Rightarrow> None
      | Some s \<Rightarrow> let parts = Split s CHR ''.'' in if length parts \<noteq> 6 then None else formatMACOctets parts)"

definition parseVLANAndMACSuffix :: "string \<Rightarrow> string \<Rightarrow> (int \<times> string) option" where
  "parseVLANAndMACSuffix oid base =
     (case oid_suffix oid base of
        None \<Rightarrow> None
      | Some s \<Rightarrow>
          let parts = Split s CHR ''.'';
              macParts = (if length parts = 7 then Some (drop 1 parts) else if length parts = 8 then Some (drop 2 parts) else None)
          in case macParts of
            None \<Rightarrow> None
          | Some mp \<Rightarrow>
              (case Atoi (hd parts) of
                 None \<Rightarrow> None
               | Some vlanID \<Rightarrow> if vlanID \<le> 0 \<or> vlanID > 4094 then None else map_option (Pair vlanID) (formatMACOctets mp)))"

section \<open>Ports\<close>

record FDBLearnedEntry =
  le_IfIndex :: int
  le_VLANID :: "int option"

type_synonym fdb = "(string \<times> FDBLearnedEntry) list"
type_synonym walk = "(string \<times> int) list \<times> bool"

definition fdbKnownIfIndexes :: "(int \<times> int) list \<Rightarrow> int list" where
  "fdbKnownIfIndexes baseToIf = filter (\<lambda>i. i > 0) (map snd baseToIf)"

definition resolveFDBIfIndex :: "int \<Rightarrow> (int \<times> int) list \<Rightarrow> int list \<Rightarrow> int" where
  "resolveFDBIfIndex port baseToIf knownIf =
     (if port \<le> 0 then 0
      else let direct = (if port \<in> set knownIf then port else 0) in
        case map_of baseToIf port of Some i \<Rightarrow> if i > 0 then i else direct | None \<Rightarrow> direct)"

definition FDBEntriesToIfIndexMap :: "fdb \<Rightarrow> (string \<times> int) list" where
  "FDBEntriesToIfIndexMap entries = map (\<lambda>(mac, e). (mac, le_IfIndex e)) entries"

definition buildFDBIfStats :: "fdb \<Rightarrow> (int \<times> int) list \<Rightarrow> int \<Rightarrow> FDBIfStats" where
  "buildFDBIfStats entries vlansByIf i =
     \<lparr>fs_MACCount = int (length (filter (\<lambda>(_, e). le_IfIndex e = i) entries)),
      fs_VLANCount = int (length (filter (\<lambda>(j, _). j = i) vlansByIf))\<rparr>"

section \<open>The walk\<close>

abbreviation "oidDot1dTpFdbPort \<equiv> ''1.3.6.1.2.1.17.4.3.1.2''"
abbreviation "oidDot1dBasePortIfIndex \<equiv> ''1.3.6.1.2.1.17.1.4.1.2''"
abbreviation "oidDot1qTpFdbPort \<equiv> ''1.3.6.1.2.1.17.7.1.2.2.1.2''"

text \<open>What one object says, if it says something.\<close>
definition base_row :: "string \<times> int \<Rightarrow> (int \<times> int) option" where
  "base_row p = (case parseSuffixInt (fst p) oidDot1dBasePortIfIndex of
     None \<Rightarrow> None | Some basePort \<Rightarrow> if snd p > 0 then Some (basePort, snd p) else None)"

definition dot1d_row :: "(int \<times> int) list \<Rightarrow> string \<times> int \<Rightarrow> (string \<times> FDBLearnedEntry) option" where
  "dot1d_row b p = (case parseMACSuffix (fst p) oidDot1dTpFdbPort of
     None \<Rightarrow> None
   | Some mac \<Rightarrow> let i = resolveFDBIfIndex (snd p) b (fdbKnownIfIndexes b) in
       if i \<le> 0 then None else Some (mac, \<lparr>le_IfIndex = i, le_VLANID = None\<rparr>))"

definition dot1q_row :: "(int \<times> int) list \<Rightarrow> string \<times> int \<Rightarrow> (string \<times> FDBLearnedEntry) option" where
  "dot1q_row b p = (case parseVLANAndMACSuffix (fst p) oidDot1qTpFdbPort of
     None \<Rightarrow> None
   | Some (v, mac) \<Rightarrow> let i = resolveFDBIfIndex (snd p) b (fdbKnownIfIndexes b) in
       if i \<le> 0 then None else Some (mac, \<lparr>le_IfIndex = i, le_VLANID = Some v\<rparr>))"

definition put_pdu :: "('p \<Rightarrow> ('k \<times> 'v) option) \<Rightarrow> ('k \<times> 'v) list \<Rightarrow> 'p \<Rightarrow> ('k \<times> 'v) list" where
  "put_pdu f m p = (case f p of None \<Rightarrow> m | Some (k, v) \<Rightarrow> AList.update k v m)"

text \<open>The VLANs seen on ports, each pair once.\<close>
definition add_vlan :: "(int \<times> int) list \<Rightarrow> (int \<times> int) list \<Rightarrow> string \<times> int \<Rightarrow> (int \<times> int) list" where
  "add_vlan b vs p = (case dot1q_row b p of
     Some (_, e) \<Rightarrow> (case le_VLANID e of Some v \<Rightarrow> List.insert (le_IfIndex e, v) vs | None \<Rightarrow> vs)
   | None \<Rightarrow> vs)"

text \<open>An error of the first walk or an empty map of ports fails; errors of the other two are dropped.\<close>
definition WalkFDBWithStats :: "walk \<Rightarrow> walk \<Rightarrow> walk \<Rightarrow> (fdb \<times> (int \<Rightarrow> FDBIfStats)) option" where
  "WalkFDBWithStats base dot1d dot1q =
     (if \<not> snd base then None
      else let b = foldl (put_pdu base_row) [] (fst base) in
        if b = [] then None
        else let entries = foldl (put_pdu (dot1d_row b)) [] (fst dot1d);
                 entries = foldl (put_pdu (dot1q_row b)) entries (fst dot1q);
                 vlansByIf = foldl (add_vlan b) [] (fst dot1q)
             in Some (entries, buildFDBIfStats entries vlansByIf))"

section \<open>What the walk yields\<close>

lemma put_pdus_map_of: "map_of (foldl (put_pdu f) m ps) = map_of m ++ map_of (rev (List.map_filter f ps))"
proof (induction ps arbitrary: m)
  case (Cons p ps)
  then show ?case
    by (auto simp: put_pdu_def List.map_filter_def update_conv' split: option.split intro!: ext simp: map_add_def)
qed (simp add: List.map_filter_def)

lemma put_pdus_distinct: "distinct (map fst m) \<Longrightarrow> distinct (map fst (foldl (put_pdu f) m ps))"
  by (induction ps arbitrary: m) (auto simp: put_pdu_def distinct_update split: option.split)

lemma lower_hex_digit: "n < 16 \<Longrightarrow> lower_hex (hex_digit n)"
  by (auto simp: hex_digit_def lower_hex_def is_digit_def of_char_of)

lemma octets_hex: "octets ps = Some ms \<Longrightarrow> length ms = length ps \<and> list_all (\<lambda>m. \<exists>a b. m = [a, b] \<and> lower_hex a \<and> lower_hex b) ms"
proof (induction ps arbitrary: ms)
  case (Cons p ps)
  then obtain n ms' where "Atoi p = Some n" "0 \<le> n" "n \<le> 255" "octets ps = Some ms'" "ms = hex2 (nat n) # ms'"
    by (auto split: option.splits if_splits)
  moreover have "nat n div 16 < 16" "nat n mod 16 < 16" using \<open>n \<le> 255\<close> by auto
  ultimately show ?case using Cons.IH by (auto simp: hex2_def lower_hex_digit)
qed simp

lemma formatMACOctets_canonical:
  assumes "formatMACOctets ps = Some m"
  shows "canonical_mac m"
proof -
  obtain ms where ms: "length ps = 6" "octets ps = Some ms" "m = Join ms '':''"
    using assms by (auto simp: formatMACOctets_def split: if_splits)
  then have l: "length ms = 6" and h: "list_all (\<lambda>m. \<exists>a b. m = [a, b] \<and> lower_hex a \<and> lower_hex b) ms"
    using octets_hex by auto
  obtain p1 p2 p3 p4 p5 p6 where six: "ms = [p1, p2, p3, p4, p5, p6]"
    using l by (auto simp: numeral_eq_Suc length_Suc_conv)
  obtain a1 b1 a2 b2 a3 b3 a4 b4 a5 b5 a6 b6 where parts: "p1 = [a1, b1]" "p2 = [a2, b2]" "p3 = [a3, b3]" "p4 = [a4, b4]"
      "p5 = [a5, b5]" "p6 = [a6, b6]" and lower: "list_all lower_hex [a1, b1, a2, b2, a3, b3, a4, b4, a5, b5, a6, b6]"
    using h unfolding six by auto
  have "m = colon_pairs [a1, b1, a2, b2, a3, b3, a4, b4, a5, b5, a6, b6]"
    by (simp add: ms(3) six parts)
  then show ?thesis
    using lower unfolding canonical_mac_def
    by (intro exI [of _ "[a1, b1, a2, b2, a3, b3, a4, b4, a5, b5, a6, b6]"]) simp
qed

lemma parse_canonical:
  "parseMACSuffix oid base = Some mac \<Longrightarrow> canonical_mac mac"
  "parseVLANAndMACSuffix oid base = Some (v, mac) \<Longrightarrow> canonical_mac mac \<and> 1 \<le> v \<and> v \<le> 4094"
  by (auto simp: parseMACSuffix_def parseVLANAndMACSuffix_def Let_def formatMACOctets_canonical split: option.splits if_splits)

lemma dot1d_row_ok:
  "dot1d_row b p = Some (mac, e) \<Longrightarrow> canonical_mac mac \<and> 0 < le_IfIndex e \<and> le_VLANID e = None"
  by (auto simp: dot1d_row_def Let_def parse_canonical split: option.splits if_splits)

lemma dot1q_row_ok:
  assumes "dot1q_row b p = Some (mac, e)"
  shows "canonical_mac mac \<and> 0 < le_IfIndex e \<and> (\<exists>v. le_VLANID e = Some v \<and> 1 \<le> v \<and> v \<le> 4094)"
proof (cases "parseVLANAndMACSuffix (fst p) oidDot1qTpFdbPort")
  case (Some vm)
  then obtain v m where "parseVLANAndMACSuffix (fst p) oidDot1qTpFdbPort = Some (v, m)" by (cases vm) simp
  then show ?thesis using assms parse_canonical(2) by (fastforce simp: dot1q_row_def Let_def split: if_splits)
qed (use assms in \<open>simp add: dot1q_row_def\<close>)

lemma map_filter_mem: "y \<in> set (List.map_filter f xs) \<longleftrightarrow> (\<exists>x\<in>set xs. f x = Some y)"
  by (force simp: List.map_filter_def)

lemma vlans_set:
  "(i, v) \<in> set (foldl (add_vlan b) vs ps) \<longleftrightarrow>
     (i, v) \<in> set vs \<or> (\<exists>p\<in>set ps. \<exists>mac. dot1q_row b p = Some (mac, \<lparr>le_IfIndex = i, le_VLANID = Some v\<rparr>))"
proof (induction ps arbitrary: vs)
  case (Cons p ps)
  have "(i, v) \<in> set (add_vlan b vs p) \<longleftrightarrow>
      (i, v) \<in> set vs \<or> (\<exists>mac. dot1q_row b p = Some (mac, \<lparr>le_IfIndex = i, le_VLANID = Some v\<rparr>))"
  proof (cases "dot1q_row b p")
    case (Some me)
    obtain m j w where "me = (m, \<lparr>le_IfIndex = j, le_VLANID = w\<rparr>)" by (metis FDBLearnedEntry.cases prod.exhaust)
    then show ?thesis using Some by (auto simp: add_vlan_def split: option.split)
  qed (simp add: add_vlan_def)
  then show ?case by (simp add: Cons.IH)
qed simp

lemma vlans_distinct: "distinct vs \<Longrightarrow> distinct (foldl (add_vlan b) vs ps)"
  by (induction ps arbitrary: vs) (auto simp: add_vlan_def split: option.split)

lemma count_macs:
  assumes "distinct (map fst m)"
  shows "length (filter (\<lambda>(_, e). P e) m) = card {k. \<exists>e. map_of m k = Some e \<and> P e}"
proof -
  have "distinct (map fst (filter (\<lambda>(_, e). P e) m))" using assms by (rule distinct_map_filter)
  moreover have "set (map fst (filter (\<lambda>(_, e). P e) m)) = {k. \<exists>e. map_of m k = Some e \<and> P e}"
    using assms by (force simp: map_of_eq_Some_iff)
  ultimately show ?thesis by (metis distinct_card length_map)
qed

lemma count_vlans:
  assumes "distinct vs"
  shows "length (filter (\<lambda>(j, _). j = i) vs) = card {v. (i, v) \<in> set vs}"
proof -
  have "set (filter (\<lambda>(j, _). j = i) vs) = Pair i ` {v. (i, v) \<in> set vs}" by auto
  moreover have "inj_on (Pair i) {v. (i, v) \<in> set vs}" by (simp add: inj_on_def)
  ultimately show ?thesis using assms by (metis card_image distinct_card distinct_filter)
qed

text \<open>The map of ports a walk gives.\<close>
definition ports_of :: "walk \<Rightarrow> (int \<times> int) list" where
  "ports_of base = foldl (put_pdu base_row) [] (fst base)"

lemma walk_facts:
  assumes "WalkFDBWithStats base dot1d dot1q = Some (entries, stats)"
  shows "distinct (map fst entries)"
    and "map_of entries mac = map_of (rev (List.map_filter (dot1d_row (ports_of base)) (fst dot1d) @ List.map_filter (dot1q_row (ports_of base)) (fst dot1q))) mac"
    and "map_of entries mac = Some e \<Longrightarrow> canonical_mac mac \<and> 0 < le_IfIndex e \<and> (\<forall>v. le_VLANID e = Some v \<longrightarrow> 1 \<le> v \<and> v \<le> 4094)"
    and "fs_MACCount (stats i) = int (card {mac. \<exists>e. map_of entries mac = Some e \<and> le_IfIndex e = i})"
    and "fs_VLANCount (stats i) =
      int (card {v. \<exists>p\<in>set (fst dot1q). \<exists>mac. dot1q_row (ports_of base) p = Some (mac, \<lparr>le_IfIndex = i, le_VLANID = Some v\<rparr>)})"
proof -
  let ?b = "ports_of base"
  have en: "entries = foldl (put_pdu (dot1q_row ?b)) (foldl (put_pdu (dot1d_row ?b)) [] (fst dot1d)) (fst dot1q)"
    and st: "stats = buildFDBIfStats entries (foldl (add_vlan ?b) [] (fst dot1q))"
    using assms by (auto simp: WalkFDBWithStats_def ports_of_def Let_def split: if_splits)
  show d: "distinct (map fst entries)" by (simp add: en put_pdus_distinct)
  show m: "map_of entries mac = map_of (rev (List.map_filter (dot1d_row ?b) (fst dot1d) @ List.map_filter (dot1q_row ?b) (fst dot1q))) mac" for mac
    by (simp add: en put_pdus_map_of map_add_def)
  show "canonical_mac mac \<and> 0 < le_IfIndex e \<and> (\<forall>v. le_VLANID e = Some v \<longrightarrow> 1 \<le> v \<and> v \<le> 4094)" if "map_of entries mac = Some e"
  proof -
    have "(mac, e) \<in> set (List.map_filter (dot1d_row ?b) (fst dot1d)) \<union> set (List.map_filter (dot1q_row ?b) (fst dot1q))"
      using that m map_of_SomeD by fastforce
    then show ?thesis unfolding Un_iff map_filter_mem using dot1d_row_ok dot1q_row_ok by fastforce
  qed
  show "fs_MACCount (stats i) = int (card {mac. \<exists>e. map_of entries mac = Some e \<and> le_IfIndex e = i})"
    by (simp add: st buildFDBIfStats_def count_macs [OF d])
  have "{v. (i, v) \<in> set (foldl (add_vlan ?b) [] (fst dot1q))} =
      {v. \<exists>p\<in>set (fst dot1q). \<exists>mac. dot1q_row ?b p = Some (mac, \<lparr>le_IfIndex = i, le_VLANID = Some v\<rparr>)}"
    by (simp add: vlans_set)
  then show "fs_VLANCount (stats i) =
      int (card {v. \<exists>p\<in>set (fst dot1q). \<exists>mac. dot1q_row ?b p = Some (mac, \<lparr>le_IfIndex = i, le_VLANID = Some v\<rparr>)})"
    by (simp add: st buildFDBIfStats_def count_vlans vlans_distinct)
qed

text \<open>
  C29. A table that is read holds canonical addresses on ports with valid VLANs; an address is in it
  exactly when some object names it on a port that resolves, with what the last such object says,
  those of the VLAN-aware table after the others; and the statistics count its addresses and VLANs.
\<close>
theorem WalkFDBWithStats_exact:
  assumes "WalkFDBWithStats base dot1d dot1q = Some (entries, stats)"
  shows "distinct (map fst entries) \<and>
    map_of entries = map_of (rev (List.map_filter (dot1d_row (ports_of base)) (fst dot1d) @ List.map_filter (dot1q_row (ports_of base)) (fst dot1q))) \<and>
    (\<forall>mac e. map_of entries mac = Some e \<longrightarrow> canonical_mac mac \<and> 0 < le_IfIndex e \<and> (\<forall>v. le_VLANID e = Some v \<longrightarrow> 1 \<le> v \<and> v \<le> 4094)) \<and>
    (\<forall>i. fs_MACCount (stats i) = int (card {mac. \<exists>e. map_of entries mac = Some e \<and> le_IfIndex e = i}) \<and>
      fs_VLANCount (stats i) =
        int (card {v. \<exists>p\<in>set (fst dot1q). \<exists>mac. dot1q_row (ports_of base) p = Some (mac, \<lparr>le_IfIndex = i, le_VLANID = Some v\<rparr>)}))"
proof (intro conjI allI impI)
  show "map_of entries = map_of (rev (List.map_filter (dot1d_row (ports_of base)) (fst dot1d) @ List.map_filter (dot1q_row (ports_of base)) (fst dot1q)))"
    by (rule ext) (rule walk_facts(2) [OF assms])
qed (use walk_facts [OF assms] in auto)

definition small_switch :: "walk \<times> walk \<times> walk" where
  "small_switch =
     (([(''.1.3.6.1.2.1.17.1.4.1.2.1'', 101), (''.1.3.6.1.2.1.17.1.4.1.2.2'', 102)], True),
      ([(''.1.3.6.1.2.1.17.4.3.1.2.0.26.43.60.77.94'', 1), (''.1.3.6.1.2.1.17.4.3.1.2.0.26.43.60.77.95'', 7)], True),
      ([(''.1.3.6.1.2.1.17.7.1.2.2.1.2.10.0.26.43.60.77.94'', 2)], True))"

theorem WalkFDBWithStats_exact_witness:
  "case small_switch of (b, d, q) \<Rightarrow> (case WalkFDBWithStats b d q of
     Some (entries, stats) \<Rightarrow> entries = [(''00:1a:2b:3c:4d:5e'', \<lparr>le_IfIndex = 102, le_VLANID = Some 10\<rparr>)] \<and>
       canonical_mac ''00:1a:2b:3c:4d:5e'' \<and> fs_MACCount (stats 102) = 1
   | None \<Rightarrow> False)"
proof -
  obtain b d q where s: "small_switch = (b, d, q)" by (metis prod_cases3)
  have "(case small_switch of (b, d, q) \<Rightarrow> (case WalkFDBWithStats b d q of
     Some (entries, stats) \<Rightarrow> entries = [(''00:1a:2b:3c:4d:5e'', \<lparr>le_IfIndex = 102, le_VLANID = Some 10\<rparr>)] \<and>
       fs_MACCount (stats 102) = 1
   | None \<Rightarrow> False))" by code_simp
  then obtain entries stats where w: "WalkFDBWithStats b d q = Some (entries, stats)" "fs_MACCount (stats 102) = 1"
    "entries = [(''00:1a:2b:3c:4d:5e'', \<lparr>le_IfIndex = 102, le_VLANID = Some 10\<rparr>)]"
    by (auto simp: s split: option.splits)
  then show ?thesis using WalkFDBWithStats_exact [OF w(1)] by (simp add: s)
qed

end
