(* ===== verification/Port_Alerts.thy ===== *)
theory Port_Alerts
  imports Port_Roles
begin

text \<open>
  What a poll reports of the ports of a device: link changes with the traps that announced them, flapping,
  nominal speed, utilization (the loop over the ports in \<open>pollOne\<close> of \<open>internal/poller/poller.go\<close>,
  \<open>port_flap.go\<close>, \<open>internal/store/snmp_trap_logs.go\<close>, \<open>internal/traprecv/receiver.go\<close>). Floating-point
  numbers are rationals; a poll happens at one instant.
\<close>

section \<open>Traps that wait for a poll\<close>

record pending_link =
  pl_Expected :: int
  pl_Label :: string
  pl_Source :: string
  pl_Received :: time

abbreviation minute :: duration where "minute \<equiv> 60 * 1000000000"

text \<open>The state of one device: what was emitted, the pending traps by port, the rows of its ports.\<close>
record port_state =
  ps_em :: emitted
  ps_pending :: "int \<rightharpoonup> pending_link"
  ps_ifs :: snapshots

text \<open>Which of the statements on traps, on the counts and on the rows the database answers.\<close>
record port_answers =
  pa_emit :: emit_env
  pa_take :: bool
  pa_confirm :: bool
  pa_count :: bool
  pa_dup :: bool
  pa_upsert :: bool

definition UpsertTrapPendingLink :: "time \<Rightarrow> int \<Rightarrow> int \<Rightarrow> string \<Rightarrow> string \<Rightarrow> (int \<rightharpoonup> pending_link) \<Rightarrow> (int \<rightharpoonup> pending_link)" where
  "UpsertTrapPendingLink now i expectedOper label sourceIP pend =
     (if i \<le> 0 \<or> (expectedOper \<noteq> 1 \<and> expectedOper \<noteq> 2) then pend
      else pend(i \<mapsto> \<lparr>pl_Expected = expectedOper, pl_Label = label, pl_Source = sourceIP, pl_Received = now\<rparr>))"

definition TakeTrapPendingLink :: "time \<Rightarrow> int \<Rightarrow> int \<Rightarrow> (int \<rightharpoonup> pending_link) \<Rightarrow> pending_link option \<times> (int \<rightharpoonup> pending_link)" where
  "TakeTrapPendingLink now i expectedOper pend =
     (let pend = (\<lambda>j. case pend j of None \<Rightarrow> None | Some p \<Rightarrow> if pl_Received p < now - 15 * minute then None else Some p) in
      case pend i of
        None \<Rightarrow> (None, pend)
      | Some p \<Rightarrow> if pl_Expected p = expectedOper then (Some p, pend(i := None)) else (None, pend))"

definition payload_put :: "string \<Rightarrow> pval \<Rightarrow> payload \<Rightarrow> payload" where
  "payload_put k v pl = AList.update k v pl"

text \<open>The latest row that matches is marked; the flag says that there is one.\<close>
fun confirm_first :: "int \<Rightarrow> string \<Rightarrow> time \<Rightarrow> log \<Rightarrow> bool \<times> log" where
  "confirm_first i typ since [] = (False, [])"
| "confirm_first i typ since (e # lg) =
     (if ev_if e = Some i \<and> ev_type e = typ \<and> map_of (ev_pl e) ''source'' = Some (PStr ''trap'') \<and> ev_at e \<ge> since
      then (True, e\<lparr>ev_pl := payload_put ''trap_confirmed'' (PBool True) (ev_pl e)\<rparr> # lg)
      else case confirm_first i typ since lg of (b, lg) \<Rightarrow> (b, e # lg))"

definition ConfirmRecentTrapLinkEvent :: "time \<Rightarrow> int \<Rightarrow> string \<Rightarrow> log \<Rightarrow> bool \<times> log" where
  "ConfirmRecentTrapLinkEvent now i typ lg =
     (if i \<le> 0 \<or> (typ \<noteq> ''LINK_UP'' \<and> typ \<noteq> ''LINK_DOWN'') then (False, lg)
      else confirm_first i typ (now - 15 * minute) lg)"

text \<open>The instant of the trap stands for its text. The flag says that a trap already made the event.\<close>
definition annotateLinkFromTrap ::
    "port_answers \<Rightarrow> time \<Rightarrow> int \<Rightarrow> int \<Rightarrow> string \<Rightarrow> payload \<Rightarrow> port_state \<Rightarrow> bool \<times> payload \<times> port_state" where
  "annotateLinkFromTrap pa now i expectedOper typ pl st =
     (if \<not> pa_take pa then (False, pl, st)
      else case TakeTrapPendingLink now i expectedOper (ps_pending st) of
        (None, pend) \<Rightarrow> (False, pl, st\<lparr>ps_pending := pend\<rparr>)
      | (Some p, pend) \<Rightarrow>
          let st = st\<lparr>ps_pending := pend\<rparr>;
              pl = payload_put ''trap_confirmed'' (PBool True) pl;
              pl = payload_put ''trap_label'' (PStr (pl_Label p)) pl;
              pl = payload_put ''trap_received_at'' (PInt (pl_Received p)) pl;
              pl = (if pl_Source p \<noteq> [] then payload_put ''trap_source_ip'' (PStr (pl_Source p)) pl else pl)
          in if \<not> pa_confirm pa then (False, pl, st)
             else case ConfirmRecentTrapLinkEvent now i typ (em_log (ps_em st)) of
               (confirmed, lg) \<Rightarrow> (confirmed, pl, st\<lparr>ps_em := (ps_em st)\<lparr>em_log := lg\<rparr>\<rparr>))"

section \<open>Flapping\<close>

record port_config =
  pc_roles :: role_config
  pc_FlapMinBounces :: int
  pc_FlapWindow :: duration
  pc_FlapDebounce :: duration
  pc_UtilHighPct :: rat
  pc_UtilOKPct :: rat
  pc_StormUtilPct :: rat

definition flap_min :: "port_config \<Rightarrow> int" where
  "flap_min cfg = (if pc_FlapMinBounces cfg < 2 then 4 else pc_FlapMinBounces cfg)"

definition flap_window :: "port_config \<Rightarrow> duration" where
  "flap_window cfg = (if pc_FlapWindow cfg \<le> 0 then 10 * minute else pc_FlapWindow cfg)"

definition flap_debounce :: "port_config \<Rightarrow> duration" where
  "flap_debounce cfg = (if pc_FlapDebounce cfg \<le> 0 then 15 * minute else pc_FlapDebounce cfg)"

definition mergeIfacePayload :: "snapshots \<Rightarrow> int \<Rightarrow> payload \<Rightarrow> payload" where
  "mergeIfacePayload ifs i pl =
     (case ifs i of
        None \<Rightarrow> pl
      | Some s \<Rightarrow>
          let pl = (if TrimSpace (strOr (sn_Name s)) \<noteq> [] then payload_put ''if_name'' (PStr (strOr (sn_Name s))) pl else pl);
              d = DisplayDescr s
          in if d \<noteq> [] then payload_put ''if_descr'' (PStr d) pl else pl)"

definition maybeEmitPortFlap :: "port_answers \<Rightarrow> port_config \<Rightarrow> ignores \<Rightarrow> time \<Rightarrow> int \<Rightarrow> snapshots \<Rightarrow> port_state \<Rightarrow> port_state" where
  "maybeEmitPortFlap pa cfg ig now i ifs st =
     (if i \<le> 0 then st
      else if \<not> pa_count pa then st
      else case CountLinkEventsWithSources (em_log (ps_em st)) i (now - flap_window cfg) of
        (n, sources) \<Rightarrow>
          if int n < flap_min cfg then st
          else if \<not> pa_dup pa then st
          else if HasPortEventSince (em_log (ps_em st)) i ''PORT_FLAP'' (now - flap_debounce cfg) then st
          else let pl = [(''bounce_count'', PInt (int n)), (''window_sec'', PInt (flap_window cfg div 1000000000)),
                     (''min_bounces'', PInt (flap_min cfg)),
                     (''sources'', PStrs (if sources = [] then [''poll''] else sources)),
                     (''investigate'', PStr ''/investigate/mac'')]
               in st\<lparr>ps_em := emit (pa_emit pa) ig now (Some i) ''PORT_FLAP'' ''warning'' (mergeIfacePayload ifs i pl) (ps_em st)\<rparr>)"

section \<open>The ports of a poll\<close>

definition ifaceEventPayload :: "IfRow \<Rightarrow> InterfaceSnapshot \<Rightarrow> payload" where
  "ifaceEventPayload row old =
     (let alias = TrimSpace (ir_Alias row);
          desc = (if alias \<noteq> [] then humanizeSNMPText alias else humanizeSNMPText (ir_Descr row));
          desc = (if DisplayDescr old \<noteq> [] \<and> TrimSpace (strOr (sn_Override old)) \<noteq> [] then DisplayDescr old else desc)
      in [(''if_descr'', PStr desc), (''if_name'', PStr (ir_Name row))] @
         (if alias \<noteq> [] then [(''if_alias'', PStr alias)] else []))"

text \<open>One link change: the event, unless a trap made it, and the look at flapping.\<close>
definition link_change ::
    "port_answers \<Rightarrow> port_config \<Rightarrow> ignores \<Rightarrow> time \<Rightarrow> snapshots \<Rightarrow> int \<Rightarrow> int \<Rightarrow> string \<Rightarrow> string \<Rightarrow> payload \<Rightarrow> port_state \<Rightarrow> port_state" where
  "link_change pa cfg ig now ifs i expectedOper typ sev pl st =
     (case annotateLinkFromTrap pa now i expectedOper typ pl st of
        (made, pl, st) \<Rightarrow>
          maybeEmitPortFlap pa cfg ig now i ifs
            (if made then st else st\<lparr>ps_em := emit (pa_emit pa) ig now (Some i) typ sev pl (ps_em st)\<rparr>))"

definition poll_link :: "port_answers \<Rightarrow> port_config \<Rightarrow> ignores \<Rightarrow> time \<Rightarrow> snapshots \<Rightarrow> int \<Rightarrow> IfRow \<Rightarrow> InterfaceSnapshot \<Rightarrow> port_state \<Rightarrow> port_state" where
  "poll_link pa cfg ig now ifs i row old st =
     (case sn_Oper old of
        None \<Rightarrow> st
      | Some oper \<Rightarrow>
          let st = (if oper \<noteq> 1 \<and> ir_Oper row = 1
                 then link_change pa cfg ig now ifs i 1 ''LINK_UP'' ''info'' (ifaceEventPayload row old) st else st)
          in if ir_Admin row = 1 \<and> oper = 1 \<and> ir_Oper row \<noteq> 1
             then link_change pa cfg ig now ifs i 2 ''LINK_DOWN'' ''warning''
               (payload_put ''oper_status'' (PInt (ir_Oper row)) (ifaceEventPayload row old)) st
             else st)"

definition poll_speed :: "port_answers \<Rightarrow> ignores \<Rightarrow> time \<Rightarrow> int \<Rightarrow> IfRow \<Rightarrow> InterfaceSnapshot \<Rightarrow> emitted \<Rightarrow> emitted" where
  "poll_speed pa ig now i row old em =
     (if ir_Oper row \<noteq> 1 then em
      else let oldBps = snapshotBitsPerSecond old; newBps = BitsPerSecond row in
        if oldBps > 0 \<and> newBps > 0 \<and> oldBps \<noteq> newBps then
          (let pl = ifaceEventPayload row old;
               pl = payload_put ''old_bps'' (PInt oldBps) pl;
               pl = payload_put ''new_bps'' (PInt newBps) pl;
               pl = payload_put ''old_mbps'' (PInt (oldBps div 1000000)) pl;
               pl = payload_put ''new_mbps'' (PInt (newBps div 1000000)) pl
           in if newBps < oldBps then emit (pa_emit pa) ig now (Some i) ''PORT_SPEED_DOWN'' ''warning'' pl em
              else emit (pa_emit pa) ig now (Some i) ''PORT_SPEED_OK'' ''info'' pl em)
        else em)"

text \<open>The thresholds of a port: its own, those of the device, those of the configuration.\<close>
definition ResolveUtilThresholds :: "port_config \<Rightarrow> rat option \<times> rat option \<Rightarrow> InterfaceSnapshot \<Rightarrow> rat \<times> rat" where
  "ResolveUtilThresholds cfg dev port =
     (let high = (case fst dev of Some h \<Rightarrow> h | None \<Rightarrow> pc_UtilHighPct cfg);
          okp = (case snd dev of Some h \<Rightarrow> h | None \<Rightarrow> pc_UtilOKPct cfg)
      in (case sn_UtilHigh port of Some h \<Rightarrow> h | None \<Rightarrow> high, case sn_UtilOk port of Some h \<Rightarrow> h | None \<Rightarrow> okp))"

record util_sample =
  us_In :: rat
  us_Out :: rat
  us_Max :: rat
  us_InRate :: rat
  us_OutRate :: rat

text \<open>The load of a port, when both polls give counters that grew over at least two seconds.\<close>
definition util_of :: "time \<Rightarrow> IfRow \<Rightarrow> InterfaceSnapshot \<Rightarrow> util_sample option" where
  "util_of now row old =
     (case (sn_HCIn old, sn_HCOut old, sn_PolledAt old) of
        (Some oin, Some oout, Some polled) \<Rightarrow>
          let bps = BitsPerSecond row; dt = rat_of_int (now - polled) / 1000000000 in
          if bps > 0 \<and> ir_HCIn row \<ge> 0 \<and> ir_HCOut row \<ge> 0 \<and> dt \<ge> 2 \<and> ir_HCIn row - oin \<ge> 0 \<and> ir_HCOut row - oout \<ge> 0
          then let rIn = rat_of_int (ir_HCIn row - oin) * 8 / dt;
                   rOut = rat_of_int (ir_HCOut row - oout) * 8 / dt;
                   ui = rIn / rat_of_int bps * 100;
                   uo = rOut / rat_of_int bps * 100;
                   ui = (if ui > 100 then 100 else ui);
                   uo = (if uo > 100 then 100 else uo)
               in Some \<lparr>us_In = ui, us_Out = uo, us_Max = (if uo > ui then uo else ui), us_InRate = rIn, us_OutRate = rOut\<rparr>
          else None
      | _ \<Rightarrow> None)"

definition merge_payload :: "payload \<Rightarrow> payload \<Rightarrow> payload" where
  "merge_payload pl qs = fold (\<lambda>(k, v). payload_put k v) qs pl"

text \<open>The flag is whether the port is overloaded afterwards.\<close>
definition poll_util ::
    "port_answers \<Rightarrow> port_config \<Rightarrow> ignores \<Rightarrow> rat option \<times> rat option \<Rightarrow> time \<Rightarrow> int \<Rightarrow> IfRow \<Rightarrow> InterfaceSnapshot \<Rightarrow> emitted \<Rightarrow> emitted \<times> bool" where
  "poll_util pa cfg ig dev now i row old em =
     (case util_of now row old of
        None \<Rightarrow> (em, sn_HighActive old)
      | Some u \<Rightarrow>
          (case ResolveUtilThresholds cfg dev old of (high, okp) \<Rightarrow>
             if us_Max u \<ge> high then
               (if sn_HighActive old then em
                else emit (pa_emit pa) ig now (Some i) ''PORT_UTILIZATION_HIGH'' ''warning''
                  (merge_payload [(''util_in_pct'', PNum (us_In u)), (''util_out_pct'', PNum (us_Out u)),
                     (''util_max_pct'', PNum (us_Max u)), (''threshold_pct'', PNum high), (''bps_nominal'', PInt (BitsPerSecond row))]
                   (ifaceEventPayload row old)) em, True)
             else if us_Max u < okp then
               (if \<not> sn_HighActive old then em
                else emit (pa_emit pa) ig now (Some i) ''PORT_UTILIZATION_OK'' ''info''
                  (merge_payload [(''util_max_pct'', PNum (us_Max u)), (''ok_below_pct'', PNum okp)] (ifaceEventPayload row old)) em, False)
             else (em, sn_HighActive old)))"

record stormUtilPort =
  sp_IfIndex :: int
  sp_UtilMax :: rat
  sp_UtilIn :: rat
  sp_UtilOut :: rat
  sp_IfDescr :: string

definition storm_port :: "port_config \<Rightarrow> time \<Rightarrow> int \<Rightarrow> IfRow \<Rightarrow> InterfaceSnapshot \<Rightarrow> stormUtilPort list" where
  "storm_port cfg now i row old =
     (case util_of now row old of
        None \<Rightarrow> []
      | Some u \<Rightarrow>
          if ir_Oper row = 1 \<and> us_Max u \<ge> pc_StormUtilPct cfg
          then [\<lparr>sp_IfIndex = i, sp_UtilMax = us_Max u, sp_UtilIn = us_In u, sp_UtilOut = us_Out u,
                 sp_IfDescr = (if TrimSpace (ir_Alias row) \<noteq> [] then TrimSpace (ir_Alias row) else ir_Descr row)\<rparr>]
          else [])"

record InterfaceUpsert =
  iu_Descr :: string
  iu_Name :: string
  iu_Admin :: int
  iu_Oper :: int
  iu_Speed :: int
  iu_HighSpeed :: int
  iu_Role :: string
  iu_HCIn :: int
  iu_HCOut :: int
  iu_PolledAt :: time
  iu_HighActive :: bool

definition upsert_of :: "time \<Rightarrow> IfRow \<Rightarrow> string \<Rightarrow> bool \<Rightarrow> InterfaceUpsert" where
  "upsert_of now row role high =
     \<lparr>iu_Descr = (if TrimSpace (ir_Alias row) \<noteq> [] then humanizeSNMPText (TrimSpace (ir_Alias row)) else humanizeSNMPText (ir_Descr row)),
      iu_Name = ir_Name row, iu_Admin = ir_Admin row, iu_Oper = ir_Oper row, iu_Speed = ir_Speed row,
      iu_HighSpeed = ir_HighSpeed row, iu_Role = role, iu_HCIn = ir_HCIn row, iu_HCOut = ir_HCOut row,
      iu_PolledAt = now, iu_HighActive = high\<rparr>"

section \<open>Writing the rows\<close>

definition btrim :: "string \<Rightarrow> string" where
  "btrim s = Trim s '' ''"

text \<open>\<open>^Slot:\s*[0-9]+\s+Port:\<close>, case-insensitive.\<close>
definition slot_text :: "string \<Rightarrow> bool" where
  "slot_text s0 =
     (let s = ToLower s0 in
      HasPrefix s ''slot:'' \<and>
      (let r = dropWhile is_space (drop 5 s); ds = takeWhile is_digit r; r = drop (length ds) r; w = dropWhile is_space r
       in ds \<noteq> [] \<and> w \<noteq> r \<and> HasPrefix w ''port:''))"

definition upsert_row :: "InterfaceSnapshot option \<Rightarrow> InterfaceUpsert \<Rightarrow> InterfaceSnapshot" where
  "upsert_row row u =
     (let old = (case row of None \<Rightarrow> zero_snapshot | Some s \<Rightarrow> s);
          d = btrim (iu_Descr u);
          descr = (case sn_CLIDescr old of
              Some cli \<Rightarrow> if btrim cli \<noteq> [] \<and> (d = [] \<or> slot_text d \<or> Contains (ToLower d) ''gigabit - level'') then cli else iu_Descr u
            | None \<Rightarrow> iu_Descr u);
          role = (if btrim (strOr (sn_CLIMode old)) \<noteq> [] then sn_Role old else iu_Role u)
      in old\<lparr>sn_Descr := Some descr, sn_Name := Some (iu_Name u), sn_Admin := Some (iu_Admin u), sn_Oper := Some (iu_Oper u),
           sn_Speed := Some (iu_Speed u), sn_HighSpeed := Some (iu_HighSpeed u), sn_Role := role, sn_HCIn := Some (iu_HCIn u),
           sn_HCOut := Some (iu_HCOut u), sn_PolledAt := Some (iu_PolledAt u), sn_HighActive := iu_HighActive u\<rparr>)"

definition UpsertInterfaces :: "(int \<times> InterfaceUpsert) list \<Rightarrow> snapshots \<Rightarrow> snapshots" where
  "UpsertInterfaces ups ifs = foldl (\<lambda>ifs (i, u). ifs(i \<mapsto> upsert_row (ifs i) u)) ifs ups"

section \<open>The loop\<close>

text \<open>What the loop builds: the state, the rows to write, the loaded ports, the roles.\<close>
record port_round =
  pd_st :: port_state
  pd_ups :: "(int \<times> InterfaceUpsert) list"
  pd_storm :: "stormUtilPort list"
  pd_roles :: "int \<rightharpoonup> string"

text \<open>The inputs of a round: the answers, the rules, the thresholds of the device, the heavy part, the walk.\<close>
record round_input =
  ri_pa :: port_answers
  ri_ig :: ignores
  ri_dev :: "rat option \<times> rat option"
  ri_heavy :: bool
  ri_infra :: "int \<Rightarrow> bool"
  ri_stats :: "int \<Rightarrow> FDBIfStats"
  ri_rows :: "(int \<times> IfRow) list"

definition poll_port :: "port_config \<Rightarrow> round_input \<Rightarrow> time \<Rightarrow> snapshots \<Rightarrow> port_round \<Rightarrow> int \<times> IfRow \<Rightarrow> port_round" where
  "poll_port cfg ri now prev rd irow =
     (case irow of (i, row) \<Rightarrow>
        if i \<le> 0 then rd
        else let old = snap_at prev i;
                 pa = ri_pa ri;
                 ig = ri_ig ri;
                 role = effective_role (ri_heavy ri) (ri_infra ri) (ri_stats ri) (pc_roles cfg) i row old;
                 st = poll_link pa cfg ig now prev i row old (pd_st rd);
                 em = poll_speed pa ig now i row old (ps_em st)
             in case poll_util pa cfg ig (ri_dev ri) now i row old em of (em, high) \<Rightarrow>
               \<lparr>pd_st = st\<lparr>ps_em := em\<rparr>,
                pd_ups = pd_ups rd @ [(i, upsert_of now row role high)],
                pd_storm = pd_storm rd @ storm_port cfg now i row old,
                pd_roles = (pd_roles rd)(i \<mapsto> role)\<rparr>)"

definition poll_ports :: "port_config \<Rightarrow> round_input \<Rightarrow> time \<Rightarrow> port_state \<Rightarrow> port_round" where
  "poll_ports cfg ri now st =
     (let rd = foldl (poll_port cfg ri now (ps_ifs st)) \<lparr>pd_st = st, pd_ups = [], pd_storm = [], pd_roles = Map.empty\<rparr> (ri_rows ri)
      in if pa_upsert (ri_pa ri) then rd\<lparr>pd_st := (pd_st rd)\<lparr>ps_ifs := UpsertInterfaces (pd_ups rd) (ps_ifs (pd_st rd))\<rparr>\<rparr> else rd)"

section \<open>Events made by traps\<close>

definition NormalizeLinkTrapEventsMode :: "string \<Rightarrow> string" where
  "NormalizeLinkTrapEventsMode s =
     (let s = ToLower (TrimSpace s) in if s = ''per_device'' then ''per_device'' else if s = ''all'' then ''all'' else ''off'')"

definition NormalizeLinkTrapEffects :: "string \<Rightarrow> string" where
  "NormalizeLinkTrapEffects s = (if ToLower (TrimSpace s) = ''full'' then ''full'' else ''notify'')"

definition AllowLinkTrapEvents :: "string \<Rightarrow> bool \<Rightarrow> bool \<Rightarrow> bool" where
  "AllowLinkTrapEvents mode deviceFound trustLinkTraps =
     (let m = NormalizeLinkTrapEventsMode mode in
      if m = ''all'' then deviceFound else if m = ''per_device'' then deviceFound \<and> trustLinkTraps else False)"

definition communityAllowed :: "string \<Rightarrow> string \<Rightarrow> bool" where
  "communityAllowed expected got = (if expected = [] then True else got = expected)"

definition linkExpectedOper :: "string \<Rightarrow> int option" where
  "linkExpectedOper label =
     (let l = TrimSpace label in if l = ''linkUp'' then Some 1 else if l = ''linkDown'' then Some 2 else None)"

definition linkEventType :: "string \<Rightarrow> (string \<times> string) option" where
  "linkEventType label =
     (let l = TrimSpace label in
      if l = ''linkUp'' then Some (''LINK_UP'', ''info'') else if l = ''linkDown'' then Some (''LINK_DOWN'', ''warning'') else None)"

text \<open>
  A link trap of a known device as the receiver handles it. \<open>tr_labels\<close> are the texts of the port that
  are added to the payload; \<open>tr_trust\<close> is the switch of the device.
\<close>
record link_trap =
  tr_community :: string
  tr_label :: string
  tr_if :: "int option"
  tr_source :: string
  tr_payload :: payload
  tr_labels :: payload
  tr_labelOK :: bool
  tr_trust :: bool

record trap_settings =
  ts_Listen :: bool
  ts_Community :: string
  ts_Mode :: string
  ts_Effects :: string

definition trap_event :: "time \<Rightarrow> int \<Rightarrow> string \<Rightarrow> string \<Rightarrow> link_trap \<Rightarrow> event" where
  "trap_event now i typ sev tr =
     (let pl = merge_payload (tr_payload tr) [(''source'', PStr ''trap''), (''trap_confirmed'', PBool False),
        (''trap_label'', PStr (tr_label tr)), (''host'', PStr (tr_source tr)), (''if_index'', PInt i)]
      in \<lparr>ev_if = Some i, ev_type = typ, ev_sev = sev, ev_pl = merge_payload pl (tr_labels tr), ev_at = now\<rparr>)"

text \<open>What follows the insertion of the event of a trap.\<close>
definition trap_emitted :: "port_answers \<Rightarrow> trap_settings \<Rightarrow> bool \<Rightarrow> bool \<Rightarrow> event \<Rightarrow> emitted \<Rightarrow> emitted" where
  "trap_emitted pa ts blockNotify blockActions e em =
     \<lparr>em_log = e # em_log em,
      em_live = (if ee_hub (pa_emit pa) then e # em_live em else em_live em),
      em_hook = (if ee_hook (pa_emit pa) \<and> \<not> blockNotify then e # em_hook em else em_hook em),
      em_actions = (if NormalizeLinkTrapEffects (ts_Effects ts) = ''full'' \<and> \<not> blockActions
        then (ev_if e, ev_type e, ev_at e) # em_actions em else em_actions em)\<rparr>"

definition maybeEmitLinkFromTrap ::
    "port_answers \<Rightarrow> port_config \<Rightarrow> trap_settings \<Rightarrow> ignores \<Rightarrow> time \<Rightarrow> link_trap \<Rightarrow> port_state \<Rightarrow> port_state" where
  "maybeEmitLinkFromTrap pa cfg ts ig now tr st =
     (case tr_if tr of
        None \<Rightarrow> st
      | Some i \<Rightarrow>
          if i \<le> 0 then st
          else if \<not> AllowLinkTrapEvents (ts_Mode ts) True (tr_trust tr) then st
          else case linkEventType (tr_label tr) of
            None \<Rightarrow> st
          | Some (typ, sev) \<Rightarrow>
              (case ignoreReaction ig (Some i) typ of (blockEv, blockNotify, blockActions) \<Rightarrow>
                 if blockEv then st
                 else if \<not> ee_insert (pa_emit pa) (trap_event now i typ sev tr) then st
                 else maybeEmitPortFlap pa cfg ig now i (ps_ifs st)
                   (st\<lparr>ps_em := trap_emitted pa ts blockNotify blockActions (trap_event now i typ sev tr) (ps_em st)\<rparr>)))"

definition handleLinkTrap ::
    "port_answers \<Rightarrow> port_config \<Rightarrow> trap_settings \<Rightarrow> ignores \<Rightarrow> time \<Rightarrow> link_trap \<Rightarrow> port_state \<Rightarrow> port_state" where
  "handleLinkTrap pa cfg ts ig now tr st =
     (if \<not> communityAllowed (ts_Community ts) (tr_community tr) \<or> \<not> ts_Listen ts then st
      else case linkExpectedOper (tr_label tr) of
        None \<Rightarrow> st
      | Some expectedOper \<Rightarrow>
          let st = (case tr_if tr of
                None \<Rightarrow> st
              | Some i \<Rightarrow> st\<lparr>ps_pending := UpsertTrapPendingLink now i expectedOper (tr_label tr) (tr_source tr) (ps_pending st)\<rparr>)
          in if tr_labelOK tr then maybeEmitLinkFromTrap pa cfg ts ig now tr st else st)"

section \<open>A device over time\<close>

datatype port_step =
    Round round_input time
  | Trap port_answers trap_settings ignores link_trap time

fun step_port :: "port_config \<Rightarrow> port_state \<Rightarrow> port_step \<Rightarrow> port_state" where
  "step_port cfg st (Round ri now) = pd_st (poll_ports cfg ri now st)"
| "step_port cfg st (Trap pa ts ig tr now) = handleLinkTrap pa cfg ts ig now tr st"

definition port_run :: "port_config \<Rightarrow> port_state \<Rightarrow> port_step list \<Rightarrow> port_state" where
  "port_run cfg st steps = foldl (step_port cfg) st steps"

definition port_start :: "snapshots \<Rightarrow> port_state" where
  "port_start ifs = \<lparr>ps_em = \<lparr>em_log = [], em_live = [], em_hook = [], em_actions = []\<rparr>, ps_pending = Map.empty, ps_ifs = ifs\<rparr>"

text \<open>What a row of the log says besides its payload: port, type, instant.\<close>
type_synonym notice = "int option \<times> string \<times> time"

definition notices :: "port_state \<Rightarrow> notice list" where
  "notices st = map (\<lambda>e. (ev_if e, ev_type e, ev_at e)) (em_log (ps_em st))"



lemma notices_pending [simp]: "notices (st\<lparr>ps_pending := p\<rparr>) = notices st" "notices (st\<lparr>ps_ifs := m\<rparr>) = notices st"
  by (simp_all add: notices_def)

lemma confirm_first_notices:
  "map (\<lambda>e. (ev_if e, ev_type e, ev_at e)) (snd (confirm_first i ty since lg)) = map (\<lambda>e. (ev_if e, ev_type e, ev_at e)) lg"
  by (induction lg) (auto split: prod.splits)

lemma annotate_notices: "notices (snd (snd (annotateLinkFromTrap pa now i x ty pl st))) = notices st"
proof -
  have "map (\<lambda>e. (ev_if e, ev_type e, ev_at e)) lg = map (\<lambda>e. (ev_if e, ev_type e, ev_at e)) (em_log (ps_em st))"
    if "ConfirmRecentTrapLinkEvent now i ty (em_log (ps_em st)) = (b, lg)" for b lg
    using that confirm_first_notices [of i ty "now - 15 * minute" "em_log (ps_em st)"]
    by (auto simp: ConfirmRecentTrapLinkEvent_def split: if_splits)
  moreover obtain b lg where "ConfirmRecentTrapLinkEvent now i ty (em_log (ps_em st)) = (b, lg)" by fastforce
  moreover obtain p pend where "TakeTrapPendingLink now i x (ps_pending st) = (p, pend)" by fastforce
  ultimately show ?thesis
    by (cases p) (simp_all add: annotateLinkFromTrap_def notices_def Let_def)
qed

lemma emit_notices:
  "notices (st\<lparr>ps_em := emit env ig now (Some i) ty sev pl em\<rparr>) \<in>
     {notices (st\<lparr>ps_em := em\<rparr>), (Some i, ty, now) # notices (st\<lparr>ps_em := em\<rparr>)}"
  using emit_cases [of env ig now "Some i" ty sev pl em] by (auto simp: notices_def)

lemma emit_notices_same:
  "notices (st\<lparr>ps_em := emit env ig now (Some i) ty sev pl (ps_em st)\<rparr>) \<in> {notices st, (Some i, ty, now) # notices st}"
  using emit_notices [where st = st and em = "ps_em st" and i = i and ty = ty] by simp

section \<open>Flapping is reported with reason\<close>

text \<open>
  Every PORT_FLAP lies more than the debounce after those before it of the same port, and enough link
  changes of the port precede it within the window.
\<close>
fun flaps_ok :: "port_config \<Rightarrow> notice list \<Rightarrow> bool" where
  "flaps_ok cfg [] = True"
| "flaps_ok cfg ((j, ty, t) # ns) = (flaps_ok cfg ns \<and> (ty \<noteq> ''PORT_FLAP'' \<or>
     list_all (\<lambda>(k, u, s). k = j \<and> u = ''PORT_FLAP'' \<longrightarrow> s + flap_debounce cfg < t) ns \<and>
     flap_min cfg \<le> int (length (filter (\<lambda>(k, u, s). k = j \<and> t - flap_window cfg \<le> s \<and> (u = ''LINK_UP'' \<or> u = ''LINK_DOWN'')) ns))))"

lemma flaps_ok_emit:
  "flaps_ok cfg (notices st) \<Longrightarrow> ty \<noteq> ''PORT_FLAP'' \<Longrightarrow>
   flaps_ok cfg (notices (st\<lparr>ps_em := emit env ig now (Some i) ty sev pl (ps_em st)\<rparr>))"
  using emit_notices_same [of env ig now i ty sev pl st] by auto

lemma flaps_ok_flap:
  assumes "flaps_ok cfg (notices st)"
  shows "flaps_ok cfg (notices (maybeEmitPortFlap pa cfg ig now i ifs st))"
proof (cases "maybeEmitPortFlap pa cfg ig now i ifs st = st")
  case False
  let ?lg = "em_log (ps_em st)"
  let ?n = "length (link_events ?lg i (now - flap_window cfg))"
  have i: "0 < i" using False by (rule contrapos_np) (simp add: maybeEmitPortFlap_def)
  obtain src where c: "CountLinkEventsWithSources ?lg i (now - flap_window cfg) = (?n, src)"
    using i by (simp add: CountLinkEventsWithSources_def Let_def)
  have n: "flap_min cfg \<le> int ?n"
    using False by (rule contrapos_np) (simp add: maybeEmitPortFlap_def c)
  have dup: "\<not> HasPortEventSince ?lg i ''PORT_FLAP'' (now - flap_debounce cfg)"
    using False by (rule contrapos_pn) (simp add: maybeEmitPortFlap_def c)
  obtain pl where st': "maybeEmitPortFlap pa cfg ig now i ifs st =
      st\<lparr>ps_em := emit (pa_emit pa) ig now (Some i) ''PORT_FLAP'' ''warning'' pl (ps_em st)\<rparr>"
  proof
    have "pa_count pa" "pa_dup pa" using False by (rule contrapos_np, simp add: maybeEmitPortFlap_def c)+
    then show "maybeEmitPortFlap pa cfg ig now i ifs st = st\<lparr>ps_em := emit (pa_emit pa) ig now (Some i) ''PORT_FLAP'' ''warning''
        (mergeIfacePayload ifs i [(''bounce_count'', PInt (int ?n)), (''window_sec'', PInt (flap_window cfg div 1000000000)),
           (''min_bounces'', PInt (flap_min cfg)), (''sources'', PStrs (if src = [] then [''poll''] else src)),
           (''investigate'', PStr ''/investigate/mac'')]) (ps_em st)\<rparr>"
      using i n dup by (simp add: maybeEmitPortFlap_def c del: of_nat_le_iff)
  qed
  have "list_all (\<lambda>(k, u, s). k = Some i \<and> u = ''PORT_FLAP'' \<longrightarrow> s + flap_debounce cfg < now) (notices st)"
    using dup i by (auto simp: HasPortEventSince_def notices_def list_all_iff list_ex_iff)
  moreover have "length (link_events ?lg i (now - flap_window cfg)) =
      length (filter (\<lambda>(k, u, s). k = Some i \<and> now - flap_window cfg \<le> s \<and> (u = ''LINK_UP'' \<or> u = ''LINK_DOWN'')) (notices st))"
    by (simp add: link_events_def notices_def filter_map o_def)
  ultimately have "flaps_ok cfg ((Some i, ''PORT_FLAP'', now) # notices st)" using assms n by simp
  then show ?thesis
    using st' assms emit_notices_same [of "pa_emit pa" ig now i "''PORT_FLAP''" "''warning''" pl st] by auto
qed (simp add: assms)

lemma flaps_ok_link:
  assumes "flaps_ok cfg (notices st)" "ty \<noteq> ''PORT_FLAP''"
  shows "flaps_ok cfg (notices (link_change pa cfg ig now ifs i x ty sev pl st))"
proof -
  obtain made pl' st' where a: "annotateLinkFromTrap pa now i x ty pl st = (made, pl', st')" by (metis prod_cases3)
  then have "flaps_ok cfg (notices st')" using annotate_notices [of pa now i x ty pl st] assms(1) by simp
  then show ?thesis using assms(2) by (simp add: link_change_def a flaps_ok_flap flaps_ok_emit)
qed

lemma flaps_ok_poll_link: "flaps_ok cfg (notices st) \<Longrightarrow> flaps_ok cfg (notices (poll_link pa cfg ig now ifs i row old st))"
  by (simp add: poll_link_def Let_def flaps_ok_link split: option.split)

lemma flaps_ok_poll_speed:
  "flaps_ok cfg (notices st) \<Longrightarrow> flaps_ok cfg (notices (st\<lparr>ps_em := poll_speed pa ig now i row old (ps_em st)\<rparr>))"
  by (simp add: poll_speed_def Let_def flaps_ok_emit)

lemma flaps_ok_poll_util:
  assumes "flaps_ok cfg (notices st)"
  shows "flaps_ok cfg (notices (st\<lparr>ps_em := fst (poll_util pa cfg ig dev now i row old (ps_em st))\<rparr>))"
  using assms by (simp add: poll_util_def flaps_ok_emit split: option.split prod.split)

lemma flaps_ok_poll_port:
  assumes "flaps_ok cfg (notices (pd_st rd))"
  shows "flaps_ok cfg (notices (pd_st (poll_port cfg ri now prev rd irow)))"
proof (cases irow)
  case (Pair i row)
  define st where "st = poll_link (ri_pa ri) cfg (ri_ig ri) now prev i row (snap_at prev i) (pd_st rd)"
  define em where "em = poll_speed (ri_pa ri) (ri_ig ri) now i row (snap_at prev i) (ps_em st)"
  have "flaps_ok cfg (notices (st\<lparr>ps_em := em\<rparr>))"
    using assms by (simp add: em_def st_def flaps_ok_poll_speed flaps_ok_poll_link)
  moreover obtain em2 high where u: "poll_util (ri_pa ri) cfg (ri_ig ri) (ri_dev ri) now i row (snap_at prev i) em = (em2, high)"
    by fastforce
  ultimately have "flaps_ok cfg (notices (st\<lparr>ps_em := em2\<rparr>))"
    using flaps_ok_poll_util [of cfg "st\<lparr>ps_em := em\<rparr>" "ri_pa ri" "ri_ig ri" "ri_dev ri" now i row "snap_at prev i"] by simp
  then show ?thesis
    using assms by (simp add: Pair poll_port_def Let_def u flip: st_def em_def)
qed

lemma poll_ports_notices:
  "notices (pd_st (poll_ports cfg ri now st)) =
   notices (pd_st (foldl (poll_port cfg ri now (ps_ifs st)) \<lparr>pd_st = st, pd_ups = [], pd_storm = [], pd_roles = Map.empty\<rparr> (ri_rows ri)))"
  by (simp add: poll_ports_def Let_def)

lemma flaps_ok_poll_ports:
  assumes "flaps_ok cfg (notices st)"
  shows "flaps_ok cfg (notices (pd_st (poll_ports cfg ri now st)))"
  unfolding poll_ports_notices
  by (rule foldl_inv [where P = "\<lambda>rd. flaps_ok cfg (notices (pd_st rd))"]) (simp_all add: assms flaps_ok_poll_port)

lemma trap_result:
  obtains st' where "handleLinkTrap pa cfg ts ig now tr st = st'" "notices st' = notices st" "ps_ifs st' = ps_ifs st"
  | st' i ty where "ty = ''LINK_UP'' \<or> ty = ''LINK_DOWN''" "notices st' = (Some i, ty, now) # notices st" "ps_ifs st' = ps_ifs st"
      "handleLinkTrap pa cfg ts ig now tr st = maybeEmitPortFlap pa cfg ig now i (ps_ifs st) st'"
proof -
  define st0 where "st0 = (case tr_if tr of None \<Rightarrow> st | Some i \<Rightarrow> st\<lparr>ps_pending :=
    UpsertTrapPendingLink now i (case linkExpectedOper (tr_label tr) of None \<Rightarrow> 0 | Some x \<Rightarrow> x) (tr_label tr) (tr_source tr) (ps_pending st)\<rparr>)"
  have st0: "notices st0 = notices st" "ps_ifs st0 = ps_ifs st" by (simp_all add: st0_def split: option.split)
  have h: "handleLinkTrap pa cfg ts ig now tr st \<in> {st, st0, maybeEmitLinkFromTrap pa cfg ts ig now tr st0}"
    by (cases "linkExpectedOper (tr_label tr)"; cases "tr_if tr") (simp_all add: handleLinkTrap_def st0_def Let_def)
  show thesis
  proof (cases "maybeEmitLinkFromTrap pa cfg ts ig now tr st0 = st0")
    case True
    then show thesis using h st0 that(1) by auto
  next
    case False
    then obtain i where i: "tr_if tr = Some i" by (cases "tr_if tr") (simp_all add: maybeEmitLinkFromTrap_def)
    obtain ty sev where ty: "linkEventType (tr_label tr) = Some (ty, sev)"
      using False i by (cases "linkEventType (tr_label tr)") (fastforce simp add: maybeEmitLinkFromTrap_def)+
    obtain bE bN bA where ig: "ignoreReaction ig (Some i) ty = (bE, bN, bA)" by (metis prod_cases3)
    define st' where "st' = st0\<lparr>ps_em := trap_emitted pa ts bN bA (trap_event now i ty sev tr) (ps_em st0)\<rparr>"
    have st': "notices st' = (Some i, ty, now) # notices st0" "ps_ifs st' = ps_ifs st0"
      by (simp_all add: st'_def notices_def trap_emitted_def trap_event_def Let_def)
    have X: "maybeEmitLinkFromTrap pa cfg ts ig now tr st0 = maybeEmitPortFlap pa cfg ig now i (ps_ifs st0) st'"
      using False by (simp add: maybeEmitLinkFromTrap_def i ty ig st'_def split: if_splits)
    have "ty = ''LINK_UP'' \<or> ty = ''LINK_DOWN''" using ty by (simp add: linkEventType_def Let_def split: if_splits)
    then show thesis
    proof (cases "handleLinkTrap pa cfg ts ig now tr st \<in> {st, st0}")
      case True
      then show thesis using st0 that(1) by auto
    next
      case False
      then show thesis using h st0 st' X that(2) [of ty st' i] \<open>ty = ''LINK_UP'' \<or> ty = ''LINK_DOWN''\<close> by simp
    qed
  qed
qed

lemma flaps_ok_trap:
  assumes "flaps_ok cfg (notices st)"
  shows "flaps_ok cfg (notices (handleLinkTrap pa cfg ts ig now tr st))"
proof (rule trap_result [of pa cfg ts ig now tr st])
  fix st' i ty assume "ty = ''LINK_UP'' \<or> ty = ''LINK_DOWN''" "notices st' = (Some i, ty, now) # notices st"
    "handleLinkTrap pa cfg ts ig now tr st = maybeEmitPortFlap pa cfg ig now i (ps_ifs st) st'"
  moreover from this have "flaps_ok cfg (notices st')" using assms by auto
  ultimately show ?thesis by (simp add: flaps_ok_flap)
qed (simp add: assms)

text \<open>
  C28. Over any sequence of polls and link traps, with any rules and whatever the database answers, a port
  is reported as flapping only when enough of its link changes lie within the window, and never twice
  within the debounce.
\<close>
theorem flaps_justified: "flaps_ok cfg (notices (port_run cfg (port_start ifs) steps))"
  unfolding port_run_def
proof (rule foldl_inv [where P = "\<lambda>st. flaps_ok cfg (notices st)"])
  show "flaps_ok cfg (notices (port_start ifs))" by (simp add: port_start_def notices_def)
next
  fix st x assume "flaps_ok cfg (notices st)"
  then show "flaps_ok cfg (notices (step_port cfg st x))"
    by (cases x) (simp_all add: flaps_ok_poll_ports flaps_ok_trap)
qed

section \<open>Overload and relief alternate\<close>

definition util_types :: "int \<Rightarrow> notice list \<Rightarrow> string list" where
  "util_types i ns = map (\<lambda>(_, ty, _). ty) (filter (\<lambda>(j, ty, _). j = Some i \<and> (ty = ''PORT_UTILIZATION_HIGH'' \<or> ty = ''PORT_UTILIZATION_OK'')) ns)"

text \<open>The latest first, the earliest being an overload.\<close>
fun high_first :: "string list \<Rightarrow> bool" where
  "high_first [] = True"
| "high_first [ty] = (ty = ''PORT_UTILIZATION_HIGH'')"
| "high_first (ty # u # r) = (ty \<noteq> u \<and> high_first (u # r))"

definition told_high :: "string list \<Rightarrow> bool" where
  "told_high us \<longleftrightarrow> us \<noteq> [] \<and> hd us = ''PORT_UTILIZATION_HIGH''"

definition util_ok :: "int \<Rightarrow> string list \<Rightarrow> bool \<Rightarrow> bool" where
  "util_ok i us active \<longleftrightarrow> set us \<subseteq> {''PORT_UTILIZATION_HIGH'', ''PORT_UTILIZATION_OK''} \<and> high_first us \<and> told_high us = active"

lemma util_types_Cons:
  "util_types i ((j, ty, t) # ns) =
     (if j = Some i \<and> (ty = ''PORT_UTILIZATION_HIGH'' \<or> ty = ''PORT_UTILIZATION_OK'') then ty # util_types i ns else util_types i ns)"
  by (simp add: util_types_def)

lemma util_ok_high: "util_ok i us False \<Longrightarrow> util_ok i (''PORT_UTILIZATION_HIGH'' # us) True"
  by (cases us) (auto simp: util_ok_def told_high_def)

lemma util_ok_relief: "util_ok i us True \<Longrightarrow> util_ok i (''PORT_UTILIZATION_OK'' # us) False"
  by (cases us) (auto simp: util_ok_def told_high_def)

lemma flap_notices:
  "notices (maybeEmitPortFlap pa cfg ig now i ifs st) \<in> {notices st, (Some i, ''PORT_FLAP'', now) # notices st}"
proof -
  obtain n src where c: "CountLinkEventsWithSources (em_log (ps_em st)) i (now - flap_window cfg) = (n, src)" by fastforce
  show ?thesis
    using emit_notices_same [where st = st and ty = "''PORT_FLAP''" and i = i and now = now and ig = ig and env = "pa_emit pa"]
    by (simp add: maybeEmitPortFlap_def c del: insert_iff) simp
qed

lemma flap_ifs [simp]: "ps_ifs (maybeEmitPortFlap pa cfg ig now i ifs st) = ps_ifs st"
  by (simp add: maybeEmitPortFlap_def split: prod.split)

lemma annotate_ifs: "annotateLinkFromTrap pa now i x ty pl st = (b, pl', st') \<Longrightarrow> ps_ifs st' = ps_ifs st"
  by (auto simp: annotateLinkFromTrap_def Let_def split: if_splits prod.splits option.splits)

definition util_type :: "string \<Rightarrow> bool" where
  "util_type ty \<longleftrightarrow> ty = ''PORT_UTILIZATION_HIGH'' \<or> ty = ''PORT_UTILIZATION_OK''"

lemma util_type_simps [simp]:
  "\<not> util_type ''LINK_UP''" "\<not> util_type ''LINK_DOWN''" "\<not> util_type ''PORT_FLAP''" "\<not> util_type ''PORT_SPEED_DOWN''"
  "\<not> util_type ''PORT_SPEED_OK''" "util_type ''PORT_UTILIZATION_HIGH''" "util_type ''PORT_UTILIZATION_OK''"
  by (simp_all add: util_type_def)

lemma util_emit:
  "\<not> util_type ty \<or> j \<noteq> i \<Longrightarrow>
   util_types i (notices (st\<lparr>ps_em := emit env ig now (Some j) ty sev pl (ps_em st)\<rparr>)) = util_types i (notices st)"
  using emit_notices_same [of env ig now j ty sev pl st] by (auto simp: util_types_Cons util_type_def)

lemma util_flap: "util_types i (notices (maybeEmitPortFlap pa cfg ig now j ifs st)) = util_types i (notices st)"
  using flap_notices [of pa cfg ig now j ifs st] by (auto simp: util_types_Cons)

lemma util_link_change:
  assumes "\<not> util_type ty"
  shows "util_types i (notices (link_change pa cfg ig now ifs j x ty sev pl st)) = util_types i (notices st)"
    and "ps_ifs (link_change pa cfg ig now ifs j x ty sev pl st) = ps_ifs st"
proof -
  obtain made pl' st' where a: "annotateLinkFromTrap pa now j x ty pl st = (made, pl', st')" by (metis prod_cases3)
  then have "notices st' = notices st" using annotate_notices [of pa now j x ty pl st] by simp
  then show "util_types i (notices (link_change pa cfg ig now ifs j x ty sev pl st)) = util_types i (notices st)"
    using assms by (simp add: link_change_def a util_flap util_emit)
  show "ps_ifs (link_change pa cfg ig now ifs j x ty sev pl st) = ps_ifs st"
    by (simp add: link_change_def a annotate_ifs [OF a])
qed

lemma util_poll_link:
  "util_types i (notices (poll_link pa cfg ig now ifs j row old st)) = util_types i (notices st)"
  "ps_ifs (poll_link pa cfg ig now ifs j row old st) = ps_ifs st"
  by (simp_all add: poll_link_def Let_def util_link_change split: option.split)

lemma util_poll_speed:
  "util_types i (notices (st\<lparr>ps_em := poll_speed pa ig now j row old (ps_em st)\<rparr>)) = util_types i (notices st)"
  by (simp add: poll_speed_def Let_def util_emit)

lemma util_poll_util_other:
  "j \<noteq> i \<Longrightarrow> util_types i (notices (st\<lparr>ps_em := fst (poll_util pa cfg ig dev now j row old (ps_em st))\<rparr>)) = util_types i (notices st)"
  by (simp add: poll_util_def util_emit split: option.split prod.split)

lemma map_of_merge_payload [simp]: "map_of (merge_payload pl qs) k = (map_of pl ++ map_of (rev qs)) k"
  by (induction qs arbitrary: pl) (auto simp: merge_payload_def payload_put_def update_conv' map_add_def split: option.split)

lemma no_mac: "EventPayloadMAC ty (merge_payload pl (ifaceEventPayload row old)) = []"
  if "map_of pl ''mac'' = None" "ty \<noteq> ''ACCESS_PORT_MAC_SUBSTITUTED''"
  using that by (simp add: EventPayloadMAC_def pl_mac_def pl_str_def ifaceEventPayload_def Let_def map_add_def)

lemma emit_kept:
  assumes "ee_insert env = (\<lambda>_. True)" "map_of ig i = None" "EventPayloadMAC ty pl = []"
  shows "notices (st\<lparr>ps_em := emit env ig now (Some i) ty sev pl (ps_em st)\<rparr>) = (Some i, ty, now) # notices st"
  using assms by (simp add: emit_def ignoreReaction_def notices_def Let_def)

lemma util_poll_util:
  assumes "ee_insert (pa_emit pa) = (\<lambda>_. True)" "map_of ig i = None"
    and "util_ok i (util_types i (notices st)) (sn_HighActive old)"
    and p: "poll_util pa cfg ig dev now i row old (ps_em st) = (em, high)"
  shows "util_ok i (util_types i (notices (st\<lparr>ps_em := em\<rparr>))) high"
proof (cases "util_of now row old")
  case (Some u)
  obtain hp okp where r: "ResolveUtilThresholds cfg dev old = (hp, okp)" by fastforce
  note kept = emit_kept [OF assms(1,2) no_mac]
  show ?thesis
    using p assms(3) by (auto simp: poll_util_def Some r kept util_types_Cons util_ok_high util_ok_relief split: if_splits)
qed (use assms in \<open>auto simp: poll_util_def\<close>)

lemma UpsertInterfaces_at:
  "distinct (map fst ups) \<Longrightarrow>
   UpsertInterfaces ups ifs i = (case map_of ups i of None \<Rightarrow> ifs i | Some u \<Rightarrow> Some (upsert_row (ifs i) u))"
proof (induction ups arbitrary: ifs)
  case (Cons x ups)
  obtain j u where x: "x = (j, u)" by fastforce
  have "map_of ups j = None" using Cons.prems x by (simp add: map_of_eq_None_iff)
  moreover have "UpsertInterfaces (x # ups) ifs = UpsertInterfaces ups (ifs(j \<mapsto> upsert_row (ifs j) u))"
    by (simp add: UpsertInterfaces_def x)
  moreover have "distinct (map fst ups)" using Cons.prems by simp
  ultimately show ?case by (simp only: Cons.IH) (simp add: x split: option.split)
qed (simp add: UpsertInterfaces_def)

lemma upsert_row_active [simp]: "sn_HighActive (upsert_row r u) = iu_HighActive u"
  by (simp add: upsert_row_def Let_def)

text \<open>What the loop has done for port \<open>i\<close>: nothing yet, or a row to write whose flag agrees with what was told.\<close>
definition told_round :: "int \<Rightarrow> string list \<Rightarrow> snapshots \<Rightarrow> port_round \<Rightarrow> bool" where
  "told_round i us prev rd \<longleftrightarrow> ps_ifs (pd_st rd) = prev \<and>
     (case map_of (pd_ups rd) i of
        None \<Rightarrow> util_types i (notices (pd_st rd)) = us
      | Some u \<Rightarrow> util_ok i (util_types i (notices (pd_st rd))) (iu_HighActive u))"

lemma told_round_step:
  assumes "told_round i us prev rd" "util_ok i us (sn_HighActive (snap_at prev i))"
    and "ee_insert (pa_emit (ri_pa ri)) = (\<lambda>_. True)" "map_of (ri_ig ri) i = None" "j = i \<Longrightarrow> map_of (pd_ups rd) i = None"
  shows "told_round i us prev (poll_port cfg ri now prev rd (j, row))"
proof (cases "j \<le> 0")
  case False
  define st where "st = poll_link (ri_pa ri) cfg (ri_ig ri) now prev j row (snap_at prev j) (pd_st rd)"
  define em where "em = poll_speed (ri_pa ri) (ri_ig ri) now j row (snap_at prev j) (ps_em st)"
  obtain em2 high where u: "poll_util (ri_pa ri) cfg (ri_ig ri) (ri_dev ri) now j row (snap_at prev j) em = (em2, high)"
    by fastforce
  define role where "role = effective_role (ri_heavy ri) (ri_infra ri) (ri_stats ri) (pc_roles cfg) j row (snap_at prev j)"
  have rd': "poll_port cfg ri now prev rd (j, row) =
      \<lparr>pd_st = st\<lparr>ps_em := em2\<rparr>, pd_ups = pd_ups rd @ [(j, upsert_of now row role high)],
       pd_storm = pd_storm rd @ storm_port cfg now j row (snap_at prev j), pd_roles = (pd_roles rd)(j \<mapsto> role)\<rparr>"
    using False by (simp add: poll_port_def Let_def u role_def flip: st_def em_def)
  have ifs: "ps_ifs st = prev" using assms(1) by (simp add: st_def util_poll_link told_round_def)
  have same: "util_types i (notices (st\<lparr>ps_em := em\<rparr>)) = util_types i (notices (pd_st rd))"
    by (simp add: em_def st_def util_poll_speed util_poll_link)
  show ?thesis
  proof (cases "j = i")
    case True
    have "util_types i (notices (st\<lparr>ps_em := em\<rparr>)) = us" using assms(1,5) True same by (simp add: told_round_def)
    then have "util_ok i (util_types i (notices (st\<lparr>ps_em := em2\<rparr>))) high"
      using util_poll_util [of "ri_pa ri" "ri_ig ri" i "st\<lparr>ps_em := em\<rparr>" "snap_at prev j" cfg "ri_dev ri" now row em2 high]
        assms u True by simp
    then show ?thesis
      unfolding told_round_def rd' using assms(5) True ifs by (simp add: map_add_def upsert_of_def)
  next
    case other: False
    have "util_types i (notices (st\<lparr>ps_em := em2\<rparr>)) = util_types i (notices (pd_st rd))"
      using util_poll_util_other [of j i "ri_pa ri" cfg "ri_ig ri" "ri_dev ri" now row "snap_at prev j" "st\<lparr>ps_em := em\<rparr>"]
        other u same by simp
    then show ?thesis
      using assms(1) other ifs unfolding told_round_def rd' by (simp add: map_add_def split: option.splits)
  qed
qed (use assms in \<open>simp add: poll_port_def\<close>)

lemma told_rounds:
  assumes "util_ok i (util_types i (notices st)) (sn_HighActive (snap_at (ps_ifs st) i))"
    and "ee_insert (pa_emit (ri_pa ri)) = (\<lambda>_. True)" "map_of (ri_ig ri) i = None" "distinct (map fst rows)"
  defines "rd0 \<equiv> \<lparr>pd_st = st, pd_ups = [], pd_storm = [], pd_roles = Map.empty\<rparr>"
  shows "map fst (pd_ups (foldl (poll_port cfg ri now (ps_ifs st)) rd0 rows)) = filter (\<lambda>j. 0 < j) (map fst rows) \<and>
    told_round i (util_types i (notices st)) (ps_ifs st) (foldl (poll_port cfg ri now (ps_ifs st)) rd0 rows)"
  using assms(4)
proof (induction rows rule: rev_induct)
  case Nil
  then show ?case by (simp add: rd0_def told_round_def)
next
  case (snoc x rows)
  obtain j row where x: "x = (j, row)" by fastforce
  let ?rd = "foldl (poll_port cfg ri now (ps_ifs st)) rd0 rows"
  have IH: "map fst (pd_ups ?rd) = filter (\<lambda>j. 0 < j) (map fst rows)" "told_round i (util_types i (notices st)) (ps_ifs st) ?rd"
    using snoc by auto
  have "j = i \<Longrightarrow> map_of (pd_ups ?rd) i = None"
  proof -
    assume "j = i"
    then have "i \<notin> set (map fst (pd_ups ?rd))" using snoc.prems unfolding IH(1) x by simp
    then show ?thesis by (simp add: map_of_eq_None_iff)
  qed
  then have "told_round i (util_types i (notices st)) (ps_ifs st) (poll_port cfg ri now (ps_ifs st) ?rd (j, row))"
    using told_round_step [OF IH(2) assms(1-3)] by blast
  moreover have "map fst (pd_ups (poll_port cfg ri now (ps_ifs st) ?rd (j, row))) = filter (\<lambda>j. 0 < j) (map fst (rows @ [x]))"
    using IH(1) by (simp add: x poll_port_def Let_def split: prod.split)
  ultimately show ?case by (simp add: x)
qed

text \<open>The rounds keep what they are told, no rule concerns the port, and a walk lists a port once.\<close>
definition plain_step :: "int \<Rightarrow> port_step \<Rightarrow> bool" where
  "plain_step i s = (case s of
     Round ri now \<Rightarrow> ee_insert (pa_emit (ri_pa ri)) = (\<lambda>_. True) \<and> pa_upsert (ri_pa ri) \<and> map_of (ri_ig ri) i = None \<and>
       distinct (map fst (ri_rows ri))
   | Trap pa ts ig tr now \<Rightarrow> True)"

lemma util_trap: "util_types i (notices (handleLinkTrap pa cfg ts ig now tr st)) = util_types i (notices st) \<and>
    ps_ifs (handleLinkTrap pa cfg ts ig now tr st) = ps_ifs st"
  by (rule trap_result [of pa cfg ts ig now tr st]) (auto simp: util_flap util_types_Cons)

lemma util_round:
  assumes "util_ok i (util_types i (notices st)) (sn_HighActive (snap_at (ps_ifs st) i))" "plain_step i (Round ri now)"
  shows "util_ok i (util_types i (notices (step_port cfg st (Round ri now)))) (sn_HighActive (snap_at (ps_ifs (step_port cfg st (Round ri now))) i))"
proof -
  let ?rd = "foldl (poll_port cfg ri now (ps_ifs st)) \<lparr>pd_st = st, pd_ups = [], pd_storm = [], pd_roles = Map.empty\<rparr> (ri_rows ri)"
  have r: "map fst (pd_ups ?rd) = filter (\<lambda>j. 0 < j) (map fst (ri_rows ri))"
    "told_round i (util_types i (notices st)) (ps_ifs st) ?rd"
    using told_rounds [of i st ri "ri_rows ri" cfg now] assms by (simp_all add: plain_step_def)
  have d: "distinct (map fst (pd_ups ?rd))" using assms(2) unfolding r(1) by (simp add: plain_step_def)
  have ifs: "ps_ifs (step_port cfg st (Round ri now)) = UpsertInterfaces (pd_ups ?rd) (ps_ifs st)"
    using assms(2) r(2) by (simp add: poll_ports_def Let_def plain_step_def told_round_def)
  have "snap_at (UpsertInterfaces (pd_ups ?rd) (ps_ifs st)) i =
      (case map_of (pd_ups ?rd) i of None \<Rightarrow> snap_at (ps_ifs st) i | Some u \<Rightarrow> upsert_row (ps_ifs st i) u)"
    by (simp add: snap_at_def UpsertInterfaces_at [OF d] split: option.split)
  then show ?thesis
    using r(2) assms(1) unfolding ifs
    by (simp add: poll_ports_notices told_round_def split: option.splits)
qed

text \<open>
  C27. As long as rows and events are stored and no rule silences a port, what is reported of its load
  alternates, overload first, and the flag in its row says which was last: no overload is reported
  twice, and every relief ends an overload that was reported.
\<close>
theorem util_alternates:
  assumes "list_all (plain_step i) steps" "\<not> sn_HighActive (snap_at ifs i)"
  shows "high_first (util_types i (notices (port_run cfg (port_start ifs) steps))) \<and>
    told_high (util_types i (notices (port_run cfg (port_start ifs) steps))) =
      sn_HighActive (snap_at (ps_ifs (port_run cfg (port_start ifs) steps)) i)"
proof -
  have "util_ok i (util_types i (notices (port_run cfg (port_start ifs) steps)))
      (sn_HighActive (snap_at (ps_ifs (port_run cfg (port_start ifs) steps)) i))"
    unfolding port_run_def
  proof (rule foldl_inv [where P = "\<lambda>st. util_ok i (util_types i (notices st)) (sn_HighActive (snap_at (ps_ifs st) i))"])
    show "util_ok i (util_types i (notices (port_start ifs))) (sn_HighActive (snap_at (ps_ifs (port_start ifs)) i))"
      using assms(2) by (simp add: port_start_def notices_def util_types_def util_ok_def told_high_def)
  next
    fix st s assume ok: "util_ok i (util_types i (notices st)) (sn_HighActive (snap_at (ps_ifs st) i))" and "s \<in> set steps"
    then have "plain_step i s" using assms(1) by (simp add: list_all_iff)
    then show "util_ok i (util_types i (notices (step_port cfg st s))) (sn_HighActive (snap_at (ps_ifs (step_port cfg st s)) i))"
      using ok by (cases s) (simp_all add: util_round util_trap del: step_port.simps(1))
  qed
  then show ?thesis by (simp add: util_ok_def)
qed

section \<open>Runs\<close>

definition defaults :: port_config where
  "defaults = \<lparr>pc_roles = \<lparr>rc_MinMACs = 8, rc_MinVLANs = 2, rc_FallbackMinMACs = 12\<rparr>, pc_FlapMinBounces = 4,
     pc_FlapWindow = 10 * minute, pc_FlapDebounce = 15 * minute, pc_UtilHighPct = 90, pc_UtilOKPct = 85, pc_StormUtilPct = 80\<rparr>"

definition working :: port_answers where
  "working = \<lparr>pa_emit = \<lparr>ee_wifi = (\<lambda>_. Some False), ee_insert = (\<lambda>_. True), ee_hub = True, ee_hook = True, ee_accepts = True\<rparr>,
     pa_take = True, pa_confirm = True, pa_count = True, pa_dup = True, pa_upsert = True\<rparr>"

definition fast_port :: "int \<Rightarrow> int \<Rightarrow> IfRow" where
  "fast_port oper octets = \<lparr>ir_Descr = ''Slot: 0 Port: 7'', ir_Alias = [], ir_Name = ''0/7'', ir_Type = 6, ir_Admin = 1, ir_Oper = oper,
     ir_Speed = 0, ir_HighSpeed = 8, ir_HCIn = octets, ir_HCOut = 0\<rparr>"

definition round_with :: "bool \<Rightarrow> bool \<Rightarrow> int \<Rightarrow> int \<Rightarrow> int \<Rightarrow> port_step" where
  "round_with heavy infra oper octets t =
     Round \<lparr>ri_pa = working, ri_ig = [], ri_dev = (None, None), ri_heavy = heavy, ri_infra = (\<lambda>_. infra), ri_stats = (\<lambda>_. no_stats),
       ri_rows = [(7, fast_port oper octets)]\<rparr> (t * minute)"

text \<open>A million octets per second are the full load of the port: it is loaded and relieved.\<close>
definition load_rounds :: "port_step list" where
  "load_rounds = [round_with False False 1 0 0, round_with False False 1 60000000 1, round_with False False 1 60000000 3]"

theorem util_alternates_witness:
  "util_types 7 (notices (port_run defaults (port_start Map.empty) load_rounds)) =
     [''PORT_UTILIZATION_OK'', ''PORT_UTILIZATION_HIGH''] \<and>
   \<not> sn_HighActive (snap_at (ps_ifs (port_run defaults (port_start Map.empty) load_rounds)) 7)"
proof -
  have run: "util_types 7 (notices (port_run defaults (port_start Map.empty) load_rounds)) =
      [''PORT_UTILIZATION_OK'', ''PORT_UTILIZATION_HIGH'']" by code_simp
  then show ?thesis
    using util_alternates [of 7 load_rounds Map.empty defaults]
    by (simp add: load_rounds_def round_with_def plain_step_def working_def snap_at_def zero_snapshot_def told_high_def)
qed

text \<open>
  A light poll is meant to leave roles alone, but what it derives from the row forgets a role found by LLDP or
  by learned addresses: the port of a neighbouring switch is a trunk after every heavy poll and an access
  port after every light one.
\<close>
lemma roles_blink:
  "map (\<lambda>n. sn_Role (snap_at (ps_ifs (port_run defaults (port_start Map.empty)
       (take n [round_with True True 1 0 0, round_with False True 1 0 1, round_with True True 1 0 2]))) 7)) [1, 2, 3] =
   [''trunk'', ''access'', ''trunk'']"
  by code_simp

definition link_trap_of :: "string \<Rightarrow> int \<Rightarrow> port_step" where
  "link_trap_of label t = Trap working
     \<lparr>ts_Listen = True, ts_Community = [], ts_Mode = ''all'', ts_Effects = ''notify''\<rparr> []
     \<lparr>tr_community = [], tr_label = label, tr_if = Some 7, tr_source = ''10.0.0.7'', tr_payload = [], tr_labels = [],
      tr_labelOK = True, tr_trust = True\<rparr> (t * minute)"

text \<open>
  Two traps between polls leave the later one pending although no poll can confirm it. When the port goes
  down and comes back within a quarter of an hour, with no traps this time, the return is taken for
  the old trap and never reported: the last event says that the port is down.
\<close>
lemma stale_trap_swallows_link_up:
  "let st = port_run defaults (port_start Map.empty)
     [round_with False False 1 0 0, link_trap_of ''linkDown'' 1, link_trap_of ''linkUp'' 2, round_with False False 1 0 5,
      round_with False False 2 0 10, round_with False False 1 0 15]
   in map (\<lambda>(_, ty, t). (ty, t div minute)) (notices st) = [(''LINK_DOWN'', 10), (''LINK_UP'', 2), (''LINK_DOWN'', 1)] \<and>
      sn_Oper (snap_at (ps_ifs st) 7) = Some 1"
  by code_simp

end
