(* ===== verification/Fdb_Events.thy ===== *)
theory Fdb_Events
  imports Fdb_Walk Port_Alerts "HOL-Library.Char_ord" "HOL-Library.List_Lexorder"
begin

text \<open>
  What follows from the addresses learned on the ports of a switch: addresses that appear, move and leave
  (\<open>mac_moves.go\<close>, \<open>fdb_access_events.go\<close>), flapping (\<open>mac_flap.go\<close>), the binding of access ports
  (\<open>access_port_security.go\<close>), broadcast storms (\<open>broadcast_storm.go\<close>) and their composition in \<open>pollFDB\<close>
  (\<open>internal/poller\<close>), with the tables \<open>device_fdb_entries\<close>, \<open>mac_fdb_moves\<close> and \<open>port_access_security\<close> of
  \<open>internal/store\<close>. A Go map that is ranged over is an association list. Whether an address is of a Wi-Fi
  client that is not tracked, and its vendor, are arguments.
\<close>

section \<open>Moves\<close>

record MACFDBMoveInsert =
  mv_MAC :: string
  mv_From :: "int option"
  mv_To :: "int option"
  mv_VLAN :: "int option"
  mv_SeenAt :: time
  mv_Source :: string

definition normalizeMAC :: "string \<Rightarrow> string" where
  "normalizeMAC mac = ToLower (TrimSpace mac)"

definition normalizeIfMap :: "(string \<times> int) list \<Rightarrow> (string \<times> int) list" where
  "normalizeIfMap m = foldl (\<lambda>out (mac, i). if normalizeMAC mac = [] then out else AList.update (normalizeMAC mac) i out) [] m"

definition vlanOf :: "fdb \<Rightarrow> string \<Rightarrow> int option" where
  "vlanOf entries mac =
     (case map_of entries mac of
        Some e \<Rightarrow> le_VLANID e
      | None \<Rightarrow> (case find (\<lambda>(k, _). ToLower k = ToLower mac) entries of Some (_, e) \<Rightarrow> le_VLANID e | None \<Rightarrow> None))"

definition appear_move :: "fdb \<Rightarrow> time \<Rightarrow> string \<Rightarrow> (string \<times> int) list \<Rightarrow> string \<times> int \<Rightarrow> MACFDBMoveInsert option" where
  "appear_move entries seenAt source normPrev ki =
     (case ki of (mac, ifIndex) \<Rightarrow>
        if mac = [] \<or> ifIndex \<le> 0 then None
        else case map_of normPrev mac of
          None \<Rightarrow> Some \<lparr>mv_MAC = mac, mv_From = None, mv_To = Some ifIndex, mv_VLAN = vlanOf entries mac, mv_SeenAt = seenAt, mv_Source = source\<rparr>
        | Some oldIf \<Rightarrow>
            if oldIf = ifIndex then None
            else Some \<lparr>mv_MAC = mac, mv_From = Some oldIf, mv_To = Some ifIndex, mv_VLAN = vlanOf entries mac, mv_SeenAt = seenAt, mv_Source = source\<rparr>)"

definition leave_move :: "time \<Rightarrow> string \<Rightarrow> (string \<times> int) list \<Rightarrow> string \<times> int \<Rightarrow> MACFDBMoveInsert option" where
  "leave_move seenAt source normCur ki =
     (case ki of (mac, oldIf) \<Rightarrow>
        if mac = [] \<or> oldIf \<le> 0 then None
        else if map_of normCur mac \<noteq> None then None
        else Some \<lparr>mv_MAC = mac, mv_From = Some oldIf, mv_To = None, mv_VLAN = None, mv_SeenAt = seenAt, mv_Source = source\<rparr>)"

definition computeMACFDBMoves :: "(string \<times> int) list \<Rightarrow> (string \<times> int) list \<Rightarrow> fdb \<Rightarrow> time \<Rightarrow> string \<Rightarrow> MACFDBMoveInsert list" where
  "computeMACFDBMoves prev cur entries seenAt source0 =
     (let source = (if source0 = [] then ''fdb_poll'' else source0);
          normPrev = normalizeIfMap prev;
          normCur = normalizeIfMap cur
      in List.map_filter (appear_move entries seenAt source normPrev) normCur @
         List.map_filter (leave_move seenAt source normCur) normPrev)"

text \<open>The moves played over the earlier map.\<close>
definition play_move :: "(string \<rightharpoonup> int) \<Rightarrow> MACFDBMoveInsert \<Rightarrow> (string \<rightharpoonup> int)" where
  "play_move v m = v(mv_MAC m := mv_To m)"

lemma normalizeIfMap_distinct: "distinct (map fst (normalizeIfMap m))"
proof -
  have "distinct (map fst (foldl (\<lambda>out (mac, i). if normalizeMAC mac = [] then out else AList.update (normalizeMAC mac) i out) out m))"
    if "distinct (map fst out)" for out
    using that by (induction m arbitrary: out) (auto simp: distinct_update split: prod.split)
  then show ?thesis by (simp add: normalizeIfMap_def)
qed

lemma normalizeIfMap_ball: "\<forall>(k, j)\<in>set (normalizeIfMap m). k \<noteq> [] \<and> j \<in> snd ` set m"
  unfolding normalizeIfMap_def
proof (rule foldl_inv)
  fix out :: "(string \<times> int) list" and x assume inv: "\<forall>(k, j)\<in>set out. k \<noteq> [] \<and> j \<in> snd ` set m" and x: "x \<in> set m"
  obtain k j where kj: "x = (k, j)" by fastforce
  then have "j \<in> snd ` set m" using x by force
  then show "\<forall>(k, j)\<in>set (case x of (mac, i) \<Rightarrow> if normalizeMAC mac = [] then out else AList.update (normalizeMAC mac) i out).
      k \<noteq> [] \<and> j \<in> snd ` set m"
    using inv update_ball [of out "\<lambda>k j. k \<noteq> [] \<and> j \<in> snd ` set m" "normalizeMAC k" j] kj by simp
qed simp

lemma normalizeIfMap_keys: "(mac, i) \<in> set (normalizeIfMap m) \<Longrightarrow> mac \<noteq> [] \<and> i \<in> snd ` set m"
  using normalizeIfMap_ball [of m] by blast

text \<open>Updates of different keys played over a map.\<close>
lemma play_at:
  assumes "distinct (map g ms)"
  shows "foldl (\<lambda>v m. v(g m := h m)) v ms k = (case find (\<lambda>m. g m = k) ms of None \<Rightarrow> v k | Some m \<Rightarrow> h m)"
  using assms
proof (induction ms arbitrary: v)
  case (Cons m ms)
  show ?case
  proof (cases "g m = k")
    case True
    then have "find (\<lambda>m. g m = k) ms = None" using Cons.prems by (simp add: find_None_iff) (metis image_eqI)
    then show ?thesis using Cons True by simp
  qed (use Cons in simp)
qed simp

lemma play_moves_at:
  "distinct (map mv_MAC ms) \<Longrightarrow>
   foldl play_move v ms mac = (case find (\<lambda>m. mv_MAC m = mac) ms of None \<Rightarrow> v mac | Some m \<Rightarrow> mv_To m)"
  using play_at [of mv_MAC ms mv_To v mac] by (simp add: play_move_def [abs_def])

lemma find_append: "find P (xs @ ys) = (case find P xs of None \<Rightarrow> find P ys | Some x \<Rightarrow> Some x)"
  by (induction xs) auto

lemma appear_move_MAC: "appear_move en t s p ki = Some m \<Longrightarrow> mv_MAC m = fst ki"
  by (auto simp: appear_move_def split: prod.splits if_splits option.splits)

lemma leave_move_MAC: "leave_move t s c ki = Some m \<Longrightarrow> mv_MAC m = fst ki \<and> map_of c (fst ki) = None"
  by (auto simp: leave_move_def split: prod.splits if_splits)

lemma distinct_map_filter_key:
  assumes "distinct (map fst kvs)" "\<And>kv m. f kv = Some m \<Longrightarrow> g m = fst kv"
  shows "distinct (map g (List.map_filter f kvs)) \<and> set (map g (List.map_filter f kvs)) \<subseteq> fst ` set kvs"
  using assms(1)
proof (induction kvs)
  case (Cons kv kvs)
  then show ?case using assms(2) by (cases "f kv") (auto simp: List.map_filter_def)
qed (simp add: List.map_filter_def)

lemma find_map_filter:
  assumes "distinct (map fst kvs)" "\<And>kv m. f kv = Some m \<Longrightarrow> g m = fst kv"
  shows "find (\<lambda>m. g m = k) (List.map_filter f kvs) = (case map_of kvs k of None \<Rightarrow> None | Some v \<Rightarrow> f (k, v))"
  using assms(1)
proof (induction kvs)
  case (Cons kv kvs)
  obtain k' v' where kv: "kv = (k', v')" by fastforce
  have none: "map_of kvs k' = None" using Cons.prems kv by (simp add: map_of_eq_None_iff)
  show ?case
  proof (cases "f kv")
    case None
    then show ?thesis using Cons none kv by (auto simp: List.map_filter_def)
  next
    case (Some m)
    then have "g m = k'" using assms(2) kv by fastforce
    then show ?thesis using Cons none kv Some by (auto simp: List.map_filter_def)
  qed
qed (simp add: List.map_filter_def)

text \<open>Two filters over association lists whose results never name the same key.\<close>
lemma distinct_two_filters:
  assumes "distinct (map fst xs)" "distinct (map fst ys)"
    and f: "\<And>kv m. f kv = Some m \<Longrightarrow> g m = fst kv"
    and h: "\<And>kv m. h kv = Some m \<Longrightarrow> g m = fst kv"
    and apart: "\<And>kv kv' m m'. kv \<in> set xs \<Longrightarrow> f kv = Some m \<Longrightarrow> h kv' = Some m' \<Longrightarrow> fst kv \<noteq> fst kv'"
  shows "distinct (map g (List.map_filter f xs @ List.map_filter h ys))"
proof -
  have "False" if mm: "m \<in> set (List.map_filter f xs)" "m' \<in> set (List.map_filter h ys)" and eq: "g m = g m'" for m m'
  proof -
    obtain kv kv' where "kv \<in> set xs" "f kv = Some m" "h kv' = Some m'" using mm unfolding map_filter_mem by blast
    then show False using apart f h eq by metis
  qed
  then have "set (map g (List.map_filter f xs)) \<inter> set (map g (List.map_filter h ys)) = {}" by (simp add: set_eq_iff image_iff) metis
  then show ?thesis
    using distinct_map_filter_key [of xs f g, OF assms(1) f] distinct_map_filter_key [of ys h g, OF assms(2) h] by simp
qed

lemma moves_distinct: "distinct (map mv_MAC (computeMACFDBMoves prev cur en t s))"
  unfolding computeMACFDBMoves_def Let_def
proof (rule distinct_two_filters [OF normalizeIfMap_distinct normalizeIfMap_distinct])
  fix kv kv' m m' assume "kv \<in> set (normalizeIfMap cur)"
    and "leave_move t (if s = [] then ''fdb_poll'' else s) (normalizeIfMap cur) kv' = Some m'"
  then show "fst kv \<noteq> fst kv'" using leave_move_MAC by (metis eq_fst_iff map_of_eq_None_iff image_eqI)
qed (simp_all add: appear_move_MAC leave_move_MAC)

text \<open>
  C11. The recorded moves tell the whole story: there is at most one for an address, and played over the
  addresses of the earlier poll they give exactly those of the later one.
\<close>
theorem moves_replay:
  assumes "\<forall>i\<in>snd ` set prev \<union> snd ` set cur. 0 < i"
  shows "distinct (map mv_MAC (computeMACFDBMoves prev cur en t s)) \<and>
    foldl play_move (map_of (normalizeIfMap prev)) (computeMACFDBMoves prev cur en t s) = map_of (normalizeIfMap cur)"
proof (intro conjI ext)
  fix mac
  let ?p = "normalizeIfMap prev" and ?c = "normalizeIfMap cur"
  let ?s = "if s = [] then ''fdb_poll'' else s"
  have pos: "map_of ?p mac = Some i \<Longrightarrow> mac \<noteq> [] \<and> 0 < i" "map_of ?c mac = Some i \<Longrightarrow> mac \<noteq> [] \<and> 0 < i" for i
    using normalizeIfMap_keys [of mac i] map_of_SomeD [of _ mac i] assms by blast+
  have "find (\<lambda>m. mv_MAC m = mac) (computeMACFDBMoves prev cur en t s) =
      (case (case map_of ?c mac of None \<Rightarrow> None | Some v \<Rightarrow> appear_move en t ?s ?p (mac, v)) of
         None \<Rightarrow> (case map_of ?p mac of None \<Rightarrow> None | Some v \<Rightarrow> leave_move t ?s ?c (mac, v)) | Some m \<Rightarrow> Some m)"
    unfolding computeMACFDBMoves_def Let_def find_append
    by (subst (1 2) find_map_filter [OF normalizeIfMap_distinct]) (auto dest: appear_move_MAC leave_move_MAC)
  then show "foldl play_move (map_of ?p) (computeMACFDBMoves prev cur en t s) mac = map_of ?c mac"
    using pos unfolding play_moves_at [OF moves_distinct]
    by (cases "map_of ?c mac"; cases "map_of ?p mac") (auto simp: appear_move_def leave_move_def)
qed (rule moves_distinct)

theorem moves_replay_witness:
  "computeMACFDBMoves [(''aa'', 1), (''BB'', 2)] [(''AA '', 3), (''cc'', 1)] [] 0 [] =
     [\<lparr>mv_MAC = ''aa'', mv_From = Some 1, mv_To = Some 3, mv_VLAN = None, mv_SeenAt = 0, mv_Source = ''fdb_poll''\<rparr>,
      \<lparr>mv_MAC = ''cc'', mv_From = None, mv_To = Some 1, mv_VLAN = None, mv_SeenAt = 0, mv_Source = ''fdb_poll''\<rparr>,
      \<lparr>mv_MAC = ''bb'', mv_From = Some 2, mv_To = None, mv_VLAN = None, mv_SeenAt = 0, mv_Source = ''fdb_poll''\<rparr>] \<and>
   foldl play_move (map_of (normalizeIfMap [(''aa'', 1), (''BB'', 2)]))
     (computeMACFDBMoves [(''aa'', 1), (''BB'', 2)] [(''AA '', 3), (''cc'', 1)] [] 0 []) = map_of (normalizeIfMap [(''AA '', 3), (''cc'', 1)])"
proof (intro conjI)
  show "foldl play_move (map_of (normalizeIfMap [(''aa'', 1), (''BB'', 2)]))
     (computeMACFDBMoves [(''aa'', 1), (''BB'', 2)] [(''AA '', 3), (''cc'', 1)] [] 0 []) = map_of (normalizeIfMap [(''AA '', 3), (''cc'', 1)])"
    using moves_replay [of "[(''aa'', 1), (''BB'', 2)]" "[(''AA '', 3), (''cc'', 1)]" "[]" 0 "[]"] by simp
qed code_simp

section \<open>Events on access ports\<close>

definition isUnicastMAC :: "string \<Rightarrow> bool" where
  "isUnicastMAC mac =
     (let hex = ReplaceAll (ToLower (TrimSpace mac)) '':'' [] in
      if length hex < 2 then False
      else if \<not> list_all is_hex (take 2 hex) then False
      else even (hex_val (hex ! 0) * 16 + hex_val (hex ! 1)))"

definition isInventoryChassisMAC :: "string \<Rightarrow> string list \<Rightarrow> bool" where
  "isInventoryChassisMAC mac chassis =
     (if chassis = [] then False
      else case FormatFullMAC mac of
        None \<Rightarrow> False
      | Some m \<Rightarrow> let hex = ReplaceAll (ToLower m) '':'' [] in if length hex \<noteq> 12 then False else hex \<in> set chassis)"

record fdbAccessEvent =
  fe_type :: string
  fe_sev :: string
  fe_mac :: string
  fe_if :: int
  fe_old :: "int option"

definition arrival ::
    "(int \<Rightarrow> string) \<Rightarrow> (string \<Rightarrow> bool) \<Rightarrow> (string \<Rightarrow> int \<Rightarrow> bool) \<Rightarrow> (string \<times> int) list \<Rightarrow> string \<times> int \<Rightarrow> fdbAccessEvent option" where
  "arrival resolveRole isInventoryMAC isKnownOnPort prev ki =
     (case ki of (mac, ifIndex) \<Rightarrow>
        let unknown = (if isInventoryMAC mac \<or> isKnownOnPort mac ifIndex then None
              else Some \<lparr>fe_type = ''UNKNOWN_MAC_ON_ACCESS_PORT'', fe_sev = ''warning'', fe_mac = mac, fe_if = ifIndex, fe_old = None\<rparr>) in
        if \<not> isUnicastMAC mac then None
        else if resolveRole ifIndex \<noteq> ''access'' then None
        else case map_of prev mac of
          None \<Rightarrow> unknown
        | Some oldIf \<Rightarrow>
            if oldIf = ifIndex then None
            else let oldRole = resolveRole oldIf in
              if oldRole = ''access''
              then Some \<lparr>fe_type = ''MAC_MOVED'', fe_sev = ''warning'', fe_mac = mac, fe_if = ifIndex, fe_old = Some oldIf\<rparr>
              else if oldRole = ''trunk'' \<or> oldRole = ''ignore'' then unknown
              else None)"

definition departure :: "(int \<Rightarrow> string) \<Rightarrow> (string \<Rightarrow> bool) \<Rightarrow> (string \<times> int) list \<Rightarrow> string \<times> int \<Rightarrow> fdbAccessEvent option" where
  "departure resolveRole isInventoryMAC cur ki =
     (case ki of (mac, oldIf) \<Rightarrow>
        if \<not> isUnicastMAC mac then None
        else if resolveRole oldIf \<noteq> ''access'' then None
        else if isInventoryMAC mac then None
        else if (case map_of cur mac of None \<Rightarrow> False | Some newIf \<Rightarrow> resolveRole newIf = ''access'') then None
        else Some \<lparr>fe_type = ''MAC_REMOVED'', fe_sev = ''info'', fe_mac = mac, fe_if = oldIf, fe_old = None\<rparr>)"

definition computeFDBAccessEvents ::
    "(string \<times> int) list \<Rightarrow> (string \<times> int) list \<Rightarrow> (int \<Rightarrow> string) \<Rightarrow> (string \<Rightarrow> bool) \<Rightarrow> (string \<Rightarrow> int \<Rightarrow> bool) \<Rightarrow> fdbAccessEvent list" where
  "computeFDBAccessEvents prev cur resolveRole isInventoryMAC isKnownOnPort =
     List.map_filter (arrival resolveRole isInventoryMAC isKnownOnPort prev) cur @
     List.map_filter (departure resolveRole isInventoryMAC cur) prev"

text \<open>Where an address is, as seen from the access ports.\<close>
definition access_view :: "(int \<Rightarrow> string) \<Rightarrow> (string \<times> int) list \<Rightarrow> string \<rightharpoonup> int" where
  "access_view role m mac = (case map_of m mac of
     None \<Rightarrow> None | Some i \<Rightarrow> if isUnicastMAC mac \<and> role i = ''access'' then Some i else None)"

definition play_event :: "(string \<rightharpoonup> int) \<Rightarrow> fdbAccessEvent \<Rightarrow> (string \<rightharpoonup> int)" where
  "play_event v e = v(fe_mac e := (if fe_type e = ''MAC_REMOVED'' then None else Some (fe_if e)))"

lemma arrival_MAC: "arrival r inv' kn p ki = Some e \<Longrightarrow> fe_mac e = fst ki \<and> r (snd ki) = ''access''"
  by (auto simp: arrival_def Let_def split: prod.splits if_splits option.splits)

lemma departure_MAC: "departure r inv' c ki = Some e \<Longrightarrow> fe_mac e = fst ki \<and> (\<forall>i. map_of c (fst ki) = Some i \<longrightarrow> r i \<noteq> ''access'')"
  by (auto simp: departure_def split: prod.splits if_splits option.splits)

lemma access_events_distinct:
  assumes "distinct (map fst prev)" "distinct (map fst cur)"
  shows "distinct (map fe_mac (computeFDBAccessEvents prev cur role inv' kn))"
  unfolding computeFDBAccessEvents_def
proof (rule distinct_two_filters [OF assms(2,1)])
  fix kv kv' m m'
  assume "kv \<in> set cur" "arrival role inv' kn prev kv = Some m" "departure role inv' cur kv' = Some m'"
  then show "fst kv \<noteq> fst kv'" using arrival_MAC departure_MAC assms(2) by (metis map_of_is_SomeI prod.collapse)
qed (simp_all add: arrival_MAC departure_MAC)

text \<open>
  The events on access ports tell the whole story of an address that is neither known hardware nor
  bound to a port: there is at most one for it, and played over where it was seen on access ports they
  give where it is seen now.
\<close>
theorem access_events_replay:
  assumes "distinct (map fst prev)" "distinct (map fst cur)" "\<And>i. is_role (role i)" "\<not> inventory mac" "\<And>i. \<not> known mac i"
  shows "distinct (map fe_mac (computeFDBAccessEvents prev cur role inventory known)) \<and>
    foldl play_event (access_view role prev) (computeFDBAccessEvents prev cur role inventory known) mac = access_view role cur mac"
proof
  let ?es = "computeFDBAccessEvents prev cur role inventory known"
  show d: "distinct (map fe_mac ?es)" using assms(1,2) by (rule access_events_distinct)
  have dep: "find (\<lambda>e. fe_mac e = mac) (List.map_filter (departure role inventory cur) prev) =
      (case map_of prev mac of None \<Rightarrow> None | Some v \<Rightarrow> departure role inventory cur (mac, v))"
    by (rule find_map_filter [OF assms(1)]) (use departure_MAC in blast)
  have arr: "find (\<lambda>e. fe_mac e = mac) (List.map_filter (arrival role inventory known prev) cur) =
      (case map_of cur mac of None \<Rightarrow> None | Some v \<Rightarrow> arrival role inventory known prev (mac, v))"
    by (rule find_map_filter [OF assms(2)]) (use arrival_MAC in blast)
  have "find (\<lambda>e. fe_mac e = mac) ?es =
      (case (case map_of cur mac of None \<Rightarrow> None | Some v \<Rightarrow> arrival role inventory known prev (mac, v)) of
         None \<Rightarrow> (case map_of prev mac of None \<Rightarrow> None | Some v \<Rightarrow> departure role inventory cur (mac, v)) | Some m \<Rightarrow> Some m)"
    unfolding computeFDBAccessEvents_def find_append arr dep by (rule refl)
  moreover have "foldl play_event v ?es mac = (case find (\<lambda>e. fe_mac e = mac) ?es of
      None \<Rightarrow> v mac | Some e \<Rightarrow> if fe_type e = ''MAC_REMOVED'' then None else Some (fe_if e))" for v
    using play_at [OF d, of "\<lambda>e. if fe_type e = ''MAC_REMOVED'' then None else Some (fe_if e)" v mac]
    by (simp add: play_event_def [abs_def])
  ultimately show "foldl play_event (access_view role prev) ?es mac = access_view role cur mac"
    using assms(3) [unfolded is_role_def] assms(4,5)
    by (cases "map_of cur mac"; cases "map_of prev mac") (auto simp: arrival_def departure_def access_view_def Let_def)
qed

definition port_role :: "int \<Rightarrow> string" where
  "port_role i = (if i < 10 then ''access'' else ''trunk'')"

theorem access_events_replay_witness:
  "map (\<lambda>e. (fe_type e, fe_if e)) (computeFDBAccessEvents [(''00:11:22:33:44:55'', 1), (''00:11:22:33:44:66'', 2)] [(''00:11:22:33:44:55'', 3)]
     port_role (\<lambda>_. False) (\<lambda>_ _. False)) = [(''MAC_MOVED'', 3), (''MAC_REMOVED'', 2)] \<and>
   foldl play_event (access_view port_role [(''00:11:22:33:44:55'', 1), (''00:11:22:33:44:66'', 2)])
     (computeFDBAccessEvents [(''00:11:22:33:44:55'', 1), (''00:11:22:33:44:66'', 2)] [(''00:11:22:33:44:55'', 3)]
       port_role (\<lambda>_. False) (\<lambda>_ _. False)) ''00:11:22:33:44:55'' = access_view port_role [(''00:11:22:33:44:55'', 3)] ''00:11:22:33:44:55''"
proof (intro conjI)
  show "foldl play_event (access_view port_role [(''00:11:22:33:44:55'', 1), (''00:11:22:33:44:66'', 2)])
     (computeFDBAccessEvents [(''00:11:22:33:44:55'', 1), (''00:11:22:33:44:66'', 2)] [(''00:11:22:33:44:55'', 3)]
       port_role (\<lambda>_. False) (\<lambda>_ _. False)) ''00:11:22:33:44:55'' = access_view port_role [(''00:11:22:33:44:55'', 3)] ''00:11:22:33:44:55''"
    by (rule access_events_replay [THEN conjunct2]) (simp_all add: port_role_def)
qed code_simp

end
