(* ===== verification/Fdb_Alerts.thy ===== *)
theory Fdb_Alerts
  imports Fdb_Events
begin

text \<open>
  Alerts of a switch after each walk of its table of addresses (\<open>pollFDB\<close> in \<open>internal/poller/poller.go\<close>):
  flapping addresses (\<open>mac_flap.go\<close>), broadcast storms (\<open>broadcast_storm.go\<close>), the binding of access ports
  (\<open>access_port_security.go\<close>), and the rows written (\<open>internal/store/fdb.go\<close>, \<open>mac_moves.go\<close>).
\<close>

section \<open>The state of a device\<close>

record kept_row =
  fr_If :: int
  fr_VLAN :: "int option"
  fr_First :: time
  fr_Last :: time

record PortAccessSecurity =
  se_Bound :: "string option"
  se_EmptySince :: "time option"

text \<open>
  What was emitted, the recorded moves (latest first), the rows of addresses, the bindings, whether a storm
  is active (memory of the process), when the first table was stored.
\<close>
record fdb_state =
  fd_em :: emitted
  fd_moves :: "MACFDBMoveInsert list"
  fd_rows :: "(string \<times> kept_row) list"
  fd_sec :: "int \<rightharpoonup> PortAccessSecurity"
  fd_storm :: bool
  fd_baseline :: "time option"

record fdb_config =
  fc_roles :: role_config
  fc_LongIdle :: duration
  fc_LearnDuration :: duration
  fc_FlapMinMoves :: int
  fc_FlapWindow :: duration
  fc_FlapDebounce :: duration
  fc_StormMinPorts :: int
  fc_StormUtilPct :: rat
  fc_StormMinGrowth :: int
  fc_StormMinGrowthPct :: rat
  fc_StormDebounce :: duration

text \<open>
  What surrounds a walk: the answers of the database, the addresses that are tracked (\<open>shouldTrackMAC\<close>),
  their vendors, the inventory, the ports.
\<close>
record fdb_env =
  fv_emit :: emit_env
  fv_ignore :: ignores
  fv_track :: "string \<Rightarrow> bool"
  fv_vendor :: "string \<Rightarrow> string"
  fv_chassis :: "string list option"
  fv_ifs :: "(int \<times> InterfaceSnapshot) list"
  fv_roles :: "int \<rightharpoonup> string"
  fv_rows_ok :: bool
  fv_move_ok :: "MACFDBMoveInsert \<Rightarrow> bool"
  fv_count_ok :: bool
  fv_dup_ok :: bool
  fv_sec_ok :: bool
  fv_bind_ok :: "int \<Rightarrow> bool"
  fv_replace_ok :: bool

abbreviation emit_fdb :: "fdb_env \<Rightarrow> ignores \<Rightarrow> time \<Rightarrow> int option \<Rightarrow> string \<Rightarrow> string \<Rightarrow> payload \<Rightarrow> fdb_state \<Rightarrow> fdb_state" where
  "emit_fdb env ig now i typ sev pl st \<equiv> st\<lparr>fd_em := emit (fv_emit env) ig now i typ sev pl (fd_em st)\<rparr>"

section \<open>Flapping addresses\<close>

text \<open>The rows are written one by one; an error ends the insertion.\<close>
definition InsertMACFDBMoves :: "(MACFDBMoveInsert \<Rightarrow> bool) \<Rightarrow> MACFDBMoveInsert list \<Rightarrow> MACFDBMoveInsert list \<Rightarrow> bool \<times> MACFDBMoveInsert list" where
  "InsertMACFDBMoves ok rows tbl =
     (let rs = map (\<lambda>r. r\<lparr>mv_MAC := normalizeMAC (mv_MAC r), mv_Source := (if TrimSpace (mv_Source r) = [] then ''fdb_poll'' else TrimSpace (mv_Source r))\<rparr>)
            (filter (\<lambda>r. normalizeMAC (mv_MAC r) \<noteq> []) rows)
      in (list_all ok rs, rev (takeWhile ok rs) @ tbl))"

definition CountMACPortMovesInWindow :: "MACFDBMoveInsert list \<Rightarrow> string \<Rightarrow> time \<Rightarrow> nat" where
  "CountMACPortMovesInWindow tbl mac since =
     (case FormatFullMAC mac of
        None \<Rightarrow> 0
      | Some m \<Rightarrow> length (filter (\<lambda>r. mv_MAC r = m \<and> mv_SeenAt r \<ge> since \<and> mv_From r \<noteq> None \<and> mv_To r \<noteq> None \<and> mv_From r \<noteq> mv_To r) tbl))"

definition DistinctPortsInMoves :: "MACFDBMoveInsert list \<Rightarrow> string \<Rightarrow> time \<Rightarrow> int list" where
  "DistinctPortsInMoves tbl mac since =
     (case FormatFullMAC mac of
        None \<Rightarrow> []
      | Some m \<Rightarrow> sort (remdups (concat (map (\<lambda>r. if mv_MAC r = m \<and> mv_SeenAt r \<ge> since
          then (case mv_From r of None \<Rightarrow> [] | Some i \<Rightarrow> [i]) @ (case mv_To r of None \<Rightarrow> [] | Some i \<Rightarrow> [i]) else []) tbl))))"

definition mac_flap_min :: "fdb_config \<Rightarrow> int" where
  "mac_flap_min cfg = (if fc_FlapMinMoves cfg < 2 then 3 else fc_FlapMinMoves cfg)"

definition mac_flap_window :: "fdb_config \<Rightarrow> duration" where
  "mac_flap_window cfg = (if fc_FlapWindow cfg \<le> 0 then 60 * minute else fc_FlapWindow cfg)"

definition mac_flap_debounce :: "fdb_config \<Rightarrow> duration" where
  "mac_flap_debounce cfg = (if fc_FlapDebounce cfg \<le> 0 then 15 * minute else fc_FlapDebounce cfg)"

definition maybeEmitMACFlapping :: "fdb_env \<Rightarrow> fdb_config \<Rightarrow> time \<Rightarrow> string \<Rightarrow> fdb_state \<Rightarrow> fdb_state" where
  "maybeEmitMACFlapping env cfg now mac st =
     (if \<not> fv_track env mac then st
      else let since = now - mac_flap_window cfg; n = CountMACPortMovesInWindow (fd_moves st) mac since in
        if \<not> fv_count_ok env then st
        else if int n < mac_flap_min cfg then st
        else if \<not> fv_dup_ok env then st
        else if HasMACEventSince (em_log (fd_em st)) ''MAC_FLAPPING'' mac (now - mac_flap_debounce cfg) then st
        else let ports = DistinctPortsInMoves (fd_moves st) mac since;
                 pl = [(''mac'', PStr mac), (''move_count'', PInt (int n)), (''window_sec'', PInt (mac_flap_window cfg div 1000000000)),
                   (''ports'', PInts ports), (''source'', PStr ''fdb_poll''), (''mac_vendor'', PStr (fv_vendor env mac)),
                   (''investigate'', PStr (''/investigate/mac?mac='' @ mac))]
             in if ports = [] then emit_fdb env (fv_ignore env) now None ''MAC_FLAPPING'' ''warning'' pl st
                else emit_fdb env (fv_ignore env) now (Some (last ports)) ''MAC_FLAPPING'' ''warning''
                  (mergeIfacePayload (map_of (fv_ifs env)) (last ports) pl) st)"

fun detect_flaps :: "fdb_env \<Rightarrow> fdb_config \<Rightarrow> time \<Rightarrow> string list \<Rightarrow> MACFDBMoveInsert list \<Rightarrow> fdb_state \<Rightarrow> fdb_state" where
  "detect_flaps env cfg now seen [] st = st"
| "detect_flaps env cfg now seen (m # ms) st =
     (if mv_From m = None \<or> mv_To m = None \<or> mv_MAC m \<in> set seen then detect_flaps env cfg now seen ms st
      else detect_flaps env cfg now (mv_MAC m # seen) ms (maybeEmitMACFlapping env cfg now (mv_MAC m) st))"

definition recordAndDetectMACMoves ::
    "fdb_env \<Rightarrow> fdb_config \<Rightarrow> time \<Rightarrow> (string \<times> int) list \<Rightarrow> (string \<times> int) list \<Rightarrow> fdb \<Rightarrow> fdb_state \<Rightarrow> fdb_state" where
  "recordAndDetectMACMoves env cfg now prev cur entries st =
     (if prev = [] then st
      else let moves = filter (\<lambda>m. fv_track env (mv_MAC m)) (computeMACFDBMoves prev cur entries now ''fdb_poll'') in
        if moves = [] then st
        else case InsertMACFDBMoves (fv_move_ok env) moves (fd_moves st) of
          (False, tbl) \<Rightarrow> st\<lparr>fd_moves := tbl\<rparr>
        | (True, tbl) \<Rightarrow> detect_flaps env cfg now [] moves (st\<lparr>fd_moves := tbl\<rparr>))"

text \<open>A report of flapping by the switch itself, over syslog.\<close>
definition EmitMACFlappingFromSyslog ::
    "fdb_env \<Rightarrow> fdb_config \<Rightarrow> time \<Rightarrow> string \<Rightarrow> int \<Rightarrow> int \<Rightarrow> int option \<Rightarrow> string \<Rightarrow> fdb_state \<Rightarrow> fdb_state" where
  "EmitMACFlappingFromSyslog env cfg now mac portA portB vlan rawMsg st =
     (if \<not> fv_track env mac then st
      else let tbl = snd (InsertMACFDBMoves (fv_move_ok env)
                 [\<lparr>mv_MAC = mac, mv_From = Some portA, mv_To = Some portB, mv_VLAN = vlan, mv_SeenAt = now, mv_Source = ''syslog''\<rparr>] (fd_moves st));
               st = st\<lparr>fd_moves := tbl\<rparr>
           in if \<not> fv_dup_ok env \<or> HasMACEventSince (em_log (fd_em st)) ''MAC_FLAPPING'' mac (now - mac_flap_debounce cfg) then st
              else let pl = [(''mac'', PStr (ToLower mac)), (''ports'', PInts [portA, portB]), (''source'', PStr ''syslog''),
                       (''mac_vendor'', PStr (fv_vendor env mac)), (''investigate'', PStr (''/investigate/mac?mac='' @ ToLower mac))];
                       pl = (case vlan of None \<Rightarrow> pl | Some v \<Rightarrow> payload_put ''vlan_id'' (PInt v) pl);
                       pl = (if rawMsg \<noteq> [] then payload_put ''syslog_msg'' (PStr rawMsg) pl else pl)
                   in emit_fdb env [] now (Some portA) ''MAC_FLAPPING'' ''warning'' pl st)"

section \<open>Storms\<close>

definition fdbGrowing :: "fdb_config \<Rightarrow> int \<Rightarrow> int \<Rightarrow> bool \<times> int" where
  "fdbGrowing cfg prev cur =
     (if prev \<le> 0 \<or> cur \<le> prev then (False, 0)
      else let delta = cur - prev in
        if delta \<ge> fc_StormMinGrowth cfg then (True, delta)
        else if rat_of_int delta / rat_of_int prev * 100 \<ge> fc_StormMinGrowthPct cfg then (True, delta)
        else (False, delta))"

definition broadcastStormSuspected :: "fdb_config \<Rightarrow> stormUtilPort list \<Rightarrow> int \<Rightarrow> int \<Rightarrow> bool \<times> int" where
  "broadcastStormSuspected cfg highPorts prevFDB curFDB =
     (if int (length highPorts) < fc_StormMinPorts cfg then (False, 0) else fdbGrowing cfg prevFDB curFDB)"

definition has_event_since :: "log \<Rightarrow> string \<Rightarrow> time \<Rightarrow> bool" where
  "has_event_since lg typ since \<longleftrightarrow> typ \<noteq> [] \<and> list_ex (\<lambda>e. ev_type e = typ \<and> ev_at e \<ge> since) lg"

definition storm_port_payload :: "snapshots \<Rightarrow> stormUtilPort \<Rightarrow> (string \<times> pval) list" where
  "storm_port_payload ifs p =
     (let desc = (if sp_IfDescr p \<noteq> [] then sp_IfDescr p
            else case ifs (sp_IfIndex p) of Some s \<Rightarrow> DisplayDescr s | None \<Rightarrow> [])
      in [(''if_index'', PInt (sp_IfIndex p)), (''if_descr'', PStr desc), (''util_max_pct'', PNum (sp_UtilMax p)),
          (''util_in_pct'', PNum (sp_UtilIn p)), (''util_out_pct'', PNum (sp_UtilOut p))])"

definition maybeDetectBroadcastStorm :: "fdb_env \<Rightarrow> fdb_config \<Rightarrow> time \<Rightarrow> int \<Rightarrow> int \<Rightarrow> stormUtilPort list \<Rightarrow> fdb_state \<Rightarrow> fdb_state" where
  "maybeDetectBroadcastStorm env cfg now prevFDB curFDB highPorts st =
     (case broadcastStormSuspected cfg highPorts prevFDB curFDB of
        (True, fdbDelta) \<Rightarrow>
          if fd_storm st then st
          else if fc_StormDebounce cfg > 0 \<and> fv_dup_ok env \<and>
              has_event_since (em_log (fd_em st)) ''BROADCAST_STORM_SUSPECTED'' (now - fc_StormDebounce cfg)
          then st\<lparr>fd_storm := True\<rparr>
          else let pl = [(''high_util_ports'', PInt (int (length highPorts))), (''util_threshold_pct'', PNum (fc_StormUtilPct cfg)),
                     (''min_ports'', PInt (fc_StormMinPorts cfg)), (''fdb_prev_count'', PInt prevFDB), (''fdb_cur_count'', PInt curFDB),
                     (''fdb_delta'', PInt fdbDelta), (''ports'', PMaps (map (storm_port_payload (map_of (fv_ifs env))) highPorts)),
                     (''source'', PStr ''fdb_poll''), (''heuristic'', PStr ''multi_port_high_util_plus_fdb_growth'')]
               in (emit_fdb env (fv_ignore env) now None ''BROADCAST_STORM_SUSPECTED'' ''warning'' pl st)\<lparr>fd_storm := True\<rparr>
      | (False, _) \<Rightarrow>
          if \<not> fd_storm st then st
          else let pl = [(''high_util_ports'', PInt (int (length highPorts))), (''min_ports'', PInt (fc_StormMinPorts cfg)),
                     (''fdb_prev_count'', PInt prevFDB), (''fdb_cur_count'', PInt curFDB), (''fdb_delta'', PInt (curFDB - prevFDB))]
               in (emit_fdb env (fv_ignore env) now None ''BROADCAST_STORM_OK'' ''info'' pl st)\<lparr>fd_storm := False\<rparr>)"

section \<open>Access ports and their devices\<close>

definition buildMacsByAccessPort :: "(string \<times> int) list \<Rightarrow> (int \<times> InterfaceSnapshot) list \<Rightarrow> (int \<Rightarrow> string) \<Rightarrow> int \<Rightarrow> string list" where
  "buildMacsByAccessPort entries ifs resolveRole i =
     sort (map (\<lambda>(mac, _). normalizeMAC mac)
       (filter (\<lambda>(mac, j). isUnicastMAC mac \<and> map_of ifs j \<noteq> None \<and> resolveRole j = ''access'' \<and> j = i) entries))"

text \<open>
  The body of the loop for one access port: the row to write, if any, and the events, given whether the
  port had addresses in the earlier table, those it has now and its row.
\<close>
definition secure_port ::
    "fdb_env \<Rightarrow> fdb_config \<Rightarrow> time \<Rightarrow> bool \<Rightarrow> string list \<Rightarrow> PortAccessSecurity option \<Rightarrow>
     PortAccessSecurity option \<times> (string \<times> string \<times> payload) list" where
  "secure_port env cfg now prevHad curM row =
     (let bound = (case row of None \<Rightarrow> None | Some r \<Rightarrow> se_Bound r);
          emptySince = (case row of None \<Rightarrow> None | Some r \<Rightarrow> se_EmptySince r) in
      if curM = [] then
        (if prevHad then (Some \<lparr>se_Bound = bound, se_EmptySince = Some (case emptySince of None \<Rightarrow> now | Some t \<Rightarrow> t)\<rparr>, []) else (None, []))
      else if length curM > 1 then (Some \<lparr>se_Bound = bound, se_EmptySince = None\<rparr>, [])
      else let primary = hd curM; row' = Some \<lparr>se_Bound = Some primary, se_EmptySince = None\<rparr> in
        if \<not> fv_track env primary then (row', [])
        else (row',
          (case emptySince of
             Some t \<Rightarrow> if now - t \<ge> fc_LongIdle cfg
               then [(''ACCESS_PORT_LONG_IDLE_DEVICE'', ''info'',
                 [(''mac'', PStr primary), (''idle_hours'', PNum (rat_of_int (now - t) / 3600000000000))])] else []
           | None \<Rightarrow> []) @
          (case bound of
             Some b \<Rightarrow> if b \<noteq> primary then [(''ACCESS_PORT_MAC_SUBSTITUTED'', ''warning'', [(''old_mac'', PStr b), (''new_mac'', PStr primary)])] else []
           | None \<Rightarrow> [])))"

text \<open>The loop ends at the first row that cannot be written; the flag says that it did not.\<close>
fun secure_ports ::
    "fdb_env \<Rightarrow> fdb_config \<Rightarrow> time \<Rightarrow> (int \<Rightarrow> string) \<Rightarrow> (string \<times> int) list \<Rightarrow> (string \<times> int) list \<Rightarrow> (int \<rightharpoonup> PortAccessSecurity) \<Rightarrow>
     int list \<Rightarrow> fdb_state \<Rightarrow> fdb_state \<times> bool" where
  "secure_ports env cfg now role prev cur state [] st = (st, True)"
| "secure_ports env cfg now role prev cur state (i # is) st =
     (if role i \<noteq> ''access'' then secure_ports env cfg now role prev cur state is st
      else case secure_port env cfg now (buildMacsByAccessPort prev (fv_ifs env) role i \<noteq> [])
          (buildMacsByAccessPort cur (fv_ifs env) role i) (state i) of
        (row, evs) \<Rightarrow>
          let st = foldl (\<lambda>st (typ, sev, pl). emit_fdb env (fv_ignore env) now (Some i) typ sev
                (mergeIfacePayload (map_of (fv_ifs env)) i pl) st) st evs
          in case row of
            None \<Rightarrow> secure_ports env cfg now role prev cur state is st
          | Some r \<Rightarrow> if fv_bind_ok env i
              then secure_ports env cfg now role prev cur state is (st\<lparr>fd_sec := (fd_sec st)(i \<mapsto> r)\<rparr>) else (st, False))"

definition processAccessPortSecurity :: "fdb_env \<Rightarrow> fdb_config \<Rightarrow> time \<Rightarrow> (string \<times> int) list \<Rightarrow> (string \<times> int) list \<Rightarrow> fdb_state \<Rightarrow> fdb_state" where
  "processAccessPortSecurity env cfg now prev cur st =
     (if \<not> fv_sec_ok env then st
      else let role = makeResolvePortRole (map_of (fv_ifs env)) (fv_roles env) (\<lambda>_. no_stats) (fc_roles cfg)
           in fst (secure_ports env cfg now role prev cur (fd_sec st) (map fst (fv_ifs env)) st))"

section \<open>A walk of the table\<close>

text \<open>The addresses of the table become the rows; rows of other addresses are deleted.\<close>
definition ReplaceFDBSnapshot :: "fdb \<Rightarrow> time \<Rightarrow> (string \<times> kept_row) list \<Rightarrow> (string \<times> kept_row) list" where
  "ReplaceFDBSnapshot snapshot now rows =
     (let kept = filter (\<lambda>(mac, e). normalizeMAC mac \<noteq> [] \<and> le_IfIndex e > 0) snapshot;
          rows = foldl (\<lambda>rows (mac, e). AList.update (normalizeMAC mac)
            \<lparr>fr_If = le_IfIndex e, fr_VLAN = le_VLANID e,
             fr_First = (case map_of rows (normalizeMAC mac) of
                Some r \<Rightarrow> if fr_If r \<noteq> le_IfIndex e then now else fr_First r | None \<Rightarrow> now),
             fr_Last = now\<rparr> rows) rows kept
      in filter (\<lambda>(mac, _). mac \<in> set (map (\<lambda>(mac, _). normalizeMAC mac) kept)) rows)"

definition GetFDBSnapshot :: "(string \<times> kept_row) list \<Rightarrow> (string \<times> int) list" where
  "GetFDBSnapshot rows = map (\<lambda>(mac, r). (mac, fr_If r)) rows"

definition isFDBLearning :: "fdb_config \<Rightarrow> time \<Rightarrow> time option \<Rightarrow> bool" where
  "isFDBLearning cfg now baseline =
     (if fc_LearnDuration cfg \<le> 0 then False
      else case baseline of None \<Rightarrow> True | Some b \<Rightarrow> now - b < fc_LearnDuration cfg)"

definition isKnownOnPort :: "(int \<rightharpoonup> PortAccessSecurity) \<Rightarrow> string \<Rightarrow> int \<Rightarrow> bool" where
  "isKnownOnPort sec mac i =
     (case sec i of
        None \<Rightarrow> False
      | Some r \<Rightarrow> (case se_Bound r of None \<Rightarrow> False | Some b \<Rightarrow> normalizeMAC b = normalizeMAC mac))"

definition emit_access_event :: "fdb_env \<Rightarrow> time \<Rightarrow> fdb_state \<Rightarrow> fdbAccessEvent \<Rightarrow> fdb_state" where
  "emit_access_event env now st ev =
     (if \<not> fv_track env (fe_mac ev) then st
      else let pl = [(''mac'', PStr (fe_mac ev))];
               pl = (case fe_old ev of None \<Rightarrow> pl | Some old \<Rightarrow> payload_put ''new_if_index'' (PInt (fe_if ev)) (payload_put ''old_if_index'' (PInt old) pl))
           in emit_fdb env (fv_ignore env) now (Some (fe_if ev)) (fe_type ev) (fe_sev ev)
                (mergeIfacePayload (map_of (fv_ifs env)) (fe_if ev) pl) st)"

definition pollFDB :: "fdb_env \<Rightarrow> fdb_config \<Rightarrow> time \<Rightarrow> fdb \<Rightarrow> (int \<Rightarrow> FDBIfStats) \<Rightarrow> stormUtilPort list \<Rightarrow> fdb_state \<Rightarrow> fdb_state" where
  "pollFDB env cfg now entries fdbStats stormHighUtil st =
     (if \<not> fv_rows_ok env then st
      else let cur = FDBEntriesToIfIndexMap entries;
               prev = GetFDBSnapshot (fd_rows st);
               learning = isFDBLearning cfg now (fd_baseline st);
               role = makeResolvePortRole (map_of (fv_ifs env)) (fv_roles env) fdbStats (fc_roles cfg);
               chassis = (case fv_chassis env of None \<Rightarrow> [] | Some c \<Rightarrow> c);
               secState = (if fv_sec_ok env then fd_sec st else Map.empty);
               st = (if prev = [] \<or> learning then st
                 else let st = maybeDetectBroadcastStorm env cfg now (int (length prev)) (int (length entries)) stormHighUtil st;
                          st = foldl (emit_access_event env now) st
                            (computeFDBAccessEvents prev cur role (\<lambda>mac. isInventoryChassisMAC mac chassis) (isKnownOnPort secState));
                          st = recordAndDetectMACMoves env cfg now prev cur entries st
                      in processAccessPortSecurity env cfg now prev cur st)
           in if fv_replace_ok env
              then st\<lparr>fd_rows := ReplaceFDBSnapshot entries now (fd_rows st),
                      fd_baseline := (case fd_baseline st of None \<Rightarrow> Some now | Some b \<Rightarrow> Some b)\<rparr>
              else st)"

section \<open>Alerts lie apart\<close>

text \<open>Two events of one key are more than \<open>d\<close> apart; events without a key do not count.\<close>
fun spaced :: "duration \<Rightarrow> (event \<Rightarrow> 'k option) \<Rightarrow> log \<Rightarrow> bool" where
  "spaced d key [] = True"
| "spaced d key (e # lg) = (spaced d key lg \<and> (key e = None \<or> list_all (\<lambda>f. key f = key e \<longrightarrow> ev_at f + d < ev_at e) lg))"

definition flap_key :: "event \<Rightarrow> string option" where
  "flap_key e = (if ev_type e = ''MAC_FLAPPING'' then Some (ToLower (case pl_str (ev_pl e) ''mac'' of None \<Rightarrow> [] | Some s \<Rightarrow> s)) else None)"

definition storm_key :: "event \<Rightarrow> unit option" where
  "storm_key e = (if ev_type e = ''BROADCAST_STORM_SUSPECTED'' then Some () else None)"

definition lg_of :: "fdb_state \<Rightarrow> log" where
  "lg_of st = em_log (fd_em st)"

lemma lg_of_simps [simp]:
  "lg_of (st\<lparr>fd_moves := x\<rparr>) = lg_of st" "lg_of (st\<lparr>fd_rows := r\<rparr>) = lg_of st" "lg_of (st\<lparr>fd_sec := s\<rparr>) = lg_of st"
  "lg_of (st\<lparr>fd_storm := b\<rparr>) = lg_of st" "lg_of (st\<lparr>fd_baseline := bl\<rparr>) = lg_of st"
  "lg_of (st\<lparr>fd_em := em\<rparr>) = em_log em"
  by (simp_all add: lg_of_def)

lemma spaced_emit:
  assumes "spaced d key (lg_of st)"
    and "\<And>e. ev_type e = ty \<Longrightarrow> ev_pl e = pl \<Longrightarrow> ev_at e = now \<Longrightarrow>
      key e = None \<or> list_all (\<lambda>f. key f = key e \<longrightarrow> ev_at f + d < now) (lg_of st)"
  shows "spaced d key (lg_of (emit_fdb env ig now i ty sev pl st))"
  using emit_cases [of "fv_emit env" ig now i ty sev pl "fd_em st"] assms by (auto simp: lg_of_def)

text \<open>An operation whose events have none of the keys in question.\<close>
lemma spaced_emit_other:
  assumes "spaced d key (lg_of st)" "\<And>e. ev_type e = ty \<Longrightarrow> key e = None"
  shows "spaced d key (lg_of (emit_fdb env ig now i ty sev pl st))"
  using assms(1) by (rule spaced_emit) (simp add: assms(2))

lemma flap_key_other: "ev_type e \<noteq> ''MAC_FLAPPING'' \<Longrightarrow> flap_key e = None"
  by (simp add: flap_key_def)

lemma storm_key_other: "ev_type e \<noteq> ''BROADCAST_STORM_SUSPECTED'' \<Longrightarrow> storm_key e = None"
  by (simp add: storm_key_def)

text \<open>The types of events other than those on flapping and storms.\<close>
definition port_event :: "string \<Rightarrow> bool" where
  "port_event ty \<longleftrightarrow> ty \<in> {''UNKNOWN_MAC_ON_ACCESS_PORT'', ''MAC_MOVED'', ''MAC_REMOVED'', ''ACCESS_PORT_LONG_IDLE_DEVICE'', ''ACCESS_PORT_MAC_SUBSTITUTED''}"

lemma port_event_keys: "port_event (ev_type e) \<Longrightarrow> flap_key e = None \<and> storm_key e = None"
  by (auto simp: port_event_def flap_key_def storm_key_def)

lemma port_event_simps [simp]:
  "port_event ''UNKNOWN_MAC_ON_ACCESS_PORT''" "port_event ''MAC_MOVED''" "port_event ''MAC_REMOVED''"
  "port_event ''ACCESS_PORT_LONG_IDLE_DEVICE''" "port_event ''ACCESS_PORT_MAC_SUBSTITUTED''"
  by (simp_all add: port_event_def)

lemma arrival_type: "arrival role inv' kn prev (mac, i) = Some e \<Longrightarrow> port_event (fe_type e)"
  by (cases "map_of prev mac") (auto simp: arrival_def Let_def split: if_splits)

lemma departure_type: "departure role inv' cur (mac, i) = Some e \<Longrightarrow> port_event (fe_type e)"
  by (auto simp: departure_def split: if_splits)

lemma access_event_types: "e \<in> set (computeFDBAccessEvents prev cur role inv' kn) \<Longrightarrow> port_event (fe_type e)"
  unfolding computeFDBAccessEvents_def set_append Un_iff map_filter_mem
  using arrival_type departure_type by (metis surj_pair)

lemma secure_port_types:
  "(ty, sev, pl) \<in> set (snd (secure_port env cfg now h ms row)) \<Longrightarrow> port_event ty"
  by (auto simp: secure_port_def Let_def split: if_splits option.splits)

lemma spaced_secure_ports:
  assumes "\<And>e. port_event (ev_type e) \<Longrightarrow> key e = None"
  shows "spaced d key (lg_of st) \<Longrightarrow> spaced d key (lg_of (fst (secure_ports env cfg now role prev cur state is st)))"
proof (induction "is" arbitrary: st)
  case (Cons i "is")
  obtain row evs where r: "secure_port env cfg now (buildMacsByAccessPort prev (fv_ifs env) role i \<noteq> [])
      (buildMacsByAccessPort cur (fv_ifs env) role i) (state i) = (row, evs)" by fastforce
  define st' where "st' = foldl (\<lambda>st (ty, sev, pl). emit_fdb env (fv_ignore env) now (Some i) ty sev
    (mergeIfacePayload (map_of (fv_ifs env)) i pl) st) st evs"
  have "spaced d key (lg_of st')"
    unfolding st'_def
  proof (rule foldl_inv)
    fix st x assume sp: "spaced d key (lg_of st)" and x: "x \<in> set evs"
    obtain ty sev pl where xe: "x = (ty, sev, pl)" by (metis prod_cases3)
    then have "(ty, sev, pl) \<in> set (snd (secure_port env cfg now (buildMacsByAccessPort prev (fv_ifs env) role i \<noteq> [])
        (buildMacsByAccessPort cur (fv_ifs env) role i) (state i)))" using r x by simp
    then have "port_event ty" by (rule secure_port_types)
    then show "spaced d key (lg_of (case x of (ty, sev, pl) \<Rightarrow> emit_fdb env (fv_ignore env) now (Some i) ty sev
        (mergeIfacePayload (map_of (fv_ifs env)) i pl) st))"
      using sp assms unfolding xe by (simp only: prod.case) (rule spaced_emit_other, auto)
  qed (rule Cons.prems)
  then show ?case
    using Cons by (cases row) (simp_all add: r flip: st'_def)
qed simp

lemma spaced_security:
  assumes "\<And>e. port_event (ev_type e) \<Longrightarrow> key e = None" "spaced d key (lg_of st)"
  shows "spaced d key (lg_of (processAccessPortSecurity env cfg now prev cur st))"
  using assms by (simp add: processAccessPortSecurity_def spaced_secure_ports)

lemma spaced_access_events:
  assumes "\<And>e. port_event (ev_type e) \<Longrightarrow> key e = None" "spaced d key (lg_of st)"
  shows "spaced d key (lg_of (foldl (emit_access_event env now) st (computeFDBAccessEvents prev cur role inv' kn)))"
proof (rule foldl_inv)
  fix st ev assume "spaced d key (lg_of st)" "ev \<in> set (computeFDBAccessEvents prev cur role inv' kn)"
  then show "spaced d key (lg_of (emit_access_event env now st ev))"
    using assms(1) access_event_types [of ev]
    unfolding emit_access_event_def Let_def by (auto intro!: spaced_emit_other simp del: lg_of_simps)
qed (rule assms(2))

section \<open>Flapping addresses are reported apart\<close>

lemma map_of_mergeIfacePayload: "k \<noteq> ''if_name'' \<Longrightarrow> k \<noteq> ''if_descr'' \<Longrightarrow> map_of (mergeIfacePayload ifs i pl) k = map_of pl k"
  by (simp add: mergeIfacePayload_def payload_put_def update_conv' Let_def split: option.split)

text \<open>What a look-up that finds nothing says of the earlier events.\<close>
lemma no_recent_flap:
  assumes "\<not> HasMACEventSince lg ''MAC_FLAPPING'' mac since" "canonical_mac mac"
    and "ev_type e = ''MAC_FLAPPING''" "map_of (ev_pl e) ''mac'' = Some (PStr mac)"
  shows "list_all (\<lambda>f. flap_key f = flap_key e \<longrightarrow> ev_at f < since) lg"
proof -
  have "flap_key e = Some mac"
    using assms(2-4) canonical_lower by (simp add: flap_key_def pl_str_def)
  moreover have "ev_at f < since" if "f \<in> set lg" "flap_key f = Some mac" for f
    using assms(1) that canonical_FormatFullMAC [OF assms(2)] canonical_lower [OF assms(2)]
    by (fastforce simp: HasMACEventSince_def list_ex_iff flap_key_def split: if_splits)
  ultimately show ?thesis by (simp add: list_all_iff)
qed

lemma spaced_flap_event:
  assumes "spaced (mac_flap_debounce cfg) flap_key (lg_of st)"
    and "\<not> HasMACEventSince (lg_of st) ''MAC_FLAPPING'' mac (now - mac_flap_debounce cfg)" "canonical_mac mac"
    and "map_of pl ''mac'' = Some (PStr mac)"
  shows "spaced (mac_flap_debounce cfg) flap_key (lg_of (emit_fdb env ig now i ''MAC_FLAPPING'' sev pl st))"
  using assms(1)
proof (rule spaced_emit)
  fix e :: event assume "ev_type e = ''MAC_FLAPPING''" "ev_pl e = pl"
  then have "list_all (\<lambda>f. flap_key f = flap_key e \<longrightarrow> ev_at f < now - mac_flap_debounce cfg) (lg_of st)"
    using no_recent_flap [OF assms(2,3)] assms(4) by simp
  then show "flap_key e = None \<or> list_all (\<lambda>f. flap_key f = flap_key e \<longrightarrow> ev_at f + mac_flap_debounce cfg < now) (lg_of st)"
    by (auto simp: list_all_iff)
qed

lemma maybe_flap_cases:
  obtains "maybeEmitMACFlapping env cfg now mac st = st"
  | i pl where "maybeEmitMACFlapping env cfg now mac st = emit_fdb env (fv_ignore env) now i ''MAC_FLAPPING'' ''warning'' pl st"
      "map_of pl ''mac'' = Some (PStr mac)" "\<not> HasMACEventSince (lg_of st) ''MAC_FLAPPING'' mac (now - mac_flap_debounce cfg)"
proof (cases "maybeEmitMACFlapping env cfg now mac st = st")
  case False
  define ports where "ports = DistinctPortsInMoves (fd_moves st) mac (now - mac_flap_window cfg)"
  define n where "n = int (CountMACPortMovesInWindow (fd_moves st) mac (now - mac_flap_window cfg))"
  define pl where "pl = [(''mac'', PStr mac), (''move_count'', PInt n), (''window_sec'', PInt (mac_flap_window cfg div 1000000000)),
    (''ports'', PInts ports), (''source'', PStr ''fdb_poll''), (''mac_vendor'', PStr (fv_vendor env mac)),
    (''investigate'', PStr (''/investigate/mac?mac='' @ mac))]"
  have eq: "maybeEmitMACFlapping env cfg now mac st =
      (if \<not> fv_track env mac \<or> \<not> fv_count_ok env \<or> n < mac_flap_min cfg \<or> \<not> fv_dup_ok env \<or>
          HasMACEventSince (lg_of st) ''MAC_FLAPPING'' mac (now - mac_flap_debounce cfg) then st
       else if ports = [] then emit_fdb env (fv_ignore env) now None ''MAC_FLAPPING'' ''warning'' pl st
       else emit_fdb env (fv_ignore env) now (Some (last ports)) ''MAC_FLAPPING'' ''warning''
         (mergeIfacePayload (map_of (fv_ifs env)) (last ports) pl) st)"
    unfolding maybeEmitMACFlapping_def Let_def pl_def n_def ports_def lg_of_def by (simp only: if_split_eq1 split: if_split) blast
  have "map_of pl ''mac'' = Some (PStr mac)" by (simp add: pl_def)
  moreover from this have "map_of (mergeIfacePayload (map_of (fv_ifs env)) (last ports) pl) ''mac'' = Some (PStr mac)"
    by (simp add: map_of_mergeIfacePayload)
  ultimately show thesis using that(2) False unfolding eq by (metis (full_types))
qed (rule that(1))

lemma spaced_maybe_flap:
  assumes "spaced (mac_flap_debounce cfg) flap_key (lg_of st)" "canonical_mac mac"
  shows "spaced (mac_flap_debounce cfg) flap_key (lg_of (maybeEmitMACFlapping env cfg now mac st))"
  by (rule maybe_flap_cases [of env cfg now mac st]) (simp_all only: assms spaced_flap_event)

lemma spaced_detect:
  assumes "\<forall>m\<in>set ms. canonical_mac (mv_MAC m)"
  shows "spaced (mac_flap_debounce cfg) flap_key (lg_of st) \<Longrightarrow>
    spaced (mac_flap_debounce cfg) flap_key (lg_of (detect_flaps env cfg now seen ms st))"
  using assms by (induction ms arbitrary: seen st) (simp_all add: spaced_maybe_flap)

datatype fdb_step =
    Walked fdb_env time fdb "int \<Rightarrow> FDBIfStats" "stormUtilPort list"
  | Syslogged fdb_env time string int int "int option" string
  | Restarted

text \<open>A restart forgets whether a storm is active.\<close>
fun step_fdb :: "fdb_config \<Rightarrow> fdb_state \<Rightarrow> fdb_step \<Rightarrow> fdb_state" where
  "step_fdb cfg st (Walked env now entries stats storm) = pollFDB env cfg now entries stats storm st"
| "step_fdb cfg st (Syslogged env now mac a b vlan raw) = EmitMACFlappingFromSyslog env cfg now mac a b vlan raw st"
| "step_fdb cfg st Restarted = st\<lparr>fd_storm := False\<rparr>"

definition fdb_run :: "fdb_config \<Rightarrow> fdb_step list \<Rightarrow> fdb_state" where
  "fdb_run cfg steps = foldl (step_fdb cfg)
     \<lparr>fd_em = \<lparr>em_log = [], em_live = [], em_hook = [], em_actions = []\<rparr>, fd_moves = [], fd_rows = [],
      fd_sec = Map.empty, fd_storm = False, fd_baseline = None\<rparr> steps"

text \<open>Addresses come from walks (\<open>WalkFDBWithStats\<close>) and from parsed messages: they are canonical.\<close>
definition canonical_step :: "fdb_step \<Rightarrow> bool" where
  "canonical_step s = (case s of
     Walked env now entries stats storm \<Rightarrow> list_all (\<lambda>(mac, e). canonical_mac mac) entries
   | Syslogged env now mac a b vlan raw \<Rightarrow> canonical_mac mac
   | Restarted \<Rightarrow> True)"

definition canonical_rows :: "(string \<times> 'v) list \<Rightarrow> bool" where
  "canonical_rows rows \<longleftrightarrow> (\<forall>(mac, v)\<in>set rows. canonical_mac mac)"

lemma normalize_canonical: "canonical_mac m \<Longrightarrow> normalizeMAC m = m"
  using canonical_lower by (simp add: normalizeMAC_def)

lemma canonical_mem: "canonical_rows rows \<Longrightarrow> (k, v) \<in> set rows \<Longrightarrow> canonical_mac k \<and> normalizeMAC k = k"
  using normalize_canonical by (auto simp: canonical_rows_def)

lemma canonical_update: "canonical_rows rows \<Longrightarrow> canonical_mac k \<Longrightarrow> canonical_rows (AList.update k v rows)"
  unfolding canonical_rows_def using update_ball [of rows "\<lambda>k v. canonical_mac k" k v] by blast

lemma canonical_normalizeIfMap:
  assumes "canonical_rows m"
  shows "canonical_rows (normalizeIfMap m)"
  unfolding normalizeIfMap_def
proof (rule foldl_inv)
  fix out :: "(string \<times> int) list" and x assume out: "canonical_rows out" and "x \<in> set m"
  moreover obtain k j where x: "x = (k, j)" by fastforce
  ultimately have "canonical_mac k" "normalizeMAC k = k" using canonical_mem [OF assms, of k j] by simp_all
  then show "canonical_rows (case x of (mac, i) \<Rightarrow> if normalizeMAC mac = [] then out else AList.update (normalizeMAC mac) i out)"
    using canonical_update [OF out, of k j] out by (simp add: x)
qed (simp add: canonical_rows_def)

lemma canonical_moves:
  assumes "canonical_rows prev" "canonical_rows cur" "m \<in> set (computeMACFDBMoves prev cur en t s)"
  shows "canonical_mac (mv_MAC m)"
proof -
  obtain ki where "ki \<in> set (normalizeIfMap cur) \<union> set (normalizeIfMap prev)" "mv_MAC m = fst ki"
    using assms(3) appear_move_MAC leave_move_MAC
    unfolding computeMACFDBMoves_def Let_def set_append Un_iff map_filter_mem by blast
  then show ?thesis using canonical_normalizeIfMap [OF assms(1)] canonical_normalizeIfMap [OF assms(2)]
    by (fastforce simp: canonical_rows_def)
qed

lemma canonical_replace:
  assumes "canonical_rows rows" "canonical_rows entries"
  shows "canonical_rows (ReplaceFDBSnapshot entries now rows)"
proof -
  have put: "canonical_rows (foldl (\<lambda>rows (mac, e). AList.update (normalizeMAC mac) (f rows mac e) rows) rows es)"
    if "canonical_rows es" "canonical_rows rows" for es :: fdb and rows :: "(string \<times> kept_row) list" and f
    using that(2)
  proof (rule foldl_inv)
    fix r :: "(string \<times> kept_row) list" and x assume r: "canonical_rows r" and "x \<in> set es"
    moreover obtain k e where x: "x = (k, e)" by fastforce
    ultimately have "canonical_mac k" "normalizeMAC k = k" using canonical_mem [OF that(1), of k e] by simp_all
    then show "canonical_rows (case x of (mac, e) \<Rightarrow> AList.update (normalizeMAC mac) (f r mac e) r)"
      using canonical_update [OF r, of k "f r k e"] by (simp add: x)
  qed
  have es: "canonical_rows (filter P entries)" for P using assms(2) by (auto simp: canonical_rows_def)
  have fil: "canonical_rows r \<Longrightarrow> canonical_rows (filter P r)" for P and r :: "(string \<times> kept_row) list"
    by (auto simp: canonical_rows_def)
  show ?thesis unfolding ReplaceFDBSnapshot_def Let_def by (rule fil [OF put [OF es assms(1)]])
qed

text \<open>What \<open>pollFDB\<close> does before it writes the rows.\<close>
lemma pollFDB_result:
  obtains "pollFDB env cfg now entries stats storm st = st"
  | st' where "pollFDB env cfg now entries stats storm st \<in> {st', st'\<lparr>fd_rows := ReplaceFDBSnapshot entries now (fd_rows st'),
       fd_baseline := (case fd_baseline st' of None \<Rightarrow> Some now | Some b \<Rightarrow> Some b)\<rparr>}"
    "st' = st \<or> (\<exists>role inv' kn. st' = processAccessPortSecurity env cfg now (GetFDBSnapshot (fd_rows st)) (FDBEntriesToIfIndexMap entries)
       (recordAndDetectMACMoves env cfg now (GetFDBSnapshot (fd_rows st)) (FDBEntriesToIfIndexMap entries) entries
         (foldl (emit_access_event env now)
           (maybeDetectBroadcastStorm env cfg now (int (length (GetFDBSnapshot (fd_rows st)))) (int (length entries)) storm st)
           (computeFDBAccessEvents (GetFDBSnapshot (fd_rows st)) (FDBEntriesToIfIndexMap entries) role inv' kn))))"
proof (cases "fv_rows_ok env")
  case True
  let ?role = "makeResolvePortRole (map_of (fv_ifs env)) (fv_roles env) stats (fc_roles cfg)"
  let ?inv = "\<lambda>mac. isInventoryChassisMAC mac (case fv_chassis env of None \<Rightarrow> [] | Some c \<Rightarrow> c)"
  let ?kn = "isKnownOnPort (if fv_sec_ok env then fd_sec st else Map.empty)"
  define st1 where "st1 = processAccessPortSecurity env cfg now (GetFDBSnapshot (fd_rows st)) (FDBEntriesToIfIndexMap entries)
       (recordAndDetectMACMoves env cfg now (GetFDBSnapshot (fd_rows st)) (FDBEntriesToIfIndexMap entries) entries
         (foldl (emit_access_event env now)
           (maybeDetectBroadcastStorm env cfg now (int (length (GetFDBSnapshot (fd_rows st)))) (int (length entries)) storm st)
           (computeFDBAccessEvents (GetFDBSnapshot (fd_rows st)) (FDBEntriesToIfIndexMap entries) ?role ?inv ?kn)))"
  define st' where "st' = (if GetFDBSnapshot (fd_rows st) = [] \<or> isFDBLearning cfg now (fd_baseline st) then st else st1)"
  have eq: "pollFDB env cfg now entries stats storm st =
     (if fv_replace_ok env then st'\<lparr>fd_rows := ReplaceFDBSnapshot entries now (fd_rows st'),
       fd_baseline := (case fd_baseline st' of None \<Rightarrow> Some now | Some b \<Rightarrow> Some b)\<rparr> else st')"
    using True unfolding pollFDB_def Let_def st'_def st1_def by (simp only: not_True_eq_False if_False)
  have "st' = st \<or> st' = st1" by (simp add: st'_def)
  then show thesis
    using that(2) [of st'] unfolding eq st1_def by (cases "fv_replace_ok env") auto
qed (simp add: that(1) pollFDB_def)

lemma spaced_walk:
  assumes key: "\<And>e. port_event (ev_type e) \<Longrightarrow> key e = None"
    and storm: "\<And>a b st. spaced d key (lg_of st) \<Longrightarrow> spaced d key (lg_of (maybeDetectBroadcastStorm env cfg now a b storm st))"
    and moves: "\<And>st'. spaced d key (lg_of st') \<Longrightarrow> spaced d key (lg_of (recordAndDetectMACMoves env cfg now
      (GetFDBSnapshot (fd_rows st)) (FDBEntriesToIfIndexMap entries) entries st'))"
    and start: "spaced d key (lg_of st)"
  shows "spaced d key (lg_of (pollFDB env cfg now entries stats storm st))"
proof (rule pollFDB_result [of env cfg now entries stats storm st])
  let ?prev = "GetFDBSnapshot (fd_rows st)" and ?cur = "FDBEntriesToIfIndexMap entries"
  fix st' assume r: "pollFDB env cfg now entries stats storm st \<in> {st', st'\<lparr>fd_rows := ReplaceFDBSnapshot entries now (fd_rows st'),
      fd_baseline := (case fd_baseline st' of None \<Rightarrow> Some now | Some b \<Rightarrow> Some b)\<rparr>}"
    and s: "st' = st \<or> (\<exists>role inv' kn. st' = processAccessPortSecurity env cfg now ?prev ?cur
      (recordAndDetectMACMoves env cfg now ?prev ?cur entries (foldl (emit_access_event env now)
         (maybeDetectBroadcastStorm env cfg now (int (length ?prev)) (int (length entries)) storm st)
         (computeFDBAccessEvents ?prev ?cur role inv' kn))))"
  from s have "spaced d key (lg_of st')"
  proof (elim disjE exE)
    fix role inv' kn assume st': "st' = processAccessPortSecurity env cfg now ?prev ?cur
      (recordAndDetectMACMoves env cfg now ?prev ?cur entries (foldl (emit_access_event env now)
         (maybeDetectBroadcastStorm env cfg now (int (length ?prev)) (int (length entries)) storm st)
         (computeFDBAccessEvents ?prev ?cur role inv' kn)))"
    show ?thesis unfolding st' by (intro spaced_security [OF key] moves spaced_access_events [OF key] storm start)
  qed (simp add: start)
  then show ?thesis using r by auto
qed (simp add: start)

lemma spaced_flap_walk:
  assumes "spaced (mac_flap_debounce cfg) flap_key (lg_of st)" "canonical_rows (fd_rows st)" "canonical_rows entries"
  shows "spaced (mac_flap_debounce cfg) flap_key (lg_of (pollFDB env cfg now entries stats storm st))"
proof (rule spaced_walk)
  show "spaced (mac_flap_debounce cfg) flap_key (lg_of (maybeDetectBroadcastStorm env cfg now a b storm st))"
    if "spaced (mac_flap_debounce cfg) flap_key (lg_of st)" for a b st
    using that unfolding maybeDetectBroadcastStorm_def Let_def
    by (auto split: prod.split bool.split simp del: lg_of_simps(6) intro!: spaced_emit_other flap_key_other)
next
  fix st' assume sp: "spaced (mac_flap_debounce cfg) flap_key (lg_of st')"
  let ?prev = "GetFDBSnapshot (fd_rows st)" and ?cur = "FDBEntriesToIfIndexMap entries"
  define ms where "ms = filter (\<lambda>m. fv_track env (mv_MAC m)) (computeMACFDBMoves ?prev ?cur entries now ''fdb_poll'')"
  have "canonical_rows ?prev" "canonical_rows ?cur"
    using assms(2,3) by (auto simp: canonical_rows_def GetFDBSnapshot_def FDBEntriesToIfIndexMap_def)
  then have "\<forall>m\<in>set ms. canonical_mac (mv_MAC m)" using canonical_moves by (auto simp: ms_def)
  moreover obtain ok tbl where "InsertMACFDBMoves (fv_move_ok env) ms (fd_moves st') = (ok, tbl)" by fastforce
  ultimately show "spaced (mac_flap_debounce cfg) flap_key (lg_of (recordAndDetectMACMoves env cfg now ?prev ?cur entries st'))"
    using sp unfolding recordAndDetectMACMoves_def Let_def ms_def [symmetric]
    by (cases ok) (simp_all add: spaced_detect)
qed (use assms(1) port_event_keys in blast)+

lemma canonical_rows_walk:
  assumes "canonical_rows (fd_rows st)" "canonical_rows entries"
  shows "canonical_rows (fd_rows (pollFDB env cfg now entries stats storm st))"
proof -
  have flap: "fd_rows (maybeEmitMACFlapping env cfg now mac st) = fd_rows st" for mac st
    by (rule maybe_flap_cases [of env cfg now mac st]) simp_all
  have det: "fd_rows (detect_flaps env cfg now seen ms st) = fd_rows st" for seen ms st
    by (induction ms arbitrary: seen st) (simp_all add: flap)
  have "fd_rows (fst (secure_ports env cfg now role prev cur state is st)) = fd_rows st" for role prev cur state "is" st
  proof (induction "is" arbitrary: st)
    case (Cons i "is")
    have ev: "fd_rows (foldl (\<lambda>st (ty, sev, pl). emit_fdb env (fv_ignore env) now (Some i) ty sev
        (mergeIfacePayload (map_of (fv_ifs env)) i pl) st) st evs) = fd_rows st" for evs st
      by (induction evs arbitrary: st) auto
    show ?case by (auto simp: Cons ev Let_def split: prod.split option.split)
  qed simp
  then have sec: "fd_rows (processAccessPortSecurity env cfg now prev cur st) = fd_rows st" for prev cur st
    by (simp add: processAccessPortSecurity_def)
  have mov: "fd_rows (recordAndDetectMACMoves env cfg now prev cur entries st) = fd_rows st" for prev cur st
    by (simp add: recordAndDetectMACMoves_def Let_def det split: prod.split bool.split)
  have acc: "fd_rows (foldl (emit_access_event env now) st es) = fd_rows st" for es st
    by (induction es arbitrary: st) (simp_all add: emit_access_event_def Let_def)
  have sto: "fd_rows (maybeDetectBroadcastStorm env cfg now a b storm st) = fd_rows st" for a b st
    by (simp add: maybeDetectBroadcastStorm_def Let_def split: prod.split bool.split)
  show ?thesis
    using canonical_replace assms
    by (rule_tac pollFDB_result [of env cfg now entries stats storm st]) (auto simp: sec mov acc sto)
qed

lemma syslog_cases:
  obtains "lg_of (EmitMACFlappingFromSyslog env cfg now mac a b vlan raw st) = lg_of st"
    "fd_rows (EmitMACFlappingFromSyslog env cfg now mac a b vlan raw st) = fd_rows st"
  | st1 pl where "EmitMACFlappingFromSyslog env cfg now mac a b vlan raw st = emit_fdb env [] now (Some a) ''MAC_FLAPPING'' ''warning'' pl st1"
      "lg_of st1 = lg_of st" "fd_rows st1 = fd_rows st" "map_of pl ''mac'' = Some (PStr (ToLower mac))"
      "\<not> HasMACEventSince (lg_of st) ''MAC_FLAPPING'' mac (now - mac_flap_debounce cfg)"
proof -
  define st1 where "st1 = st\<lparr>fd_moves := snd (InsertMACFDBMoves (fv_move_ok env)
    [\<lparr>mv_MAC = mac, mv_From = Some a, mv_To = Some b, mv_VLAN = vlan, mv_SeenAt = now, mv_Source = ''syslog''\<rparr>] (fd_moves st))\<rparr>"
  define pl where "pl = (let pl = [(''mac'', PStr (ToLower mac)), (''ports'', PInts [a, b]), (''source'', PStr ''syslog''),
       (''mac_vendor'', PStr (fv_vendor env mac)), (''investigate'', PStr (''/investigate/mac?mac='' @ ToLower mac))];
       pl = (case vlan of None \<Rightarrow> pl | Some v \<Rightarrow> payload_put ''vlan_id'' (PInt v) pl)
     in if raw \<noteq> [] then payload_put ''syslog_msg'' (PStr raw) pl else pl)"
  have pl: "map_of pl ''mac'' = Some (PStr (ToLower mac))"
    by (simp add: pl_def Let_def payload_put_def update_conv' split: option.split)
  have st1: "lg_of st1 = lg_of st" "fd_rows st1 = fd_rows st" by (simp_all add: st1_def)
  have "EmitMACFlappingFromSyslog env cfg now mac a b vlan raw st = (if \<not> fv_track env mac then st
      else if \<not> fv_dup_ok env \<or> HasMACEventSince (lg_of st1) ''MAC_FLAPPING'' mac (now - mac_flap_debounce cfg) then st1
      else emit_fdb env [] now (Some a) ''MAC_FLAPPING'' ''warning'' pl st1)"
    unfolding EmitMACFlappingFromSyslog_def Let_def st1_def pl_def lg_of_def by (rule refl)
  then show thesis using that st1 pl by (metis (full_types))
qed

text \<open>
  C10. Over any sequence of walks, messages of the switch and restarts, whatever the database answers, two
  reports that one address flaps lie more than the debounce apart, whichever source they have.
\<close>
theorem mac_flaps_apart:
  assumes "list_all canonical_step steps"
  shows "spaced (mac_flap_debounce cfg) flap_key (lg_of (fdb_run cfg steps))"
proof -
  let ?P = "\<lambda>st. spaced (mac_flap_debounce cfg) flap_key (lg_of st) \<and> canonical_rows (fd_rows st)"
  have "?P (fdb_run cfg steps)"
    unfolding fdb_run_def
  proof (rule foldl_inv)
    fix st s assume inv: "?P st" and s: "s \<in> set steps"
    then have c: "canonical_step s" using assms by (simp add: list_all_iff)
    show "?P (step_fdb cfg st s)"
    proof (cases s)
      case (Walked env now entries stats storm)
      then have "canonical_rows entries" using c by (simp add: canonical_step_def canonical_rows_def list_all_iff)
      then show ?thesis using inv by (simp add: Walked spaced_flap_walk canonical_rows_walk)
    next
      case (Syslogged env now mac a b vlan raw)
      then have mac: "canonical_mac mac" using c by (simp add: canonical_step_def)
      show ?thesis
      proof (rule syslog_cases [of env cfg now mac a b vlan raw st])
        fix st1 pl assume "EmitMACFlappingFromSyslog env cfg now mac a b vlan raw st = emit_fdb env [] now (Some a) ''MAC_FLAPPING'' ''warning'' pl st1"
          "lg_of st1 = lg_of st" "fd_rows st1 = fd_rows st" "map_of pl ''mac'' = Some (PStr (ToLower mac))"
          "\<not> HasMACEventSince (lg_of st) ''MAC_FLAPPING'' mac (now - mac_flap_debounce cfg)"
        then show ?thesis
          using inv spaced_flap_event [of cfg st1 mac now pl] mac canonical_lower [OF mac] by (simp add: Syslogged del: lg_of_simps(6))
      qed (use inv in \<open>simp add: Syslogged\<close>)
    qed (use inv in simp)
  qed (simp add: canonical_rows_def lg_of_def)
  then show ?thesis by blast
qed

section \<open>Storms are reported apart\<close>

text \<open>The database answers when it is asked for an earlier report.\<close>
definition asked_step :: "fdb_step \<Rightarrow> bool" where
  "asked_step s = (case s of Walked env now entries stats storm \<Rightarrow> fv_dup_ok env | _ \<Rightarrow> True)"

lemma spaced_storm_detect:
  assumes "spaced (fc_StormDebounce cfg) storm_key (lg_of st)" "0 < fc_StormDebounce cfg" "fv_dup_ok env"
  shows "spaced (fc_StormDebounce cfg) storm_key (lg_of (maybeDetectBroadcastStorm env cfg now a b ports st))"
proof -
  obtain susp delta where b: "broadcastStormSuspected cfg ports a b = (susp, delta)" by fastforce
  have "spaced (fc_StormDebounce cfg) storm_key (lg_of (emit_fdb env (fv_ignore env) now None ''BROADCAST_STORM_SUSPECTED'' ''warning'' pl st))"
    if no: "\<not> has_event_since (em_log (fd_em st)) ''BROADCAST_STORM_SUSPECTED'' (now - fc_StormDebounce cfg)" for pl
    using assms(1)
  proof (rule spaced_emit)
    have "ev_at f + fc_StormDebounce cfg < now" if "f \<in> set (lg_of st)" "ev_type f = ''BROADCAST_STORM_SUSPECTED''" for f
      using no that by (fastforce simp: has_event_since_def list_ex_iff lg_of_def)
    then show "storm_key e = None \<or> list_all (\<lambda>f. storm_key f = storm_key e \<longrightarrow> ev_at f + fc_StormDebounce cfg < now) (lg_of st)" for e
      by (auto simp: list_all_iff storm_key_def)
  qed
  moreover have "spaced (fc_StormDebounce cfg) storm_key (lg_of (emit_fdb env (fv_ignore env) now None ''BROADCAST_STORM_OK'' ''info'' pl st))" for pl
    using assms(1) by (rule spaced_emit_other) (simp add: storm_key_def)
  ultimately show ?thesis
    using assms by (cases susp) (simp_all add: maybeDetectBroadcastStorm_def b Let_def del: lg_of_simps(6))
qed

lemma spaced_storm_flaps:
  assumes "spaced d storm_key (lg_of st)"
  shows "spaced d storm_key (lg_of (recordAndDetectMACMoves env cfg now prev cur entries st))"
proof -
  have flap: "spaced d storm_key (lg_of (maybeEmitMACFlapping env cfg now mac st))" if "spaced d storm_key (lg_of st)" for mac st
    by (rule maybe_flap_cases [of env cfg now mac st])
      (auto simp: that simp del: lg_of_simps(6) intro!: spaced_emit_other storm_key_other)
  have "spaced d storm_key (lg_of (detect_flaps env cfg now seen ms st))" if "spaced d storm_key (lg_of st)" for seen ms st
    using that by (induction ms arbitrary: seen st) (simp_all add: flap)
  then show ?thesis
    using assms unfolding recordAndDetectMACMoves_def Let_def by (simp split: prod.split bool.split)
qed

text \<open>
  C30. Two reports that a storm is suspected lie more than the debounce apart, over walks, messages and
  restarts, as long as the database answers when it is asked for the earlier one.
\<close>
theorem storms_apart:
  assumes "0 < fc_StormDebounce cfg" "list_all asked_step steps"
  shows "spaced (fc_StormDebounce cfg) storm_key (lg_of (fdb_run cfg steps))"
  unfolding fdb_run_def
proof (rule foldl_inv)
  fix st s assume inv: "spaced (fc_StormDebounce cfg) storm_key (lg_of st)" and "s \<in> set steps"
  then have a: "asked_step s" using assms(2) by (simp add: list_all_iff)
  show "spaced (fc_StormDebounce cfg) storm_key (lg_of (step_fdb cfg st s))"
  proof (cases s)
    case (Walked env now entries stats storm)
    then have "fv_dup_ok env" using a by (simp add: asked_step_def)
    then have "spaced (fc_StormDebounce cfg) storm_key (lg_of (pollFDB env cfg now entries stats storm st))"
      using inv assms(1) port_event_keys by (intro spaced_walk spaced_storm_detect spaced_storm_flaps) auto
    then show ?thesis by (simp add: Walked)
  next
    case (Syslogged env now mac a b vlan raw)
    show ?thesis
    proof (rule syslog_cases [of env cfg now mac a b vlan raw st])
      fix st1 pl assume "EmitMACFlappingFromSyslog env cfg now mac a b vlan raw st = emit_fdb env [] now (Some a) ''MAC_FLAPPING'' ''warning'' pl st1"
        "lg_of st1 = lg_of st"
      then show ?thesis
        using inv spaced_emit_other [of "fc_StormDebounce cfg" storm_key st1] by (simp add: Syslogged storm_key_other del: lg_of_simps(6))
    qed (use inv in \<open>simp add: Syslogged\<close>)
  qed (use inv in simp)
qed (simp add: lg_of_def)

section \<open>What is reported of a device on an access port\<close>

text \<open>What the walks found on one port, the latest last: the instant and the addresses.\<close>
type_synonym sightings = "(time \<times> string list) list"

definition had_some :: "sightings \<Rightarrow> bool" where
  "had_some h \<longleftrightarrow> h \<noteq> [] \<and> snd (last h) \<noteq> []"

text \<open>The row of the port after these walks; it has none at first.\<close>
definition row_after :: "fdb_env \<Rightarrow> fdb_config \<Rightarrow> sightings \<Rightarrow> PortAccessSecurity option" where
  "row_after env cfg h = snd (foldl (\<lambda>(before, row) (now, ms).
     (before @ [(now, ms)], case fst (secure_port env cfg now (had_some before) ms row) of None \<Rightarrow> row | Some r \<Rightarrow> Some r)) ([], None) h)"

definition alarms :: "fdb_env \<Rightarrow> fdb_config \<Rightarrow> sightings \<Rightarrow> time \<Rightarrow> string list \<Rightarrow> string list" where
  "alarms env cfg h now ms = map fst (snd (secure_port env cfg now (had_some h) ms (row_after env cfg h)))"

text \<open>The last device that was alone on the port, and the instant since when the port is seen empty.\<close>
definition last_alone :: "sightings \<Rightarrow> string \<Rightarrow> bool" where
  "last_alone h m \<longleftrightarrow> (\<exists>xs t ys. h = xs @ (t, [m]) # ys \<and> (\<forall>y\<in>set ys. length (snd y) \<noteq> 1))"

definition left_at :: "sightings \<Rightarrow> time \<Rightarrow> bool" where
  "left_at h t \<longleftrightarrow> (\<exists>xs ys. h = xs @ (t, []) # ys \<and> had_some xs \<and> (\<forall>y\<in>set ys. snd y = []))"

definition alone_of :: "sightings \<Rightarrow> string option" where
  "alone_of h = (case find (\<lambda>x. length (snd x) = 1) (rev h) of None \<Rightarrow> None | Some x \<Rightarrow> Some (hd (snd x)))"

lemma row_after_Nil [simp]: "row_after env cfg [] = None"
  by (simp add: row_after_def)

lemma row_after_snoc:
  "row_after env cfg (h @ [(now, ms)]) =
     (case fst (secure_port env cfg now (had_some h) ms (row_after env cfg h)) of None \<Rightarrow> row_after env cfg h | Some r \<Rightarrow> Some r)"
proof -
  let ?step = "\<lambda>(before, row) (now, ms). (before @ [(now, ms)],
    case fst (secure_port env cfg now (had_some before) ms row) of None \<Rightarrow> row | Some r \<Rightarrow> Some r)"
  have seen: "fst (foldl ?step (b, r) h) = b @ h" for b r by (induction h arbitrary: b r) (simp_all add: case_prod_beta)
  obtain b r where f: "foldl ?step ([], None) h = (b, r)" by fastforce
  have "b = h" using seen [of "[]" None] unfolding f by simp
  moreover have "row_after env cfg h = r" unfolding row_after_def f by simp
  ultimately show ?thesis unfolding row_after_def [of env cfg "h @ [(now, ms)]"] foldl_append f
    by (simp split: option.split)
qed

lemma last_alone_snoc: "last_alone (h @ [(t, ms)]) m \<longleftrightarrow> (if length ms = 1 then ms = [m] else last_alone h m)"
proof -
  have "last_alone (h @ [(t, ms)]) m" if "ms = [m]"
    using that unfolding last_alone_def by (intro exI [of _ h] exI [of _ t] exI [of _ "[]"]) simp
  moreover have "last_alone (h @ [(t, ms)]) m" if l: "length ms \<noteq> 1" and la: "last_alone h m"
  proof -
    obtain xs u ys where "h = xs @ (u, [m]) # ys" "\<forall>y\<in>set ys. length (snd y) \<noteq> 1"
      using la unfolding last_alone_def by blast
    then show ?thesis using l unfolding last_alone_def by (intro exI [of _ xs] exI [of _ u] exI [of _ "ys @ [(t, ms)]"]) auto
  qed
  moreover have "(if length ms = 1 then ms = [m] else last_alone h m)" if a: "last_alone (h @ [(t, ms)]) m"
  proof -
    obtain xs u ys where h: "h @ [(t, ms)] = xs @ (u, [m]) # ys" and ys: "\<forall>y\<in>set ys. length (snd y) \<noteq> 1"
      using a unfolding last_alone_def by blast
    show ?thesis
    proof (cases ys rule: rev_cases)
      case (snoc zs z)
      then have "h = xs @ (u, [m]) # zs" "z = (t, ms)" using h by auto
      then show ?thesis using ys snoc unfolding last_alone_def by auto
    qed (use h in auto)
  qed
  ultimately show ?thesis by metis
qed

lemma left_at_snoc:
  "left_at (h @ [(t, ms)]) u \<longleftrightarrow> ms = [] \<and> (if had_some h then u = t else left_at h u)"
proof
  assume "left_at (h @ [(t, ms)]) u"
  then obtain xs ys where h: "h @ [(t, ms)] = xs @ (u, []) # ys" and x: "had_some xs" "\<forall>y\<in>set ys. snd y = []"
    unfolding left_at_def by blast
  show "ms = [] \<and> (if had_some h then u = t else left_at h u)"
  proof (cases ys rule: rev_cases)
    case (snoc zs z)
    then have hz: "h = xs @ (u, []) # zs" "z = (t, ms)" using h by auto
    have "\<not> had_some h" using x(2) snoc unfolding hz had_some_def by (cases zs rule: rev_cases) auto
    moreover have "left_at h u" using x snoc unfolding hz left_at_def by auto
    ultimately show ?thesis using hz x snoc by simp
  qed (use h x in auto)
next
  assume r: "ms = [] \<and> (if had_some h then u = t else left_at h u)"
  show "left_at (h @ [(t, ms)]) u"
  proof (cases "had_some h")
    case True
    then show ?thesis using r unfolding left_at_def by (intro exI [of _ h] exI [of _ "[]"]) simp
  next
    case False
    then obtain xs ys where "h = xs @ (u, []) # ys" "had_some xs" "\<forall>y\<in>set ys. snd y = []" using r unfolding left_at_def by auto
    then show ?thesis using r unfolding left_at_def by (intro exI [of _ xs] exI [of _ "ys @ [(t, ms)]"]) auto
  qed
qed

lemma not_alone_Nil [simp]: "\<not> last_alone [] m" "\<not> left_at [] t"
  by (simp_all add: last_alone_def left_at_def)

text \<open>The row remembers both.\<close>
lemma row_remembers:
  "(last_alone h m \<longleftrightarrow> (\<exists>r. row_after env cfg h = Some r \<and> se_Bound r = Some m)) \<and>
   (left_at h t \<longleftrightarrow> (\<exists>r. row_after env cfg h = Some r \<and> se_EmptySince r = Some t))"
proof (induction h arbitrary: m t rule: rev_induct)
  case (snoc x h)
  obtain now ms where x: "x = (now, ms)" by fastforce
  let ?row = "row_after env cfg h"
  have occ: "\<not> left_at h u" if "had_some h" for u
  proof
    assume "left_at h u"
    then obtain xs ys where "h = xs @ (u, []) # ys" "\<forall>y\<in>set ys. snd y = []" unfolding left_at_def by blast
    then show False using that by (cases ys rule: rev_cases) (auto simp: had_some_def)
  qed
  have e: "se_EmptySince r = None" if "had_some h" "?row = Some r" for r
    using occ [OF that(1)] snoc.IH that(2) by (cases "se_EmptySince r") auto
  consider "ms = []" | a where "ms = [a]" | a b l where "ms = a # b # l" by (metis list.exhaust)
  then show "(last_alone (h @ [x]) m \<longleftrightarrow> (\<exists>r. row_after env cfg (h @ [x]) = Some r \<and> se_Bound r = Some m)) \<and>
      (left_at (h @ [x]) t \<longleftrightarrow> (\<exists>r. row_after env cfg (h @ [x]) = Some r \<and> se_EmptySince r = Some t))"
  proof cases
    case 1
    then show ?thesis
      using snoc.IH e by (cases ?row; cases "had_some h") (auto simp: x last_alone_snoc left_at_snoc row_after_snoc secure_port_def Let_def)
  next
    case 2
    then show ?thesis
      by (cases ?row) (auto simp: x last_alone_snoc left_at_snoc row_after_snoc secure_port_def Let_def)
  next
    case 3
    then show ?thesis
      using snoc.IH by (cases ?row) (auto simp: x last_alone_snoc left_at_snoc row_after_snoc secure_port_def Let_def)
  qed
qed simp_all


section \<open>Runs\<close>

definition lab_env :: fdb_env where
  "lab_env = \<lparr>fv_emit = pa_emit working, fv_ignore = [], fv_track = (\<lambda>_. True), fv_vendor = (\<lambda>_. []), fv_chassis = Some [],
     fv_ifs = [], fv_roles = Map.empty, fv_rows_ok = True, fv_move_ok = (\<lambda>_. True), fv_count_ok = True, fv_dup_ok = True,
     fv_sec_ok = True, fv_bind_ok = (\<lambda>_. True), fv_replace_ok = True\<rparr>"

definition lab_config :: fdb_config where
  "lab_config = \<lparr>fc_roles = pc_roles defaults, fc_LongIdle = 72 * 60 * minute, fc_LearnDuration = 0, fc_FlapMinMoves = 3,
     fc_FlapWindow = 60 * minute, fc_FlapDebounce = 15 * minute, fc_StormMinPorts = 0, fc_StormUtilPct = 80,
     fc_StormMinGrowth = 1, fc_StormMinGrowthPct = 2, fc_StormDebounce = 30 * minute\<rparr>"

definition a_mac :: string where
  "a_mac = ''52:54:4c:83:09:e0''"

definition flap_message :: "int \<Rightarrow> fdb_step" where
  "flap_message t = Syslogged lab_env (t * minute) a_mac 23 10 (Some 1) []"

lemma a_mac_canonical: "canonical_mac a_mac"
proof -
  have "FormatFullMAC a_mac = Some a_mac" by code_simp
  then show ?thesis by (auto simp: FormatFullMAC_eq canonical_mac_def Let_def macHexDigits_lower split: if_splits)
qed

theorem mac_flaps_apart_witness:
  "map (\<lambda>e. ev_at e div minute) (lg_of (fdb_run lab_config [flap_message 0, flap_message 5, flap_message 16])) = [16, 0] \<and>
   spaced (15 * minute) flap_key (lg_of (fdb_run lab_config [flap_message 0, flap_message 5, flap_message 16]))"
proof
  show "map (\<lambda>e. ev_at e div minute) (lg_of (fdb_run lab_config [flap_message 0, flap_message 5, flap_message 16])) = [16, 0]" by code_simp
  have "mac_flap_debounce lab_config = 15 * minute" by (simp add: mac_flap_debounce_def lab_config_def)
  then show "spaced (15 * minute) flap_key (lg_of (fdb_run lab_config [flap_message 0, flap_message 5, flap_message 16]))"
    using mac_flaps_apart [of "[flap_message 0, flap_message 5, flap_message 16]" lab_config]
    by (simp add: canonical_step_def flap_message_def a_mac_canonical)
qed

definition walked_with :: "string list \<Rightarrow> int \<Rightarrow> fdb_step" where
  "walked_with macs t = Walked lab_env (t * minute) (map (\<lambda>m. (m, \<lparr>le_IfIndex = 7, le_VLANID = None\<rparr>)) macs) (\<lambda>_. \<lparr>fs_MACCount = 50, fs_VLANCount = 0\<rparr>) []"

text \<open>The table grows, stands still, grows and stands still again.\<close>
definition two_storms :: "fdb_step list" where
  "two_storms = [walked_with [''1''] 0, walked_with [''1'', ''2''] 5, walked_with [''1'', ''2''] 10,
     walked_with [''1'', ''2'', ''3''] 15, walked_with [''1'', ''2'', ''3''] 20]"

text \<open>
  A second storm within the debounce is not reported, but it becomes active all the same, and its end is
  reported: two ends follow one storm.
\<close>
lemma storm_ends_twice:
  "map ev_type (lg_of (fdb_run lab_config two_storms)) = [''BROADCAST_STORM_OK'', ''BROADCAST_STORM_OK'', ''BROADCAST_STORM_SUSPECTED'']"
  by code_simp

theorem storms_apart_witness:
  "spaced (30 * minute) storm_key (lg_of (fdb_run lab_config two_storms)) \<and> lg_of (fdb_run lab_config two_storms) \<noteq> []"
proof
  have "fc_StormDebounce lab_config = 30 * minute" by (simp add: lab_config_def)
  then show "spaced (30 * minute) storm_key (lg_of (fdb_run lab_config two_storms))"
    using storms_apart [of lab_config two_storms] by (simp add: two_storms_def walked_with_def asked_step_def lab_env_def)
  show "lg_of (fdb_run lab_config two_storms) \<noteq> []" using storm_ends_twice by auto
qed

text \<open>
  An error in the middle of a walk of the addresses is dropped: what was read so far counts as the whole
  table, and devices that are still there are reported as removed.
\<close>
lemma cut_walk_removes:
  "let row = (\<lambda>b. (''.1.3.6.1.2.1.17.4.3.1.2.0.26.43.60.77.'' @ b, 1));
       base = ([(''.1.3.6.1.2.1.17.1.4.1.2.1'', 101)], True)
   in case (WalkFDBWithStats base ([row ''94'', row ''95''], True) ([], True), WalkFDBWithStats base ([row ''94''], False) ([], False)) of
        (Some (whole, _), Some (part, _)) \<Rightarrow>
          map (\<lambda>e. (fe_type e, fe_mac e)) (computeFDBAccessEvents (FDBEntriesToIfIndexMap whole) (FDBEntriesToIfIndexMap part)
            (\<lambda>_. ''access'') (\<lambda>_. False) (\<lambda>_ _. False)) = [(''MAC_REMOVED'', ''00:1a:2b:3c:4d:5f'')]
      | _ \<Rightarrow> False"
  by code_simp

end
