(* ===== verification/Topology_Loops.thy ===== *)
theory Topology_Loops
  imports Detour "HOL-Library.Multiset" "HOL-Library.Char_ord" "HOL-Library.List_Lexorder"
begin

text \<open>
  Loops in the topology (\<open>internal/investigate/loops.go\<close>) and the watch that reports new ones
  (\<open>internal/loopwatch/loopwatch.go\<close>): the links of the stored graph or of the live topology, the
  depth-first search over them, the key of a loop, parallel links, and the events. The search is a
  recursion on the path; the devices left outside the path bound its depth. Where Go ranges over a
  map, the order is an argument or the order of the association list.
\<close>

record TopologyCycleHop =
  ch_FromDeviceID :: device_id
  ch_FromDeviceName :: string
  ch_FromIfIndex :: int
  ch_FromIfName :: string
  ch_ToDeviceID :: device_id
  ch_ToDeviceName :: string
  ch_ToIfIndex :: "int option"
  ch_ToIfName :: string
  ch_Protocol :: string

record TopologyCycle =
  tc_Length :: int
  tc_DeviceIDs :: "device_id list"
  tc_DeviceNames :: "string list"
  tc_Hops :: "TopologyCycleHop list"
  tc_Summary :: string
  tc_CycleKey :: string

record topoLink =
  tl_a :: device_id
  tl_b :: device_id
  tl_aIf :: int
  tl_bIf :: int
  tl_aIfName :: string
  tl_bIfName :: string
  tl_protocol :: string

record TopologyBlastEdge =
  be_ADeviceID :: device_id
  be_BDeviceID :: device_id
  be_AIfIndex :: int
  be_BIfIndex :: int
  be_Protocols :: string

section \<open>Links\<close>

text \<open>A missing map (\<open>nil\<close>) stands for no filter.\<close>
definition bothOnline :: "(device_id \<Rightarrow> bool) option \<Rightarrow> device_id \<Rightarrow> device_id \<Rightarrow> bool" where
  "bothOnline online a b = (case online of None \<Rightarrow> True | Some f \<Rightarrow> f a \<and> f b)"

text \<open>Each neighbour list is sorted at the end.\<close>
definition sort_neighbours :: "adjacency \<Rightarrow> adjacency" where
  "sort_neighbours adj = map (\<lambda>(u, vs). (u, sort vs)) adj"

text \<open>The pair of a link enters the graph once.\<close>
definition add_pair :: "device_id \<Rightarrow> device_id \<Rightarrow> adjacency \<times> (device_id \<times> device_id) list
    \<Rightarrow> adjacency \<times> (device_id \<times> device_id) list" where
  "add_pair a b st = (case st of (adj, pairSeen) \<Rightarrow>
     if (a, b) \<in> set pairSeen then st else (adj_push (adj_push adj a b) b a, (a, b) # pairSeen))"

definition blast_link :: "TopologyBlastEdge \<Rightarrow> topoLink" where
  "blast_link e =
     (let proto = (if be_Protocols e = [] then ''lldp+cdp+manual'' else be_Protocols e)
      in if be_ADeviceID e > be_BDeviceID e
         then \<lparr>tl_a = be_BDeviceID e, tl_b = be_ADeviceID e, tl_aIf = be_BIfIndex e, tl_bIf = be_AIfIndex e,
               tl_aIfName = [], tl_bIfName = [], tl_protocol = proto\<rparr>
         else \<lparr>tl_a = be_ADeviceID e, tl_b = be_BDeviceID e, tl_aIf = be_AIfIndex e, tl_bIf = be_BIfIndex e,
               tl_aIfName = [], tl_bIfName = [], tl_protocol = proto\<rparr>)"

definition blast_usable :: "(device_id \<Rightarrow> bool) option \<Rightarrow> TopologyBlastEdge \<Rightarrow> bool" where
  "blast_usable online e \<longleftrightarrow> be_ADeviceID e > 0 \<and> be_BDeviceID e > 0 \<and> be_ADeviceID e \<noteq> be_BDeviceID e
     \<and> bothOnline online (be_ADeviceID e) (be_BDeviceID e)"

definition links_graph :: "topoLink list \<Rightarrow> adjacency" where
  "links_graph links = sort_neighbours (fst (foldl (\<lambda>st l. add_pair (tl_a l) (tl_b l) st) ([], []) links))"

definition buildUndirectedFromBlast :: "TopologyBlastEdge list \<Rightarrow> (device_id \<Rightarrow> bool) option
    \<Rightarrow> topoLink list \<times> adjacency" where
  "buildUndirectedFromBlast edges online =
     (let links = map blast_link (filter (blast_usable online) edges) in (links, links_graph links))"

definition text_of :: "string option \<Rightarrow> string" where
  "text_of p = (case p of None \<Rightarrow> [] | Some s \<Rightarrow> s)"

definition live_usable :: "(device_id \<Rightarrow> bool) option \<Rightarrow> TopologyEdge \<Rightarrow> bool" where
  "live_usable online e \<longleftrightarrow> (case te_RemoteDeviceID e of None \<Rightarrow> False
     | Some r \<Rightarrow> r > 0 \<and> \<not> te_Stale e \<and> bothOnline online (te_LocalDeviceID e) r)"

definition live_link :: "TopologyEdge \<Rightarrow> topoLink" where
  "live_link e =
     (let a = te_LocalDeviceID e; b = (case te_RemoteDeviceID e of None \<Rightarrow> 0 | Some r \<Rightarrow> r);
          aIf = te_LocalIfIndex e; bIfName = text_of (te_RemoteIfName e); aIfName = text_of (te_LocalIfName e)
      in if a > b
         then \<lparr>tl_a = b, tl_b = a, tl_aIf = 0, tl_bIf = aIf, tl_aIfName = bIfName, tl_bIfName = aIfName,
               tl_protocol = te_Protocol e\<rparr>
         else \<lparr>tl_a = a, tl_b = b, tl_aIf = aIf, tl_bIf = 0, tl_aIfName = aIfName, tl_bIfName = bIfName,
               tl_protocol = te_Protocol e\<rparr>)"

definition link_key :: "topoLink \<Rightarrow> string" where
  "link_key l =
     (if tl_aIf l = 0 \<and> tl_bIf l = 0 then Itoa (tl_a l) @ ''-'' @ Itoa (tl_b l)
      else Itoa (tl_a l) @ '':'' @ Itoa (tl_aIf l) @ ''-'' @ Itoa (tl_b l) @ '':'' @ Itoa (tl_bIf l))"

text \<open>The map \<open>seen\<close> keeps the first link of every key; \<open>ord\<close> is the order in which it is ranged over.\<close>
definition seen_links :: "TopologyEdge list \<Rightarrow> (device_id \<Rightarrow> bool) option \<Rightarrow> (string \<times> topoLink) list" where
  "seen_links edges online = foldl (\<lambda>seen e.
     if \<not> live_usable online e then seen
     else if map_of seen (link_key (live_link e)) \<noteq> None then seen
     else seen @ [(link_key (live_link e), live_link e)]) [] edges"

definition buildUndirectedLLDPGraph :: "(topoLink list \<Rightarrow> topoLink list) \<Rightarrow> TopologyEdge list
    \<Rightarrow> (device_id \<Rightarrow> bool) option \<Rightarrow> topoLink list \<times> adjacency" where
  "buildUndirectedLLDPGraph ord edges online =
     (let links = ord (map snd (seen_links edges online)) in (links, links_graph links))"

section \<open>Keys of loops\<close>

text \<open>\<open>fmt.Sprint\<close> of a slice of integers\<close>
definition Sprint :: "device_id list \<Rightarrow> string" where
  "Sprint ids = ''['' @ Join (map Itoa ids) '' '' @ '']''"

text \<open>The index of the first least element\<close>
definition min_index :: "device_id list \<Rightarrow> nat" where
  "min_index ids = foldl (\<lambda>m i. if ids ! i < ids ! m then i else m) 0 [1..<length ids]"

definition cycleKey :: "device_id list \<Rightarrow> string" where
  "cycleKey ids = (if ids = [] then [] else
     let n = length ids; minI = min_index ids;
         fwd = map (\<lambda>i. ids ! ((minI + i) mod n)) [0..<n];
         rev = map (\<lambda>i. ids ! ((minI + n - i) mod n)) [0..<n];
         sf = Sprint fwd; sr = Sprint rev
     in if sf < sr then sf else sr)"

definition pair_prefix :: "device_id list \<Rightarrow> string \<Rightarrow> string" where
  "pair_prefix ids k = (if length ids = 2 then ''parallel:'' @ k else k)"

section \<open>Loops\<close>

definition arrow :: string where
  "arrow = [CHR 0x20, CHR 0xE2, CHR 0x86, CHR 0x92, CHR 0x20]"

definition name_or_id :: "(device_id \<Rightarrow> string) \<Rightarrow> device_id \<Rightarrow> string" where
  "name_or_id names d = (if names d = [] then ''#'' @ Itoa d else names d)"

definition zero_link :: topoLink where
  "zero_link = \<lparr>tl_a = 0, tl_b = 0, tl_aIf = 0, tl_bIf = 0, tl_aIfName = [], tl_bIfName = [], tl_protocol = []\<rparr>"

definition cycle_hop :: "(device_id \<times> device_id \<Rightarrow> topoLink option) \<Rightarrow> (device_id \<Rightarrow> string)
    \<Rightarrow> device_id \<Rightarrow> device_id \<Rightarrow> TopologyCycleHop" where
  "cycle_hop linkByPair names frm to =
     (let l = (case linkByPair (if frm > to then (to, frm) else (frm, to)) of None \<Rightarrow> zero_link | Some l \<Rightarrow> l)
      in if frm = tl_a l
         then \<lparr>ch_FromDeviceID = frm, ch_FromDeviceName = name_or_id names frm,
               ch_FromIfIndex = tl_aIf l, ch_FromIfName = tl_aIfName l,
               ch_ToDeviceID = to, ch_ToDeviceName = name_or_id names to,
               ch_ToIfIndex = (if tl_bIf l > 0 then Some (tl_bIf l) else None), ch_ToIfName = tl_bIfName l,
               ch_Protocol = tl_protocol l\<rparr>
         else \<lparr>ch_FromDeviceID = frm, ch_FromDeviceName = name_or_id names frm,
               ch_FromIfIndex = tl_bIf l, ch_FromIfName = tl_bIfName l,
               ch_ToDeviceID = to, ch_ToDeviceName = name_or_id names to,
               ch_ToIfIndex = (if tl_aIf l > 0 then Some (tl_aIf l) else None), ch_ToIfName = tl_aIfName l,
               ch_Protocol = tl_protocol l\<rparr>)"

definition materializeCycle :: "device_id list \<Rightarrow> (device_id \<times> device_id \<Rightarrow> topoLink option)
    \<Rightarrow> (device_id \<Rightarrow> string) \<Rightarrow> TopologyCycle option" where
  "materializeCycle path linkByPair names =
     (if length path < 3 then None
      else let devNames = map (name_or_id names) path
           in Some \<lparr>tc_Length = int (length path), tc_DeviceIDs = path, tc_DeviceNames = devNames,
                    tc_Hops = map (\<lambda>i. cycle_hop linkByPair names (path ! i) (path ! (Suc i mod length path)))
                                  [0..<length path],
                    tc_Summary = Join devNames arrow @ arrow @ hd devNames, tc_CycleKey = []\<rparr>)"

record search_state =
  ss_visited :: "device_id set"
  ss_cycles :: "TopologyCycle list"
  ss_seen :: "string list"

text \<open>A neighbour that is on the path closes a loop.\<close>
definition close_cycle :: "(device_id \<times> device_id \<Rightarrow> topoLink option) \<Rightarrow> (device_id \<Rightarrow> string)
    \<Rightarrow> device_id list \<Rightarrow> device_id \<Rightarrow> search_state \<Rightarrow> search_state" where
  "close_cycle linkByPair names path v st =
     (case materializeCycle (dropWhile (\<lambda>x. x \<noteq> v) path) linkByPair names of
        None \<Rightarrow> st
      | Some c \<Rightarrow> if cycleKey (tc_DeviceIDs c) \<in> set (ss_seen st) then st
                  else st\<lparr>ss_cycles := ss_cycles st @ [c], ss_seen := cycleKey (tc_DeviceIDs c) # ss_seen st\<rparr>)"

lemma adj_get_nodes: "v \<in> set (adj_get adj u) \<Longrightarrow> v \<in> adj_nodes adj"
proof -
  assume v: "v \<in> set (adj_get adj u)"
  then obtain vs where vs: "map_of adj u = Some vs" and "v \<in> set vs" by (cases "map_of adj u") (auto simp: adj_get_def)
  then show "v \<in> adj_nodes adj" using map_of_SomeD [OF vs] unfolding adj_nodes_def by blast
qed

lemma finite_adj_nodes [simp]: "finite (adj_nodes adj)"
  by (auto simp: adj_nodes_def)

lemma path_measure:
  "i < length (adj_get adj u) \<Longrightarrow> adj_get adj u ! i \<notin> set path \<Longrightarrow>
   card (adj_nodes adj - insert (adj_get adj u ! i) (set path)) < card (adj_nodes adj - set path)"
proof -
  assume "i < length (adj_get adj u)" and nin: "adj_get adj u ! i \<notin> set path"
  then have "adj_get adj u ! i \<in> adj_nodes adj" by (intro adj_get_nodes [of _ adj u]) simp
  with nin show ?thesis by (intro psubset_card_mono) auto
qed

text \<open>
  \<open>dfs u parent path\<close>, and its loop over the neighbours of \<open>u\<close> from index \<open>i\<close> on, with \<open>u\<close> at the end of the path.
\<close>
function dfs :: "adjacency \<Rightarrow> (device_id list \<Rightarrow> device_id \<Rightarrow> search_state \<Rightarrow> search_state)
      \<Rightarrow> device_id \<Rightarrow> device_id \<Rightarrow> device_id list \<Rightarrow> search_state \<Rightarrow> search_state"
and dfs_from :: "adjacency \<Rightarrow> (device_id list \<Rightarrow> device_id \<Rightarrow> search_state \<Rightarrow> search_state)
      \<Rightarrow> device_id \<Rightarrow> device_id \<Rightarrow> device_id list \<Rightarrow> nat \<Rightarrow> search_state \<Rightarrow> search_state" where
  "dfs adj close u parent path st =
     dfs_from adj close u parent (path @ [u]) 0 (st\<lparr>ss_visited := insert u (ss_visited st)\<rparr>)"
| "dfs_from adj close u parent path i st =
     (if i < length (adj_get adj u)
      then let v = adj_get adj u ! i
           in dfs_from adj close u parent path (Suc i)
                (if v = parent then st
                 else if v \<in> set path then close path v st
                 else if v \<in> ss_visited st then st
                 else dfs adj close v u path st)
      else st)"
  by pat_completeness auto

termination
  by (relation "measures [\<lambda>x. case x of
        Inl (adj, c, u, p, path, st) \<Rightarrow> card (adj_nodes adj - insert u (set path))
      | Inr (adj, c, u, p, path, i, st) \<Rightarrow> card (adj_nodes adj - set path),
      \<lambda>x. case x of
        Inl (adj, c, u, p, path, st) \<Rightarrow> Suc (length (adj_get adj u))
      | Inr (adj, c, u, p, path, i, st) \<Rightarrow> length (adj_get adj u) - i]")
    (simp_all add: path_measure)

declare dfs.simps [simp del] dfs_from.simps [simp del]

definition link_by_pair :: "topoLink list \<Rightarrow> device_id \<times> device_id \<Rightarrow> topoLink option" where
  "link_by_pair links p = List.find (\<lambda>l. (tl_a l, tl_b l) = p) links"

definition findUndirectedCycles :: "adjacency \<Rightarrow> topoLink list \<Rightarrow> (device_id \<Rightarrow> string) \<Rightarrow> TopologyCycle list" where
  "findUndirectedCycles adj links names = ss_cycles (foldl (\<lambda>st u.
     if u \<in> ss_visited st then st else dfs adj (close_cycle (link_by_pair links) names) u (-1) [] st)
     \<lparr>ss_visited = {}, ss_cycles = [], ss_seen = []\<rparr> (sort (map fst adj)))"

section \<open>Loops of a graph\<close>

definition linked :: "adjacency \<Rightarrow> device_id \<Rightarrow> device_id \<Rightarrow> bool" where
  "linked adj x y \<longleftrightarrow> y \<in> set (adj_get adj x)"

text \<open>A loop runs through at least three different devices and back to the first.\<close>
definition is_loop :: "('a \<Rightarrow> 'a \<Rightarrow> bool) \<Rightarrow> 'a list \<Rightarrow> bool" where
  "is_loop E c \<longleftrightarrow> 3 \<le> length c \<and> distinct c \<and> (\<forall>i<length c. E (c ! i) (c ! (Suc i mod length c)))"

definition forest :: "('a \<Rightarrow> 'a \<Rightarrow> bool) \<Rightarrow> 'a set \<Rightarrow> bool" where
  "forest E S \<longleftrightarrow> (\<forall>c. set c \<subseteq> S \<longrightarrow> \<not> is_loop E c)"

lemma round_trip:
  assumes P: "P (i::nat)" "i < n" and step: "\<And>p. p < n \<Longrightarrow> P p \<Longrightarrow> P (Suc p mod n)" and q: "q < n"
  shows "P q"
proof -
  have n: "0 < n" using q by simp
  have "P ((i + k) mod n)" for k
  proof (induction k)
    case 0
    then show ?case using P by simp
  next
    case (Suc k)
    show ?case using step [OF _ Suc] n by (simp add: mod_Suc_eq)
  qed
  from this [of "q + n - i"] show ?thesis using P(2) q by simp
qed

lemma next_index_inj:
  assumes n: "3 \<le> (n::nat)" "p < n" "q < n" and qp: "q = Suc p mod n" and pq: "p = Suc q mod n" shows False
proof -
  have s: "Suc x mod n = (if Suc x = n then 0 else Suc x)" if "x < n" for x
    using that by (auto intro: mod_less)
  have "q = (if Suc p = n then 0 else Suc p)" "p = (if Suc q = n then 0 else Suc q)"
    by (rule trans [OF qp s [OF n(2)]], rule trans [OF pq s [OF n(3)]])
  then show False using n(1) by presburger
qed

text \<open>Two parts that are joined by a single edge: no loop crosses it.\<close>
lemma loop_one_side:
  assumes c: "is_loop E c" and sym: "\<And>x y. E x y \<Longrightarrow> E y x"
    and parts: "set c \<subseteq> A \<union> B" "A \<inter> B = {}"
    and cross: "\<And>x y. x \<in> A \<Longrightarrow> y \<in> B \<Longrightarrow> E x y \<Longrightarrow> x = u \<and> y = v"
  shows "set c \<subseteq> A \<or> set c \<subseteq> B"
proof (rule ccontr)
  let ?n = "length c" and ?s = "\<lambda>p. Suc p mod length c"
  assume "\<not> ?thesis"
  then obtain i j where i: "i < ?n" "c ! i \<notin> A" and j: "j < ?n" "c ! j \<notin> B"
    by (metis in_set_conv_nth subsetI)
  have n: "3 \<le> ?n" "distinct c" and E: "\<And>p. p < ?n \<Longrightarrow> E (c ! p) (c ! ?s p)" using c by (auto simp: is_loop_def)
  have s: "?s p < ?n" for p using n by (intro mod_less_divisor) linarith
  have mem: "c ! p \<in> A \<union> B" if "p < ?n" for p using parts that nth_mem by blast
  have "\<exists>p<?n. c ! p \<in> A \<and> c ! ?s p \<notin> A"
    using round_trip [of "\<lambda>p. c ! p \<in> A" j ?n i] i j mem by blast
  then obtain p where p: "p < ?n" "c ! p \<in> A" "c ! ?s p \<in> B" using mem s by blast
  have "\<exists>q<?n. c ! q \<in> B \<and> c ! ?s q \<notin> B"
    using round_trip [of "\<lambda>p. c ! p \<in> B" i ?n j] i j mem by blast
  then obtain q where q: "q < ?n" "c ! q \<in> B" "c ! ?s q \<in> A" using mem s by blast
  have "c ! p = u" "c ! ?s p = v" using cross [OF p(2,3) E [OF p(1)]] by auto
  moreover have "c ! ?s q = u" "c ! q = v" using cross [OF q(3,2) sym [OF E [OF q(1)]]] by auto
  ultimately have "p = ?s q" "q = ?s p" using n(2) p(1) q(1) s nth_eq_iff_index_eq by metis+
  then show False using next_index_inj [OF n(1) p(1) q(1)] by blast
qed

lemma forest_join:
  assumes "forest E A" "forest E B" "\<And>x y. E x y \<Longrightarrow> E y x" "A \<inter> B = {}"
    and "\<And>x y. x \<in> A \<Longrightarrow> y \<in> B \<Longrightarrow> E x y \<Longrightarrow> x = u \<and> y = v"
  shows "forest E (A \<union> B)"
  unfolding forest_def
proof (intro allI impI notI)
  fix c assume "set c \<subseteq> A \<union> B" "is_loop E c"
  with assms show False using loop_one_side [of E c A B u v] unfolding forest_def by blast
qed

lemma forest_single: "forest E {u}"
proof -
  have "\<not> 3 \<le> length c" if "set c \<subseteq> {u}" "distinct c" for c
    using that card_mono [of "{u}" "set c"] distinct_card [of c] by simp
  then show ?thesis by (auto simp: forest_def is_loop_def)
qed

lemma loop_of_path:
  assumes "successively E c" "distinct c" "3 \<le> length c" "E (last c) (hd c)"
  shows "is_loop E c"
  unfolding is_loop_def
proof (intro conjI allI impI)
  fix i assume i: "i < length c"
  show "E (c ! i) (c ! (Suc i mod length c))"
  proof (cases "Suc i = length c")
    case True
    then have "c ! i = last c" using assms(3) by (metis diff_Suc_1 last_conv_nth list.size(3) not_numeral_le_zero)
    moreover have "c ! 0 = hd c" using assms(3) by (cases c) auto
    ultimately show ?thesis using True assms(4) by simp
  qed (use i assms(1) in \<open>auto simp: successively_conv_nth\<close>)
qed (use assms in auto)

section \<open>The search finds a loop where there is one\<close>

definition sound_state :: "adjacency \<Rightarrow> search_state \<Rightarrow> bool" where
  "sound_state adj st \<longleftrightarrow> (\<forall>c\<in>set (ss_cycles st). is_loop (linked adj) (tc_DeviceIDs c))
     \<and> set (ss_seen st) = (cycleKey \<circ> tc_DeviceIDs) ` set (ss_cycles st)
     \<and> distinct (map (cycleKey \<circ> tc_DeviceIDs) (ss_cycles st))"

definition trail_ok :: "adjacency \<Rightarrow> device_id \<Rightarrow> device_id list \<Rightarrow> bool" where
  "trail_ok adj parent path \<longleftrightarrow> path \<noteq> [] \<and> distinct path \<and> successively (linked adj) path
     \<and> parent = (if butlast path = [] then -1 else last (butlast path))"

definition closed_but :: "adjacency \<Rightarrow> device_id set \<Rightarrow> device_id set \<Rightarrow> bool" where
  "closed_but adj F S \<longleftrightarrow> (\<forall>x\<in>S - F. \<forall>y. linked adj x y \<longrightarrow> y \<in> S)"

text \<open>What the search has added since it came to \<open>u\<close>, when it has found no loop: a tree that hangs on \<open>parent\<close>.\<close>
definition tree_part :: "adjacency \<Rightarrow> device_id \<Rightarrow> device_id \<Rightarrow> device_id set \<Rightarrow> device_id set \<Rightarrow> nat \<Rightarrow> bool" where
  "tree_part adj u parent S0 S n \<longleftrightarrow> forest (linked adj) (S - S0)
     \<and> (\<forall>x\<in>S - S0. x \<noteq> u \<longrightarrow> (\<forall>y\<in>S0. \<not> linked adj x y))
     \<and> (\<forall>j<n. adj_get adj u ! j \<in> S0 \<longrightarrow> adj_get adj u ! j = parent)"

lemma linked_nth: "linked adj u v \<longleftrightarrow> (\<exists>j<length (adj_get adj u). adj_get adj u ! j = v)"
  by (auto simp: linked_def in_set_conv_nth)

lemma materialized: "materializeCycle p L nm = Some c \<Longrightarrow> tc_DeviceIDs c = p \<and> 3 \<le> length p"
  by (auto simp: materializeCycle_def Let_def split: if_splits)

lemma materialized_iff: "materializeCycle p L nm = None \<longleftrightarrow> length p < 3"
  by (simp add: materializeCycle_def Let_def)

lemma dropWhile_split: "v \<in> set p \<Longrightarrow> \<exists>a b. p = a @ v # b \<and> v \<notin> set a \<and> dropWhile (\<lambda>x. x \<noteq> v) p = v # b"
proof -
  assume "v \<in> set p"
  then obtain a b where "p = a @ v # b" "v \<notin> set a" using split_list_first by metis
  moreover have "v \<notin> set a \<Longrightarrow> dropWhile (\<lambda>x. x \<noteq> v) (a @ v # b) = v # b" for a by (induction a) auto
  ultimately show ?thesis by blast
qed

lemma close_cycle_grows:
  "\<exists>cs. ss_cycles (close_cycle L nm path v st) = ss_cycles st @ cs"
  "ss_visited (close_cycle L nm path v st) = ss_visited st"
  by (auto simp: close_cycle_def split: option.split)

lemma close_cycle_sound:
  assumes "sound_state adj st" "trail_ok adj parent path" "linked adj (last path) v" "v \<in> set path"
  shows "sound_state adj (close_cycle L nm path v st)"
proof -
  obtain a b where p: "path = a @ v # b" "dropWhile (\<lambda>x. x \<noteq> v) path = v # b" using dropWhile_split [OF assms(4)] by blast
  have "successively (linked adj) (v # b)" "distinct (v # b)" "last (v # b) = last path"
    using assms(2) by (auto simp: p(1) trail_ok_def successively_append_iff)
  then have "3 \<le> length (v # b) \<Longrightarrow> is_loop (linked adj) (v # b)"
    using assms(3) by (intro loop_of_path) auto
  then show ?thesis using assms(1)
    by (auto simp: close_cycle_def p(2) sound_state_def dest: materialized split: option.split)
qed

lemma close_cycle_found:
  assumes "trail_ok adj parent path" "v \<in> set path" "v \<noteq> last path" "v \<noteq> parent" "sound_state adj st"
  shows "ss_cycles (close_cycle L nm path v st) \<noteq> []"
proof -
  obtain a b where p: "path = a @ v # b" "dropWhile (\<lambda>x. x \<noteq> v) path = v # b" using dropWhile_split [OF assms(2)] by blast
  have "b \<noteq> []" using assms(3) by (auto simp: p(1))
  moreover have "butlast b \<noteq> []"
  proof
    assume "butlast b = []"
    with \<open>b \<noteq> []\<close> obtain w where "b = [w]" by (cases b) (auto split: if_splits)
    then show False using assms(1,4) by (simp add: trail_ok_def p(1) butlast_append)
  qed
  ultimately have "3 \<le> length (v # b)" by (cases b rule: rev_cases) (auto simp: Suc_le_eq)
  then have "materializeCycle (v # b) L nm \<noteq> None" by (simp add: materialized_iff del: length_Cons)
  then obtain c where c: "materializeCycle (v # b) L nm = Some c" by blast
  show ?thesis using assms(5) by (auto simp: close_cycle_def p(2) c sound_state_def)
qed

definition dfs_spec :: "adjacency \<Rightarrow> device_id \<Rightarrow> device_id \<Rightarrow> device_id list \<Rightarrow> search_state \<Rightarrow> search_state \<Rightarrow> bool" where
  "dfs_spec adj u parent path st st' \<longleftrightarrow> ss_visited st \<subseteq> ss_visited st' \<and> u \<in> ss_visited st'
     \<and> closed_but adj (set path) (ss_visited st') \<and> sound_state adj st'
     \<and> (\<exists>cs. ss_cycles st' = ss_cycles st @ cs)
     \<and> (ss_cycles st' = [] \<longrightarrow> tree_part adj u parent (ss_visited st) (ss_visited st') (length (adj_get adj u)))"

definition nbrs_seen :: "adjacency \<Rightarrow> device_id \<Rightarrow> nat \<Rightarrow> device_id set \<Rightarrow> bool" where
  "nbrs_seen adj u i S \<longleftrightarrow> (\<forall>j<i. j < length (adj_get adj u) \<longrightarrow> adj_get adj u ! j \<in> S)"

text \<open>In the middle of the loop over the neighbours of \<open>u\<close>, which had been reached with the devices \<open>S0\<close> visited.\<close>
definition scan_inv :: "adjacency \<Rightarrow> device_id \<Rightarrow> device_id \<Rightarrow> device_id list \<Rightarrow> device_id set \<Rightarrow> nat \<Rightarrow> search_state \<Rightarrow> bool" where
  "scan_inv adj u parent path S0 i st \<longleftrightarrow> trail_ok adj parent path \<and> last path = u \<and> u \<notin> S0 \<and> S0 \<subseteq> ss_visited st
     \<and> set (butlast path) \<subseteq> S0 \<and> u \<in> ss_visited st \<and> closed_but adj (set (butlast path)) S0
     \<and> closed_but adj (set path) (ss_visited st) \<and> nbrs_seen adj u i (ss_visited st)
     \<and> sound_state adj st \<and> (ss_cycles st = [] \<longrightarrow> tree_part adj u parent S0 (ss_visited st) i)"

lemma set_butlast_path:
  assumes "trail_ok adj parent path" shows "set path = insert (last path) (set (butlast path))"
proof -
  have "set path = set (butlast path @ [last path])" using assms by (simp add: trail_ok_def append_butlast_last_id)
  then show ?thesis unfolding set_append by simp
qed

lemma tree_part_start: "u \<notin> S0 \<Longrightarrow> tree_part adj u parent S0 (insert u S0) 0"
proof -
  assume "u \<notin> S0"
  then have "insert u S0 - S0 = {u}" by auto
  then show ?thesis by (simp add: tree_part_def forest_single)
qed

lemma scan_start:
  assumes "u \<notin> ss_visited st" "set path \<subseteq> ss_visited st" "trail_ok adj parent (path @ [u])"
    "closed_but adj (set path) (ss_visited st)" "sound_state adj st"
  shows "scan_inv adj u parent (path @ [u]) (ss_visited st) 0 (st\<lparr>ss_visited := insert u (ss_visited st)\<rparr>)"
proof -
  have "closed_but adj (set (path @ [u])) (insert u (ss_visited st))" using assms(4) by (auto simp: closed_but_def)
  moreover have "sound_state adj (st\<lparr>ss_visited := insert u (ss_visited st)\<rparr>)" using assms(5) by (simp add: sound_state_def)
  moreover note tree_part_start [OF assms(1), of adj parent]
  ultimately show ?thesis unfolding scan_inv_def
    using assms(1,2,3,4) by (intro conjI allI impI) (simp_all add: subset_insertI nbrs_seen_def)
qed

lemma scan_invD:
  assumes "scan_inv adj u parent path S0 i st"
  shows "trail_ok adj parent path" "last path = u" "u \<notin> S0" "S0 \<subseteq> ss_visited st"
    "set (butlast path) \<subseteq> S0" "u \<in> ss_visited st" "closed_but adj (set (butlast path)) S0"
    "closed_but adj (set path) (ss_visited st)"
    "nbrs_seen adj u i (ss_visited st)"
    "sound_state adj st" "ss_cycles st = [] \<Longrightarrow> tree_part adj u parent S0 (ss_visited st) i"
  using assms by (simp_all only: scan_inv_def simp_thms)

lemma scan_end:
  assumes "scan_inv adj u parent (path @ [u]) S0 i st" "length (adj_get adj u) \<le> i"
  shows "closed_but adj (set path) (ss_visited st)"
proof -
  note all = scan_invD(9) [OF assms(1)] and cl = scan_invD(8) [OF assms(1)]
  have seen: "adj_get adj u ! j \<in> ss_visited st" if "j < length (adj_get adj u)" for j
  proof -
    have "j < i" using that assms(2) by simp
    then show ?thesis using all that unfolding nbrs_seen_def by blast
  qed
  have next_seen: "y \<in> ss_visited st" if "linked adj u y" for y
  proof -
    from that obtain j where "j < length (adj_get adj u)" "adj_get adj u ! j = y" unfolding linked_nth by blast
    with seen [of j] show ?thesis by simp
  qed
  show ?thesis unfolding closed_but_def
  proof (intro ballI allI impI)
    fix x y assume x: "x \<in> ss_visited st - set path" and y: "linked adj x y"
    show "y \<in> ss_visited st"
    proof (cases "x = u")
      case True
      with y next_seen show ?thesis by blast
    next
      case False
      with x have "x \<in> ss_visited st - set (path @ [u])" by simp
      with cl y show ?thesis unfolding closed_but_def by blast
    qed
  qed
qed

lemma nbrs_seen_Suc: "nbrs_seen adj u i S \<Longrightarrow> adj_get adj u ! i \<in> S \<Longrightarrow> nbrs_seen adj u (Suc i) S"
  by (simp add: nbrs_seen_def less_Suc_eq)

lemma nbrs_seen_mono: "nbrs_seen adj u i S \<Longrightarrow> S \<subseteq> S' \<Longrightarrow> nbrs_seen adj u i S'"
  unfolding nbrs_seen_def by blast

lemma tree_part_Suc:
  "tree_part adj u parent S0 S i \<Longrightarrow> adj_get adj u ! i \<in> S0 \<longrightarrow> adj_get adj u ! i = parent
   \<Longrightarrow> tree_part adj u parent S0 S (Suc i)"
  by (simp add: tree_part_def less_Suc_eq)

lemma scan_keep:
  assumes inv: "scan_inv adj u parent path S0 i st" and vis: "ss_visited st' = ss_visited st"
    and cycles: "ss_cycles st' = ss_cycles st @ cs" and sound: "sound_state adj st'"
    and seen: "adj_get adj u ! i \<in> ss_visited st"
    and old: "ss_cycles st' = [] \<Longrightarrow> adj_get adj u ! i \<in> S0 \<Longrightarrow> adj_get adj u ! i = parent"
  shows "scan_inv adj u parent path S0 (Suc i) st'"
proof -
  note d = scan_invD [OF inv]
  have "ss_cycles st' = [] \<longrightarrow> tree_part adj u parent S0 (ss_visited st) (Suc i)"
    using old cycles d(11) by (intro impI tree_part_Suc) auto
  then show ?thesis unfolding scan_inv_def vis
    using d(1-8,10) sound nbrs_seen_Suc [OF d(9) seen] by (simp only: simp_thms)
qed

lemma tree_part_grow:
  assumes t: "tree_part adj u parent S0 S i" and n: "tree_part adj v u S S' n" and n_ge: "length (adj_get adj v) \<le> n"
    and sym: "symmetric adj" and sub: "S0 \<subseteq> S" "S \<subseteq> S'" and u: "u \<in> S" "u \<notin> S0"
  shows "tree_part adj u parent S0 S' i"
proof -
  have sy: "linked adj x y \<Longrightarrow> linked adj y x" for x y using sym by (auto simp: symmetric_def linked_def)
  have cross: "x = v \<and> y = u" if xy: "x \<in> S' - S" "y \<in> S" "linked adj x y" for x y
  proof -
    have x: "x = v" using n xy unfolding tree_part_def by blast
    from xy(3) obtain j where j: "j < length (adj_get adj v)" "adj_get adj v ! j = y" unfolding x linked_nth by blast
    then have "j < n" using n_ge by simp
    then have "adj_get adj v ! j \<in> S \<Longrightarrow> adj_get adj v ! j = u" using n unfolding tree_part_def by blast
    then have "y = u" unfolding j(2) using xy(2) by blast
    with x show ?thesis by blast
  qed
  have "forest (linked adj) ((S' - S) \<union> (S - S0))"
  proof (rule forest_join [OF _ _ sy _ cross])
    show "forest (linked adj) (S' - S)" using n unfolding tree_part_def by (elim conjE)
    show "forest (linked adj) (S - S0)" using t unfolding tree_part_def by (elim conjE)
  qed auto
  moreover have "(S' - S) \<union> (S - S0) = S' - S0" using sub by blast
  ultimately have f: "forest (linked adj) (S' - S0)" by simp
  have "\<not> linked adj x y" if "x \<in> S' - S0" "x \<noteq> u" "y \<in> S0" for x y
  proof (cases "x \<in> S")
    case True
    then show ?thesis using t that unfolding tree_part_def by blast
  next
    case False
    then show ?thesis using cross [of x y] that sub(1) u(2) by blast
  qed
  with f t show ?thesis unfolding tree_part_def by blast
qed

lemma scan_new:
  assumes inv: "scan_inv adj u parent path S0 i st" and sym: "symmetric adj"
    and v: "adj_get adj u ! i = v" "v \<notin> ss_visited st" and spec: "dfs_spec adj v u path st st'"
  shows "scan_inv adj u parent path S0 (Suc i) st'"
proof -
  note d = scan_invD [OF inv]
  from spec have s: "ss_visited st \<subseteq> ss_visited st'" "v \<in> ss_visited st'" "closed_but adj (set path) (ss_visited st')"
      "sound_state adj st'"
    by (simp_all only: dfs_spec_def)
  from spec have t: "ss_cycles st' = [] \<longrightarrow> tree_part adj v u (ss_visited st) (ss_visited st') (length (adj_get adj v))"
    unfolding dfs_spec_def by (elim conjE)
  from spec obtain cs where cs: "ss_cycles st' = ss_cycles st @ cs" unfolding dfs_spec_def by blast
  have "ss_cycles st' = [] \<longrightarrow> tree_part adj u parent S0 (ss_visited st') (Suc i)"
  proof (rule impI, rule tree_part_Suc)
    assume none: "ss_cycles st' = []"
    show "tree_part adj u parent S0 (ss_visited st') i"
      using none cs t d(11) by (intro tree_part_grow [OF _ _ order.refl sym d(4) s(1) d(6,3)]) auto
    show "adj_get adj u ! i \<in> S0 \<longrightarrow> adj_get adj u ! i = parent" using v d(4) by blast
  qed
  moreover have "nbrs_seen adj u (Suc i) (ss_visited st')"
    using nbrs_seen_Suc [OF nbrs_seen_mono [OF d(9) s(1)]] s(2) v(1) by simp
  ultimately show ?thesis unfolding scan_inv_def
    using d(1-3,5,7) subset_trans [OF d(4) s(1)] subsetD [OF s(1) d(6)] s(3,4) by (simp only: simp_thms)
qed

lemma path_visited: "scan_inv adj u parent path S0 i st \<Longrightarrow> set path \<subseteq> ss_visited st"
  using set_butlast_path scan_invD by (metis insert_subset subset_trans)

lemma scan_parent:
  assumes inv: "scan_inv adj u parent path S0 i st" and i: "i < length (adj_get adj u)" "adj_get adj u ! i = parent"
    and neg: "-1 \<notin> adj_nodes adj"
  shows "scan_inv adj u parent path S0 (Suc i) st"
proof -
  note d = scan_invD [OF inv]
  have "parent \<in> adj_nodes adj" using i adj_get_nodes [of parent adj u] nth_mem by metis
  then have "parent \<noteq> -1" using neg by blast
  then have "butlast path \<noteq> []" "parent = last (butlast path)" using d(1) by (auto simp: trail_ok_def split: if_splits)
  then have "parent \<in> ss_visited st" using d(4,5) last_in_set by blast
  then show ?thesis using i(2) d(10) by (intro scan_keep [OF inv, of _ "[]"]) auto
qed

lemma scan_close:
  assumes inv: "scan_inv adj u parent path S0 i st" and i: "i < length (adj_get adj u)" "adj_get adj u ! i = v"
    and v: "v \<noteq> parent" "v \<in> set path"
  shows "scan_inv adj u parent path S0 (Suc i) (close_cycle L nm path v st)"
proof -
  note d = scan_invD [OF inv]
  obtain cs where cs: "ss_cycles (close_cycle L nm path v st) = ss_cycles st @ cs" using close_cycle_grows(1) by blast
  have uv: "linked adj (last path) v" using i d(2) by (auto simp: linked_nth)
  show ?thesis
  proof (rule scan_keep [OF inv close_cycle_grows(2) cs])
    show "sound_state adj (close_cycle L nm path v st)" by (rule close_cycle_sound [OF d(10,1) uv v(2)])
    show "adj_get adj u ! i \<in> ss_visited st" using v(2) i(2) path_visited [OF inv] by blast
    assume "ss_cycles (close_cycle L nm path v st) = []" and old: "adj_get adj u ! i \<in> S0"
    then have "v = last path" using close_cycle_found [OF d(1) v(2) _ v(1) d(10)] by blast
    then show "adj_get adj u ! i = parent" using old i(2) d(2,3) by simp
  qed
qed

lemma scan_done:
  assumes inv: "scan_inv adj u parent path S0 i st" and i: "i < length (adj_get adj u)" "adj_get adj u ! i = v"
    and v: "v \<notin> set path" "v \<in> ss_visited st" and sym: "symmetric adj"
  shows "scan_inv adj u parent path S0 (Suc i) st"
proof -
  note d = scan_invD [OF inv]
  have "linked adj u v" using i by (auto simp: linked_nth)
  then have vu: "linked adj v u" using sym by (simp add: linked_def symmetric_def)
  have "v \<notin> S0"
  proof
    assume "v \<in> S0"
    moreover have "v \<notin> set (butlast path)" using v(1) in_set_butlastD by metis
    ultimately have "u \<in> S0" using d(7) vu unfolding closed_but_def by blast
    with d(3) show False by blast
  qed
  then show ?thesis using i(2) v(2) d(10) by (intro scan_keep [OF inv, of _ "[]"]) auto
qed

lemma trail_extend:
  assumes inv: "scan_inv adj u parent path S0 i st" and i: "i < length (adj_get adj u)" "adj_get adj u ! i = v"
    and v: "v \<notin> set path"
  shows "trail_ok adj u (path @ [v])"
proof -
  note d = scan_invD [OF inv]
  have "linked adj (last path) v" using i d(2) by (auto simp: linked_nth)
  then show ?thesis using d(1,2) v by (auto simp: trail_ok_def successively_append_iff)
qed

definition scan_spec :: "adjacency \<Rightarrow> device_id \<Rightarrow> device_id \<Rightarrow> device_id list \<Rightarrow> device_id set \<Rightarrow> search_state \<Rightarrow> search_state \<Rightarrow> bool" where
  "scan_spec adj u parent path S0 st st' \<longleftrightarrow> ss_visited st \<subseteq> ss_visited st' \<and> (\<exists>cs. ss_cycles st' = ss_cycles st @ cs)
     \<and> (\<exists>i\<ge>length (adj_get adj u). scan_inv adj u parent path S0 i st')"

lemma scan_spec_step:
  "ss_visited st \<subseteq> ss_visited st1 \<Longrightarrow> ss_cycles st1 = ss_cycles st @ cs \<Longrightarrow> scan_spec adj u parent path S0 st1 st'
   \<Longrightarrow> scan_spec adj u parent path S0 st st'"
  unfolding scan_spec_def by auto

lemma dfs_spec_of_scan:
  assumes "scan_spec adj u parent (path @ [u]) (ss_visited st) (st\<lparr>ss_visited := insert u (ss_visited st)\<rparr>) st'"
  shows "dfs_spec adj u parent path st st'"
proof -
  from assms have sub: "insert u (ss_visited st) \<subseteq> ss_visited st'" and cs: "\<exists>cs. ss_cycles st' = ss_cycles st @ cs"
    by (simp_all add: scan_spec_def)
  from assms obtain i where i: "length (adj_get adj u) \<le> i" and inv: "scan_inv adj u parent (path @ [u]) (ss_visited st) i st'"
    unfolding scan_spec_def by blast
  have "ss_cycles st' = [] \<longrightarrow> tree_part adj u parent (ss_visited st) (ss_visited st') (length (adj_get adj u))"
    using scan_invD(11) [OF inv] i unfolding tree_part_def by (auto dest: order_less_le_trans)
  moreover have "u \<in> ss_visited st'" "ss_visited st \<subseteq> ss_visited st'" using sub by auto
  ultimately show ?thesis using cs scan_end [OF inv i] scan_invD(10) [OF inv]
    unfolding dfs_spec_def by (intro conjI)
qed

lemma dfs_correct:
  assumes sym: "symmetric adj" and neg: "-1 \<notin> adj_nodes adj"
  shows "close = close_cycle L nm \<Longrightarrow> adj' = adj \<Longrightarrow> u \<notin> ss_visited st \<Longrightarrow> set path \<subseteq> ss_visited st \<Longrightarrow> trail_ok adj parent (path @ [u])
      \<Longrightarrow> closed_but adj (set path) (ss_visited st) \<Longrightarrow> sound_state adj st
      \<Longrightarrow> dfs_spec adj u parent path st (dfs adj' close u parent path st)"
    and "close = close_cycle L nm \<Longrightarrow> adj' = adj \<Longrightarrow> scan_inv adj u parent path S0 i st
      \<Longrightarrow> scan_spec adj u parent path S0 st (dfs_from adj' close u parent path i st)"
proof (induction adj' close u parent path st and adj' close u parent path i st arbitrary: and S0 rule: dfs_dfs_from.induct)
  case (1 adj' close u parent path st)
  have "scan_inv adj u parent (path @ [u]) (ss_visited st) 0 (st\<lparr>ss_visited := insert u (ss_visited st)\<rparr>)"
    by (rule scan_start [OF 1(4-8)])
  from 1(1) [OF 1(2,3) this] show ?case unfolding dfs.simps [of adj'] by (rule dfs_spec_of_scan)
next
  case (2 adj' close u parent path i st)
  note inv = 2(5) and step = dfs_from.simps [of adj' close u parent path i st]
  show ?case
  proof (cases "i < length (adj_get adj u)")
    case False
    then have "dfs_from adj' close u parent path i st = st" using 2(4) by (subst step) simp
    then show ?thesis using inv False unfolding scan_spec_def by (auto intro: exI [of _ i])
  next
    case i: True
    define v where "v = adj_get adj' u ! i"
    define st1 where "st1 = (if v = parent then st else if v \<in> set path then close path v st
                 else if v \<in> ss_visited st then st else dfs adj' close v u path st)"
    have v: "adj_get adj u ! i = v" using 2(4) by (simp add: v_def)
    have next_state: "dfs_from adj' close u parent path i st = dfs_from adj' close u parent path (Suc i) st1"
      using i unfolding st1_def v_def 2(4) by (subst dfs_from.simps) (simp add: Let_def)
    have rec: "dfs_spec adj v u path st (dfs adj' close v u path st)"
      if "v \<noteq> parent" "v \<notin> set path" "v \<notin> ss_visited st"
      using 2(1) [OF _ v_def that(1,2,3) 2(3,4) that(3) path_visited [OF inv] trail_extend [OF inv i v that(2)]
          scan_invD(8,10) [OF inv]] i 2(4) by simp
    have "scan_inv adj u parent path S0 (Suc i) st1"
      using scan_parent [OF inv i _ neg] scan_close [OF inv i v] scan_done [OF inv i v _ _ sym]
        scan_new [OF inv sym v _ rec] v unfolding st1_def 2(3) by (auto split: if_splits)
    moreover have "ss_visited st \<subseteq> ss_visited st1 \<and> (\<exists>cs. ss_cycles st1 = ss_cycles st @ cs)"
      using rec close_cycle_grows unfolding st1_def 2(3) dfs_spec_def by auto
    ultimately show ?thesis
      using 2(2) [OF _ v_def 2(3,4)] i 2(4) scan_spec_step unfolding next_state st1_def by blast
  qed
qed

definition top_inv :: "adjacency \<Rightarrow> search_state \<Rightarrow> bool" where
  "top_inv adj st \<longleftrightarrow> closed_but adj {} (ss_visited st) \<and> sound_state adj st
     \<and> (ss_cycles st = [] \<longrightarrow> forest (linked adj) (ss_visited st))"

lemma top_step:
  assumes sym: "symmetric adj" and neg: "-1 \<notin> adj_nodes adj" and inv: "top_inv adj st" and u: "u \<notin> ss_visited st"
  shows "top_inv adj (dfs adj (close_cycle L nm) u (-1) [] st)" (is "top_inv adj ?st")
    and "insert u (ss_visited st) \<subseteq> ss_visited (dfs adj (close_cycle L nm) u (-1) [] st)"
proof -
  have spec: "dfs_spec adj u (-1) [] st ?st"
    using inv u by (intro dfs_correct(1) [OF sym neg refl refl]) (auto simp: trail_ok_def top_inv_def)
  then show "insert u (ss_visited st) \<subseteq> ss_visited ?st" by (auto simp: dfs_spec_def)
  from spec obtain cs where cs: "ss_cycles ?st = ss_cycles st @ cs" unfolding dfs_spec_def by blast
  have sub: "ss_visited st \<subseteq> ss_visited ?st" using spec unfolding dfs_spec_def by (elim conjE)
  have "forest (linked adj) (ss_visited ?st)" if none: "ss_cycles ?st = []"
  proof -
    have t: "tree_part adj u (-1) (ss_visited st) (ss_visited ?st) (length (adj_get adj u))"
      using spec none unfolding dfs_spec_def by blast
    have cross: "\<not> linked adj x y" if xy: "x \<in> ss_visited ?st - ss_visited st" "y \<in> ss_visited st" for x y
    proof
      assume l: "linked adj x y"
      then have x: "x = u" using t xy unfolding tree_part_def by blast
      with l obtain j where "j < length (adj_get adj u)" "adj_get adj u ! j = y" unfolding linked_nth by blast
      then have "y = -1" using t xy(2) unfolding tree_part_def by blast
      then show False using l neg adj_get_nodes unfolding linked_def by blast
    qed
    have "forest (linked adj) ((ss_visited ?st - ss_visited st) \<union> ss_visited st)"
    proof (rule forest_join [of _ _ _ u u])
      show "forest (linked adj) (ss_visited ?st - ss_visited st)" using t unfolding tree_part_def by (elim conjE)
      show "forest (linked adj) (ss_visited st)" using inv none cs by (simp add: top_inv_def)
    qed (use sym cross in \<open>auto simp: linked_def symmetric_def\<close>)
    then show ?thesis using sub by (simp add: Un_absorb2)
  qed
  then show "top_inv adj ?st" using spec by (simp add: top_inv_def dfs_spec_def)
qed

lemma top_fold:
  assumes "symmetric adj" "-1 \<notin> adj_nodes adj"
  shows "top_inv adj st \<Longrightarrow> st' = foldl (\<lambda>st u. if u \<in> ss_visited st then st else dfs adj (close_cycle L nm) u (-1) [] st) st us
    \<Longrightarrow> top_inv adj st' \<and> set us \<union> ss_visited st \<subseteq> ss_visited st'"
proof (induction us arbitrary: st)
  case (Cons u us)
  define st1 where "st1 = (if u \<in> ss_visited st then st else dfs adj (close_cycle L nm) u (-1) [] st)"
  have "top_inv adj st1" "insert u (ss_visited st) \<subseteq> ss_visited st1"
    using Cons.prems(1) top_step [OF assms Cons.prems(1), of u L nm] by (auto simp: st1_def)
  moreover from this(1) Cons.prems(2) have "top_inv adj st' \<and> set us \<union> ss_visited st1 \<subseteq> ss_visited st'"
    by (intro Cons.IH [of st1]) (simp_all add: st1_def)
  ultimately show ?case by auto
qed simp

lemma adj_get_key: "v \<in> set (adj_get adj u) \<Longrightarrow> u \<in> set (map fst adj)"
proof -
  assume "v \<in> set (adj_get adj u)"
  then have "map_of adj u \<noteq> None" by (cases "map_of adj u") (simp_all add: adj_get_def)
  then show ?thesis by (simp add: map_of_eq_None_iff)
qed

lemma findUndirectedCycles_spec:
  assumes "symmetric adj" "-1 \<notin> adj_nodes adj"
  shows "(\<forall>c\<in>set (findUndirectedCycles adj links nm). is_loop (linked adj) (tc_DeviceIDs c))
    \<and> distinct (map (cycleKey \<circ> tc_DeviceIDs) (findUndirectedCycles adj links nm))
    \<and> (findUndirectedCycles adj links nm = [] \<longleftrightarrow> (\<nexists>p. is_loop (linked adj) p))"
proof -
  define st where "st = foldl (\<lambda>st u. if u \<in> ss_visited st then st
      else dfs adj (close_cycle (link_by_pair links) nm) u (-1) [] st)
     \<lparr>ss_visited = {}, ss_cycles = [], ss_seen = []\<rparr> (sort (map fst adj))"
  have "top_inv adj \<lparr>ss_visited = {}, ss_cycles = [], ss_seen = []\<rparr>"
    by (simp add: top_inv_def closed_but_def sound_state_def forest_def is_loop_def)
  from top_fold [OF assms this st_def]
  have inv: "top_inv adj st" and all: "set (map fst adj) \<subseteq> ss_visited st" by simp_all
  have f: "findUndirectedCycles adj links nm = ss_cycles st" by (simp add: findUndirectedCycles_def st_def)
  have sound: "sound_state adj st" using inv by (simp add: top_inv_def)
  have none: "\<nexists>p. is_loop (linked adj) p" if "ss_cycles st = []"
  proof
    assume "\<exists>p. is_loop (linked adj) p"
    then obtain p where p: "is_loop (linked adj) p" by blast
    have "x \<in> ss_visited st" if "x \<in> set p" for x
    proof -
      from that obtain i where "i < length p" "p ! i = x" by (auto simp: in_set_conv_nth)
      then have "linked adj x (p ! (Suc i mod length p))" using p by (auto simp: is_loop_def)
      then have "x \<in> set (map fst adj)" unfolding linked_def by (rule adj_get_key)
      then show ?thesis using all by blast
    qed
    then show False using p inv that unfolding top_inv_def forest_def by blast
  qed
  have some: "\<exists>p. is_loop (linked adj) p" if "ss_cycles st \<noteq> []"
  proof -
    from that have "hd (ss_cycles st) \<in> set (ss_cycles st)" by simp
    with sound show ?thesis unfolding sound_state_def by blast
  qed
  show ?thesis unfolding f using sound none some unfolding sound_state_def by blast
qed

section \<open>The graph that is searched\<close>

lemma pushed_pairs:
  assumes "st' = foldl (\<lambda>st l. add_pair (tl_a l) (tl_b l) st) st ls"
    "\<forall>x y. linked (fst st) x y \<longleftrightarrow> (x, y) \<in> set (snd st) \<or> (y, x) \<in> set (snd st)"
  shows "(\<forall>x y. linked (fst st') x y \<longleftrightarrow> (x, y) \<in> set (snd st') \<or> (y, x) \<in> set (snd st'))
    \<and> set (snd st') = set (snd st) \<union> (\<lambda>l. (tl_a l, tl_b l)) ` set ls"
  using assms
proof (induction ls arbitrary: st)
  case (Cons l ls)
  obtain adj seen where st: "st = (adj, seen)" by (cases st)
  have *: "\<forall>x y. linked (fst (add_pair (tl_a l) (tl_b l) st)) x y \<longleftrightarrow>
      (x, y) \<in> set (snd (add_pair (tl_a l) (tl_b l) st)) \<or> (y, x) \<in> set (snd (add_pair (tl_a l) (tl_b l) st))"
    using Cons.prems(2) by (auto simp: st add_pair_def linked_def adj_get_push)
  have "set (snd (add_pair (tl_a l) (tl_b l) st)) = insert (tl_a l, tl_b l) (set seen)"
    by (auto simp: st add_pair_def)
  with Cons.IH [OF _ *] Cons.prems(1) show ?case by (auto simp: st)
qed auto

lemma adj_get_sorted: "adj_get (sort_neighbours adj) u = sort (adj_get adj u)"
  by (induction adj) (auto simp: sort_neighbours_def adj_get_def)

lemma linked_links_graph:
  "linked (links_graph ls) x y \<longleftrightarrow> (\<exists>l\<in>set ls. (x = tl_a l \<and> y = tl_b l) \<or> (x = tl_b l \<and> y = tl_a l))"
proof -
  have "\<forall>x y. linked (fst ([], [])) x y \<longleftrightarrow> (x, y) \<in> set (snd ([], [])) \<or> (y, x) \<in> set (snd ([] :: adjacency, []))"
    by (simp add: linked_def adj_get_def)
  from pushed_pairs [OF refl this, of ls] show ?thesis
    unfolding links_graph_def linked_def adj_get_sorted set_sort by (force simp: linked_def [symmetric])
qed

lemma symmetric_links_graph: "symmetric (links_graph ls)"
  using linked_links_graph unfolding symmetric_def linked_def by blast

section \<open>The key of a loop\<close>

text \<open>The same loop, read from another device on or in the other direction\<close>
definition same_loop :: "'a list \<Rightarrow> 'a list \<Rightarrow> bool" where
  "same_loop c d \<longleftrightarrow> (\<exists>k. d = rotate k c \<or> d = rotate k (rev c))"

lemma min_index_least:
  "n \<le> length (ids :: int list) \<Longrightarrow> 0 < n \<Longrightarrow>
   (let m = foldl (\<lambda>m i. if ids ! i < ids ! m then i else m) 0 [1..<n] in m < n \<and> (\<forall>i<n. ids ! m \<le> ids ! i))"
proof (induction n)
  case (Suc n)
  show ?case
  proof (cases "n = 0")
    case False
    with Suc show ?thesis by (auto simp: Let_def less_Suc_eq)
  qed (simp add: Let_def)
qed simp

lemma min_index_Min: "ids \<noteq> [] \<Longrightarrow> min_index ids < length ids \<and> ids ! min_index ids = Min (set ids)"
proof -
  assume ne: "ids \<noteq> []"
  have "min_index ids < length ids \<and> (\<forall>i<length ids. ids ! min_index ids \<le> ids ! i)"
    using min_index_least [of "length ids" ids] ne by (simp add: min_index_def Let_def)
  moreover from this have "Min (set ids) = ids ! min_index ids"
    by (intro Min_eqI) (auto simp: in_set_conv_nth)
  ultimately show ?thesis by simp
qed

definition least_first :: "device_id list \<Rightarrow> device_id list" where
  "least_first ids = rotate (min_index ids) ids"

lemma hd_least_first: "ids \<noteq> [] \<Longrightarrow> hd (least_first ids) = Min (set ids)"
  using min_index_Min [of ids] by (simp add: least_first_def hd_rotate_conv_nth)

lemma rotation_by_head:
  assumes "distinct c" "c \<noteq> []" "hd (rotate j c) = hd (rotate k c)" shows "rotate j c = rotate k c"
proof -
  have "c ! (j mod length c) = c ! (k mod length c)" using assms by (simp add: hd_rotate_conv_nth)
  then have "j mod length c = k mod length c" using assms(1,2) by (simp add: nth_eq_iff_index_eq)
  then show ?thesis using rotate_conv_mod by metis
qed

lemma least_first_rotate: "distinct c \<Longrightarrow> least_first (rotate k c) = least_first c"
proof (cases "c = []")
  case False
  assume d: "distinct c"
  have "hd (rotate (min_index (rotate k c) + k) c) = hd (rotate (min_index c) c)"
    using hd_least_first [of "rotate k c"] hd_least_first [of c] False by (simp add: least_first_def rotate_rotate)
  then show ?thesis using rotation_by_head [OF d False] by (simp add: least_first_def rotate_rotate)
qed (simp add: least_first_def)

lemma rotate_back: "rotate (length c - k mod length c) (rotate k c) = c"
proof (cases "c = []")
  case False
  have "rotate (length c - k mod length c) (rotate k c) = rotate (length c - k mod length c) (rotate (k mod length c) c)"
    using rotate_conv_mod by metis
  also have "\<dots> = rotate (length c) c" using False by (simp add: rotate_rotate mod_less_divisor less_imp_le)
  finally show ?thesis by simp
qed simp

lemma key_forward:
  assumes "ids \<noteq> []" shows "map (\<lambda>i. ids ! ((min_index ids + i) mod length ids)) [0..<length ids] = least_first ids"
  by (rule nth_equalityI) (auto simp: least_first_def nth_rotate)

lemma key_backward:
  assumes ne: "ids \<noteq> []" and d: "distinct ids"
  shows "map (\<lambda>i. ids ! ((min_index ids + length ids - i) mod length ids)) [0..<length ids] = least_first (rev ids)"
proof -
  let ?n = "length ids" and ?m = "min_index ids"
  have m: "?m < ?n" using min_index_Min [OF ne] by simp
  have idx: "?n - Suc ((?n - Suc ?m + i) mod ?n) = (?m + ?n - i) mod ?n" if "i < ?n" for i
  proof (cases "i \<le> ?m")
    case True
    have "(?n - Suc ?m + i) mod ?n = ?n - Suc ?m + i" using True m by (intro mod_less) linarith
    moreover have "(?m + ?n - i) mod ?n = ?m - i"
    proof -
      have "?m + ?n - i = (?m - i) + ?n" using True by simp
      moreover have "((?m - i) + ?n) mod ?n = (?m - i) mod ?n" by (rule mod_add_self2)
      moreover have "(?m - i) mod ?n = ?m - i" using m by (intro mod_less) linarith
      ultimately show ?thesis by (simp only:)
    qed
    ultimately show ?thesis using True m by simp
  next
    case False
    have "(?n - Suc ?m + i) mod ?n = i - Suc ?m"
    proof -
      have "?n - Suc ?m + i = (i - Suc ?m) + ?n" using False m by simp
      moreover have "((i - Suc ?m) + ?n) mod ?n = (i - Suc ?m) mod ?n" by (rule mod_add_self2)
      moreover have "(i - Suc ?m) mod ?n = i - Suc ?m" using that by (intro mod_less) linarith
      ultimately show ?thesis by (simp only:)
    qed
    moreover have "(?m + ?n - i) mod ?n = ?m + ?n - i" using False that by (intro mod_less) linarith
    ultimately show ?thesis using False that m by simp
  qed
  have "map (\<lambda>i. ids ! ((?m + ?n - i) mod ?n)) [0..<?n] = rotate (?n - Suc ?m) (rev ids)"
    using ne by (intro nth_equalityI) (auto simp: nth_rotate rev_nth idx)
  also have "\<dots> = least_first (rev ids)"
    unfolding least_first_def
  proof (rule rotation_by_head)
    have "hd (rotate (?n - Suc ?m) (rev ids)) = ids ! ?m"
      using ne m by (simp add: hd_rotate_conv_nth rev_nth)
    then show "hd (rotate (?n - Suc ?m) (rev ids)) = hd (rotate (min_index (rev ids)) (rev ids))"
      using hd_least_first [of "rev ids"] min_index_Min [OF ne] ne by (simp add: least_first_def)
  qed (use ne d in auto)
  finally show ?thesis .
qed

lemma cycleKey_least:
  assumes "ids \<noteq> []" "distinct ids"
  shows "cycleKey ids = (if Sprint (least_first ids) < Sprint (least_first (rev ids))
    then Sprint (least_first ids) else Sprint (least_first (rev ids)))"
  using assms key_forward [OF assms(1)] key_backward [OF assms] by (simp add: cycleKey_def Let_def)

lemma Itoa_no_blank: "CHR '' '' \<notin> set (Itoa n)"
  using Itoa_no_space [of n] by (auto simp: is_space_def)

lemma Sprint_inj: "xs \<noteq> [] \<Longrightarrow> ys \<noteq> [] \<Longrightarrow> Sprint xs = Sprint ys \<Longrightarrow> xs = ys"
proof -
  assume ne: "xs \<noteq> []" "ys \<noteq> []" and eq: "Sprint xs = Sprint ys"
  have split: "Split (Join (map Itoa zs) '' '') CHR '' '' = map Itoa zs" if "zs \<noteq> []" for zs
    using that Itoa_no_blank by (intro Split_Join) auto
  have "Join (map Itoa xs) '' '' = Join (map Itoa ys) '' ''" using eq unfolding Sprint_def by simp
  from arg_cong [OF this, of "\<lambda>s. Split s CHR '' ''"] have "map Itoa xs = map Itoa ys"
    unfolding split [OF ne(1)] split [OF ne(2)] .
  moreover have "inj Itoa" using Itoa_inj by (auto simp: inj_on_def)
  ultimately show ?thesis by (simp add: inj_map_eq_map)
qed

lemma rev_rotate: "rev (rotate k x) = rotate (length x - k mod length x) (rev x)"
proof (cases "x = [] \<or> k mod length x = 0")
  case True
  then show ?thesis by (cases "x = []") (simp_all add: rotate_id)
next
  case False
  define r where "r = k mod length x"
  have ne: "x \<noteq> []" and r: "0 < r" "r < length x" using False by (auto simp: r_def)
  have "(length x - r) mod length x = length x - r" using r by (intro mod_less) linarith
  moreover have "length x - (length x - r) = r" using r by simp
  moreover have "rotate r x = rotate k x" unfolding r_def by (rule rotate_conv_mod [symmetric])
  ultimately show ?thesis using rotate_rev [of "length x - r" x] unfolding r_def [symmetric] by simp
qed

lemma cycleKey_same_loop:
  assumes c: "distinct c" "c \<noteq> []" and d: "distinct d" "d \<noteq> []"
  shows "cycleKey c = cycleKey d \<longleftrightarrow> same_loop c d"
proof
  assume "cycleKey c = cycleKey d"
  then obtain x y where x: "x = c \<or> x = rev c" and y: "y = d \<or> y = rev d"
    and eq: "Sprint (least_first x) = Sprint (least_first y)"
    unfolding cycleKey_least [OF c(2,1)] cycleKey_least [OF d(2,1)] by (metis (full_types))
  have ne: "least_first x \<noteq> []" "least_first y \<noteq> []" using x y c d by (auto simp: least_first_def)
  from Sprint_inj [OF ne eq] have "rotate (min_index x) x = rotate (min_index y) y" by (simp add: least_first_def)
  then have "y = rotate (length y - min_index y mod length y + min_index x) x"
    using rotate_back [of y "min_index y"] by (metis rotate_rotate)
  then obtain k where k: "y = rotate k x" by blast
  show "same_loop c d"
  proof (cases "y = d")
    case True
    then show ?thesis using k x by (auto simp: same_loop_def)
  next
    case False
    then have "d = rev (rotate k x)" using y k by auto
    also have "\<dots> = rotate (length x - k mod length x) (rev x)" by (rule rev_rotate)
    finally show ?thesis using x by (auto simp: same_loop_def)
  qed
next
  assume "same_loop c d"
  then obtain k where "d = rotate k c \<or> d = rotate k (rev c)" by (auto simp: same_loop_def)
  then show "cycleKey c = cycleKey d"
  proof
    assume k: "d = rotate k c"
    have "rev d = rotate (length c - k mod length c) (rev c)" unfolding k by (rule rev_rotate)
    then show ?thesis using c d by (simp add: cycleKey_least k least_first_rotate)
  next
    assume k: "d = rotate k (rev c)"
    define j where "j = length c - k mod length c"
    have "rev c = rotate j d" using rotate_back [of "rev c" k] by (simp add: k j_def)
    then have "c = rotate (length d - j mod length d) (rev d)" by (metis rev_rev_ident rev_rotate)
    then have "least_first c = least_first (rev d)" using least_first_rotate d(1) by (metis distinct_rev)
    moreover have "least_first d = least_first (rev c)" using c by (simp add: k least_first_rotate)
    moreover have "Sprint (least_first c) \<noteq> Sprint (least_first (rev c)) \<or> least_first c = least_first (rev c)"
      using Sprint_inj c by (auto simp: least_first_def)
    ultimately show ?thesis using c d by (auto simp: cycleKey_least dest: less_asym)
  qed
qed

section \<open>Parallel links\<close>

type_synonym port_names = "(int \<times> string) list"
type_synonym sides = "((device_id \<times> device_id) \<times> (device_id \<times> port_names) list) list"

definition entry :: "('a \<times> 'b list) list \<Rightarrow> 'a \<Rightarrow> 'b list" where
  "entry m k = (case map_of m k of None \<Rightarrow> [] | Some v \<Rightarrow> v)"

definition edge_pair :: "TopologyEdge \<Rightarrow> device_id \<times> device_id" where
  "edge_pair e = (tl_a (live_link e), tl_b (live_link e))"

text \<open>\<open>sides[p][e.LocalDeviceID][e.LocalIfIndex] = ifName\<close>\<close>
definition add_side :: "TopologyEdge \<Rightarrow> sides \<Rightarrow> sides" where
  "add_side e sides =
     (let p = edge_pair e; side = entry sides p; d = te_LocalDeviceID e
      in AList.update p (AList.update d (AList.update (te_LocalIfIndex e) (text_of (te_LocalIfName e)) (entry side d)) side) sides)"

definition pair_proto :: "TopologyEdge list \<Rightarrow> device_id \<times> device_id \<Rightarrow> string" where
  "pair_proto es p = (case filter (\<lambda>e. edge_pair e = p \<and> te_Protocol e \<noteq> []) es of [] \<Rightarrow> [] | e # _ \<Rightarrow> te_Protocol e)"

definition both_ways :: string where
  "both_ways = [CHR 0x20, CHR 0xE2, CHR 0x87, CHR 0x84, CHR 0x20]"

definition parallel_text :: string where
  "parallel_text = [CHR 0x20, CHR 0x28, CHR 0xD0, CHR 0xBF, CHR 0xD0, CHR 0xB0, CHR 0xD1, CHR 0x80, CHR 0xD0, CHR 0xB0, CHR 0xD0, CHR 0xBB, CHR 0xD0, CHR 0xBB, CHR 0xD0, CHR 0xB5, CHR 0xD0, CHR 0xBB, CHR 0xD1, CHR 0x8C, CHR 0xD0, CHR 0xBD, CHR 0xD1, CHR 0x8B, CHR 0xD0, CHR 0xB5, CHR 0x20, CHR 0xD0, CHR 0xBF, CHR 0xD0, CHR 0xBE, CHR 0xD1, CHR 0x80, CHR 0xD1, CHR 0x82, CHR 0xD1, CHR 0x8B, CHR 0x3A, CHR 0x20]"

definition parallel_hop :: "(device_id \<Rightarrow> string) \<Rightarrow> string \<Rightarrow> device_id \<Rightarrow> device_id \<Rightarrow> int \<times> string \<Rightarrow> TopologyCycleHop" where
  "parallel_hop names proto frm to port = \<lparr>ch_FromDeviceID = frm, ch_FromDeviceName = name_or_id names frm,
     ch_FromIfIndex = fst port, ch_FromIfName = snd port, ch_ToDeviceID = to, ch_ToDeviceName = name_or_id names to,
     ch_ToIfIndex = None, ch_ToIfName = [], ch_Protocol = proto\<rparr>"

definition parallel_cycle :: "(device_id \<Rightarrow> string) \<Rightarrow> string \<Rightarrow> (device_id \<times> device_id) \<times> (device_id \<times> port_names) list
    \<Rightarrow> TopologyCycle option" where
  "parallel_cycle names proto ps = (case ps of ((a, b), side) \<Rightarrow>
     let nA = length (entry side a); nB = length (entry side b); na = name_or_id names a; nb = name_or_id names b
     in if nA < 2 \<and> nB < 2 then None
        else Some \<lparr>tc_Length = 2, tc_DeviceIDs = [a, b], tc_DeviceNames = [na, nb],
          tc_Hops = concat (map (\<lambda>(d, ifs). map (parallel_hop names proto d (if d = b then a else b)) ifs) side),
          tc_Summary = na @ both_ways @ nb @ parallel_text @ Itoa (int nA) @ '' + '' @ Itoa (int nB) @ '')'',
          tc_CycleKey = []\<rparr>)"

text \<open>The maps are ranged over in the order in which their keys came in.\<close>
definition parallelLinkCyclesFromEdges :: "TopologyEdge list \<Rightarrow> (device_id \<Rightarrow> string) \<Rightarrow> (device_id \<Rightarrow> bool) option
    \<Rightarrow> TopologyCycle list" where
  "parallelLinkCyclesFromEdges edges names online =
     (let es = filter (live_usable online) edges
      in List.map_filter (\<lambda>ps. parallel_cycle names (pair_proto es (fst ps)) ps) (fold add_side es []))"

section \<open>The report\<close>

definition cycle_key_of :: "TopologyCycle \<Rightarrow> string" where
  "cycle_key_of c = pair_prefix (tc_DeviceIDs c) (cycleKey (tc_DeviceIDs c))"

definition dedupeCycles :: "TopologyCycle list \<Rightarrow> TopologyCycle list" where
  "dedupeCycles cycles = rev (snd (foldl (\<lambda>(seen, uniq) c.
     if cycle_key_of c \<in> set seen then (seen, uniq) else (cycle_key_of c # seen, c # uniq)) ([], []) cycles))"

text \<open>\<open>sort.Slice\<close>: loops of equal length and text may come in any order, here in the order they were found.\<close>
definition sortCycles :: "TopologyCycle list \<Rightarrow> TopologyCycle list" where
  "sortCycles cycles = sort_key tc_Length (sort_key tc_Summary cycles)"

definition FilterLoopsTouching :: "TopologyCycle list \<Rightarrow> device_id list \<Rightarrow> TopologyCycle list" where
  "FilterLoopsTouching cycles deviceIDs =
     filter (\<lambda>c. list_ex (\<lambda>d. d > 0 \<and> d \<in> set deviceIDs) (tc_DeviceIDs c)) cycles"

definition CycleKeyFor :: "TopologyCycle \<Rightarrow> string" where
  "CycleKeyFor c = (if tc_CycleKey c \<noteq> [] then tc_CycleKey c else cycle_key_of c)"

text \<open>
  What the report is built from: the devices with name, host and whether they are online (\<open>None\<close> when they
  cannot be read), the stored edges when the store has them, the topology for a protocol, the order of a range.
\<close>
record loop_env =
  le_devices :: "(device_id \<times> string \<times> string \<times> bool) list option"
  le_cache :: "TopologyBlastEdge list option"
  le_graph :: "string \<Rightarrow> TopologyGraph option"
  le_ord :: "topoLink list \<Rightarrow> topoLink list"

record LoopReport =
  lr_Cycles :: "TopologyCycle list"
  lr_NodeCount :: nat
  lr_EdgeCount :: nat
  lr_Protocol :: string
  lr_Source :: string

definition deviceNames :: "loop_env \<Rightarrow> device_id \<Rightarrow> string" where
  "deviceNames env d = (case le_devices env of None \<Rightarrow> [] | Some devs \<Rightarrow>
     (case map_of devs d of None \<Rightarrow> []
      | Some (name, host, _) \<Rightarrow> if TrimSpace name = [] then host else TrimSpace name))"

definition deviceOnlineMap :: "loop_env \<Rightarrow> device_id \<Rightarrow> bool" where
  "deviceOnlineMap env d = (case le_devices env of None \<Rightarrow> False | Some devs \<Rightarrow>
     (case map_of devs d of None \<Rightarrow> False | Some (_, _, on) \<Rightarrow> on))"

definition loop_proto :: "string \<Rightarrow> string" where
  "loop_proto protocol = (let p = ToLower (TrimSpace protocol)
     in if p \<noteq> [] \<and> p \<noteq> ''lldp'' \<and> p \<noteq> ''cdp'' \<and> p \<noteq> ''live'' then ''lldp'' else p)"

definition finish_cycles :: "TopologyCycle list \<Rightarrow> TopologyCycle list" where
  "finish_cycles cs = map (\<lambda>c. c\<lparr>tc_CycleKey := cycle_key_of c\<rparr>) (sortCycles (dedupeCycles cs))"

definition cached_edges :: "loop_env \<Rightarrow> string \<Rightarrow> TopologyBlastEdge list option" where
  "cached_edges env protocol =
     (let proto = loop_proto protocol
      in if proto = [] \<or> proto = ''lldp''
         then (case le_cache env of None \<Rightarrow> None | Some es \<Rightarrow> if es = [] then None else Some es) else None)"

definition live_proto :: "string \<Rightarrow> string" where
  "live_proto protocol = (let p = loop_proto protocol in if p = [] \<or> p = ''live'' then ''lldp'' else p)"

definition BuildLoopReport :: "loop_env \<Rightarrow> string \<Rightarrow> LoopReport option" where
  "BuildLoopReport env protocol =
     (let online = Some (deviceOnlineMap env) in
      case cached_edges env protocol of
        Some es \<Rightarrow> (case buildUndirectedFromBlast es online of (links, adj) \<Rightarrow>
          Some \<lparr>lr_Cycles = finish_cycles (findUndirectedCycles adj links (deviceNames env)),
                lr_NodeCount = length adj, lr_EdgeCount = length links,
                lr_Protocol = ''blast_cache'', lr_Source = ''blast_cache''\<rparr>)
      | None \<Rightarrow> (case le_graph env (live_proto protocol) of
          None \<Rightarrow> None
        | Some g \<Rightarrow> (case buildUndirectedLLDPGraph (le_ord env) (tg_Edges g) online of (links, adj) \<Rightarrow>
            let names = (\<lambda>d. text_of (node_names (tg_Nodes g) d))
            in Some \<lparr>lr_Cycles = finish_cycles (findUndirectedCycles adj links names
                       @ parallelLinkCyclesFromEdges (tg_Edges g) names online),
                     lr_NodeCount = length adj, lr_EdgeCount = length links,
                     lr_Protocol = live_proto protocol, lr_Source = ''live''\<rparr>)))"

section \<open>What the report says\<close>

definition report_edges :: "loop_env \<Rightarrow> string \<Rightarrow> TopologyEdge list" where
  "report_edges env protocol = (case cached_edges env protocol of Some _ \<Rightarrow> []
     | None \<Rightarrow> (case le_graph env (live_proto protocol) of None \<Rightarrow> []
         | Some g \<Rightarrow> filter (live_usable (Some (deviceOnlineMap env))) (tg_Edges g)))"

text \<open>The pairs of devices that the report's topology joins, both ends being online\<close>
definition report_links :: "loop_env \<Rightarrow> string \<Rightarrow> device_id \<Rightarrow> device_id \<Rightarrow> bool" where
  "report_links env protocol x y \<longleftrightarrow>
     (\<exists>es e. cached_edges env protocol = Some es \<and> e \<in> set es \<and> blast_usable (Some (deviceOnlineMap env)) e
        \<and> {x, y} = {be_ADeviceID e, be_BDeviceID e})
     \<or> (\<exists>e\<in>set (report_edges env protocol). \<exists>r. te_RemoteDeviceID e = Some r \<and> {x, y} = {te_LocalDeviceID e, r})"

text \<open>The pairs for which one device sees the other on two of its ports\<close>
definition parallel_pair :: "loop_env \<Rightarrow> string \<Rightarrow> device_id \<Rightarrow> device_id \<Rightarrow> bool" where
  "parallel_pair env protocol a b \<longleftrightarrow> (\<exists>e1\<in>set (report_edges env protocol). \<exists>e2\<in>set (report_edges env protocol).
     edge_pair e1 = (a, b) \<and> edge_pair e2 = (a, b) \<and> te_LocalDeviceID e1 = te_LocalDeviceID e2
     \<and> te_LocalIfIndex e1 \<noteq> te_LocalIfIndex e2)"

lemma pair_eq_iff: "{x, y} = {a, b} \<longleftrightarrow> (x = a \<and> y = b) \<or> (x = b \<and> y = a)"
  by (auto simp: doubleton_eq_iff)

lemma blast_link_pair: "(tl_a (blast_link e) = x \<and> tl_b (blast_link e) = y) \<or> (tl_a (blast_link e) = y \<and> tl_b (blast_link e) = x)
  \<longleftrightarrow> {x, y} = {be_ADeviceID e, be_BDeviceID e}"
  by (auto simp: blast_link_def Let_def doubleton_eq_iff)

lemma live_link_pair: "te_RemoteDeviceID e = Some r \<Longrightarrow>
  (tl_a (live_link e) = x \<and> tl_b (live_link e) = y) \<or> (tl_a (live_link e) = y \<and> tl_b (live_link e) = x)
  \<longleftrightarrow> {x, y} = {te_LocalDeviceID e, r}"
  by (auto simp: live_link_def Let_def doubleton_eq_iff)

lemma digits_before: "0 \<le> a \<Longrightarrow> 0 \<le> b \<Longrightarrow> \<not> is_digit c \<Longrightarrow> Itoa a @ c # s = Itoa b @ c # t \<Longrightarrow> a = b"
proof -
  assume a: "0 \<le> a" and b: "0 \<le> b" and c: "\<not> is_digit c" and eq: "Itoa a @ c # s = Itoa b @ c # t"
  have "takeWhile is_digit (Itoa n @ c # u) = Itoa n" if "0 \<le> n" for n u
    using Itoa_nonneg_digit [OF that] c by (simp add: takeWhile_append2)
  from this [OF a, of s] this [OF b, of t] have "Itoa a = Itoa b" using eq by simp
  then show "a = b" by (rule Itoa_inj)
qed

lemma digits_after: "0 \<le> a \<Longrightarrow> 0 \<le> b \<Longrightarrow> \<not> is_digit c \<Longrightarrow> s @ c # Itoa a = t @ c # Itoa b \<Longrightarrow> a = b"
proof -
  assume a: "0 \<le> a" and b: "0 \<le> b" and c: "\<not> is_digit c" and eq: "s @ c # Itoa a = t @ c # Itoa b"
  have "takeWhile is_digit (rev (u @ c # Itoa n)) = rev (Itoa n)" if "0 \<le> n" for n u
  proof -
    have "takeWhile is_digit (rev (Itoa n) @ c # rev u) = rev (Itoa n)"
      using Itoa_nonneg_digit [OF that] c by (subst takeWhile_append2) auto
    then show ?thesis by simp
  qed
  from this [OF a, of s] this [OF b, of t] have "rev (Itoa a) = rev (Itoa b)" by (simp only: eq)
  then show "a = b" using Itoa_inj by simp
qed

lemma Itoa_no_colon: "CHR '':'' \<notin> set (Itoa n)"
  using Itoa_chars by (fastforce simp: is_digit_def)

lemma link_key_pair:
  assumes pos: "0 < tl_a l" "0 < tl_b l" "0 < tl_a m" "0 < tl_b m" and eq: "link_key l = link_key m"
  shows "tl_a l = tl_a m \<and> tl_b l = tl_b m"
proof -
  have nodash: "\<not> is_digit CHR ''-''" "\<not> is_digit CHR '':''" by (simp_all add: is_digit_def)
  define short where "short k \<longleftrightarrow> tl_aIf k = 0 \<and> tl_bIf k = 0" for k :: topoLink
  have split_short: "Split (link_key k) CHR '':'' = [Itoa (tl_a k) @ CHR ''-'' # Itoa (tl_b k)]" if "short k" for k
    using that Itoa_no_colon by (simp add: link_key_def short_def Split_no_sep)
  have split_long: "Split (link_key k) CHR '':'' = [Itoa (tl_a k), Itoa (tl_aIf k) @ CHR ''-'' # Itoa (tl_b k), Itoa (tl_bIf k)]"
    if "\<not> short k" for k
  proof -
    have key: "link_key k = Itoa (tl_a k) @ CHR '':'' # (Itoa (tl_aIf k) @ CHR ''-'' # Itoa (tl_b k)) @ CHR '':'' # Itoa (tl_bIf k)"
      using that by (auto simp: link_key_def short_def)
    have "CHR '':'' \<notin> set (Itoa (tl_aIf k) @ CHR ''-'' # Itoa (tl_b k))" using Itoa_no_colon by simp
    then show ?thesis unfolding key using Itoa_no_colon by (simp add: Split_append Split_no_sep del: append_assoc)
  qed
  have "short l = short m" using split_short [of l] split_short [of m] split_long [of l] split_long [of m] eq
    by (cases "short l"; cases "short m") simp_all
  then show ?thesis
  proof (cases "short l")
    case True
    then have "Itoa (tl_a l) @ CHR ''-'' # Itoa (tl_b l) = Itoa (tl_a m) @ CHR ''-'' # Itoa (tl_b m)"
      using split_short [of l] split_short [of m] eq \<open>short l = short m\<close> by simp
    then show ?thesis using digits_before [OF _ _ nodash(1)] digits_after [OF _ _ nodash(1)] pos by (meson less_imp_le)
  next
    case False
    then have "Itoa (tl_a l) = Itoa (tl_a m)"
      "Itoa (tl_aIf l) @ CHR ''-'' # Itoa (tl_b l) = Itoa (tl_aIf m) @ CHR ''-'' # Itoa (tl_b m)"
      using split_long [of l] split_long [of m] eq \<open>short l = short m\<close> by simp_all
    then show ?thesis using Itoa_inj digits_after [OF _ _ nodash(1)] pos by (meson less_imp_le)
  qed
qed

lemma seen_links_spec:
  "(\<forall>(k, l)\<in>set (seen_links es online). \<exists>e\<in>set es. live_usable online e \<and> l = live_link e \<and> k = link_key l)
   \<and> (\<forall>e\<in>set es. live_usable online e \<longrightarrow> (\<exists>l. (link_key (live_link e), l) \<in> set (seen_links es online)))"
  unfolding seen_links_def
proof (induction es rule: rev_induct)
  case (snoc e es)
  define seen where "seen = foldl (\<lambda>seen e. if \<not> live_usable online e then seen
     else if map_of seen (link_key (live_link e)) \<noteq> None then seen
     else seen @ [(link_key (live_link e), live_link e)]) [] es"
  show ?case
  proof (cases "live_usable online e \<and> map_of seen (link_key (live_link e)) = None")
    case True
    then show ?thesis using snoc.IH by (auto simp: seen_def [symmetric])
  next
    case False
    then have "live_usable online e \<Longrightarrow> \<exists>l. (link_key (live_link e), l) \<in> set seen" by (auto dest: map_of_SomeD)
    then show ?thesis using snoc.IH False by (auto simp: seen_def [symmetric])
  qed
qed simp

lemma seen_from: "(k, l) \<in> set (seen_links es online) \<Longrightarrow> \<exists>e\<in>set es. live_usable online e \<and> l = live_link e \<and> k = link_key l"
  using bspec [OF conjunct1 [OF seen_links_spec [of es online]], of "(k, l)"] by simp

lemma seen_to: "e \<in> set es \<Longrightarrow> live_usable online e \<Longrightarrow> \<exists>l. (link_key (live_link e), l) \<in> set (seen_links es online)"
  using bspec [OF conjunct2 [OF seen_links_spec [of es online]], of e] by simp

lemma linked_live:
  assumes pos: "\<forall>e\<in>set es. 0 < te_LocalDeviceID e" and ord: "\<forall>xs. set (ord xs) = set xs"
  shows "linked (snd (buildUndirectedLLDPGraph ord es online)) x y
    \<longleftrightarrow> (\<exists>e\<in>set es. live_usable online e \<and> (\<exists>r. te_RemoteDeviceID e = Some r \<and> {x, y} = {te_LocalDeviceID e, r}))"
    (is "?L \<longleftrightarrow> ?R")
proof -
  have L: "?L \<longleftrightarrow> (\<exists>l\<in>snd ` set (seen_links es online). (x = tl_a l \<and> y = tl_b l) \<or> (x = tl_b l \<and> y = tl_a l))"
    by (simp add: buildUndirectedLLDPGraph_def Let_def linked_links_graph ord)
  have usable: "\<exists>r. te_RemoteDeviceID e = Some r \<and> 0 < r" if "live_usable online e" for e
    using that by (auto simp: live_usable_def split: option.splits)
  have ends: "0 < tl_a (live_link e) \<and> 0 < tl_b (live_link e)" if "live_usable online e" "e \<in> set es" for e
    using usable [OF that(1)] pos that(2) by (auto simp: live_link_def Let_def)
  show ?thesis
  proof
    assume ?L
    then obtain k l where l: "(k, l) \<in> set (seen_links es online)" and xy: "(x = tl_a l \<and> y = tl_b l) \<or> (x = tl_b l \<and> y = tl_a l)"
      unfolding L by auto
    then obtain e where e: "e \<in> set es" "live_usable online e" "l = live_link e" using seen_from [OF l] by blast
    obtain r where r: "te_RemoteDeviceID e = Some r" using usable [OF e(2)] by blast
    have "{x, y} = {te_LocalDeviceID e, r}" using xy live_link_pair [OF r, of x y] unfolding e(3) by blast
    then show ?R using e r by blast
  next
    assume ?R
    then obtain e r where e: "e \<in> set es" "live_usable online e" and r: "te_RemoteDeviceID e = Some r"
      and xy: "{x, y} = {te_LocalDeviceID e, r}" by blast
    from e obtain l where l: "(link_key (live_link e), l) \<in> set (seen_links es online)" using seen_to by blast
    from seen_from [OF this]
    obtain e' where e': "e' \<in> set es" "live_usable online e'" "l = live_link e'" "link_key (live_link e) = link_key l" by blast
    have "tl_a l = tl_a (live_link e) \<and> tl_b l = tl_b (live_link e)"
      using link_key_pair [of l "live_link e"] ends [OF e(2,1)] ends [OF e'(2,1)] e'(3,4) by simp
    moreover have "l \<in> snd ` set (seen_links es online)" using l by (metis image_eqI snd_conv)
    ultimately show ?L unfolding L using xy live_link_pair [OF r, of x y] by (intro bexI [of _ l]) auto
  qed
qed

lemma entry_update: "entry (AList.update k v m) k' = (if k' = k then v else entry m k')"
  by (simp add: entry_def update_conv')

definition sides_ok :: "TopologyEdge list \<Rightarrow> sides \<Rightarrow> bool" where
  "sides_ok es sides \<longleftrightarrow> distinct (map fst sides) \<and> set (map fst sides) = edge_pair ` set es
     \<and> (\<forall>p d. distinct (map fst (entry (entry sides p) d))
         \<and> set (map fst (entry (entry sides p) d)) = te_LocalIfIndex ` {e\<in>set es. edge_pair e = p \<and> te_LocalDeviceID e = d})"

lemma fst_update: "fst ` set (AList.update k v m) = insert k (fst ` set m)"
  using update_keys [of k v m] by simp

lemma sides_ok_add:
  assumes "sides_ok es sides" shows "sides_ok (es @ [e]) (add_side e sides)"
proof -
  have edges: "{x\<in>set (es @ [e]). edge_pair x = p \<and> te_LocalDeviceID x = d}
      = (if edge_pair e = p \<and> te_LocalDeviceID e = d then insert e {x\<in>set es. edge_pair x = p \<and> te_LocalDeviceID x = d}
         else {x\<in>set es. edge_pair x = p \<and> te_LocalDeviceID x = d})" for p d
    by auto
  have ports: "entry (entry (add_side e sides) p) d = (if edge_pair e = p \<and> te_LocalDeviceID e = d
      then AList.update (te_LocalIfIndex e) (text_of (te_LocalIfName e)) (entry (entry sides p) d)
      else entry (entry sides p) d)" for p d
    by (auto simp: add_side_def Let_def entry_update)
  from assms have old: "distinct (map fst (entry (entry sides p) d))"
    "fst ` set (entry (entry sides p) d) = te_LocalIfIndex ` {e\<in>set es. edge_pair e = p \<and> te_LocalDeviceID e = d}" for p d
    unfolding sides_ok_def set_map by blast+
  have "distinct (map fst (add_side e sides))" "set (map fst (add_side e sides)) = edge_pair ` set (es @ [e])"
    using assms by (simp_all add: sides_ok_def add_side_def Let_def distinct_update fst_update)
  then show ?thesis unfolding sides_ok_def edges ports
    using old by (simp add: distinct_update fst_update)
qed

lemma sides_ok_fold: "sides_ok es (fold add_side es [])"
  by (induction es rule: rev_induct) (simp_all add: sides_ok_add, simp add: sides_ok_def entry_def)

lemma two_ports:
  assumes "sides_ok es sides"
  shows "2 \<le> length (entry (entry sides p) d) \<longleftrightarrow> (\<exists>e1\<in>set es. \<exists>e2\<in>set es. edge_pair e1 = p \<and> edge_pair e2 = p
    \<and> te_LocalDeviceID e1 = d \<and> te_LocalDeviceID e2 = d \<and> te_LocalIfIndex e1 \<noteq> te_LocalIfIndex e2)" (is "_ \<longleftrightarrow> ?R")
proof -
  let ?ks = "map fst (entry (entry sides p) d)"
  have d: "distinct ?ks" and s: "set ?ks = te_LocalIfIndex ` {e\<in>set es. edge_pair e = p \<and> te_LocalDeviceID e = d}"
    using assms unfolding sides_ok_def by blast+
  have "2 \<le> length ?ks \<longleftrightarrow> (\<exists>i\<in>set ?ks. \<exists>j\<in>set ?ks. i \<noteq> j)"
    using d by (cases ?ks rule: remdups_adj.cases) auto
  also have "\<dots> \<longleftrightarrow> ?R" unfolding s by blast
  finally show ?thesis by simp
qed

lemma edge_pair_local: "te_RemoteDeviceID e = Some r \<Longrightarrow> edge_pair e = (a, b) \<Longrightarrow> te_LocalDeviceID e = a \<or> te_LocalDeviceID e = b"
  by (auto simp: edge_pair_def live_link_def Let_def split: if_splits)

lemma edge_pair_le: "edge_pair e = (a, b) \<Longrightarrow> a \<le> b"
  by (auto simp: edge_pair_def live_link_def Let_def split: if_splits)

lemma parallel_cycle_ids: "parallel_cycle names proto ps = Some c \<Longrightarrow> tc_DeviceIDs c = [fst (fst ps), snd (fst ps)]"
  by (auto simp: parallel_cycle_def Let_def split: prod.splits if_splits)

lemma in_map_filter: "c \<in> set (List.map_filter f xs) \<longleftrightarrow> (\<exists>x\<in>set xs. f x = Some c)"
  by (force simp: map_filter_def)

lemma parallel_cycles_exact:
  fixes edges :: "TopologyEdge list" and online
  defines "es \<equiv> filter (live_usable online) edges"
  shows "(\<exists>c\<in>set (parallelLinkCyclesFromEdges edges names online). tc_DeviceIDs c = [a, b])
      \<longleftrightarrow> (\<exists>e1\<in>set es. \<exists>e2\<in>set es. edge_pair e1 = (a, b) \<and> edge_pair e2 = (a, b)
          \<and> te_LocalDeviceID e1 = te_LocalDeviceID e2 \<and> te_LocalIfIndex e1 \<noteq> te_LocalIfIndex e2)" (is "?L \<longleftrightarrow> ?R")
    and "c \<in> set (parallelLinkCyclesFromEdges edges names online) \<Longrightarrow> \<exists>a b. tc_DeviceIDs c = [a, b]"
proof -
  let ?sides = "fold add_side es []"
  have ok: "sides_ok es ?sides" by (rule sides_ok_fold)
  have def: "parallelLinkCyclesFromEdges edges names online
      = List.map_filter (\<lambda>ps. parallel_cycle names (pair_proto es (fst ps)) ps) ?sides"
    unfolding parallelLinkCyclesFromEdges_def es_def Let_def by (rule refl)
  show "c \<in> set (parallelLinkCyclesFromEdges edges names online) \<Longrightarrow> \<exists>a b. tc_DeviceIDs c = [a, b]"
    unfolding def in_map_filter using parallel_cycle_ids by blast
  have "?L \<longleftrightarrow> 2 \<le> length (entry (entry ?sides (a, b)) a) \<or> 2 \<le> length (entry (entry ?sides (a, b)) b)" (is "_ \<longleftrightarrow> ?M")
  proof
    assume ?L
    then obtain c where cm: "c \<in> set (parallelLinkCyclesFromEdges edges names online)" and ids: "tc_DeviceIDs c = [a, b]" by blast
    then obtain ps where ps: "ps \<in> set ?sides" and c: "parallel_cycle names (pair_proto es (fst ps)) ps = Some c"
      unfolding def in_map_filter by blast
    obtain side where side: "ps = ((a, b), side)" using parallel_cycle_ids [OF c] ids by (cases ps) auto
    have "map_of ?sides (a, b) = Some side" using ok ps unfolding sides_ok_def side by simp
    then show ?M using c by (auto simp: side parallel_cycle_def entry_def Let_def split: if_splits)
  next
    assume M: ?M
    then have "map_of ?sides (a, b) \<noteq> None" by (auto simp: entry_def split: option.splits)
    then obtain side where side: "map_of ?sides (a, b) = Some side" by blast
    then have mem: "((a, b), side) \<in> set ?sides" by (rule map_of_SomeD)
    have "parallel_cycle names (pair_proto es (a, b)) ((a, b), side) \<noteq> None"
      using M side by (auto simp: parallel_cycle_def entry_def Let_def)
    then obtain c where c: "parallel_cycle names (pair_proto es (a, b)) ((a, b), side) = Some c" by blast
    have "c \<in> set (parallelLinkCyclesFromEdges edges names online)" unfolding def in_map_filter
      using mem c by (intro bexI [of _ "((a, b), side)"]) simp_all
    then show ?L using parallel_cycle_ids [OF c] by (intro bexI [of _ c]) simp_all
  qed
  also have "\<dots> \<longleftrightarrow> ?R"
  proof
    assume ?M
    then show ?R unfolding two_ports [OF ok] by metis
  next
    assume ?R
    then obtain e1 e2 where e: "e1 \<in> set es" "e2 \<in> set es" "edge_pair e1 = (a, b)" "edge_pair e2 = (a, b)"
      "te_LocalDeviceID e1 = te_LocalDeviceID e2" "te_LocalIfIndex e1 \<noteq> te_LocalIfIndex e2" by blast
    have "\<exists>r. te_RemoteDeviceID e1 = Some r" using e(1) by (auto simp: es_def live_usable_def split: option.splits)
    then have "te_LocalDeviceID e1 = a \<or> te_LocalDeviceID e1 = b" using edge_pair_local e(3) by blast
    then show ?M unfolding two_ports [OF ok] using e by metis
  qed
  finally show "?L \<longleftrightarrow> ?R" .
qed

lemma dedupe_spec:
  "set (dedupeCycles cs) \<subseteq> set cs \<and> distinct (map cycle_key_of (dedupeCycles cs))
   \<and> cycle_key_of ` set (dedupeCycles cs) = cycle_key_of ` set cs"
proof -
  have "foldl (\<lambda>(seen, uniq) c. if cycle_key_of c \<in> set seen then (seen, uniq) else (cycle_key_of c # seen, c # uniq)) ([], []) cs
      = (seen, uniq) \<Longrightarrow> set uniq \<subseteq> set cs \<and> distinct (map cycle_key_of uniq) \<and> set seen = cycle_key_of ` set uniq
          \<and> cycle_key_of ` set uniq = cycle_key_of ` set cs" for seen uniq
  proof (induction cs arbitrary: seen uniq rule: rev_induct)
    case (snoc c cs)
    obtain seen0 uniq0 where *: "foldl (\<lambda>(seen, uniq) c. if cycle_key_of c \<in> set seen then (seen, uniq)
        else (cycle_key_of c # seen, c # uniq)) ([], []) cs = (seen0, uniq0)" by fastforce
    show ?case using snoc.IH [OF *] snoc.prems by (auto simp: * split: if_splits)
  qed simp
  then show ?thesis unfolding dedupeCycles_def
    by (cases "foldl (\<lambda>(seen, uniq) c. if cycle_key_of c \<in> set seen then (seen, uniq)
        else (cycle_key_of c # seen, c # uniq)) ([], []) cs") (simp add: rev_map [symmetric])
qed

lemma finish_spec:
  "(\<forall>c\<in>set (finish_cycles cs). \<exists>c'\<in>set cs. tc_DeviceIDs c = tc_DeviceIDs c' \<and> tc_CycleKey c = cycle_key_of c')
   \<and> (\<forall>c'\<in>set cs. \<exists>c\<in>set (finish_cycles cs). cycle_key_of c = cycle_key_of c')
   \<and> distinct (map tc_CycleKey (finish_cycles cs))"
proof -
  note d = dedupe_spec [of cs]
  have key: "cycle_key_of (c\<lparr>tc_CycleKey := k\<rparr>) = cycle_key_of c" for c k by (simp add: cycle_key_of_def)
  have "mset (sortCycles (dedupeCycles cs)) = mset (dedupeCycles cs)" by (simp add: sortCycles_def)
  then have same: "set (sortCycles (dedupeCycles cs)) = set (dedupeCycles cs)"
    and "mset (map cycle_key_of (sortCycles (dedupeCycles cs))) = mset (map cycle_key_of (dedupeCycles cs))"
    by (simp_all only: mset_map) (metis set_mset_mset)
  then have "distinct (map cycle_key_of (sortCycles (dedupeCycles cs)))" using d by (metis mset_eq_imp_distinct_iff)
  then have "distinct (map tc_CycleKey (finish_cycles cs))" by (simp add: finish_cycles_def comp_def)
  moreover have "\<exists>c\<in>set (finish_cycles cs). cycle_key_of c = cycle_key_of c'" if "c' \<in> set cs" for c'
  proof -
    from that d obtain c where "c \<in> set (dedupeCycles cs)" "cycle_key_of c = cycle_key_of c'" by (metis image_iff)
    then show ?thesis using same by (auto simp: finish_cycles_def key)
  qed
  ultimately show ?thesis using d same by (auto simp: finish_cycles_def)
qed

lemma cycleKey_pair: "a \<le> b \<Longrightarrow> cycleKey [a, b] = Sprint [a, b]"
  by (simp add: cycleKey_def min_index_def upt_rec Let_def)

lemma Sprint_hd: "Sprint ids = CHR ''['' # tl (Sprint ids)"
  by (simp add: Sprint_def)

lemma cycle_key_length:
  assumes "cycle_key_of c = cycle_key_of d" "tc_DeviceIDs c \<noteq> []" "tc_DeviceIDs d \<noteq> []"
  shows "length (tc_DeviceIDs c) = 2 \<longleftrightarrow> length (tc_DeviceIDs d) = 2"
proof -
  have "hd (cycle_key_of x) = (if length (tc_DeviceIDs x) = 2 then CHR ''p'' else CHR ''['')" if "tc_DeviceIDs x \<noteq> []" for x
  proof -
    have "\<exists>ids. cycleKey (tc_DeviceIDs x) = Sprint ids" using that by (auto simp: cycleKey_def Let_def)
    then obtain ids where "cycleKey (tc_DeviceIDs x) = CHR ''['' # tl (Sprint ids)" using Sprint_hd by metis
    then show ?thesis by (simp add: cycle_key_of_def pair_prefix_def)
  qed
  from this [OF assms(2)] this [OF assms(3)] have
    "(if length (tc_DeviceIDs c) = 2 then CHR ''p'' else CHR ''['') = (if length (tc_DeviceIDs d) = 2 then CHR ''p'' else CHR ''['')"
    by (simp only: assms(1))
  then show ?thesis by (simp split: if_splits)
qed

lemma pair_prefix_inj: "length xs = 2 \<longleftrightarrow> length ys = 2 \<Longrightarrow> pair_prefix xs k = pair_prefix ys l \<Longrightarrow> k = l"
  by (auto simp: pair_prefix_def split: if_splits)

lemma same_loop_mset: "same_loop c d \<Longrightarrow> mset d = mset c"
proof -
  have "mset (rotate k xs) = mset xs" for k and xs :: "'a list"
  proof (induction k)
    case (Suc k)
    have "mset (rotate1 ys) = mset ys" for ys :: "'a list" by (cases ys) auto
    then show ?case using Suc by (simp only: rotate_Suc)
  qed simp
  then show "same_loop c d \<Longrightarrow> mset d = mset c" unfolding same_loop_def by (metis mset_rev)
qed

text \<open>The loops of the graph and the parallel pairs, before the report is finished\<close>
definition found_cycles :: "(device_id \<Rightarrow> device_id \<Rightarrow> bool) \<Rightarrow> (device_id \<Rightarrow> device_id \<Rightarrow> bool) \<Rightarrow> TopologyCycle list \<Rightarrow> bool" where
  "found_cycles E par cs \<longleftrightarrow>
     (\<forall>c\<in>set cs. is_loop E (tc_DeviceIDs c) \<or> (\<exists>a b. tc_DeviceIDs c = [a, b] \<and> a \<le> b \<and> par a b))
     \<and> ((\<exists>p. is_loop E p) \<longrightarrow> (\<exists>c\<in>set cs. is_loop E (tc_DeviceIDs c)))
     \<and> (\<forall>a b. par a b \<longrightarrow> a \<le> b \<and> (\<exists>c\<in>set cs. tc_DeviceIDs c = [a, b]))"

lemma found_ids: "found_cycles E par cs \<Longrightarrow> c \<in> set cs \<Longrightarrow> tc_DeviceIDs c \<noteq> []"
  by (auto simp: found_cycles_def is_loop_def)

lemma found_kind:
  assumes "found_cycles E par cs" "c \<in> set cs"
  shows "(length (tc_DeviceIDs c) \<noteq> 2 \<and> is_loop E (tc_DeviceIDs c))
    \<or> (\<exists>a b. tc_DeviceIDs c = [a, b] \<and> a \<le> b \<and> par a b)"
  using assms by (fastforce simp: found_cycles_def is_loop_def)

lemma finish_found:
  assumes f: "found_cycles E par cs"
  shows "found_cycles E par (finish_cycles cs)
    \<and> (\<forall>c\<in>set (finish_cycles cs). \<forall>d\<in>set (finish_cycles cs). same_loop (tc_DeviceIDs c) (tc_DeviceIDs d) \<longrightarrow> c = d)"
proof -
  note s = finish_spec [of cs]
  have from_cs: "\<exists>c'\<in>set cs. tc_DeviceIDs c = tc_DeviceIDs c'" if "c \<in> set (finish_cycles cs)" for c
    using s that by blast
  have kind: "(length (tc_DeviceIDs c) \<noteq> 2 \<and> is_loop E (tc_DeviceIDs c)) \<or> (\<exists>a b. tc_DeviceIDs c = [a, b] \<and> a \<le> b \<and> par a b)"
    and ne: "tc_DeviceIDs c \<noteq> []" if "c \<in> set (finish_cycles cs)" for c
  proof -
    obtain c' where c': "c' \<in> set cs" "tc_DeviceIDs c = tc_DeviceIDs c'" using from_cs \<open>c \<in> set (finish_cycles cs)\<close> by blast
    show "(length (tc_DeviceIDs c) \<noteq> 2 \<and> is_loop E (tc_DeviceIDs c)) \<or> (\<exists>a b. tc_DeviceIDs c = [a, b] \<and> a \<le> b \<and> par a b)"
      unfolding c'(2) by (rule found_kind [OF f c'(1)])
    show "tc_DeviceIDs c \<noteq> []" unfolding c'(2) by (rule found_ids [OF f c'(1)])
  qed
  have rep: "\<exists>c\<in>set (finish_cycles cs). cycle_key_of c = cycle_key_of c'" if "c' \<in> set cs" for c' using s that by blast
  have loops: "\<exists>c\<in>set (finish_cycles cs). is_loop E (tc_DeviceIDs c)" if "\<exists>p. is_loop E p"
  proof -
    from that f obtain c' where c': "c' \<in> set cs" "is_loop E (tc_DeviceIDs c')" unfolding found_cycles_def by blast
    from rep [OF this(1)] obtain c where c: "c \<in> set (finish_cycles cs)" "cycle_key_of c = cycle_key_of c'" by blast
    have "length (tc_DeviceIDs c') \<noteq> 2" using c'(2) by (simp add: is_loop_def)
    then have "length (tc_DeviceIDs c) \<noteq> 2" using cycle_key_length [OF c(2) ne [OF c(1)] found_ids [OF f c'(1)]] by blast
    then show ?thesis using kind [OF c(1)] c(1) by auto
  qed
  have pairs: "a \<le> b \<and> (\<exists>c\<in>set (finish_cycles cs). tc_DeviceIDs c = [a, b])" if "par a b" for a b
  proof -
    from that f obtain c' where ab: "a \<le> b" and c': "c' \<in> set cs" "tc_DeviceIDs c' = [a, b]" unfolding found_cycles_def by blast
    from rep [OF c'(1)] obtain c where c: "c \<in> set (finish_cycles cs)" "cycle_key_of c = cycle_key_of c'" by blast
    have len: "length (tc_DeviceIDs c) = 2" using cycle_key_length [OF c(2) ne [OF c(1)] found_ids [OF f c'(1)]] c'(2) by simp
    then obtain a' b' where ids: "tc_DeviceIDs c = [a', b']" "a' \<le> b'" using kind [OF c(1)] by auto
    have "cycleKey [a', b'] = cycleKey [a, b]" using c(2) pair_prefix_inj [of "[a', b']" "[a, b]"] by (simp add: cycle_key_of_def ids c'(2))
    then have "[a', b'] = [a, b]" using Sprint_inj by (simp add: cycleKey_pair ids ab del: list.inject)
    then show ?thesis using ab c(1) ids(1) by metis
  qed
  have same: "c = d" if cd: "c \<in> set (finish_cycles cs)" "d \<in> set (finish_cycles cs)" "same_loop (tc_DeviceIDs c) (tc_DeviceIDs d)" for c d
  proof -
    have len: "length (tc_DeviceIDs c) = length (tc_DeviceIDs d)" using same_loop_mset [OF cd(3)] by (metis size_mset)
    have "cycleKey (tc_DeviceIDs c) = cycleKey (tc_DeviceIDs d)"
    proof (cases "length (tc_DeviceIDs c) = 2")
      case True
      then obtain a b a' b' where ids: "tc_DeviceIDs c = [a, b]" "a \<le> b" "tc_DeviceIDs d = [a', b']" "a' \<le> b'"
        using kind [OF cd(1)] kind [OF cd(2)] len by auto
      have "sort [a, b] = [a', b']" using same_loop_mset [OF cd(3)] ids by (intro properties_for_sort) auto
      then show ?thesis using ids by (simp add: insort_is_Cons)
    next
      case False
      then show ?thesis using kind [OF cd(1)] kind [OF cd(2)] len cd(3) ne [OF cd(1)] ne [OF cd(2)]
        by (subst cycleKey_same_loop) (auto simp: is_loop_def)
    qed
    then have "cycle_key_of c = cycle_key_of d" using len by (simp add: cycle_key_of_def pair_prefix_def)
    moreover have "tc_CycleKey x = cycle_key_of x" if "x \<in> set (finish_cycles cs)" for x
      using s that by (fastforce simp: cycle_key_of_def)
    ultimately have "tc_CycleKey c = tc_CycleKey d" using cd by simp
    moreover have "inj_on tc_CycleKey (set (finish_cycles cs))" using s by (simp add: distinct_map)
    ultimately show ?thesis using cd by (meson inj_onD)
  qed
  have "\<forall>c\<in>set (finish_cycles cs). is_loop E (tc_DeviceIDs c) \<or> (\<exists>a b. tc_DeviceIDs c = [a, b] \<and> a \<le> b \<and> par a b)"
    using kind by blast
  then show ?thesis unfolding found_cycles_def using loops pairs same by (intro conjI impI allI ballI) blast+
qed

lemma is_loop_cong: "(\<And>x y. E x y \<longleftrightarrow> F x y) \<Longrightarrow> is_loop E c \<longleftrightarrow> is_loop F c"
  by (simp add: is_loop_def)

lemma set_update_subset: "set (AList.update k v m) \<subseteq> insert (k, v) (set m)"
  by (induction m) auto

lemma adj_nodes_push: "adj_nodes (adj_push g a b) \<subseteq> insert b (adj_nodes g)"
proof -
  have "adj_nodes (adj_push g a b) \<subseteq> set (adj_get g a @ [b]) \<union> adj_nodes g"
    using set_update_subset [of a "adj_get g a @ [b]" g] by (fastforce simp: adj_nodes_def adj_push_def)
  then show ?thesis using adj_get_nodes by fastforce
qed

lemma links_graph_nodes: "adj_nodes (links_graph ls) \<subseteq> (\<Union>l\<in>set ls. {tl_a l, tl_b l})"
proof -
  have "adj_nodes (fst (foldl (\<lambda>st l. add_pair (tl_a l) (tl_b l) st) ([], []) ls)) \<subseteq> (\<Union>l\<in>set ls. {tl_a l, tl_b l})"
  proof (induction ls rule: rev_induct)
    case Nil
    show ?case by (simp add: adj_nodes_def)
  next
    case (snoc l ls)
    define st where "st = foldl (\<lambda>st l. add_pair (tl_a l) (tl_b l) st) ([], []) ls"
    have "adj_nodes (fst (add_pair (tl_a l) (tl_b l) st)) \<subseteq> insert (tl_a l) (insert (tl_b l) (adj_nodes (fst st)))"
    proof -
      have "adj_nodes (adj_push (adj_push (fst st) (tl_a l) (tl_b l)) (tl_b l) (tl_a l))
          \<subseteq> insert (tl_a l) (insert (tl_b l) (adj_nodes (fst st)))"
        by (rule subset_trans [OF adj_nodes_push insert_mono [OF adj_nodes_push]])
      then show ?thesis by (cases st) (auto simp: add_pair_def)
    qed
    then show ?case using snoc.IH by (auto simp: st_def [symmetric])
  qed
  moreover have "adj_nodes (sort_neighbours g) = adj_nodes g" for g
    by (auto simp: adj_nodes_def sort_neighbours_def)
  ultimately show ?thesis by (simp add: links_graph_def)
qed

lemma search_finds:
  assumes adj: "adj = links_graph links" and pos: "\<forall>l\<in>set links. 0 < tl_a l \<and> 0 < tl_b l"
    and E: "\<And>x y. linked adj x y \<longleftrightarrow> E x y"
    and par: "\<And>c. c \<in> set pc \<Longrightarrow> \<exists>a b. tc_DeviceIDs c = [a, b]"
      "\<And>a b. par a b \<longleftrightarrow> (\<exists>c\<in>set pc. tc_DeviceIDs c = [a, b])" "\<And>a b. par a b \<Longrightarrow> a \<le> b"
  shows "found_cycles E par (findUndirectedCycles adj links names @ pc)"
proof -
  have "-1 \<notin> adj_nodes adj" using links_graph_nodes [of links] pos by (fastforce simp: adj)
  moreover have "symmetric adj" using symmetric_links_graph adj by simp
  ultimately have s: "\<forall>c\<in>set (findUndirectedCycles adj links names). is_loop (linked adj) (tc_DeviceIDs c)"
    "findUndirectedCycles adj links names = [] \<longleftrightarrow> (\<nexists>p. is_loop (linked adj) p)"
    using findUndirectedCycles_spec by blast+
  have cong: "is_loop (linked adj) p \<longleftrightarrow> is_loop E p" for p by (rule is_loop_cong [OF E])
  have some: "\<exists>c\<in>set (findUndirectedCycles adj links names). is_loop E (tc_DeviceIDs c)" if "\<exists>p. is_loop E p"
    using s that unfolding cong by (metis list.set_sel(1))
  show ?thesis unfolding found_cycles_def using s(1) some par unfolding cong set_append by blast
qed

text \<open>
  C5. The report lists the loops of the topology it looks at, each once: every entry is a loop of at least three
  online devices or a pair with parallel links, a loop is reported whenever the topology has one, all parallel pairs
  are reported, and no two entries are the same loop read in another way.
\<close>
theorem BuildLoopReport_exact:
  assumes rep: "BuildLoopReport env protocol = Some rep"
    and ord: "\<forall>xs. set (le_ord env xs) = set xs"
    and ids: "\<forall>g. le_graph env (live_proto protocol) = Some g \<longrightarrow> (\<forall>e\<in>set (tg_Edges g). 0 < te_LocalDeviceID e)"
  shows "(\<forall>c\<in>set (lr_Cycles rep). is_loop (report_links env protocol) (tc_DeviceIDs c)
        \<or> (\<exists>a b. tc_DeviceIDs c = [a, b] \<and> parallel_pair env protocol a b))
    \<and> ((\<exists>p. is_loop (report_links env protocol) p) \<longrightarrow>
        (\<exists>c\<in>set (lr_Cycles rep). is_loop (report_links env protocol) (tc_DeviceIDs c)))
    \<and> (\<forall>a b. parallel_pair env protocol a b \<longrightarrow> (\<exists>c\<in>set (lr_Cycles rep). tc_DeviceIDs c = [a, b]))
    \<and> (\<forall>c\<in>set (lr_Cycles rep). \<forall>d\<in>set (lr_Cycles rep). same_loop (tc_DeviceIDs c) (tc_DeviceIDs d) \<longrightarrow> c = d)"
proof -
  let ?on = "Some (deviceOnlineMap env)"
  have "\<exists>cs. lr_Cycles rep = finish_cycles cs \<and> found_cycles (report_links env protocol) (parallel_pair env protocol) cs"
  proof (cases "cached_edges env protocol")
    case (Some es)
    define links where "links = map blast_link (filter (blast_usable ?on) es)"
    have cycles: "lr_Cycles rep = finish_cycles (findUndirectedCycles (links_graph links) links (deviceNames env) @ [])"
      using rep by (auto simp: BuildLoopReport_def Some buildUndirectedFromBlast_def links_def Let_def)
    have "found_cycles (report_links env protocol) (parallel_pair env protocol)
        (findUndirectedCycles (links_graph links) links (deviceNames env) @ [])"
    proof (rule search_finds [OF refl])
      show "\<forall>l\<in>set links. 0 < tl_a l \<and> 0 < tl_b l" by (auto simp: links_def blast_usable_def blast_link_def Let_def)
      show "linked (links_graph links) x y \<longleftrightarrow> report_links env protocol x y" for x y
        unfolding linked_links_graph links_def report_links_def report_edges_def Some
        unfolding blast_link_pair [of _ x y, symmetric] by auto
      show "parallel_pair env protocol a b \<longleftrightarrow> (\<exists>c\<in>set []. tc_DeviceIDs c = [a, b])" for a b
        by (simp add: parallel_pair_def report_edges_def Some)
      show "parallel_pair env protocol a b \<Longrightarrow> a \<le> b" for a b by (auto simp: parallel_pair_def dest: edge_pair_le)
    qed simp
    with cycles show ?thesis by blast
  next
    case None
    obtain g where g: "le_graph env (live_proto protocol) = Some g"
      using rep by (cases "le_graph env (live_proto protocol)") (auto simp: BuildLoopReport_def None)
    define links where "links = le_ord env (map snd (seen_links (tg_Edges g) ?on))"
    define names where "names = (\<lambda>d. text_of (node_names (tg_Nodes g) d))"
    define pc where "pc = parallelLinkCyclesFromEdges (tg_Edges g) names ?on"
    have cycles: "lr_Cycles rep = finish_cycles (findUndirectedCycles (links_graph links) links names @ pc)"
      using rep by (auto simp: BuildLoopReport_def None g buildUndirectedLLDPGraph_def links_def names_def pc_def Let_def)
    have edges: "report_edges env protocol = filter (live_usable ?on) (tg_Edges g)" by (simp add: report_edges_def None g)
    have "found_cycles (report_links env protocol) (parallel_pair env protocol)
        (findUndirectedCycles (links_graph links) links names @ pc)"
    proof (rule search_finds [OF refl])
      show "\<forall>l\<in>set links. 0 < tl_a l \<and> 0 < tl_b l"
      proof
        fix l assume "l \<in> set links"
        then obtain k where "(k, l) \<in> set (seen_links (tg_Edges g) ?on)" using ord by (auto simp: links_def)
        from seen_from [OF this] obtain e where "e \<in> set (tg_Edges g)" "live_usable ?on e" "l = live_link e" by blast
        then show "0 < tl_a l \<and> 0 < tl_b l" using ids g
          by (auto simp: live_usable_def live_link_def Let_def split: option.splits)
      qed
      show "linked (links_graph links) x y \<longleftrightarrow> report_links env protocol x y" for x y
      proof -
        have "linked (links_graph links) x y \<longleftrightarrow> linked (snd (buildUndirectedLLDPGraph (le_ord env) (tg_Edges g) ?on)) x y"
          by (simp add: buildUndirectedLLDPGraph_def links_def Let_def)
        also have "\<dots> \<longleftrightarrow> (\<exists>e\<in>set (tg_Edges g). live_usable ?on e \<and> (\<exists>r. te_RemoteDeviceID e = Some r \<and> {x, y} = {te_LocalDeviceID e, r}))"
          using ids g ord by (intro linked_live) auto
        also have "\<dots> \<longleftrightarrow> report_links env protocol x y" by (auto simp: report_links_def edges None)
        finally show ?thesis .
      qed
      show "c \<in> set pc \<Longrightarrow> \<exists>a b. tc_DeviceIDs c = [a, b]" for c unfolding pc_def by (rule parallel_cycles_exact(2))
      show "parallel_pair env protocol a b \<longleftrightarrow> (\<exists>c\<in>set pc. tc_DeviceIDs c = [a, b])" for a b
        unfolding pc_def parallel_cycles_exact(1) parallel_pair_def edges by (rule refl)
      show "parallel_pair env protocol a b \<Longrightarrow> a \<le> b" for a b by (auto simp: parallel_pair_def dest: edge_pair_le)
    qed
    with cycles show ?thesis by blast
  qed
  then obtain cs where cs: "lr_Cycles rep = finish_cycles cs" "found_cycles (report_links env protocol) (parallel_pair env protocol) cs"
    by blast
  show ?thesis unfolding cs(1) using finish_found [OF cs(2)] unfolding found_cycles_def by blast
qed

definition square_env :: loop_env where
  "square_env = \<lparr>le_devices = Some [(1, ''a'', ''h1'', True), (2, '''', ''h2'', True), (3, ''c'', ''h3'', True), (4, ''d'', ''h4'', False)],
     le_cache = None,
     le_graph = (\<lambda>p. Some \<lparr>tg_Nodes = [], tg_Edges =
       map (\<lambda>(a, i, b). \<lparr>te_LocalDeviceID = a, te_LocalIfIndex = i, te_LocalIfName = None, te_RemoteDeviceID = Some b,
              te_RemoteIfName = None, te_Protocol = ''lldp'', te_Stale = False\<rparr>)
         [(1, 1, 2), (2, 1, 1), (2, 2, 3), (3, 1, 1), (3, 2, 1), (3, 4, 4), (4, 1, 1)]\<rparr>),
     le_ord = rev\<rparr>"

lemma build_live: "cached_edges env protocol = None \<Longrightarrow> le_graph env (live_proto protocol) = Some g \<Longrightarrow>
  map_option (map tc_DeviceIDs \<circ> lr_Cycles) (BuildLoopReport env protocol) = Some (map tc_DeviceIDs (finish_cycles
    (findUndirectedCycles (snd (buildUndirectedLLDPGraph (le_ord env) (tg_Edges g) (Some (deviceOnlineMap env))))
       (fst (buildUndirectedLLDPGraph (le_ord env) (tg_Edges g) (Some (deviceOnlineMap env)))) (\<lambda>d. text_of (node_names (tg_Nodes g) d))
     @ parallelLinkCyclesFromEdges (tg_Edges g) (\<lambda>d. text_of (node_names (tg_Nodes g) d)) (Some (deviceOnlineMap env)))))"
  by (simp add: BuildLoopReport_def Let_def case_prod_beta)

lemma build_cached: "cached_edges env protocol = Some es \<Longrightarrow>
  map_option (map tc_DeviceIDs \<circ> lr_Cycles) (BuildLoopReport env protocol) = Some (map tc_DeviceIDs (finish_cycles
    (findUndirectedCycles (snd (buildUndirectedFromBlast es (Some (deviceOnlineMap env))))
       (fst (buildUndirectedFromBlast es (Some (deviceOnlineMap env)))) (deviceNames env))))"
  by (simp add: BuildLoopReport_def Let_def case_prod_beta)

definition two_cables :: loop_env where
  "two_cables = square_env\<lparr>le_graph := (\<lambda>p. Some \<lparr>tg_Nodes = [], tg_Edges = map (\<lambda>i. \<lparr>te_LocalDeviceID = 1, te_LocalIfIndex = i,
       te_LocalIfName = None, te_RemoteDeviceID = Some 2, te_RemoteIfName = None, te_Protocol = ''lldp'', te_Stale = False\<rparr>) [1, 2]\<rparr>),
     le_cache := Some [\<lparr>be_ADeviceID = 1, be_BDeviceID = 2, be_AIfIndex = 1, be_BIfIndex = 0, be_Protocols = ''lldp''\<rparr>]\<rparr>"

lemma live_cached: "cached_edges square_env ''live'' = None" "live_proto ''live'' = ''lldp''" "cached_edges two_cables ''live'' = None"
  "cached_edges two_cables [] = Some [\<lparr>be_ADeviceID = 1, be_BDeviceID = 2, be_AIfIndex = 1, be_BIfIndex = 0, be_Protocols = ''lldp''\<rparr>]"
  by code_simp+

lemma square_report: "map_option (map tc_DeviceIDs \<circ> lr_Cycles) (BuildLoopReport square_env ''live'') = Some [[1, 3], [1, 2, 3]]"
proof -
  obtain g where g: "le_graph square_env (live_proto ''live'') = Some g" "g = the (le_graph square_env ''lldp'')"
    by (simp add: live_cached square_env_def)
  show ?thesis unfolding build_live [OF live_cached(1) g(1)] g(2) by code_simp
qed
theorem BuildLoopReport_exact_witness:
  "\<exists>rep. BuildLoopReport square_env ''live'' = Some rep
     \<and> (\<forall>c\<in>set (lr_Cycles rep). is_loop (report_links square_env ''live'') (tc_DeviceIDs c)
        \<or> (\<exists>a b. tc_DeviceIDs c = [a, b] \<and> parallel_pair square_env ''live'' a b))"
proof -
  obtain rep where rep: "BuildLoopReport square_env ''live'' = Some rep" using square_report by (cases "BuildLoopReport square_env ''live''") auto
  have "\<forall>xs. set (le_ord square_env xs) = set xs" by (simp add: square_env_def)
  moreover have "\<forall>g. le_graph square_env (live_proto ''live'') = Some g \<longrightarrow> (\<forall>e\<in>set (tg_Edges g). 0 < te_LocalDeviceID e)"
    by (auto simp: square_env_def)
  ultimately show ?thesis using BuildLoopReport_exact [OF rep] rep by blast
qed

text \<open>
  The stored graph, which the report prefers, holds one edge for a pair of devices: two cables between them are a
  loop for the live topology only.
\<close>
lemma stored_graph_hides_parallel:
  "map_option (map tc_DeviceIDs \<circ> lr_Cycles) (BuildLoopReport two_cables ''live'') = Some [[1, 2]]
    \<and> map_option (map tc_DeviceIDs \<circ> lr_Cycles) (BuildLoopReport two_cables []) = Some []"
proof
  obtain g where g: "le_graph two_cables (live_proto ''live'') = Some g" "g = the (le_graph two_cables ''lldp'')"
    by (simp add: live_cached two_cables_def)
  show "map_option (map tc_DeviceIDs \<circ> lr_Cycles) (BuildLoopReport two_cables ''live'') = Some [[1, 2]]"
    unfolding build_live [OF live_cached(3) g(1)] g(2) by code_simp
  show "map_option (map tc_DeviceIDs \<circ> lr_Cycles) (BuildLoopReport two_cables []) = Some []"
    unfolding build_cached [OF live_cached(4)] by code_simp
qed

end
