(* ===== verification/Loop_Watch.thy ===== *)
theory Loop_Watch
  imports Topology_Loops
begin

text \<open>
  The watch for new loops (\<open>internal/loopwatch/loopwatch.go\<close>): at the start of the server the keys of the loops
  that are there are learned without an event, and every later pass sends \<open>L2_LOOP_APPEARED\<close> for the loops whose
  key is new. A pass has one instant; what the database answers is an argument.
\<close>

text \<open>An event \<open>L2_LOOP_APPEARED\<close>: key of the loop, device, time\<close>
type_synonym loop_event = "string \<times> device_id \<times> time"

record watch =
  lw_busy :: bool
  lw_known :: "string list"
  lw_seeded :: bool
  lw_log :: "loop_event list"

text \<open>Whether the lookup of an earlier event and the insertion of a new one succeed, by key\<close>
record watch_db =
  wd_lookup :: "string \<Rightarrow> bool"
  wd_insert :: "string \<Rightarrow> bool"

definition day :: duration where "day = 86400000000000"

definition HasLoopCycleEventSince :: "loop_event list \<Rightarrow> string \<Rightarrow> time \<Rightarrow> bool" where
  "HasLoopCycleEventSince lg key since \<longleftrightarrow> key \<noteq> [] \<and> list_ex (\<lambda>(k, _, t). k = key \<and> since \<le> t) lg"

definition emitAppeared :: "watch_db \<Rightarrow> time \<Rightarrow> TopologyCycle \<Rightarrow> string \<Rightarrow> loop_event list \<Rightarrow> bool \<times> loop_event list" where
  "emitAppeared db now c key lg =
     (let deviceID = (case tc_DeviceIDs c of [] \<Rightarrow> 0 | d # _ \<Rightarrow> d)
      in if deviceID \<le> 0 then (False, lg)
         else if \<not> wd_lookup db key then (False, lg)
         else if HasLoopCycleEventSince lg key (now - day) then (False, lg)
         else if \<not> wd_insert db key then (False, lg)
         else (True, (key, deviceID, now) # lg))"

definition watch_cycle :: "watch_db \<Rightarrow> time \<Rightarrow> bool \<Rightarrow> TopologyCycle \<Rightarrow> watch \<Rightarrow> watch" where
  "watch_cycle db now seedOnly c h =
     (let key = CycleKeyFor c
      in if key = [] then h
         else let seen = (key \<in> set (lw_known h));
                  h = (if seen then h else h\<lparr>lw_known := key # lw_known h\<rparr>)
              in if seedOnly \<or> seen then h else h\<lparr>lw_log := snd (emitAppeared db now c key (lw_log h))\<rparr>)"

text \<open>A pass; \<open>None\<close> for a report that could not be built. \<open>busy\<close> is set while it runs and cleared at the end.\<close>
definition runOnce :: "watch_db \<Rightarrow> time \<Rightarrow> LoopReport option \<Rightarrow> bool \<Rightarrow> watch \<Rightarrow> watch" where
  "runOnce db now rep seedOnly h =
     (if lw_busy h then h
      else case rep of None \<Rightarrow> h
        | Some r \<Rightarrow> let h = fold (watch_cycle db now seedOnly) (lr_Cycles r) h
                    in if seedOnly then h\<lparr>lw_seeded := True\<rparr> else h)"

text \<open>A server that starts learns the loops; afterwards it passes at every tick.\<close>
datatype watch_step =
    Start watch_db time "LoopReport option"
  | Tick watch_db time "LoopReport option"

definition NewHub :: "loop_event list \<Rightarrow> watch" where
  "NewHub lg = \<lparr>lw_busy = False, lw_known = [], lw_seeded = False, lw_log = lg\<rparr>"

fun watch_run :: "watch_step \<Rightarrow> watch \<Rightarrow> watch" where
  "watch_run (Start db now rep) h = runOnce db now rep True (NewHub (lw_log h))"
| "watch_run (Tick db now rep) h = runOnce db now rep False h"

section \<open>What is reported\<close>

text \<open>Two events of a loop lie more than a day apart; the latest event comes first.\<close>
definition day_apart :: "loop_event list \<Rightarrow> bool" where
  "day_apart lg \<longleftrightarrow> sorted_wrt (\<lambda>(k, _, t) (k', _, t'). k = k' \<longrightarrow> t' + day < t) lg"

lemma emitAppeared_apart:
  assumes "day_apart lg" "key \<noteq> []" shows "day_apart (snd (emitAppeared db now c key lg))"
  using assms by (auto simp: emitAppeared_def Let_def day_apart_def HasLoopCycleEventSince_def list_ex_iff)

lemma watch_cycle_apart: "day_apart (lw_log h) \<Longrightarrow> day_apart (lw_log (watch_cycle db now seedOnly c h))"
  using emitAppeared_apart by (simp add: watch_cycle_def Let_def)

lemma watch_fold_apart: "day_apart (lw_log h) \<Longrightarrow> day_apart (lw_log (fold (watch_cycle db now seedOnly) cs h))"
  by (induction cs arbitrary: h) (simp_all add: watch_cycle_apart)

lemma runOnce_apart: "day_apart (lw_log h) \<Longrightarrow> day_apart (lw_log (runOnce db now rep seedOnly h))"
  by (cases rep) (simp_all add: runOnce_def Let_def watch_fold_apart)

text \<open>Whether a pass at \<open>now\<close> can report a loop: the database works and holds no event of the last day.\<close>
definition can_report :: "watch_db \<Rightarrow> time \<Rightarrow> loop_event list \<Rightarrow> string \<Rightarrow> bool" where
  "can_report db now lg k \<longleftrightarrow> wd_lookup db k \<and> wd_insert db k \<and> \<not> HasLoopCycleEventSince lg k (now - day)"

definition new_events :: "watch_db \<Rightarrow> time \<Rightarrow> string set \<Rightarrow> loop_event list \<Rightarrow> TopologyCycle list \<Rightarrow> loop_event list \<Rightarrow> bool" where
  "new_events db now K lg cs new \<longleftrightarrow> distinct (map fst new)
     \<and> (\<forall>e\<in>set new. snd (snd e) = now \<and> fst e \<notin> K \<and> can_report db now lg (fst e)
          \<and> (\<exists>c\<in>set cs. fst e = CycleKeyFor c \<and> fst (snd e) = hd (tc_DeviceIDs c)))
     \<and> (\<forall>c\<in>set cs. CycleKeyFor c \<noteq> [] \<longrightarrow> CycleKeyFor c \<notin> K \<longrightarrow> can_report db now lg (CycleKeyFor c) \<longrightarrow> CycleKeyFor c \<in> fst ` set new)"

lemma new_events_skip:
  assumes "new_events db now K lg cs new"
    "CycleKeyFor c = [] \<or> CycleKeyFor c \<in> K \<or> CycleKeyFor c \<in> CycleKeyFor ` set cs \<or> \<not> can_report db now lg (CycleKeyFor c)"
  shows "new_events db now K lg (cs @ [c]) new"
proof -
  have old: "\<forall>c\<in>set cs. CycleKeyFor c \<noteq> [] \<longrightarrow> CycleKeyFor c \<notin> K \<longrightarrow> can_report db now lg (CycleKeyFor c) \<longrightarrow> CycleKeyFor c \<in> fst ` set new"
    using assms(1) unfolding new_events_def by (elim conjE)
  have "CycleKeyFor c \<in> fst ` set new"
    if new: "CycleKeyFor c \<noteq> []" "CycleKeyFor c \<notin> K" "can_report db now lg (CycleKeyFor c)"
  proof -
    from assms(2) new obtain c0 where c0: "c0 \<in> set cs" "CycleKeyFor c = CycleKeyFor c0" by blast
    from bspec [OF old c0(1)] show ?thesis using new unfolding c0(2) by blast
  qed
  with assms(1) show ?thesis unfolding new_events_def by simp
qed

lemma new_events_add:
  assumes "new_events db now K lg cs new" "CycleKeyFor c \<notin> K" "CycleKeyFor c \<notin> fst ` set new" "can_report db now lg (CycleKeyFor c)"
  shows "new_events db now K lg (cs @ [c]) ((CycleKeyFor c, hd (tc_DeviceIDs c), now) # new)"
  using assms unfolding new_events_def by simp

lemma emitAppeared_log:
  assumes "tc_DeviceIDs c \<noteq> []" "0 < hd (tc_DeviceIDs c)"
  shows "snd (emitAppeared db now c k lg) = (if can_report db now lg k then (k, hd (tc_DeviceIDs c), now) # lg else lg)"
  using assms by (cases "tc_DeviceIDs c") (auto simp: emitAppeared_def can_report_def Let_def)

lemma can_report_append:
  "k \<notin> fst ` set new \<Longrightarrow> can_report db now (new @ lg) k \<longleftrightarrow> can_report db now lg k"
  by (force simp: can_report_def HasLoopCycleEventSince_def list_ex_iff)

lemma watch_fold:
  assumes "h' = fold (watch_cycle db now False) cs h" "\<forall>c\<in>set cs. tc_DeviceIDs c \<noteq> [] \<and> 0 < hd (tc_DeviceIDs c)"
  shows "(\<exists>new. lw_log h' = new @ lw_log h \<and> new_events db now (set (lw_known h)) (lw_log h) cs new)
      \<and> set (lw_known h') = set (lw_known h) \<union> (CycleKeyFor ` set cs - {[]}) \<and> lw_busy h' = lw_busy h"
  using assms
proof (induction cs arbitrary: h' rule: rev_induct)
  case Nil
  then show ?case by (auto simp: new_events_def intro: exI [of _ "[]"])
next
  case (snoc c cs)
  define h1 where "h1 = fold (watch_cycle db now False) cs h"
  define k where "k = CycleKeyFor c"
  let ?K = "set (lw_known h)" and ?lg = "lw_log h"
  have dev: "tc_DeviceIDs c \<noteq> []" "0 < hd (tc_DeviceIDs c)" using snoc.prems(2) by auto
  obtain new where new: "lw_log h1 = new @ ?lg" "new_events db now ?K ?lg cs new"
    and known: "set (lw_known h1) = ?K \<union> (CycleKeyFor ` set cs - {[]})" and busy: "lw_busy h1 = lw_busy h"
    using snoc.IH [OF h1_def] snoc.prems(2) by auto
  have h': "h' = watch_cycle db now False c h1" by (simp add: snoc.prems h1_def)
  show ?case
  proof (cases "k = [] \<or> k \<in> set (lw_known h1)")
    case True
    then have "h' = h1" by (auto simp: h' watch_cycle_def k_def Let_def)
    moreover have "new_events db now ?K ?lg (cs @ [c]) new"
      using True known by (intro new_events_skip [OF new(2)]) (auto simp: k_def)
    ultimately show ?thesis using new(1) known busy True by (auto simp: k_def)
  next
    case False
    then have h'_eq: "h' = h1\<lparr>lw_known := k # lw_known h1, lw_log := snd (emitAppeared db now c k (lw_log h1))\<rparr>"
      by (simp add: h' watch_cycle_def k_def Let_def)
    have fresh: "k \<notin> ?K" "k \<notin> CycleKeyFor ` set cs" using False known by auto
    have "k \<notin> fst ` set new"
    proof
      assume "k \<in> fst ` set new"
      then obtain e where "e \<in> set new" "fst e = k" by blast
      then show False using new(2) fresh(2) unfolding new_events_def by auto
    qed
    define add where "add = (if can_report db now ?lg k then [(k, hd (tc_DeviceIDs c), now)] else [])"
    have "lw_log h' = (add @ new) @ ?lg"
      using can_report_append [OF \<open>k \<notin> fst ` set new\<close>] by (simp add: h'_eq emitAppeared_log [OF dev] new(1) add_def)
    moreover have "new_events db now ?K ?lg (cs @ [c]) (add @ new)"
      using fresh(1) \<open>k \<notin> fst ` set new\<close> new_events_add [OF new(2)] new_events_skip [OF new(2)]
      by (simp add: add_def k_def)
    ultimately show ?thesis using known False busy by (auto simp: h'_eq k_def)
  qed
qed

lemma seed_fold: "lw_log (fold (watch_cycle db now True) cs h) = lw_log h
    \<and> set (lw_known (fold (watch_cycle db now True) cs h)) = set (lw_known h) \<union> (CycleKeyFor ` set cs - {[]})
    \<and> lw_busy (fold (watch_cycle db now True) cs h) = lw_busy h"
  by (induction cs arbitrary: h) (auto simp: watch_cycle_def Let_def)

text \<open>The keys of the loops reported to the watch since the server started\<close>
definition rep_keys :: "LoopReport option \<Rightarrow> string set" where
  "rep_keys rep = (case rep of None \<Rightarrow> {} | Some r \<Rightarrow> CycleKeyFor ` set (lr_Cycles r) - {[]})"

fun keys_step :: "watch_step \<Rightarrow> string set \<Rightarrow> string set" where
  "keys_step (Start db now rep) K = rep_keys rep"
| "keys_step (Tick db now rep) K = K \<union> rep_keys rep"

fun step_report :: "watch_step \<Rightarrow> LoopReport option" where
  "step_report (Start db now rep) = rep"
| "step_report (Tick db now rep) = rep"

definition real_loops :: "LoopReport option \<Rightarrow> bool" where
  "real_loops rep \<longleftrightarrow> (\<forall>r. rep = Some r \<longrightarrow> (\<forall>c\<in>set (lr_Cycles r). tc_DeviceIDs c \<noteq> [] \<and> 0 < hd (tc_DeviceIDs c)))"

lemma tick_spec:
  assumes "real_loops rep" "\<not> lw_busy h" "h' = watch_run (Tick db now rep) h"
  shows "(\<exists>new. lw_log h' = new @ lw_log h
      \<and> new_events db now (set (lw_known h)) (lw_log h) (case rep of None \<Rightarrow> [] | Some r \<Rightarrow> lr_Cycles r) new)
    \<and> set (lw_known h') = set (lw_known h) \<union> rep_keys rep \<and> \<not> lw_busy h'"
proof (cases rep)
  case None
  then show ?thesis using assms(2,3) by (auto simp: runOnce_def rep_keys_def new_events_def intro: exI [of _ "[]"])
next
  case (Some r)
  have "h' = fold (watch_cycle db now False) (lr_Cycles r) h" using assms(2,3) by (simp add: runOnce_def Some)
  from watch_fold [OF this] assms(1,2) show ?thesis by (simp add: Some rep_keys_def real_loops_def)
qed

lemma start_spec:
  assumes "h' = watch_run (Start db now rep) h"
  shows "lw_log h' = lw_log h \<and> set (lw_known h') = rep_keys rep \<and> \<not> lw_busy h'"
  using assms seed_fold [of db now _ "NewHub (lw_log h)"]
  by (cases rep) (simp_all add: runOnce_def rep_keys_def NewHub_def Let_def)

lemma watch_history:
  assumes "\<forall>s\<in>set steps. real_loops (step_report s)" "h = fold watch_run steps (NewHub [])"
  shows "set (lw_known h) = fold keys_step steps {} \<and> day_apart (lw_log h) \<and> \<not> lw_busy h"
  using assms
proof (induction steps arbitrary: h rule: rev_induct)
  case Nil
  then show ?case by (simp add: NewHub_def day_apart_def)
next
  case (snoc s steps)
  define h1 where "h1 = fold watch_run steps (NewHub [])"
  have IH: "set (lw_known h1) = fold keys_step steps {}" "day_apart (lw_log h1)" "\<not> lw_busy h1"
    using snoc.IH [OF _ h1_def] snoc.prems(1) by auto
  have h: "h = watch_run s h1" by (simp add: snoc.prems h1_def)
  show ?case
  proof (cases s)
    case (Start db now rep)
    from start_spec [OF h [unfolded Start]] IH show ?thesis by (simp add: Start)
  next
    case (Tick db now rep)
    have "day_apart (lw_log h)" using runOnce_apart [OF IH(2)] by (simp add: h Tick)
    moreover have "real_loops rep" using snoc.prems(1) by (simp add: Tick)
    ultimately show ?thesis using tick_spec [OF _ IH(3) h [unfolded Tick]] IH(1) by (simp add: Tick)
  qed
qed

text \<open>
  C12. Along any history of starts and passes, a pass reports exactly the loops whose key was in no report since the
  server started and that were not reported in the last day, each once, as far as the database works; two events of
  a loop lie more than a day apart.
\<close>
theorem watch_reports_new_loops:
  assumes "\<forall>s\<in>set steps. real_loops (step_report s)" "real_loops (Some rep)"
    and "h = fold watch_run steps (NewHub [])" "h' = watch_run (Tick db now (Some rep)) h"
  shows "day_apart (lw_log h') \<and> (\<exists>new. lw_log h' = new @ lw_log h
    \<and> new_events db now (fold keys_step steps {}) (lw_log h) (lr_Cycles rep) new)"
proof -
  from watch_history [OF assms(1,3)] have h: "set (lw_known h) = fold keys_step steps {}" "day_apart (lw_log h)" "\<not> lw_busy h" by auto
  have "day_apart (lw_log h')" using runOnce_apart [OF h(2)] by (simp add: assms(4))
  then show ?thesis using tick_spec [OF assms(2) h(3) assms(4)] h(1) by simp
qed

definition all_online :: "device_id list \<Rightarrow> (device_id \<times> device_id) list \<Rightarrow> loop_env" where
  "all_online ds es = \<lparr>le_devices = Some (map (\<lambda>d. (d, ''sw'', ''host'', True)) ds),
     le_cache = Some (map (\<lambda>(a, b). \<lparr>be_ADeviceID = a, be_BDeviceID = b, be_AIfIndex = 0, be_BIfIndex = 0, be_Protocols = ''lldp''\<rparr>) es),
     le_graph = (\<lambda>p. None), le_ord = (\<lambda>xs. xs)\<rparr>"

text \<open>Loops as the watch sees them: their devices, with the key that the report gives them\<close>
definition plain_report :: "device_id list list \<Rightarrow> LoopReport" where
  "plain_report ids = \<lparr>lr_Cycles = map (\<lambda>c. \<lparr>tc_Length = int (length c), tc_DeviceIDs = c, tc_DeviceNames = [], tc_Hops = [],
       tc_Summary = [], tc_CycleKey = []\<rparr>) ids, lr_NodeCount = 0, lr_EdgeCount = 0, lr_Protocol = [], lr_Source = []\<rparr>"

definition db_works :: watch_db where
  "db_works = \<lparr>wd_lookup = \<lambda>_. True, wd_insert = \<lambda>_. True\<rparr>"

definition db_read_only :: watch_db where
  "db_read_only = \<lparr>wd_lookup = \<lambda>_. True, wd_insert = \<lambda>_. False\<rparr>"

theorem watch_reports_new_loops_witness:
  "let h = fold watch_run [Start db_works 0 (Some (plain_report [[1, 2, 3]]))] (NewHub []);
       h' = watch_run (Tick db_works 1 (Some (plain_report [[2, 1, 3], [1, 2, 4]]))) h
   in day_apart (lw_log h') \<and> lw_log h' = [(''[1 2 4]'', 1, 1)]"
proof -
  let ?r = "plain_report [[2, 1, 3], [1, 2, 4]]" and ?s = "[Start db_works 0 (Some (plain_report [[1, 2, 3]]))]"
  have "\<forall>s\<in>set ?s. real_loops (step_report s)" "real_loops (Some ?r)" by (simp_all add: real_loops_def plain_report_def)
  from watch_reports_new_loops [OF this refl refl, of db_works 1]
  have "day_apart (lw_log (watch_run (Tick db_works 1 (Some ?r)) (fold watch_run ?s (NewHub []))))" by blast
  moreover have "lw_log (watch_run (Tick db_works 1 (Some ?r)) (fold watch_run ?s (NewHub []))) = [(''[1 2 4]'', 1, 1)]"
    by code_simp
  ultimately show ?thesis by simp
qed

lemma report_links_cached:
  assumes "cached_edges env p = Some es" "e \<in> set es" "blast_usable (Some (deviceOnlineMap env)) e"
  shows "report_links env p (be_ADeviceID e) (be_BDeviceID e) \<and> report_links env p (be_BDeviceID e) (be_ADeviceID e)"
proof -
  have "{be_BDeviceID e, be_ADeviceID e} = {be_ADeviceID e, be_BDeviceID e}" by (rule insert_commute)
  then show ?thesis unfolding report_links_def using assms by (intro conjI disjI1 exI [of _ es] exI [of _ e]) simp_all
qed

text \<open>
  The search reports the loops of one spanning tree. When a link goes down, the tree changes, and a loop that was
  there all the time is reported as new.
\<close>
lemma lost_link_announces_old_loop:
  "map_option (map tc_DeviceIDs \<circ> lr_Cycles) (BuildLoopReport (all_online [1, 2, 3, 4] [(1, 2), (1, 3), (1, 4), (2, 3), (2, 4)]) [])
     = Some [[1, 2, 3], [1, 2, 4]]
   \<and> map_option (map tc_DeviceIDs \<circ> lr_Cycles) (BuildLoopReport (all_online [1, 2, 3, 4] [(1, 3), (1, 4), (2, 3), (2, 4)]) [])
     = Some [[1, 3, 2, 4]]
   \<and> is_loop (report_links (all_online [1, 2, 3, 4] [(1, 2), (1, 3), (1, 4), (2, 3), (2, 4)]) []) [1, 3, 2, 4]
   \<and> lw_log (fold watch_run [Start db_works 0 (Some (plain_report [[1, 2, 3], [1, 2, 4]])),
        Tick db_works 1 (Some (plain_report [[1, 3, 2, 4]]))] (NewHub [])) = [(''[1 3 2 4]'', 1, 1)]"
proof (intro conjI)
  have c: "cached_edges (all_online ds es) [] = (if es = [] then None
      else Some (map (\<lambda>(a, b). \<lparr>be_ADeviceID = a, be_BDeviceID = b, be_AIfIndex = 0, be_BIfIndex = 0, be_Protocols = ''lldp''\<rparr>) es))" for ds es
    by (simp add: cached_edges_def all_online_def loop_proto_def ToLower_def Let_def)
  have c1: "cached_edges (all_online ds (e # es)) []
      = Some (map (\<lambda>(a, b). \<lparr>be_ADeviceID = a, be_BDeviceID = b, be_AIfIndex = 0, be_BIfIndex = 0, be_Protocols = ''lldp''\<rparr>) (e # es))" for ds e es
    by (simp add: c)
  show "map_option (map tc_DeviceIDs \<circ> lr_Cycles) (BuildLoopReport (all_online [1, 2, 3, 4] [(1, 2), (1, 3), (1, 4), (2, 3), (2, 4)]) [])
     = Some [[1, 2, 3], [1, 2, 4]]"
    unfolding build_cached [OF c1] by code_simp
  show "map_option (map tc_DeviceIDs \<circ> lr_Cycles) (BuildLoopReport (all_online [1, 2, 3, 4] [(1, 3), (1, 4), (2, 3), (2, 4)]) [])
     = Some [[1, 3, 2, 4]]"
    unfolding build_cached [OF c1] by code_simp
  let ?es = "[(1, 2), (1, 3), (1, 4), (2, 3), (2, 4)] :: (device_id \<times> device_id) list"
  have link: "report_links (all_online [1, 2, 3, 4] ?es) [] x y \<and> report_links (all_online [1, 2, 3, 4] ?es) [] y x"
    if "(x, y) \<in> set ?es" for x y
  proof -
    let ?e = "\<lparr>be_ADeviceID = x, be_BDeviceID = y, be_AIfIndex = 0, be_BIfIndex = 0, be_Protocols = ''lldp''\<rparr>"
    have "?e \<in> set (map (\<lambda>(a, b). \<lparr>be_ADeviceID = a, be_BDeviceID = b, be_AIfIndex = 0, be_BIfIndex = 0, be_Protocols = ''lldp''\<rparr>) ?es)"
      using that unfolding set_map by (rule rev_image_eqI) simp
    moreover have "blast_usable (Some (deviceOnlineMap (all_online [1, 2, 3, 4] ?es))) ?e"
      using that by (auto simp: blast_usable_def bothOnline_def deviceOnlineMap_def all_online_def)
    ultimately show ?thesis using report_links_cached [OF c1, of ?e] by simp
  qed
  have "report_links (all_online [1, 2, 3, 4] ?es) [] 1 3" "report_links (all_online [1, 2, 3, 4] ?es) [] 3 2"
    "report_links (all_online [1, 2, 3, 4] ?es) [] 2 4" "report_links (all_online [1, 2, 3, 4] ?es) [] 4 1"
    using link [of 1 3] link [of 2 3] link [of 2 4] link [of 1 4] by simp_all
  then show "is_loop (report_links (all_online [1, 2, 3, 4] ?es) []) [1, 3, 2, 4]"
    by (intro loop_of_path) simp_all
  show "lw_log (fold watch_run [Start db_works 0 (Some (plain_report [[1, 2, 3], [1, 2, 4]])),
        Tick db_works 1 (Some (plain_report [[1, 3, 2, 4]]))] (NewHub [])) = [(''[1 3 2 4]'', 1, 1)]"
    by code_simp
qed

text \<open>The key counts as known before the event is stored: a loop whose event cannot be stored is never reported.\<close>
lemma failed_event_is_lost:
  "lw_log (fold watch_run [Start db_works 0 (Some (plain_report [])), Tick db_read_only 1 (Some (plain_report [[1, 2, 3]])),
      Tick db_works 2 (Some (plain_report [[1, 2, 3]]))] (NewHub [])) = []"
  by code_simp

end
