(* ===== verification/Notify_Batch.thy ===== *)
theory Notify_Batch
  imports Event_Log
begin

text \<open>
  Mails about devices that went offline or came back (\<open>internal/notify/hook.go\<close>): they are collected for 25
  seconds and sent together. A batch lives in a map by kind, has a timer that sends it, and can lose a card
  when the device is back within the window. Timers are numbered; a timer that was due before it is stopped still
  runs its callback, at any later time. The shutdown stops the intake, fires what is left, and closes.
\<close>

record EmailDeviceCard =
  ec_DeviceID :: int
  ec_Title :: string
  ec_Subtitle :: string
  ec_Detail :: string
  ec_Attachment :: string
  ec_StatusLine :: string
  ec_Kind :: string
  ec_Category :: string
  ec_URL :: string
  ec_OfflineDurationSec :: int

text \<open>The settings a batch is sent with; \<open>'n\<close> stands for them.\<close>
record 'n emailBatchBuf =
  eb_items :: "EmailDeviceCard list"
  eb_timer :: "nat option"
  eb_ns :: 'n

record 'n EventHook =
  eh_stopping :: bool
  eh_closed :: bool
  eh_batches :: "(string \<times> 'n emailBatchBuf) list"
  eh_timers :: "(nat \<times> string \<times> time) list"
  eh_next :: nat
  eh_flush :: "string list"
  eh_mails :: "(time \<times> string \<times> EmailDeviceCard list) list"

definition emailBatchWindow :: duration where "emailBatchWindow = 25000000000"

definition OFFLINE :: string where "OFFLINE = ''DEVICE_OFFLINE''"
definition ONLINE :: string where "ONLINE = ''DEVICE_ONLINE''"

definition NewEventHook :: "'n EventHook" where
  "NewEventHook = \<lparr>eh_stopping = False, eh_closed = False, eh_batches = [], eh_timers = [], eh_next = 0, eh_flush = [], eh_mails = []\<rparr>"

definition tryAdd :: "'n EventHook \<Rightarrow> bool" where
  "tryAdd h \<longleftrightarrow> \<not> (eh_stopping h \<or> eh_closed h)"

definition tryAddSend :: "'n EventHook \<Rightarrow> bool" where
  "tryAddSend h \<longleftrightarrow> \<not> eh_closed h"

definition shouldCancelPendingOffline :: "int \<Rightarrow> bool" where
  "shouldCancelPendingOffline sec \<longleftrightarrow> sec \<le> 0 \<or> sec \<le> emailBatchWindow div 1000000000"

text \<open>\<open>timer.Stop()\<close>: too late for a timer that is due.\<close>
definition stop_timer :: "time \<Rightarrow> nat option \<Rightarrow> (nat \<times> string \<times> time) list \<Rightarrow> (nat \<times> string \<times> time) list" where
  "stop_timer now t ts = (case t of None \<Rightarrow> ts | Some i \<Rightarrow> filter (\<lambda>(j, _, due). \<not> (j = i \<and> now < due)) ts)"

definition armBatchTimer :: "time \<Rightarrow> string \<Rightarrow> 'n emailBatchBuf \<Rightarrow> 'n EventHook \<Rightarrow> 'n emailBatchBuf \<times> 'n EventHook" where
  "armBatchTimer now kind b h =
     (if eb_timer b \<noteq> None then (b, h)
      else (b\<lparr>eb_timer := Some (eh_next h)\<rparr>,
            h\<lparr>eh_timers := (eh_next h, kind, now + emailBatchWindow) # eh_timers h, eh_next := Suc (eh_next h)\<rparr>))"

text \<open>A device that is back soon is taken out of the batch of devices that went offline.\<close>
definition cancel_offline :: "time \<Rightarrow> int \<Rightarrow> 'n EventHook \<Rightarrow> 'n EventHook" where
  "cancel_offline now d h = (case map_of (eh_batches h) OFFLINE of
     None \<Rightarrow> h
   | Some ob \<Rightarrow>
       let items = filter (\<lambda>c. ec_DeviceID c \<noteq> d) (eb_items ob)
       in if items = [] then h\<lparr>eh_batches := AList.delete OFFLINE (eh_batches h), eh_timers := stop_timer now (eb_timer ob) (eh_timers h)\<rparr>
          else h\<lparr>eh_batches := AList.update OFFLINE (ob\<lparr>eb_items := items\<rparr>) (eh_batches h)\<rparr>)"

text \<open>The card replaces that of the same device; the settings follow a new card only.\<close>
definition put_card :: "EmailDeviceCard \<Rightarrow> 'n \<Rightarrow> 'n emailBatchBuf \<Rightarrow> 'n emailBatchBuf" where
  "put_card itm ns b =
     (if list_ex (\<lambda>c. ec_DeviceID c = ec_DeviceID itm) (eb_items b)
      then b\<lparr>eb_items := map (\<lambda>c. if ec_DeviceID c = ec_DeviceID itm then itm else c) (eb_items b)\<rparr>
      else b\<lparr>eb_items := eb_items b @ [itm], eb_ns := ns\<rparr>)"

definition enqueueEmailBatch :: "time \<Rightarrow> string \<Rightarrow> EmailDeviceCard \<Rightarrow> 'n \<Rightarrow> 'n EventHook \<Rightarrow> 'n EventHook" where
  "enqueueEmailBatch now kind itm ns h =
     (let b = (case map_of (eh_batches h) kind of None \<Rightarrow> \<lparr>eb_items = [], eb_timer = None, eb_ns = ns\<rparr> | Some b \<Rightarrow> b);
          h = (if ToUpper kind = ONLINE \<and> shouldCancelPendingOffline (ec_OfflineDurationSec itm)
               then cancel_offline now (ec_DeviceID itm) h else h)
      in case armBatchTimer now kind (put_card itm ns b) h of (b, h) \<Rightarrow>
           h\<lparr>eh_batches := AList.update kind b (eh_batches h)\<rparr>)"

definition fireEmailBatch :: "time \<Rightarrow> string \<Rightarrow> 'n EventHook \<Rightarrow> 'n EventHook" where
  "fireEmailBatch now kind h = (case map_of (eh_batches h) kind of
     None \<Rightarrow> h
   | Some b \<Rightarrow> if eb_items b = [] then h
       else let h' = h\<lparr>eh_batches := AList.delete kind (eh_batches h)\<rparr>
            in if tryAddSend h then h'\<lparr>eh_mails := (now, kind, eb_items b) # eh_mails h\<rparr> else h')"

text \<open>\<open>flushEmailBatches\<close>: first the timers are stopped, then the kinds that were found are fired one by one.\<close>
definition flush_stop :: "time \<Rightarrow> 'n EventHook \<Rightarrow> 'n EventHook" where
  "flush_stop now h = h\<lparr>eh_timers := fold (\<lambda>(k, b) ts. stop_timer now (eb_timer b) ts) (eh_batches h) (eh_timers h),
     eh_flush := map fst (eh_batches h)\<rparr>"

definition flush_fire :: "time \<Rightarrow> 'n EventHook \<Rightarrow> 'n EventHook" where
  "flush_fire now h = (case eh_flush h of [] \<Rightarrow> h | k # ks \<Rightarrow> (fireEmailBatch now k h)\<lparr>eh_flush := ks\<rparr>)"

text \<open>
  What can happen: a goroutine of an accepted event queues its card, the callback of a timer that is due runs, and
  the stages of \<open>Wait\<close>. A goroutine that outlives the wait can still queue.
\<close>
datatype 'n hook_step =
    Enqueue time string EmailDeviceCard 'n
  | Expire time nat
  | StopIntake
  | FlushStop time
  | FlushFire time
  | Close

fun hook_run :: "'n hook_step \<Rightarrow> 'n EventHook \<Rightarrow> 'n EventHook" where
  "hook_run (Enqueue now kind itm ns) h = enqueueEmailBatch now kind itm ns h"
| "hook_run (Expire now i) h = (case map_of (eh_timers h) i of
      None \<Rightarrow> h
    | Some (kind, due) \<Rightarrow> if now < due then h
        else fireEmailBatch now kind (h\<lparr>eh_timers := AList.delete i (eh_timers h)\<rparr>))"
| "hook_run StopIntake h = h\<lparr>eh_stopping := True\<rparr>"
| "hook_run (FlushStop now) h = (if eh_stopping h then flush_stop now h else h)"
| "hook_run (FlushFire now) h = flush_fire now h"
| "hook_run Close h = (if eh_stopping h \<and> eh_flush h = [] then h\<lparr>eh_closed := True\<rparr> else h)"

section \<open>The cards that wait\<close>

text \<open>The abstraction: for every kind the card that waits for a device\<close>
definition waiting :: "'n EventHook \<Rightarrow> string \<Rightarrow> int \<Rightarrow> EmailDeviceCard option" where
  "waiting h kind d = (case map_of (eh_batches h) kind of None \<Rightarrow> None
     | Some b \<Rightarrow> List.find (\<lambda>c. ec_DeviceID c = d) (eb_items b))"

text \<open>A batch is sent by its own timer, or its kind is being flushed.\<close>
definition timer_ok :: "string list \<Rightarrow> (nat \<times> string \<times> time) list \<Rightarrow> string \<Rightarrow> 'n emailBatchBuf \<Rightarrow> bool" where
  "timer_ok fl ts k b \<longleftrightarrow> k \<in> set fl \<or> (\<exists>i due. eb_timer b = Some i \<and> map_of ts i = Some (k, due))"

definition batch_ok :: "nat \<Rightarrow> 'n emailBatchBuf \<Rightarrow> bool" where
  "batch_ok n b \<longleftrightarrow> eb_items b \<noteq> [] \<and> distinct (map ec_DeviceID (eb_items b)) \<and> (\<exists>i. eb_timer b = Some i \<and> i < n)"

definition batches_ok :: "nat \<Rightarrow> (string \<rightharpoonup> 'n emailBatchBuf) \<Rightarrow> bool" where
  "batches_ok n m \<longleftrightarrow> (\<forall>k b. m k = Some b \<longrightarrow> batch_ok n b)"

definition own_timers :: "(string \<rightharpoonup> 'n emailBatchBuf) \<Rightarrow> bool" where
  "own_timers m \<longleftrightarrow> (\<forall>k b k' b'. m k = Some b \<longrightarrow> m k' = Some b' \<longrightarrow> eb_timer b = eb_timer b' \<longrightarrow> k = k')"

definition timers_ok :: "string list \<Rightarrow> (nat \<times> string \<times> time) list \<Rightarrow> (string \<rightharpoonup> 'n emailBatchBuf) \<Rightarrow> bool" where
  "timers_ok fl ts m \<longleftrightarrow> (\<forall>k b. m k = Some b \<longrightarrow> timer_ok fl ts k b)"

definition numbers_ok :: "nat \<Rightarrow> (nat \<times> string \<times> time) list \<Rightarrow> bool" where
  "numbers_ok n ts \<longleftrightarrow> (\<forall>i\<in>fst ` set ts. i < n)"

definition hook_ok :: "'n EventHook \<Rightarrow> bool" where
  "hook_ok h \<longleftrightarrow> batches_ok (eh_next h) (map_of (eh_batches h)) \<and> own_timers (map_of (eh_batches h))
     \<and> timers_ok (eh_flush h) (eh_timers h) (map_of (eh_batches h)) \<and> numbers_ok (eh_next h) (eh_timers h)"

lemma find_filter_other: "d \<noteq> d' \<Longrightarrow> List.find (\<lambda>c. f c = d) (filter (\<lambda>c. f c \<noteq> d') xs) = List.find (\<lambda>c. f c = d) xs"
  by (induction xs) auto

lemma find_filter_same: "List.find (\<lambda>c. f c = d) (filter (\<lambda>c. f c \<noteq> d) xs) = None"
  by (induction xs) auto

lemma find_snoc: "List.find P (xs @ [x]) = (case List.find P xs of None \<Rightarrow> if P x then Some x else None | Some y \<Rightarrow> Some y)"
  by (induction xs) auto

lemma find_None: "(\<forall>x\<in>set xs. \<not> P x) \<Longrightarrow> List.find P xs = None"
  by (induction xs) auto

lemma waiting_put_card:
  "List.find (\<lambda>c. ec_DeviceID c = d) (eb_items (put_card itm ns b))
   = (if d = ec_DeviceID itm then Some itm else List.find (\<lambda>c. ec_DeviceID c = d) (eb_items b))"
proof (cases "list_ex (\<lambda>c. ec_DeviceID c = ec_DeviceID itm) (eb_items b)")
  case True
  have "list_ex (\<lambda>c. ec_DeviceID c = ec_DeviceID itm) xs \<Longrightarrow>
    List.find (\<lambda>c. ec_DeviceID c = d) (map (\<lambda>c. if ec_DeviceID c = ec_DeviceID itm then itm else c) xs)
    = (if d = ec_DeviceID itm then Some itm else List.find (\<lambda>c. ec_DeviceID c = d) xs)" for xs
  proof (induction xs)
    case (Cons x xs)
    show ?case
    proof (cases "list_ex (\<lambda>c. ec_DeviceID c = ec_DeviceID itm) xs")
      case True
      then show ?thesis using Cons.IH by (cases "d = ec_DeviceID itm") auto
    next
      case False
      then have "map (\<lambda>c. if ec_DeviceID c = ec_DeviceID itm then itm else c) xs = xs"
        by (intro map_idI) (auto simp: list_ex_iff)
      then show ?thesis using Cons.prems False by auto
    qed
  qed simp
  then show ?thesis using True by (simp add: put_card_def)
next
  case False
  then have "List.find (\<lambda>c. ec_DeviceID c = ec_DeviceID itm) (eb_items b) = None"
    by (intro find_None) (auto simp: list_ex_iff)
  then show ?thesis using False by (auto simp: put_card_def find_snoc split: option.split)
qed

lemma put_card_ok:
  assumes "eb_items b = [] \<or> distinct (map ec_DeviceID (eb_items b))"
  shows "eb_items (put_card itm ns b) \<noteq> []" "distinct (map ec_DeviceID (eb_items (put_card itm ns b)))"
    "eb_timer (put_card itm ns b) = eb_timer b"
proof -
  have keys: "map ec_DeviceID (map (\<lambda>c. if ec_DeviceID c = ec_DeviceID itm then itm else c) (eb_items b)) = map ec_DeviceID (eb_items b)"
    by simp
  show "eb_items (put_card itm ns b) \<noteq> []" by (cases "eb_items b") (auto simp: put_card_def)
  show "eb_timer (put_card itm ns b) = eb_timer b" by (simp add: put_card_def)
  have d: "distinct (map ec_DeviceID (eb_items b))" using assms by auto
  show "distinct (map ec_DeviceID (eb_items (put_card itm ns b)))"
  proof (cases "list_ex (\<lambda>c. ec_DeviceID c = ec_DeviceID itm) (eb_items b)")
    case True
    then have "map ec_DeviceID (eb_items (put_card itm ns b)) = map ec_DeviceID (eb_items b)" by (simp add: put_card_def)
    then show ?thesis using d by simp
  next
    case False
    then show ?thesis using d by (auto simp: put_card_def list_ex_iff)
  qed
qed

lemma batches_ok_delete: "batches_ok n m \<Longrightarrow> batches_ok n (m(k := None))"
  by (simp add: batches_ok_def)

lemma own_timers_delete: "own_timers m \<Longrightarrow> own_timers (m(k := None))"
  unfolding own_timers_def by (metis fun_upd_apply option.distinct(1))

lemma batches_ok_update: "batches_ok n m \<Longrightarrow> batch_ok n b \<Longrightarrow> batches_ok n (m(k \<mapsto> b))"
  by (simp add: batches_ok_def)

lemma own_timers_update:
  assumes "own_timers m" "\<And>k' b'. m k' = Some b' \<Longrightarrow> k' \<noteq> k \<Longrightarrow> eb_timer b' \<noteq> eb_timer b"
  shows "own_timers (m(k \<mapsto> b))"
  unfolding own_timers_def
proof (intro allI impI)
  fix k1 b1 k2 b2 assume a: "(m(k \<mapsto> b)) k1 = Some b1" "(m(k \<mapsto> b)) k2 = Some b2" "eb_timer b1 = eb_timer b2"
  consider "k1 = k" "k2 = k" | "k1 = k" "k2 \<noteq> k" | "k1 \<noteq> k" "k2 = k" | "k1 \<noteq> k" "k2 \<noteq> k" by blast
  then show "k1 = k2"
  proof cases
    case 2 then show ?thesis using a assms(2) [of k2 b2] by simp
  next
    case 3 then show ?thesis using a assms(2) [of k1 b1] by simp
  next
    case 4 then show ?thesis using a assms(1) unfolding own_timers_def by simp
  qed simp
qed

lemma stop_timer_other: "j \<noteq> i \<Longrightarrow> map_of (stop_timer now (Some i) ts) j = map_of ts j"
  by (induction ts) (auto simp: stop_timer_def)

lemma stop_timer_numbers: "numbers_ok n ts \<Longrightarrow> numbers_ok n (stop_timer now t ts)"
  by (cases t) (auto simp: stop_timer_def numbers_ok_def)

lemma cancel_offline_batches:
  "map_of (eh_batches (cancel_offline now d h)) k = (if k = OFFLINE then (case map_of (eh_batches h) OFFLINE of None \<Rightarrow> None
      | Some ob \<Rightarrow> let items = filter (\<lambda>c. ec_DeviceID c \<noteq> d) (eb_items ob) in if items = [] then None else Some (ob\<lparr>eb_items := items\<rparr>))
     else map_of (eh_batches h) k)"
  by (simp add: cancel_offline_def delete_conv' update_conv' Let_def split: option.split)

lemma cancel_offline_ok:
  assumes "hook_ok h" shows "hook_ok (cancel_offline now d h)"
proof (cases "map_of (eh_batches h) OFFLINE")
  case None
  then show ?thesis using assms by (simp add: cancel_offline_def)
next
  case (Some ob)
  define items where "items = filter (\<lambda>c. ec_DeviceID c \<noteq> d) (eb_items ob)"
  have b: "batches_ok (eh_next h) (map_of (eh_batches h))" and own: "own_timers (map_of (eh_batches h))"
    and t: "timers_ok (eh_flush h) (eh_timers h) (map_of (eh_batches h))" and n: "numbers_ok (eh_next h) (eh_timers h)"
    using assms by (simp_all only: hook_ok_def)
  from b Some have ob: "batch_ok (eh_next h) ob" unfolding batches_ok_def by blast
  then obtain i where i: "eb_timer ob = Some i" unfolding batch_ok_def by (elim conjE exE)
  show ?thesis
  proof (cases "items = []")
    case True
    have "timers_ok (eh_flush h) (stop_timer now (Some i) (eh_timers h)) ((map_of (eh_batches h))(OFFLINE := None))"
      unfolding timers_ok_def
    proof (intro allI impI)
      fix k b assume k: "((map_of (eh_batches h))(OFFLINE := None)) k = Some b"
      then have k': "k \<noteq> OFFLINE" "map_of (eh_batches h) k = Some b" by (simp_all split: if_splits)
      from t k'(2) have tk: "timer_ok (eh_flush h) (eh_timers h) k b" unfolding timers_ok_def by blast
      have "eb_timer b \<noteq> Some i" using own k' Some i unfolding own_timers_def by metis
      then show "timer_ok (eh_flush h) (stop_timer now (Some i) (eh_timers h)) k b"
        using tk unfolding timer_ok_def by (metis stop_timer_other)
    qed
    then show ?thesis using True Some i b own n
      by (simp add: hook_ok_def cancel_offline_def items_def [symmetric] Let_def delete_conv' batches_ok_delete own_timers_delete stop_timer_numbers)
  next
    case False
    let ?ob = "ob\<lparr>eb_items := items\<rparr>"
    have "batch_ok (eh_next h) ?ob" using ob False by (auto simp: batch_ok_def items_def distinct_map_filter)
    moreover have "own_timers ((map_of (eh_batches h))(OFFLINE \<mapsto> ?ob))"
      using own Some by (intro own_timers_update) (auto simp: own_timers_def)
    moreover have "timers_ok (eh_flush h) (eh_timers h) ((map_of (eh_batches h))(OFFLINE \<mapsto> ?ob))"
      using t Some by (simp add: timers_ok_def timer_ok_def)
    ultimately show ?thesis using False Some b n
      by (simp add: hook_ok_def cancel_offline_def items_def [symmetric] Let_def update_conv' batches_ok_update)
  qed
qed

definition enqueue_buf :: "string \<Rightarrow> EmailDeviceCard \<Rightarrow> 'n \<Rightarrow> 'n EventHook \<Rightarrow> 'n emailBatchBuf" where
  "enqueue_buf kind itm ns h = put_card itm ns (case map_of (eh_batches h) kind of None \<Rightarrow> \<lparr>eb_items = [], eb_timer = None, eb_ns = ns\<rparr> | Some b \<Rightarrow> b)"

lemma enqueue_buf_ok:
  assumes "hook_ok h"
  shows "eb_items (enqueue_buf kind itm ns h) \<noteq> []" "distinct (map ec_DeviceID (eb_items (enqueue_buf kind itm ns h)))"
    "eb_timer (enqueue_buf kind itm ns h) = (case map_of (eh_batches h) kind of None \<Rightarrow> None | Some b \<Rightarrow> eb_timer b)"
proof -
  let ?b = "case map_of (eh_batches h) kind of None \<Rightarrow> \<lparr>eb_items = [], eb_timer = None, eb_ns = ns\<rparr> | Some b \<Rightarrow> b"
  have "eb_items ?b = [] \<or> distinct (map ec_DeviceID (eb_items ?b))"
    using assms by (simp add: hook_ok_def batches_ok_def batch_ok_def split: option.split)
  note put = put_card_ok [OF this, of itm ns]
  show "eb_items (enqueue_buf kind itm ns h) \<noteq> []" "distinct (map ec_DeviceID (eb_items (enqueue_buf kind itm ns h)))"
    unfolding enqueue_buf_def by (rule put)+
  show "eb_timer (enqueue_buf kind itm ns h) = (case map_of (eh_batches h) kind of None \<Rightarrow> None | Some b \<Rightarrow> eb_timer b)"
    by (simp add: enqueue_buf_def put split: option.split)
qed

text \<open>A batch is stored with its timer, a new one if it has none.\<close>
definition store_batch :: "time \<Rightarrow> string \<Rightarrow> 'n emailBatchBuf \<Rightarrow> 'n EventHook \<Rightarrow> 'n EventHook" where
  "store_batch now kind b h = (case armBatchTimer now kind b h of (b, h) \<Rightarrow> h\<lparr>eh_batches := AList.update kind b (eh_batches h)\<rparr>)"

lemma enqueue_store:
  "enqueueEmailBatch now kind itm ns h = store_batch now kind (enqueue_buf kind itm ns h)
     (if ToUpper kind = ONLINE \<and> shouldCancelPendingOffline (ec_OfflineDurationSec itm) then cancel_offline now (ec_DeviceID itm) h else h)"
  by (simp add: enqueueEmailBatch_def store_batch_def enqueue_buf_def Let_def)

lemma numbers_lookup: "numbers_ok n ts \<Longrightarrow> map_of ts i = Some x \<Longrightarrow> i < n"
  by (force simp: numbers_ok_def dest: map_of_SomeD)

lemma store_batch_ok:
  assumes h: "hook_ok h" and items: "eb_items b \<noteq> []" "distinct (map ec_DeviceID (eb_items b))"
    and timer: "eb_timer b = None \<or> (\<exists>b0. map_of (eh_batches h) kind = Some b0 \<and> eb_timer b = eb_timer b0)"
  shows "hook_ok (store_batch now kind b h)"
proof -
  have b: "batches_ok (eh_next h) (map_of (eh_batches h))" and own: "own_timers (map_of (eh_batches h))"
    and t: "timers_ok (eh_flush h) (eh_timers h) (map_of (eh_batches h))" and n: "numbers_ok (eh_next h) (eh_timers h)"
    using h by (simp_all only: hook_ok_def)
  have old: "eb_timer b' \<noteq> Some (eh_next h)" if "map_of (eh_batches h) k = Some b'" for k b'
    using b that unfolding batches_ok_def batch_ok_def by fastforce
  show ?thesis
  proof (cases "eb_timer b")
    case None
    let ?b = "b\<lparr>eb_timer := Some (eh_next h)\<rparr>"
    let ?ts = "(eh_next h, kind, now + emailBatchWindow) # eh_timers h"
    have "batches_ok (Suc (eh_next h)) (map_of (eh_batches h))" using b unfolding batches_ok_def batch_ok_def by fastforce
    then have "batches_ok (Suc (eh_next h)) ((map_of (eh_batches h))(kind \<mapsto> ?b))"
      using items by (intro batches_ok_update) (simp_all add: batch_ok_def)
    moreover have "own_timers ((map_of (eh_batches h))(kind \<mapsto> ?b))"
      using own old by (intro own_timers_update) simp_all
    moreover have "timer_ok (eh_flush h) ?ts k b'" if "map_of (eh_batches h) k = Some b'" for k b'
      using t that old [OF that] unfolding timers_ok_def timer_ok_def by fastforce
    then have "timers_ok (eh_flush h) ?ts ((map_of (eh_batches h))(kind \<mapsto> ?b))"
      by (auto simp: timers_ok_def timer_ok_def)
    moreover have "numbers_ok (Suc (eh_next h)) ?ts" using n by (auto simp: numbers_ok_def)
    ultimately show ?thesis using None by (simp add: store_batch_def armBatchTimer_def hook_ok_def update_conv')
  next
    case (Some i)
    with timer obtain b0 where b0: "map_of (eh_batches h) kind = Some b0" "eb_timer b0 = Some i" by auto
    have "timer_ok (eh_flush h) (eh_timers h) kind b0" using t b0(1) unfolding timers_ok_def by blast
    then have "timer_ok (eh_flush h) (eh_timers h) kind b" using Some b0(2) by (simp add: timer_ok_def)
    then have "timers_ok (eh_flush h) (eh_timers h) ((map_of (eh_batches h))(kind \<mapsto> b))" using t by (simp add: timers_ok_def)
    moreover have "i < eh_next h" using b b0 unfolding batches_ok_def batch_ok_def by fastforce
    then have "batch_ok (eh_next h) b" using items Some by (simp add: batch_ok_def)
    moreover have "own_timers ((map_of (eh_batches h))(kind \<mapsto> b))"
      using own Some b0 by (intro own_timers_update) (auto simp: own_timers_def)
    ultimately show ?thesis using b n Some by (simp add: store_batch_def armBatchTimer_def hook_ok_def update_conv' batches_ok_update)
  qed
qed

lemma enqueue_ok:
  assumes h: "hook_ok h" shows "hook_ok (enqueueEmailBatch now kind itm ns h)"
proof -
  define h' where "h' = (if ToUpper kind = ONLINE \<and> shouldCancelPendingOffline (ec_OfflineDurationSec itm) then cancel_offline now (ec_DeviceID itm) h else h)"
  have ok: "hook_ok h'" using h by (simp add: h'_def cancel_offline_ok)
  have "ToUpper OFFLINE \<noteq> ONLINE" by code_simp
  then have same: "map_of (eh_batches h') kind = map_of (eh_batches h) kind"
    by (auto simp: h'_def cancel_offline_batches)
  show ?thesis unfolding enqueue_store h'_def [symmetric]
    by (rule store_batch_ok [OF ok enqueue_buf_ok(1,2) [OF h]]) (simp add: enqueue_buf_ok(3) [OF h] same split: option.split)
qed

lemma fire_batches:
  assumes "hook_ok h"
  shows "map_of (eh_batches (fireEmailBatch now kind (h\<lparr>eh_timers := ts, eh_flush := fl\<rparr>))) = (map_of (eh_batches h))(kind := None)"
proof (cases "map_of (eh_batches h) kind")
  case None
  then show ?thesis by (simp add: fireEmailBatch_def fun_upd_idem)
next
  case (Some b)
  then have "eb_items b \<noteq> []" using assms by (simp add: hook_ok_def batches_ok_def batch_ok_def)
  then show ?thesis using Some by (simp add: fireEmailBatch_def delete_conv' Let_def)
qed

lemma fire_other [simp]: "eh_timers (fireEmailBatch now kind h) = eh_timers h" "eh_flush (fireEmailBatch now kind h) = eh_flush h"
  "eh_next (fireEmailBatch now kind h) = eh_next h" "eh_closed (fireEmailBatch now kind h) = eh_closed h"
  by (simp_all add: fireEmailBatch_def Let_def split: option.split)

lemma fire_ok:
  fixes h :: "'n EventHook"
  assumes h: "hook_ok h" and n: "numbers_ok (eh_next h) ts"
    and t: "\<And>k (b :: 'n emailBatchBuf). k \<noteq> kind \<Longrightarrow> timer_ok (eh_flush h) (eh_timers h) k b \<Longrightarrow> timer_ok fl ts k b"
  shows "hook_ok (fireEmailBatch now kind (h\<lparr>eh_timers := ts, eh_flush := fl\<rparr>))"
proof -
  have "timers_ok fl ts ((map_of (eh_batches h))(kind := None))"
    using h t by (auto simp: hook_ok_def timers_ok_def)
  then show ?thesis using h n by (simp add: hook_ok_def fire_batches [OF h] batches_ok_delete own_timers_delete)
qed

lemma expire_ok:
  assumes "hook_ok h" "map_of (eh_timers h) i = Some (kind, due)"
  shows "hook_ok (fireEmailBatch now kind (h\<lparr>eh_timers := AList.delete i (eh_timers h)\<rparr>))"
proof -
  have "hook_ok (fireEmailBatch now kind (h\<lparr>eh_timers := AList.delete i (eh_timers h), eh_flush := eh_flush h\<rparr>))"
  proof (rule fire_ok [OF assms(1)])
    show "numbers_ok (eh_next h) (AList.delete i (eh_timers h))"
      using assms(1) by (simp add: hook_ok_def numbers_ok_def AList.delete_eq)
    fix k and b :: "'a emailBatchBuf" assume k: "k \<noteq> kind" "timer_ok (eh_flush h) (eh_timers h) k b"
    show "timer_ok (eh_flush h) (AList.delete i (eh_timers h)) k b"
    proof (cases "k \<in> set (eh_flush h)")
      case False
      with k(2) obtain j d where j: "eb_timer b = Some j" "map_of (eh_timers h) j = Some (k, d)" unfolding timer_ok_def by blast
      then have "j \<noteq> i" using k(1) assms(2) by auto
      then show ?thesis using j by (simp add: timer_ok_def delete_conv')
    qed (simp add: timer_ok_def)
  qed
  then show ?thesis by simp
qed

lemma flush_numbers: "numbers_ok n ts \<Longrightarrow> numbers_ok n (fold (\<lambda>(k, b) ts. stop_timer now (eb_timer b) ts) bs ts)"
  by (induction bs arbitrary: ts) (auto simp: stop_timer_numbers)

lemma flush_stop_ok:
  assumes "hook_ok h" shows "hook_ok (flush_stop now h)"
proof -
  have "timers_ok (map fst (eh_batches h)) ts (map_of (eh_batches h))" for ts
    by (force simp: timers_ok_def timer_ok_def dest: map_of_SomeD)
  then show ?thesis using assms by (simp add: hook_ok_def flush_stop_def flush_numbers)
qed

lemma flush_fire_eq:
  "flush_fire now h = (case eh_flush h of [] \<Rightarrow> h | k # ks \<Rightarrow> fireEmailBatch now k (h\<lparr>eh_timers := eh_timers h, eh_flush := ks\<rparr>))"
  by (auto simp: flush_fire_def fireEmailBatch_def tryAddSend_def Let_def split: list.split option.split)

lemma hook_run_ok: "hook_ok h \<Longrightarrow> hook_ok (hook_run s h)"
proof (cases s)
  case (Expire now i)
  assume "hook_ok h"
  then show ?thesis using Expire by (auto simp: expire_ok split: option.split)
next
  case (FlushFire now)
  assume h: "hook_ok h"
  show ?thesis
  proof (cases "eh_flush h")
    case Nil
    then show ?thesis using h FlushFire by (simp add: flush_fire_def)
  next
    case (Cons k ks)
    have "hook_ok (fireEmailBatch now k (h\<lparr>eh_timers := eh_timers h, eh_flush := ks\<rparr>))"
      using h Cons by (intro fire_ok) (auto simp: hook_ok_def timer_ok_def)
    then show ?thesis using FlushFire Cons by (simp add: flush_fire_eq)
  qed
qed (auto simp: enqueue_ok flush_stop_ok, auto simp: hook_ok_def)

lemma hook_reach_ok: "hook_ok (fold hook_run ss NewEventHook)"
proof -
  have "hook_ok h \<Longrightarrow> hook_ok (fold hook_run ss h)" for h
    by (induction ss arbitrary: h) (simp_all add: hook_run_ok)
  moreover have "hook_ok NewEventHook"
    by (simp add: NewEventHook_def hook_ok_def batches_ok_def own_timers_def timers_ok_def numbers_ok_def)
  ultimately show ?thesis by blast
qed

section \<open>What a step does to the cards that wait\<close>

lemma store_batch_batches:
  "map_of (eh_batches (store_batch now kind b h)) k
   = (if k = kind then Some (fst (armBatchTimer now kind b h)) else map_of (eh_batches h) k)"
  by (simp add: store_batch_def armBatchTimer_def update_conv')

lemma waiting_cancel:
  "waiting (cancel_offline now d' h) k d = (if k = OFFLINE \<and> d = d' then None else waiting h k d)"
  by (cases "d = d'")
     (auto simp: waiting_def cancel_offline_batches Let_def find_filter_other find_filter_same split: option.split
       dest: filter_empty_conv [THEN iffD1] intro!: find_None [symmetric])

lemma waiting_enqueue:
  "waiting (enqueueEmailBatch now kind itm ns h) k d =
     (if k = kind \<and> d = ec_DeviceID itm then Some itm
      else if k = OFFLINE \<and> d = ec_DeviceID itm \<and> ToUpper kind = ONLINE \<and> shouldCancelPendingOffline (ec_OfflineDurationSec itm) then None
      else waiting h k d)"
proof -
  define h' where "h' = (if ToUpper kind = ONLINE \<and> shouldCancelPendingOffline (ec_OfflineDurationSec itm) then cancel_offline now (ec_DeviceID itm) h else h)"
  have items: "eb_items (fst (armBatchTimer now kind b h')) = eb_items b" for b by (simp add: armBatchTimer_def)
  have off: "ToUpper OFFLINE \<noteq> ONLINE" by code_simp
  have old: "waiting h' k d = (if k = OFFLINE \<and> d = ec_DeviceID itm \<and> ToUpper kind = ONLINE \<and> shouldCancelPendingOffline (ec_OfflineDurationSec itm)
      then None else waiting h k d)"
    by (simp add: h'_def waiting_cancel)
  show ?thesis
  proof (cases "k = kind")
    case True
    have "waiting (store_batch now kind (enqueue_buf kind itm ns h) h') k d
        = (if d = ec_DeviceID itm then Some itm else waiting h k d)"
      using True by (simp add: waiting_def store_batch_batches items enqueue_buf_def waiting_put_card split: option.split)
    then show ?thesis using True off unfolding enqueue_store h'_def [symmetric] by auto
  next
    case False
    have "waiting (store_batch now kind (enqueue_buf kind itm ns h) h') k d = waiting h' k d"
      using False by (simp add: waiting_def store_batch_batches)
    then show ?thesis using False unfolding enqueue_store h'_def [symmetric] old by auto
  qed
qed

text \<open>The cards of a kind leave together: in one mail, unless there are none or the hook is closed.\<close>
definition sends :: "time \<Rightarrow> string \<Rightarrow> 'n EventHook \<Rightarrow> 'n EventHook \<Rightarrow> bool" where
  "sends now kind h h' \<longleftrightarrow> (\<forall>k d. waiting h' k d = (if k = kind then None else waiting h k d))
     \<and> (if eh_closed h \<or> (\<forall>d. waiting h kind d = None) then eh_mails h' = eh_mails h
        else \<exists>items. eh_mails h' = (now, kind, items) # eh_mails h \<and> distinct (map ec_DeviceID items)
               \<and> (\<forall>d. List.find (\<lambda>c. ec_DeviceID c = d) items = waiting h kind d))"

lemma waiting_fire:
  "hook_ok h \<Longrightarrow> waiting (fireEmailBatch now kind (h\<lparr>eh_timers := ts, eh_flush := fl\<rparr>)) k d = (if k = kind then None else waiting h k d)"
  by (simp add: waiting_def fire_batches)

lemma waiting_first: "map_of (eh_batches h) k = Some b \<Longrightarrow> eb_items b \<noteq> [] \<Longrightarrow> \<exists>d. waiting h k d \<noteq> None"
  by (cases "eb_items b") (auto simp: waiting_def intro!: exI [of _ "ec_DeviceID (hd (eb_items b))"])

lemma fire_sends:
  assumes h: "hook_ok h"
  shows "sends now kind h (fireEmailBatch now kind (h\<lparr>eh_timers := ts, eh_flush := fl\<rparr>))"
proof (cases "map_of (eh_batches h) kind")
  case None
  then have "waiting h kind d = None" for d by (simp add: waiting_def)
  moreover have "eh_mails (fireEmailBatch now kind (h\<lparr>eh_timers := ts, eh_flush := fl\<rparr>)) = eh_mails h"
    using None by (simp add: fireEmailBatch_def)
  ultimately show ?thesis by (simp add: sends_def waiting_fire [OF h])
next
  case (Some b)
  then have b: "eb_items b \<noteq> []" "distinct (map ec_DeviceID (eb_items b))"
    using h by (simp_all add: hook_ok_def batches_ok_def batch_ok_def)
  have "List.find (\<lambda>c. ec_DeviceID c = d) (eb_items b) = waiting h kind d" for d using Some by (simp add: waiting_def)
  moreover have "\<not> (\<forall>d. waiting h kind d = None)" using waiting_first [OF Some b(1)] by simp
  moreover have "eh_mails (fireEmailBatch now kind (h\<lparr>eh_timers := ts, eh_flush := fl\<rparr>))
      = (if eh_closed h then eh_mails h else (now, kind, eb_items b) # eh_mails h)"
    using Some b by (simp add: fireEmailBatch_def tryAddSend_def Let_def)
  ultimately show ?thesis using b(2) by (simp add: sends_def waiting_fire [OF h])
qed

text \<open>The promise of the hook: cards wait until they are replaced, taken back or sent.\<close>
fun hook_spec :: "'n hook_step \<Rightarrow> 'n EventHook \<Rightarrow> 'n EventHook \<Rightarrow> bool" where
  "hook_spec (Enqueue now kind itm ns) h h' \<longleftrightarrow> eh_mails h' = eh_mails h \<and> (\<forall>k d. waiting h' k d =
     (if k = kind \<and> d = ec_DeviceID itm then Some itm
      else if k = OFFLINE \<and> d = ec_DeviceID itm \<and> ToUpper kind = ONLINE \<and> shouldCancelPendingOffline (ec_OfflineDurationSec itm) then None
      else waiting h k d))"
| "hook_spec (Expire now i) h h' \<longleftrightarrow> (case map_of (eh_timers h) i of
      None \<Rightarrow> h' = h
    | Some (kind, due) \<Rightarrow> if now < due then h' = h else sends now kind h h')"
| "hook_spec (FlushFire now) h h' \<longleftrightarrow> (case eh_flush h of [] \<Rightarrow> h' = h | kind # _ \<Rightarrow> sends now kind h h')"
| "hook_spec _ h h' \<longleftrightarrow> eh_mails h' = eh_mails h \<and> waiting h' = waiting h"

lemma enqueue_mails: "eh_mails (enqueueEmailBatch now kind itm ns h) = eh_mails h"
  by (simp add: enqueueEmailBatch_def armBatchTimer_def cancel_offline_def Let_def split: option.split)

lemma expire_sends:
  assumes "hook_ok h" "map_of (eh_timers h) i = Some (kind, due)" "due \<le> now"
  shows "sends now kind h (hook_run (Expire now i) h)"
  using assms fire_sends [OF assms(1), where now = now and kind = kind and ts = "AList.delete i (eh_timers h)" and fl = "eh_flush h"] by simp

lemma flush_sends: "hook_ok h \<Longrightarrow> eh_flush h = kind # ks \<Longrightarrow> sends now kind h (hook_run (FlushFire now) h)"
  using fire_sends [where h = h and now = now and kind = kind and ts = "eh_timers h" and fl = ks] by (simp add: flush_fire_eq)

lemma hook_spec_run: "hook_ok h \<Longrightarrow> hook_spec s h (hook_run s h)"
proof (cases s)
  case (Enqueue now kind itm ns)
  then show ?thesis by (simp add: waiting_enqueue enqueue_mails)
next
  case (Expire now i)
  assume "hook_ok h"
  then show ?thesis using Expire expire_sends [of h i _ _ now]
    by (auto simp del: hook_run.simps(2) split: option.split) (auto split: option.split)
next
  case (FlushFire now)
  assume "hook_ok h"
  then show ?thesis using FlushFire flush_sends [of h _ _ now]
    by (auto simp del: hook_run.simps(5) split: list.split) (auto simp: flush_fire_def)
qed (auto simp: waiting_def fun_eq_iff flush_stop_def)

section \<open>The properties\<close>

text \<open>C16. In every state the hook can reach each step keeps its promise: a card that is queued waits in place of the earlier card of
  its device and kind, a device that is back within the window of a batch loses its card in the batch of devices that
  went offline, and nothing else removes a card but the sending of its kind, which puts all cards of the kind into one
  mail and leaves none, and drops them only after the hook is closed.\<close>
theorem batches_refine: "hook_spec s (fold hook_run ss NewEventHook) (hook_run s (fold hook_run ss NewEventHook))"
  by (rule hook_spec_run [OF hook_reach_ok])

definition queued_until :: "time \<Rightarrow> 'n hook_step \<Rightarrow> bool" where
  "queued_until t s \<longleftrightarrow> (case s of Enqueue now _ _ _ \<Rightarrow> now \<le> t | _ \<Rightarrow> True)"

definition dues_until :: "time \<Rightarrow> (nat \<times> string \<times> time) list \<Rightarrow> bool" where
  "dues_until t ts \<longleftrightarrow> (\<forall>x\<in>set ts. snd (snd x) \<le> t + emailBatchWindow)"

lemma dues_subset: "dues_until t ts \<Longrightarrow> set ts' \<subseteq> set ts \<Longrightarrow> dues_until t ts'"
  by (auto simp: dues_until_def)

lemma stop_subset: "set (stop_timer now i ts) \<subseteq> set ts"
  by (cases i) (auto simp: stop_timer_def)

lemma flush_subset: "set (fold (\<lambda>(k, b) ts. stop_timer now (eb_timer b) ts) bs ts) \<subseteq> set ts"
proof (induction bs arbitrary: ts)
  case (Cons kb bs)
  obtain k b where kb: "kb = (k, b)" by (cases kb)
  show ?case using Cons.IH [of "stop_timer now (eb_timer b) ts"] stop_subset [of now "eb_timer b" ts] by (simp add: kb)
qed simp

lemma cancel_subset: "set (eh_timers (cancel_offline now d h)) \<subseteq> set (eh_timers h)"
  using stop_subset by (auto simp: cancel_offline_def Let_def split: option.split)

lemma enqueue_dues:
  assumes "dues_until t (eh_timers h)" "now \<le> t"
  shows "dues_until t (eh_timers (enqueueEmailBatch now kind itm ns h))"
proof -
  define h' where "h' = (if ToUpper kind = ONLINE \<and> shouldCancelPendingOffline (ec_OfflineDurationSec itm) then cancel_offline now (ec_DeviceID itm) h else h)"
  have "dues_until t (eh_timers h')" using assms(1) dues_subset [OF assms(1) cancel_subset] by (simp add: h'_def)
  then show ?thesis unfolding enqueue_store h'_def [symmetric]
    using assms(2) by (simp add: store_batch_def armBatchTimer_def dues_until_def)
qed

lemma hook_run_dues: "queued_until t s \<Longrightarrow> dues_until t (eh_timers h) \<Longrightarrow> dues_until t (eh_timers (hook_run s h))"
proof (cases s)
  case (Enqueue now kind itm ns)
  assume "queued_until t s" "dues_until t (eh_timers h)"
  then show ?thesis using Enqueue by (simp add: queued_until_def enqueue_dues)
next
  case (Expire now i)
  assume t: "dues_until t (eh_timers h)"
  have "set (AList.delete i (eh_timers h)) \<subseteq> set (eh_timers h)" by (auto simp: AList.delete_eq)
  from dues_subset [OF t this] show ?thesis using t Expire by (simp split: option.split prod.split)
next
  case (FlushStop now)
  assume t: "dues_until t (eh_timers h)"
  then show ?thesis using FlushStop by (simp add: flush_stop_def dues_subset [OF t flush_subset])
qed (auto simp: flush_fire_def split: list.split)

lemma reach_dues: "\<forall>s\<in>set ss. queued_until t s \<Longrightarrow> dues_until t (eh_timers (fold hook_run ss NewEventHook))"
proof -
  have "\<forall>s\<in>set ss. queued_until t s \<Longrightarrow> dues_until t (eh_timers h) \<Longrightarrow> dues_until t (eh_timers (fold hook_run ss h))" for h :: "'a EventHook"
    by (induction ss arbitrary: h) (simp_all add: hook_run_dues)
  moreover have "dues_until t (eh_timers NewEventHook)" by (simp add: NewEventHook_def dues_until_def)
  ultimately show "\<forall>s\<in>set ss. queued_until t s \<Longrightarrow> dues_until t (eh_timers (fold hook_run ss NewEventHook))" by blast
qed

text \<open>The card is in a mail of its kind.\<close>
definition mailed :: "string \<Rightarrow> EmailDeviceCard \<Rightarrow> 'n EventHook \<Rightarrow> bool" where
  "mailed k c h \<longleftrightarrow> (\<exists>now items. (now, k, items) \<in> set (eh_mails h) \<and> c \<in> set items)"

lemma sends_mailed:
  assumes "sends now k h h'" "waiting h k d = Some c" "\<not> eh_closed h"
  shows "mailed k c h'"
proof -
  from assms obtain items where items: "eh_mails h' = (now, k, items) # eh_mails h" "List.find (\<lambda>c. ec_DeviceID c = d) items = Some c"
    unfolding sends_def by (auto split: if_splits)
  then have "c \<in> set items" by (auto simp: find_Some_iff)
  then show ?thesis using items(1) by (auto simp: mailed_def)
qed

lemma flush_fire_mails: "mailed k c h \<Longrightarrow> mailed k c (flush_fire now h)"
  by (auto simp: mailed_def flush_fire_def fireEmailBatch_def Let_def split: list.split option.split)

lemma flush_mails:
  assumes "hook_ok h" "waiting h k d = Some c" "k \<in> set (eh_flush h)" "\<not> eh_closed h"
  shows "mailed k c ((flush_fire now ^^ length (eh_flush h)) h)"
  using assms
proof (induction "eh_flush h" arbitrary: h)
  case (Cons k' ks)
  let ?h = "flush_fire now h"
  have s: "sends now k' h ?h" using flush_sends [OF Cons.prems(1) Cons.hyps(2) [symmetric], of now] by simp
  have fl: "eh_flush ?h = ks" using Cons.hyps(2) [symmetric] by (simp add: flush_fire_def)
  have later: "mailed k c h1 \<Longrightarrow> mailed k c ((flush_fire now ^^ n) h1)" for n h1
    by (induction n) (simp_all add: flush_fire_mails)
  have rest: "mailed k c ((flush_fire now ^^ length ks) ?h)"
  proof (cases "k' = k")
    case True
    then show ?thesis using sends_mailed [OF s] Cons.prems(2,4) later by blast
  next
    case False
    have "waiting ?h k d = Some c" using s Cons.prems(2) False by (simp add: sends_def)
    moreover have "hook_ok ?h" using hook_run_ok [OF Cons.prems(1), of "FlushFire now"] by simp
    moreover have "\<not> eh_closed ?h" using Cons.prems(4) Cons.hyps(2) [symmetric] by (simp add: flush_fire_def)
    moreover have "k \<in> set (eh_flush ?h)" using Cons.prems(3) False Cons.hyps(2) [symmetric] fl by simp
    ultimately show ?thesis using Cons.hyps(1) [OF fl [symmetric]] fl by simp
  qed
  then show ?case unfolding Cons.hyps(2) [symmetric] by (simp add: funpow_swap1)
qed simp

text \<open>C17. A card that waits is not forgotten: while its kind is not being flushed, a timer of the kind is pending that is due at most 25
  seconds after the latest card was queued, and its callback, whenever it runs, mails the card, and so does the flush
  of the shutdown, as long as the hook is not closed.\<close>
theorem waiting_card_is_mailed:
  assumes "\<forall>s\<in>set ss. queued_until t s" "waiting (fold hook_run ss NewEventHook) k d = Some c" "\<not> eh_closed (fold hook_run ss NewEventHook)"
  shows "(k \<in> set (eh_flush (fold hook_run ss NewEventHook))
        \<and> mailed k c ((flush_fire now ^^ length (eh_flush (fold hook_run ss NewEventHook))) (fold hook_run ss NewEventHook)))
     \<or> (\<exists>i due. map_of (eh_timers (fold hook_run ss NewEventHook)) i = Some (k, due) \<and> due \<le> t + emailBatchWindow
        \<and> (\<forall>now\<ge>due. mailed k c (hook_run (Expire now i) (fold hook_run ss NewEventHook))))"
proof -
  let ?h = "fold hook_run ss NewEventHook"
  have ok: "hook_ok ?h" by (rule hook_reach_ok)
  from assms(2) obtain b where b: "map_of (eh_batches ?h) k = Some b" unfolding waiting_def by (auto split: option.splits)
  with ok have "timer_ok (eh_flush ?h) (eh_timers ?h) k b" by (simp add: hook_ok_def timers_ok_def)
  then consider "k \<in> set (eh_flush ?h)" | i due where "map_of (eh_timers ?h) i = Some (k, due)" unfolding timer_ok_def by blast
  then show ?thesis
  proof cases
    case 1
    then show ?thesis using flush_mails [OF ok assms(2) 1 assms(3)] by blast
  next
    case (2 i due)
    then have "due \<le> t + emailBatchWindow"
      using reach_dues [OF assms(1)] by (auto simp: dues_until_def dest!: map_of_SomeD)
    moreover have "mailed k c (hook_run (Expire now i) ?h)" if "due \<le> now" for now
      by (rule sends_mailed [OF expire_sends [OF ok 2 that] assms(2,3)])
    ultimately show ?thesis using 2 by blast
  qed
qed

definition sample_card :: "int \<Rightarrow> int \<Rightarrow> EmailDeviceCard" where
  "sample_card d sec = \<lparr>ec_DeviceID = d, ec_Title = ''sw'', ec_Subtitle = [], ec_Detail = [], ec_Attachment = [],
     ec_StatusLine = [], ec_Kind = [], ec_Category = [], ec_URL = [], ec_OfflineDurationSec = sec\<rparr>"

definition sample_steps :: "unit hook_step list" where
  "sample_steps = [Enqueue 0 ''DEVICE_OFFLINE'' (sample_card 1 0) (), Enqueue 5 ''DEVICE_OFFLINE'' (sample_card 2 0) (),
     Enqueue 9 ''DEVICE_ONLINE'' (sample_card 1 9) ()]"

text \<open>Device 1 was back after nine seconds: only device 2 is reported as offline.\<close>
lemma waiting_card_is_mailed_witness:
  "waiting (fold hook_run sample_steps NewEventHook) OFFLINE 1 = None
   \<and> waiting (fold hook_run sample_steps NewEventHook) OFFLINE 2 = Some (sample_card 2 0)
   \<and> (\<exists>i due. map_of (eh_timers (fold hook_run sample_steps NewEventHook)) i = Some (OFFLINE, due) \<and> due \<le> 9 + emailBatchWindow
        \<and> (\<forall>now\<ge>due. mailed OFFLINE (sample_card 2 0) (hook_run (Expire now i) (fold hook_run sample_steps NewEventHook))))"
proof -
  have gone: "waiting (fold hook_run sample_steps NewEventHook) OFFLINE 1 = None" by code_simp
  have here: "waiting (fold hook_run sample_steps NewEventHook) OFFLINE 2 = Some (sample_card 2 0)" by code_simp
  have open_: "\<not> eh_closed (fold hook_run sample_steps NewEventHook)" by code_simp
  have fl: "eh_flush (fold hook_run sample_steps NewEventHook) = []" by code_simp
  have t: "\<forall>s\<in>set sample_steps. queued_until 9 s" by (simp add: sample_steps_def queued_until_def)
  from waiting_card_is_mailed [OF t here open_] fl gone here show ?thesis by simp
qed

end
