(* ===== verification/Notify_Send.thy ===== *)
theory Notify_Send
  imports Notify_Batch Device_State
begin

text \<open>
  The delivery of an event (\<open>internal/notify/hook.go\<close>, \<open>telegram.go\<close>, \<open>email.go\<close>, \<open>email_html.go\<close>): filters, retries under a
  common deadline, the order of the channels, the escaping of texts, and the headers of mails. How long a request
  to a server takes and what comes back is an argument.
\<close>

section \<open>Retries\<close>

definition second :: duration where "second = 1000000000"

text \<open>The answer to a request; a failure carries the pause that was asked for, 0 if none was\<close>
datatype answer = Sent | Failed string duration

definition maxTelegramRetryAfter :: duration where "maxTelegramRetryAfter = 30 * second"

definition capRetryAfter :: "duration \<Rightarrow> duration" where
  "capRetryAfter d = (if d \<le> 0 then second else if d > maxTelegramRetryAfter then maxTelegramRetryAfter else d)"

text \<open>The header \<open>Retry-After\<close>, and \<open>parameters.retry_after\<close> of the body if it can be read\<close>
definition parseRetryAfter :: "string \<Rightarrow> int option \<Rightarrow> duration" where
  "parseRetryAfter h body =
     (let s = TrimSpace h; b = (case body of Some n \<Rightarrow> if n > 0 then n * second else 0 | None \<Rightarrow> 0)
      in if s = [] then b else case Atoi s of Some n \<Rightarrow> if n > 0 then n * second else b | None \<Rightarrow> b)"

definition telegram_answer :: "int \<Rightarrow> string \<Rightarrow> int option \<Rightarrow> answer" where
  "telegram_answer status h body =
     (if 200 \<le> status \<and> status < 300 then Sent
      else if status = 429 then Failed ''telegram HTTP 429'' (capRetryAfter (parseRetryAfter h body))
      else Failed (''telegram HTTP '' @ Itoa status) 0)"

definition normalizeRetry :: "int \<Rightarrow> int \<Rightarrow> nat \<times> duration" where
  "normalizeRetry maxRetries backoffMs =
     (let m = (if maxRetries < 0 then 0 else maxRetries); m = (if m > 10 then 10 else m);
          b = (if backoffMs < 100 then 500 else backoffMs); b = (if b > 60000 then 60000 else b)
      in (nat m, b * 1000000))"

text \<open>The \<open>k\<close>-th attempt at a time: when it ends, and with which answer\<close>
type_synonym sender = "nat \<Rightarrow> time \<Rightarrow> time \<times> answer"

definition ctx_error :: string where "ctx_error = ''context deadline exceeded''"

text \<open>A request under a context with a deadline is cut off by it.\<close>
definition under_ctx :: "time \<Rightarrow> (nat \<Rightarrow> time \<Rightarrow> duration \<times> answer) \<Rightarrow> sender" where
  "under_ctx D send k t = (case send k t of (d, a) \<Rightarrow>
     if D \<le> t then (t, Failed ctx_error 0) else if D \<le> t + d then (D, Failed ctx_error 0) else (t + d, a))"

definition retry_delay :: "duration \<Rightarrow> nat \<Rightarrow> duration \<Rightarrow> duration" where
  "retry_delay base k a = (if 0 < a then a else base * 2 ^ k)"

text \<open>The loop with \<open>n\<close> attempts left after the \<open>k\<close>-th: the attempts, the end and the error\<close>
fun retry_loop :: "time \<Rightarrow> duration \<Rightarrow> sender \<Rightarrow> nat \<Rightarrow> nat \<Rightarrow> time \<Rightarrow> (time \<times> answer) list \<times> time \<times> string option" where
  "retry_loop D base fn k n t = (case fn k t of
      (t', Sent) \<Rightarrow> ([(t, Sent)], t', None)
    | (t', Failed e a) \<Rightarrow>
        (case n of
           0 \<Rightarrow> ([(t, Failed e a)], t', Some e)
         | Suc n \<Rightarrow> if D \<le> t' + retry_delay base k a then ([(t, Failed e a)], max t' D, Some ctx_error)
             else case retry_loop D base fn (Suc k) n (t' + retry_delay base k a) of (xs, r) \<Rightarrow> ((t, Failed e a) # xs, r)))"

declare retry_loop.simps [simp del]

definition withRetry :: "time \<Rightarrow> nat \<Rightarrow> duration \<Rightarrow> sender \<Rightarrow> time \<Rightarrow> (time \<times> answer) list \<times> time \<times> string option" where
  "withRetry D maxRetries base fn t = retry_loop D base fn 0 maxRetries t"

section \<open>Filters\<close>

definition matchesFilter :: "string \<Rightarrow> string option \<Rightarrow> bool" where
  "matchesFilter value0 fltr \<longleftrightarrow> (let v = ToUpper (TrimSpace value0) in
     v \<noteq> [] \<and> (case fltr of None \<Rightarrow> True | Some f \<Rightarrow> TrimSpace f = []
       \<or> list_ex (\<lambda>part. let p = ToUpper (TrimSpace part) in p \<noteq> [] \<and> (p = ''*'' \<or> p = v)) (Split f CHR '','')))"

section \<open>Texts\<close>

definition escapeTelegramHTML :: "string \<Rightarrow> string" where
  "escapeTelegramHTML s = ReplaceAll (ReplaceAll (ReplaceAll s ''&'' ''&amp;'') ''<'' ''&lt;'') ''>'' ''&gt;''"

definition headerLineValue :: "string \<Rightarrow> string" where
  "headerLineValue s = ReplaceAll (ReplaceAll (TrimSpace s) [CHR 0x0D] []) [CHR 0x0A] []"

definition splitCSV :: "string \<Rightarrow> string list" where
  "splitCSV s = filter (\<lambda>v. v \<noteq> []) (map TrimSpace (Split s CHR '',''))"

definition crlf :: string where "crlf = [CHR 0x0D, CHR 0x0A]"

definition buildDeviceURL :: "string \<Rightarrow> device_id \<Rightarrow> string" where
  "buildDeviceURL base d = (let b = trim_right (\<lambda>c. c = CHR ''/'') (TrimSpace base) in
     if b = [] \<or> d \<le> 0 then [] else b @ ''/devices/'' @ Itoa d)"

record EmailConfig =
  ec_From :: string
  ec_To :: string
  ec_SMTPHost :: string
  ec_SMTPPort :: int
  ec_SMTPUsername :: string
  ec_SMTPPassword :: string
  ec_TLSSkipVerify :: bool

definition default_subject :: string where "default_subject = ''NetLynx alert''"

text \<open>The headers that every mail begins with; \<open>rest\<close> is the header \<open>Content-Type\<close> of its kind.\<close>
definition mail_header :: "string \<Rightarrow> string list \<Rightarrow> string \<Rightarrow> string \<Rightarrow> string" where
  "mail_header frm to subject rest = ''From: '' @ frm @ crlf @ ''To: '' @ Join to '', '' @ crlf @ ''Subject: '' @ subject @ crlf
     @ ''MIME-Version: 1.0'' @ crlf @ rest @ crlf @ crlf"

text \<open>A mail without attachments: the recipients and the text that is sent, or an error\<close>
definition plain_mail :: "EmailConfig \<Rightarrow> string \<Rightarrow> string \<Rightarrow> string + (string \<times> string list \<times> string)" where
  "plain_mail cfg subject body =
     (if TrimSpace (ec_SMTPHost cfg) = [] then Inl ''email: empty smtp_host''
      else let frm = headerLineValue (ec_From cfg) in
        if frm = [] then Inl ''email: empty from''
        else let to = splitCSV (headerLineValue (ec_To cfg)) in
          if to = [] then Inl ''email: empty recipients''
          else let s = headerLineValue subject; s = (if s = [] then default_subject else s)
            in Inr (frm, to, mail_header frm to s ''Content-Type: text/plain; charset=UTF-8'' @ body @ crlf))"

section \<open>The conversation with the mail server\<close>

datatype smtp_auth = LoginAuth | PlainAuth

text \<open>The mechanisms the server offers, \<open>None\<close> without the extension \<open>AUTH\<close>\<close>
definition pickSMTPAuth :: "string option \<Rightarrow> smtp_auth" where
  "pickSMTPAuth mechs = (case mechs of None \<Rightarrow> LoginAuth
     | Some m \<Rightarrow> if m = [] then LoginAuth else if Contains (ToUpper m) ''LOGIN'' then LoginAuth
         else if Contains (ToUpper m) ''PLAIN'' then PlainAuth else LoginAuth)"

text \<open>What \<open>loginAuth.Next\<close> answers to a prompt of the server\<close>
definition login_next :: "string \<Rightarrow> string \<Rightarrow> string \<Rightarrow> bool \<Rightarrow> string + string" where
  "login_next user pass prompt again =
     (if \<not> again then Inr []
      else let p = ToLower (TrimSpace prompt) in
        if Contains p ''username'' then Inr user else if Contains p ''password'' then Inr pass
        else Inl (''smtp LOGIN: unexpected challenge''))"

text \<open>
  A server as the client sees it: whether it offers \<open>STARTTLS\<close>, the mechanisms, and its prompts of a login. The standard
  library refuses \<open>PLAIN\<close> on a connection without TLS to a host that is not local.
\<close>
record smtp_server =
  ss_starttls :: bool
  ss_auth :: "string option"
  ss_prompts :: "string list"
  ss_local :: bool

text \<open>What the client says after the connection, each with whether it is encrypted; it ends at the first error.\<close>
definition smtp_login :: "smtp_server \<Rightarrow> bool \<Rightarrow> string \<Rightarrow> string \<Rightarrow> (bool \<times> string) list" where
  "smtp_login s implicitTLS user0 pass0 =
     (let tls = (implicitTLS \<or> ss_starttls s); user = TrimSpace user0; pass = TrimSpace pass0 in
      if user = [] then []
      else case pickSMTPAuth (ss_auth s) of
        PlainAuth \<Rightarrow> if tls \<or> ss_local s then [(tls, [CHR 0x00] @ user @ [CHR 0x00] @ pass)] else []
      | LoginAuth \<Rightarrow> map (\<lambda>a. (tls, projr a)) (takeWhile (\<lambda>a. \<not> isl a) (map (\<lambda>p. login_next user pass p True) (ss_prompts s))))"

section \<open>The card of an event\<close>

text \<open>What the database says of the device: name, address, place, category\<close>
record card_device =
  cd_Name :: string
  cd_Host :: string
  cd_Location :: "string option"
  cd_Category :: string

definition device_number :: string where
  "device_number = [CHR 0xD1, CHR 0x83, CHR 0xD1, CHR 0x81, CHR 0xD1, CHR 0x82, CHR 0xD1, CHR 0x80, CHR 0xD0, CHR 0xBE, CHR 0xD0, CHR 0xB9, CHR 0xD1, CHR 0x81, CHR 0xD1, CHR 0x82, CHR 0xD0, CHR 0xB2, CHR 0xD0, CHR 0xBE, CHR 0x20, CHR 0x23]"

definition dot_between :: string where
  "dot_between = [CHR 0x20, CHR 0xC2, CHR 0xB7, CHR 0x20]"

definition isBatched :: "string \<Rightarrow> bool" where
  "isBatched et \<longleftrightarrow> et = OFFLINE \<or> et = ONLINE"

text \<open>The card; the label of a category, the text on the port and the line on the state are arguments.\<close>
definition makeEmailCard :: "string \<Rightarrow> (string \<Rightarrow> string) \<Rightarrow> card_device option \<Rightarrow> string option \<Rightarrow> (string \<Rightarrow> string)
    \<Rightarrow> device_id \<Rightarrow> string \<Rightarrow> string \<Rightarrow> string \<Rightarrow> int \<Rightarrow> EmailDeviceCard" where
  "makeEmailCard publicBase label dev att status_line deviceID deviceName deviceHost eventType offlineSec =
     (let name = TrimSpace deviceName; host = TrimSpace deviceHost;
          name = (case dev of Some d \<Rightarrow> if TrimSpace (cd_Name d) \<noteq> [] then TrimSpace (cd_Name d) else name | None \<Rightarrow> name);
          host = (case dev of Some d \<Rightarrow> if TrimSpace (cd_Host d) \<noteq> [] then TrimSpace (cd_Host d) else host | None \<Rightarrow> host);
          loc = (case dev of Some d \<Rightarrow> (case cd_Location d of Some l \<Rightarrow> TrimSpace l | None \<Rightarrow> []) | None \<Rightarrow> []);
          cat = (case dev of Some d \<Rightarrow> NormalizeDeviceCategory (cd_Category d) | None \<Rightarrow> []);
          catLabel = (case dev of Some d \<Rightarrow> label cat | None \<Rightarrow> []);
          name = (if name = [] then host else name);
          name = (if name = [] then device_number @ Itoa deviceID else name);
          subtitle = (if host \<noteq> [] \<and> catLabel \<noteq> [] then host @ dot_between @ catLabel else if host = [] \<and> catLabel \<noteq> [] then catLabel else host);
          subtitle = (if host = name then catLabel else subtitle);
          loc = (if loc = name \<or> loc = host then [] else loc);
          et = ToUpper (TrimSpace eventType)
      in \<lparr>ec_DeviceID = deviceID, ec_Title = name, ec_Subtitle = subtitle, ec_Detail = loc,
          ec_Attachment = (if isBatched et then case att of Some a \<Rightarrow> a | None \<Rightarrow> [] else []),
          ec_StatusLine = status_line cat, ec_Kind = et, ec_Category = cat, ec_URL = buildDeviceURL publicBase deviceID,
          ec_OfflineDurationSec = offlineSec\<rparr>)"

section \<open>The channels of an event\<close>

record NotificationSettings =
  ns_WebhookURL :: "string option"
  ns_WebhookEnabled :: bool
  ns_WebhookEventTypes :: "string option"
  ns_WebhookSeverities :: "string option"
  ns_EmailEnabled :: bool
  ns_EmailFrom :: "string option"
  ns_EmailTo :: "string option"
  ns_EmailEventTypes :: "string option"
  ns_EmailSeverities :: "string option"
  ns_SMTPHost :: "string option"
  ns_TelegramBotToken :: "string option"
  ns_TelegramChatID :: "string option"
  ns_TelegramEnabled :: bool
  ns_TelegramEventTypes :: "string option"
  ns_TelegramSeverities :: "string option"
  ns_NotifyMaxRetries :: int
  ns_NotifyRetryBackoffMs :: int

text \<open>How long a request over each channel takes and what comes back; which addresses of webhooks are allowed\<close>
record channels =
  ch_webhook :: "nat \<Rightarrow> time \<Rightarrow> duration \<times> answer"
  ch_telegram :: "nat \<Rightarrow> time \<Rightarrow> duration \<times> answer"
  ch_email :: "nat \<Rightarrow> time \<Rightarrow> duration \<times> answer"
  ch_allowed :: "string \<Rightarrow> bool"

datatype channel = ToWebhook | ToTelegram | ToEmail

text \<open>A delivery: the channel, the attempts, the error at the end\<close>
type_synonym delivery = "channel \<times> (time \<times> answer) list \<times> string option"

definition set_text :: "string option \<Rightarrow> bool" where
  "set_text x \<longleftrightarrow> (case x of None \<Rightarrow> False | Some s \<Rightarrow> TrimSpace s \<noteq> [])"

definition wants_webhook :: "channels \<Rightarrow> NotificationSettings \<Rightarrow> string \<Rightarrow> string \<Rightarrow> bool" where
  "wants_webhook ch ns eventType severity \<longleftrightarrow> ns_WebhookEnabled ns \<and> set_text (ns_WebhookURL ns)
     \<and> (case ns_WebhookURL ns of None \<Rightarrow> False | Some u \<Rightarrow> ch_allowed ch (TrimSpace u))
     \<and> matchesFilter eventType (ns_WebhookEventTypes ns) \<and> matchesFilter severity (ns_WebhookSeverities ns)"

definition wants_telegram :: "NotificationSettings \<Rightarrow> string \<Rightarrow> string \<Rightarrow> bool" where
  "wants_telegram ns eventType severity \<longleftrightarrow> ns_TelegramEnabled ns \<and> set_text (ns_TelegramBotToken ns) \<and> set_text (ns_TelegramChatID ns)
     \<and> matchesFilter eventType (ns_TelegramEventTypes ns) \<and> matchesFilter severity (ns_TelegramSeverities ns)"

definition wants_email :: "NotificationSettings \<Rightarrow> string \<Rightarrow> string \<Rightarrow> bool" where
  "wants_email ns eventType severity \<longleftrightarrow> ns_EmailEnabled ns \<and> ns_EmailFrom ns \<noteq> None \<and> ns_EmailTo ns \<noteq> None \<and> ns_SMTPHost ns \<noteq> None
     \<and> matchesFilter eventType (ns_EmailEventTypes ns) \<and> matchesFilter severity (ns_EmailSeverities ns)"

text \<open>One channel after the other: a channel that is not wanted takes no time.\<close>
definition deliver :: "bool \<Rightarrow> channel \<Rightarrow> time \<Rightarrow> NotificationSettings \<Rightarrow> (nat \<Rightarrow> time \<Rightarrow> duration \<times> answer) \<Rightarrow> time \<Rightarrow> delivery list \<times> time" where
  "deliver wanted c D ns send t =
     (if \<not> wanted then ([], t)
      else case normalizeRetry (ns_NotifyMaxRetries ns) (ns_NotifyRetryBackoffMs ns) of (n, b) \<Rightarrow>
        case withRetry D n b (under_ctx D send) t of (xs, t', err) \<Rightarrow> ([(c, xs, err)], t'))"

text \<open>\<open>sendEmailCards\<close>\<close>
definition sendEmailCards :: "time \<Rightarrow> NotificationSettings \<Rightarrow> EmailDeviceCard list \<Rightarrow> (nat \<Rightarrow> time \<Rightarrow> duration \<times> answer) \<Rightarrow> time \<Rightarrow> delivery list \<times> time" where
  "sendEmailCards D ns cards send t =
     deliver (cards \<noteq> [] \<and> ns_EmailFrom ns \<noteq> None \<and> ns_EmailTo ns \<noteq> None \<and> ns_SMTPHost ns \<noteq> None) ToEmail D ns send t"

definition dispatch_timeout :: duration where "dispatch_timeout = 12 * second"

text \<open>
  The goroutine of an event that was accepted at \<open>t\<close>; \<open>skip\<close> is the answer on the MAC address (\<open>None\<close> an error), \<open>settings\<close> that on the
  settings. Mails on the state of a device join the batch at the time the other channels are done.
\<close>
definition dispatch :: "channels \<Rightarrow> bool option \<Rightarrow> NotificationSettings option \<Rightarrow> string \<Rightarrow> string \<Rightarrow> EmailDeviceCard \<Rightarrow> time
    \<Rightarrow> NotificationSettings EventHook \<Rightarrow> delivery list \<times> NotificationSettings EventHook" where
  "dispatch ch skip settings eventType severity itm t h =
     (if skip \<noteq> Some False then ([], h)
      else case settings of None \<Rightarrow> ([], h)
        | Some ns \<Rightarrow>
            let D = t + dispatch_timeout;
                (d1, t1) = deliver (wants_webhook ch ns eventType severity) ToWebhook D ns (ch_webhook ch) t;
                (d2, t2) = deliver (wants_telegram ns eventType severity) ToTelegram D ns (ch_telegram ch) t1
            in if wants_email ns eventType severity
               then let et = ToUpper (TrimSpace eventType)
                    in if isBatched et then (d1 @ d2, enqueueEmailBatch t2 et itm ns h)
                       else (d1 @ d2 @ fst (sendEmailCards D ns [itm] (ch_email ch) t2), h)
               else (d1 @ d2, h))"

definition DispatchEvent :: "channels \<Rightarrow> bool option \<Rightarrow> NotificationSettings option \<Rightarrow> string \<Rightarrow> string \<Rightarrow> EmailDeviceCard \<Rightarrow> time
    \<Rightarrow> NotificationSettings EventHook \<Rightarrow> delivery list \<times> NotificationSettings EventHook" where
  "DispatchEvent ch skip settings eventType severity itm t h =
     (if tryAdd h then dispatch ch skip settings eventType severity itm t h else ([], h))"

section \<open>The contract of the retries\<close>

text \<open>Between two attempts lies at least the pause of the first.\<close>
fun paused :: "duration \<Rightarrow> nat \<Rightarrow> (time \<times> answer) list \<Rightarrow> bool" where
  "paused base k ((t, Failed e a) # (t', b) # xs) \<longleftrightarrow> t + retry_delay base k a \<le> t' \<and> paused base (Suc k) ((t', b) # xs)"
| "paused base k ((t, Sent) # y # xs) \<longleftrightarrow> False"
| "paused base k [x] \<longleftrightarrow> True"
| "paused base k [] \<longleftrightarrow> True"

definition retry_ok :: "time \<Rightarrow> duration \<Rightarrow> nat \<Rightarrow> nat \<Rightarrow> time \<Rightarrow> (time \<times> answer) list \<times> time \<times> string option \<Rightarrow> bool" where
  "retry_ok D base k n t r \<longleftrightarrow> (case r of (xs, t', err) \<Rightarrow>
     xs \<noteq> [] \<and> length xs \<le> Suc n \<and> fst (hd xs) = t \<and> paused base k xs \<and> Sent \<notin> snd ` set (butlast xs)
     \<and> (err = None \<longleftrightarrow> snd (last xs) = Sent) \<and> t \<le> t' \<and> t' \<le> max t D \<and> (err \<noteq> None \<longrightarrow> length xs < Suc n \<longrightarrow> t' = max t D))"

lemma retry_okD:
  assumes "retry_ok D base k n t (xs, t', err)"
  shows "xs \<noteq> []" "length xs \<le> Suc n" "fst (hd xs) = t" "paused base k xs" "Sent \<notin> snd ` set (butlast xs)"
    "err = None \<longleftrightarrow> snd (last xs) = Sent" "t \<le> t'" "t' \<le> max t D" "err \<noteq> None \<Longrightarrow> length xs < Suc n \<Longrightarrow> t' = max t D"
  using assms unfolding retry_ok_def prod.case by blast+

lemma under_ctx_ends:
  assumes "under_ctx D send k t = (t', a)" "0 \<le> fst (send k t)" shows "t \<le> t'" "t' \<le> max t D" "D \<le> t \<Longrightarrow> t' = t \<and> a = Failed ctx_error 0"
  using assms by (auto simp: under_ctx_def case_prod_beta split: if_splits)

lemma retry_delay_nonneg: "0 \<le> base \<Longrightarrow> 0 \<le> retry_delay base k a"
  by (simp add: retry_delay_def)

lemma retry_loop_ok:
  assumes base: "0 \<le> base" and send: "\<forall>k t. 0 \<le> fst (send k t)"
  shows "retry_ok D base k n t (retry_loop D base (under_ctx D send) k n t)"
proof (induction n arbitrary: k t)
  case 0
  obtain t' a where u: "under_ctx D send k t = (t', a)" by (cases "under_ctx D send k t")
  note ends = under_ctx_ends [OF u send [rule_format]]
  show ?case using u ends(1,2) by (cases a) (simp_all add: retry_loop.simps retry_ok_def)
next
  case (Suc n)
  obtain t' a where u: "under_ctx D send k t = (t', a)" by (cases "under_ctx D send k t")
  note ends = under_ctx_ends [OF u send [rule_format]]
  show ?case
  proof (cases a)
    case Sent
    then show ?thesis using u ends(1,2) by (simp add: retry_loop.simps retry_ok_def)
  next
    case (Failed e w)
    let ?d = "retry_delay base k w"
    have d: "0 \<le> ?d" using base by (rule retry_delay_nonneg)
    show ?thesis
    proof (cases "D \<le> t' + ?d")
      case True
      then show ?thesis using u Failed ends(1,2) by (auto simp: retry_loop.simps [of D base _ k] retry_ok_def)
    next
      case False
      obtain xs t2 err where r: "retry_loop D base (under_ctx D send) (Suc k) n (t' + ?d) = (xs, t2, err)"
        by (cases "retry_loop D base (under_ctx D send) (Suc k) n (t' + ?d)")
      have "retry_ok D base (Suc k) n (t' + ?d) (xs, t2, err)" using Suc.IH [of "Suc k" "t' + ?d"] r by simp
      note rest = retry_okD [OF this]
      obtain y ys where xs: "xs = (t' + ?d, y) # ys" using rest(1,3) by (cases xs) auto
      have "retry_loop D base (under_ctx D send) k (Suc n) t = ((t, Failed e w) # xs, t2, err)"
        using u Failed False r by (simp add: retry_loop.simps [of D base _ k])
      moreover have "retry_ok D base k (Suc n) t ((t, Failed e w) # xs, t2, err)"
        unfolding retry_ok_def prod.case
      proof (intro conjI impI)
        show "length ((t, Failed e w) # xs) \<le> Suc (Suc n)" using rest(2) by simp
        show "paused base k ((t, Failed e w) # xs)" using rest(4) ends(1) xs by simp
        show "Sent \<notin> snd ` set (butlast ((t, Failed e w) # xs))" using rest(5) by auto
        show "err = None \<longleftrightarrow> snd (last ((t, Failed e w) # xs)) = Sent" using rest(1,6) by simp
        show "t \<le> t2" using rest(7) ends(1) d by simp
        show "t2 \<le> max t D" using rest(8) False ends(1) d by simp
        show "t2 = max t D" if "err \<noteq> None" "length ((t, Failed e w) # xs) < Suc (Suc n)"
          using rest(9) that False ends(1) d by simp
      qed simp_all
      ultimately show ?thesis by simp
    qed
  qed
qed

section \<open>The contract of a dispatch\<close>

text \<open>The times of requests are not negative.\<close>
definition real_times :: "channels \<Rightarrow> bool" where
  "real_times ch \<longleftrightarrow> (\<forall>k t. 0 \<le> fst (ch_webhook ch k t)) \<and> (\<forall>k t. 0 \<le> fst (ch_telegram ch k t)) \<and> (\<forall>k t. 0 \<le> fst (ch_email ch k t))"

text \<open>A delivery keeps the contract of the retries, from some time within the 12 seconds.\<close>
definition delivered :: "NotificationSettings \<Rightarrow> time \<Rightarrow> delivery \<Rightarrow> bool" where
  "delivered ns t d \<longleftrightarrow> (case d of (c, xs, err) \<Rightarrow> case normalizeRetry (ns_NotifyMaxRetries ns) (ns_NotifyRetryBackoffMs ns) of (n, b) \<Rightarrow>
     \<exists>t1 t2. t \<le> t1 \<and> t2 \<le> t + dispatch_timeout \<and> retry_ok (t + dispatch_timeout) b 0 n t1 (xs, t2, err))"

lemma normalizeRetry_bounds: "normalizeRetry m b = (n, d) \<Longrightarrow> n \<le> 10 \<and> 100000000 \<le> d \<and> d \<le> 60000000000"
  by (auto simp: normalizeRetry_def Let_def split: if_splits)

lemma deliver_ok:
  assumes "\<forall>k t. 0 \<le> fst (send k t)" "t \<le> t1" "t1 \<le> t + dispatch_timeout"
    "deliver wanted c (t + dispatch_timeout) ns send t1 = (ds, t2)"
  shows "map fst ds = (if wanted then [c] else [])" "\<forall>d\<in>set ds. delivered ns t d" "t1 \<le> t2" "t2 \<le> t + dispatch_timeout"
proof -
  obtain n b where n: "normalizeRetry (ns_NotifyMaxRetries ns) (ns_NotifyRetryBackoffMs ns) = (n, b)"
    by (cases "normalizeRetry (ns_NotifyMaxRetries ns) (ns_NotifyRetryBackoffMs ns)")
  have b: "0 \<le> b" using normalizeRetry_bounds [OF n] by simp
  obtain xs t' err where r: "withRetry (t + dispatch_timeout) n b (under_ctx (t + dispatch_timeout) send) t1 = (xs, t', err)"
    by (cases "withRetry (t + dispatch_timeout) n b (under_ctx (t + dispatch_timeout) send) t1")
  have ok: "retry_ok (t + dispatch_timeout) b 0 n t1 (xs, t', err)"
    using retry_loop_ok [OF b assms(1)] r unfolding withRetry_def by metis
  have eq: "(ds, t2) = (if wanted then ([(c, xs, err)], t') else ([], t1))" using assms(4) n r by (cases wanted) (simp_all add: deliver_def)
  have t': "t1 \<le> t'" "t' \<le> t + dispatch_timeout" using retry_okD(7,8) [OF ok] assms(3) by simp_all
  show "map fst ds = (if wanted then [c] else [])" using eq by (simp split: if_splits)
  show "t1 \<le> t2" "t2 \<le> t + dispatch_timeout" using eq t' assms(3) by (simp_all split: if_splits)
  show "\<forall>d\<in>set ds. delivered ns t d"
    using eq ok assms(2) t'(2) n by (auto simp: delivered_def split: if_splits)
qed

text \<open>C13. An accepted event whose address is not hidden goes to every channel that is switched on, configured and whose filters let it
  pass, in the order webhook, Telegram, mail, each once: at most 1 + retries attempts (retries between 0 and 10), each after the pause
  the last failure asks for, no attempt after a success, an error only without a success, and no giving up
  before the 12 seconds unless all attempts are used. A mail on the state of a device waits in its batch instead.\<close>
theorem DispatchEvent_delivers:
  assumes "real_times ch"
  shows "(let r = DispatchEvent ch skip settings eventType severity itm t h; et = ToUpper (TrimSpace eventType) in
    if \<not> tryAdd h \<or> skip \<noteq> Some False \<or> settings = None then r = ([], h)
    else let ns = the settings in
      map fst (fst r) = (if wants_webhook ch ns eventType severity then [ToWebhook] else [])
         @ (if wants_telegram ns eventType severity then [ToTelegram] else [])
         @ (if wants_email ns eventType severity \<and> \<not> isBatched et then [ToEmail] else [])
      \<and> (\<forall>d\<in>set (fst r). delivered ns t d)
      \<and> (if wants_email ns eventType severity \<and> isBatched et then waiting (snd r) et (ec_DeviceID itm) = Some itm else snd r = h))"
proof (cases "\<not> tryAdd h \<or> skip \<noteq> Some False \<or> settings = None")
  case True
  then show ?thesis by (auto simp: DispatchEvent_def dispatch_def Let_def)
next
  case False
  then obtain ns where ns: "settings = Some ns" by auto
  let ?D = "t + dispatch_timeout" and ?et = "ToUpper (TrimSpace eventType)"
  let ?ww = "wants_webhook ch ns eventType severity" and ?wt = "wants_telegram ns eventType severity" and ?we = "wants_email ns eventType severity"
  have times: "\<forall>k t. 0 \<le> fst (ch_webhook ch k t)" "\<forall>k t. 0 \<le> fst (ch_telegram ch k t)" "\<forall>k t. 0 \<le> fst (ch_email ch k t)"
    using assms by (simp_all add: real_times_def)
  have start: "t \<le> t" "t \<le> ?D" by (simp_all add: dispatch_timeout_def second_def)
  obtain d1 t1 where d1: "deliver ?ww ToWebhook ?D ns (ch_webhook ch) t = (d1, t1)" by (cases "deliver ?ww ToWebhook ?D ns (ch_webhook ch) t")
  note 1 = deliver_ok [OF times(1) start d1]
  obtain d2 t2 where d2: "deliver ?wt ToTelegram ?D ns (ch_telegram ch) t1 = (d2, t2)" by (cases "deliver ?wt ToTelegram ?D ns (ch_telegram ch) t1")
  note 2 = deliver_ok [OF times(2) 1(3,4) d2]
  have t2: "t \<le> t2" using 1(3) 2(3) by simp
  let ?wm = "[itm] \<noteq> [] \<and> ns_EmailFrom ns \<noteq> None \<and> ns_EmailTo ns \<noteq> None \<and> ns_SMTPHost ns \<noteq> None"
  obtain d3 t3 where d3: "deliver ?wm ToEmail ?D ns (ch_email ch) t2 = (d3, t3)" by (cases "deliver ?wm ToEmail ?D ns (ch_email ch) t2")
  note 3 = deliver_ok [OF times(3) t2 2(4) d3]
  have mail: "?we \<Longrightarrow> ?wm" by (simp add: wants_email_def)
  have r: "DispatchEvent ch skip settings eventType severity itm t h =
    (if ?we then if isBatched ?et then (d1 @ d2, enqueueEmailBatch t2 ?et itm ns h) else (d1 @ d2 @ d3, h) else (d1 @ d2, h))"
    using False ns d1 d2 d3 by (simp add: DispatchEvent_def dispatch_def sendEmailCards_def Let_def)
  have m12: "map fst (d1 @ d2) = (if ?ww then [ToWebhook] else []) @ (if ?wt then [ToTelegram] else [])" using 1(1) 2(1) by simp
  have d12: "\<forall>d\<in>set (d1 @ d2). delivered ns t d" using 1(2) 2(2) by auto
  have m3: "?we \<Longrightarrow> map fst d3 = [ToEmail]" using 3(1) mail by simp
  consider (none) "\<not> ?we" | (batch) "?we" "isBatched ?et" | (mail) "?we" "\<not> isBatched ?et" by blast
  then show ?thesis
  proof cases
    case none
    then show ?thesis using False ns m12 d12 unfolding r by simp
  next
    case batch
    then show ?thesis using False ns m12 d12 unfolding r by (simp add: waiting_enqueue)
  next
    case mail
    then have "map fst (d1 @ d2 @ d3) = (if ?ww then [ToWebhook] else []) @ (if ?wt then [ToTelegram] else []) @ [ToEmail]"
      using m12 m3 by (metis append.assoc map_append)
    moreover have "\<forall>d\<in>set (d1 @ d2 @ d3). delivered ns t d" using d12 3(2) by auto
    ultimately show ?thesis using False ns mail unfolding r by simp
  qed
qed

section \<open>Texts that are sent\<close>

definition escape_char :: "char \<Rightarrow> string" where
  "escape_char c = (if c = CHR ''&'' then ''&amp;'' else if c = CHR ''<'' then ''&lt;'' else if c = CHR ''>'' then ''&gt;'' else [c])"

lemma escape_chars: "escapeTelegramHTML s = concat (map escape_char s)"
  by (induction s) (simp_all add: escapeTelegramHTML_def ReplaceAll_char escape_char_def)

text \<open>What a reader of HTML makes of the text\<close>
fun unescape :: "string \<Rightarrow> string" where
  "unescape [] = []"
| "unescape (c # cs) =
     (if c = CHR ''&'' \<and> HasPrefix cs ''amp;'' then CHR ''&'' # unescape (drop 4 cs)
      else if c = CHR ''&'' \<and> HasPrefix cs ''lt;'' then CHR ''<'' # unescape (drop 3 cs)
      else if c = CHR ''&'' \<and> HasPrefix cs ''gt;'' then CHR ''>'' # unescape (drop 3 cs)
      else c # unescape cs)"

lemma unescape_escape_char: "unescape (escape_char c @ s) = c # unescape s"
  by (auto simp: escape_char_def)

text \<open>A text in a message to Telegram is shown as it is and holds no tag: reading the escaped text as HTML gives the text back,
  and no character of it opens or closes a tag.\<close>
theorem telegram_text_roundtrip:
  "unescape (escapeTelegramHTML s) = s \<and> CHR ''<'' \<notin> set (escapeTelegramHTML s) \<and> CHR ''>'' \<notin> set (escapeTelegramHTML s)"
proof -
  have "unescape (concat (map escape_char s)) = s" by (induction s) (simp_all add: unescape_escape_char)
  moreover have "CHR ''<'' \<notin> set (escape_char c) \<and> CHR ''>'' \<notin> set (escape_char c)" for c by (simp add: escape_char_def)
  ultimately show ?thesis by (auto simp: escape_chars)
qed

definition one_line :: "string \<Rightarrow> bool" where
  "one_line s \<longleftrightarrow> CHR 0x0D \<notin> set s \<and> CHR 0x0A \<notin> set s"

lemma header_line_append [simp]: "one_line (a @ b) \<longleftrightarrow> one_line a \<and> one_line b"
  by (auto simp: one_line_def)

lemma set_remove_char: "set (ReplaceAll s [a] []) = set s - {a}"
  by (auto simp: ReplaceAll_char)

lemma headerLineValue_one_line: "one_line (headerLineValue s)"
  by (simp add: headerLineValue_def one_line_def set_remove_char)

lemma Split_chars: "p \<in> set (Split s x) \<Longrightarrow> set p \<subseteq> set s - {x}"
proof (induction s arbitrary: p)
  case (Cons a s)
  obtain q qs where q: "Split s x = q # qs" by (cases "Split s x") auto
  have ih: "set r \<subseteq> set s - {x}" if "r = q \<or> r \<in> set qs" for r using Cons.IH [of r] q that by simp
  show ?case
  proof (cases "a = x")
    case True
    then have "p = [] \<or> p = q \<or> p \<in> set qs" using Cons.prems q by simp
    then show ?thesis using ih [of p] by auto
  next
    case False
    then have "p = a # q \<or> p \<in> set qs" using Cons.prems q by simp
    then show ?thesis using ih [of q] ih [of p] False by auto
  qed
qed simp

lemma trim_chars: "set (TrimSpace s) \<subseteq> set s"
proof -
  have "set (trim_left P s) \<subseteq> set s" for P s unfolding trim_left_def using set_dropWhileD by fastforce
  moreover have "set (trim_right P s) \<subseteq> set s" for P s unfolding trim_right_def using set_dropWhileD by fastforce
  ultimately show ?thesis unfolding TrimSpace_def by blast
qed

lemma splitCSV_parts: "p \<in> set (splitCSV s) \<Longrightarrow> p \<noteq> [] \<and> set p \<subseteq> set s - {CHR '',''}"
  unfolding splitCSV_def using trim_chars Split_chars by (fastforce simp del: Diff_iff)

lemma Join_one_line: "\<forall>p\<in>set ps. one_line p \<Longrightarrow> one_line sep \<Longrightarrow> one_line (Join ps sep)"
  by (induction ps sep rule: Join.induct) (auto simp: one_line_def)


section \<open>What goes wrong\<close>

definition sample_settings :: NotificationSettings where
  "sample_settings = \<lparr>ns_WebhookURL = Some ''https://hook/'', ns_WebhookEnabled = True, ns_WebhookEventTypes = None, ns_WebhookSeverities = None,
     ns_EmailEnabled = False, ns_EmailFrom = None, ns_EmailTo = None, ns_EmailEventTypes = None, ns_EmailSeverities = None, ns_SMTPHost = None,
     ns_TelegramBotToken = Some ''t'', ns_TelegramChatID = Some ''c'', ns_TelegramEnabled = True, ns_TelegramEventTypes = None,
     ns_TelegramSeverities = None, ns_NotifyMaxRetries = 2, ns_NotifyRetryBackoffMs = 500\<rparr>"

text \<open>A webhook whose server does not answer until the client gives up after 10 seconds; Telegram works.\<close>
definition hanging :: channels where
  "hanging = \<lparr>ch_webhook = (\<lambda>_ _. (10 * second, Failed ''timeout'' 0)), ch_telegram = (\<lambda>_ _. (second, Sent)),
     ch_email = (\<lambda>_ _. (second, Sent)), ch_allowed = (\<lambda>_. True)\<rparr>"

text \<open>
  The channels share one deadline of 12 seconds: with the default retries a webhook that hangs uses it up, and the message to
  Telegram, whose server works, is never sent.
\<close>
lemma hanging_webhook_silences_telegram:
  "fst (DispatchEvent hanging (Some False) (Some sample_settings) ''DEVICE_OFFLINE'' ''error'' (sample_card 1 0) 0 NewEventHook)
   = [(ToWebhook, [(0, Failed ''timeout'' 0), (10500000000, Failed ctx_error 0)], Some ctx_error),
      (ToTelegram, [(12 * second, Failed ctx_error 0)], Some ctx_error)]"
  by code_simp

lemma DispatchEvent_delivers_witness:
  "real_times hanging \<and> (let r = DispatchEvent hanging (Some False) (Some sample_settings) ''DEVICE_OFFLINE'' ''error'' (sample_card 1 0) 0 NewEventHook
     in map fst (fst r) = [ToWebhook, ToTelegram] \<and> (\<forall>d\<in>set (fst r). delivered sample_settings 0 d) \<and> snd r = NewEventHook)"
proof -
  have real: "real_times hanging" by (simp add: real_times_def hanging_def second_def)
  have g: "tryAdd (NewEventHook :: NotificationSettings EventHook)" by code_simp
  have w: "wants_webhook hanging sample_settings ''DEVICE_OFFLINE'' ''error''" "wants_telegram sample_settings ''DEVICE_OFFLINE'' ''error''"
    "\<not> wants_email sample_settings ''DEVICE_OFFLINE'' ''error''" by code_simp+
  from DispatchEvent_delivers [OF real, of "Some False" "Some sample_settings" "''DEVICE_OFFLINE''" "''error''" "sample_card 1 0" 0 NewEventHook]
  show ?thesis using real g w by (simp add: Let_def)
qed

definition sample_mail :: EmailConfig where
  "sample_mail = \<lparr>ec_From = ''a@b'', ec_To = ''x@y'' @ crlf @ ''Bcc: z@w'', ec_SMTPHost = ''h'', ec_SMTPPort = 25, ec_SMTPUsername = ''u'', ec_SMTPPassword = ''p'', ec_TLSSkipVerify = False\<rparr>"


text \<open>
  A server that offers no encryption is sent the password in the clear: the login of the program, unlike that of the
  library, does not ask for TLS, so that anyone between the two who removes \<open>STARTTLS\<close> reads the password.
\<close>
lemma password_without_tls:
  "(False, ''secret'') \<in> set (smtp_login \<lparr>ss_starttls = False, ss_auth = Some ''LOGIN PLAIN'', ss_prompts = [''Username:'', ''Password:''], ss_local = False\<rparr>
     False ''user'' ''secret'')"
  by code_simp

end
