(* ===== verification/Poe_Schedule.thy ===== *)
theory Poe_Schedule
  imports Go_Prelude
begin

text \<open>
  Scheduled resets of the power over a port (\<open>store/poe_reset_schedule.go\<close>, \<open>api/poe_reset_schedule.go\<close>): the slots of a
  day, the schedules with their requests, and the pass of the scheduler that claims a slot and resets the port.
  The table is a list of rows; a statement of SQL is atomic. A reset over SSH is an argument.
\<close>

text \<open>The wall clock of the server, to the minute\<close>
record civil =
  cv_Year :: int
  cv_Month :: int
  cv_Day :: int
  cv_Hour :: int
  cv_Minute :: int

record PortPoEResetSchedule =
  pr_DeviceID :: device_id
  pr_IfIndex :: int
  pr_Enabled :: bool
  pr_Mode :: string
  pr_StartHour :: int
  pr_StartMinute :: int
  pr_TimesPerDay :: int
  pr_ResetSeconds :: int
  pr_LastFiredKey :: "string option"
  pr_LastRunAt :: "civil option"
  pr_LastStatus :: "string option"
  pr_LastError :: "string option"
  pr_NextSlots :: "string list"

definition PoEResetSchedAtTime :: string where "PoEResetSchedAtTime = ''at_time''"
definition PoEResetSchedTimesPerDay :: string where "PoEResetSchedTimesPerDay = ''times_per_day''"

text \<open>\<open>%0kd\<close> of a number that is not negative\<close>
definition pad :: "nat \<Rightarrow> int \<Rightarrow> string" where
  "pad k n = replicate (k - length (Itoa n)) CHR ''0'' @ Itoa n"

definition PoEResetScheduleSlotKey :: "civil \<Rightarrow> string" where
  "PoEResetScheduleSlotKey t = pad 4 (cv_Year t) @ CHR ''-'' # pad 2 (cv_Month t) @ CHR ''-'' # pad 2 (cv_Day t) @ CHR ''-''
     # pad 2 (cv_Hour t) @ CHR ''-'' # pad 2 (cv_Minute t)"

type_synonym slot = "int \<times> int"

text \<open>The start and the number of slots, within their bounds\<close>
definition slot_start :: "int \<Rightarrow> int \<Rightarrow> int" where
  "slot_start h m = (if h < 0 \<or> h > 23 then 0 else h) * 60 + (if m < 0 \<or> m > 59 then 0 else m)"

definition slot_count :: "int \<Rightarrow> int" where
  "slot_count n = (if (if n < 1 then 1 else n) > 24 then 24 else if n < 1 then 1 else n)"

definition ComputePoEResetSlots :: "int \<Rightarrow> int \<Rightarrow> int \<Rightarrow> slot list" where
  "ComputePoEResetSlots startHour startMinute timesPerDay =
     (let n = slot_count timesPerDay; interval = (24 * 60) div n; start = slot_start startHour startMinute
      in map (\<lambda>i. let t = (start + int i * interval) mod (24 * 60) in (t div 60, t mod 60)) [0..<nat n])"

definition FormatPoEResetSlot :: "slot \<Rightarrow> string" where
  "FormatPoEResetSlot s = pad 2 (fst s) @ CHR '':'' # pad 2 (snd s)"

definition PoEResetScheduleMatches :: "civil \<Rightarrow> int \<Rightarrow> int \<Rightarrow> int \<Rightarrow> bool" where
  "PoEResetScheduleMatches now startHour startMinute timesPerDay \<longleftrightarrow>
     list_ex (\<lambda>s. cv_Hour now = fst s \<and> cv_Minute now = snd s) (ComputePoEResetSlots startHour startMinute timesPerDay)"

definition err_mode :: string where
  "err_mode = [CHR 0x6D, CHR 0x6F, CHR 0x64, CHR 0x65, CHR 0x3A, CHR 0x20, CHR 0xD0, CHR 0xBE, CHR 0xD0, CHR 0xB6, CHR 0xD0, CHR 0xB8, CHR 0xD0, CHR 0xB4, CHR 0xD0, CHR 0xB0, CHR 0xD0, CHR 0xB5, CHR 0xD1, CHR 0x82, CHR 0xD1, CHR 0x81, CHR 0xD1, CHR 0x8F, CHR 0x20, CHR 0x61, CHR 0x74, CHR 0x5F, CHR 0x74, CHR 0x69, CHR 0x6D, CHR 0x65, CHR 0x20, CHR 0xD0, CHR 0xB8, CHR 0xD0, CHR 0xBB, CHR 0xD0, CHR 0xB8, CHR 0x20, CHR 0x74, CHR 0x69, CHR 0x6D, CHR 0x65, CHR 0x73, CHR 0x5F, CHR 0x70, CHR 0x65, CHR 0x72, CHR 0x5F, CHR 0x64, CHR 0x61, CHR 0x79]"

definition NormalizePortPoEResetSchedule :: "PortPoEResetSchedule \<Rightarrow> string + PortPoEResetSchedule" where
  "NormalizePortPoEResetSchedule r =
     (let mode = (if pr_Mode r = [] then PoEResetSchedAtTime else pr_Mode r)
      in if mode \<noteq> PoEResetSchedAtTime \<and> mode \<noteq> PoEResetSchedTimesPerDay then Inl err_mode
         else if pr_StartHour r < 0 \<or> pr_StartHour r > 23 then Inl ''start_hour: 0..23''
         else if pr_StartMinute r < 0 \<or> pr_StartMinute r > 59 then Inl ''start_minute: 0..59''
         else let times = (if mode = PoEResetSchedAtTime then 1 else if pr_TimesPerDay r < 2 then 2 else pr_TimesPerDay r)
           in if mode \<noteq> PoEResetSchedAtTime \<and> times > 24 then Inl ''times_per_day: 2..24''
              else let sec = (if pr_ResetSeconds r = 0 then 10 else pr_ResetSeconds r)
                in if sec < 1 \<or> sec > 60 then Inl ''reset_seconds: 1..60''
                   else Inr (r\<lparr>pr_Mode := mode, pr_TimesPerDay := times, pr_ResetSeconds := sec\<rparr>))"

text \<open>The times that are shown: those of today from now on, then those of tomorrow, at most eight\<close>
definition AttachPoEResetNextSlots :: "civil \<Rightarrow> PortPoEResetSchedule \<Rightarrow> PortPoEResetSchedule" where
  "AttachPoEResetNextSlots now r =
     (let slots = ComputePoEResetSlots (pr_StartHour r) (pr_StartMinute r) (pr_TimesPerDay r);
          nowMin = cv_Hour now * 60 + cv_Minute now;
          today = filter (\<lambda>s. nowMin \<le> fst s * 60 + snd s) slots
      in r\<lparr>pr_NextSlots := take 8 (map FormatPoEResetSlot (today @ slots))\<rparr>)"

section \<open>The table\<close>

type_synonym port_key = "device_id \<times> int"

definition row_key :: "PortPoEResetSchedule \<Rightarrow> port_key" where
  "row_key r = (pr_DeviceID r, pr_IfIndex r)"

definition GetPortPoEResetSchedule :: "port_key \<Rightarrow> PortPoEResetSchedule list \<Rightarrow> PortPoEResetSchedule option" where
  "GetPortPoEResetSchedule p rows = List.find (\<lambda>r. row_key r = p) rows"

text \<open>\<open>UPDATE ... WHERE\<close>\<close>
definition update_rows :: "(PortPoEResetSchedule \<Rightarrow> bool) \<Rightarrow> (PortPoEResetSchedule \<Rightarrow> PortPoEResetSchedule) \<Rightarrow> PortPoEResetSchedule list \<Rightarrow> PortPoEResetSchedule list" where
  "update_rows P f rows = map (\<lambda>r. if P r then f r else r) rows"

definition UpsertPortPoEResetSchedule :: "PortPoEResetSchedule \<Rightarrow> PortPoEResetSchedule list \<Rightarrow> string + PortPoEResetSchedule list" where
  "UpsertPortPoEResetSchedule r rows = (case NormalizePortPoEResetSchedule r of
     Inl e \<Rightarrow> Inl e
   | Inr n \<Rightarrow> Inr (if GetPortPoEResetSchedule (row_key n) rows = None
       then rows @ [n\<lparr>pr_LastFiredKey := None, pr_LastRunAt := None, pr_LastStatus := None, pr_LastError := None, pr_NextSlots := []\<rparr>]
       else update_rows (\<lambda>r. row_key r = row_key n) (\<lambda>r. r\<lparr>pr_Enabled := pr_Enabled n, pr_Mode := pr_Mode n, pr_StartHour := pr_StartHour n,
              pr_StartMinute := pr_StartMinute n, pr_TimesPerDay := pr_TimesPerDay n, pr_ResetSeconds := pr_ResetSeconds n\<rparr>) rows))"

definition DeletePortPoEResetSchedule :: "port_key \<Rightarrow> PortPoEResetSchedule list \<Rightarrow> bool \<times> PortPoEResetSchedule list" where
  "DeletePortPoEResetSchedule p rows = (GetPortPoEResetSchedule p rows \<noteq> None, filter (\<lambda>r. row_key r \<noteq> p) rows)"

definition ListEnabledPortPoEResetSchedules :: "PortPoEResetSchedule list \<Rightarrow> PortPoEResetSchedule list" where
  "ListEnabledPortPoEResetSchedules rows = filter pr_Enabled rows"

definition claimable :: "port_key \<Rightarrow> string \<Rightarrow> PortPoEResetSchedule \<Rightarrow> bool" where
  "claimable p slotKey r \<longleftrightarrow> row_key r = p \<and> pr_Enabled r \<and> pr_LastFiredKey r \<noteq> Some slotKey"

definition ClaimPortPoEResetScheduleSlot :: "port_key \<Rightarrow> string \<Rightarrow> PortPoEResetSchedule list \<Rightarrow> bool \<times> PortPoEResetSchedule list" where
  "ClaimPortPoEResetScheduleSlot p slotKey rows =
     (list_ex (claimable p slotKey) rows, update_rows (claimable p slotKey) (\<lambda>r. r\<lparr>pr_LastFiredKey := Some slotKey\<rparr>) rows)"

definition SetPortPoEResetScheduleResult :: "civil \<Rightarrow> port_key \<Rightarrow> string \<Rightarrow> string \<Rightarrow> PortPoEResetSchedule list \<Rightarrow> PortPoEResetSchedule list" where
  "SetPortPoEResetScheduleResult now p status errMsg rows =
     update_rows (\<lambda>r. row_key r = p) (\<lambda>r. r\<lparr>pr_LastRunAt := Some now, pr_LastStatus := Some status,
       pr_LastError := (if errMsg = [] then None else Some errMsg)\<rparr>) rows"

section \<open>Requests\<close>

record putPoEResetScheduleBody =
  pb_Enabled :: bool
  pb_Mode :: string
  pb_StartHour :: "int option"
  pb_StartMinute :: "int option"
  pb_TimesPerDay :: "int option"
  pb_ResetSeconds :: "int option"
  pb_Time :: string

definition defaultPoEResetSchedule :: "port_key \<Rightarrow> PortPoEResetSchedule" where
  "defaultPoEResetSchedule p = \<lparr>pr_DeviceID = fst p, pr_IfIndex = snd p, pr_Enabled = False, pr_Mode = PoEResetSchedAtTime,
     pr_StartHour = 3, pr_StartMinute = 0, pr_TimesPerDay = 1, pr_ResetSeconds = 10, pr_LastFiredKey = None,
     pr_LastRunAt = None, pr_LastStatus = None, pr_LastError = None, pr_NextSlots = []\<rparr>"

definition err_time :: string where
  "err_time = [CHR 0x74, CHR 0x69, CHR 0x6D, CHR 0x65, CHR 0x3A, CHR 0x20, CHR 0xD0, CHR 0xBE, CHR 0xD0, CHR 0xB6, CHR 0xD0, CHR 0xB8, CHR 0xD0, CHR 0xB4, CHR 0xD0, CHR 0xB0, CHR 0xD0, CHR 0xB5, CHR 0xD1, CHR 0x82, CHR 0xD1, CHR 0x81, CHR 0xD1, CHR 0x8F, CHR 0x20, CHR 0xD0, CHR 0xA7, CHR 0xD0, CHR 0xA7, CHR 0x3A, CHR 0xD0, CHR 0x9C, CHR 0xD0, CHR 0x9C]"

definition parseHHMM :: "string \<Rightarrow> string + slot" where
  "parseHHMM s = (case Split (TrimSpace s) CHR '':'' of
     [a, b] \<Rightarrow> (case (Atoi (TrimSpace a), Atoi (TrimSpace b)) of
         (Some h, Some m) \<Rightarrow> if h < 0 \<or> h > 23 \<or> m < 0 \<or> m > 59 then Inl err_time else Inr (h, m)
       | _ \<Rightarrow> Inl err_time)
   | _ \<Rightarrow> Inl err_time)"

definition with_default :: "'a option \<Rightarrow> 'a \<Rightarrow> 'a" where
  "with_default x d = (case x of None \<Rightarrow> d | Some v \<Rightarrow> v)"

text \<open>The row a request asks for: the stored row or the default one, changed by the request\<close>
definition put_schedule :: "port_key \<Rightarrow> putPoEResetScheduleBody \<Rightarrow> PortPoEResetSchedule option \<Rightarrow> string + PortPoEResetSchedule" where
  "put_schedule p b cur =
     (let row = with_default cur (defaultPoEResetSchedule p);
          row = row\<lparr>pr_Enabled := pb_Enabled b, pr_Mode := (if pb_Mode b \<noteq> [] then pb_Mode b else pr_Mode row)\<rparr>
      in case (if TrimSpace (pb_Time b) \<noteq> [] then parseHHMM (pb_Time b) else Inr (pr_StartHour row, pr_StartMinute row)) of
           Inl e \<Rightarrow> Inl e
         | Inr (h, m) \<Rightarrow> NormalizePortPoEResetSchedule (row\<lparr>pr_StartHour := with_default (pb_StartHour b) h,
             pr_StartMinute := with_default (pb_StartMinute b) m, pr_TimesPerDay := with_default (pb_TimesPerDay b) (pr_TimesPerDay row),
             pr_ResetSeconds := with_default (pb_ResetSeconds b) (pr_ResetSeconds row), pr_DeviceID := fst p, pr_IfIndex := snd p\<rparr>))"

definition handlePutPortPoEResetSchedule :: "port_key \<Rightarrow> putPoEResetScheduleBody \<Rightarrow> PortPoEResetSchedule list \<Rightarrow> string + PortPoEResetSchedule list" where
  "handlePutPortPoEResetSchedule p b rows = (case put_schedule p b (GetPortPoEResetSchedule p rows) of
     Inl e \<Rightarrow> Inl e
   | Inr norm \<Rightarrow> UpsertPortPoEResetSchedule norm rows)"

section \<open>The pass of the scheduler\<close>

text \<open>An attempt to reset a port: port, minute of the pass, seconds without power\<close>
type_synonym reset = "port_key \<times> civil \<times> int"

record poe_state =
  po_rows :: "PortPoEResetSchedule list"
  po_resets :: "reset list"
  po_events :: "(port_key \<times> int \<times> string \<times> string \<times> string) list"

text \<open>What answers: the database for the list and for the claims, and \<open>pushPortPoEReset\<close>, an error or the way that worked\<close>
record poe_world =
  pw_list :: bool
  pw_claim :: "port_key \<Rightarrow> bool"
  pw_push :: "port_key \<Rightarrow> int \<Rightarrow> string + string"

definition emitScheduledPoEResetEvent :: "port_key \<Rightarrow> int \<Rightarrow> string \<Rightarrow> string \<Rightarrow> poe_state \<Rightarrow> poe_state" where
  "emitScheduledPoEResetEvent p seconds via errMsg st =
     st\<lparr>po_events := (p, seconds, via, errMsg, if errMsg \<noteq> [] then ''warning'' else ''info'') # po_events st\<rparr>"

definition row_due :: "civil \<Rightarrow> PortPoEResetSchedule \<Rightarrow> bool" where
  "row_due now row \<longleftrightarrow> PoEResetScheduleMatches now (pr_StartHour row) (pr_StartMinute row)
     (if pr_Mode row = PoEResetSchedAtTime then 1 else pr_TimesPerDay row)"

definition reset_seconds :: "PortPoEResetSchedule \<Rightarrow> int" where
  "reset_seconds row = (if pr_ResetSeconds row < 1 \<or> pr_ResetSeconds row > 60 then 10 else pr_ResetSeconds row)"

definition run_reset :: "poe_world \<Rightarrow> civil \<Rightarrow> PortPoEResetSchedule \<Rightarrow> poe_state \<Rightarrow> poe_state" where
  "run_reset w now row st =
     (let p = row_key row; sec = reset_seconds row;
          st = st\<lparr>po_resets := (p, now, sec) # po_resets st\<rparr>
      in case pw_push w p sec of
           Inl e \<Rightarrow> emitScheduledPoEResetEvent p sec [] e (st\<lparr>po_rows := SetPortPoEResetScheduleResult now p ''fail'' e (po_rows st)\<rparr>)
         | Inr via \<Rightarrow> emitScheduledPoEResetEvent p sec via [] (st\<lparr>po_rows := SetPortPoEResetScheduleResult now p ''ok'' [] (po_rows st)\<rparr>))"

definition tick_row :: "poe_world \<Rightarrow> civil \<Rightarrow> PortPoEResetSchedule \<Rightarrow> poe_state \<Rightarrow> poe_state" where
  "tick_row w now row st =
     (if \<not> row_due now row then st
      else if \<not> pw_claim w (row_key row) then st
      else case ClaimPortPoEResetScheduleSlot (row_key row) (PoEResetScheduleSlotKey now) (po_rows st) of
        (claimed, rows) \<Rightarrow> if claimed then run_reset w now row (st\<lparr>po_rows := rows\<rparr>) else st\<lparr>po_rows := rows\<rparr>)"

definition tickPoEResetSchedules :: "poe_world \<Rightarrow> civil \<Rightarrow> poe_state \<Rightarrow> poe_state" where
  "tickPoEResetSchedules w now st =
     (if \<not> pw_list w then st else fold (tick_row w now) (ListEnabledPortPoEResetSchedules (po_rows st)) st)"

text \<open>
  The ticker fires every 20 seconds into a channel with room for one tick. After a pass that began at second \<open>r\<close> and
  took \<open>d\<close> seconds, the next pass has the time of the first tick after \<open>r\<close>, however late it is.
\<close>
fun tick_times :: "int \<Rightarrow> int list \<Rightarrow> int list" where
  "tick_times r [] = []"
| "tick_times r (d # ds) = (let t = (r div 20 + 1) * 20 in t # tick_times (max t (r + d)) ds)"

section \<open>The slots of a day\<close>

definition minute_of :: "civil \<Rightarrow> int" where
  "minute_of t = cv_Hour t * 60 + cv_Minute t"

definition valid_civil :: "civil \<Rightarrow> bool" where
  "valid_civil t \<longleftrightarrow> 0 \<le> cv_Year t \<and> cv_Year t \<le> 9999 \<and> 1 \<le> cv_Month t \<and> cv_Month t \<le> 12 \<and> 1 \<le> cv_Day t \<and> cv_Day t \<le> 31
     \<and> 0 \<le> cv_Hour t \<and> cv_Hour t \<le> 23 \<and> 0 \<le> cv_Minute t \<and> cv_Minute t \<le> 59"

lemma slot_count_bounds: "1 \<le> slot_count n" "slot_count n \<le> 24"
  by (simp_all add: slot_count_def)

lemma slot_interval:
  assumes "i < nat (slot_count n)" shows "int i * (1440 div slot_count n) < 1440"
proof -
  have pos: "0 < slot_count n" "slot_count n \<le> 24" using slot_count_bounds [of n] by simp_all
  have "int i < slot_count n" using assms by simp
  moreover have "0 < 1440 div slot_count n" using pos by (simp add: pos_imp_zdiv_pos_iff)
  ultimately have "int i * (1440 div slot_count n) < slot_count n * (1440 div slot_count n)" by simp
  also have "\<dots> \<le> 1440" using pos by (simp add: minus_mod_eq_mult_div [symmetric])
  finally show ?thesis .
qed

lemma slot_minute_inj:
  assumes "i < nat (slot_count n)" "j < nat (slot_count n)"
    "(s + int i * (1440 div slot_count n)) mod 1440 = (s + int j * (1440 div slot_count n)) mod 1440"
  shows "i = j"
proof -
  have pos: "0 < 1440 div slot_count n" using slot_count_bounds [of n] by (simp add: pos_imp_zdiv_pos_iff)
  let ?a = "int i * (1440 div slot_count n)" and ?b = "int j * (1440 div slot_count n)"
  have a: "0 \<le> ?a" "0 \<le> ?b" using pos by simp_all
  have "?a mod 1440 = ?b mod 1440" using assms(3) by (simp add: mod_eq_dvd_iff)
  then have "?a = ?b" using slot_interval [OF assms(1)] slot_interval [OF assms(2)] a by simp
  then show ?thesis using pos by simp
qed

lemma slots_def': "ComputePoEResetSlots h m n = map (\<lambda>t. (t div 60, t mod 60))
    (map (\<lambda>i. (slot_start h m + int i * (1440 div slot_count n)) mod 1440) [0..<nat (slot_count n)])"
  by (simp add: ComputePoEResetSlots_def Let_def comp_def)

lemma slots_distinct: "distinct (ComputePoEResetSlots h m n)"
proof -
  let ?t = "\<lambda>i. (slot_start h m + int i * (1440 div slot_count n)) mod 1440"
  have "inj_on ?t {..<nat (slot_count n)}" using slot_minute_inj by (intro inj_onI) (metis lessThan_iff)
  moreover have "inj_on (\<lambda>t :: int. (t div 60, t mod 60)) A" for A
    by (intro inj_onI) (metis div_mult_mod_eq prod.inject)
  ultimately show ?thesis unfolding slots_def'
    by (simp add: distinct_map atLeast_upt lessThan_atLeast0 comp_inj_on)
qed

lemma matches_iff:
  assumes "valid_civil t"
  shows "PoEResetScheduleMatches t h m n \<longleftrightarrow>
    (\<exists>i<nat (slot_count n). minute_of t = (slot_start h m + int i * (1440 div slot_count n)) mod 1440)"
proof -
  have split: "cv_Hour t = x div 60 \<and> cv_Minute t = x mod 60 \<longleftrightarrow> minute_of t = x" for x
    using assms by (auto simp: minute_of_def valid_civil_def)
  show ?thesis
    unfolding PoEResetScheduleMatches_def slots_def' by (simp add: list_ex_iff split Bex_def) 
qed

section \<open>Keys of minutes\<close>

lemma pad_digits: "0 \<le> n \<Longrightarrow> c \<in> set (pad k n) \<Longrightarrow> is_digit c"
  by (auto simp: pad_def Itoa_nonneg_digit split: if_splits) (simp add: is_digit_def)

lemma digits_val_zeros: "digits_val 0 (replicate k CHR ''0'' @ s) = digits_val 0 s"
  by (induction k) (simp_all add: digit_val_def)

lemma pad_inj: "0 \<le> m \<Longrightarrow> 0 \<le> n \<Longrightarrow> pad k m = pad k n \<Longrightarrow> m = n"
proof -
  assume a: "0 \<le> m" "0 \<le> n" "pad k m = pad k n"
  then have "digits_val 0 (pad k m) = digits_val 0 (pad k n)" by simp
  then show "m = n" using a by (simp add: pad_def digits_val_zeros Itoa_def digits_val_nat_digits)
qed

lemma split_at_sep:
  "\<forall>c\<in>set a. c \<noteq> x \<Longrightarrow> \<forall>c\<in>set b. c \<noteq> x \<Longrightarrow> a @ x # s = b @ x # t \<Longrightarrow> a = b \<and> s = t"
  by (induction a arbitrary: b; case_tac b) auto

lemma pad_sep:
  assumes "0 \<le> m" "0 \<le> n" "pad k m @ CHR ''-'' # s = pad k n @ CHR ''-'' # t" shows "m = n \<and> s = t"
proof -
  have "\<forall>c\<in>set (pad k m). c \<noteq> CHR ''-''" "\<forall>c\<in>set (pad k n). c \<noteq> CHR ''-''"
    using pad_digits assms(1,2) not_digit_sign(1) by metis+
  from split_at_sep [OF this assms(3)] show ?thesis using pad_inj assms(1,2) by blast
qed

lemma slot_key_inj:
  assumes "valid_civil s" "valid_civil t" "PoEResetScheduleSlotKey s = PoEResetScheduleSlotKey t" shows "s = t"
proof -
  have b: "0 \<le> cv_Year s" "0 \<le> cv_Month s" "0 \<le> cv_Day s" "0 \<le> cv_Hour s" "0 \<le> cv_Minute s"
    "0 \<le> cv_Year t" "0 \<le> cv_Month t" "0 \<le> cv_Day t" "0 \<le> cv_Hour t" "0 \<le> cv_Minute t"
    using assms(1,2) by (auto simp: valid_civil_def)
  note key = assms(3) [unfolded PoEResetScheduleSlotKey_def]
  from pad_sep [OF b(1) b(6) key] have 1: "cv_Year s = cv_Year t"
    and key1: "pad 2 (cv_Month s) @ CHR ''-'' # pad 2 (cv_Day s) @ CHR ''-'' # pad 2 (cv_Hour s) @ CHR ''-'' # pad 2 (cv_Minute s)
      = pad 2 (cv_Month t) @ CHR ''-'' # pad 2 (cv_Day t) @ CHR ''-'' # pad 2 (cv_Hour t) @ CHR ''-'' # pad 2 (cv_Minute t)" by blast+
  from pad_sep [OF b(2) b(7) key1] have 2: "cv_Month s = cv_Month t"
    and key2: "pad 2 (cv_Day s) @ CHR ''-'' # pad 2 (cv_Hour s) @ CHR ''-'' # pad 2 (cv_Minute s)
      = pad 2 (cv_Day t) @ CHR ''-'' # pad 2 (cv_Hour t) @ CHR ''-'' # pad 2 (cv_Minute t)" by blast+
  from pad_sep [OF b(3) b(8) key2] have 3: "cv_Day s = cv_Day t"
    and key3: "pad 2 (cv_Hour s) @ CHR ''-'' # pad 2 (cv_Minute s) = pad 2 (cv_Hour t) @ CHR ''-'' # pad 2 (cv_Minute t)" by blast+
  from pad_sep [OF b(4) b(9) key3] have 4: "cv_Hour s = cv_Hour t" and key4: "pad 2 (cv_Minute s) = pad 2 (cv_Minute t)" by blast+
  from pad_inj [OF b(5) b(10) key4] 1 2 3 4 show ?thesis by simp
qed

section \<open>One port in a pass\<close>

definition keys_distinct :: "PortPoEResetSchedule list \<Rightarrow> bool" where
  "keys_distinct rows \<longleftrightarrow> distinct (map row_key rows)"

text \<open>The resets of a port, the latest first: minute and seconds\<close>
definition resets_of :: "port_key \<Rightarrow> poe_state \<Rightarrow> (civil \<times> int) list" where
  "resets_of p st = map snd (filter (\<lambda>x. fst x = p) (po_resets st))"

lemma update_rows_keys: "(\<And>r. row_key (f r) = row_key r) \<Longrightarrow> map row_key (update_rows P f rows) = map row_key rows"
  by (simp add: update_rows_def comp_def if_distrib cong: if_cong)

lemma Get_update:
  "(\<And>r. row_key (f r) = row_key r) \<Longrightarrow>
   GetPortPoEResetSchedule p (update_rows P f rows)
   = (case GetPortPoEResetSchedule p rows of None \<Rightarrow> None | Some r \<Rightarrow> Some (if P r then f r else r))"
  by (induction rows) (auto simp: update_rows_def GetPortPoEResetSchedule_def)

lemma Get_key: "GetPortPoEResetSchedule p rows = Some r \<Longrightarrow> r \<in> set rows \<and> row_key r = p"
  by (auto simp: GetPortPoEResetSchedule_def find_Some_iff)

lemma Get_member:
  assumes "keys_distinct rows" "r \<in> set rows" shows "GetPortPoEResetSchedule (row_key r) rows = Some r"
  using assms by (induction rows) (auto simp: keys_distinct_def GetPortPoEResetSchedule_def)

text \<open>The marks a reset leaves in the row: everything that is not part of the schedule\<close>
definition same_schedule :: "PortPoEResetSchedule \<Rightarrow> PortPoEResetSchedule \<Rightarrow> bool" where
  "same_schedule r r' \<longleftrightarrow> row_key r' = row_key r \<and> pr_Enabled r' = pr_Enabled r \<and> pr_Mode r' = pr_Mode r \<and> pr_StartHour r' = pr_StartHour r
     \<and> pr_StartMinute r' = pr_StartMinute r \<and> pr_TimesPerDay r' = pr_TimesPerDay r \<and> pr_ResetSeconds r' = pr_ResetSeconds r"

lemma same_schedule_refl [simp]: "same_schedule r r"
  by (simp add: same_schedule_def)

lemma same_schedule_trans: "same_schedule r r' \<Longrightarrow> same_schedule r' r'' \<Longrightarrow> same_schedule r r''"
  by (simp add: same_schedule_def)

lemma same_schedule_due: "same_schedule r r' \<Longrightarrow> row_due t r' = row_due t r"
  by (simp add: same_schedule_def row_due_def)

lemma same_schedule_seconds: "same_schedule r r' \<Longrightarrow> reset_seconds r' = reset_seconds r"
  by (simp add: same_schedule_def reset_seconds_def)

lemma Set_keys [simp]: "map row_key (SetPortPoEResetScheduleResult now p status e rows) = map row_key rows"
  by (simp add: SetPortPoEResetScheduleResult_def update_rows_keys row_key_def)

lemma Claim_keys [simp]: "map row_key (snd (ClaimPortPoEResetScheduleSlot p k rows)) = map row_key rows"
  by (simp add: ClaimPortPoEResetScheduleSlot_def update_rows_keys row_key_def)

lemma Set_Get:
  "GetPortPoEResetSchedule p (SetPortPoEResetScheduleResult now q status e rows) =
   (case GetPortPoEResetSchedule p rows of None \<Rightarrow> None | Some r \<Rightarrow> Some (if p = q then r\<lparr>pr_LastRunAt := Some now,
      pr_LastStatus := Some status, pr_LastError := (if e = [] then None else Some e)\<rparr> else r))"
  by (auto simp: SetPortPoEResetScheduleResult_def Get_update row_key_def dest: Get_key split: option.split)

lemma Claim_Get:
  "GetPortPoEResetSchedule p (snd (ClaimPortPoEResetScheduleSlot q k rows)) =
   (case GetPortPoEResetSchedule p rows of None \<Rightarrow> None | Some r \<Rightarrow> Some (if claimable q k r then r\<lparr>pr_LastFiredKey := Some k\<rparr> else r))"
  by (simp add: ClaimPortPoEResetScheduleSlot_def Get_update row_key_def)

lemma run_reset_keys: "map row_key (po_rows (run_reset w now row st)) = map row_key (po_rows st)"
  by (simp add: run_reset_def emitScheduledPoEResetEvent_def Let_def split: sum.split)

lemma run_reset_resets: "po_resets (run_reset w now row st) = (row_key row, now, reset_seconds row) # po_resets st"
  by (simp add: run_reset_def emitScheduledPoEResetEvent_def Let_def split: sum.split)

text \<open>The row after a reset has the same schedule and the same claimed slot.\<close>
definition marked :: "PortPoEResetSchedule option \<Rightarrow> PortPoEResetSchedule option \<Rightarrow> bool" where
  "marked x y \<longleftrightarrow> (case x of None \<Rightarrow> y = None | Some r \<Rightarrow> (\<exists>r'. y = Some r' \<and> same_schedule r r' \<and> pr_LastFiredKey r' = pr_LastFiredKey r))"

lemma run_reset_Get: "marked (GetPortPoEResetSchedule p (po_rows st)) (GetPortPoEResetSchedule p (po_rows (run_reset w now row st)))"
  by (auto simp: marked_def run_reset_def emitScheduledPoEResetEvent_def Let_def Set_Get same_schedule_def row_key_def split: sum.split option.split)

lemma run_reset_other:
  "p \<noteq> row_key row \<Longrightarrow> GetPortPoEResetSchedule p (po_rows (run_reset w now row st)) = GetPortPoEResetSchedule p (po_rows st)"
  by (simp add: run_reset_def emitScheduledPoEResetEvent_def Let_def Set_Get split: sum.split option.split)

lemma tick_row_keys [simp]: "map row_key (po_rows (tick_row w now row st)) = map row_key (po_rows st)"
  using Claim_keys [of "row_key row" "PoEResetScheduleSlotKey now" "po_rows st"]
  by (simp add: tick_row_def run_reset_keys case_prod_beta)

lemma tick_row_other:
  assumes "row_key row \<noteq> p"
  shows "GetPortPoEResetSchedule p (po_rows (tick_row w now row st)) = GetPortPoEResetSchedule p (po_rows st)"
    "resets_of p (tick_row w now row st) = resets_of p st"
proof -
  have claim: "GetPortPoEResetSchedule p (snd (ClaimPortPoEResetScheduleSlot (row_key row) k rows)) = GetPortPoEResetSchedule p rows" for k rows
    using assms by (auto simp: Claim_Get claimable_def dest: Get_key split: option.split)
  show "GetPortPoEResetSchedule p (po_rows (tick_row w now row st)) = GetPortPoEResetSchedule p (po_rows st)"
    using assms by (simp add: tick_row_def case_prod_beta run_reset_other claim)
  show "resets_of p (tick_row w now row st) = resets_of p st"
    using assms by (simp add: tick_row_def case_prod_beta resets_of_def run_reset_resets)
qed

text \<open>What a pass does to a port: it fires or leaves it as it is.\<close>
definition fires :: "poe_world \<Rightarrow> civil \<Rightarrow> PortPoEResetSchedule \<Rightarrow> bool" where
  "fires w now r \<longleftrightarrow> pr_Enabled r \<and> row_due now r \<and> pw_claim w (row_key r) \<and> pr_LastFiredKey r \<noteq> Some (PoEResetScheduleSlotKey now)"

definition port_fired :: "port_key \<Rightarrow> civil \<Rightarrow> PortPoEResetSchedule \<Rightarrow> poe_state \<Rightarrow> poe_state \<Rightarrow> bool" where
  "port_fired p now r st st' \<longleftrightarrow> resets_of p st' = (now, reset_seconds r) # resets_of p st
     \<and> (\<exists>r'. GetPortPoEResetSchedule p (po_rows st') = Some r' \<and> same_schedule r r' \<and> pr_LastFiredKey r' = Some (PoEResetScheduleSlotKey now))"

definition port_same :: "port_key \<Rightarrow> poe_state \<Rightarrow> poe_state \<Rightarrow> bool" where
  "port_same p st st' \<longleftrightarrow> resets_of p st' = resets_of p st \<and> GetPortPoEResetSchedule p (po_rows st') = GetPortPoEResetSchedule p (po_rows st)"

lemma tick_row_port:
  assumes keys: "keys_distinct (po_rows st)" and r: "GetPortPoEResetSchedule p (po_rows st) = Some r" and en: "pr_Enabled r"
  shows "if fires w now r then port_fired p now r st (tick_row w now r st) else port_same p st (tick_row w now r st)"
proof -
  let ?k = "PoEResetScheduleSlotKey now"
  have p: "row_key r = p" using Get_key [OF r] by simp
  have claimed: "list_ex (claimable p ?k) (po_rows st) \<longleftrightarrow> claimable p ?k r"
  proof
    assume "list_ex (claimable p ?k) (po_rows st)"
    then obtain r' where r': "r' \<in> set (po_rows st)" "claimable p ?k r'" by (auto simp: list_ex_iff)
    then have "r' = r" using Get_member [OF keys r'(1)] r by (simp add: claimable_def)
    then show "claimable p ?k r" using r'(2) by simp
  qed (use Get_key [OF r] in \<open>auto simp: list_ex_iff\<close>)
  show ?thesis
  proof (cases "row_due now r \<and> pw_claim w p")
    case False
    then show ?thesis using p by (auto simp: tick_row_def fires_def port_same_def)
  next
    case True
    let ?rows = "snd (ClaimPortPoEResetScheduleSlot p ?k (po_rows st))"
    show ?thesis
    proof (cases "claimable p ?k r")
      case False
      then have "fst (ClaimPortPoEResetScheduleSlot p ?k (po_rows st)) = False" using claimed by (simp add: ClaimPortPoEResetScheduleSlot_def)
      then have st': "tick_row w now r st = st\<lparr>po_rows := ?rows\<rparr>" using True p by (simp add: tick_row_def case_prod_beta)
      have "GetPortPoEResetSchedule p ?rows = Some r" using False r by (simp add: Claim_Get)
      moreover have "\<not> fires w now r" using False p en by (simp add: fires_def claimable_def)
      ultimately show ?thesis by (simp add: st' port_same_def resets_of_def r)
    next
      case c: True
      then have "fst (ClaimPortPoEResetScheduleSlot p ?k (po_rows st))" using claimed by (simp add: ClaimPortPoEResetScheduleSlot_def)
      then have st': "tick_row w now r st = run_reset w now r (st\<lparr>po_rows := ?rows\<rparr>)" using True p by (simp add: tick_row_def case_prod_beta)
      have "GetPortPoEResetSchedule p ?rows = Some (r\<lparr>pr_LastFiredKey := Some ?k\<rparr>)" using c r by (simp add: Claim_Get)
      then obtain r' where r': "GetPortPoEResetSchedule p (po_rows (tick_row w now r st)) = Some r'"
        "same_schedule (r\<lparr>pr_LastFiredKey := Some ?k\<rparr>) r'" "pr_LastFiredKey r' = Some ?k"
        using run_reset_Get [of p "st\<lparr>po_rows := ?rows\<rparr>" w now r] unfolding st' by (auto simp: marked_def)
      have "same_schedule r r'" using r'(2) by (simp add: same_schedule_def row_key_def)
      moreover have "resets_of p (tick_row w now r st) = (now, reset_seconds r) # resets_of p st"
        unfolding st' using p by (simp add: resets_of_def run_reset_resets)
      moreover have "fires w now r" using c True p by (simp add: fires_def claimable_def)
      ultimately show ?thesis using r' by (auto simp: port_fired_def)
    qed
  qed
qed

lemma tick_fold_keys: "map row_key (po_rows (fold (tick_row w now) rows st)) = map row_key (po_rows st)"
  by (induction rows arbitrary: st) simp_all

lemma tick_fold_other: "\<forall>r\<in>set rows. row_key r \<noteq> p \<Longrightarrow> port_same p st (fold (tick_row w now) rows st)"
  by (induction rows arbitrary: st) (auto simp: port_same_def tick_row_other)

lemma port_same_fired: "port_same p st st1 \<Longrightarrow> port_fired p now r st1 st2 \<Longrightarrow> port_same p st2 st3 \<Longrightarrow> port_fired p now r st st3"
  by (simp add: port_same_def port_fired_def)

lemma port_same_trans: "port_same p st st1 \<Longrightarrow> port_same p st1 st2 \<Longrightarrow> port_same p st st2"
  by (simp add: port_same_def)

lemma tick_keys: "map row_key (po_rows (tickPoEResetSchedules w now st)) = map row_key (po_rows st)"
  by (simp add: tickPoEResetSchedules_def tick_fold_keys)

lemma tick_port:
  assumes keys: "keys_distinct (po_rows st)" and r: "GetPortPoEResetSchedule p (po_rows st) = Some r"
  shows "if pw_list w \<and> fires w now r then port_fired p now r st (tickPoEResetSchedules w now st)
         else port_same p st (tickPoEResetSchedules w now st)"
proof -
  have p: "row_key r = p" "r \<in> set (po_rows st)" using Get_key [OF r] by simp_all
  consider "\<not> pw_list w" | "pw_list w" "\<not> pr_Enabled r" | "pw_list w" "pr_Enabled r" by blast
  then show ?thesis
  proof cases
    case 1
    then show ?thesis by (simp add: tickPoEResetSchedules_def port_same_def)
  next
    case 2
    have "\<forall>x\<in>set (ListEnabledPortPoEResetSchedules (po_rows st)). row_key x \<noteq> p"
      using 2(2) Get_member [OF keys] r by (auto simp: ListEnabledPortPoEResetSchedules_def)
    from tick_fold_other [OF this] show ?thesis using 2 by (simp add: tickPoEResetSchedules_def fires_def)
  next
    case 3
    then have "r \<in> set (ListEnabledPortPoEResetSchedules (po_rows st))" using p(2) by (simp add: ListEnabledPortPoEResetSchedules_def)
    then obtain as bs where split: "ListEnabledPortPoEResetSchedules (po_rows st) = as @ r # bs" by (meson split_list)
    have "distinct (map row_key (as @ r # bs))"
      unfolding split [symmetric] ListEnabledPortPoEResetSchedules_def using keys by (simp add: keys_distinct_def distinct_map_filter)
    then have "row_key r \<notin> row_key ` set as" "row_key r \<notin> row_key ` set bs" by simp_all
    then have others: "\<forall>x\<in>set as. row_key x \<noteq> p" "\<forall>x\<in>set bs. row_key x \<noteq> p" using p(1) by (metis imageI)+
    let ?s1 = "fold (tick_row w now) as st"
    let ?s2 = "tick_row w now r ?s1"
    have s1: "port_same p st ?s1" by (rule tick_fold_other [OF others(1)])
    have s3: "port_same p ?s2 (tickPoEResetSchedules w now st)"
      using 3 split tick_fold_other [OF others(2), of ?s2 w now] by (simp add: tickPoEResetSchedules_def)
    have "keys_distinct (po_rows ?s1)" using keys by (simp add: keys_distinct_def tick_fold_keys)
    moreover have "GetPortPoEResetSchedule p (po_rows ?s1) = Some r" using s1 r by (simp add: port_same_def)
    ultimately have "if fires w now r then port_fired p now r ?s1 ?s2 else port_same p ?s1 ?s2"
      using tick_row_port 3(2) by blast
    then show ?thesis using 3(1) port_same_fired [OF s1 _ s3] port_same_trans [OF port_same_trans [OF s1] s3] by (simp split: if_splits)
  qed
qed

lemma tick_port_none:
  assumes "GetPortPoEResetSchedule p (po_rows st) = None" shows "port_same p st (tickPoEResetSchedules w now st)"
proof -
  have "row_key r \<noteq> p" if "r \<in> set (po_rows st)" for r
    using assms that by (auto simp: GetPortPoEResetSchedule_def find_None_iff)
  then have "port_same p st (fold (tick_row w now) (ListEnabledPortPoEResetSchedules (po_rows st)) st)"
    by (intro tick_fold_other) (auto simp: ListEnabledPortPoEResetSchedules_def)
  then show ?thesis by (simp add: tickPoEResetSchedules_def port_same_def)
qed

section \<open>Every slot once\<close>

text \<open>Passes while nobody edits the schedules\<close>
definition tick_run :: "(poe_world \<times> civil) list \<Rightarrow> poe_state \<Rightarrow> poe_state" where
  "tick_run ws st = fold (\<lambda>(w, now). tickPoEResetSchedules w now) ws st"

text \<open>Minutes that a row with a claimed slot fires in: consecutive passes in one minute count once.\<close>
fun fired_in :: "civil option \<Rightarrow> civil list \<Rightarrow> civil list" where
  "fired_in prev [] = []"
| "fired_in prev (t # ts) = (if prev = Some t then fired_in prev ts else t # fired_in (Some t) ts)"

lemma fired_in_remdups: "fired_in None ts = remdups_adj ts" "fired_in (Some t) ts = tl (remdups_adj (t # ts))"
proof -
  show some: "fired_in (Some t) ts = tl (remdups_adj (t # ts))" for t ts
    by (induction ts arbitrary: t) (auto simp: remdups_adj_Cons split: list.splits)
  show "fired_in None ts = remdups_adj ts"
    by (cases ts) (auto simp: some remdups_adj_Cons split: list.splits)
qed

definition claimed_by :: "civil option \<Rightarrow> PortPoEResetSchedule \<Rightarrow> bool" where
  "claimed_by prev r \<longleftrightarrow> (case prev of Some t \<Rightarrow> valid_civil t \<and> pr_LastFiredKey r = Some (PoEResetScheduleSlotKey t)
     | None \<Rightarrow> \<forall>t. valid_civil t \<longrightarrow> pr_LastFiredKey r \<noteq> Some (PoEResetScheduleSlotKey t))"

lemma claimed_by_key:
  "claimed_by prev r \<Longrightarrow> valid_civil t \<Longrightarrow> pr_LastFiredKey r = Some (PoEResetScheduleSlotKey t) \<longleftrightarrow> prev = Some t"
  using slot_key_inj by (auto simp: claimed_by_def split: option.splits)

lemma tick_run_fired:
  assumes "keys_distinct (po_rows st)" "GetPortPoEResetSchedule p (po_rows st) = Some r" "pr_Enabled r" "claimed_by prev r"
    and "\<forall>(w, now)\<in>set ws. pw_list w \<and> pw_claim w p \<and> valid_civil now"
  shows "resets_of p (tick_run ws st) = rev (map (\<lambda>t. (t, reset_seconds r)) (fired_in prev (filter (\<lambda>t. row_due t r) (map snd ws)))) @ resets_of p st"
  using assms
proof (induction ws arbitrary: st r prev)
  case Nil
  then show ?case by (simp add: tick_run_def)
next
  case (Cons x ws)
  obtain w now where x: "x = (w, now)" by (cases x)
  let ?st = "tickPoEResetSchedules w now st"
  have p: "row_key r = p" using Get_key [OF Cons.prems(2)] by simp
  have now: "pw_list w" "pw_claim w p" "valid_civil now" using Cons.prems(5) x by auto
  have keys: "keys_distinct (po_rows ?st)" using Cons.prems(1) by (simp add: keys_distinct_def tick_keys)
  have run: "tick_run (x # ws) st = tick_run ws ?st" by (simp add: tick_run_def x)
  have rest: "\<forall>(w, now)\<in>set ws. pw_list w \<and> pw_claim w p \<and> valid_civil now" using Cons.prems(5) by simp
  note port = tick_port [OF Cons.prems(1,2), of w now]
  have f: "fires w now r \<longleftrightarrow> row_due now r \<and> prev \<noteq> Some now"
    using Cons.prems(3) claimed_by_key [OF Cons.prems(4) now(3)] now(2) p by (simp add: fires_def)
  show ?case
  proof (cases "fires w now r")
    case True
    with port now(1) have "port_fired p now r st ?st" by simp
    then obtain r' where r': "GetPortPoEResetSchedule p (po_rows ?st) = Some r'" "same_schedule r r'"
      "pr_LastFiredKey r' = Some (PoEResetScheduleSlotKey now)" "resets_of p ?st = (now, reset_seconds r) # resets_of p st"
      unfolding port_fired_def by blast
    have "pr_Enabled r'" using r'(2) Cons.prems(3) by (simp add: same_schedule_def)
    moreover have "claimed_by (Some now) r'" using r'(3) now(3) by (simp add: claimed_by_def)
    ultimately have "resets_of p (tick_run ws ?st) = rev (map (\<lambda>t. (t, reset_seconds r'))
        (fired_in (Some now) (filter (\<lambda>t. row_due t r') (map snd ws)))) @ resets_of p ?st"
      using Cons.IH [OF keys r'(1)] rest by blast
    then show ?thesis using True f r'(4) same_schedule_due [OF r'(2)] same_schedule_seconds [OF r'(2)] unfolding run by (simp add: x)
  next
    case False
    with port have same: "port_same p st ?st" by simp
    then have "GetPortPoEResetSchedule p (po_rows ?st) = Some r" using Cons.prems(2) by (simp add: port_same_def)
    from Cons.IH [OF keys this Cons.prems(3,4) rest] same show ?thesis
      using False f unfolding run by (simp add: x port_same_def)
  qed
qed

section \<open>Histories\<close>

datatype poe_step = Put port_key putPoEResetScheduleBody | Delete port_key | Tick poe_world civil

fun poe_run :: "poe_step \<Rightarrow> poe_state \<Rightarrow> poe_state" where
  "poe_run (Put p b) st = (case handlePutPortPoEResetSchedule p b (po_rows st) of Inl _ \<Rightarrow> st | Inr rows \<Rightarrow> st\<lparr>po_rows := rows\<rparr>)"
| "poe_run (Delete p) st = st\<lparr>po_rows := snd (DeletePortPoEResetSchedule p (po_rows st))\<rparr>"
| "poe_run (Tick w now) st = tickPoEResetSchedules w now st"

definition poe_init :: poe_state where
  "poe_init = \<lparr>po_rows = [], po_resets = [], po_events = []\<rparr>"

definition normal_row :: "PortPoEResetSchedule \<Rightarrow> bool" where
  "normal_row r \<longleftrightarrow> (pr_Mode r = PoEResetSchedAtTime \<and> pr_TimesPerDay r = 1 \<or> pr_Mode r = PoEResetSchedTimesPerDay \<and> 2 \<le> pr_TimesPerDay r \<and> pr_TimesPerDay r \<le> 24)
     \<and> 0 \<le> pr_StartHour r \<and> pr_StartHour r \<le> 23 \<and> 0 \<le> pr_StartMinute r \<and> pr_StartMinute r \<le> 59
     \<and> 1 \<le> pr_ResetSeconds r \<and> pr_ResetSeconds r \<le> 60"

lemma modes_differ: "PoEResetSchedTimesPerDay \<noteq> PoEResetSchedAtTime"
  by code_simp

lemma Normalize_normal:
  assumes "NormalizePortPoEResetSchedule r = Inr n"
  shows "normal_row n" "row_key n = row_key r"
  using assms modes_differ
  by (auto simp: NormalizePortPoEResetSchedule_def normal_row_def row_key_def Let_def simp del: not_less split: if_splits)

lemma modes_set: "PoEResetSchedAtTime \<noteq> []" "PoEResetSchedTimesPerDay \<noteq> []"
  by (simp_all add: PoEResetSchedAtTime_def PoEResetSchedTimesPerDay_def)

lemma Normalize_id:
  assumes "normal_row n" shows "NormalizePortPoEResetSchedule n = Inr n"
proof -
  have b: "\<not> (pr_StartHour n < 0 \<or> pr_StartHour n > 23)" "\<not> (pr_StartMinute n < 0 \<or> pr_StartMinute n > 59)"
    "\<not> (pr_ResetSeconds n < 1 \<or> pr_ResetSeconds n > 60)" "pr_ResetSeconds n \<noteq> 0"
    using assms by (auto simp: normal_row_def)
  from assms consider "pr_Mode n = PoEResetSchedAtTime" "pr_TimesPerDay n = 1"
    | "pr_Mode n = PoEResetSchedTimesPerDay" "\<not> pr_TimesPerDay n < 2" "\<not> pr_TimesPerDay n > 24"
    unfolding normal_row_def by fastforce
  then show ?thesis
  proof cases
    case 1
    then show ?thesis using b modes_set by (simp add: NormalizePortPoEResetSchedule_def Let_def)
  next
    case 2
    then show ?thesis using b modes_set modes_differ by (simp add: NormalizePortPoEResetSchedule_def Let_def)
  qed
qed

lemma normal_same: "same_schedule r r' \<Longrightarrow> normal_row r' = normal_row r"
  by (simp add: same_schedule_def normal_row_def)

lemma put_schedule_normal:
  assumes "put_schedule p b cur = Inr n" shows "normal_row n" "row_key n = p"
proof -
  from assms obtain r where "NormalizePortPoEResetSchedule (r\<lparr>pr_DeviceID := fst p, pr_IfIndex := snd p\<rparr>) = Inr n"
    unfolding put_schedule_def Let_def by (simp split: sum.split_asm prod.split_asm del: not_less)
  from Normalize_normal [OF this] show "normal_row n" "row_key n = p" by (simp_all add: row_key_def)
qed

lemma Get_append: "GetPortPoEResetSchedule p (rows @ [r])
   = (case GetPortPoEResetSchedule p rows of None \<Rightarrow> if row_key r = p then Some r else None | Some x \<Rightarrow> Some x)"
  by (induction rows) (auto simp: GetPortPoEResetSchedule_def)

definition last_key :: "PortPoEResetSchedule option \<Rightarrow> string option" where
  "last_key x = (case x of None \<Rightarrow> None | Some r \<Rightarrow> pr_LastFiredKey r)"

text \<open>A request changes the row of its port only, and keeps the slot that was claimed last.\<close>
lemma handlePut_rows:
  assumes "handlePutPortPoEResetSchedule p b rows = Inr rows'" "keys_distinct rows" "\<forall>r\<in>set rows. normal_row r"
  shows "keys_distinct rows'" "\<forall>r\<in>set rows'. normal_row r"
    "q \<noteq> p \<Longrightarrow> GetPortPoEResetSchedule q rows' = GetPortPoEResetSchedule q rows"
    "\<exists>r'. GetPortPoEResetSchedule p rows' = Some r' \<and> pr_LastFiredKey r' = last_key (GetPortPoEResetSchedule p rows)"
proof -
  from assms(1) obtain n where n: "put_schedule p b (GetPortPoEResetSchedule p rows) = Inr n" "UpsertPortPoEResetSchedule n rows = Inr rows'"
    by (auto simp: handlePutPortPoEResetSchedule_def split: sum.splits)
  have normal: "normal_row n" and key: "row_key n = p" using put_schedule_normal [OF n(1)] by simp_all
  define new where "new = n\<lparr>pr_LastFiredKey := None, pr_LastRunAt := None, pr_LastStatus := None, pr_LastError := None, pr_NextSlots := []\<rparr>"
  define upd where "upd = (\<lambda>r :: PortPoEResetSchedule. r\<lparr>pr_Enabled := pr_Enabled n, pr_Mode := pr_Mode n, pr_StartHour := pr_StartHour n,
              pr_StartMinute := pr_StartMinute n, pr_TimesPerDay := pr_TimesPerDay n, pr_ResetSeconds := pr_ResetSeconds n\<rparr>)"
  have rows': "rows' = (if GetPortPoEResetSchedule p rows = None then rows @ [new] else update_rows (\<lambda>r. row_key r = p) upd rows)"
    using n(2) unfolding UpsertPortPoEResetSchedule_def Normalize_id [OF normal] sum.case key new_def upd_def by auto
  have new: "row_key new = p" "normal_row new" "pr_LastFiredKey new = None" using key normal by (simp_all add: new_def row_key_def normal_row_def)
  have upd: "row_key (upd r) = row_key r" "normal_row (upd r)" "pr_LastFiredKey (upd r) = pr_LastFiredKey r" for r
    using normal by (simp_all add: upd_def row_key_def normal_row_def)
  show "keys_distinct rows'"
    using assms(2) new(1) by (auto simp: rows' keys_distinct_def update_rows_keys upd GetPortPoEResetSchedule_def find_None_iff)
  show "\<forall>r\<in>set rows'. normal_row r" using assms(3) new(2) upd(2) by (auto simp: rows' update_rows_def)
  show "GetPortPoEResetSchedule q rows' = GetPortPoEResetSchedule q rows" if "q \<noteq> p"
    using that new(1) by (auto simp: rows' Get_append Get_update upd dest: Get_key split: option.split)
  show "\<exists>r'. GetPortPoEResetSchedule p rows' = Some r' \<and> pr_LastFiredKey r' = last_key (GetPortPoEResetSchedule p rows)"
    using new(1,3) upd(3) by (auto simp: rows' Get_append Get_update upd last_key_def dest: Get_key split: option.split)
qed

definition poe_ok :: "poe_state \<Rightarrow> bool" where
  "poe_ok st \<longleftrightarrow> keys_distinct (po_rows st) \<and> (\<forall>r\<in>set (po_rows st). normal_row r) \<and> (\<forall>(p, t, sec)\<in>set (po_resets st). 1 \<le> sec \<and> sec \<le> 60)"

lemma update_normal: "\<forall>r\<in>set rows. normal_row r \<Longrightarrow> (\<And>r. normal_row (f r) = normal_row r) \<Longrightarrow> \<forall>r\<in>set (update_rows P f rows). normal_row r"
  by (auto simp: update_rows_def)

lemma tick_row_ok: "poe_ok st \<Longrightarrow> poe_ok (tick_row w now row st)"
proof -
  assume ok: "poe_ok st"
  have claim: "\<forall>r\<in>set (snd (ClaimPortPoEResetScheduleSlot q k rows)). normal_row r" if "\<forall>r\<in>set rows. normal_row r" for q k rows
    unfolding ClaimPortPoEResetScheduleSlot_def snd_conv by (rule update_normal [OF that]) (simp add: normal_row_def)
  have set_: "\<forall>r\<in>set (SetPortPoEResetScheduleResult now q s e rows). normal_row r" if "\<forall>r\<in>set rows. normal_row r" for q s e rows
    unfolding SetPortPoEResetScheduleResult_def by (rule update_normal [OF that]) (simp add: normal_row_def)
  have sec: "1 \<le> reset_seconds row \<and> reset_seconds row \<le> 60" by (auto simp: reset_seconds_def)
  have rows: "\<forall>r\<in>set (po_rows (run_reset w now row st')). normal_row r" if "\<forall>r\<in>set (po_rows st'). normal_row r" for st'
    using set_ [OF that] by (simp add: run_reset_def emitScheduledPoEResetEvent_def Let_def split: sum.split)
  have normal: "\<forall>r\<in>set (po_rows (tick_row w now row st)). normal_row r"
    using ok rows [of "st\<lparr>po_rows := snd (ClaimPortPoEResetScheduleSlot (row_key row) (PoEResetScheduleSlotKey now) (po_rows st))\<rparr>"]
      claim [of "po_rows st"] by (simp add: poe_ok_def tick_row_def case_prod_beta)
  have "\<forall>(p, t, sec)\<in>set (po_resets (tick_row w now row st)). 1 \<le> sec \<and> sec \<le> 60"
    using ok sec by (auto simp: poe_ok_def tick_row_def case_prod_beta run_reset_resets)
  with normal ok show ?thesis by (simp add: poe_ok_def keys_distinct_def)
qed

lemma poe_run_ok: "poe_ok st \<Longrightarrow> poe_ok (poe_run s st)"
proof (cases s)
  case (Put p b)
  assume ok: "poe_ok st"
  then show ?thesis using Put handlePut_rows(1,2) [of p b "po_rows st"] by (auto simp: poe_ok_def split: sum.split)
next
  case (Tick w now)
  have "poe_ok st \<Longrightarrow> poe_ok (fold (tick_row w now) rows st)" for rows
    by (induction rows arbitrary: st) (simp_all add: tick_row_ok)
  then show "poe_ok st \<Longrightarrow> ?thesis" using Tick by (simp add: tickPoEResetSchedules_def)
qed (auto simp: poe_ok_def DeletePortPoEResetSchedule_def keys_distinct_def distinct_map_filter)

text \<open>C35. Whatever is requested, deleted and reset: every port has at most one schedule, every stored schedule is in its bounds (one
  slot a day at a fixed time, or 2 to 24), and every reset takes the power away for 1 to 60 seconds.\<close>
theorem poe_rows_normal: "poe_ok (fold poe_run ss poe_init)"
proof -
  have "poe_ok st \<Longrightarrow> poe_ok (fold poe_run ss st)" for st
    by (induction ss arbitrary: st) (simp_all add: poe_run_ok)
  moreover have "poe_ok poe_init" by (simp add: poe_ok_def poe_init_def keys_distinct_def)
  ultimately show ?thesis by blast
qed

text \<open>The order of valid minutes\<close>
definition stamp :: "civil \<Rightarrow> int" where
  "stamp t = (((cv_Year t * 13 + cv_Month t) * 32 + cv_Day t) * 24 + cv_Hour t) * 60 + cv_Minute t"

fun tick_minutes :: "poe_step list \<Rightarrow> civil list" where
  "tick_minutes [] = []"
| "tick_minutes (Tick w now # ss) = now # tick_minutes ss"
| "tick_minutes (_ # ss) = tick_minutes ss"

lemma mixed_radix:
  fixes k :: int
  assumes "0 \<le> m" "m < k" "0 \<le> m'" "m' < k" "a * k + m = a' * k + m'" shows "a = a' \<and> m = m'"
proof -
  have "(a * k + m) div k = a" "(a' * k + m') div k = a'" using assms(1-4) by simp_all
  then show ?thesis using assms(5) by simp
qed

lemma stamp_inj:
  assumes "valid_civil s" "valid_civil t" "stamp s = stamp t" shows "s = t"
proof -
  have b: "0 \<le> cv_Minute s" "cv_Minute s < 60" "0 \<le> cv_Minute t" "cv_Minute t < 60" "0 \<le> cv_Hour s" "cv_Hour s < 24" "0 \<le> cv_Hour t" "cv_Hour t < 24"
    "0 \<le> cv_Day s" "cv_Day s < 32" "0 \<le> cv_Day t" "cv_Day t < 32" "0 \<le> cv_Month s" "cv_Month s < 13" "0 \<le> cv_Month t" "cv_Month t < 13"
    using assms(1,2) by (simp_all add: valid_civil_def)
  note m1 = mixed_radix [OF b(1-4) assms(3) [unfolded stamp_def]]
  note m2 = mixed_radix [OF b(5-8) m1 [THEN conjunct1]]
  note m3 = mixed_radix [OF b(9-12) m2 [THEN conjunct1]]
  note m4 = mixed_radix [OF b(13-16) m3 [THEN conjunct1]]
  from m1 m2 m3 m4 show ?thesis by simp
qed

text \<open>The resets of a port lie in different minutes, and its row remembers the latest.\<close>
definition once_view :: "int \<Rightarrow> (civil \<times> int) list \<Rightarrow> PortPoEResetSchedule option \<Rightarrow> bool" where
  "once_view bound rs x \<longleftrightarrow> sorted_wrt (\<lambda>x y. stamp (fst y) < stamp (fst x)) rs \<and> (\<forall>y\<in>set rs. stamp (fst y) \<le> bound)
     \<and> (case x of None \<Rightarrow> rs = [] | Some r \<Rightarrow> claimed_by (case rs of [] \<Rightarrow> None | y # _ \<Rightarrow> Some (fst y)) r)"

definition once_ok :: "int \<Rightarrow> port_key \<Rightarrow> poe_state \<Rightarrow> bool" where
  "once_ok bound p st \<longleftrightarrow> once_view bound (resets_of p st) (GetPortPoEResetSchedule p (po_rows st))"

lemma once_ok_same: "port_same p st st' \<Longrightarrow> once_ok bound p st' = once_ok bound p st"
  by (simp add: once_ok_def port_same_def)

lemma once_ok_mono: "once_ok b p st \<Longrightarrow> b \<le> b' \<Longrightarrow> once_ok b' p st"
  by (fastforce simp: once_ok_def once_view_def)

lemma tick_once:
  assumes "once_ok (stamp now) p st" "keys_distinct (po_rows st)" "valid_civil now"
  shows "once_ok (stamp now) p (tickPoEResetSchedules w now st)"
proof (cases "GetPortPoEResetSchedule p (po_rows st)")
  case None
  then show ?thesis using assms(1) by (simp add: once_ok_same [OF tick_port_none])
next
  case (Some r)
  let ?st = "tickPoEResetSchedules w now st"
  show ?thesis
  proof (cases "pw_list w \<and> fires w now r")
    case False
    then have "port_same p st ?st" using tick_port [OF assms(2) Some, of w now] by presburger
    then show ?thesis using assms(1) by (simp add: once_ok_same)
  next
    case True
    then have f: "port_fired p now r st ?st" using tick_port [OF assms(2) Some, of w now] by simp
    then obtain r' where r': "GetPortPoEResetSchedule p (po_rows ?st) = Some r'" "pr_LastFiredKey r' = Some (PoEResetScheduleSlotKey now)"
      "resets_of p ?st = (now, reset_seconds r) # resets_of p st" unfolding port_fired_def by blast
    have key: "pr_LastFiredKey r \<noteq> Some (PoEResetScheduleSlotKey now)" using True by (simp add: fires_def)
    have "stamp (fst x) < stamp now" if x: "x \<in> set (resets_of p st)" for x
    proof (cases "resets_of p st")
      case (Cons y ys)
      have cl: "claimed_by (Some (fst y)) r" using assms(1) Some Cons by (simp add: once_ok_def once_view_def)
      then have "fst y \<noteq> now" using claimed_by_key [OF cl assms(3)] key by blast
      moreover have "valid_civil (fst y)" using cl by (simp add: claimed_by_def)
      ultimately have "stamp (fst y) \<noteq> stamp now" using stamp_inj assms(3) by blast
      moreover have "stamp (fst y) \<le> stamp now" using assms(1) Cons by (simp add: once_ok_def once_view_def)
      moreover have "x = y \<or> stamp (fst x) < stamp (fst y)" using assms(1) Cons x by (auto simp: once_ok_def once_view_def)
      ultimately show ?thesis by auto
    qed (use x in simp)
    then show ?thesis using assms(1,3) r' by (simp add: once_ok_def once_view_def claimed_by_def less_imp_le)
  qed
qed

lemma put_once:
  assumes "once_ok b p st" "poe_ok st" shows "once_ok b p (poe_run (Put q body) st)"
proof (cases "handlePutPortPoEResetSchedule q body (po_rows st)")
  case (Inl e)
  then show ?thesis using assms(1) by simp
next
  case (Inr rows)
  have ok: "keys_distinct (po_rows st)" "\<forall>r\<in>set (po_rows st). normal_row r" using assms(2) by (simp_all add: poe_ok_def)
  note put = handlePut_rows [OF Inr ok]
  have resets: "resets_of p (st\<lparr>po_rows := rows\<rparr>) = resets_of p st" by (simp add: resets_of_def)
  show ?thesis
  proof (cases "p = q")
    case False
    then show ?thesis using put(3) [OF False] assms(1) Inr resets by (simp add: once_ok_def)
  next
    case True
    from put(4) obtain r' where r': "GetPortPoEResetSchedule q rows = Some r'" "pr_LastFiredKey r' = last_key (GetPortPoEResetSchedule q (po_rows st))"
      by blast
    show ?thesis
    proof (cases "GetPortPoEResetSchedule q (po_rows st)")
      case None
      then show ?thesis using r' assms(1) Inr True resets by (simp add: once_ok_def once_view_def last_key_def claimed_by_def)
    next
      case (Some r)
      have "claimed_by x r \<Longrightarrow> claimed_by x r'" for x using r'(2) Some by (cases x) (simp_all add: claimed_by_def last_key_def)
      then show ?thesis using r' assms(1) Inr True resets Some by (simp add: once_ok_def once_view_def)
    qed
  qed
qed

lemma run_once:
  assumes "once_ok b p st" "poe_ok st" "\<forall>q. Delete q \<notin> set ss" "\<forall>t\<in>set (tick_minutes ss). valid_civil t"
    "sorted (b # map stamp (tick_minutes ss))"
  shows "\<exists>b'. once_ok b' p (fold poe_run ss st)"
  using assms
proof (induction ss arbitrary: st b)
  case (Cons s ss)
  have ok: "poe_ok (poe_run s st)" using Cons.prems(2) by (rule poe_run_ok)
  show ?case
  proof (cases s)
    case (Put q body)
    have "once_ok b p (poe_run s st)" unfolding Put by (rule put_once [OF Cons.prems(1,2)])
    from Cons.IH [OF this ok] Cons.prems(3-5) Put show ?thesis by simp
  next
    case (Tick w now)
    have "b \<le> stamp now" using Cons.prems(5) Tick by simp
    then have "once_ok (stamp now) p (poe_run s st)"
      using tick_once [OF once_ok_mono [OF Cons.prems(1)]] Cons.prems(2,4) Tick by (simp add: poe_ok_def)
    from Cons.IH [OF this ok] Cons.prems(3-5) Tick show ?thesis by simp
  next
    case (Delete q)
    then have False using Cons.prems(3) by (metis list.set_intros(1))
    then show ?thesis by blast
  qed
qed auto

lemma later_distinct: "sorted_wrt (\<lambda>x y. stamp (fst y) < stamp (fst x)) xs \<Longrightarrow> distinct (map fst xs)"
  by (induction xs) auto

text \<open>C18. However often the passes come (every 20 seconds, late, after a restart) and whatever is requested between them: as long as
  the clock does not go back and no schedule is deleted, no port is reset twice in one minute.\<close>
theorem poe_resets_once:
  assumes "\<forall>q. Delete q \<notin> set ss" "\<forall>t\<in>set (tick_minutes ss). valid_civil t" "sorted (map stamp (tick_minutes ss))"
  shows "distinct (map fst (resets_of p (fold poe_run ss poe_init)))"
proof -
  let ?b = "if tick_minutes ss = [] then 0 else stamp (hd (tick_minutes ss))"
  have "once_ok ?b p poe_init" by (simp add: once_ok_def once_view_def poe_init_def resets_of_def GetPortPoEResetSchedule_def)
  moreover have "sorted (?b # map stamp (tick_minutes ss))" using assms(3) by (cases "tick_minutes ss") auto
  moreover have "poe_ok poe_init" using poe_ok_def poe_init_def by (simp add: poe_ok_def poe_init_def keys_distinct_def)
  ultimately obtain b' where "once_ok b' p (fold poe_run ss poe_init)" using run_once assms(1,2) by blast
  then have "sorted_wrt (\<lambda>x y. stamp (fst y) < stamp (fst x)) (resets_of p (fold poe_run ss poe_init))" by (simp add: once_ok_def once_view_def)
  then show ?thesis by (rule later_distinct)
qed

definition at_minute :: "int \<Rightarrow> int \<Rightarrow> int \<Rightarrow> civil" where
  "at_minute d h m = \<lparr>cv_Year = 2026, cv_Month = 3, cv_Day = d, cv_Hour = h, cv_Minute = m\<rparr>"

definition ask :: "string \<Rightarrow> int \<Rightarrow> int \<Rightarrow> putPoEResetScheduleBody" where
  "ask hm n sec = \<lparr>pb_Enabled = True, pb_Mode = ''times_per_day'', pb_StartHour = None, pb_StartMinute = None,
     pb_TimesPerDay = Some n, pb_ResetSeconds = Some sec, pb_Time = hm\<rparr>"

definition all_good :: poe_world where
  "all_good = \<lparr>pw_list = True, pw_claim = (\<lambda>_. True), pw_push = (\<lambda>_ _. Inr ''ssh'')\<rparr>"

definition sample_history :: "poe_step list" where
  "sample_history = [Put (1, 7) (ask ''19:00'' 3 15), Tick all_good (at_minute 1 19 0), Tick all_good (at_minute 1 19 0),
     Put (1, 7) (ask ''19:00'' 4 20), Tick all_good (at_minute 1 19 0), Tick all_good (at_minute 2 1 0)]"

text \<open>Three passes in the minute 19:00, with a changed schedule between them, and one six hours later: two resets.\<close>
lemma poe_resets_once_witness:
  "distinct (map fst (resets_of (1, 7) (fold poe_run sample_history poe_init)))
   \<and> length (resets_of (1, 7) (fold poe_run sample_history poe_init)) = 2"
proof
  have "\<forall>q. Delete q \<notin> set sample_history" by (simp add: sample_history_def)
  moreover have "\<forall>t\<in>set (tick_minutes sample_history). valid_civil t" by code_simp
  moreover have "sorted (map stamp (tick_minutes sample_history))" by code_simp
  ultimately show "distinct (map fst (resets_of (1, 7) (fold poe_run sample_history poe_init)))" by (rule poe_resets_once)
  show "length (resets_of (1, 7) (fold poe_run sample_history poe_init)) = 2" by code_simp
qed

text \<open>C14. While nobody edits the schedule of a port and the database answers, the port is reset in exactly those minutes of the passes
  that are slots of the schedule, once for all passes of a minute that follow each other, and a minute is a slot
  when it lies a multiple of 24 hours divided by the number of slots after the start, for each of the 1 to 24 slots.\<close>
theorem poe_slots_exact:
  assumes "keys_distinct (po_rows st)" "GetPortPoEResetSchedule p (po_rows st) = Some r" "pr_Enabled r" "normal_row r"
    "claimed_by None r" "\<forall>(w, now)\<in>set ws. pw_list w \<and> pw_claim w p \<and> valid_civil now" "resets_of p st = []"
  shows "rev (resets_of p (tick_run ws st)) = map (\<lambda>t. (t, pr_ResetSeconds r)) (remdups_adj (filter (\<lambda>t. row_due t r) (map snd ws)))
    \<and> (\<forall>t. valid_civil t \<longrightarrow> (row_due t r \<longleftrightarrow> (\<exists>i. 0 \<le> i \<and> i < pr_TimesPerDay r
          \<and> minute_of t = (pr_StartHour r * 60 + pr_StartMinute r + i * (1440 div pr_TimesPerDay r)) mod 1440)))
    \<and> length (ComputePoEResetSlots (pr_StartHour r) (pr_StartMinute r) (pr_TimesPerDay r)) = nat (pr_TimesPerDay r)
    \<and> distinct (ComputePoEResetSlots (pr_StartHour r) (pr_StartMinute r) (pr_TimesPerDay r))"
proof (intro conjI)
  have sec: "reset_seconds r = pr_ResetSeconds r" using assms(4) by (simp add: normal_row_def reset_seconds_def)
  have n: "slot_count (pr_TimesPerDay r) = pr_TimesPerDay r" "1 \<le> pr_TimesPerDay r" "slot_start (pr_StartHour r) (pr_StartMinute r) = pr_StartHour r * 60 + pr_StartMinute r"
    using assms(4) by (auto simp: normal_row_def slot_count_def slot_start_def)
  show "rev (resets_of p (tick_run ws st)) = map (\<lambda>t. (t, pr_ResetSeconds r)) (remdups_adj (filter (\<lambda>t. row_due t r) (map snd ws)))"
    using tick_run_fired [OF assms(1-3,5,6)] assms(7) sec by (simp add: fired_in_remdups(1))
  have times: "(if pr_Mode r = PoEResetSchedAtTime then 1 else pr_TimesPerDay r) = pr_TimesPerDay r"
    using assms(4) modes_differ by (auto simp: normal_row_def)
  have ints: "(\<exists>i<nat N. P (int i)) \<longleftrightarrow> (\<exists>i. 0 \<le> i \<and> i < N \<and> P i)" for N P
    by (metis nat_less_iff nonneg_int_cases of_nat_0_le_iff zless_nat_eq_int_zless)
  show "\<forall>t. valid_civil t \<longrightarrow> (row_due t r \<longleftrightarrow> (\<exists>i. 0 \<le> i \<and> i < pr_TimesPerDay r
      \<and> minute_of t = (pr_StartHour r * 60 + pr_StartMinute r + i * (1440 div pr_TimesPerDay r)) mod 1440))"
  proof (intro allI impI)
    fix t assume "valid_civil t"
    from matches_iff [OF this, of "pr_StartHour r" "pr_StartMinute r" "pr_TimesPerDay r"] 
    show "row_due t r \<longleftrightarrow> (\<exists>i. 0 \<le> i \<and> i < pr_TimesPerDay r
      \<and> minute_of t = (pr_StartHour r * 60 + pr_StartMinute r + i * (1440 div pr_TimesPerDay r)) mod 1440)"
      unfolding row_due_def times n(1,3)
      using ints [of "pr_TimesPerDay r" "\<lambda>i. minute_of t = (pr_StartHour r * 60 + pr_StartMinute r + i * (1440 div pr_TimesPerDay r)) mod 1440"] by blast
  qed
  show "length (ComputePoEResetSlots (pr_StartHour r) (pr_StartMinute r) (pr_TimesPerDay r)) = nat (pr_TimesPerDay r)"
    by (simp add: slots_def' n)
  show "distinct (ComputePoEResetSlots (pr_StartHour r) (pr_StartMinute r) (pr_TimesPerDay r))" by (rule slots_distinct)
qed

definition sample_row :: PortPoEResetSchedule where
  "sample_row = (defaultPoEResetSchedule (1, 7))\<lparr>pr_Enabled := True, pr_Mode := ''times_per_day'', pr_StartHour := 19, pr_TimesPerDay := 3\<rparr>"

definition sample_passes :: "(poe_world \<times> civil) list" where
  "sample_passes = map (\<lambda>t. (all_good, t)) [at_minute 1 18 59, at_minute 1 19 0, at_minute 1 19 0, at_minute 2 3 0, at_minute 2 3 1, at_minute 2 19 0]"

lemma poe_slots_exact_witness:
  "rev (resets_of (1, 7) (tick_run sample_passes \<lparr>po_rows = [sample_row], po_resets = [], po_events = []\<rparr>))
   = [(at_minute 1 19 0, 10), (at_minute 2 3 0, 10), (at_minute 2 19 0, 10)]"
proof -
  let ?st = "\<lparr>po_rows = [sample_row], po_resets = [], po_events = []\<rparr>"
  have 1: "keys_distinct (po_rows ?st)" by (simp add: keys_distinct_def)
  have 2: "GetPortPoEResetSchedule (1, 7) (po_rows ?st) = Some sample_row" by code_simp
  have 3: "pr_Enabled sample_row" by code_simp
  have 4: "normal_row sample_row" by code_simp
  have 5: "claimed_by None sample_row" by (simp add: claimed_by_def sample_row_def defaultPoEResetSchedule_def)
  have 6: "\<forall>(w, now)\<in>set sample_passes. pw_list w \<and> pw_claim w (1, 7) \<and> valid_civil now" by code_simp
  have 7: "resets_of (1, 7) ?st = []" by (simp add: resets_of_def)
  have "remdups_adj (filter (\<lambda>t. row_due t sample_row) (map snd sample_passes)) = [at_minute 1 19 0, at_minute 2 3 0, at_minute 2 19 0]"
    by code_simp
  moreover have "pr_ResetSeconds sample_row = 10" by code_simp
  ultimately show ?thesis using poe_slots_exact [OF 1 2 3 4 5 6 7, THEN conjunct1] by simp
qed

section \<open>What goes wrong\<close>

text \<open>A schedule that is deleted and stored again within its minute fires twice.\<close>
lemma stored_again_fires_twice:
  "map fst (resets_of (1, 7) (fold poe_run [Put (1, 7) (ask ''19:00'' 3 15), Tick all_good (at_minute 1 19 0), Delete (1, 7),
     Put (1, 7) (ask ''19:00'' 3 15), Tick all_good (at_minute 1 19 0)] poe_init)) = [at_minute 1 19 0, at_minute 1 19 0]"
  by code_simp

text \<open>The times shown as the next ones are in the order of the slots: at 20:00 the next reset is at 03:00, but 19:00 is shown first.\<close>
lemma next_slots_out_of_order:
  "pr_NextSlots (AttachPoEResetNextSlots (at_minute 1 20 0) sample_row) = [''19:00'', ''03:00'', ''11:00'']"
  by code_simp

text \<open>
  A pass resets its ports one after the other, each up to three minutes. A pass that begins at second 0 and takes 150
  seconds is followed by one with the time of second 20 and by one at second 160: no pass sees the second
  minute, and a slot in it is skipped for the day.
\<close>
lemma slow_pass_skips_minute: "tick_times 0 [150, 1, 1] = [20, 160, 180] \<and> (\<forall>t\<in>set (tick_times 0 [150, 1, 1]). t div 60 \<noteq> 1)"
  by code_simp

end
