(* ===== verification/Ups_Alerts.thy ===== *)
theory Ups_Alerts
  imports Event_Log
begin

text \<open>
  Power supplies (\<open>internal/poller/ups.go\<close>, \<open>internal/snmp/ups.go\<close>, \<open>internal/models/ups.go\<close>): the snapshot that is read from the
  objects of UPS-MIB, the alerts of a change from the stored snapshot to the new one, and the history of
  values. The answer to a request is a function from the identifiers of objects to values; a \<open>float32\<close> is a rational number.
\<close>

section \<open>The snapshot\<close>

text \<open>The value of an object: none, a number, or the text that \<open>SanitizeSNMPValue\<close> makes of anything else\<close>
datatype ups_pdu = NoValue | Number int | Text string

record UPSSnapshot =
  us_Manufacturer :: string
  us_Model :: string
  us_IdentName :: string
  us_AgentSoftware :: string
  us_BatteryStatus :: int
  us_SecondsOnBattery :: "int option"
  us_RuntimeMin :: "int option"
  us_BatteryChargePct :: "rat option"
  us_BatteryVoltageV :: "rat option"
  us_BatteryTempC :: "rat option"
  us_OnBattery :: bool
  us_InputLines :: "int option"
  us_InputVoltageV :: "rat option"
  us_InputFrequencyHz :: "rat option"
  us_InputCurrentA :: "rat option"
  us_OutputSource :: int
  us_OutputVoltageV :: "rat option"
  us_OutputCurrentA :: "rat option"
  us_OutputPowerW :: "rat option"
  us_OutputLoadPct :: "rat option"
  us_AlarmsPresent :: "int option"
  us_ConfigInputVoltageV :: "rat option"
  us_LowBatteryRuntimeMin :: "int option"
  us_PolledAt :: "time option"

definition HasData :: "UPSSnapshot \<Rightarrow> bool" where
  "HasData u \<longleftrightarrow> us_Manufacturer u \<noteq> [] \<or> us_Model u \<noteq> [] \<or> us_IdentName u \<noteq> [] \<or> us_BatteryStatus u > 0
     \<or> us_BatteryChargePct u \<noteq> None \<or> us_OutputVoltageV u \<noteq> None"

definition UPSTitle :: "UPSSnapshot \<Rightarrow> string" where
  "UPSTitle u = (let s = TrimSpace (us_IdentName u); model = TrimSpace (us_Model u); maker = TrimSpace (us_Manufacturer u) in
     if s \<noteq> [] then s else if model \<noteq> [] \<and> maker \<noteq> [] then model @ '' ('' @ maker @ '')'' else if model \<noteq> [] then model else maker)"

definition UPSOnBattery :: "UPSSnapshot \<Rightarrow> bool" where
  "UPSOnBattery u \<longleftrightarrow> (case us_SecondsOnBattery u of Some s \<Rightarrow> s > 0 | None \<Rightarrow> False) \<or> us_OutputSource u = 5"

definition LooksLikeUPS :: "string \<Rightarrow> string \<Rightarrow> bool" where
  "LooksLikeUPS category sysDescr \<longleftrightarrow>
     ToLower (TrimSpace category) \<in> set [''ups'', [CHR 0xD0, CHR 0xB8, CHR 0xD0, CHR 0xB1, CHR 0xD0, CHR 0xBF], ''ups_ibp'', ''power'', [CHR 0xD0, CHR 0xBF, CHR 0xD0, CHR 0xB8, CHR 0xD1, CHR 0x82, CHR 0xD0, CHR 0xB0, CHR 0xD0, CHR 0xBD, CHR 0xD0, CHR 0xB8, CHR 0xD0, CHR 0xB5]]
     \<or> list_ex (Contains (ToLower sysDescr)) [''ups'', ''smart-ups'', ''back-ups'', ''network management card'', ''winpower'', ''ippon'',
          ''eaton'', ''powercom'', ''cyberpower'', ''santak'']"

definition upsStr :: "ups_pdu \<Rightarrow> string" where
  "upsStr p = (case p of NoValue \<Rightarrow> [] | Number n \<Rightarrow> Itoa n | Text s \<Rightarrow> TrimSpace (Trim s [CHR 0x00]))"

definition upsIntOf :: "ups_pdu \<Rightarrow> int \<Rightarrow> int option" where
  "upsIntOf p minValid = (case p of Number v \<Rightarrow> if v < minValid then None else Some v | _ \<Rightarrow> None)"

definition upsIntPtr :: "ups_pdu \<Rightarrow> int \<Rightarrow> int option" where
  "upsIntPtr p minValid = upsIntOf p minValid"

definition upsTenthishPtr :: "ups_pdu \<Rightarrow> rat \<Rightarrow> rat option" where
  "upsTenthishPtr p d = (case upsIntOf p 0 of None \<Rightarrow> None | Some v \<Rightarrow> Some (of_int v / d))"

definition upsClampPct :: "rat option \<Rightarrow> rat option" where
  "upsClampPct v = (case v of None \<Rightarrow> None | Some x \<Rightarrow> let x = (if x < 0 then 0 else x) in Some (if x > 100 then 100 else x))"

definition upsFromPDUs :: "(string \<Rightarrow> ups_pdu) \<Rightarrow> time \<Rightarrow> UPSSnapshot option" where
  "upsFromPDUs pdus now =
     (let src = (case upsIntOf (pdus ''1.3.6.1.2.1.33.1.4.1.0'') 0 of Some v \<Rightarrow> v | None \<Rightarrow> 0);
          secs = upsIntPtr (pdus ''1.3.6.1.2.1.33.1.2.2.0'') 0;
          u = \<lparr>us_Manufacturer = TrimSpace (upsStr (pdus ''1.3.6.1.2.1.33.1.1.1.0'')),
            us_Model = TrimSpace (upsStr (pdus ''1.3.6.1.2.1.33.1.1.2.0'')),
            us_IdentName = TrimSpace (upsStr (pdus ''1.3.6.1.2.1.33.1.1.5.0'')),
            us_AgentSoftware = TrimSpace (upsStr (pdus ''1.3.6.1.2.1.33.1.1.4.0'')),
            us_BatteryStatus = (case upsIntOf (pdus ''1.3.6.1.2.1.33.1.2.1.0'') 0 of Some v \<Rightarrow> v | None \<Rightarrow> 0),
            us_SecondsOnBattery = secs,
            us_RuntimeMin = upsIntPtr (pdus ''1.3.6.1.2.1.33.1.2.3.0'') 0,
            us_BatteryChargePct = upsClampPct (upsTenthishPtr (pdus ''1.3.6.1.2.1.33.1.2.4.0'') 1),
            us_BatteryVoltageV = upsTenthishPtr (pdus ''1.3.6.1.2.1.33.1.2.5.0'') 10,
            us_BatteryTempC = upsTenthishPtr (pdus ''1.3.6.1.2.1.33.1.2.7.0'') 1,
            us_OnBattery = (src = 5 \<or> (case secs of Some s \<Rightarrow> s > 0 | None \<Rightarrow> False)),
            us_InputLines = upsIntPtr (pdus ''1.3.6.1.2.1.33.1.3.2.0'') 0,
            us_InputVoltageV = upsTenthishPtr (pdus ''1.3.6.1.2.1.33.1.3.3.1.3.1'') 1,
            us_InputFrequencyHz = upsTenthishPtr (pdus ''1.3.6.1.2.1.33.1.3.3.1.2.1'') 10,
            us_InputCurrentA = upsTenthishPtr (pdus ''1.3.6.1.2.1.33.1.3.3.1.4.1'') 10,
            us_OutputSource = src,
            us_OutputVoltageV = upsTenthishPtr (pdus ''1.3.6.1.2.1.33.1.4.4.1.2.1'') 1,
            us_OutputCurrentA = upsTenthishPtr (pdus ''1.3.6.1.2.1.33.1.4.4.1.3.1'') 10,
            us_OutputPowerW = upsTenthishPtr (pdus ''1.3.6.1.2.1.33.1.4.4.1.4.1'') 1,
            us_OutputLoadPct = upsClampPct (upsTenthishPtr (pdus ''1.3.6.1.2.1.33.1.4.4.1.5.1'') 1),
            us_AlarmsPresent = upsIntPtr (pdus ''1.3.6.1.2.1.33.1.6.1.0'') 0,
            us_ConfigInputVoltageV = upsTenthishPtr (pdus ''1.3.6.1.2.1.33.1.9.1.0'') 1,
            us_LowBatteryRuntimeMin = upsIntPtr (pdus ''1.3.6.1.2.1.33.1.9.7.0'') 0,
            us_PolledAt = Some now\<rparr>
      in if HasData u then Some u else None)"

text \<open>The answer of the card, \<open>None\<close> an error; the outer \<open>None\<close> of the result is the error.\<close>
definition ReadUPS :: "(string \<Rightarrow> ups_pdu) option \<Rightarrow> string \<Rightarrow> time \<Rightarrow> UPSSnapshot option option" where
  "ReadUPS answer sysName now = (case answer of None \<Rightarrow> None
     | Some pdus \<Rightarrow> (case upsFromPDUs pdus now of None \<Rightarrow> Some None
         | Some u \<Rightarrow> Some (Some (if us_IdentName u = [] then u\<lparr>us_IdentName := TrimSpace sysName\<rparr> else u))))"

definition opt_metric :: "string \<Rightarrow> rat option \<Rightarrow> (string \<times> rat) list" where
  "opt_metric t v = (case v of None \<Rightarrow> [] | Some x \<Rightarrow> [(t, x)])"

definition UPSMetricValues :: "UPSSnapshot \<Rightarrow> (string \<times> rat) list" where
  "UPSMetricValues u = opt_metric ''ups_battery_charge_pct'' (us_BatteryChargePct u)
     @ (case us_RuntimeMin u of None \<Rightarrow> [] | Some m \<Rightarrow> [(''ups_runtime_min'', of_int m)])
     @ opt_metric ''ups_battery_voltage_v'' (us_BatteryVoltageV u) @ opt_metric ''ups_battery_temp_c'' (us_BatteryTempC u)
     @ opt_metric ''ups_input_voltage_v'' (us_InputVoltageV u) @ opt_metric ''ups_output_voltage_v'' (us_OutputVoltageV u)
     @ opt_metric ''ups_output_load_pct'' (us_OutputLoadPct u) @ opt_metric ''ups_output_w'' (us_OutputPowerW u)
     @ [(''ups_on_battery'', if us_OnBattery u then 1 else 0)]"

section \<open>Alerts\<close>

definition minute :: duration where "minute = 60000000000"
definition upsMetricInterval :: duration where "upsMetricInterval = 5 * minute"
definition upsMetricJitter :: duration where "upsMetricJitter = 20000000000"
definition upsDischargeCooldown :: duration where "upsDischargeCooldown = 10 * minute"

definition opt_pl :: "string \<Rightarrow> rat option \<Rightarrow> payload" where
  "opt_pl k v = (case v of None \<Rightarrow> [] | Some x \<Rightarrow> [(k, PNum x)])"

definition opt_int :: "string \<Rightarrow> int option \<Rightarrow> payload" where
  "opt_int k v = (case v of None \<Rightarrow> [] | Some x \<Rightarrow> [(k, PInt x)])"

definition upsEventPayload :: "UPSSnapshot \<Rightarrow> payload" where
  "upsEventPayload u = [(''on_battery'', PBool (UPSOnBattery u)), (''battery_status'', PInt (us_BatteryStatus u)), (''output_source'', PInt (us_OutputSource u))]
     @ (if UPSTitle u \<noteq> [] then [(''ups_model'', PStr (UPSTitle u))] else [])
     @ opt_pl ''battery_charge_pct'' (us_BatteryChargePct u) @ opt_int ''runtime_min'' (us_RuntimeMin u)
     @ opt_int ''seconds_on_battery'' (us_SecondsOnBattery u) @ opt_pl ''battery_voltage_v'' (us_BatteryVoltageV u)
     @ opt_pl ''battery_temp_c'' (us_BatteryTempC u) @ opt_pl ''input_voltage_v'' (us_InputVoltageV u)
     @ opt_pl ''output_voltage_v'' (us_OutputVoltageV u) @ opt_pl ''output_w'' (us_OutputPowerW u)
     @ opt_pl ''output_load_pct'' (us_OutputLoadPct u) @ opt_int ''alarms_present'' (us_AlarmsPresent u)"

text \<open>The speed of the discharge in per cent a minute, and the drop\<close>
definition upsDischargeRate :: "UPSSnapshot \<Rightarrow> UPSSnapshot \<Rightarrow> (rat \<times> rat) option" where
  "upsDischargeRate prev cur =
     (if \<not> UPSOnBattery cur then None
      else case (us_BatteryChargePct prev, us_BatteryChargePct cur) of
        (Some pc, Some cc) \<Rightarrow>
          let dt = (case (us_PolledAt cur, us_PolledAt prev) of (Some c, Some p) \<Rightarrow> c - p | (Some c, None) \<Rightarrow> c | _ \<Rightarrow> 0)
          in if dt < minute then None else if pc - cc \<le> 0 then None
             else Some ((pc - cc) / (of_int dt / of_int minute), pc - cc)
      | _ \<Rightarrow> None)"

type_synonym alert = "string \<times> string"

definition alert_if :: "bool \<Rightarrow> string \<Rightarrow> string \<Rightarrow> alert list" where
  "alert_if b t sev = (if b then [(t, sev)] else [])"

definition power_alerts :: "bool \<Rightarrow> bool \<Rightarrow> alert list" where
  "power_alerts prevOn curOn = alert_if (\<not> prevOn \<and> curOn) ''UPS_ON_BATTERY'' ''error'' @ alert_if (prevOn \<and> \<not> curOn) ''UPS_MAINS_OK'' ''info''"

definition battery_alerts :: "int \<Rightarrow> int \<Rightarrow> alert list" where
  "battery_alerts p c = (if c = 4 \<and> p \<noteq> 4 then [(''UPS_BATTERY_DEPLETED'', ''error'')]
       else if c = 3 \<and> p \<noteq> 3 then [(''UPS_BATTERY_LOW'', ''warning'')] else [])
     @ alert_if (c = 2 \<and> (p = 3 \<or> p = 4)) ''UPS_BATTERY_OK'' ''info''"

definition temp_alerts :: "rat option \<Rightarrow> rat option \<Rightarrow> alert list" where
  "temp_alerts p c = (case (c, p) of
     (Some ct, Some pt) \<Rightarrow> if 55 \<le> ct \<and> pt < 55 then [(''UPS_TEMP_CRITICAL'', ''error'')]
        else if 45 \<le> ct \<and> pt < 45 then [(''UPS_TEMP_HIGH'', ''warning'')] else []
   | _ \<Rightarrow> [])"

definition alarm_alerts :: "int option \<Rightarrow> int option \<Rightarrow> alert list" where
  "alarm_alerts p c = (let pa = (case p of Some n \<Rightarrow> n | None \<Rightarrow> 0); ca = (case c of Some n \<Rightarrow> n | None \<Rightarrow> 0)
     in alert_if (pa = 0 \<and> ca > 0) ''UPS_ALARM'' ''warning'' @ alert_if (pa > 0 \<and> ca = 0) ''UPS_ALARM_CLEAR'' ''info'')"

definition load_alerts :: "rat option \<Rightarrow> rat option \<Rightarrow> alert list" where
  "load_alerts p c = (case (c, p) of
     (Some cl, Some pl) \<Rightarrow> alert_if (90 \<le> cl \<and> pl < 90) ''UPS_LOAD_HIGH'' ''warning'' @ alert_if (90 \<le> pl \<and> cl < 80) ''UPS_LOAD_OK'' ''info''
   | _ \<Rightarrow> [])"

definition charge_alerts :: "bool \<Rightarrow> bool \<Rightarrow> rat option \<Rightarrow> rat option \<Rightarrow> alert list" where
  "charge_alerts prevOn curOn p c = (case c of None \<Rightarrow> []
     | Some cc \<Rightarrow>
         (if cc \<le> 20 \<and> (case p of None \<Rightarrow> True | Some pc \<Rightarrow> pc > 20) then [(''UPS_CHARGE_CRITICAL'', ''error'')]
          else if cc \<le> 50 \<and> (case p of None \<Rightarrow> True | Some pc \<Rightarrow> pc > 50) then [(''UPS_CHARGE_LOW'', ''warning'')] else [])
         @ (case p of None \<Rightarrow> []
            | Some pc \<Rightarrow> alert_if (60 \<le> cc \<and> pc < 60) ''UPS_CHARGE_OK'' ''info''
                @ alert_if (\<not> curOn \<and> \<not> prevOn \<and> 10 \<le> pc - cc) ''UPS_CHARGE_DROP'' ''warning''))"

definition fast_discharge :: "UPSSnapshot \<Rightarrow> UPSSnapshot \<Rightarrow> (rat \<times> rat) option" where
  "fast_discharge prev cur = (case upsDischargeRate prev cur of None \<Rightarrow> None
     | Some (rate, drp) \<Rightarrow> if 2 \<le> rate \<and> 3 \<le> drp then Some (rate, drp) else None)"

definition runtime_alerts :: "bool \<Rightarrow> int option \<Rightarrow> int option \<Rightarrow> alert list" where
  "runtime_alerts curOn p c = (case c of None \<Rightarrow> []
     | Some m \<Rightarrow> alert_if (curOn \<and> m \<le> 10 \<and> (case p of None \<Rightarrow> True | Some pm \<Rightarrow> pm > 10)) ''UPS_RUNTIME_LOW'' ''warning'')"

definition long_alerts :: "bool \<Rightarrow> int option \<Rightarrow> int option \<Rightarrow> alert list" where
  "long_alerts curOn p c = (case c of None \<Rightarrow> []
     | Some cs \<Rightarrow> alert_if (curOn \<and> 600 \<le> cs \<and> (case p of None \<Rightarrow> 0 | Some ps \<Rightarrow> ps) < 600) ''UPS_ON_BATTERY_LONG'' ''error'')"

text \<open>
  The alerts of a change; all share one payload, so the values of a fast discharge, which is added to it before the alert,
  are in every one of them.
\<close>
definition upsAlertEvents :: "UPSSnapshot option \<Rightarrow> UPSSnapshot \<Rightarrow> (string \<times> string \<times> payload) list" where
  "upsAlertEvents prev0 cur = (case prev0 of None \<Rightarrow> []
     | Some prev \<Rightarrow> if \<not> HasData prev then []
        else let prevOn = UPSOnBattery prev; curOn = UPSOnBattery cur; fast = fast_discharge prev cur;
            pl = upsEventPayload cur @ (case fast of None \<Rightarrow> [] | Some (rate, drp) \<Rightarrow> [(''discharge_pct_per_min'', PNum rate), (''charge_drop_pct'', PNum drp)]);
            alerts = power_alerts prevOn curOn @ battery_alerts (us_BatteryStatus prev) (us_BatteryStatus cur)
              @ temp_alerts (us_BatteryTempC prev) (us_BatteryTempC cur) @ alarm_alerts (us_AlarmsPresent prev) (us_AlarmsPresent cur)
              @ load_alerts (us_OutputLoadPct prev) (us_OutputLoadPct cur)
              @ charge_alerts prevOn curOn (us_BatteryChargePct prev) (us_BatteryChargePct cur)
              @ alert_if (fast \<noteq> None) ''UPS_DISCHARGE_FAST'' ''warning''
              @ runtime_alerts curOn (us_RuntimeMin prev) (us_RuntimeMin cur)
              @ long_alerts curOn (us_SecondsOnBattery prev) (us_SecondsOnBattery cur)
          in map (\<lambda>(t, sev). (t, sev, pl)) alerts)"

section \<open>The poll\<close>

record ups_state =
  up_snap :: "UPSSnapshot option"
  up_alert_at :: "time option"
  up_sent :: "(time \<times> string \<times> string \<times> payload) list"
  up_samples :: "(time \<times> string \<times> rat) list"

text \<open>The outcome of a poll: what the card answers, whether the snapshot and the samples are stored, the settings\<close>
record ups_world =
  uw_answer :: "(string \<Rightarrow> ups_pdu) option"
  uw_sysName :: string
  uw_save :: bool
  uw_insert :: bool
  uw_metrics :: bool

definition upsDischargeAlertDue :: "time \<Rightarrow> ups_state \<Rightarrow> bool \<times> ups_state" where
  "upsDischargeAlertDue now st = (if (case up_alert_at st of Some t \<Rightarrow> now - t < upsDischargeCooldown | None \<Rightarrow> False) then (False, st)
     else (True, st\<lparr>up_alert_at := Some now\<rparr>))"

definition upsMetricDue :: "UPSSnapshot option \<Rightarrow> time \<Rightarrow> bool" where
  "upsMetricDue prev now = (case prev of None \<Rightarrow> True | Some p \<Rightarrow> (case us_PolledAt p of None \<Rightarrow> True
     | Some t \<Rightarrow> upsMetricInterval - upsMetricJitter \<le> now - t))"

definition recordUPSMetrics :: "ups_world \<Rightarrow> UPSSnapshot option \<Rightarrow> UPSSnapshot \<Rightarrow> time \<Rightarrow> ups_state \<Rightarrow> ups_state" where
  "recordUPSMetrics w prev cur now st =
     (if \<not> uw_metrics w then st
      else if \<not> (case prev of None \<Rightarrow> True | Some p \<Rightarrow> UPSOnBattery p \<noteq> UPSOnBattery cur) \<and> \<not> upsMetricDue prev now then st
      else let samples = map (\<lambda>(t, v). (now, t, v)) (UPSMetricValues cur)
        in if samples = [] \<or> \<not> uw_insert w then st else st\<lparr>up_samples := samples @ up_samples st\<rparr>)"

definition send_alert :: "time \<Rightarrow> string \<times> string \<times> payload \<Rightarrow> ups_state \<Rightarrow> ups_state" where
  "send_alert now a st = (if fst a = ''UPS_DISCHARGE_FAST''
     then case upsDischargeAlertDue now st of (due, st) \<Rightarrow> if due then st\<lparr>up_sent := (now, a) # up_sent st\<rparr> else st
     else st\<lparr>up_sent := (now, a) # up_sent st\<rparr>)"

definition pollUPS :: "ups_world \<Rightarrow> time \<Rightarrow> ups_state \<Rightarrow> ups_state" where
  "pollUPS w now st = (case ReadUPS (uw_answer w) (uw_sysName w) now of
     Some (Some cur0) \<Rightarrow>
       let cur = cur0\<lparr>us_PolledAt := Some now\<rparr>; prev = up_snap st;
           st = fold (send_alert now) (upsAlertEvents prev cur) st;
           st = (if uw_save w then st\<lparr>up_snap := Some cur\<rparr> else st)
       in recordUPSMetrics w prev cur now st
   | _ \<Rightarrow> st)"

section \<open>What a reading guarantees\<close>

definition sane :: "UPSSnapshot \<Rightarrow> bool" where
  "sane u \<longleftrightarrow> HasData u \<and> (case us_AlarmsPresent u of Some n \<Rightarrow> 0 \<le> n | None \<Rightarrow> True) \<and> (us_OnBattery u \<longleftrightarrow> UPSOnBattery u)"

lemma upsIntPtr_nonneg: "upsIntPtr p 0 = Some n \<Longrightarrow> 0 \<le> n"
  by (auto simp: upsIntPtr_def upsIntOf_def split: ups_pdu.splits if_splits)

lemma upsFromPDUs_sane:
  assumes "upsFromPDUs pdus now = Some u" shows "sane u"
proof -
  have data: "HasData u" using assms unfolding upsFromPDUs_def Let_def by (metis option.distinct(1) option.inject)
  have "us_AlarmsPresent u = upsIntPtr (pdus ''1.3.6.1.2.1.33.1.6.1.0'') 0"
    "us_OnBattery u \<longleftrightarrow> us_OutputSource u = 5 \<or> (case us_SecondsOnBattery u of Some s \<Rightarrow> s > 0 | None \<Rightarrow> False)"
    using assms unfolding upsFromPDUs_def Let_def by (auto split: if_splits)
  then show ?thesis using data by (auto simp: sane_def UPSOnBattery_def upsIntPtr_nonneg split: option.split)
qed

text \<open>The snapshot a poll works with, if it has one\<close>
definition read_of :: "ups_world \<times> time \<Rightarrow> UPSSnapshot option" where
  "read_of x = (case x of (w, now) \<Rightarrow> (case ReadUPS (uw_answer w) (uw_sysName w) now of Some (Some u) \<Rightarrow> Some (u\<lparr>us_PolledAt := Some now\<rparr>) | _ \<Rightarrow> None))"

lemma read_of_sane:
  assumes "read_of (w, now) = Some cur" shows "sane cur" "us_PolledAt cur = Some now"
proof -
  from assms obtain u where u: "ReadUPS (uw_answer w) (uw_sysName w) now = Some (Some u)" "cur = u\<lparr>us_PolledAt := Some now\<rparr>"
    by (auto simp: read_of_def split: option.splits)
  then obtain pdus v where v: "upsFromPDUs pdus now = Some v" "u = v \<or> u = v\<lparr>us_IdentName := TrimSpace (uw_sysName w)\<rparr> \<and> us_IdentName v = []"
    by (auto simp: ReadUPS_def split: option.splits if_splits)
  from upsFromPDUs_sane [OF v(1)] v(2) u(2) show "sane cur"
    by (auto simp: sane_def HasData_def UPSOnBattery_def)
  show "us_PolledAt cur = Some now" by (simp add: u(2))
qed

lemma read_of_id: "read_of (w, now) = Some cur \<Longrightarrow> cur\<lparr>us_PolledAt := Some now\<rparr> = cur"
  by (auto simp: read_of_def split: option.splits)

section \<open>One poll\<close>

lemma pollUPS_none: "read_of (w, now) = None \<Longrightarrow> pollUPS w now st = st"
  by (auto simp: read_of_def pollUPS_def split: option.splits)

definition send_all :: "time \<Rightarrow> UPSSnapshot \<Rightarrow> ups_state \<Rightarrow> ups_state" where
  "send_all now cur st = fold (send_alert now) (upsAlertEvents (up_snap st) cur) st"

lemma pollUPS_some:
  assumes "read_of (w, now) = Some cur"
  shows "pollUPS w now st = recordUPSMetrics w (up_snap st) cur now (if uw_save w then (send_all now cur st)\<lparr>up_snap := Some cur\<rparr> else send_all now cur st)"
  using assms by (auto simp: read_of_def pollUPS_def send_all_def Let_def split: option.splits)

lemma record_other [simp]: "up_snap (recordUPSMetrics w p c now st) = up_snap st" "up_sent (recordUPSMetrics w p c now st) = up_sent st"
  "up_alert_at (recordUPSMetrics w p c now st) = up_alert_at st"
  by (simp_all add: recordUPSMetrics_def Let_def)

lemma send_alert_snap [simp]: "up_snap (send_alert now a st) = up_snap st"
  by (simp add: send_alert_def upsDischargeAlertDue_def split: prod.split option.split)

lemma send_fold_snap [simp]: "up_snap (fold (send_alert now) as st) = up_snap st"
  by (induction as arbitrary: st) simp_all

lemma send_all_snap [simp]: "up_snap (send_all now cur st) = up_snap st"
  by (simp add: send_all_def)

text \<open>The events of the types \<open>T\<close>, the latest first\<close>
definition sent_of :: "string list \<Rightarrow> ups_state \<Rightarrow> string list" where
  "sent_of T st = filter (\<lambda>t. t \<in> set T) (map (fst \<circ> snd) (up_sent st))"

lemma send_alert_sent:
  assumes "''UPS_DISCHARGE_FAST'' \<notin> set T"
  shows "sent_of T (send_alert now a st) = (if fst a \<in> set T then fst a # sent_of T st else sent_of T st)"
  using assms by (auto simp: send_alert_def sent_of_def upsDischargeAlertDue_def split: option.split)

lemma send_fold_sent:
  assumes "''UPS_DISCHARGE_FAST'' \<notin> set T"
  shows "sent_of T (fold (send_alert now) as st) = rev (filter (\<lambda>t. t \<in> set T) (map fst as)) @ sent_of T st"
  by (induction as arbitrary: st) (simp_all add: send_alert_sent [OF assms])

section \<open>Events that tell a state\<close>

text \<open>A property of snapshots with an event for its beginning and one for its end\<close>
locale told_state =
  fixes active :: "UPSSnapshot \<Rightarrow> bool" and up dn :: string
  assumes alerts: "sane prev \<Longrightarrow> sane cur \<Longrightarrow> filter (\<lambda>t. t \<in> set [up, dn]) (map fst (upsAlertEvents (Some prev) cur))
      = (if \<not> active prev \<and> active cur then [up] else if active prev \<and> \<not> active cur then [dn] else [])"
    and names: "up \<noteq> dn" "''UPS_DISCHARGE_FAST'' \<notin> set [up, dn]"
begin

definition tells :: "UPSSnapshot list \<Rightarrow> ups_state \<Rightarrow> bool" where
  "tells snaps st \<longleftrightarrow> (case snaps of [] \<Rightarrow> up_snap st = None \<and> sent_of [up, dn] st = []
     | s # _ \<Rightarrow> up_snap st = Some s \<and> remdups_adj (map active snaps) = map (\<lambda>t. t = up) (sent_of [up, dn] st) @ [active (last snaps)])
   \<and> (\<forall>s\<in>set snaps. sane s)"

lemma poll_tells:
  assumes "tells snaps st" "uw_save w"
  shows "tells (case read_of (w, now) of None \<Rightarrow> snaps | Some cur \<Rightarrow> cur # snaps) (pollUPS w now st)"
proof (cases "read_of (w, now)")
  case None
  then show ?thesis using assms(1) by (simp add: pollUPS_none)
next
  case (Some cur)
  note cur = read_of_sane(1) [OF Some]
  have snap: "up_snap (pollUPS w now st) = Some cur" using assms(2) by (simp add: pollUPS_some [OF Some])
  have sent0: "sent_of [up, dn] (pollUPS w now st) = sent_of [up, dn] (send_all now cur st)"
    using assms(2) by (simp add: pollUPS_some [OF Some] sent_of_def)
  have sent: "sent_of [up, dn] (pollUPS w now st)
      = rev (filter (\<lambda>t. t \<in> set [up, dn]) (map fst (upsAlertEvents (up_snap st) cur))) @ sent_of [up, dn] st"
    unfolding sent0 send_all_def by (rule send_fold_sent [OF names(2)])
  show ?thesis
  proof (cases snaps)
    case Nil
    then have "up_snap st = None" "sent_of [up, dn] st = []" using assms(1) by (simp_all add: tells_def)
    then show ?thesis using Nil Some snap sent cur by (simp add: tells_def upsAlertEvents_def)
  next
    case (Cons s ss)
    then have s: "up_snap st = Some s" "sane s" "remdups_adj (map active snaps) = map (\<lambda>t. t = up) (sent_of [up, dn] st) @ [active (last snaps)]"
      "\<forall>s\<in>set snaps. sane s" using assms(1) by (simp_all add: tells_def)
    have al: "filter (\<lambda>t. t \<in> set [up, dn]) (map fst (upsAlertEvents (up_snap st) cur))
      = (if \<not> active s \<and> active cur then [up] else if active s \<and> \<not> active cur then [dn] else [])"
      unfolding s(1) by (rule alerts [OF s(2) cur])
    have "remdups_adj (map active (cur # snaps)) = (if active cur = active s then [] else [active cur]) @ remdups_adj (map active snaps)"
      using Cons by simp
    then have "remdups_adj (map active (cur # snaps)) = map (\<lambda>t. t = up) (sent_of [up, dn] (pollUPS w now st)) @ [active (last (cur # snaps))]"
      unfolding sent al s(3) using names(1) Cons by auto
    then show ?thesis using Some snap cur s(4) by (simp add: tells_def del: remdups_adj.simps)
  qed
qed

end

definition ups_init :: ups_state where
  "ups_init = \<lparr>up_snap = None, up_alert_at = None, up_sent = [], up_samples = []\<rparr>"

definition ups_run :: "(ups_world \<times> time) list \<Rightarrow> ups_state" where
  "ups_run ws = fold (\<lambda>(w, now). pollUPS w now) ws ups_init"

text \<open>The snapshots of the polls that had one, the latest first\<close>
definition snaps_of :: "(ups_world \<times> time) list \<Rightarrow> UPSSnapshot list" where
  "snaps_of ws = rev (List.map_filter read_of ws)"

lemma ups_run_snoc: "ups_run (ws @ [(w, now)]) = pollUPS w now (ups_run ws)"
  by (simp add: ups_run_def)

lemma snaps_snoc: "snaps_of (ws @ [x]) = (case read_of x of None \<Rightarrow> snaps_of ws | Some cur \<Rightarrow> cur # snaps_of ws)"
  by (simp add: snaps_of_def map_filter_def split: option.split)

context told_state
begin

lemma run_tells: "\<forall>(w, now)\<in>set ws. uw_save w \<Longrightarrow> tells (snaps_of ws) (ups_run ws)"
proof (induction ws rule: rev_induct)
  case Nil
  then show ?case by (simp add: tells_def snaps_of_def ups_run_def ups_init_def sent_of_def map_filter_def)
next
  case (snoc x ws)
  obtain w now where x: "x = (w, now)" by (cases x)
  have "tells (snaps_of ws) (ups_run ws)" "uw_save w" using snoc x by simp_all
  from poll_tells [OF this, of now] show ?case unfolding x ups_run_snoc snaps_snoc .
qed

lemma told:
  assumes "\<forall>(w, now)\<in>set ws. uw_save w"
  shows "remdups_adj (map active (snaps_of ws))
    = map (\<lambda>t. t = up) (sent_of [up, dn] (ups_run ws)) @ (if snaps_of ws = [] then [] else [active (last (snaps_of ws))])"
  using run_tells [OF assms] by (cases "snaps_of ws") (simp_all add: tells_def)

end

lemma filter_alert_if: "filter P (map fst (alert_if b t sev)) = (if b \<and> P t then [t] else [])"
  by (simp add: alert_if_def)

lemma alert_groups:
  "map fst (upsAlertEvents (Some prev) cur) = (if \<not> HasData prev then [] else
     map fst (power_alerts (UPSOnBattery prev) (UPSOnBattery cur)) @ map fst (battery_alerts (us_BatteryStatus prev) (us_BatteryStatus cur))
     @ map fst (temp_alerts (us_BatteryTempC prev) (us_BatteryTempC cur)) @ map fst (alarm_alerts (us_AlarmsPresent prev) (us_AlarmsPresent cur))
     @ map fst (load_alerts (us_OutputLoadPct prev) (us_OutputLoadPct cur))
     @ map fst (charge_alerts (UPSOnBattery prev) (UPSOnBattery cur) (us_BatteryChargePct prev) (us_BatteryChargePct cur))
     @ map fst (alert_if (fast_discharge prev cur \<noteq> None) ''UPS_DISCHARGE_FAST'' ''warning'')
     @ map fst (runtime_alerts (UPSOnBattery cur) (us_RuntimeMin prev) (us_RuntimeMin cur))
     @ map fst (long_alerts (UPSOnBattery cur) (us_SecondsOnBattery prev) (us_SecondsOnBattery cur)))"
  by (simp add: upsAlertEvents_def Let_def comp_def case_prod_beta)

lemma group_types:
  "set (map fst (power_alerts a b)) \<subseteq> {''UPS_ON_BATTERY'', ''UPS_MAINS_OK''}"
  "set (map fst (battery_alerts i j)) \<subseteq> {''UPS_BATTERY_DEPLETED'', ''UPS_BATTERY_LOW'', ''UPS_BATTERY_OK''}"
  "set (map fst (temp_alerts x y)) \<subseteq> {''UPS_TEMP_CRITICAL'', ''UPS_TEMP_HIGH''}"
  "set (map fst (alarm_alerts m n)) \<subseteq> {''UPS_ALARM'', ''UPS_ALARM_CLEAR''}"
  "set (map fst (load_alerts x y)) \<subseteq> {''UPS_LOAD_HIGH'', ''UPS_LOAD_OK''}"
  "set (map fst (charge_alerts a b x y)) \<subseteq> {''UPS_CHARGE_CRITICAL'', ''UPS_CHARGE_LOW'', ''UPS_CHARGE_OK'', ''UPS_CHARGE_DROP''}"
  "set (map fst (alert_if f ''UPS_DISCHARGE_FAST'' ''warning'')) \<subseteq> {''UPS_DISCHARGE_FAST''}"
  "set (map fst (runtime_alerts b m n)) \<subseteq> {''UPS_RUNTIME_LOW''}"
  "set (map fst (long_alerts b m n)) \<subseteq> {''UPS_ON_BATTERY_LONG''}"
  by (auto simp: power_alerts_def battery_alerts_def temp_alerts_def alarm_alerts_def load_alerts_def charge_alerts_def runtime_alerts_def
      long_alerts_def alert_if_def Let_def split: option.splits if_splits)

lemma filter_none: "set xs \<subseteq> A \<Longrightarrow> (\<forall>a\<in>A. \<not> P a) \<Longrightarrow> filter P xs = []"
  by (auto simp: filter_empty_conv)

lemma power_rest:
  "filter (\<lambda>t. t \<in> set [''UPS_ON_BATTERY'', ''UPS_MAINS_OK'']) (map fst (battery_alerts i j)) = []"
  "filter (\<lambda>t. t \<in> set [''UPS_ON_BATTERY'', ''UPS_MAINS_OK'']) (map fst (temp_alerts x y)) = []"
  "filter (\<lambda>t. t \<in> set [''UPS_ON_BATTERY'', ''UPS_MAINS_OK'']) (map fst (alarm_alerts m n)) = []"
  "filter (\<lambda>t. t \<in> set [''UPS_ON_BATTERY'', ''UPS_MAINS_OK'']) (map fst (load_alerts x y)) = []"
  "filter (\<lambda>t. t \<in> set [''UPS_ON_BATTERY'', ''UPS_MAINS_OK'']) (map fst (charge_alerts a b x y)) = []"
  "filter (\<lambda>t. t \<in> set [''UPS_ON_BATTERY'', ''UPS_MAINS_OK'']) (map fst (alert_if f ''UPS_DISCHARGE_FAST'' ''warning'')) = []"
  "filter (\<lambda>t. t \<in> set [''UPS_ON_BATTERY'', ''UPS_MAINS_OK'']) (map fst (runtime_alerts b m n)) = []"
  "filter (\<lambda>t. t \<in> set [''UPS_ON_BATTERY'', ''UPS_MAINS_OK'']) (map fst (long_alerts b m n)) = []"
  by (rule filter_none, rule group_types, simp)+

lemma alarm_rest:
  "filter (\<lambda>t. t \<in> set [''UPS_ALARM'', ''UPS_ALARM_CLEAR'']) (map fst (power_alerts a b)) = []"
  "filter (\<lambda>t. t \<in> set [''UPS_ALARM'', ''UPS_ALARM_CLEAR'']) (map fst (battery_alerts i j)) = []"
  "filter (\<lambda>t. t \<in> set [''UPS_ALARM'', ''UPS_ALARM_CLEAR'']) (map fst (temp_alerts x y)) = []"
  "filter (\<lambda>t. t \<in> set [''UPS_ALARM'', ''UPS_ALARM_CLEAR'']) (map fst (load_alerts x y)) = []"
  "filter (\<lambda>t. t \<in> set [''UPS_ALARM'', ''UPS_ALARM_CLEAR'']) (map fst (charge_alerts a b x y)) = []"
  "filter (\<lambda>t. t \<in> set [''UPS_ALARM'', ''UPS_ALARM_CLEAR'']) (map fst (alert_if f ''UPS_DISCHARGE_FAST'' ''warning'')) = []"
  "filter (\<lambda>t. t \<in> set [''UPS_ALARM'', ''UPS_ALARM_CLEAR'']) (map fst (runtime_alerts b m n)) = []"
  "filter (\<lambda>t. t \<in> set [''UPS_ALARM'', ''UPS_ALARM_CLEAR'']) (map fst (long_alerts b m n)) = []"
  by (rule filter_none, rule group_types, simp)+

lemma power_alerts_told:
  "filter (\<lambda>t. t \<in> set [''UPS_ON_BATTERY'', ''UPS_MAINS_OK'']) (map fst (power_alerts p c))
   = (if \<not> p \<and> c then [''UPS_ON_BATTERY''] else if p \<and> \<not> c then [''UPS_MAINS_OK''] else [])"
  by (simp add: power_alerts_def alert_if_def)

definition alarms_on :: "UPSSnapshot \<Rightarrow> bool" where
  "alarms_on u \<longleftrightarrow> (case us_AlarmsPresent u of Some n \<Rightarrow> 0 < n | None \<Rightarrow> False)"

lemma alarm_alerts_told:
  assumes "sane prev" "sane cur"
  shows "filter (\<lambda>t. t \<in> set [''UPS_ALARM'', ''UPS_ALARM_CLEAR'']) (map fst (alarm_alerts (us_AlarmsPresent prev) (us_AlarmsPresent cur)))
   = (if \<not> alarms_on prev \<and> alarms_on cur then [''UPS_ALARM''] else if alarms_on prev \<and> \<not> alarms_on cur then [''UPS_ALARM_CLEAR''] else [])"
  using assms by (auto simp: alarm_alerts_def alert_if_def alarms_on_def sane_def Let_def split: option.splits)

interpretation power: told_state UPSOnBattery "''UPS_ON_BATTERY''" "''UPS_MAINS_OK''"
proof
  fix prev cur assume "sane prev" "sane cur"
  then have "HasData prev" by (simp add: sane_def)
  then show "filter (\<lambda>t. t \<in> set [''UPS_ON_BATTERY'', ''UPS_MAINS_OK'']) (map fst (upsAlertEvents (Some prev) cur))
      = (if \<not> UPSOnBattery prev \<and> UPSOnBattery cur then [''UPS_ON_BATTERY''] else if UPSOnBattery prev \<and> \<not> UPSOnBattery cur then [''UPS_MAINS_OK''] else [])"
    by (simp only: alert_groups filter_append power_alerts_told power_rest if_False not_True_eq_False append_Nil2)
qed simp_all

interpretation alarm: told_state alarms_on "''UPS_ALARM''" "''UPS_ALARM_CLEAR''"
proof
  fix prev cur assume s: "sane prev" "sane cur"
  then have "HasData prev" by (simp add: sane_def)
  then show "filter (\<lambda>t. t \<in> set [''UPS_ALARM'', ''UPS_ALARM_CLEAR'']) (map fst (upsAlertEvents (Some prev) cur))
      = (if \<not> alarms_on prev \<and> alarms_on cur then [''UPS_ALARM''] else if alarms_on prev \<and> \<not> alarms_on cur then [''UPS_ALARM_CLEAR''] else [])"
    by (simp only: alert_groups filter_append alarm_alerts_told [OF s] alarm_rest if_False not_True_eq_False append_Nil append_Nil2)
qed simp_all

section \<open>The properties\<close>

text \<open>C15. Over any sequence of polls whose snapshots are stored, with failed and empty readings between them, the events on the mains tell
  exactly how the supply changed: the sequence of its states (battery or mains), repetitions left out, is the
  first state followed by the states the events announce; so the two events alternate, none is sent without a
  change and none is missing. The same holds for the events on alarms of the device.\<close>
theorem ups_events_tell:
  assumes "\<forall>(w, now)\<in>set ws. uw_save w"
  shows "remdups_adj (map UPSOnBattery (snaps_of ws))
      = map (\<lambda>t. t = ''UPS_ON_BATTERY'') (sent_of [''UPS_ON_BATTERY'', ''UPS_MAINS_OK''] (ups_run ws))
        @ (if snaps_of ws = [] then [] else [UPSOnBattery (last (snaps_of ws))])
    \<and> remdups_adj (map alarms_on (snaps_of ws))
      = map (\<lambda>t. t = ''UPS_ALARM'') (sent_of [''UPS_ALARM'', ''UPS_ALARM_CLEAR''] (ups_run ws))
        @ (if snaps_of ws = [] then [] else [alarms_on (last (snaps_of ws))])"
  using power.told [OF assms] alarm.told [OF assms] by blast

definition card_says :: "int \<Rightarrow> int \<Rightarrow> string \<Rightarrow> ups_pdu" where
  "card_says src alarms o' = (if o' = ''1.3.6.1.2.1.33.1.4.1.0'' then Number src else if o' = ''1.3.6.1.2.1.33.1.6.1.0'' then Number alarms
     else if o' = ''1.3.6.1.2.1.33.1.2.1.0'' then Number 2 else NoValue)"

definition ups_answer :: "(string \<Rightarrow> ups_pdu) option \<Rightarrow> ups_world" where
  "ups_answer a = \<lparr>uw_answer = a, uw_sysName = ''ups1'', uw_save = True, uw_insert = True, uw_metrics = True\<rparr>"

definition sample_polls :: "(ups_world \<times> time) list" where
  "sample_polls = [(ups_answer (Some (card_says 3 0)), minute), (ups_answer (Some (card_says 5 0)), 2 * minute), (ups_answer None, 3 * minute),
     (ups_answer (Some (card_says 5 1)), 4 * minute), (ups_answer (Some (card_says 3 0)), 5 * minute)]"

text \<open>The mains fail and come back, with an alarm and a poll without an answer in between.\<close>
lemma ups_events_tell_witness:
  "sent_of [''UPS_ON_BATTERY'', ''UPS_MAINS_OK''] (ups_run sample_polls) = [''UPS_MAINS_OK'', ''UPS_ON_BATTERY'']
   \<and> remdups_adj (map UPSOnBattery (snaps_of sample_polls)) = [False, True, False]"
proof -
  have save: "\<forall>(w, now)\<in>set sample_polls. uw_save w" by (simp add: sample_polls_def ups_answer_def)
  have sent: "sent_of [''UPS_ON_BATTERY'', ''UPS_MAINS_OK''] (ups_run sample_polls) = [''UPS_MAINS_OK'', ''UPS_ON_BATTERY'']" by code_simp
  have first: "snaps_of sample_polls \<noteq> []" "\<not> UPSOnBattery (last (snaps_of sample_polls))" by code_simp+
  from ups_events_tell [OF save] show ?thesis unfolding sent using first by simp
qed

text \<open>The latest warning of a fast discharge is the one that is remembered, and the warnings lie ten minutes apart.\<close>
definition fast_at :: "ups_state \<Rightarrow> time list" where
  "fast_at st = map fst (filter (\<lambda>x. fst (snd x) = ''UPS_DISCHARGE_FAST'') (up_sent st))"

definition fast_ok :: "ups_state \<Rightarrow> bool" where
  "fast_ok st \<longleftrightarrow> sorted_wrt (\<lambda>t t'. t' + upsDischargeCooldown \<le> t) (fast_at st) \<and> up_alert_at st = (case fast_at st of [] \<Rightarrow> None | t # _ \<Rightarrow> Some t)"

lemma spaced_Cons: "sorted_wrt (\<lambda>t t'. t' + upsDischargeCooldown \<le> t) ts \<Longrightarrow> (case ts of [] \<Rightarrow> True | t # _ \<Rightarrow> upsDischargeCooldown \<le> now - t)
    \<Longrightarrow> sorted_wrt (\<lambda>t t'. t' + upsDischargeCooldown \<le> t) (now # ts)"
  by (cases ts) (auto simp: upsDischargeCooldown_def minute_def)

lemma send_alert_fast: "fast_ok st \<Longrightarrow> fast_ok (send_alert now a st)"
proof (cases "fst a = ''UPS_DISCHARGE_FAST''")
  case True
  assume ok: "fast_ok st"
  show ?thesis
  proof (cases "fst (upsDischargeAlertDue now st)")
    case due: True
    have at: "fast_at (send_alert now a st) = now # fast_at st" "up_alert_at (send_alert now a st) = Some now"
      using True due by (auto simp: send_alert_def upsDischargeAlertDue_def fast_at_def split: option.splits if_splits)
    have "case fast_at st of [] \<Rightarrow> True | t # _ \<Rightarrow> upsDischargeCooldown \<le> now - t"
      using ok due by (auto simp: fast_ok_def upsDischargeAlertDue_def split: list.splits if_splits)
    then show ?thesis using ok spaced_Cons [of "fast_at st" now] by (simp add: fast_ok_def at)
  next
    case False
    then have "send_alert now a st = st" using True by (auto simp: send_alert_def upsDischargeAlertDue_def split: option.splits if_splits)
    then show ?thesis using ok by simp
  qed
next
  case False
  then have "fast_at (send_alert now a st) = fast_at st" "up_alert_at (send_alert now a st) = up_alert_at st"
    by (simp_all add: send_alert_def fast_at_def)
  then show "fast_ok st \<Longrightarrow> ?thesis" by (simp add: fast_ok_def)
qed

lemma poll_fast: "fast_ok st \<Longrightarrow> fast_ok (pollUPS w now st)"
proof -
  assume ok: "fast_ok st"
  have "fast_ok st \<Longrightarrow> fast_ok (fold (send_alert now) as st)" for as st
    by (induction as arbitrary: st) (simp_all add: send_alert_fast)
  then have "fast_ok (send_all now cur st)" for cur using ok by (simp add: send_all_def)
  then show ?thesis using ok
    by (cases "read_of (w, now)") (simp_all add: pollUPS_none pollUPS_some fast_ok_def fast_at_def)
qed

text \<open>Warnings of a fast discharge of one supply lie at least ten minutes apart while the server runs, whatever the polls read.\<close>
theorem discharge_warnings_apart: "sorted_wrt (\<lambda>t t'. t' + upsDischargeCooldown \<le> t) (fast_at (ups_run ws))"
proof -
  have "fast_ok (fold (\<lambda>(w, now). pollUPS w now) ws st)" if "fast_ok st" for st
    using that by (induction ws arbitrary: st) (auto simp: poll_fast)
  moreover have "fast_ok ups_init" by (simp add: fast_ok_def fast_at_def ups_init_def)
  ultimately show ?thesis unfolding ups_run_def fast_ok_def by blast
qed

section \<open>What goes wrong\<close>

text \<open>The next poll comes before the interval of the history is over, less the jitter, and finds the supply in the same state.\<close>
fun close_polls :: "UPSSnapshot \<Rightarrow> (ups_world \<times> time) list \<Rightarrow> bool" where
  "close_polls p [] \<longleftrightarrow> True"
| "close_polls p ((w, now) # ws) \<longleftrightarrow> (case (us_PolledAt p, read_of (w, now)) of
      (Some t, Some cur) \<Rightarrow> uw_save w \<and> now - t < upsMetricInterval - upsMetricJitter \<and> UPSOnBattery cur = UPSOnBattery p \<and> close_polls cur ws
    | _ \<Rightarrow> False)"

text \<open>
  The interval of the history is measured from the snapshot, which every poll replaces: when polls are closer than 4:40 minutes, as they
  are with any usual setting, nothing is recorded after the first poll as long as the supply does not change between mains and battery.
\<close>
lemma history_stalls: "up_snap st = Some p \<Longrightarrow> close_polls p ws \<Longrightarrow> up_samples (fold (\<lambda>(w, now). pollUPS w now) ws st) = up_samples st"
proof (induction ws arbitrary: p st)
  case (Cons x ws)
  obtain w now where x: "x = (w, now)" by (cases x)
  from Cons.prems(2) obtain t cur where c: "us_PolledAt p = Some t" "read_of (w, now) = Some cur" "uw_save w"
    "now - t < upsMetricInterval - upsMetricJitter" "UPSOnBattery cur = UPSOnBattery p" "close_polls cur ws"
    unfolding x by (auto split: option.splits)
  have samples: "up_samples (send_alert now a st) = up_samples st" for a st
    by (simp add: send_alert_def upsDischargeAlertDue_def split: option.split)
  have "up_samples (fold (send_alert now) as st) = up_samples st" for as
    by (induction as arbitrary: st) (simp_all add: samples)
  then have "up_samples (pollUPS w now st) = up_samples st"
    using c Cons.prems(1) by (simp add: pollUPS_some [OF c(2)] recordUPSMetrics_def upsMetricDue_def send_all_def)
  moreover have "up_snap (pollUPS w now st) = Some cur" using c(3) by (simp add: pollUPS_some [OF c(2)])
  ultimately show ?case using Cons.IH [OF _ c(6)] by (simp add: x)
qed simp

lemma history_stalls_example:
  "map fst (up_samples (ups_run (map (\<lambda>i. (ups_answer (Some (card_says 3 0)), i * minute)) [1, 2, 3, 4, 5, 6, 7, 8]))) = [minute]"
  by code_simp

text \<open>Between 80 and 90 per cent no end of the overload is reported: a load that falls from 92 to 85 and then to 75 never has its \<open>UPS_LOAD_OK\<close>.\<close>
lemma load_ok_is_lost: "load_alerts (Some 92) (Some 85) = [] \<and> load_alerts (Some 85) (Some 75) = []"
  by (simp add: load_alerts_def alert_if_def)

text \<open>A charge that swings between 50 and 51 per cent is reported as low at every second poll.\<close>
lemma charge_low_repeats: "charge_alerts False False (Some 51) (Some 50) = [(''UPS_CHARGE_LOW'', ''warning'')] \<and> charge_alerts False False (Some 50) (Some 51) = []"
  by (simp add: charge_alerts_def alert_if_def)

text \<open>A battery that is low, then in an unknown state, then normal, has no \<open>UPS_BATTERY_OK\<close>.\<close>
lemma battery_ok_is_lost: "battery_alerts 3 1 = [] \<and> battery_alerts 1 2 = []"
  by (simp add: battery_alerts_def alert_if_def)

end
