(* ===== verification/Spec2Isabelle.thy ===== *)
theory Spec2Isabelle
  imports Line_Diff Vlan_Blast Vlan_Names Auth_Http Reachability Fdb_Alerts Loop_Watch Notify_Send Poe_Schedule Ups_Alerts
begin

text \<open>
  NetLynx polls switches, routers, servers and printers over SNMP and ICMP, keeps what it sees in
  PostgreSQL, reports events, draws the topology, changes ports and VLANs of switches over SSH, and
  offers all of it behind an HTTP server with users and roles. This library models the parts of the
  server (directory \<open>src/internal\<close>) that decide something, as HOL functions that compute, and proves what
  makes them correct. Every name is the one of the Go source where Isabelle allows it; a function that
  Go writes as one long body is split at its statements, and each piece says which lines it stands for.

  \<^bold>\<open>The language\<close> (\<open>Go_Prelude\<close>). A Go string is a byte string, here a \<^typ>\<open>string\<close> with one \<^typ>\<open>char\<close> per byte;
  the functions of \<open>strings\<close> and \<open>strconv\<close> that the code calls are defined there. Words of other scripts
  are lists of their UTF-8 bytes. An \<open>int\<close> that cannot overflow on the values that reach it is \<^typ>\<open>int\<close> or
  \<^typ>\<open>nat\<close>; counters that wrap are kept at their width. A \<open>float64\<close> that is only compared is a rational
  number. An error is a value of a sum type or a text. A map is a function to \<open>option\<close>, or an association
  list where the code ranges over it: the order of the list is then the order of one range, and what
  is proved holds for every list. Time is an integer of nanoseconds.

  \<^bold>\<open>Switches and their VLANs\<close> (\<open>src/internal/swcfg\<close>).
  \<^item> \<open>Line_Diff\<close> (\<open>diff.go\<close>): the diff of two saved configurations, its table of longest common
    subsequences and the walk back through it. Both texts can be read back from a diff, and it is minimal.
  \<^item> \<open>Vlan_List\<close> (\<open>vlan.go\<close>): identifiers, lists such as \<open>1,5-9\<close>, and the requests with their validation.
  \<^item> \<open>Port_Config\<close> (\<open>port_mode.go\<close>, \<open>vlan.go\<close>): reading a running configuration, one interface block or VLAN
    line after the other. Blocks are independent of each other; the result is well formed for any text.
  \<^item> \<open>Vlan_Inventory\<close> (\<open>vlan.go\<close>): the VLANs of a switch with their ports, from the configuration, the stored
    access VLANs and the learned addresses, and the overlays that foresee a change. The inventory refines
    relations of members (\<open>untagged\<close>, \<open>tagged\<close>); the overlays refine updates of those relations.
  \<^item> \<open>Svi_Address\<close> (\<open>svi.go\<close>): addresses of VLAN interfaces and the management VLAN.
  \<^item> \<open>Switch_CLI\<close> (\<open>vendor.go\<close>, \<open>vendor_port.go\<close>, \<open>poe.go\<close>, \<open>mikrotik.go\<close> and others): which vendor a device is
    of, and the commands of a change in its dialect.
  \<^item> \<open>Cli_Session\<close> (\<open>portcfg.go\<close>, \<open>vlan_db.go\<close>, \<open>write_memory.go\<close>, \<open>mikrotik.go\<close>): the conversation with a switch
    over SSH. The switch is a function from the commands it has received to what it prints, so every theorem holds
    for every behaviour of a switch; a session that never ends is fuel that runs out, and
    \<open>ApplyPortChange_returns\<close> says when that happens.
  \<^item> \<open>Port_Live\<close> (\<open>port_live.go\<close>, \<open>dhcp_snoop.go\<close>) and \<open>Vlan_Names\<close>: the settings of one port and the names of VLANs
    read back; what the command builders write is what the readers read.

  \<^bold>\<open>The topology\<close> (\<open>src/internal/investigate\<close>).
  \<^item> \<open>Graph_Search\<close>: breadth-first search over any successor function, as the locale \<open>search_graph\<close>; the
    searches of the code are its interpretations.
  \<^item> \<open>Topology_Graph\<close> (\<open>vlan_blast.go\<close>, \<open>l2path.go\<close>): the graph from LLDP links, its root, distances, shortest paths.
  \<^item> \<open>Detour\<close>: the locale \<open>path_oracle\<close>, what the impact analyses need of a path search; \<open>ShortestPath\<close> provides it.
  \<^item> \<open>Vlan_Blast\<close> (\<open>vlan_blast.go\<close>): what deleting a VLAN from a switch would cut off. Verdict, affected devices and
    detours are characterised exactly, over the topology rather than over the loops that find them.

  \<^bold>\<open>Users\<close> (\<open>src/internal/api\<close>, \<open>store/users_audit.go\<close>, \<open>store/auth_security.go\<close>).
  \<^item> \<open>Login_Limit\<close> (\<open>login_limit.go\<close>): the counters of wrong passwords; the locale \<open>counted\<close> is interpreted for
    addresses and for names.
  \<^item> \<open>Access_Control\<close>: users, roles, refresh sessions and their rotation, tickets of the event stream, with the
    reachable states of the tables. Statements of SQL are atomic; the interleaving of two requests is modelled where
    it matters (\<open>last_admin_race\<close>).
  \<^item> \<open>Auth_Http\<close> (\<open>auth.go\<close>, \<open>rbac.go\<close>, \<open>sse.go\<close>, \<open>sse_ticket.go\<close>, \<open>users.go\<close>): the handlers. Hashes of passwords and the
    signing of tokens are arguments, with their documented behaviour as hypotheses.
  \<^item> \<open>Net_Addr\<close> (\<open>src/internal/netutil/outbound.go\<close>, and \<open>net.ParseIP\<close>): where the server may connect to. Names are
    resolved by an argument; what is dialled is what was checked.

  \<^bold>\<open>The poller\<close> (\<open>src/internal/poller\<close>, \<open>src/internal/snmp\<close>, \<open>src/internal/models\<close>, \<open>src/internal/traprecv\<close>).
  \<^item> \<open>Device_State\<close>: categories, reachability and the schedule of polls. \<open>Reachability\<close>: when a device is reported offline or
    back, as steps over the polls of a device with restarts of the server between them.
  \<^item> \<open>Mac_Text\<close> (\<open>store/netquery.go\<close>): MAC addresses as users type them.
  \<^item> \<open>Event_Log\<close> (\<open>emit\<close>, \<open>maybeIncidentAction\<close>, \<open>store/mac_moves.go\<close>): the log of events, silenced ports, and the port that
    is switched off after an incident.
  \<^item> \<open>Port_Roles\<close> (\<open>inferPortRole\<close>): access port or trunk.
  \<^item> \<open>Port_Alerts\<close> (\<open>pollOne\<close>, \<open>port_flap.go\<close>, \<open>store/snmp_trap_logs.go\<close>, \<open>traprecv/receiver.go\<close>): the loop over the ports of a
    device, and the link traps that run ahead of it.
  \<^item> \<open>Fdb_Walk\<close> (\<open>snmp/fdb.go\<close>), \<open>Fdb_Events\<close> (\<open>mac_moves.go\<close>, \<open>fdb_access_events.go\<close>) and \<open>Fdb_Alerts\<close> (\<open>mac_flap.go\<close>,
    \<open>broadcast_storm.go\<close>, \<open>access_port_security.go\<close>, \<open>pollFDB\<close>): the table of learned addresses from the objects of a walk, the
    difference to the earlier one, and the alerts: flapping, storms, substituted devices.
  A history is a list of steps (polls, traps, messages, restarts) that starts in the empty state; all claims about
  alerts hold along every history. A poll has one instant, as in the code, where \<open>now\<close> is read once. What
  the database answers besides the modelled tables is an argument of the step.

  \<^bold>\<open>Bounds and fuel.\<close> Loops of the code are structural recursion, or recursion on fuel that is computed from the
  input and proved enough (searches: the number of nodes). Loops that may not end (\<open>SupportsPortCLI\<close>, the prompts of a
  session) return \<open>None\<close> when they do not, and the theorems say when they do.

  \<^bold>\<open>Not modelled.\<close> The transport (SNMP packets, SSH, sockets), the encoding of HTTP and JSON, the SQL beyond
  the tables above, notifications, backup and restore, the discovery of unknown devices, the images of
  vendors, reports on outages, and the frontend.
\<close>

end
